(* ===== verification/Bmx_Prelude.thy ===== *)
theory Bmx_Prelude
  imports Main "HOL-Library.Word"
begin

text \<open>
  The vocabulary shared by the component theories of the BMX updater and remote interface.

  \<^item> Fixed-width integers: \<open>uint8_t\<close>, \<open>uint16_t\<close>, \<open>uint32_t\<close> and \<open>uint64_t\<close> are words of
    that width (the type synonyms below), so that addition wraps as it does in C++.  A
    \<open>size_t\<close> that only counts bytes of a buffer which exists in memory is a \<open>nat\<close>.
  \<^item> A pointer with a length (\<open>const uint8_t *, size_t\<close>) is a list of bytes; a pointer the code
    compares with null is an \<open>option\<close>.  A \<open>const char *\<close> string is the list of the bytes before
    its terminating NUL, read through \<open>cstr_at\<close>.
  \<^item> The C library functions the code calls (\<open>memchr\<close>, \<open>strchr\<close>, \<open>strcmp\<close>, \<open>strlen\<close>) are list
    functions with the lemmas the component proofs use.

  Two interfaces are stated here once as locales, because several components provide them:
  \<open>checked_number\<close>, the digit loops that refuse a value which does not fit 64 bits, and
  \<open>incremental\<close>, the consumers which may be fed their input in pieces.
\<close>

unbundle bit_operations_syntax

type_synonym byte = "8 word"
type_synonym u16 = "16 word"
type_synonym u32 = "32 word"
type_synonym u64 = "64 word"

named_theorems bmx_chars
named_theorems bmx_cstr
named_theorems feed_laws

section \<open>Bytes and characters\<close>

text \<open>
  The byte of a character literal.  It stays folded in proofs, so that goals keep the
  source's characters; \<open>bmx_chars\<close> unfolds it to its code where the order matters.
\<close>

definition ch :: "char \<Rightarrow> byte" where
  "ch c = of_char c"

lemma ch_eq_iff [simp]: "ch c = ch d \<longleftrightarrow> c = d"
proof -
  have "unat (ch c) = of_char c" for c
    unfolding ch_def by (simp add: of_char_def unat_of_nat horner_sum_simps)
  then show ?thesis by (metis of_char_eq_iff)
qed

definition bytes_of :: "string \<Rightarrow> byte list" where
  "bytes_of s = map ch s"

definition is_digit :: "byte \<Rightarrow> bool" where
  "is_digit c \<longleftrightarrow> ch CHR ''0'' \<le> c \<and> c \<le> ch CHR ''9''"

definition is_lower :: "byte \<Rightarrow> bool" where
  "is_lower c \<longleftrightarrow> ch CHR ''a'' \<le> c \<and> c \<le> ch CHR ''z''"

definition is_upper :: "byte \<Rightarrow> bool" where
  "is_upper c \<longleftrightarrow> ch CHR ''A'' \<le> c \<and> c \<le> ch CHR ''Z''"

text \<open>The ASCII lower-casing function which four source files define for themselves.\<close>

definition AsciiLower :: "byte \<Rightarrow> byte" where
  "AsciiLower c = (if is_upper c then c - ch CHR ''A'' + ch CHR ''a'' else c)"

lemmas [bmx_chars] = is_digit_def is_lower_def is_upper_def ch_def

lemma length_bytes_of [simp]: "length (bytes_of s) = length s"
  by (simp add: bytes_of_def)

lemma bytes_of_Nil [simp]: "bytes_of [] = []"
  and bytes_of_Cons [simp]: "bytes_of (c # cs) = ch c # bytes_of cs"
  and bytes_of_append: "bytes_of (s @ t) = bytes_of s @ bytes_of t"
  by (simp_all add: bytes_of_def)

lemma byte_exhaust_less: "unat (c :: byte) < 256"
  using unsigned_less [of c] by simp

lemma u64_less: "unat (t :: u64) < 2 ^ 64"
  using unsigned_less [of t] by simp

lemma unat_of_nat_small: "n < 2 ^ LENGTH('a) \<Longrightarrow> unat (of_nat n :: 'a::len word) = n"
  by (simp add: unat_of_nat)

section \<open>Searching and splitting\<close>

text \<open>\<open>index_of P xs\<close> is the position \<open>memchr\<close> and \<open>strchr\<close> return, \<open>None\<close> their null.\<close>

primrec index_of :: "('a \<Rightarrow> bool) \<Rightarrow> 'a list \<Rightarrow> nat option" where
  "index_of P [] = None"
| "index_of P (x # xs) = (if P x then Some 0 else map_option Suc (index_of P xs))"

lemma index_of_None_iff: "index_of P xs = None \<longleftrightarrow> list_all (\<lambda>x. \<not> P x) xs"
  by (induction xs) auto

lemma index_of_Some_iff:
  "index_of P xs = Some i \<longleftrightarrow> i < length xs \<and> P (xs ! i) \<and> list_all (\<lambda>x. \<not> P x) (take i xs)"
proof (induction xs arbitrary: i)
  case Nil
  then show ?case by simp
next
  case (Cons x xs)
  then show ?case by (cases i) auto
qed

lemma index_of_SomeD:
  assumes "index_of P xs = Some i"
  shows "i < length xs" and "P (xs ! i)" and "list_all (\<lambda>x. \<not> P x) (take i xs)"
  using assms by (auto simp: index_of_Some_iff)

lemma index_of_split:
  assumes "index_of P xs = Some i"
  shows "xs = take i xs @ xs ! i # drop (Suc i) xs"
  using index_of_SomeD(1) [OF assms] by (rule id_take_nth_drop)

lemma index_of_append_skip:
  "list_all (\<lambda>x. \<not> P x) xs \<Longrightarrow> index_of P (xs @ ys) = map_option ((+) (length xs)) (index_of P ys)"
  by (induction xs) (auto simp: option.map_comp comp_def option.map_ident
      cong: option.map_cong)

lemma index_of_eq_None: "index_of (\<lambda>c. c = x) xs = None \<longleftrightarrow> x \<notin> set xs"
  by (auto simp: index_of_None_iff list_all_iff)

lemma index_of_eq_Some:
  "index_of (\<lambda>c. c = x) xs = Some i \<longleftrightarrow> (\<exists>ys zs. xs = ys @ x # zs \<and> x \<notin> set ys \<and> length ys = i)"
proof
  assume h: "index_of (\<lambda>c. c = x) xs = Some i"
  note d = index_of_SomeD [OF h] index_of_split [OF h]
  then have "xs = take i xs @ x # drop (Suc i) xs" "x \<notin> set (take i xs)" "length (take i xs) = i"
    by (auto simp: list_all_iff)
  then show "\<exists>ys zs. xs = ys @ x # zs \<and> x \<notin> set ys \<and> length ys = i" by blast
next
  assume "\<exists>ys zs. xs = ys @ x # zs \<and> x \<notin> set ys \<and> length ys = i"
  then show "index_of (\<lambda>c. c = x) xs = Some i"
    by (auto simp: index_of_Some_iff list_all_iff)
qed

lemma index_of_eq_append:
  "x \<notin> set xs \<Longrightarrow>
   index_of (\<lambda>c. c = x) (xs @ ys) = map_option ((+) (length xs)) (index_of (\<lambda>c. c = x) ys)"
  by (rule index_of_append_skip) (auto simp: list_all_iff)

text \<open>\<open>split_on x xs\<close>: the maximal pieces of \<open>xs\<close> between occurrences of \<open>x\<close>.\<close>

fun split_on :: "'a \<Rightarrow> 'a list \<Rightarrow> 'a list list" where
  "split_on x [] = [[]]"
| "split_on x (y # ys) =
     (if y = x then [] # split_on x ys
      else case split_on x ys of [] \<Rightarrow> [[y]] | c # cs \<Rightarrow> (y # c) # cs)"

lemma split_on_not_Nil [simp]: "split_on x xs \<noteq> []"
  by (cases xs) (auto split: list.splits)

lemma split_on_no_sep: "x \<notin> set xs \<Longrightarrow> split_on x xs = [xs]"
  by (induction xs) auto

lemma split_on_append:
  "x \<notin> set xs \<Longrightarrow>
   split_on x (xs @ ys) = (xs @ hd (split_on x ys)) # tl (split_on x ys)"
proof (induction xs)
  case Nil
  then show ?case by simp
next
  case (Cons y xs)
  then show ?case by auto
qed

lemma split_on_append_sep: "x \<notin> set xs \<Longrightarrow> split_on x (xs @ x # ys) = xs # split_on x ys"
  by (simp add: split_on_append)

lemma split_on_pieces: "c \<in> set (split_on x xs) \<Longrightarrow> x \<notin> set c"
proof (induction xs arbitrary: c rule: split_on.induct)
  case (1 x)
  then show ?case by simp
next
  case (2 x y ys)
  obtain d ds where "split_on x ys = d # ds" by (cases "split_on x ys") auto
  with 2 show ?case by (cases "y = x") auto
qed

lemma split_on_pieces_subset: "c \<in> set (split_on x xs) \<Longrightarrow> set c \<subseteq> set xs"
proof (induction xs arbitrary: c rule: split_on.induct)
  case (1 x)
  then show ?case by simp
next
  case (2 x y ys)
  obtain d ds where "split_on x ys = d # ds" by (cases "split_on x ys") auto
  with 2 show ?case by (cases "y = x") (auto, blast+)
qed

lemma hd_split_on: "hd (split_on x xs) = takeWhile (\<lambda>y. y \<noteq> x) xs"
proof (induction xs rule: split_on.induct)
  case (1 x)
  then show ?case by simp
next
  case (2 x y ys)
  obtain d ds where "split_on x ys = d # ds" by (cases "split_on x ys") auto
  with 2 show ?case by auto
qed

lemma split_on_leading: "xs \<noteq> [] \<Longrightarrow> hd xs = x \<Longrightarrow> [] \<in> set (split_on x xs)"
  by (cases xs) auto

lemma split_on_snoc: "split_on x (xs @ [x]) = split_on x xs @ [[]]"
  by (induction xs) (auto split: list.splits)

lemma split_on_trailing: "xs \<noteq> [] \<Longrightarrow> last xs = x \<Longrightarrow> [] \<in> set (split_on x xs)"
  by (cases xs rule: rev_cases) (auto simp: split_on_snoc)

text \<open>\<open>segment xs b e\<close>: the elements at positions \<open>b, \<dots>, e - 1\<close>.\<close>

definition segment :: "'a list \<Rightarrow> nat \<Rightarrow> nat \<Rightarrow> 'a list" where
  "segment xs b e = take (e - b) (drop b xs)"

lemma segment_length [simp]: "e \<le> length xs \<Longrightarrow> length (segment xs b e) = e - b"
  by (simp add: segment_def)

lemma segment_refl [simp]: "segment xs b b = []"
  by (simp add: segment_def)

lemma segment_Suc:
  "b \<le> e \<Longrightarrow> e < length xs \<Longrightarrow> segment xs b (Suc e) = segment xs b e @ [xs ! e]"
  by (simp add: segment_def Suc_diff_le take_Suc_conv_app_nth)

lemma segment_nth:
  "i < e - b \<Longrightarrow> b \<le> e \<Longrightarrow> e \<le> length xs \<Longrightarrow> segment xs b e ! i = xs ! (b + i)"
  by (simp add: segment_def)

lemma segment_append_drop:
  "b \<le> e \<Longrightarrow> e \<le> length xs \<Longrightarrow> segment xs b e @ drop e xs = drop b xs"
  unfolding segment_def
  by (metis append_take_drop_id drop_drop le_add_diff_inverse2)

lemma segment_edge:
  assumes "b < e" and "e \<le> length xs"
  shows segment_not_Nil: "segment xs b e \<noteq> []"
    and hd_segment: "hd (segment xs b e) = xs ! b"
    and last_segment: "last (segment xs b e) = xs ! (e - 1)"
proof -
  show ne: "segment xs b e \<noteq> []" using assms by (auto simp: segment_def)
  show "hd (segment xs b e) = xs ! b"
    using assms ne by (simp add: hd_conv_nth segment_nth)
  show "last (segment xs b e) = xs ! (e - 1)"
    using assms ne by (simp add: last_conv_nth segment_nth)
qed

text \<open>\<open>memcpy dst at src\<close>: the block \<open>src\<close> written over \<open>dst\<close> from position \<open>at\<close>.\<close>

definition memcpy :: "'a list \<Rightarrow> nat \<Rightarrow> 'a list \<Rightarrow> 'a list" where
  "memcpy dst at src = take at dst @ src @ drop (at + length src) dst"

lemma memcpy_length [simp]: "at + length src \<le> length dst \<Longrightarrow> length (memcpy dst at src) = length dst"
  by (simp add: memcpy_def)

lemma memcpy_nth:
  assumes "at + length src \<le> length dst" and "i < length dst"
  shows "memcpy dst at src ! i =
    (if at \<le> i \<and> i < at + length src then src ! (i - at) else dst ! i)"
  using assms by (auto simp: memcpy_def nth_append min_def)

lemma memcpy_Nil [simp]: "memcpy dst at [] = dst"
  by (simp add: memcpy_def)

section \<open>C strings\<close>

text \<open>
  A NUL-terminated string is the list of its bytes; the byte after the last one is the NUL.
  Where the list itself holds a zero, the string ends there for the C functions.
\<close>

definition cstr_at :: "byte list \<Rightarrow> nat \<Rightarrow> byte" where
  "cstr_at s i = (if i < length s then s ! i else 0)"

definition c_strlen :: "byte list \<Rightarrow> nat" where
  "c_strlen s = length (takeWhile (\<lambda>c. c \<noteq> 0) s)"

definition c_str :: "byte list \<Rightarrow> byte list" where
  "c_str s = takeWhile (\<lambda>c. c \<noteq> 0) s"

lemma c_strlen_le: "c_strlen s \<le> length s"
  by (simp add: c_strlen_def length_takeWhile_le)

lemma c_str_id [bmx_cstr]: "0 \<notin> set s \<Longrightarrow> c_str s = s"
  unfolding c_str_def by (subst takeWhile_eq_all_conv) auto

lemma c_strlen_id [bmx_cstr]: "0 \<notin> set s \<Longrightarrow> c_strlen s = length s"
  using c_str_id [of s] unfolding c_strlen_def c_str_def by (rule arg_cong)

lemma cstr_at_nonzero: "i < c_strlen s \<Longrightarrow> cstr_at s i \<noteq> 0"
proof -
  assume i: "i < c_strlen s"
  then have "i < length s" using c_strlen_le [of s] by linarith
  moreover have "takeWhile (\<lambda>c. c \<noteq> 0) s ! i \<noteq> 0"
    using i nth_mem set_takeWhileD unfolding c_strlen_def by fastforce
  ultimately show ?thesis
    using i by (simp add: cstr_at_def c_strlen_def takeWhile_nth)
qed

lemma cstr_at_strlen: "cstr_at s (c_strlen s) = 0"
  by (auto simp: cstr_at_def c_strlen_def dest: nth_length_takeWhile)

text \<open>The scan \<open>while (size < maximum && text[size] != '\<zero>') ++size\<close>.\<close>

function bounded_strlen :: "byte list \<Rightarrow> nat \<Rightarrow> nat \<Rightarrow> nat" where
  "bounded_strlen s maximum n =
     (if n < maximum \<and> cstr_at s n \<noteq> 0 then bounded_strlen s maximum (Suc n) else n)"
  by pat_completeness auto
termination
  by (relation "measure (\<lambda>(s, maximum, n). maximum - n)") auto

declare bounded_strlen.simps [simp del]

lemma bounded_strlen_eq:
  "n \<le> min maximum (c_strlen s) \<Longrightarrow> bounded_strlen s maximum n = min maximum (c_strlen s)"
proof (induction s maximum n rule: bounded_strlen.induct)
  case (1 s maximum n)
  show ?case
  proof (cases "n < maximum \<and> cstr_at s n \<noteq> 0")
    case True
    then have "n \<noteq> c_strlen s" using cstr_at_strlen by metis
    with True "1.prems" have "Suc n \<le> min maximum (c_strlen s)" by auto
    with "1.IH" [OF True] show ?thesis
      by (simp add: bounded_strlen.simps [of s maximum n] True)
  next
    case False
    then have "n = min maximum (c_strlen s)"
      using "1.prems" cstr_at_nonzero [of n s] by fastforce
    moreover have "bounded_strlen s maximum n = n"
      using False by (subst bounded_strlen.simps) auto
    ultimately show ?thesis by simp
  qed
qed

text \<open>\<open>strcmp (a, b) < 0\<close> and, on blocks of equal length, \<open>memcmp (a, b, n) < 0\<close>.\<close>

fun bytes_less :: "byte list \<Rightarrow> byte list \<Rightarrow> bool" where
  "bytes_less [] [] = False"
| "bytes_less [] (b # bs) = True"
| "bytes_less (a # as) [] = False"
| "bytes_less (a # as) (b # bs) = (a < b \<or> (a = b \<and> bytes_less as bs))"

lemma bytes_less_trans: "bytes_less a b \<Longrightarrow> bytes_less b c \<Longrightarrow> bytes_less a c"
proof (induction a b arbitrary: c rule: bytes_less.induct)
  case (4 a as b bs)
  then show ?case by (cases c) auto
next
  case (2 b bs)
  then show ?case by (cases c) auto
qed simp_all

lemma bytes_less_irrefl [simp]: "\<not> bytes_less a a"
  by (induction a) auto

lemma bytes_less_linear: "bytes_less a b \<or> a = b \<or> bytes_less b a"
  by (induction a b rule: bytes_less.induct) auto

section \<open>Big-endian numbers\<close>

definition be_value :: "byte list \<Rightarrow> nat" where
  "be_value bs = fold (\<lambda>b n. n * 256 + unat b) bs 0"

lemma be_value_from: "fold (\<lambda>b n. n * 256 + unat b) bs n = n * 256 ^ length bs + be_value bs"
proof (induction bs arbitrary: n)
  case Nil
  then show ?case by (simp add: be_value_def)
next
  case (Cons b bs)
  from Cons [of "n * 256 + unat b"] Cons [of "unat b"] show ?case
    by (simp add: be_value_def algebra_simps)
qed

lemma be_value_Nil [simp]: "be_value [] = 0"
  by (simp add: be_value_def)

lemma be_value_Cons: "be_value (b # bs) = unat b * 256 ^ length bs + be_value bs"
  using be_value_from [of bs "unat b"] by (simp add: be_value_def)

lemma be_value_less: "be_value bs < 256 ^ length bs"
proof (induction bs)
  case Nil
  then show ?case by simp
next
  case (Cons b bs)
  have "unat b + 1 \<le> 256" using byte_exhaust_less [of b] by simp
  then have le: "(unat b + 1) * 256 ^ length bs \<le> 256 * 256 ^ length bs" by (rule mult_le_mono1)
  have "be_value (b # bs) < (unat b + 1) * 256 ^ length bs"
    using Cons by (simp add: be_value_Cons algebra_simps)
  also note le
  finally show ?case by simp
qed

lemma be_value_less_iff:
  "length a = length b \<Longrightarrow> be_value a < be_value b \<longleftrightarrow> bytes_less a b"
proof (induction a b rule: bytes_less.induct)
  case (4 a as b bs)
  then have len: "length as = length bs" and IH: "be_value as < be_value bs \<longleftrightarrow> bytes_less as bs" by auto
  have lt: "unat x * 256 ^ length bs + be_value xs < unat y * 256 ^ length bs + be_value ys"
    if "x < y" "length xs = length bs" for x y :: byte and xs ys
  proof -
    have "unat x + 1 \<le> unat y" using that(1) by (simp add: word_less_nat_alt)
    then have le: "(unat x + 1) * 256 ^ length bs \<le> unat y * 256 ^ length bs" by (rule mult_le_mono1)
    have "unat x * 256 ^ length bs + be_value xs < (unat x + 1) * 256 ^ length bs"
      using be_value_less [of xs] that(2) by (simp add: algebra_simps)
    also note le
    finally show ?thesis by simp
  qed
  consider "a < b" | "a = b" | "b < a" by (meson linorder_less_linear)
  then show ?case
  proof cases
    case 1
    with lt [of a b as bs] len show ?thesis by (simp add: be_value_Cons)
  next
    case 2
    with IH len show ?thesis by (simp add: be_value_Cons)
  next
    case 3
    with lt [of b a bs as] len show ?thesis by (auto simp: be_value_Cons)
  qed
qed simp_all

section \<open>Digit loops with an overflow check\<close>

text \<open>
  \<open>digits_value base digit cs\<close>: the number the digits \<open>cs\<close> denote, without any bound;
  \<open>None\<close> when one of them is no digit.
\<close>

fun digits_value_from :: "nat \<Rightarrow> (byte \<Rightarrow> nat option) \<Rightarrow> nat \<Rightarrow> byte list \<Rightarrow> nat option" where
  "digits_value_from base digit n [] = Some n"
| "digits_value_from base digit n (c # cs) =
     (case digit c of None \<Rightarrow> None | Some d \<Rightarrow> digits_value_from base digit (n * base + d) cs)"

definition digits_value :: "nat \<Rightarrow> (byte \<Rightarrow> nat option) \<Rightarrow> byte list \<Rightarrow> nat option" where
  "digits_value base digit cs = digits_value_from base digit 0 cs"

definition decimal_digit :: "byte \<Rightarrow> nat option" where
  "decimal_digit c = (if is_digit c then Some (unat (c - ch CHR ''0'')) else None)"

definition hex_digit :: "byte \<Rightarrow> nat option" where
  "hex_digit c =
     (if is_digit c then Some (unat (c - ch CHR ''0''))
      else if ch CHR ''a'' \<le> c \<and> c \<le> ch CHR ''f'' then Some (unat (c - ch CHR ''a'' + 10))
      else if ch CHR ''A'' \<le> c \<and> c \<le> ch CHR ''F'' then Some (unat (c - ch CHR ''A'' + 10))
      else None)"

lemma decimal_digit_less: "decimal_digit c = Some d \<Longrightarrow> d < 10"
  by (auto simp: decimal_digit_def bmx_chars word_le_nat_alt unat_sub split: if_splits)

lemma hex_digit_less: "hex_digit c = Some d \<Longrightarrow> d < 16"
  by (auto simp: hex_digit_def bmx_chars word_le_nat_alt unat_sub unat_word_ariths
      split: if_splits)

lemma digits_value_from_mono:
  "digits_value_from base digit n cs = Some v \<Longrightarrow> 1 \<le> base \<Longrightarrow> n \<le> v"
proof (induction cs arbitrary: n)
  case Nil
  then show ?case by simp
next
  case (Cons c cs)
  then obtain d where "digits_value_from base digit (n * base + d) cs = Some v"
    by (auto split: option.splits)
  with Cons have "n * base + d \<le> v" by blast
  moreover have "n \<le> n * base" using Cons.prems(2) by (cases base) auto
  ultimately show ?case by linarith
qed

text \<open>
  The interface of the digit loops: \<open>acc r cs\<close> is the loop entered with the running value
  \<open>r\<close>; before it multiplies, the loop compares \<open>r\<close> with \<open>(UINT64_MAX - digit) / base\<close>.
\<close>

locale checked_number =
  fixes base :: nat
    and digit :: "byte \<Rightarrow> nat option"
    and acc :: "u64 \<Rightarrow> byte list \<Rightarrow> u64 option"
  assumes base_pos: "1 \<le> base" and base_le: "base \<le> 256"
    and digit_less: "digit c = Some d \<Longrightarrow> d < base"
    and acc_Nil: "acc r [] = Some r"
    and acc_Cons: "acc r (c # cs) =
       (case digit c of
          None \<Rightarrow> None
        | Some d \<Rightarrow>
            if (- 1 - of_nat d) div of_nat base < r then None
            else acc (r * of_nat base + of_nat d) cs)"
begin

lemma guard_iff:
  assumes "d < base"
  shows "(- 1 - of_nat d) div of_nat base < (r :: u64) \<longleftrightarrow> 2 ^ 64 \<le> unat r * base + d"
proof -
  have base64: "unat (of_nat base :: u64) = base"
    using base_le by (simp add: unat_of_nat)
  have d64: "unat (of_nat d :: u64) = d"
    using assms base_le by (simp add: unat_of_nat)
  have top: "unat (- 1 :: u64) = 2 ^ 64 - 1"
    by (simp add: unsigned_minus_1_eq_mask mask_eq_exp_minus_1)
  have le: "(of_nat d :: u64) \<le> - 1" by simp
  have "unat ((- 1 - of_nat d) div of_nat base :: u64) = (2 ^ 64 - 1 - d) div base"
    by (simp add: unat_div unat_sub [OF le] top d64 base64)
  then have "(- 1 - of_nat d) div of_nat base < r \<longleftrightarrow> (2 ^ 64 - 1 - d) div base < unat r"
    by (simp add: word_less_nat_alt)
  also have "\<dots> \<longleftrightarrow> 2 ^ 64 - 1 - d < unat r * base"
    using base_pos by (simp add: div_less_iff_less_mult)
  also have "\<dots> \<longleftrightarrow> 2 ^ 64 \<le> unat r * base + d"
    using assms base_le by auto
  finally show ?thesis .
qed

lemma acc_correct:
  "acc r cs = Some v \<longleftrightarrow>
   (\<exists>n. digits_value_from base digit (unat r) cs = Some n \<and> n < 2 ^ 64 \<and> v = of_nat n)"
proof (induction cs arbitrary: r)
  case Nil
  have "unat r < 2 ^ 64" using unsigned_less [of r] by simp
  then show ?case by (auto simp: acc_Nil)
next
  case (Cons c cs)
  show ?case
  proof (cases "digit c")
    case None
    then show ?thesis by (simp add: acc_Cons)
  next
    case (Some d)
    note d = digit_less [OF Some]
    show ?thesis
    proof (cases "2 ^ 64 \<le> unat r * base + d")
      case True
      then have "\<not> n < 2 ^ 64" if "digits_value_from base digit (unat r * base + d) cs = Some n" for n
        using digits_value_from_mono [OF that base_pos] by simp
      with True Some show ?thesis by (auto simp: acc_Cons guard_iff [OF d])
    next
      case False
      then have "unat (r * of_nat base + of_nat d) = unat r * base + d"
        using d base_le by (simp add: unat_word_ariths unat_of_nat)
      with False Some show ?thesis
        by (simp add: acc_Cons guard_iff [OF d] Cons.IH)
    qed
  qed
qed

lemma acc_value:
  "acc 0 cs = Some v \<longleftrightarrow> (\<exists>n. digits_value base digit cs = Some n \<and> n < 2 ^ 64 \<and> v = of_nat n)"
  using acc_correct [of 0 cs v] by (simp add: digits_value_def)

end

section \<open>Consumers that may be fed in pieces\<close>

text \<open>
  \<open>feed xs s\<close> is the state after the consumer in state \<open>s\<close> was given the bytes \<open>xs\<close> in one
  call; \<open>good\<close> marks the states in which every byte so far was accepted.  The law a provider
  promises is that one call with \<open>xs @ ys\<close> is two calls, whenever all was accepted; the client
  learns that how the network or the file system cuts the input does not matter.
\<close>

locale incremental =
  fixes feed :: "'b list \<Rightarrow> 's \<Rightarrow> 's"
    and good :: "'s \<Rightarrow> bool"
  assumes feed_Nil: "good s \<Longrightarrow> feed [] s = s"
    and feed_append: "good s \<Longrightarrow> good (feed (xs @ ys) s) \<Longrightarrow>
      good (feed xs s) \<and> feed (xs @ ys) s = feed ys (feed xs s)"
begin

lemma feed_pieces:
  assumes "good s" and "good (feed (concat ps) s)"
  shows "fold feed ps s = feed (concat ps) s"
  using assms
proof (induction ps arbitrary: s)
  case Nil
  then show ?case by (simp add: feed_Nil)
next
  case (Cons p ps)
  from Cons.prems(2) have "good (feed p s)"
    and eq: "feed (concat (p # ps)) s = feed (concat ps) (feed p s)"
    using feed_append [OF Cons.prems(1), of p "concat ps"] by auto
  moreover from eq Cons.prems(2) have "good (feed (concat ps) (feed p s))" by simp
  ultimately show ?case using Cons.IH by simp
qed

lemma feed_repartition:
  assumes "good s" and "good (feed (concat ps) s)" and "concat ps = concat qs"
  shows "fold feed ps s = fold feed qs s"
  using assms feed_pieces [of s ps] feed_pieces [of s qs] by simp

end

end
