(* ===== verification/Fat_Path.thy ===== *)
theory Fat_Path
  imports Bmx_Prelude
begin

text \<open>
  The FAT path policies of \<open>src/src/update/fat_path_policy.cpp\<close>: the portable subset for
  paths of a signed release, the wider subset for developer uploads, and the restriction of
  media paths to the four user-content roots.  Both validators walk the bytes once, keeping
  the start of the current component; the locale \<open>component_scanner\<close> proves once that such a
  walk accepts exactly the paths all of whose components are acceptable.
\<close>

section \<open>Data and helpers\<close>

datatype FatPathValidationStatus = FatOk | FatInvalidArgument | FatPathTooLong | FatInvalidPath

definition kFatReleasePathMaximumBytes :: nat where
  "kFatReleasePathMaximumBytes = 240"

definition EqualsAsciiIgnoreCase :: "byte list \<Rightarrow> byte list \<Rightarrow> bool" where
  "EqualsAsciiIgnoreCase value expected \<longleftrightarrow>
     length expected = length value \<and>
     list_all2 (\<lambda>v e. AsciiLower v = AsciiLower e) value expected"

definition stem :: "byte list \<Rightarrow> byte list" where
  "stem component = takeWhile (\<lambda>c. c \<noteq> ch CHR ''.'') component"

definition IsReservedStem :: "byte list \<Rightarrow> bool" where
  "IsReservedStem component \<longleftrightarrow>
     (let stem_size = length (stem component) in
      list_ex (\<lambda>fixed. EqualsAsciiIgnoreCase (take stem_size component) (bytes_of fixed))
        [''CON'', ''PRN'', ''AUX'', ''NUL''] \<or>
      (stem_size = 4 \<and>
       (EqualsAsciiIgnoreCase (take 3 component) (bytes_of ''COM'') \<or>
        EqualsAsciiIgnoreCase (take 3 component) (bytes_of ''LPT'')) \<and>
       ch CHR ''1'' \<le> component ! 3 \<and> component ! 3 \<le> ch CHR ''9''))"

definition IsForbidden :: "byte \<Rightarrow> bool" where
  "IsForbidden value \<longleftrightarrow>
     value = ch CHR 0x22 \<or> value = ch CHR ''*'' \<or> value = ch CHR '':'' \<or>
     value = ch CHR ''<'' \<or> value = ch CHR ''>'' \<or> value = ch CHR ''?'' \<or>
     value = ch CHR 0x5C \<or> value = ch CHR ''|''"

abbreviation slash :: byte where
  "slash \<equiv> ch CHR ''/''"

section \<open>The component loop of the release policy\<close>

text \<open>
  The loop body tests the byte at \<open>index\<close> (a virtual separator stands after the last byte)
  and, at a separator, the component \<open>path[component_begin, index)\<close>.
\<close>

definition release_bad_byte :: "byte \<Rightarrow> bool" where
  "release_bad_byte value \<longleftrightarrow> value < 0x20 \<or> value > 0x7e \<or> IsForbidden value"

definition release_bad_component :: "byte list \<Rightarrow> nat \<Rightarrow> nat \<Rightarrow> bool" where
  "release_bad_component path component_begin index \<longleftrightarrow>
     (let component_size = index - component_begin in
      component_size = 0 \<or> component_size > 255 \<or>
      path ! component_begin = ch CHR '' '' \<or>
      path ! (index - 1) = ch CHR '' '' \<or>
      path ! (index - 1) = ch CHR ''.'' \<or>
      (component_size = 1 \<and> path ! component_begin = ch CHR ''.'') \<or>
      (component_size = 2 \<and> path ! component_begin = ch CHR ''.'' \<and>
       path ! (component_begin + 1) = ch CHR ''.'') \<or>
      IsReservedStem (segment path component_begin index))"

function release_scan :: "byte list \<Rightarrow> nat \<Rightarrow> nat \<Rightarrow> FatPathValidationStatus" where
  "release_scan path index component_begin =
     (if length path < index then FatOk
      else let at_end = (index = length path);
               value = (if at_end then slash else path ! index)
           in if \<not> at_end \<and> value \<noteq> slash
              then (if release_bad_byte value then FatInvalidPath
                    else release_scan path (index + 1) component_begin)
              else if release_bad_component path component_begin index then FatInvalidPath
              else release_scan path (index + 1) (index + 1))"
  by pat_completeness auto
termination
  by (relation "measure (\<lambda>(path, index, component_begin). Suc (length path) - index)")
    (auto split: if_splits)

definition ValidateFatRelativePathBytes :: "byte list option \<Rightarrow> nat \<Rightarrow> FatPathValidationStatus" where
  "ValidateFatRelativePathBytes path_pointer maximum_path_bytes =
     (case path_pointer of
        None \<Rightarrow> FatInvalidArgument
      | Some path \<Rightarrow>
          if maximum_path_bytes = 0 then FatInvalidArgument
          else if length path = 0 then FatInvalidPath
          else if length path > maximum_path_bytes then FatPathTooLong
          else if path ! 0 = slash \<or> path ! (length path - 1) = slash then FatInvalidPath
          else release_scan path 0 0)"

definition ValidateFatRelativePath :: "byte list option \<Rightarrow> nat \<Rightarrow> FatPathValidationStatus" where
  "ValidateFatRelativePath path_pointer maximum_path_bytes =
     (case path_pointer of
        None \<Rightarrow> FatInvalidArgument
      | Some path \<Rightarrow>
          if maximum_path_bytes = 0 then FatInvalidArgument
          else let n = bounded_strlen path maximum_path_bytes 0 in
            if n = maximum_path_bytes \<and> cstr_at path n \<noteq> 0 then FatPathTooLong
            else ValidateFatRelativePathBytes (Some (take n path)) maximum_path_bytes)"

section \<open>The component loop of the developer policy\<close>

definition developer_bad_byte :: "byte \<Rightarrow> bool" where
  "developer_bad_byte value \<longleftrightarrow> value < 0x20 \<or> value = 0x7f \<or> IsForbidden value"

definition developer_bad_component :: "byte list \<Rightarrow> nat \<Rightarrow> nat \<Rightarrow> bool" where
  "developer_bad_component path component_begin index \<longleftrightarrow>
     (let component_size = index - component_begin in
      component_size = 0 \<or> component_size > 255 \<or>
      path ! (index - 1) = ch CHR '' '' \<or> path ! (index - 1) = ch CHR ''.'' \<or>
      (component_size = 1 \<and> path ! component_begin = ch CHR ''.'') \<or>
      (component_size = 2 \<and> path ! component_begin = ch CHR ''.'' \<and>
       path ! (component_begin + 1) = ch CHR ''.''))"

function developer_scan :: "byte list \<Rightarrow> nat \<Rightarrow> nat \<Rightarrow> FatPathValidationStatus" where
  "developer_scan path index component_begin =
     (if length path < index then FatOk
      else let at_end = (index = length path);
               value = (if at_end then slash else path ! index)
           in if \<not> at_end \<and> value \<noteq> slash
              then (if developer_bad_byte value then FatInvalidPath
                    else developer_scan path (index + 1) component_begin)
              else if developer_bad_component path component_begin index then FatInvalidPath
              else developer_scan path (index + 1) (index + 1))"
  by pat_completeness auto
termination
  by (relation "measure (\<lambda>(path, index, component_begin). Suc (length path) - index)")
    (auto split: if_splits)

definition ValidateDeveloperFatRelativePath ::
  "byte list option \<Rightarrow> nat \<Rightarrow> FatPathValidationStatus" where
  "ValidateDeveloperFatRelativePath path_pointer maximum_path_bytes =
     (case path_pointer of
        None \<Rightarrow> FatInvalidArgument
      | Some path \<Rightarrow>
          if maximum_path_bytes = 0 then FatInvalidArgument
          else let n = bounded_strlen path maximum_path_bytes 0 in
            if n = maximum_path_bytes then FatPathTooLong
            else if n = 0 \<or> cstr_at path 0 = slash \<or> cstr_at path (n - 1) = slash
            then FatInvalidPath
            else developer_scan (take n path) 0 0)"

definition ValidateMediaFatRelativePath ::
  "byte list option \<Rightarrow> nat \<Rightarrow> FatPathValidationStatus" where
  "ValidateMediaFatRelativePath path_pointer maximum_path_bytes =
     (let status = ValidateDeveloperFatRelativePath path_pointer maximum_path_bytes in
      if status \<noteq> FatOk then status
      else let path = the path_pointer;
               root = takeWhile (\<lambda>c. c \<noteq> 0 \<and> c \<noteq> slash) path
           in if list_ex (\<lambda>r. EqualsAsciiIgnoreCase root (bytes_of r))
                   [''disks'', ''tapes'', ''carts'', ''snapshots'']
              then FatOk else FatInvalidPath)"

declare release_scan.simps [simp del] developer_scan.simps [simp del]

section \<open>The component scanner\<close>

definition component_ok ::
  "(byte \<Rightarrow> bool) \<Rightarrow> (byte list \<Rightarrow> bool) \<Rightarrow> byte list \<Rightarrow> bool" where
  "component_ok bad_byte bad_component c \<longleftrightarrow>
     list_all (\<lambda>x. \<not> bad_byte x) c \<and> \<not> bad_component c"

text \<open>
  The contract of a component loop: \<open>scan path i b\<close> says whether the loop entered at index \<open>i\<close>
  with the current component starting at \<open>b\<close> accepts the rest of the path.
\<close>

locale component_scanner =
  fixes scan :: "byte list \<Rightarrow> nat \<Rightarrow> nat \<Rightarrow> bool"
    and bad_byte :: "byte \<Rightarrow> bool"
    and bad_component :: "byte list \<Rightarrow> bool"
  assumes scan_past: "length path < i \<Longrightarrow> scan path i b"
    and scan_byte: "i < length path \<Longrightarrow> path ! i \<noteq> slash \<Longrightarrow>
      scan path i b \<longleftrightarrow> \<not> bad_byte (path ! i) \<and> scan path (Suc i) b"
    and scan_sep: "i < length path \<Longrightarrow> path ! i = slash \<Longrightarrow> b \<le> i \<Longrightarrow>
      scan path i b \<longleftrightarrow> \<not> bad_component (segment path b i) \<and> scan path (Suc i) (Suc i)"
    and scan_end: "b \<le> length path \<Longrightarrow>
      scan path (length path) b \<longleftrightarrow> \<not> bad_component (segment path b (length path))"
begin

lemma scan_suffix:
  assumes "b \<le> i" and "i \<le> length path" and "slash \<notin> set (segment path b i)"
    and "list_all (\<lambda>x. \<not> bad_byte x) (segment path b i)"
  shows "scan path i b \<longleftrightarrow> list_all (component_ok bad_byte bad_component) (split_on slash (drop b path))"
  using assms
proof (induction "length path - i" arbitrary: i b)
  case 0
  then have i: "i = length path" by simp
  then have "segment path b i = drop b path" by (simp add: segment_def)
  with 0 i show ?case
    using scan_end [of b path] by (simp add: component_ok_def split_on_no_sep)
next
  case (Suc k)
  then have i: "i < length path" by simp
  have k: "k = length path - Suc i" using Suc.hyps(2) by simp
  show ?case
  proof (cases "path ! i = slash")
    case True
    have "drop b path = segment path b i @ drop i path"
      using Suc.prems by (simp add: segment_append_drop)
    also have "\<dots> = segment path b i @ slash # drop (Suc i) path"
      using i True by (simp add: Cons_nth_drop_Suc [symmetric])
    finally have "split_on slash (drop b path)
        = segment path b i # split_on slash (drop (Suc i) path)"
      using Suc.prems(3) by (simp add: split_on_append_sep)
    moreover have "scan path (Suc i) (Suc i) \<longleftrightarrow>
        list_all (component_ok bad_byte bad_component) (split_on slash (drop (Suc i) path))"
      using Suc.hyps(1) [of "Suc i" "Suc i"] k i by simp
    ultimately show ?thesis
      using scan_sep [OF i True Suc.prems(1)] Suc.prems(4) by (simp add: component_ok_def)
  next
    case False
    note step = segment_Suc [OF Suc.prems(1) i]
    show ?thesis
    proof (cases "bad_byte (path ! i)")
      case True
      have "path ! i \<in> set (hd (split_on slash (drop b path)))"
      proof -
        have "drop b path = segment path b i @ path ! i # drop (Suc i) path"
          using Suc.prems i by (metis Cons_nth_drop_Suc segment_append_drop)
        moreover have "\<forall>x\<in>set (segment path b i). x \<noteq> slash"
          using Suc.prems(3) by auto
        ultimately show ?thesis
          using False by (simp add: hd_split_on takeWhile_append2)
      qed
      then have "\<not> list_all (component_ok bad_byte bad_component) (split_on slash (drop b path))"
        using True by (cases "split_on slash (drop b path)") (auto simp: component_ok_def list_all_iff)
      with True False show ?thesis using scan_byte [OF i False] by simp
    next
      case nb: False
      have "scan path (Suc i) b \<longleftrightarrow> list_all (component_ok bad_byte bad_component) (split_on slash (drop b path))"
        using Suc.hyps(1) [of "Suc i" b] k i Suc.prems False nb by (simp add: step)
      with nb show ?thesis using scan_byte [OF i False] by simp
    qed
  qed
qed

lemma scan_all: "scan path 0 0 \<longleftrightarrow> list_all (component_ok bad_byte bad_component) (split_on slash path)"
  using scan_suffix [of 0 0 path] by simp

end


section \<open>The two policies are component scanners\<close>

text \<open>What an acceptable component is, as a property of the component alone.\<close>

definition release_component :: "byte list \<Rightarrow> bool" where
  "release_component c \<longleftrightarrow>
     c \<noteq> [] \<and> length c \<le> 255 \<and>
     list_all (\<lambda>x. 0x20 \<le> x \<and> x \<le> 0x7e \<and> \<not> IsForbidden x) c \<and>
     hd c \<noteq> ch CHR '' '' \<and> last c \<noteq> ch CHR '' '' \<and> last c \<noteq> ch CHR ''.'' \<and>
     \<not> IsReservedStem c"

definition developer_component :: "byte list \<Rightarrow> bool" where
  "developer_component c \<longleftrightarrow>
     c \<noteq> [] \<and> length c \<le> 255 \<and>
     list_all (\<lambda>x. 0x20 \<le> x \<and> x \<noteq> 0x7f \<and> \<not> IsForbidden x) c \<and>
     last c \<noteq> ch CHR '' '' \<and> last c \<noteq> ch CHR ''.''"

text \<open>
  The tests for the components \<open>.\<close> and \<open>..\<close> are implied by the test of the last byte.
\<close>

lemma dot_component_ends_in_dot:
  assumes "b < i"
    and "(i - b = 1 \<and> path ! b = d) \<or> (i - b = 2 \<and> path ! b = d \<and> path ! (b + 1) = d)"
  shows "path ! (i - 1) = d"
proof -
  from assms have "(i - 1 = b \<and> path ! b = d) \<or> (i - 1 = b + 1 \<and> path ! (b + 1) = d)" by auto
  then show ?thesis by auto
qed

lemma release_bad_component_iff:
  assumes "b \<le> i" and "i \<le> length path"
  shows "release_bad_component path b i \<longleftrightarrow>
    (let c = segment path b i in
     c = [] \<or> 255 < length c \<or> hd c = ch CHR '' '' \<or> last c = ch CHR '' '' \<or>
     last c = ch CHR ''.'' \<or> IsReservedStem c)"
proof (cases "b = i")
  case True
  then show ?thesis by (simp add: release_bad_component_def)
next
  case False
  then have "b < i" using assms by simp
  then show ?thesis
    using dot_component_ends_in_dot [OF \<open>b < i\<close>, of path "ch CHR ''.''"]
      segment_edge [OF \<open>b < i\<close> assms(2)] assms
    unfolding release_bad_component_def Let_def by fastforce
qed

lemma developer_bad_component_iff:
  assumes "b \<le> i" and "i \<le> length path"
  shows "developer_bad_component path b i \<longleftrightarrow>
    (let c = segment path b i in
     c = [] \<or> 255 < length c \<or> last c = ch CHR '' '' \<or> last c = ch CHR ''.'')"
proof (cases "b = i")
  case True
  then show ?thesis by (simp add: developer_bad_component_def)
next
  case False
  then have "b < i" using assms by simp
  then show ?thesis
    using dot_component_ends_in_dot [OF \<open>b < i\<close>, of path "ch CHR ''.''"]
      segment_edge [OF \<open>b < i\<close> assms(2)] assms
    unfolding developer_bad_component_def Let_def by fastforce
qed

interpretation release_policy: component_scanner
  "\<lambda>path i b. release_scan path i b = FatOk" release_bad_byte
  "\<lambda>c. c = [] \<or> 255 < length c \<or> hd c = ch CHR '' '' \<or> last c = ch CHR '' '' \<or>
       last c = ch CHR ''.'' \<or> IsReservedStem c"
proof unfold_locales
  fix path :: "byte list" and i b :: nat
  show "length path < i \<Longrightarrow> release_scan path i b = FatOk"
    by (simp add: release_scan.simps [of path i b])
  show "i < length path \<Longrightarrow> path ! i \<noteq> slash \<Longrightarrow> release_scan path i b = FatOk \<longleftrightarrow>
      \<not> release_bad_byte (path ! i) \<and> release_scan path (Suc i) b = FatOk"
    by (simp add: release_scan.simps [of path i b])
qed (auto simp: release_scan.simps [of _ "length _"] release_scan.simps [of path i b for path i b]
      release_bad_component_iff Let_def)

interpretation developer_policy: component_scanner
  "\<lambda>path i b. developer_scan path i b = FatOk" developer_bad_byte
  "\<lambda>c. c = [] \<or> 255 < length c \<or> last c = ch CHR '' '' \<or> last c = ch CHR ''.''"
proof unfold_locales
  fix path :: "byte list" and i b :: nat
  show "length path < i \<Longrightarrow> developer_scan path i b = FatOk"
    by (simp add: developer_scan.simps [of path i b])
  show "i < length path \<Longrightarrow> path ! i \<noteq> slash \<Longrightarrow> developer_scan path i b = FatOk \<longleftrightarrow>
      \<not> developer_bad_byte (path ! i) \<and> developer_scan path (Suc i) b = FatOk"
    by (simp add: developer_scan.simps [of path i b])
qed (auto simp: developer_scan.simps [of _ "length _"] developer_scan.simps [of path i b for path i b]
      developer_bad_component_iff Let_def)

lemma release_scan_iff:
  "release_scan path 0 0 = FatOk \<longleftrightarrow> list_all release_component (split_on slash path)"
  unfolding release_policy.scan_all component_ok_def release_component_def release_bad_byte_def
  by (auto simp: list_all_iff not_less)

lemma developer_scan_iff:
  "developer_scan path 0 0 = FatOk \<longleftrightarrow> list_all developer_component (split_on slash path)"
  unfolding developer_policy.scan_all component_ok_def developer_component_def
    developer_bad_byte_def
  by (auto simp: list_all_iff not_less)

lemma edges_of_components:
  assumes "list_all P (split_on slash path)" and "\<not> P []"
  shows "path \<noteq> []" and "path ! 0 \<noteq> slash" and "path ! (length path - 1) \<noteq> slash"
proof -
  have no_empty: "[] \<notin> set (split_on slash path)"
    using assms by (auto simp: list_all_iff)
  show ne: "path \<noteq> []" using no_empty by auto
  show "path ! 0 \<noteq> slash"
    using no_empty split_on_leading [OF ne] ne by (auto simp: hd_conv_nth)
  show "path ! (length path - 1) \<noteq> slash"
    using no_empty split_on_trailing [OF ne] ne by (auto simp: last_conv_nth)
qed

lemma release_component_Nil [simp]: "\<not> release_component []"
  by (simp add: release_component_def)

lemma developer_component_Nil [simp]: "\<not> developer_component []"
  by (simp add: developer_component_def)

lemma developer_component_of_release: "release_component c \<Longrightarrow> developer_component c"
  by (auto simp: release_component_def developer_component_def list_all_iff)

lemma release_component_no_nul: "release_component c \<Longrightarrow> 0 \<notin> set c"
  by (auto simp: release_component_def list_all_iff)

lemma set_of_components: "set xs \<subseteq> insert x (\<Union> (set ` set (split_on x xs)))"
proof (induction xs rule: split_on.induct)
  case (1 x)
  then show ?case by simp
next
  case (2 x y ys)
  obtain d ds where "split_on x ys = d # ds" by (cases "split_on x ys") auto
  with 2 show ?case by (cases "y = x") auto
qed

section \<open>Properties\<close>

lemma release_path_iff:
  "ValidateFatRelativePathBytes p m = FatOk \<longleftrightarrow>
   (\<exists>path. p = Some path \<and> length path \<le> m \<and> list_all release_component (split_on slash path))"
proof (cases p)
  case None
  then show ?thesis by (simp add: ValidateFatRelativePathBytes_def)
next
  case (Some path)
  show ?thesis
    using edges_of_components [of release_component path] release_scan_iff [of path] Some
    by (auto simp: ValidateFatRelativePathBytes_def)
qed

text \<open>
  C17: the release path validator accepts a byte string exactly when it is present, within the
  given bound, and every component between separators is an acceptable FAT name: not empty,
  at most 255 printable ASCII bytes without the characters FAT reserves, no leading space, no
  trailing space or dot, and not a reserved device name.
\<close>

theorem release_path_ok_iff:
  "ValidateFatRelativePathBytes p m = FatOk \<longleftrightarrow>
   (\<exists>path. p = Some path \<and> length path \<le> m \<and> list_all release_component (split_on slash path))"
  by (rule release_path_iff)

lemma developer_path_ok_iff:
  "ValidateDeveloperFatRelativePath p m = FatOk \<longleftrightarrow>
   (\<exists>path. p = Some path \<and> c_strlen path < m \<and>
      list_all developer_component (split_on slash (c_str path)))"
proof (cases p)
  case None
  then show ?thesis by (simp add: ValidateDeveloperFatRelativePath_def)
next
  case (Some path)
  have len: "bounded_strlen path m 0 = min m (c_strlen path)"
    by (rule bounded_strlen_eq) simp
  have take: "take (c_strlen path) path = c_str path"
    by (simp add: c_strlen_def c_str_def takeWhile_eq_take [symmetric])
  have at: "cstr_at path i = c_str path ! i" if "i < c_strlen path" for i
    using that c_strlen_le [of path]
    by (simp add: cstr_at_def c_str_def c_strlen_def takeWhile_nth)
  have length: "length (c_str path) = c_strlen path"
    by (simp add: c_str_def c_strlen_def)
  have pos: "0 < c_strlen path" if "c_str path \<noteq> []"
    using that length by (metis length_greater_0_conv)
  show ?thesis
    using edges_of_components [of developer_component "c_str path"] pos
      at [of 0] at [of "c_strlen path - 1"]
      developer_scan_iff [of "c_str path"] Some length
    by (auto simp: ValidateDeveloperFatRelativePath_def len take Let_def min_def
        split: if_splits)
qed

text \<open>
  A media path is accepted exactly when it is a developer path (within the bound, every
  component an acceptable FAT name) whose first component is, up to ASCII case, one of
  \<open>disks\<close>, \<open>tapes\<close>, \<open>carts\<close> and \<open>snapshots\<close>; no other root of the volume can be reached.
\<close>

lemma media_path_ok_iff:
  "ValidateMediaFatRelativePath p m = FatOk \<longleftrightarrow>
   (\<exists>path. p = Some path \<and> c_strlen path < m \<and>
      list_all developer_component (split_on slash (c_str path)) \<and>
      list_ex (\<lambda>r. EqualsAsciiIgnoreCase (hd (split_on slash (c_str path))) (bytes_of r))
        [''disks'', ''tapes'', ''carts'', ''snapshots''])"
proof (cases p)
  case None
  then show ?thesis
    by (simp add: ValidateMediaFatRelativePath_def ValidateDeveloperFatRelativePath_def)
next
  case (Some path)
  have "takeWhile (\<lambda>c. c \<noteq> 0 \<and> c \<noteq> slash) path = hd (split_on slash (c_str path))"
    unfolding hd_split_on c_str_def by (induction path) auto
  then show ?thesis
    using Some developer_path_ok_iff [of p m]
    by (simp add: ValidateMediaFatRelativePath_def Let_def)
qed

text \<open>
  every path of a release is also a developer path, so a file a release can install can be
  read back and replaced through the developer interface (whose bound excludes the NUL).
\<close>

lemma release_path_is_developer_path:
  assumes "ValidateFatRelativePathBytes (Some path) m = FatOk"
  shows "ValidateDeveloperFatRelativePath (Some path) (Suc m) = FatOk"
proof -
  from assms have len: "length path \<le> m"
    and comps: "list_all release_component (split_on slash path)"
    unfolding release_path_iff by auto
  have "0 \<notin> set path"
    using comps set_of_components [of path slash] release_component_no_nul
    by (fastforce simp: list_all_iff ch_def)
  then show ?thesis
    using len comps developer_component_of_release
    by (auto simp: developer_path_ok_iff bmx_cstr list_all_iff)
qed

end
