(* ===== verification/Url_Policy.thy ===== *)
theory Url_Policy
  imports Bmx_Prelude
begin

text \<open>
  The URL policy of the updater, \<open>src/src/update/url_policy.cpp\<close> with the compile-time
  repository constants of \<open>src/src/update/github_repository_policy.h\<close> (the production
  configuration: owner \<open>kdre\<close>, repository \<open>bmx\<close>).  The parser checks the URL from left to right
  and fills the caller's \<open>ParsedUpdateUrl\<close> as it goes, also on paths that end in an error; the
  theorem characterises the accepted URLs by their parts.
\<close>

section \<open>Data\<close>

definition kMaximumUpdateUrlBytes :: nat where "kMaximumUpdateUrlBytes = 2048"
definition kMaximumUpdateHostBytes :: nat where "kMaximumUpdateHostBytes = 96"
definition kMaximumUpdatePathBytes :: nat where "kMaximumUpdatePathBytes = 1856"

datatype UpdateUrlPurpose =
  Discovery | ReleaseAsset | Redirect | PreparedDraftDiscovery |
  AuthenticatedReleaseAsset | GitHubDeviceAuthorization

datatype UrlPolicyStatus =
  UrlOk | UrlInvalidArgument | UrlTooLong | UrlHttpsRequired | UrlUserInfoForbidden |
  UrlInvalidHost | UrlInvalidPort | UrlInvalidPath | UrlQueryForbidden |
  UrlFragmentForbidden | UrlHostNotAllowed | UrlPathNotAllowed

record ParsedUpdateUrl =
  host :: "byte list"
  path_and_query :: "byte list"
  port :: u16

definition kGitHubLatestReleasePath :: "byte list" where
  "kGitHubLatestReleasePath = bytes_of ''/repos/kdre/bmx/releases/latest''"

definition kGitHubReleaseDownloadPathPrefix :: "byte list" where
  "kGitHubReleaseDownloadPathPrefix = bytes_of ''/kdre/bmx/releases/download/''"

definition kGitHubReleaseApiPathPrefix :: "byte list" where
  "kGitHubReleaseApiPathPrefix = bytes_of ''/repos/kdre/bmx/releases/''"

definition kGitHubReleaseAssetApiPathPrefix :: "byte list" where
  "kGitHubReleaseAssetApiPathPrefix = bytes_of ''/repos/kdre/bmx/releases/assets/''"

section \<open>Helpers\<close>

definition IsAsciiHostCharacter :: "byte \<Rightarrow> bool" where
  "IsAsciiHostCharacter c \<longleftrightarrow>
     is_lower c \<or> is_digit c \<or> c = ch CHR ''.'' \<or> c = ch CHR ''-''"

definition IsForbiddenRequestCharacter :: "byte \<Rightarrow> bool" where
  "IsForbiddenRequestCharacter c \<longleftrightarrow> c \<le> 0x20 \<or> c = 0x7f \<or> c = ch CHR 0x5C"

definition StartsWith :: "byte list \<Rightarrow> byte list \<Rightarrow> bool" where
  "StartsWith value prefix \<longleftrightarrow> take (length prefix) value = prefix"

definition IsGithubReleasePath :: "byte list \<Rightarrow> bool" where
  "IsGithubReleasePath path \<longleftrightarrow>
     StartsWith path kGitHubReleaseDownloadPathPrefix \<and>
     (let tag = drop (length kGitHubReleaseDownloadPathPrefix) path in
      case index_of (\<lambda>c. c = ch CHR ''/'') tag of
        None \<Rightarrow> False
      | Some sep \<Rightarrow>
          if sep = 0 \<or> length tag = Suc sep then False
          else index_of (\<lambda>c. c = ch CHR ''/'') (drop (Suc sep) tag) = None)"

definition IsRedirectPath :: "byte list \<Rightarrow> bool" where
  "IsRedirectPath path \<longleftrightarrow> cstr_at path 0 = ch CHR ''/'' \<and> cstr_at path 1 \<noteq> 0"

definition IsPositiveDecimalSuffix :: "byte list \<Rightarrow> byte list \<Rightarrow> bool" where
  "IsPositiveDecimalSuffix path prefix \<longleftrightarrow>
     StartsWith path prefix \<and>
     (case drop (length prefix) path of
        [] \<Rightarrow> False
      | c # cs \<Rightarrow> ch CHR ''1'' \<le> c \<and> c \<le> ch CHR ''9'' \<and> list_all is_digit cs)"

definition IsAuthorizedRedirectHost :: "byte list option \<Rightarrow> bool" where
  "IsAuthorizedRedirectHost host_pointer \<longleftrightarrow>
     (case host_pointer of
        None \<Rightarrow> False
      | Some h \<Rightarrow>
          h = bytes_of ''github.com'' \<or>
          h = bytes_of ''release-assets.githubusercontent.com'' \<or>
          h = bytes_of ''objects.githubusercontent.com'' \<or>
          h = bytes_of ''github-releases.githubusercontent.com'')"

section \<open>The parser\<close>

text \<open>The decision after the URL was split: host and path for each purpose.\<close>

definition authorize_url :: "UpdateUrlPurpose \<Rightarrow> ParsedUpdateUrl \<Rightarrow> UrlPolicyStatus" where
  "authorize_url purpose parsed =
     (if purpose \<noteq> Redirect \<and> index_of (\<lambda>c. c = ch CHR ''?'') (path_and_query parsed) \<noteq> None
      then UrlQueryForbidden
      else case purpose of
        Discovery \<Rightarrow>
          if host parsed \<noteq> bytes_of ''api.github.com'' then UrlHostNotAllowed
          else if path_and_query parsed \<noteq> kGitHubLatestReleasePath then UrlPathNotAllowed
          else UrlOk
      | ReleaseAsset \<Rightarrow>
          if host parsed \<noteq> bytes_of ''github.com'' then UrlHostNotAllowed
          else if \<not> IsGithubReleasePath (path_and_query parsed) then UrlPathNotAllowed
          else UrlOk
      | PreparedDraftDiscovery \<Rightarrow>
          if host parsed \<noteq> bytes_of ''api.github.com'' then UrlHostNotAllowed
          else if IsPositiveDecimalSuffix (path_and_query parsed) kGitHubReleaseApiPathPrefix
          then UrlOk else UrlPathNotAllowed
      | AuthenticatedReleaseAsset \<Rightarrow>
          if host parsed \<noteq> bytes_of ''api.github.com'' then UrlHostNotAllowed
          else if IsPositiveDecimalSuffix (path_and_query parsed) kGitHubReleaseAssetApiPathPrefix
          then UrlOk else UrlPathNotAllowed
      | GitHubDeviceAuthorization \<Rightarrow>
          if host parsed \<noteq> bytes_of ''github.com'' then UrlHostNotAllowed
          else if path_and_query parsed = bytes_of ''/login/device/code'' \<or>
                  path_and_query parsed = bytes_of ''/login/oauth/access_token''
          then UrlOk else UrlPathNotAllowed
      | Redirect \<Rightarrow>
          if \<not> IsAuthorizedRedirectHost (Some (host parsed)) then UrlHostNotAllowed
          else if \<not> IsRedirectPath (path_and_query parsed) then UrlPathNotAllowed
          else UrlOk)"

text \<open>The host and port between the scheme and the path (\<open>path_at\<close> bytes of \<open>authority\<close>).\<close>

definition parse_authority ::
  "byte list \<Rightarrow> nat \<Rightarrow> UpdateUrlPurpose \<Rightarrow> ParsedUpdateUrl \<Rightarrow> UrlPolicyStatus \<times> ParsedUpdateUrl" where
  "parse_authority authority path_at purpose parsed =
     (if index_of (\<lambda>c. c = ch CHR ''@'') (take path_at authority) \<noteq> None
      then (UrlUserInfoForbidden, parsed)
      else
        let port_separator = index_of (\<lambda>c. c = ch CHR '':'') (take path_at authority);
            host_length = (case port_separator of None \<Rightarrow> path_at | Some i \<Rightarrow> i) in
        if host_length = 0 \<or> host_length \<ge> kMaximumUpdateHostBytes then (UrlInvalidHost, parsed)
        else if \<not> list_all IsAsciiHostCharacter (take host_length authority)
        then (UrlInvalidHost, parsed)
        else
          let parsed = parsed\<lparr>host := take host_length authority, port := 443\<rparr> in
          if port_separator \<noteq> None \<and>
             (path_at - host_length - 1 \<noteq> 3 \<or>
              segment authority (host_length + 1) path_at \<noteq> bytes_of ''443'')
          then (UrlInvalidPort, parsed)
          else
            let path = drop path_at authority in
            if length path = 0 \<or> length path \<ge> kMaximumUpdatePathBytes
            then (UrlInvalidPath, parsed)
            else if list_ex IsForbiddenRequestCharacter path then (UrlInvalidPath, parsed)
            else
              let parsed = parsed\<lparr>path_and_query := path\<rparr>
              in (authorize_url purpose parsed, parsed))"

definition ParseAndAuthorizeUpdateUrl ::
  "byte list option \<Rightarrow> UpdateUrlPurpose \<Rightarrow> ParsedUpdateUrl option \<Rightarrow>
   UrlPolicyStatus \<times> ParsedUpdateUrl option" where
  "ParseAndAuthorizeUpdateUrl url_pointer purpose parsed_pointer =
     (case (url_pointer, parsed_pointer) of
        (Some url_memory, Some parsed) \<Rightarrow>
          let url = c_str url_memory in
          if length url = 0 \<or> length url \<ge> kMaximumUpdateUrlBytes
          then (UrlTooLong, parsed_pointer)
          else if take 8 url \<noteq> bytes_of ''https://'' then (UrlHttpsRequired, parsed_pointer)
          else
            let authority = drop 8 url;
                path = index_of (\<lambda>c. c = ch CHR ''/'') authority;
                query_without_path = index_of (\<lambda>c. c = ch CHR ''?'') authority;
                fragment = index_of (\<lambda>c. c = ch CHR ''#'') authority in
            if fragment \<noteq> None then (UrlFragmentForbidden, parsed_pointer)
            else if query_without_path \<noteq> None \<and>
                    (path = None \<or> the query_without_path < the path)
            then (UrlInvalidPath, parsed_pointer)
            else (case path of
                    None \<Rightarrow> (UrlInvalidPath, parsed_pointer)
                  | Some path_at \<Rightarrow>
                      if path_at = 0 then (UrlInvalidPath, parsed_pointer)
                      else map_prod id Some (parse_authority authority path_at purpose parsed))
      | _ \<Rightarrow> (UrlInvalidArgument, parsed_pointer))"

section \<open>What the policy admits\<close>

definition wf_host :: "byte list \<Rightarrow> bool" where
  "wf_host h \<longleftrightarrow> h \<noteq> [] \<and> length h < kMaximumUpdateHostBytes \<and> list_all IsAsciiHostCharacter h"

definition wf_request_path :: "byte list \<Rightarrow> bool" where
  "wf_request_path p \<longleftrightarrow>
     p \<noteq> [] \<and> hd p = ch CHR ''/'' \<and> length p < kMaximumUpdatePathBytes \<and>
     list_all (\<lambda>c. \<not> IsForbiddenRequestCharacter c \<and> c \<noteq> ch CHR ''#'') p"

definition positive_decimal :: "byte list \<Rightarrow> bool" where
  "positive_decimal n \<longleftrightarrow> n \<noteq> [] \<and> hd n \<noteq> ch CHR ''0'' \<and> list_all is_digit n"

fun allowed_target :: "UpdateUrlPurpose \<Rightarrow> byte list \<Rightarrow> byte list \<Rightarrow> bool" where
  "allowed_target Discovery h p \<longleftrightarrow>
     h = bytes_of ''api.github.com'' \<and> p = bytes_of ''/repos/kdre/bmx/releases/latest''"
| "allowed_target ReleaseAsset h p \<longleftrightarrow>
     h = bytes_of ''github.com'' \<and>
     (\<exists>tag asset. p = bytes_of ''/kdre/bmx/releases/download/'' @ tag @ ch CHR ''/'' # asset \<and>
        tag \<noteq> [] \<and> asset \<noteq> [] \<and>
        {ch CHR ''/'', ch CHR ''?''} \<inter> (set tag \<union> set asset) = {})"
| "allowed_target PreparedDraftDiscovery h p \<longleftrightarrow>
     h = bytes_of ''api.github.com'' \<and>
     (\<exists>n. p = bytes_of ''/repos/kdre/bmx/releases/'' @ n \<and> positive_decimal n)"
| "allowed_target AuthenticatedReleaseAsset h p \<longleftrightarrow>
     h = bytes_of ''api.github.com'' \<and>
     (\<exists>n. p = bytes_of ''/repos/kdre/bmx/releases/assets/'' @ n \<and> positive_decimal n)"
| "allowed_target GitHubDeviceAuthorization h p \<longleftrightarrow>
     h = bytes_of ''github.com'' \<and>
     p \<in> {bytes_of ''/login/device/code'', bytes_of ''/login/oauth/access_token''}"
| "allowed_target Redirect h p \<longleftrightarrow>
     h \<in> {bytes_of ''github.com'', bytes_of ''release-assets.githubusercontent.com'',
          bytes_of ''objects.githubusercontent.com'',
          bytes_of ''github-releases.githubusercontent.com''} \<and> 1 < length p"

lemma not_host_char [simp]:
  "\<not> IsAsciiHostCharacter (ch CHR '':'')" "\<not> IsAsciiHostCharacter (ch CHR ''@'')"
  "\<not> IsAsciiHostCharacter (ch CHR ''/'')" "\<not> IsAsciiHostCharacter (ch CHR ''?'')"
  "\<not> IsAsciiHostCharacter (ch CHR ''#'')"
  by (simp_all add: IsAsciiHostCharacter_def bmx_chars)

lemma wf_host_notin:
  assumes "wf_host h"
  shows "ch CHR '':'' \<notin> set h" "ch CHR ''@'' \<notin> set h" "ch CHR ''/'' \<notin> set h"
    "ch CHR ''?'' \<notin> set h" "ch CHR ''#'' \<notin> set h" "h \<noteq> []"
  using assms not_host_char by (auto simp: wf_host_def list_all_iff)

lemma StartsWith_iff: "StartsWith value prefix \<longleftrightarrow> (\<exists>rest. value = prefix @ rest)"
  unfolding StartsWith_def by (metis append_eq_conv_conj append_take_drop_id)

lemma IsPositiveDecimalSuffix_iff:
  "IsPositiveDecimalSuffix path prefix \<longleftrightarrow> (\<exists>n. path = prefix @ n \<and> positive_decimal n)"
proof -
  have digit: "ch CHR ''1'' \<le> c \<and> c \<le> ch CHR ''9'' \<and> P \<longleftrightarrow> c \<noteq> ch CHR ''0'' \<and> is_digit c \<and> P"
    for c P
    unfolding is_digit_def by (auto simp: ch_def word_le_nat_alt word_unat_eq_iff)
  show ?thesis
    unfolding IsPositiveDecimalSuffix_def StartsWith_iff positive_decimal_def digit
    by (auto split: list.splits)
qed

lemma map_prod_Some [simp]: "map_prod id Some x = (a, Some b) \<longleftrightarrow> x = (a, b)"
  by (cases x) auto

lemma IsGithubReleasePath_iff:
  "IsGithubReleasePath path \<longleftrightarrow>
   (\<exists>tag asset. path = kGitHubReleaseDownloadPathPrefix @ tag @ ch CHR ''/'' # asset \<and>
      tag \<noteq> [] \<and> asset \<noteq> [] \<and> ch CHR ''/'' \<notin> set tag \<and> ch CHR ''/'' \<notin> set asset)"
  (is "?lhs \<longleftrightarrow> ?rhs")
proof
  assume ?lhs
  then obtain rest sep where rest: "path = kGitHubReleaseDownloadPathPrefix @ rest"
    and sep: "index_of (\<lambda>c. c = ch CHR ''/'') rest = Some sep"
    and "sep \<noteq> 0" "length rest \<noteq> Suc sep"
    and none: "index_of (\<lambda>c. c = ch CHR ''/'') (drop (Suc sep) rest) = None"
    by (auto simp: IsGithubReleasePath_def StartsWith_iff Let_def split: option.splits if_splits)
  then obtain tag asset where "rest = tag @ ch CHR ''/'' # asset"
    "ch CHR ''/'' \<notin> set tag" "length tag = sep"
    using index_of_eq_Some by metis
  with rest none \<open>sep \<noteq> 0\<close> \<open>length rest \<noteq> Suc sep\<close> show ?rhs
    by (auto simp: index_of_eq_None)
next
  assume ?rhs
  then obtain tag asset where p: "path = kGitHubReleaseDownloadPathPrefix @ tag @ ch CHR ''/'' # asset"
    and c: "tag \<noteq> []" "asset \<noteq> []" "ch CHR ''/'' \<notin> set tag" "ch CHR ''/'' \<notin> set asset" by blast
  have "index_of (\<lambda>c. c = ch CHR ''/'') (tag @ ch CHR ''/'' # asset) = Some (length tag)"
    using c by (auto simp: index_of_eq_Some)
  with p c show ?lhs
    by (auto simp: IsGithubReleasePath_def StartsWith_iff index_of_eq_None)
qed

lemma positive_decimal_no_query: "positive_decimal n \<Longrightarrow> ch CHR ''?'' \<notin> set n"
  by (auto simp: positive_decimal_def list_all_iff bmx_chars)

lemma two_components_without_query:
  assumes "q \<notin> set pre" and "q \<noteq> s"
  shows "(\<exists>tag asset. p = pre @ tag @ s # asset \<and> tag \<noteq> [] \<and> asset \<noteq> [] \<and>
      {s, q} \<inter> (set tag \<union> set asset) = {}) \<longleftrightarrow>
    (\<exists>tag asset. p = pre @ tag @ s # asset \<and> tag \<noteq> [] \<and> asset \<noteq> [] \<and>
      s \<notin> set tag \<and> s \<notin> set asset) \<and> q \<notin> set p"
  using assms by (auto, blast+)

lemma authorize_url_Ok_iff:
  assumes "wf_request_path (path_and_query parsed)"
  shows "authorize_url purpose parsed = UrlOk \<longleftrightarrow>
    allowed_target purpose (host parsed) (path_and_query parsed)"
proof (cases purpose)
  case Discovery
  then show ?thesis
    by (auto simp: authorize_url_def index_of_eq_None kGitHubLatestReleasePath_def)
next
  case ReleaseAsset
  have "ch CHR ''?'' \<notin> set kGitHubReleaseDownloadPathPrefix"
    by (simp add: kGitHubReleaseDownloadPathPrefix_def)
  note two = two_components_without_query [OF this, of "ch CHR ''/''", unfolded
      kGitHubReleaseDownloadPathPrefix_def]
  have "authorize_url purpose parsed = UrlOk \<longleftrightarrow> host parsed = bytes_of ''github.com'' \<and>
      IsGithubReleasePath (path_and_query parsed) \<and> ch CHR ''?'' \<notin> set (path_and_query parsed)"
    using ReleaseAsset by (simp add: authorize_url_def index_of_eq_None)
  also have "\<dots> \<longleftrightarrow> allowed_target purpose (host parsed) (path_and_query parsed)"
    unfolding ReleaseAsset allowed_target.simps IsGithubReleasePath_iff
      kGitHubReleaseDownloadPathPrefix_def by (subst two) simp_all
  finally show ?thesis .
next
  case Redirect
  have "IsRedirectPath (path_and_query parsed) \<longleftrightarrow> 1 < length (path_and_query parsed)"
  proof (cases "path_and_query parsed")
    case Nil
    then show ?thesis using assms by (simp add: wf_request_path_def)
  next
    case (Cons c cs)
    then show ?thesis
      using assms
      by (cases cs) (auto simp: wf_request_path_def IsRedirectPath_def cstr_at_def ch_def
          IsForbiddenRequestCharacter_def)
  qed
  with Redirect show ?thesis
    by (auto simp: authorize_url_def IsAuthorizedRedirectHost_def)
next
  case PreparedDraftDiscovery
  then show ?thesis
    by (auto simp: authorize_url_def index_of_eq_None IsPositiveDecimalSuffix_iff
        kGitHubReleaseApiPathPrefix_def dest: positive_decimal_no_query)
next
  case AuthenticatedReleaseAsset
  then show ?thesis
    by (auto simp: authorize_url_def index_of_eq_None IsPositiveDecimalSuffix_iff
        kGitHubReleaseAssetApiPathPrefix_def dest: positive_decimal_no_query)
next
  case GitHubDeviceAuthorization
  then show ?thesis
    by (auto simp: authorize_url_def index_of_eq_None)
qed

text \<open>The authority is split at its first colon, and only the port 443 may follow one.\<close>

lemma authority_split:
  assumes "index_of (\<lambda>c. c = ch CHR '':'') a = port_separator"
    and "h = take (case port_separator of None \<Rightarrow> length a | Some i \<Rightarrow> i) a"
  shows "(port_separator = None \<longrightarrow> a = h \<and> ch CHR '':'' \<notin> set h) \<and>
    (port_separator \<noteq> None \<longrightarrow> (\<exists>digits. a = h @ ch CHR '':'' # digits \<and> ch CHR '':'' \<notin> set h))"
proof (cases port_separator)
  case None
  with assms show ?thesis by (simp add: index_of_eq_None)
next
  case (Some i)
  with assms(1) obtain ys zs where "a = ys @ ch CHR '':'' # zs" "ch CHR '':'' \<notin> set ys" "length ys = i"
    using index_of_eq_Some by metis
  with assms(2) Some show ?thesis by auto
qed

lemma parse_authority_Ok_iff:
  assumes slash: "ch CHR ''/'' \<notin> set a" and "a \<noteq> []"
    and no_fragment: "ch CHR ''#'' \<notin> set rest"
    and rest: "rest \<noteq> []" "hd rest = ch CHR ''/''"
  shows "parse_authority (a @ rest) (length a) purpose parsed0 = (UrlOk, parsed) \<longleftrightarrow>
    port parsed = 443 \<and> path_and_query parsed = rest \<and>
    a \<in> {host parsed, host parsed @ bytes_of '':443''} \<and>
    wf_host (host parsed) \<and> wf_request_path rest \<and>
    allowed_target purpose (host parsed) rest" (is "?lhs \<longleftrightarrow> ?rhs")
proof
  assume lhs: ?lhs
  define ps where "ps = index_of (\<lambda>c. c = ch CHR '':'') a"
  define n where "n = (case ps of None \<Rightarrow> length a | Some i \<Rightarrow> i)"
  define h where "h = take n a"
  have n: "n \<le> length a"
    by (auto simp: n_def ps_def dest: index_of_SomeD(1) split: option.splits)
  note parts = authority_split [OF ps_def [symmetric] h_def [unfolded n_def]]
  have hl: "length h = n" using n by (simp add: h_def)
  from lhs have c: "n \<noteq> 0" "n < kMaximumUpdateHostBytes" "list_all IsAsciiHostCharacter h"
    "ps \<noteq> None \<Longrightarrow> segment (a @ rest) (n + 1) (length a) = bytes_of ''443''"
    "length rest < kMaximumUpdatePathBytes" "\<not> list_ex IsForbiddenRequestCharacter rest"
    and pq: "parsed = parsed0\<lparr>host := h, port := 443, path_and_query := rest\<rparr>"
    and auth: "authorize_url purpose (parsed0\<lparr>host := h, port := 443, path_and_query := rest\<rparr>) = UrlOk"
    by (auto simp: parse_authority_def Let_def ps_def [symmetric] n_def [symmetric] h_def
        diff_is_0_eq [THEN iffD2, OF n] split: if_splits) (simp add: n_def)
  have wf: "wf_host h" "wf_request_path rest"
    using c hl rest no_fragment
    by (auto simp: wf_host_def wf_request_path_def list_all_iff list_ex_iff)
  have "a \<in> {h, h @ bytes_of '':443''}"
  proof (cases ps)
    case None
    then show ?thesis using parts by simp
  next
    case (Some i)
    then obtain digits where a: "a = h @ ch CHR '':'' # digits" using parts by auto
    then have "segment (a @ rest) (n + 1) (length a) = digits"
      by (simp add: segment_def hl [symmetric])
    with c(4) Some a show ?thesis by simp
  qed
  with wf pq auth authorize_url_Ok_iff show ?rhs by auto
next
  assume rhs: ?rhs
  let ?h = "host parsed"
  have hc: "ch CHR '':'' \<notin> set ?h" "ch CHR ''@'' \<notin> set ?h"
    using rhs wf_host_notin by auto
  have nl: "length ?h \<noteq> 0" "length ?h < kMaximumUpdateHostBytes" "list_all IsAsciiHostCharacter ?h"
    using rhs by (auto simp: wf_host_def)
  have path: "\<not> list_ex IsForbiddenRequestCharacter rest" "length rest < kMaximumUpdatePathBytes"
    using rhs by (auto simp: wf_request_path_def list_all_iff list_ex_iff)
  have parsed: "parsed0\<lparr>host := ?h, port := 443, path_and_query := rest\<rparr> = parsed"
    using rhs by (cases parsed) simp
  have auth: "authorize_url purpose parsed = UrlOk"
    using rhs by (simp add: authorize_url_Ok_iff)
  consider "a = ?h" | "a = ?h @ bytes_of '':443''" using rhs by blast
  then show ?lhs
  proof cases
    case 1
    then have "index_of (\<lambda>c. c = ch CHR '':'') a = None" "index_of (\<lambda>c. c = ch CHR ''@'') a = None"
      using hc by (auto simp: index_of_eq_None)
    with 1 nl path rest(1) parsed auth show ?thesis
      by (simp add: parse_authority_def Let_def)
  next
    case 2
    then have "index_of (\<lambda>c. c = ch CHR '':'') a = Some (length ?h)"
      using hc by (auto simp: index_of_eq_Some)
    moreover have "index_of (\<lambda>c. c = ch CHR ''@'') a = None"
      using hc 2 by (auto simp: index_of_eq_None)
    moreover have "segment (a @ rest) (length ?h + 1) (length a) = bytes_of ''443''"
      using 2 by (simp add: segment_def)
    ultimately show ?thesis
      using 2 nl path rest(1) parsed auth by (simp add: parse_authority_def Let_def)
  qed
qed

lemma accepted_url_parts:
  "ParseAndAuthorizeUpdateUrl (Some url) purpose (Some parsed0) = (UrlOk, Some parsed) \<longleftrightarrow>
   length (c_str url) < kMaximumUpdateUrlBytes \<and> port parsed = 443 \<and>
   (\<exists>port_part. port_part \<in> {[], bytes_of '':443''} \<and>
      c_str url = bytes_of ''https://'' @ host parsed @ port_part @ path_and_query parsed) \<and>
   wf_host (host parsed) \<and> wf_request_path (path_and_query parsed) \<and>
   allowed_target purpose (host parsed) (path_and_query parsed)" (is "?lhs \<longleftrightarrow> ?rhs")
proof
  assume lhs: ?lhs
  define authority where "authority = drop 8 (c_str url)"
  from lhs obtain n where url: "length (c_str url) < kMaximumUpdateUrlBytes"
    "take 8 (c_str url) = bytes_of ''https://''" "ch CHR ''#'' \<notin> set authority"
    and n: "index_of (\<lambda>c. c = ch CHR ''/'') authority = Some n" "n \<noteq> 0"
    and pa: "parse_authority authority n purpose parsed0 = (UrlOk, parsed)"
    by (auto simp: ParseAndAuthorizeUpdateUrl_def Let_def authority_def [symmetric]
        index_of_eq_None split: if_splits option.splits)
  from n(1) obtain a p where a: "authority = a @ ch CHR ''/'' # p" "ch CHR ''/'' \<notin> set a" "length a = n"
    using index_of_eq_Some by metis
  have "a \<noteq> []" using a n(2) by auto
  with parse_authority_Ok_iff [of a "ch CHR ''/'' # p" purpose parsed0 parsed] a url(3) pa
  have *: "port parsed = 443 \<and> path_and_query parsed = ch CHR ''/'' # p \<and>
      a \<in> {host parsed, host parsed @ bytes_of '':443''} \<and> wf_host (host parsed) \<and>
      wf_request_path (ch CHR ''/'' # p) \<and> allowed_target purpose (host parsed) (ch CHR ''/'' # p)"
    by auto
  have "c_str url = bytes_of ''https://'' @ a @ path_and_query parsed"
    using url(2) a(1) * append_take_drop_id [of 8 "c_str url"] by (simp add: authority_def)
  with * url(1) show ?rhs by auto
next
  assume rhs: ?rhs
  then obtain port_part where pp: "port_part \<in> {[], bytes_of '':443''}"
    and url: "c_str url = bytes_of ''https://'' @ host parsed @ port_part @ path_and_query parsed"
    by blast
  let ?a = "host parsed @ port_part" and ?p = "path_and_query parsed"
  have hc: "ch CHR ''/'' \<notin> set ?a" "ch CHR ''?'' \<notin> set ?a" "ch CHR ''#'' \<notin> set ?a" "?a \<noteq> []"
    using rhs pp wf_host_notin by auto
  have rest: "?p \<noteq> []" "hd ?p = ch CHR ''/''" "ch CHR ''#'' \<notin> set ?p"
    using rhs by (auto simp: wf_request_path_def list_all_iff)
  have pa: "parse_authority (?a @ ?p) (length ?a) purpose parsed0 = (UrlOk, parsed)"
    using parse_authority_Ok_iff [of ?a ?p purpose parsed0 parsed] hc rest rhs pp by auto
  have at: "index_of (\<lambda>c. c = ch CHR ''/'') (?a @ ?p) = Some (length ?a)"
    using hc(1) rest(1,2)
    by (intro index_of_eq_Some [THEN iffD2] exI [of _ ?a] exI [of _ "tl ?p"]) (cases ?p; simp)
  have query: "q = None \<or> length ?a \<le> the q" if "q = index_of (\<lambda>c. c = ch CHR ''?'') (?a @ ?p)" for q
    using that index_of_eq_append [OF hc(2), of ?p]
    by (cases "index_of (\<lambda>c. c = ch CHR ''?'') ?p") auto
  have "index_of (\<lambda>c. c = ch CHR ''#'') (?a @ ?p) = None"
    using hc(3) rest(3) by (auto simp: index_of_eq_None)
  then show ?lhs
    using rhs pa at query [OF refl] hc(4) url
    by (auto simp: ParseAndAuthorizeUpdateUrl_def Let_def)
qed

section \<open>Properties\<close>

text \<open>
  C18: the updater's URL parser accepts a URL for a purpose, and then reports these parts,
  exactly when the URL is \<open>https://\<close>, a host, optionally \<open>:443\<close>, and a path, with the
  host and path in the set allowed for that purpose: no user information, no fragment, no
  other port, no control byte or backslash, and a query only in a redirect.
\<close>

theorem url_accepted_iff:
  "ParseAndAuthorizeUpdateUrl (Some url) purpose (Some parsed0) = (UrlOk, Some parsed) \<longleftrightarrow>
   length (c_str url) < kMaximumUpdateUrlBytes \<and> port parsed = 443 \<and>
   (\<exists>port_part. port_part \<in> {[], bytes_of '':443''} \<and>
      c_str url = bytes_of ''https://'' @ host parsed @ port_part @ path_and_query parsed) \<and>
   wf_host (host parsed) \<and> wf_request_path (path_and_query parsed) \<and>
   allowed_target purpose (host parsed) (path_and_query parsed)"
  by (rule accepted_url_parts)

end
