(* ===== verification/Command_Mailbox.thy ===== *)
theory Command_Mailbox
  imports Bmx_Prelude
begin

text \<open>
  The single-slot handoff between the network task and the emulator's safe point,
  \<open>src/src/remote/command_mailbox.cpp\<close>.  Every operation runs under the mailbox lock, so a
  concurrent execution is a sequence of operations; \<open>mailbox_step\<close> is one of them with its
  observable result and \<open>mailbox_run\<close> an execution from the constructed mailbox.

  The fields of \<open>BmxApiRequest\<close> and \<open>BmxApiResponse\<close> the mailbox only copies are kept in
  \<open>request_fields\<close> (type \<open>'q\<close>) and \<open>Response\<close> (type \<open>'p\<close>).  A text pointer is null, a
  buffer of the caller, or the mailbox's own buffer \<open>control_text_\<close>: a request which was taken
  aliases that buffer, and the state \<open>ControlAbandoned\<close> exists to keep it alive.
\<close>

section \<open>State\<close>

datatype RemoteCommand = NoCommand | SystemReboot

datatype ControlPollStatus = PollPending | PollComplete | PollMissing

datatype BmxApiOperation =
  OpNone | OpState | OpMenu | OpListControls | OpListActions | OpDescribeControl |
  OpSetControl | OpInvokeAction | OpInput | OpTextInput | OpScreenshot | OpAudio |
  OpAudioWav | OpStorage | OpFiles | OpMedia | OpDeveloperMemoryRead

datatype text_pointer = TextNull | TextCaller "byte list" | TextMailbox

record 'q BmxApiRequest =
  operation :: BmxApiOperation
  request_text :: text_pointer
  text_size :: nat
  request_fields :: "'q option"

datatype 'p BmxApiResponse = EmptyResponse | Response 'p

datatype ControlState =
  ControlEmpty | ControlPosted | ControlRunning | ControlAbandoned | ControlComplete

record ('q, 'p) CommandMailbox =
  command :: RemoteCommand
  control_state :: ControlState
  next_control_token :: u32
  control_token :: u32
  control_request :: "'q BmxApiRequest"
  control_response :: "'p BmxApiResponse"
  control_text :: "byte list"

definition kBmxApiMaximumTextBytes :: nat where
  "kBmxApiMaximumTextBytes = 16 * 1024"

definition empty_request :: "'q BmxApiRequest" where
  "empty_request =
     \<lparr>operation = OpNone, request_text = TextNull, text_size = 0, request_fields = None\<rparr>"

section \<open>Operations\<close>

definition init_mailbox :: "('q, 'p) CommandMailbox" where
  "init_mailbox =
     \<lparr>command = NoCommand, control_state = ControlEmpty, next_control_token = 0,
      control_token = 0, control_request = empty_request, control_response = EmptyResponse,
      control_text = replicate (kBmxApiMaximumTextBytes + 1) 0\<rparr>"

definition ResetControlLocked :: "('q, 'p) CommandMailbox \<Rightarrow> ('q, 'p) CommandMailbox" where
  "ResetControlLocked m =
     m\<lparr>control_request := empty_request, control_response := EmptyResponse,
       control_text := (control_text m)[0 := 0], control_token := 0,
       control_state := ControlEmpty\<rparr>"

definition Post :: "RemoteCommand \<Rightarrow> ('q, 'p) CommandMailbox \<Rightarrow> bool \<times> ('q, 'p) CommandMailbox" where
  "Post cmd m =
     (if cmd = NoCommand then (False, m)
      else let accepted = (command m = NoCommand \<and> control_state m = ControlEmpty)
           in (accepted, if accepted then m\<lparr>command := cmd\<rparr> else m))"

text \<open>The output parameter \<open>command\<close> is written when it is not null.\<close>

definition Take ::
  "bool \<Rightarrow> ('q, 'p) CommandMailbox \<Rightarrow> (bool \<times> RemoteCommand option) \<times> ('q, 'p) CommandMailbox" where
  "Take have_command m =
     (if \<not> have_command then ((False, None), m)
      else ((command m \<noteq> NoCommand, Some (command m)), m\<lparr>command := NoCommand\<rparr>))"

text \<open>
  \<open>PostControl\<close>: the text of a text-input request is copied into the mailbox's buffer and the
  stored request points there.
\<close>

definition text_bytes :: "byte list \<Rightarrow> text_pointer \<Rightarrow> byte list" where
  "text_bytes own p = (case p of TextCaller bs \<Rightarrow> bs | TextMailbox \<Rightarrow> own | TextNull \<Rightarrow> [])"

definition control_request_valid :: "'q BmxApiRequest \<Rightarrow> bool" where
  "control_request_valid r \<longleftrightarrow>
     \<not> (operation r = OpNone \<or>
        (operation r = OpTextInput \<and>
         (request_text r = TextNull \<or> text_size r = 0 \<or> text_size r > kBmxApiMaximumTextBytes)))"

definition next_token :: "u32 \<Rightarrow> u32" where
  "next_token t = (let t' = t + 1 in if t' = 0 then t' + 1 else t')"

definition PostControl ::
  "'q BmxApiRequest \<Rightarrow> bool \<Rightarrow> ('q, 'p) CommandMailbox \<Rightarrow> u32 option \<times> ('q, 'p) CommandMailbox" where
  "PostControl r have_token m =
     (if \<not> control_request_valid r \<or> \<not> have_token then (None, m)
      else if command m = NoCommand \<and> control_state m = ControlEmpty then
        let t = next_token (next_control_token m);
            m = m\<lparr>next_control_token := t, control_token := t, control_request := r\<rparr>;
            m = (if operation r = OpTextInput then
                   m\<lparr>control_text :=
                       take (text_size r) (text_bytes (control_text m) (request_text r)) @ 0 #
                       drop (text_size r + 1) (control_text m),
                     control_request := r\<lparr>request_text := TextMailbox\<rparr>\<rparr>
                 else m)
        in (Some t, m\<lparr>control_response := EmptyResponse, control_state := ControlPosted\<rparr>)
      else (None, m))"

definition TakeControl ::
  "bool \<Rightarrow> ('q, 'p) CommandMailbox \<Rightarrow>
   ('q BmxApiRequest \<times> u32) option \<times> ('q, 'p) CommandMailbox" where
  "TakeControl have_outputs m =
     (if \<not> have_outputs then (None, m)
      else if control_state m = ControlPosted
      then (Some (control_request m, control_token m), m\<lparr>control_state := ControlRunning\<rparr>)
      else (None, m))"

definition CompleteControl ::
  "u32 \<Rightarrow> 'p BmxApiResponse \<Rightarrow> ('q, 'p) CommandMailbox \<Rightarrow> bool \<times> ('q, 'p) CommandMailbox" where
  "CompleteControl token response m =
     (let accepted = (control_state m = ControlRunning \<and> control_token m = token) in
      (accepted,
       if accepted then m\<lparr>control_response := response, control_state := ControlComplete\<rparr>
       else if control_state m = ControlAbandoned \<and> control_token m = token
       then ResetControlLocked m
       else m))"

definition PollControl ::
  "u32 \<Rightarrow> bool \<Rightarrow> ('q, 'p) CommandMailbox \<Rightarrow>
   (ControlPollStatus \<times> 'p BmxApiResponse option) \<times> ('q, 'p) CommandMailbox" where
  "PollControl token have_response m =
     (if \<not> have_response then ((PollMissing, None), m)
      else if control_state m \<noteq> ControlEmpty \<and> control_token m = token then
        (if control_state m = ControlComplete
         then ((PollComplete, Some (control_response m)), ResetControlLocked m)
         else ((PollPending, None), m))
      else ((PollMissing, None), m))"

definition CancelControl ::
  "u32 \<Rightarrow> bool \<Rightarrow> ('q, 'p) CommandMailbox \<Rightarrow>
   (bool \<times> 'p BmxApiResponse option) \<times> ('q, 'p) CommandMailbox" where
  "CancelControl token have_abandoned m =
     (if control_state m \<noteq> ControlEmpty \<and> control_state m \<noteq> ControlAbandoned \<and>
         control_token m = token
      then ((True, if have_abandoned \<and> control_state m = ControlComplete
                   then Some (control_response m) else None),
            if control_state m = ControlRunning then m\<lparr>control_state := ControlAbandoned\<rparr>
            else ResetControlLocked m)
      else ((False, None), m))"

definition Pending :: "('q, 'p) CommandMailbox \<Rightarrow> bool" where
  "Pending m \<longleftrightarrow> command m \<noteq> NoCommand \<or> control_state m \<noteq> ControlEmpty"

lemmas mailbox_ops = Post_def Take_def PostControl_def TakeControl_def CompleteControl_def
  PollControl_def CancelControl_def ResetControlLocked_def Let_def

section \<open>Executions\<close>

text \<open>One locked operation with what its caller sees.\<close>

datatype ('q, 'p) event =
  EPost RemoteCommand bool
| ETake RemoteCommand
| EPostControl "'q BmxApiRequest" "u32 option"
| ETakeControl "('q BmxApiRequest \<times> u32) option"
| ECompleteControl u32 "'p BmxApiResponse" bool
| EPollControl u32 ControlPollStatus "'p BmxApiResponse option"
| ECancelControl u32 bool "'p BmxApiResponse option"

inductive mailbox_step ::
  "('q, 'p) CommandMailbox \<Rightarrow> ('q, 'p) event \<Rightarrow> ('q, 'p) CommandMailbox \<Rightarrow> bool" where
  post: "Post c m = (ok, m') \<Longrightarrow> mailbox_step m (EPost c ok) m'"
| take: "Take True m = ((ok, Some c), m') \<Longrightarrow> mailbox_step m (ETake c) m'"
| post_control: "PostControl r h m = (t, m') \<Longrightarrow> mailbox_step m (EPostControl r t) m'"
| take_control: "TakeControl h m = (x, m') \<Longrightarrow> mailbox_step m (ETakeControl x) m'"
| complete_control: "CompleteControl t p m = (ok, m') \<Longrightarrow>
    mailbox_step m (ECompleteControl t p ok) m'"
| poll_control: "PollControl t h m = ((st, p), m') \<Longrightarrow>
    mailbox_step m (EPollControl t st p) m'"
| cancel_control: "CancelControl t h m = ((ok, p), m') \<Longrightarrow>
    mailbox_step m (ECancelControl t ok p) m'"

inductive mailbox_run :: "('q, 'p) event list \<Rightarrow> ('q, 'p) CommandMailbox \<Rightarrow> bool" where
  start: "mailbox_run [] init_mailbox"
| step: "mailbox_run es m \<Longrightarrow> mailbox_step m e m' \<Longrightarrow> mailbox_run (es @ [e]) m'"

inductive_simps mailbox_step_simps:
  "mailbox_step m (EPost c ok) m'"
  "mailbox_step m (ETake c) m'"
  "mailbox_step m (EPostControl r t) m'"
  "mailbox_step m (ETakeControl x) m'"
  "mailbox_step m (ECompleteControl t p ok) m'"
  "mailbox_step m (EPollControl t st p) m'"
  "mailbox_step m (ECancelControl t ok p) m'"

inductive_cases mailbox_run_snocE: "mailbox_run es m"

section \<open>Invariant\<close>

text \<open>
  At most one of the two slots is in use; the token is zero exactly when the control slot is
  empty and is otherwise the last one issued; a response is held only in the state that
  delivers it; an occupied slot holds a real operation, and a stored text-input request points
  into the mailbox.
\<close>

definition mailbox_inv :: "('q, 'p) CommandMailbox \<Rightarrow> bool" where
  "mailbox_inv m \<longleftrightarrow>
     (command m = NoCommand \<or> control_state m = ControlEmpty) \<and>
     (control_state m = ControlEmpty \<longleftrightarrow> control_token m = 0) \<and>
     (control_state m \<noteq> ControlEmpty \<longrightarrow> control_token m = next_control_token m) \<and>
     (control_state m \<noteq> ControlComplete \<longrightarrow> control_response m = EmptyResponse) \<and>
     (control_state m \<noteq> ControlEmpty \<longrightarrow>
        operation (control_request m) \<noteq> OpNone \<and>
        (operation (control_request m) = OpTextInput \<longrightarrow>
           request_text (control_request m) = TextMailbox))"

lemma next_token_nonzero [simp]: "next_token t \<noteq> 0"
  by (simp add: next_token_def Let_def)

lemma mailbox_inv_init: "mailbox_inv init_mailbox"
  by (simp add: mailbox_inv_def init_mailbox_def)

lemma mailbox_step_inv: "mailbox_step m e m' \<Longrightarrow> mailbox_inv m \<Longrightarrow> mailbox_inv m'"
  by (induction rule: mailbox_step.induct)
    (auto simp: mailbox_inv_def mailbox_ops control_request_valid_def split: if_splits)

lemma mailbox_run_inv: "mailbox_run es m \<Longrightarrow> mailbox_inv m"
  by (induction rule: mailbox_run.induct) (auto intro: mailbox_inv_init mailbox_step_inv)

section \<open>Tokens\<close>

definition issued_token :: "('q, 'p) event \<Rightarrow> u32 option" where
  "issued_token e = (case e of EPostControl r t \<Rightarrow> t | _ \<Rightarrow> None)"

definition issued :: "('q, 'p) event list \<Rightarrow> u32 list" where
  "issued es = List.map_filter issued_token es"

fun token_at :: "nat \<Rightarrow> u32" where
  "token_at 0 = 0"
| "token_at (Suc n) = next_token (token_at n)"

lemma issued_snoc:
  "issued (es @ [e]) = issued es @ (case issued_token e of None \<Rightarrow> [] | Some t \<Rightarrow> [t])"
  by (simp add: issued_def map_filter_def split: option.splits)

lemma token_at_eq: "token_at (Suc n) = of_nat (n mod (2 ^ 32 - 1) + 1)"
proof (induction n)
  case 0
  then show ?case by (simp add: next_token_def)
next
  case (Suc n)
  define k where "k = n mod (2 ^ 32 - 1)"
  have k: "k < 2 ^ 32 - 1" by (simp add: k_def)
  have step: "token_at (Suc (Suc n)) = next_token (of_nat (k + 1))"
    using Suc by (simp add: k_def)
  show ?case
  proof (cases "k + 1 = 2 ^ 32 - 1")
    case True
    then have "Suc n mod (2 ^ 32 - 1) = 0" by (simp add: k_def mod_Suc)
    moreover have "next_token (of_nat (2 ^ 32 - 1)) = 1" by (simp add: next_token_def)
    ultimately show ?thesis using step True by simp
  next
    case False
    with k have small: "k + 2 < 2 ^ 32" by simp
    then have "unat (of_nat (k + 2) :: u32) = k + 2"
      by (intro unat_of_nat_small) simp
    then have "(of_nat (k + 2) :: u32) \<noteq> 0" by auto
    then have "next_token (of_nat (k + 1)) = (of_nat (k + 2) :: u32)"
      by (simp add: next_token_def Let_def add.assoc)
    moreover have "Suc n mod (2 ^ 32 - 1) + 1 = k + 2"
      using False k by (simp add: k_def mod_Suc)
    ultimately show ?thesis using step by simp
  qed
qed

lemma step_issued:
  assumes "mailbox_step m e m'"
  shows "next_control_token m' =
    (case issued_token e of None \<Rightarrow> next_control_token m | Some t \<Rightarrow> t)"
    and "issued_token e = Some t \<Longrightarrow> t = next_token (next_control_token m)"
  using assms
  by (induction rule: mailbox_step.induct)
    (auto simp: mailbox_ops issued_token_def split: if_splits)

lemma run_tokens:
  "mailbox_run es m \<Longrightarrow>
   next_control_token m = token_at (length (issued es)) \<and>
   issued es = map (\<lambda>k. token_at (Suc k)) [0..<length (issued es)]"
proof (induction rule: mailbox_run.induct)
  case start
  then show ?case by (simp add: init_mailbox_def issued_def map_filter_def)
next
  case (step es m e m')
  show ?case
  proof (cases "issued_token e")
    case None
    with step step_issued [OF step.hyps(2)] show ?thesis by (simp add: issued_snoc)
  next
    case (Some t)
    with step step_issued [OF step.hyps(2)] have "t = token_at (Suc (length (issued es)))" by simp
    with step step_issued(1) [OF step.hyps(2)] Some show ?thesis by (auto simp: issued_snoc)
  qed
qed

section \<open>Properties\<close>

text \<open>
  C33: in every execution of the mailbox, whatever the interleaving of its clients, the
  one-shot command and the control request are never pending together, a held token is
  nonzero and the last one issued, and a response is kept only until it is delivered.
\<close>

theorem mailbox_invariant: "mailbox_run es m \<Longrightarrow> mailbox_inv m"
  by (rule mailbox_run_inv)

section \<open>The request protocol\<close>

text \<open>
  What an execution must contain when the control slot is in a given state: the events that
  brought the request with token \<open>t\<close> there, with nothing in between that concerns \<open>t\<close>.
\<close>

fun concerns :: "u32 \<Rightarrow> ('q, 'p) event \<Rightarrow> bool" where
  "concerns t (ETakeControl (Some (r, t'))) \<longleftrightarrow> t' = t"
| "concerns t (ECompleteControl t' p ok) \<longleftrightarrow> ok \<and> t' = t"
| "concerns t (EPollControl t' st p) \<longleftrightarrow> st = PollComplete \<and> t' = t"
| "concerns t (ECancelControl t' ok p) \<longleftrightarrow> ok \<and> t' = t"
| "concerns t _ \<longleftrightarrow> False"

definition quiet :: "u32 \<Rightarrow> ('q, 'p) event list \<Rightarrow> bool" where
  "quiet t es \<longleftrightarrow> list_all (\<lambda>e. \<not> concerns t e) es"

definition stored_request :: "'q BmxApiRequest \<Rightarrow> 'q BmxApiRequest" where
  "stored_request r = (if operation r = OpTextInput then r\<lparr>request_text := TextMailbox\<rparr> else r)"

definition posted :: "u32 \<Rightarrow> 'q BmxApiRequest \<Rightarrow> ('q, 'p) event list \<Rightarrow> bool" where
  "posted t r es \<longleftrightarrow> (\<exists>A B. es = A @ EPostControl r (Some t) # B \<and> quiet t B)"

definition taken :: "u32 \<Rightarrow> 'q BmxApiRequest \<Rightarrow> ('q, 'p) event list \<Rightarrow> bool" where
  "taken t r es \<longleftrightarrow>
     (\<exists>A B. es = A @ ETakeControl (Some (stored_request r, t)) # B \<and> posted t r A \<and> quiet t B)"

definition completed ::
  "u32 \<Rightarrow> 'q BmxApiRequest \<Rightarrow> 'p BmxApiResponse \<Rightarrow> ('q, 'p) event list \<Rightarrow> bool" where
  "completed t r p es \<longleftrightarrow>
     (\<exists>A B. es = A @ ECompleteControl t p True # B \<and> taken t r A \<and> quiet t B)"

lemma quiet_snoc: "quiet t (es @ [e]) \<longleftrightarrow> quiet t es \<and> \<not> concerns t e"
  by (simp add: quiet_def)

lemma extend_history:
  assumes "\<not> concerns t e"
  shows "posted t r es \<Longrightarrow> posted t r (es @ [e])"
    and "taken t r es \<Longrightarrow> taken t r (es @ [e])"
    and "completed t r p es \<Longrightarrow> completed t r p (es @ [e])"
  unfolding posted_def taken_def completed_def using assms
  by (metis append_Cons append_assoc quiet_snoc)+

lemma start_history:
  "posted t r (es @ [EPostControl r (Some t)])"
  "posted t r es \<Longrightarrow> taken t r (es @ [ETakeControl (Some (stored_request r, t))])"
  "taken t r es \<Longrightarrow> completed t r p (es @ [ECompleteControl t p True])"
  unfolding posted_def taken_def completed_def quiet_def by fastforce+

definition history :: "('q, 'p) CommandMailbox \<Rightarrow> ('q, 'p) event list \<Rightarrow> bool" where
  "history m es \<longleftrightarrow>
     (control_state m = ControlEmpty \<or>
      (\<exists>r. control_request m = stored_request r \<and>
         (control_state m = ControlPosted \<longrightarrow> posted (control_token m) r es) \<and>
         (control_state m = ControlRunning \<longrightarrow> taken (control_token m) r es) \<and>
         (control_state m = ControlComplete \<longrightarrow>
            completed (control_token m) r (control_response m) es)))"

text \<open>A step which concerns the held token moves the slot; every other step leaves it.\<close>

lemma step_frame:
  assumes "mailbox_step m e m'" and "mailbox_inv m" and "control_state m \<noteq> ControlEmpty"
    and "\<not> concerns (control_token m) e"
  shows "control_state m' = ControlEmpty \<or>
    (control_state m' = control_state m \<and> control_token m' = control_token m \<and>
     control_request m' = control_request m \<and> control_response m' = control_response m)"
  using assms
  by (induction rule: mailbox_step.induct)
    (auto simp: mailbox_ops mailbox_inv_def split: if_splits)

lemma step_move:
  assumes "mailbox_step m e m'" and "mailbox_inv m" and "control_state m \<noteq> ControlEmpty"
    and "concerns (control_token m) e"
  shows "control_state m' = ControlEmpty \<or> control_state m' = ControlAbandoned \<and>
      control_request m' = control_request m \<or>
    control_token m' = control_token m \<and> control_request m' = control_request m \<and>
    (control_state m = ControlPosted \<and> control_state m' = ControlRunning \<and>
       e = ETakeControl (Some (control_request m, control_token m)) \<or>
     control_state m = ControlRunning \<and> control_state m' = ControlComplete \<and>
       e = ECompleteControl (control_token m) (control_response m') True)"
  using assms
  by (induction rule: mailbox_step.induct)
    (auto simp: mailbox_ops mailbox_inv_def split: if_splits)

lemma step_fill:
  assumes "mailbox_step m e m'" and "control_state m = ControlEmpty" "control_state m' \<noteq> ControlEmpty"
  shows "\<exists>r. control_state m' = ControlPosted \<and> control_request m' = stored_request r \<and>
    e = EPostControl r (Some (control_token m'))"
  using assms
  by (induction rule: mailbox_step.induct)
    (auto simp: mailbox_ops stored_request_def split: if_splits)

lemma history_step:
  assumes "mailbox_step m e m'" and "mailbox_inv m" and "history m es"
  shows "history m' (es @ [e])"
proof (cases "control_state m = ControlEmpty")
  case True
  then show ?thesis
    using step_fill [OF assms(1) True] start_history(1) by (fastforce simp: history_def)
next
  case False
  with assms(3) obtain r where r: "control_request m = stored_request r"
    "control_state m = ControlPosted \<longrightarrow> posted (control_token m) r es"
    "control_state m = ControlRunning \<longrightarrow> taken (control_token m) r es"
    "control_state m = ControlComplete \<longrightarrow> completed (control_token m) r (control_response m) es"
    by (auto simp: history_def)
  show ?thesis
  proof (cases "concerns (control_token m) e")
    case True
    show ?thesis
      using step_move [OF assms(1,2) False True] r start_history(2,3)
      unfolding history_def by fastforce
  next
    case quiet: False
    show ?thesis
      using step_frame [OF assms(1,2) False quiet] extend_history [OF quiet] r
      unfolding history_def by fastforce
  qed
qed

lemma run_history: "mailbox_run es m \<Longrightarrow> history m es"
proof (induction rule: mailbox_run.induct)
  case start
  then show ?case by (simp add: history_def init_mailbox_def)
next
  case (step es m e m')
  then show ?case using mailbox_run_inv history_step by blast
qed

text \<open>
  C16: a response which \<open>PollControl\<close> delivers for token \<open>t\<close> was produced by this protocol: a
  \<open>PostControl\<close> of a request returned \<open>t\<close>, the safe point took that request (its text copied
  into the mailbox) with \<open>t\<close>, completed \<open>t\<close> with exactly this response, and from each of these
  events to the next nothing else took, completed, delivered or cancelled \<open>t\<close>.
\<close>

theorem delivered_response_protocol:
  assumes "mailbox_run (es @ [EPollControl t PollComplete p]) m"
  shows "\<exists>r q. p = Some q \<and> completed t r q es"
proof -
  from assms obtain m0 where run: "mailbox_run es m0"
    and step: "mailbox_step m0 (EPollControl t PollComplete p) m"
    by (cases rule: mailbox_run_snocE) auto
  from step have "control_state m0 = ControlComplete" "control_token m0 = t"
    "p = Some (control_response m0)"
    by (auto simp: mailbox_step_simps PollControl_def split: if_splits)
  with run_history [OF run] show ?thesis by (auto simp: history_def)
qed

text \<open>
  C30: while the safe point holds a taken request (running, or abandoned by its client), no
  operation except the completion of its token changes the text buffer the request points to,
  the stored request, or frees the slot.
\<close>

theorem taken_request_stable:
  assumes "mailbox_run es m" and "control_state m \<in> {ControlRunning, ControlAbandoned}"
    and "mailbox_step m e m'" and "\<nexists>p ok. e = ECompleteControl (control_token m) p ok"
  shows "control_text m' = control_text m \<and> control_request m' = control_request m \<and>
    control_state m' \<in> {ControlRunning, ControlAbandoned}"
  using assms(3,2,4) mailbox_run_inv [OF assms(1)]
  by (induction rule: mailbox_step.induct)
    (auto simp: mailbox_ops mailbox_inv_def split: if_splits)

text \<open>
  C31: an occupied control slot can always be released: cancelling its token and then
  completing it leaves the slot empty, from every reachable state.
\<close>

theorem control_slot_released:
  assumes "mailbox_run es m" and "control_state m \<noteq> ControlEmpty"
  shows "\<not> Pending (snd (CompleteControl (control_token m) p
    (snd (CancelControl (control_token m) h m))))"
  using assms(2) mailbox_run_inv [OF assms(1)]
  by (cases "control_state m") (auto simp: mailbox_ops mailbox_inv_def Pending_def)

section \<open>A sample execution\<close>

text \<open>One request posted, taken, completed and delivered, for the witnesses.\<close>

definition demo_request :: "unit BmxApiRequest" where
  "demo_request =
     \<lparr>operation = OpState, request_text = TextNull, text_size = 0, request_fields = Some ()\<rparr>"

definition demo_posted :: "(unit, unit) CommandMailbox" where
  "demo_posted = snd (PostControl demo_request True init_mailbox)"

definition demo_running :: "(unit, unit) CommandMailbox" where
  "demo_running = snd (TakeControl True demo_posted)"

definition demo_complete :: "(unit, unit) CommandMailbox" where
  "demo_complete = snd (CompleteControl 1 (Response ()) demo_running)"

lemmas demo_defs = demo_request_def demo_posted_def demo_running_def demo_complete_def
  init_mailbox_def mailbox_ops control_request_valid_def next_token_def

abbreviation demo_events :: "(unit, unit) event list" where
  "demo_events \<equiv> [EPostControl demo_request (Some 1), ETakeControl (Some (demo_request, 1)),
     ECompleteControl 1 (Response ()) True]"

lemma demo_run_posted: "mailbox_run [EPostControl demo_request (Some 1)] demo_posted"
  using mailbox_run.step [OF mailbox_run.start,
      OF mailbox_step.post_control [of demo_request True]] by (simp add: demo_defs)

lemma demo_run_running:
  "mailbox_run [EPostControl demo_request (Some 1), ETakeControl (Some (demo_request, 1))] demo_running"
  using mailbox_run.step [OF demo_run_posted, OF mailbox_step.take_control [of True]]
  by (simp add: demo_defs)

lemma demo_run_complete: "mailbox_run demo_events demo_complete"
  using mailbox_run.step [OF demo_run_running,
      OF mailbox_step.complete_control [of 1 "Response ()"]] by (simp add: demo_defs)

lemma demo_run_delivered:
  "mailbox_run (demo_events @ [EPollControl 1 PollComplete (Some (Response ()))])
     (snd (PollControl 1 True demo_complete))"
  by (rule mailbox_run.step [OF demo_run_complete], rule mailbox_step.poll_control [of _ True])
    (simp add: demo_defs)

theorem mailbox_invariant_witness: "mailbox_run demo_events demo_complete \<and> mailbox_inv demo_complete"
  using demo_run_complete mailbox_invariant by blast

theorem delivered_response_protocol_witness:
  "\<exists>r. completed 1 r (Response ()) demo_events"
  using delivered_response_protocol [OF demo_run_delivered] by blast

theorem taken_request_stable_witness:
  "control_state demo_running = ControlRunning \<and>
   control_state (snd (CancelControl 1 False demo_running)) \<in> {ControlRunning, ControlAbandoned}"
proof -
  have s: "control_state demo_running \<in> {ControlRunning, ControlAbandoned}"
    by (simp add: demo_defs)
  have e: "mailbox_step demo_running (ECancelControl 1 True None)
      (snd (CancelControl 1 False demo_running))"
    by (rule mailbox_step.cancel_control [of _ False]) (simp add: demo_defs)
  have "control_state demo_running = ControlRunning" by (simp add: demo_defs)
  then show ?thesis using taken_request_stable [OF demo_run_running s e] by blast
qed

theorem control_slot_released_witness:
  "control_state demo_running \<noteq> ControlEmpty \<and>
   \<not> Pending (snd (CompleteControl (control_token demo_running) EmptyResponse
     (snd (CancelControl (control_token demo_running) True demo_running))))"
proof -
  have h: "control_state demo_running \<noteq> ControlEmpty" by (simp add: demo_defs)
  show ?thesis using h control_slot_released [OF demo_run_running h] by blast
qed

end
