(* ===== verification/Log_Ring.thy ===== *)
theory Log_Ring
  imports Bmx_Prelude
begin

text \<open>
  The developer log ring, \<open>src/src/remote/developer_log_ring.cpp\<close>: a byte ring addressed by a
  64-bit sequence number that counts every byte ever appended.  The abstract object is the
  whole log, a byte list that only grows; \<open>ring_log\<close> relates a ring to the log it stands for,
  and the operations are shown to refine appending to and reading a window of that list.
\<close>

section \<open>State and operations\<close>

record DeveloperLogRing =
  ring_bytes :: "byte list option"
  ring_capacity :: nat
  next_sequence :: u64

record DeveloperLogWindow =
  window_oldest :: u64
  window_next :: u64

record DeveloperLogRead =
  read_requested :: u64
  read_start :: u64
  read_next :: u64
  read_oldest :: u64
  read_size :: nat
  read_gap :: bool

text \<open>The constructor; \<open>allocated\<close> is what \<open>malloc (capacity)\<close> returned.\<close>

definition NewDeveloperLogRing :: "nat \<Rightarrow> byte list option \<Rightarrow> DeveloperLogRing" where
  "NewDeveloperLogRing capacity allocated =
     (if capacity = 0
      then \<lparr>ring_bytes = None, ring_capacity = 0, next_sequence = 0\<rparr>
      else \<lparr>ring_bytes = allocated,
            ring_capacity = (if allocated \<noteq> None then capacity else 0),
            next_sequence = 0\<rparr>)"

definition ring_valid :: "DeveloperLogRing \<Rightarrow> bool" where
  "ring_valid r \<longleftrightarrow> ring_bytes r \<noteq> None \<and> ring_capacity r \<noteq> 0"

definition Append :: "byte list option \<Rightarrow> DeveloperLogRing \<Rightarrow> DeveloperLogRing" where
  "Append data r =
     (if \<not> ring_valid r \<or> data = None \<or> length (the data) = 0 then r
      else
        let source = the data;
            n = length source;
            retained = (if n > ring_capacity r then ring_capacity r else n);
            skipped = n - retained;
            first_sequence = next_sequence r + of_nat skipped;
            position = unat (first_sequence mod of_nat (ring_capacity r));
            first = ring_capacity r - position;
            first = (if first > retained then retained else first);
            bytes = memcpy (the (ring_bytes r)) position (take first (drop skipped source));
            bytes = (if first \<noteq> retained
                     then memcpy bytes 0 (take (retained - first) (drop (skipped + first) source))
                     else bytes)
        in r\<lparr>ring_bytes := Some bytes, next_sequence := next_sequence r + of_nat n\<rparr>)"

definition oldest_sequence :: "DeveloperLogRing \<Rightarrow> u64" where
  "oldest_sequence r =
     (if next_sequence r > of_nat (ring_capacity r)
      then next_sequence r - of_nat (ring_capacity r) else 0)"

definition Window :: "DeveloperLogRing \<Rightarrow> DeveloperLogWindow" where
  "Window r = \<lparr>window_oldest = oldest_sequence r, window_next = next_sequence r\<rparr>"

text \<open>
  \<open>Read\<close> returns the description and the bytes it copied to the destination
  (\<open>have_destination\<close>: the pointer is not null).
\<close>

definition Read ::
  "u64 \<Rightarrow> bool \<Rightarrow> nat \<Rightarrow> DeveloperLogRing \<Rightarrow> DeveloperLogRead \<times> byte list" where
  "Read sequence have_destination capacity r =
     (let result = \<lparr>read_requested = sequence, read_start = sequence, read_next = sequence,
                    read_oldest = 0, read_size = 0, read_gap = False\<rparr> in
      if \<not> ring_valid r \<or> (\<not> have_destination \<and> capacity \<noteq> 0) then (result, [])
      else
        let newest = next_sequence r;
            oldest = oldest_sequence r;
            start = (if sequence < oldest then oldest
                     else if sequence > newest then newest else sequence);
            available = newest - start;
            available = (if available > of_nat capacity then of_nat capacity else available);
            n = unat available;
            position = unat (start mod of_nat (ring_capacity r));
            first = ring_capacity r - position;
            first = (if first > n then n else first);
            ring = the (ring_bytes r);
            copied = take first (drop position ring) @
                     (if first \<noteq> n then take (n - first) ring else [])
        in (\<lparr>read_requested = sequence, read_start = start, read_next = start + of_nat n,
             read_oldest = oldest, read_size = n, read_gap = sequence < oldest\<rparr>, copied))"

text \<open>The ring installed for the whole program, if any, and the log sink's entry point.\<close>

definition SetDeveloperLogRing ::
  "DeveloperLogRing option \<Rightarrow> DeveloperLogRing option \<Rightarrow> DeveloperLogRing option" where
  "SetDeveloperLogRing ring g_developer_log_ring = ring"

definition CaptureDeveloperLog ::
  "byte list option \<Rightarrow> DeveloperLogRing option \<Rightarrow> DeveloperLogRing option" where
  "CaptureDeveloperLog data g_developer_log_ring = map_option (Append data) g_developer_log_ring"

section \<open>The log a ring stands for\<close>

definition ring_log :: "DeveloperLogRing \<Rightarrow> byte list \<Rightarrow> bool" where
  "ring_log r log \<longleftrightarrow>
     0 < ring_capacity r \<and> ring_capacity r < 2 ^ 64 \<and> length log < 2 ^ 64 \<and>
     next_sequence r = of_nat (length log) \<and>
     (\<exists>bytes. ring_bytes r = Some bytes \<and> length bytes = ring_capacity r \<and>
        (\<forall>k. length log - ring_capacity r \<le> k \<longrightarrow> k < length log \<longrightarrow>
           bytes ! (k mod ring_capacity r) = log ! k))"

lemma ring_log_new:
  assumes "0 < capacity" and "capacity < 2 ^ 64" and "length memory = capacity"
  shows "ring_log (NewDeveloperLogRing capacity (Some memory)) []"
  using assms by (simp add: ring_log_def NewDeveloperLogRing_def)

text \<open>
  Writing \<open>src\<close> into a ring from the slot of sequence number \<open>q\<close>, wrapping once: slot
  \<open>(q + j) mod c\<close> then holds \<open>src ! j\<close>, and the other slots are unchanged.
\<close>

definition ring_write :: "byte list \<Rightarrow> nat \<Rightarrow> byte list \<Rightarrow> byte list" where
  "ring_write ring q src =
     (let c = length ring; p = q mod c; first = min (c - p) (length src)
      in memcpy (memcpy ring p (take first src)) 0 (drop first src))"

lemma ring_write_length:
  assumes "ring \<noteq> []" and "length src \<le> length ring"
  shows "length (ring_write ring q src) = length ring"
proof -
  define p where "p = q mod length ring"
  have "p < length ring" using assms by (simp add: p_def)
  then show ?thesis
    using assms by (auto simp: ring_write_def Let_def min_def p_def [symmetric])
qed

lemma ring_write_nth:
  assumes "ring \<noteq> []" and "length src \<le> length ring" and "i < length ring"
  shows "ring_write ring q src ! i =
    (let c = length ring; d = (i + c - q mod c) mod c in if d < length src then src ! d else ring ! i)"
proof -
  define c where "c = length ring"
  define p where "p = q mod c"
  have c: "0 < c" using assms(1) by (simp add: c_def)
  have p: "p < c" using c by (simp add: p_def)
  define first where "first = min (c - p) (length src)"
  have d: "(i + c - p) mod c = (if p \<le> i then i - p else i + c - p)"
  proof (cases "p \<le> i")
    case True
    then have "(i + c - p) mod c = (i - p + c) mod c" by simp
    also have "\<dots> = i - p" using assms(3) by (simp add: c_def)
    finally show ?thesis using True by simp
  next
    case False
    then show ?thesis using p by simp
  qed
  have len: "length (memcpy ring p (take first src)) = c"
    using p by (simp add: c_def first_def)
  have "ring_write ring q src ! i =
      (if i < length src - first then src ! (first + i)
       else if p \<le> i \<and> i < p + first then src ! (i - p) else ring ! i)"
    unfolding ring_write_def Let_def c_def [symmetric] p_def [symmetric] first_def [symmetric]
    using assms p len by (subst memcpy_nth) (auto simp: c_def first_def memcpy_nth min_def)
  also have "\<dots> = (let d = (i + c - p) mod c in if d < length src then src ! d else ring ! i)"
  proof (cases "p \<le> i")
    case True
    then show ?thesis using d p assms by (auto simp: Let_def first_def c_def min_def)
  next
    case False
    then show ?thesis
      using d p assms by (auto simp: Let_def first_def c_def min_def add.commute)
  qed
  finally show ?thesis by (simp add: c_def p_def Let_def)
qed

text \<open>The two \<open>memcpy\<close> calls of \<open>Append\<close> are one such write of the retained bytes.\<close>

lemma second_copy:
  "(if first \<noteq> length src then memcpy ring 0 (take (length src - first) (drop first src)) else ring)
   = memcpy ring 0 (drop first src)"
  by simp

lemma Append_ring_write:
  assumes "ring_log r log" and "data \<noteq> []" and "length log + length data < 2 ^ 64"
  shows "Append (Some data) r =
    r\<lparr>ring_bytes := Some (ring_write (the (ring_bytes r))
        (length log + (length data - ring_capacity r)) (drop (length data - ring_capacity r) data)),
      next_sequence := of_nat (length log + length data)\<rparr>"
proof -
  let ?c = "ring_capacity r" and ?k = "length data - ring_capacity r"
  from assms(1) obtain bytes where b: "ring_bytes r = Some bytes" "length bytes = ?c"
    and c: "0 < ?c" "?c < 2 ^ 64" and n: "next_sequence r = of_nat (length log)"
    by (auto simp: ring_log_def)
  have v: "ring_valid r" using b c by (simp add: ring_valid_def)
  define src where "src = drop ?k data"
  have kept: "(if ?c < length data then ?c else length data) = length src"
    and skip: "length data - length src = ?k"
    by (auto simp: src_def)
  have pos: "unat ((of_nat (length log) + of_nat ?k) mod of_nat ?c :: u64) = (length log + ?k) mod ?c"
  proof -
    have "unat (of_nat (length log + ?k) :: u64) = length log + ?k"
      using assms(3) by (intro unat_of_nat_small) simp
    moreover have "unat (of_nat ?c :: u64) = ?c"
      using c by (intro unat_of_nat_small) simp
    ultimately show ?thesis by (simp add: unat_mod)
  qed
  have first: "(if length src < ?c - q then length src else ?c - q) = min (?c - q) (length src)" for q
    by (simp add: min_def)
  have later: "drop (?k + q) data = drop q src" for q
    by (simp add: src_def add.commute)
  have "Append (Some data) r =
      r\<lparr>ring_bytes := Some (ring_write bytes (length log + ?k) src),
        next_sequence := of_nat (length log) + of_nat (length data)\<rparr>"
    unfolding Append_def Let_def option.sel kept skip n b pos first later src_def [symmetric]
      second_copy ring_write_def
    using v assms(2) b by simp
  then show ?thesis by (simp add: b src_def)
qed

text \<open>
  The distance from the slot written first to the slot of sequence number \<open>k\<close>.
\<close>

lemma slot_distance:
  fixes c :: nat
  assumes "0 < c" and "q \<le> k" and "k < q + c"
  shows "(k mod c + c - q mod c) mod c = k - q"
proof -
  have "(int (k mod c) + int c - int (q mod c)) mod int c = (int k - int q) mod int c"
    by (simp add: zmod_int mod_diff_left_eq mod_diff_right_eq mod_add_self2 add_diff_eq [symmetric]
        mod_add_left_eq) (metis add.commute add_diff_eq mod_add_self2 mod_diff_right_eq)
  moreover have "int (k mod c + c - q mod c) = int (k mod c) + int c - int (q mod c)"
    using assms(1) by (simp add: of_nat_diff less_imp_le trans_le_add2)
  ultimately have "int ((k mod c + c - q mod c) mod c) = (int k - int q) mod int c"
    by (simp add: zmod_int)
  also have "\<dots> = int (k - q)" using assms by (simp add: of_nat_diff)
  finally show ?thesis by (simp only: of_nat_eq_iff)
qed

lemma ring_log_append:
  assumes "ring_log r log" and "length log + length data < 2 ^ 64"
  shows "ring_log (Append (Some data) r) (log @ data)"
proof (cases "data = []")
  case True
  then show ?thesis using assms(1) by (simp add: Append_def)
next
  case False
  let ?c = "ring_capacity r" and ?k = "length data - ring_capacity r"
  let ?q = "length log + ?k" and ?src = "drop ?k data"
  from assms(1) obtain bytes where b: "ring_bytes r = Some bytes" "length bytes = ?c"
    and c: "0 < ?c" "?c < 2 ^ 64"
    and old: "\<And>k. length log - ?c \<le> k \<Longrightarrow> k < length log \<Longrightarrow> bytes ! (k mod ?c) = log ! k"
    by (auto simp: ring_log_def)
  have ne: "bytes \<noteq> []" using b c by auto
  have src: "length ?src \<le> length bytes" using b by simp
  have slot: "ring_write bytes ?q ?src ! (k mod ?c) = (log @ data) ! k"
    if k: "length (log @ data) - ?c \<le> k" "k < length (log @ data)" for k
  proof -
    have i: "k mod ?c < length bytes" using c b by simp
    have w: "ring_write bytes ?q ?src ! (k mod ?c) =
        (let d = (k mod ?c + ?c - ?q mod ?c) mod ?c in if d < length ?src then ?src ! d
         else bytes ! (k mod ?c))"
      using ring_write_nth [OF ne src i, of ?q] b by (simp add: Let_def)
    show ?thesis
    proof (cases "?q \<le> k")
      case True
      then have "(k mod ?c + ?c - ?q mod ?c) mod ?c = k - ?q"
        using slot_distance [OF c(1) True] k by simp
      moreover have "k - ?q < length ?src" using True k by auto
      moreover have "?src ! (k - ?q) = (log @ data) ! k" using True k by (simp add: nth_append)
      ultimately show ?thesis using w by (simp add: Let_def)
    next
      case False
      then have small: "length data < ?c" "k < length log" using k by auto
      then have kq: "k < length log" "length log - ?c \<le> k" "?q = length log" using k by auto
      have "(k mod ?c + ?c - ?q mod ?c) mod ?c = k + ?c - length log"
      proof -
        have "length log \<le> k + ?c" "k + ?c < length log + ?c" using kq by auto
        from slot_distance [OF c(1) this] show ?thesis using kq by simp
      qed
      moreover have "\<not> k + ?c - length log < length data" using k small by simp
      ultimately show ?thesis using w old kq small by (simp add: Let_def nth_append)
    qed
  qed
  show ?thesis
    unfolding Append_ring_write [OF assms(1) False assms(2)] ring_log_def
    using c assms(2) b ne src slot by (simp add: ring_write_length)
qed

lemma ring_log_appends:
  assumes "ring_log r log" and "length log + length (concat ds) < 2 ^ 64"
  shows "ring_log (fold (\<lambda>d. Append (Some d)) ds r) (log @ concat ds)"
  using assms
proof (induction ds arbitrary: r log)
  case Nil
  then show ?case by simp
next
  case (Cons d ds)
  then have "ring_log (Append (Some d) r) (log @ d)" by (intro ring_log_append) auto
  from Cons.IH [OF this] Cons.prems show ?case by simp
qed

text \<open>Reading \<open>n\<close> bytes from the slot of sequence number \<open>q\<close>, wrapping once.\<close>

lemma ring_read_eq:
  assumes "ring_log r log" and "length log - ring_capacity r \<le> q" and "q + n \<le> length log"
    and "ring_bytes r = Some bytes"
  shows "take (min (ring_capacity r - q mod ring_capacity r) n) (drop (q mod ring_capacity r) bytes) @
      take (n - min (ring_capacity r - q mod ring_capacity r) n) bytes = take n (drop q log)"
proof -
  let ?c = "ring_capacity r"
  define p where "p = q mod ?c"
  define f where "f = min (?c - p) n"
  from assms have c: "0 < ?c" "length bytes = ?c"
    and slot: "\<And>k. length log - ?c \<le> k \<Longrightarrow> k < length log \<Longrightarrow> bytes ! (k mod ?c) = log ! k"
    by (auto simp: ring_log_def)
  have p: "p < ?c" using c by (simp add: p_def)
  have n: "n \<le> ?c" using assms(2,3) by linarith
  have at: "take f (drop p bytes) ! i = log ! (q + i)" if "i < f" for i
  proof -
    have "(q + i) mod ?c = p + i"
      using that p by (subst mod_add_left_eq [symmetric]) (simp add: p_def [symmetric] f_def less_diff_conv add.commute)
    with slot [of "q + i"] that assms(2,3) c p show ?thesis by (simp add: f_def)
  qed
  have wrap: "bytes ! i = log ! (q + f + i)" if "i < n - f" for i
  proof -
    have f: "f = ?c - p" using that by (simp add: f_def min_def split: if_splits)
    have "q = ?c * (q div ?c) + p" by (simp add: p_def)
    then have "q + f + i = i + ?c * (q div ?c + 1)" using f p by simp
    then have "(q + f + i) mod ?c = i mod ?c" by (metis mod_mult_self2)
    also have "i mod ?c = i" using that n f p by simp
    finally show ?thesis using slot [of "q + f + i"] that assms(2,3) by simp
  qed
  have "take f (drop p bytes) @ take (n - f) bytes = take n (drop q log)"
  proof (rule nth_equalityI)
    show len: "length (take f (drop p bytes) @ take (n - f) bytes) = length (take n (drop q log))"
      using c n p assms(3) by (auto simp: f_def min_def)
    fix i assume "i < length (take f (drop p bytes) @ take (n - f) bytes)"
    then have i: "i < n" using len by simp
    have lf: "length (take f (drop p bytes)) = f" using c p by (simp add: f_def min_def)
    show "(take f (drop p bytes) @ take (n - f) bytes) ! i = take n (drop q log) ! i"
    proof (cases "i < f")
      case True
      then show ?thesis using at [OF True] lf i assms(3) by (simp add: nth_append)
    next
      case False
      then show ?thesis using wrap [of "i - f"] lf i assms(3) by (simp add: nth_append)
    qed
  qed
  then show ?thesis by (simp add: p_def f_def)
qed

lemma ring_log_words:
  assumes "ring_log r log"
  shows "unat (next_sequence r) = length log"
    and "unat (oldest_sequence r) = length log - ring_capacity r"
    and "ring_valid r"
proof -
  from assms have n: "next_sequence r = of_nat (length log)" "length log < 2 ^ 64"
    and c: "0 < ring_capacity r" "ring_capacity r < 2 ^ 64" and "ring_bytes r \<noteq> None"
    by (auto simp: ring_log_def)
  then show "ring_valid r" by (simp add: ring_valid_def)
  show next_n: "unat (next_sequence r) = length log"
    using n by (simp add: unat_of_nat)
  have cn: "unat (of_nat (ring_capacity r) :: u64) = ring_capacity r"
    using c by (simp add: unat_of_nat)
  show "unat (oldest_sequence r) = length log - ring_capacity r"
    using next_n cn by (auto simp: oldest_sequence_def word_less_nat_alt unat_sub word_le_nat_alt)
qed

text \<open>The window a read sees, as positions of the log.\<close>

definition read_from :: "nat \<Rightarrow> nat \<Rightarrow> nat \<Rightarrow> nat" where
  "read_from total_bytes capacity q = min (max q (total_bytes - capacity)) total_bytes"

lemma ring_log_read:
  assumes "ring_log r log" and "n < 2 ^ 64"
  shows "case Read q True n r of (res, copied) \<Rightarrow>
    (let start = read_from (length log) (ring_capacity r) (unat q) in
     copied = take n (drop start log) \<and>
     unat (read_start res) = start \<and> read_size res = length copied \<and>
     unat (read_next res) = start + length copied \<and>
     unat (read_oldest res) = length log - ring_capacity r \<and>
     read_gap res = (unat q < length log - ring_capacity r))"
proof -
  note w = ring_log_words [OF assms(1)]
  from assms(1) obtain bytes where b: "ring_bytes r = Some bytes" and c: "0 < ring_capacity r" "ring_capacity r < 2 ^ 64"
    and len: "length log < 2 ^ 64"
    by (auto simp: ring_log_def)
  define start where "start = read_from (length log) (ring_capacity r) (unat q)"
  define st where "st = (if q < oldest_sequence r then oldest_sequence r
      else if next_sequence r < q then next_sequence r else q)"
  have st: "unat st = start"
    unfolding st_def start_def read_from_def using w
    by (auto simp: word_less_nat_alt)
  define m where "m = min n (length log - start)"
  have start_le: "start \<le> length log" "length log - ring_capacity r \<le> start"
    by (auto simp: start_def read_from_def)
  have avail: "unat (if of_nat n < next_sequence r - st then of_nat n else next_sequence r - st) = m"
    using assms(2) st w start_le
    by (auto simp: m_def word_less_nat_alt unat_sub word_le_nat_alt unat_of_nat min_def)
  have pos: "unat (st mod of_nat (ring_capacity r)) = start mod ring_capacity r"
    using c st by (simp add: unat_mod unat_of_nat)
  have tail: "(if f \<noteq> m then take (m - f) bytes else []) = take (m - f) bytes" for f
    by simp
  have copy: "take (min (ring_capacity r - start mod ring_capacity r) m) (drop (start mod ring_capacity r) bytes) @
      take (m - min (ring_capacity r - start mod ring_capacity r) m) bytes = take n (drop start log)"
    using ring_read_eq [OF assms(1) start_le(2) _ b, of m] start_le(1)
    by (simp add: m_def) (simp add: min_def)
  have lm: "length (take n (drop start log)) = m" by (simp add: m_def)
  have "unat (st + of_nat m) = start + m"
    using st start_le(1) len by (simp add: unat_word_ariths unat_of_nat m_def min_def)
  moreover have "(if m < ring_capacity r - start mod ring_capacity r then m
      else ring_capacity r - start mod ring_capacity r) =
      min (ring_capacity r - start mod ring_capacity r) m"
    by (simp add: min_def)
  moreover have "q < oldest_sequence r \<longleftrightarrow> unat q < length log - ring_capacity r"
    by (simp add: word_less_nat_alt w(2))
  ultimately show ?thesis
    unfolding Read_def Let_def st_def [symmetric] start_def [symmetric] avail
    by (simp only: w(2,3) pos b tail copy lm st prod.case option.sel simp_thms if_False
        DeveloperLogRead.simps)
qed

lemma fold_Append_capacity [simp]:
  "ring_capacity (fold (\<lambda>d. Append (Some d)) ds r) = ring_capacity r"
proof (induction ds arbitrary: r)
  case Nil
  then show ?case by simp
next
  case (Cons d ds)
  have "ring_capacity (Append (Some d) r) = ring_capacity r"
    by (simp add: Append_def Let_def)
  then show ?case by (simp add: Cons.IH)
qed

section \<open>Properties\<close>

text \<open>
  C22: after any sequence of appends to a fresh ring (fewer than \<open>2 ^ 64\<close> bytes in all), a
  read at sequence number \<open>q\<close> copies exactly the bytes of the whole log from position
  \<open>start\<close>, the requested one moved into the retained window, at most \<open>n\<close> of them and none
  that was overwritten; it reports that interval, and a gap exactly when \<open>q\<close> was lost.
\<close>

theorem log_read_after_appends:
  assumes "0 < capacity" and "capacity < 2 ^ 64" and "length memory = capacity"
    and "length (concat ds) < 2 ^ 64" and "n < 2 ^ 64"
  shows "case Read q True n (fold (\<lambda>d. Append (Some d)) ds (NewDeveloperLogRing capacity (Some memory)))
    of (res, copied) \<Rightarrow>
    (let log = concat ds; start = min (max (unat q) (length log - capacity)) (length log) in
     copied = take n (drop start log) \<and>
     unat (read_start res) = start \<and> read_size res = length copied \<and>
     unat (read_next res) = start + length copied \<and>
     unat (read_oldest res) = length log - capacity \<and>
     read_gap res = (unat q < length log - capacity))"
proof -
  have cap: "ring_capacity (NewDeveloperLogRing capacity (Some memory)) = capacity"
    using assms(1) by (simp add: NewDeveloperLogRing_def)
  have "ring_log (fold (\<lambda>d. Append (Some d)) ds (NewDeveloperLogRing capacity (Some memory)))
      (concat ds)"
    using ring_log_appends [OF ring_log_new [OF assms(1,2,3)], of ds] assms(4) by simp
  from ring_log_read [OF this assms(5), of q] show ?thesis
    unfolding fold_Append_capacity cap read_from_def Let_def .
qed

theorem log_read_after_appends_witness:
  "case Read 1 True 8 (fold (\<lambda>d. Append (Some d)) [[1, 2, 3], [4, 5, 6 :: byte]]
     (NewDeveloperLogRing 4 (Some [0, 0, 0, 0]))) of (res, copied) \<Rightarrow>
     copied = [3, 4, 5, 6] \<and> read_gap res"
proof -
  have num: "(0 :: nat) < 4" "(4 :: nat) < 2 ^ 64" "length [0, 0, 0, 0 :: byte] = 4"
    "length (concat [[1, 2, 3], [4, 5, 6 :: byte]]) < 2 ^ 64" "(8 :: nat) < 2 ^ 64"
    by simp_all
  show ?thesis
    using log_read_after_appends [OF num, of 1]
    by (simp del: fold_simps split: prod.splits)
qed

text \<open>
  the ring answers the same to every request for the window and for bytes, however the log
  was cut into appends.
\<close>

lemma log_independent_of_pieces:
  assumes "ring_log r log" and "length log + length (concat ds) < 2 ^ 64" and "concat ds = concat es"
    and "n < 2 ^ 64"
  shows "Window (fold (\<lambda>d. Append (Some d)) ds r) = Window (fold (\<lambda>d. Append (Some d)) es r) \<and>
    snd (Read q True n (fold (\<lambda>d. Append (Some d)) ds r)) =
    snd (Read q True n (fold (\<lambda>d. Append (Some d)) es r))"
proof -
  let ?r = "\<lambda>ds. fold (\<lambda>d. Append (Some d)) ds r"
  have d: "ring_log (?r ds) (log @ concat ds)" and e: "ring_log (?r es) (log @ concat ds)"
    using ring_log_appends [OF assms(1), of ds] ring_log_appends [OF assms(1), of es] assms(2,3)
    by auto
  have "next_sequence (?r ds) = next_sequence (?r es)"
    using d e by (simp add: ring_log_def)
  moreover from ring_log_read [OF d assms(4), of q] ring_log_read [OF e assms(4), of q]
  have "snd (Read q True n (?r ds)) = snd (Read q True n (?r es))"
    by (simp add: Let_def case_prod_beta)
  ultimately show ?thesis by (simp add: Window_def oldest_sequence_def)
qed

end
