(* ===== verification/Update_Policy.thy ===== *)
theory Update_Policy
  imports Bmx_Prelude
begin

text \<open>
  The decisions that gate an update, \<open>src/src/update/update_types.h\<close> and
  \<open>src/src/update/update_policy.cpp\<close>: which event may start discovery at all, and whether an
  offered release may replace the installed one.
\<close>

section \<open>Data\<close>

datatype BoardFamily = UnknownBoard | Pi4Pi400 | Pi5Pi500

datatype ReleaseChannel = UnknownChannel | Stable | Prerelease

definition IsKnownBoardFamily :: "BoardFamily \<Rightarrow> bool" where
  "IsKnownBoardFamily board \<longleftrightarrow> board = Pi4Pi400 \<or> board = Pi5Pi500"

datatype UpdateInvocation =
    UnknownInvocation | ConfirmedUpdateMenuAction | Boot | EmulatorStart | NetworkEnabled
  | NetworkBecameReady | MenuOpened | MenuIdle | Timer | LocalRecovery

record UpdateStartContext =
  invocation :: UpdateInvocation
  network_feature_enabled :: bool
  network_ready :: bool

datatype UpdateStartDecision =
    StartAllowed | NotExplicitUserAction | NetworkFeatureDisabled | NetworkNotReady

datatype ReleaseSource = UnknownSource | GitHubLatestKdreBmx | OtherSource

record InstalledRelease =
  has_update_metadata :: bool
  installed_sequence :: u64
  installed_board :: BoardFamily
  updater_abi :: u32

record ReleaseCandidate =
  candidate_source :: ReleaseSource
  candidate_channel :: ReleaseChannel
  api_reports_draft :: bool
  api_reports_prerelease :: bool
  candidate_sequence :: u64
  candidate_board :: BoardFamily
  minimum_updater_abi :: u32
  maximum_updater_abi :: u32

datatype ReleaseDecision =
    UpdateAvailable | LegacyInstallation | InvalidInstalledMetadata | UnsupportedSource | NotStable
  | InvalidCandidateMetadata | BoardMismatch | UpdaterAbiMismatch | AlreadyCurrent | DowngradeDenied

section \<open>Operations\<close>

definition EvaluateUpdateStart :: "UpdateStartContext \<Rightarrow> UpdateStartDecision" where
  "EvaluateUpdateStart c =
     (if invocation c \<noteq> ConfirmedUpdateMenuAction then NotExplicitUserAction
      else if \<not> network_feature_enabled c then NetworkFeatureDisabled
      else if \<not> network_ready c then NetworkNotReady
      else StartAllowed)"

definition EvaluateReleaseCandidate :: "InstalledRelease \<Rightarrow> ReleaseCandidate \<Rightarrow> ReleaseDecision" where
  "EvaluateReleaseCandidate installed candidate =
     (if \<not> has_update_metadata installed then LegacyInstallation
      else if \<not> IsKnownBoardFamily (installed_board installed) \<or> installed_sequence installed = 0 \<or>
              updater_abi installed = 0
      then InvalidInstalledMetadata
      else if candidate_source candidate \<noteq> GitHubLatestKdreBmx then UnsupportedSource
      else if candidate_channel candidate \<noteq> Stable \<or> api_reports_draft candidate \<or>
              api_reports_prerelease candidate
      then NotStable
      else if \<not> IsKnownBoardFamily (candidate_board candidate) \<or> candidate_sequence candidate = 0 \<or>
              minimum_updater_abi candidate = 0 \<or> maximum_updater_abi candidate = 0 \<or>
              minimum_updater_abi candidate > maximum_updater_abi candidate
      then InvalidCandidateMetadata
      else if candidate_board candidate \<noteq> installed_board installed then BoardMismatch
      else if updater_abi installed < minimum_updater_abi candidate \<or>
              updater_abi installed > maximum_updater_abi candidate
      then UpdaterAbiMismatch
      else if candidate_sequence candidate = installed_sequence installed then AlreadyCurrent
      else if candidate_sequence candidate < installed_sequence installed then DowngradeDenied
      else UpdateAvailable)"

section \<open>When an update is available\<close>

text \<open>The decision in one formula; the offer of a release rests on it.\<close>

lemma update_available_iff:
  "EvaluateReleaseCandidate installed candidate = UpdateAvailable \<longleftrightarrow>
     has_update_metadata installed \<and> IsKnownBoardFamily (installed_board installed) \<and>
     installed_sequence installed \<noteq> 0 \<and> updater_abi installed \<noteq> 0 \<and>
     candidate_source candidate = GitHubLatestKdreBmx \<and> candidate_channel candidate = Stable \<and>
     \<not> api_reports_draft candidate \<and> \<not> api_reports_prerelease candidate \<and>
     minimum_updater_abi candidate \<noteq> 0 \<and>
     minimum_updater_abi candidate \<le> updater_abi installed \<and>
     updater_abi installed \<le> maximum_updater_abi candidate \<and>
     candidate_board candidate = installed_board installed \<and>
     installed_sequence installed < candidate_sequence candidate"
proof -
  have "b \<noteq> 0" if "a \<le> b" "a \<noteq> 0" for a b :: u32 using that by (metis word_le_0_iff)
  moreover have "b \<noteq> 0" if "a < b" for a b :: u64 using that by auto
  ultimately show ?thesis
    unfolding EvaluateReleaseCandidate_def by (auto simp: not_le not_less dest: le_less_trans)
qed

end
