(* ===== verification/Sha256_Hash.thy ===== *)
theory Sha256_Hash
  imports Bmx_Prelude
begin

text \<open>
  The hash the updater authenticates its downloads with, \<open>src/src/update/sha256.cpp\<close>: the
  streaming class with its 64-byte buffer.  The specification is FIPS 180-4 written
  independently of it (\<open>sha256\<close>: the recursive message schedule, the round recursion with
  rotations from the word library, padding to whole blocks), and the class is shown to
  implement it for every way of cutting the message into \<open>Update\<close> calls.  The tables of
  constants are checked against the roots of the primes that define them.
\<close>

section \<open>The streaming class\<close>

definition RotateRight :: "u32 \<Rightarrow> nat \<Rightarrow> u32" where
  "RotateRight value count = drop_bit count value OR push_bit (32 - count) value"

definition LoadBigEndian32 :: "byte list \<Rightarrow> u32" where
  "LoadBigEndian32 input =
     push_bit 24 (ucast (input ! 0)) OR push_bit 16 (ucast (input ! 1)) OR
     push_bit 8 (ucast (input ! 2)) OR ucast (input ! 3)"

definition StoreBigEndian32 :: "u32 \<Rightarrow> byte list" where
  "StoreBigEndian32 value =
     [ucast (drop_bit 24 value), ucast (drop_bit 16 value), ucast (drop_bit 8 value), ucast value]"

definition kRoundConstants :: "u32 list" where
  "kRoundConstants = concat
    [[0x428a2f98, 0x71374491, 0xb5c0fbcf, 0xe9b5dba5],
     [0x3956c25b, 0x59f111f1, 0x923f82a4, 0xab1c5ed5],
     [0xd807aa98, 0x12835b01, 0x243185be, 0x550c7dc3],
     [0x72be5d74, 0x80deb1fe, 0x9bdc06a7, 0xc19bf174],
     [0xe49b69c1, 0xefbe4786, 0x0fc19dc6, 0x240ca1cc],
     [0x2de92c6f, 0x4a7484aa, 0x5cb0a9dc, 0x76f988da],
     [0x983e5152, 0xa831c66d, 0xb00327c8, 0xbf597fc7],
     [0xc6e00bf3, 0xd5a79147, 0x06ca6351, 0x14292967],
     [0x27b70a85, 0x2e1b2138, 0x4d2c6dfc, 0x53380d13],
     [0x650a7354, 0x766a0abb, 0x81c2c92e, 0x92722c85],
     [0xa2bfe8a1, 0xa81a664b, 0xc24b8b70, 0xc76c51a3],
     [0xd192e819, 0xd6990624, 0xf40e3585, 0x106aa070],
     [0x19a4c116, 0x1e376c08, 0x2748774c, 0x34b0bcb5],
     [0x391c0cb3, 0x4ed8aa4a, 0x5b9cca4f, 0x682e6ff3],
     [0x748f82ee, 0x78a5636f, 0x84c87814, 0x8cc70208],
     [0x90befffa, 0xa4506ceb, 0xbef9a3f7, 0xc67178f2]]"

record Sha256 =
  sha_state :: "u32 list"
  total_bytes :: u64
  sha_buffer :: "byte list"
  buffer_size :: nat
  finalized :: bool

definition sha_initial_state :: "u32 list" where
  "sha_initial_state = concat
    [[0x6a09e667, 0xbb67ae85, 0x3c6ef372, 0xa54ff53a],
     [0x510e527f, 0x9b05688c, 0x1f83d9ab, 0x5be0cd19]]"

definition Sha256_Reset :: Sha256 where
  "Sha256_Reset = \<lparr>sha_state = sha_initial_state, total_bytes = 0, sha_buffer = replicate 64 0,
     buffer_size = 0, finalized = False\<rparr>"

text \<open>The two loops of \<open>Transform\<close>: the schedule array and the sixty-four rounds.\<close>

definition schedule_step :: "nat \<Rightarrow> u32 list \<Rightarrow> u32 list" where
  "schedule_step i words =
     (let s0 = RotateRight (words ! (i - 15)) 7 XOR RotateRight (words ! (i - 15)) 18 XOR
               drop_bit 3 (words ! (i - 15));
          s1 = RotateRight (words ! (i - 2)) 17 XOR RotateRight (words ! (i - 2)) 19 XOR
               drop_bit 10 (words ! (i - 2))
      in words @ [words ! (i - 16) + s0 + words ! (i - 7) + s1])"

definition schedule_words :: "byte list \<Rightarrow> u32 list" where
  "schedule_words block =
     fold schedule_step [16..<64] (map (\<lambda>i. LoadBigEndian32 (drop (i * 4) block)) [0..<16])"

type_synonym working = "u32 \<times> u32 \<times> u32 \<times> u32 \<times> u32 \<times> u32 \<times> u32 \<times> u32"

fun round_step :: "u32 list \<Rightarrow> nat \<Rightarrow> working \<Rightarrow> working" where
  "round_step words i (a, b, c, d, e, f, g, h) =
     (let sum1 = RotateRight e 6 XOR RotateRight e 11 XOR RotateRight e 25;
          choice = (e AND f) XOR (NOT e AND g);
          temporary1 = h + sum1 + choice + kRoundConstants ! i + words ! i;
          sum0 = RotateRight a 2 XOR RotateRight a 13 XOR RotateRight a 22;
          majority = (a AND b) XOR (a AND c) XOR (b AND c);
          temporary2 = sum0 + majority
      in (temporary1 + temporary2, a, b, c, d + temporary1, e, f, g))"

definition transform_state :: "u32 list \<Rightarrow> byte list \<Rightarrow> u32 list" where
  "transform_state st block =
     (case fold (round_step (schedule_words block)) [0..<64]
             (st ! 0, st ! 1, st ! 2, st ! 3, st ! 4, st ! 5, st ! 6, st ! 7) of
        (a, b, c, d, e, f, g, h) \<Rightarrow>
          [st ! 0 + a, st ! 1 + b, st ! 2 + c, st ! 3 + d,
           st ! 4 + e, st ! 5 + f, st ! 6 + g, st ! 7 + h])"

definition Sha256_Transform :: "byte list \<Rightarrow> Sha256 \<Rightarrow> Sha256" where
  "Sha256_Transform block s = s\<lparr>sha_state := transform_state (sha_state s) block\<rparr>"

text \<open>
  The copying loop of \<open>Update\<close>.  \<open>copy_size\<close> is positive because \<open>buffer_size\<close> is below 64
  whenever the loop is at its head (the invariant \<open>sha_inv\<close>); in a state that breaks it the
  source would not leave the loop, and the model stops.
\<close>

function update_loop :: "byte list \<Rightarrow> Sha256 \<Rightarrow> Sha256" where
  "update_loop input s =
     (let copy_size = 64 - buffer_size s;
          copy_size = (if copy_size > length input then length input else copy_size) in
      if copy_size = 0 then s
      else
        let s = s\<lparr>sha_buffer := memcpy (sha_buffer s) (buffer_size s) (take copy_size input),
                  buffer_size := buffer_size s + copy_size\<rparr>;
            s = (if buffer_size s = 64 then (Sha256_Transform (sha_buffer s) s)\<lparr>buffer_size := 0\<rparr> else s)
        in update_loop (drop copy_size input) s)"
  by pat_completeness auto
termination
  by (relation "measure (\<lambda>(input, s). length input)") (auto simp: Let_def split: if_splits)

declare update_loop.simps [simp del]

definition Sha256_Update :: "byte list option \<Rightarrow> nat \<Rightarrow> Sha256 \<Rightarrow> bool \<times> Sha256" where
  "Sha256_Update data n s =
     (if finalized s \<or> (data = None \<and> n \<noteq> 0) \<or> of_nat n > - 1 - total_bytes s then (False, s)
      else
        let input = (case data of None \<Rightarrow> [] | Some bytes \<Rightarrow> take n bytes);
            s = s\<lparr>total_bytes := total_bytes s + of_nat n\<rparr>
        in (True, update_loop input s))"

definition memset :: "byte list \<Rightarrow> nat \<Rightarrow> nat \<Rightarrow> byte list" where
  "memset dst at n = memcpy dst at (replicate n 0)"

text \<open>\<open>Final\<close> returns the digest it stored, \<open>None\<close> where it returns false.\<close>

definition Sha256_Final :: "bool \<Rightarrow> Sha256 \<Rightarrow> byte list option \<times> Sha256" where
  "Sha256_Final have_digest s =
     (if \<not> have_digest \<or> finalized s \<or> total_bytes s > (- 1) div 8 then (None, s)
      else
        let total_bits = total_bytes s * 8;
            s = s\<lparr>sha_buffer := (sha_buffer s)[buffer_size s := 0x80], buffer_size := buffer_size s + 1\<rparr>;
            s = (if buffer_size s > 56
                 then let s = s\<lparr>sha_buffer := memset (sha_buffer s) (buffer_size s) (64 - buffer_size s)\<rparr>
                      in (Sha256_Transform (sha_buffer s) s)\<lparr>buffer_size := 0\<rparr>
                 else s);
            s = s\<lparr>sha_buffer := memset (sha_buffer s) (buffer_size s) (56 - buffer_size s)\<rparr>;
            s = s\<lparr>sha_buffer := fold (\<lambda>i b. b[63 - i := ucast (drop_bit (i * 8) total_bits)])
                               [0..<8] (sha_buffer s)\<rparr>;
            s = Sha256_Transform (sha_buffer s) s;
            digest = concat (map (\<lambda>i. StoreBigEndian32 (sha_state s ! i)) [0..<8])
        in (Some digest, s\<lparr>finalized := True, sha_buffer := memset (sha_buffer s) 0 64\<rparr>))"

definition Sha256Digest :: "byte list option \<Rightarrow> nat \<Rightarrow> bool \<Rightarrow> byte list option" where
  "Sha256Digest data n have_digest =
     (if \<not> have_digest \<or> (data = None \<and> n \<noteq> 0) then None
      else case Sha256_Update data n Sha256_Reset of
             (False, _) \<Rightarrow> None
           | (True, s) \<Rightarrow> fst (Sha256_Final have_digest s))"

definition ConstantTimeDigestEqual :: "byte list option \<Rightarrow> byte list option \<Rightarrow> bool" where
  "ConstantTimeDigestEqual left right =
     (case (left, right) of
        (Some l, Some r) \<Rightarrow>
          fold (\<lambda>i difference. difference OR (l ! i XOR r ! i)) [0..<32] 0 = 0
      | _ \<Rightarrow> False)"

section \<open>FIPS 180-4\<close>

text \<open>The functions of section 4.1.2 of the standard, with the rotation of the word library.\<close>

definition Ch :: "u32 \<Rightarrow> u32 \<Rightarrow> u32 \<Rightarrow> u32" where
  "Ch x y z = (x AND y) XOR (NOT x AND z)"

definition Maj :: "u32 \<Rightarrow> u32 \<Rightarrow> u32 \<Rightarrow> u32" where
  "Maj x y z = (x AND y) XOR (x AND z) XOR (y AND z)"

definition big_sigma0 :: "u32 \<Rightarrow> u32" where
  "big_sigma0 x = word_rotr 2 x XOR word_rotr 13 x XOR word_rotr 22 x"

definition big_sigma1 :: "u32 \<Rightarrow> u32" where
  "big_sigma1 x = word_rotr 6 x XOR word_rotr 11 x XOR word_rotr 25 x"

definition small_sigma0 :: "u32 \<Rightarrow> u32" where
  "small_sigma0 x = word_rotr 7 x XOR word_rotr 18 x XOR drop_bit 3 x"

definition small_sigma1 :: "u32 \<Rightarrow> u32" where
  "small_sigma1 x = word_rotr 17 x XOR word_rotr 19 x XOR drop_bit 10 x"

fun message_schedule :: "byte list \<Rightarrow> nat \<Rightarrow> u32" where
  "message_schedule block t =
     (if t < 16 then of_nat (be_value (take 4 (drop (4 * t) block)))
      else small_sigma1 (message_schedule block (t - 2)) + message_schedule block (t - 7) +
           small_sigma0 (message_schedule block (t - 15)) + message_schedule block (t - 16))"

declare message_schedule.simps [simp del]

primrec hash_rounds :: "byte list \<Rightarrow> working \<Rightarrow> nat \<Rightarrow> working" where
  "hash_rounds block w 0 = w"
| "hash_rounds block w (Suc t) =
     (case hash_rounds block w t of (a, b, c, d, e, f, g, h) \<Rightarrow>
        let t1 = h + big_sigma1 e + Ch e f g + kRoundConstants ! t + message_schedule block t;
            t2 = big_sigma0 a + Maj a b c
        in (t1 + t2, a, b, c, d + t1, e, f, g))"

definition working_of :: "u32 list \<Rightarrow> working" where
  "working_of st = (st ! 0, st ! 1, st ! 2, st ! 3, st ! 4, st ! 5, st ! 6, st ! 7)"

definition list_of_working :: "working \<Rightarrow> u32 list" where
  "list_of_working w = (case w of (a, b, c, d, e, f, g, h) \<Rightarrow> [a, b, c, d, e, f, g, h])"

definition compress :: "u32 list \<Rightarrow> byte list \<Rightarrow> u32 list" where
  "compress st block =
     map2 (+) (list_of_working (working_of st)) (list_of_working (hash_rounds block (working_of st) 64))"

function compress_blocks :: "u32 list \<Rightarrow> byte list \<Rightarrow> u32 list" where
  "compress_blocks st m =
     (if length m < 64 then st else compress_blocks (compress st (take 64 m)) (drop 64 m))"
  by pat_completeness auto
termination
  by (relation "measure (\<lambda>(st, m). length m)") auto

declare compress_blocks.simps [simp del]

definition be_bytes :: "nat \<Rightarrow> nat \<Rightarrow> byte list" where
  "be_bytes k n = map (\<lambda>i. of_nat (n div 256 ^ (k - 1 - i))) [0..<k]"

definition sha_padded :: "byte list \<Rightarrow> byte list" where
  "sha_padded m = m @ 0x80 # replicate ((119 - length m mod 64) mod 64) 0 @ be_bytes 8 (8 * length m)"

definition sha256 :: "byte list \<Rightarrow> byte list" where
  "sha256 m = concat (map (\<lambda>w. be_bytes 4 (unat w)) (compress_blocks sha_initial_state (sha_padded m)))"

section \<open>The compression function\<close>

lemma RotateRight_rotr:
  assumes n: "0 < n" "n < 32"
  shows "RotateRight x n = word_rotr n x"
proof (rule bit_word_eqI)
  fix i assume "i < LENGTH(32)"
  then have i: "i < 32" by simp
  have out: "\<not> bit x j" if "32 \<le> j" for j using that by (auto dest: bit_imp_le_length)
  show "bit (RotateRight x n) i = bit (word_rotr n x) i"
  proof (cases "i + n < 32")
    case True
    then have "\<not> 32 - n \<le> i" by simp
    with True show ?thesis using n i
      by (simp add: RotateRight_def bit_simps add.commute)
  next
    case False
    then have "(i + n) mod 32 = i - (32 - n)" using n i by (simp add: mod_if)
    moreover have "32 - n \<le> i" using False by simp
    ultimately show ?thesis using n i False out
      by (simp add: RotateRight_def bit_simps add.commute)
  qed
qed

lemma LoadBigEndian32_value:
  assumes "length bs \<ge> 4"
  shows "LoadBigEndian32 bs = of_nat (be_value (take 4 bs))"
proof -
  obtain a b c d ds where bs: "bs = a # b # c # d # ds"
    using assms by (auto simp: numeral_eq_Suc Suc_le_length_iff)
  have high: "\<not> bit (ucast x :: u32) n" if "8 \<le> n" for x :: byte and n
    using that by (auto simp: bit_simps dest: bit_imp_le_length)
  have "push_bit 8 (ucast c) + ucast d = (push_bit 8 (ucast c) OR ucast d :: u32)"
    by (rule disjunctive_add) (auto simp: bit_push_bit_iff high)
  moreover have "push_bit 16 (ucast b) + (push_bit 8 (ucast c) OR ucast d) =
      (push_bit 16 (ucast b) OR (push_bit 8 (ucast c) OR ucast d) :: u32)"
    by (rule disjunctive_add) (auto simp: bit_push_bit_iff bit_or_iff high)
  moreover have "push_bit 24 (ucast a) + (push_bit 16 (ucast b) OR (push_bit 8 (ucast c) OR ucast d)) =
      (push_bit 24 (ucast a) OR (push_bit 16 (ucast b) OR (push_bit 8 (ucast c) OR ucast d)) :: u32)"
    by (rule disjunctive_add) (auto simp: bit_push_bit_iff bit_or_iff high)
  ultimately have "LoadBigEndian32 bs =
      push_bit 24 (ucast a) + (push_bit 16 (ucast b) + (push_bit 8 (ucast c) + ucast d))"
    by (simp only: bs LoadBigEndian32_def or.assoc nth_Cons_0 nth_Cons_numeral nth_Cons_Suc
        pred_numeral_simps One_nat_def) (simp add: or.assoc)
  also have "\<dots> = of_nat (be_value (take 4 bs))"
    by (simp add: bs be_value_def push_bit_eq_mult algebra_simps)
  finally show ?thesis .
qed

lemma ucast_drop_bit: "(ucast (drop_bit k w) :: byte) = of_nat (unat (w :: 'a::len word) div 2 ^ k)"
proof -
  have "(ucast (drop_bit k w) :: byte) = of_nat (unat (drop_bit k w))" by simp
  also have "unat (drop_bit k w) = unat w div 2 ^ k"
    unfolding unat_drop_bit_eq by (rule drop_bit_eq_div)
  finally show ?thesis .
qed

lemma StoreBigEndian32_bytes: "StoreBigEndian32 w = be_bytes 4 (unat w)"
proof -
  have "(ucast w :: byte) = of_nat (unat w)" by simp
  then show ?thesis
    unfolding StoreBigEndian32_def be_bytes_def ucast_drop_bit by (simp add: upt_rec)
qed

lemma schedule_words_eq:
  assumes "length block = 64"
  shows "schedule_words block = map (message_schedule block) [0..<64]"
proof -
  have step: "schedule_step i (map (message_schedule block) [0..<i]) =
      map (message_schedule block) [0..<Suc i]" if "16 \<le> i" for i
    using that message_schedule.simps [of block i]
    by (simp add: schedule_step_def RotateRight_rotr small_sigma0_def small_sigma1_def add_ac)
  have "16 \<le> n \<Longrightarrow> fold schedule_step [16..<n] (map (message_schedule block) [0..<16]) =
      map (message_schedule block) [0..<n]" for n
  proof (induction n rule: nat_induct_at_least)
    case base
    then show ?case by simp
  next
    case (Suc n)
    then show ?case by (simp only: upt_Suc_append fold_append comp_apply fold_simps step)
  qed
  from this [of 64] have "fold schedule_step [16..<64] (map (message_schedule block) [0..<16]) =
      map (message_schedule block) [0..<64]" by simp
  moreover have "map (\<lambda>i. LoadBigEndian32 (drop (i * 4) block)) [0..<16] =
      map (message_schedule block) [0..<16]"
    using assms
    by (intro map_cong) (auto simp: message_schedule.simps LoadBigEndian32_value mult.commute)
  ultimately show ?thesis unfolding schedule_words_def by (simp only:)
qed

lemma round_step_eq:
  assumes "length block = 64" and "n \<le> 64"
  shows "fold (round_step (schedule_words block)) [0..<n] w = hash_rounds block w n"
  using assms(2)
proof (induction n)
  case 0
  then show ?case by simp
next
  case (Suc n)
  then show ?case
    by (simp add: schedule_words_eq [OF assms(1)] RotateRight_rotr big_sigma0_def big_sigma1_def
        Ch_def Maj_def Let_def split: prod.splits)
qed

lemma transform_state_eq: "length block = 64 \<Longrightarrow> transform_state st block = compress st block"
  by (simp add: transform_state_def compress_def round_step_eq working_of_def list_of_working_def
      split: prod.splits)

section \<open>The buffer\<close>

text \<open>
  \<open>Update\<close> copies whole stretches; seen from outside it is \<open>put_byte\<close> for one byte after the
  other, and that is what the remaining proofs use.
\<close>

definition put_byte :: "byte \<Rightarrow> Sha256 \<Rightarrow> Sha256" where
  "put_byte b s =
     (let s = s\<lparr>sha_buffer := (sha_buffer s)[buffer_size s := b], buffer_size := buffer_size s + 1\<rparr>
      in if buffer_size s = 64 then (Sha256_Transform (sha_buffer s) s)\<lparr>buffer_size := 0\<rparr> else s)"

definition sha_inv :: "Sha256 \<Rightarrow> bool" where
  "sha_inv s \<longleftrightarrow> length (sha_buffer s) = 64 \<and> buffer_size s < 64 \<and> length (sha_state s) = 8"

lemma length_compress [simp]: "length (compress st block) = 8"
  by (simp add: compress_def list_of_working_def split: prod.splits)

lemma length_transform_state [simp]: "length (transform_state st block) = 8"
  by (simp add: transform_state_def split: prod.splits)

lemma sha_inv_put_byte: "sha_inv s \<Longrightarrow> sha_inv (put_byte b s)"
  by (simp add: sha_inv_def put_byte_def Sha256_Transform_def Let_def)

lemma sha_inv_fold: "sha_inv s \<Longrightarrow> sha_inv (fold put_byte xs s)"
  by (induction xs arbitrary: s) (simp_all add: sha_inv_put_byte)

lemma memcpy_snoc:
  "at + length p < length dst \<Longrightarrow> memcpy dst at (p @ [x]) = (memcpy dst at p)[at + length p := x]"
  by (simp add: memcpy_def list_update_append Cons_nth_drop_Suc [symmetric])

lemma fold_put_byte_fill:
  "buffer_size s + length p < 64 \<Longrightarrow> length (sha_buffer s) = 64 \<Longrightarrow>
   fold put_byte p s =
     s\<lparr>sha_buffer := memcpy (sha_buffer s) (buffer_size s) p, buffer_size := buffer_size s + length p\<rparr>"
proof (induction p rule: rev_induct)
  case Nil
  then show ?case by simp
next
  case (snoc x p)
  then show ?case by (simp add: put_byte_def memcpy_snoc)
qed

lemma fold_put_byte_full:
  assumes "buffer_size s + length p = 64" and "length (sha_buffer s) = 64" and "p \<noteq> []"
  shows "fold put_byte p s =
    (Sha256_Transform (memcpy (sha_buffer s) (buffer_size s) p)
      (s\<lparr>sha_buffer := memcpy (sha_buffer s) (buffer_size s) p, buffer_size := 64\<rparr>))\<lparr>buffer_size := 0\<rparr>"
proof -
  obtain q x where p: "p = q @ [x]" using assms(3) by (cases p rule: rev_cases) auto
  with assms have q: "buffer_size s + length q < 64" "Suc (buffer_size s + length q) = 64" by auto
  have "memcpy (sha_buffer s) (buffer_size s) p =
      (memcpy (sha_buffer s) (buffer_size s) q)[buffer_size s + length q := x]"
    using q assms(2) by (simp add: p memcpy_snoc)
  then show ?thesis
    using q assms(2) by (simp add: p fold_put_byte_fill put_byte_def Sha256_Transform_def)
qed

lemma update_loop_eq: "sha_inv s \<Longrightarrow> update_loop input s = fold put_byte input s"
proof (induction input s rule: update_loop.induct)
  case (1 input s)
  define c where "c = min (64 - buffer_size s) (length input)"
  have c: "(if length input < 64 - buffer_size s then length input else 64 - buffer_size s) = c"
    by (simp add: c_def min_def)
  define s1 where "s1 = s\<lparr>sha_buffer := memcpy (sha_buffer s) (buffer_size s) (take c input),
    buffer_size := buffer_size s + c\<rparr>"
  define s2 where "s2 = (if buffer_size s1 = 64
    then (Sha256_Transform (sha_buffer s1) s1)\<lparr>buffer_size := 0\<rparr> else s1)"
  have unfold: "update_loop input s = (if c = 0 then s else update_loop (drop c input) s2)"
    by (simp add: update_loop.simps [of input s] c s1_def s2_def Let_def)
  show ?case
  proof (cases "c = 0")
    case True
    then have "input = []" using "1.prems" by (auto simp: c_def sha_inv_def min_def split: if_splits)
    with True unfold show ?thesis by simp
  next
    case False
    have len: "length (take c input) = c" by (simp add: c_def)
    have fold_take: "fold put_byte (take c input) s = s2"
    proof (cases "buffer_size s + c = 64")
      case True
      have "take c input \<noteq> []" using False len by (metis list.size(3))
      with True show ?thesis
        using fold_put_byte_full [of s "take c input"] len "1.prems"
        by (simp add: s1_def s2_def sha_inv_def Sha256_Transform_def)
    next
      case False
      moreover have "buffer_size s + c \<le> 64" using "1.prems" by (auto simp: c_def sha_inv_def min_def)
      ultimately show ?thesis
        using fold_put_byte_fill [of s "take c input"] len "1.prems"
        by (simp add: s1_def s2_def sha_inv_def)
    qed
    have "sha_inv s2" using sha_inv_fold [OF "1.prems", of "take c input"] by (simp add: fold_take)
    then have "update_loop (drop c input) s2 = fold put_byte (drop c input) s2"
      using "1.IH" [OF refl c [symmetric] False s1_def s2_def] by (simp add: c_def)
    also have "\<dots> = fold put_byte (take c input @ drop c input) s"
      by (simp only: fold_append comp_apply fold_take)
    finally show ?thesis using False unfold by simp
  qed
qed

section \<open>What a state stands for\<close>

text \<open>\<open>sha_blocks s m\<close>: the whole blocks of \<open>m\<close> are hashed, the rest of \<open>m\<close> is in the buffer.\<close>

definition sha_blocks :: "Sha256 \<Rightarrow> byte list \<Rightarrow> bool" where
  "sha_blocks s m \<longleftrightarrow> sha_inv s \<and> \<not> finalized s \<and>
     (\<exists>a. m = a @ take (buffer_size s) (sha_buffer s) \<and> 64 dvd length a \<and>
        sha_state s = compress_blocks sha_initial_state a)"

definition sha_message :: "Sha256 \<Rightarrow> byte list \<Rightarrow> bool" where
  "sha_message s m \<longleftrightarrow> sha_blocks s m \<and> length m < 2 ^ 64 \<and> total_bytes s = of_nat (length m)"

lemma compress_blocks_short [simp]: "length m < 64 \<Longrightarrow> compress_blocks st m = st"
  by (simp add: compress_blocks.simps)

lemma compress_blocks_one [simp]: "length m = 64 \<Longrightarrow> compress_blocks st m = compress st m"
  by (simp add: compress_blocks.simps [of st m])

lemma compress_blocks_append:
  "64 dvd length a \<Longrightarrow> compress_blocks st (a @ b) = compress_blocks (compress_blocks st a) b"
proof (induction st a rule: compress_blocks.induct)
  case (1 st a)
  show ?case
  proof (cases "length a < 64")
    case True
    with "1.prems" have "length a = 0" by (meson dvd_imp_le gr0I leD)
    then show ?thesis by simp
  next
    case False
    with "1.prems" have "64 dvd length (drop 64 a)" by simp
    from "1.IH" [OF False this] False show ?thesis
      by (simp add: compress_blocks.simps [of st "a @ b"] compress_blocks.simps [of st a])
  qed
qed

lemma sha_blocks_put_byte:
  assumes "sha_blocks s m"
  shows "sha_blocks (put_byte b s) (m @ [b])"
proof -
  from assms obtain a where inv: "sha_inv s" "\<not> finalized s"
    and m: "m = a @ take (buffer_size s) (sha_buffer s)" "64 dvd length a"
    and st: "sha_state s = compress_blocks sha_initial_state a"
    by (auto simp: sha_blocks_def)
  let ?buf = "(sha_buffer s)[buffer_size s := b]"
  have mb: "m @ [b] = a @ take (Suc (buffer_size s)) ?buf"
    using inv m by (simp add: sha_inv_def take_Suc_conv_app_nth)
  have inv': "sha_inv (put_byte b s)" using inv(1) by (rule sha_inv_put_byte)
  show ?thesis
  proof (cases "buffer_size s = 63")
    case True
    have "length ?buf = 64" using inv(1) by (simp add: sha_inv_def)
    then have "m @ [b] = a @ ?buf" and "transform_state (sha_state s) ?buf =
        compress_blocks sha_initial_state (a @ ?buf)"
      using mb True m(2) by (simp_all add: transform_state_eq compress_blocks_append st)
    with inv inv' True m(2) \<open>length ?buf = 64\<close> show ?thesis
      by (auto simp: sha_blocks_def put_byte_def Sha256_Transform_def)
  next
    case False
    with inv inv' mb m(2) st show ?thesis
      by (auto simp: sha_blocks_def put_byte_def)
  qed
qed

lemma sha_blocks_fold: "sha_blocks s m \<Longrightarrow> sha_blocks (fold put_byte xs s) (m @ xs)"
proof (induction xs arbitrary: s m)
  case Nil
  then show ?case by simp
next
  case (Cons x xs)
  from Cons.IH [OF sha_blocks_put_byte [OF Cons.prems]] show ?case by simp
qed

lemma fold_put_byte_total [simp]: "total_bytes (fold put_byte xs s) = total_bytes s"
  by (induction xs arbitrary: s) (simp_all add: put_byte_def Sha256_Transform_def Let_def)

lemma fold_put_byte_set_total:
  "fold put_byte xs (s\<lparr>total_bytes := t\<rparr>) = (fold put_byte xs s)\<lparr>total_bytes := t\<rparr>"
proof (induction xs arbitrary: s)
  case Nil
  then show ?case by simp
next
  case (Cons x xs)
  have "put_byte x (s\<lparr>total_bytes := t\<rparr>) = (put_byte x s)\<lparr>total_bytes := t\<rparr>"
    by (simp add: put_byte_def Sha256_Transform_def Let_def)
  with Cons.IH show ?case by simp
qed

lemma sha_message_Reset: "sha_message Sha256_Reset []"
  by (simp add: sha_message_def sha_blocks_def sha_inv_def Sha256_Reset_def sha_initial_state_def)

lemma sha_message_inv: "sha_message s m \<Longrightarrow> sha_inv s"
  by (simp add: sha_message_def sha_blocks_def)

text \<open>The overflow guard of \<open>Update\<close>, and what it does to the message.\<close>

lemma update_guard:
  assumes "unat t + n < 2 ^ 64"
  shows "\<not> (- 1 - t < (of_nat n :: u64))"
proof -
  have "unat (- 1 :: u64) = 2 ^ 64 - 1"
    by (simp add: unsigned_minus_1_eq_mask mask_eq_exp_minus_1)
  then have "unat (- 1 - t) = 2 ^ 64 - 1 - unat t" by (simp add: unat_sub)
  moreover have "unat (of_nat n :: u64) = n" using assms by (simp add: unat_of_nat)
  ultimately show ?thesis using assms by (simp add: word_less_nat_alt)
qed

lemma Sha256_Update_message:
  assumes "sha_message s m" and "length m + length xs < 2 ^ 64"
  shows "\<exists>s'. Sha256_Update (Some xs) (length xs) s = (True, s') \<and> sha_message s' (m @ xs)"
proof -
  from assms(1) have inv: "sha_inv s" "\<not> finalized s" and t: "unat (total_bytes s) = length m"
    and blocks: "sha_blocks s m" and total: "total_bytes s = of_nat (length m)"
    by (auto simp: sha_message_def sha_blocks_def unat_of_nat)
  let ?s = "(fold put_byte xs s)\<lparr>total_bytes := total_bytes s + of_nat (length xs)\<rparr>"
  have "sha_inv (s\<lparr>total_bytes := total_bytes s + of_nat (length xs)\<rparr>)"
    using inv by (simp add: sha_inv_def)
  then have "Sha256_Update (Some xs) (length xs) s = (True, ?s)"
    using inv update_guard [of "total_bytes s" "length xs"] assms(2) t
    by (simp add: Sha256_Update_def update_loop_eq fold_put_byte_set_total)
  moreover from sha_blocks_fold [OF blocks, of xs] have "sha_message ?s (m @ xs)"
    using assms(2) total by (simp add: sha_message_def sha_blocks_def sha_inv_def)
  ultimately show ?thesis by blast
qed

section \<open>Finalisation\<close>

lemma list8_cases:
  assumes "length ys = 8"
  obtains x0 x1 x2 x3 x4 x5 x6 x7 where "ys = [x0, x1, x2, x3, x4, x5, x6, x7]"
  using assms by (auto simp: numeral_eq_Suc length_Suc_conv)

lemma store_length_bytes:
  assumes "length b = 64"
  shows "fold (\<lambda>i b. b[63 - i := f i]) [0..<8] b = take 56 b @ map f (rev [0..<8])"
proof -
  have "length (drop 56 b) = 8" using assms by simp
  then obtain x0 x1 x2 x3 x4 x5 x6 x7 where "drop 56 b = [x0, x1, x2, x3, x4, x5, x6, x7]"
    by (rule list8_cases)
  then have b: "b = take 56 b @ [x0, x1, x2, x3, x4, x5, x6, x7]"
    by (metis append_take_drop_id)
  have "length (take 56 b) = 56" using assms by simp
  then show ?thesis
    by (subst b) (simp add: list_update_append upt_rec)
qed

lemma length_bytes_eq:
  assumes "8 * n < 2 ^ 64"
  shows "map (\<lambda>i. ucast (drop_bit (i * 8) (of_nat n * 8 :: u64))) (rev [0..<8]) = be_bytes 8 (8 * n)"
proof -
  have "unat (of_nat n * 8 :: u64) = 8 * n"
    using assms by (simp add: unat_word_ariths unat_of_nat mult.commute)
  then show ?thesis
    unfolding be_bytes_def ucast_drop_bit by (simp add: upt_rec)
qed

lemma digest_bytes:
  "length st = 8 \<Longrightarrow>
   concat (map (\<lambda>i. StoreBigEndian32 (st ! i)) [0..<8]) = concat (map (\<lambda>w. be_bytes 4 (unat w)) st)"
proof -
  assume "length st = 8"
  then have "map (\<lambda>w. be_bytes 4 (unat w)) (map ((!) st) [0..<8]) = map (\<lambda>w. be_bytes 4 (unat w)) st"
    using map_nth [of st] by (simp only:)
  then show ?thesis unfolding StoreBigEndian32_bytes map_map comp_def by (simp only:)
qed

text \<open>The blocks \<open>Final\<close> hashes, from the \<open>n\<close> buffered bytes \<open>r\<close>: one or two.\<close>

definition tail_blocks :: "byte list \<Rightarrow> byte list \<Rightarrow> byte list" where
  "tail_blocks r len8 = r @ 0x80 # replicate ((119 - length r) mod 64) 0 @ len8"

lemma memset_after:
  assumes "length b = 64" and "n < 64" and "k + n < 64"
  shows "memset (b[n := x]) (Suc n) k = take n b @ x # replicate k 0 @ drop (Suc n + k) b"
  using assms by (simp add: memset_def memcpy_def take_Suc_conv_app_nth take_update_cancel
      drop_update_cancel)

lemma memset_zero: "length b = 64 \<Longrightarrow> memset b 0 56 = replicate 56 0 @ drop 56 b"
  by (simp add: memset_def memcpy_def)

lemma length_be_bytes [simp]: "length (be_bytes k n) = k"
  by (simp add: be_bytes_def)

lemma Sha256_Final_state:
  assumes "sha_inv s" and "\<not> finalized s" and "total_bytes s = of_nat n" and "8 * n < 2 ^ 64"
  shows "fst (Sha256_Final True s) = Some (concat (map (\<lambda>w. be_bytes 4 (unat w))
    (compress_blocks (sha_state s) (tail_blocks (take (buffer_size s) (sha_buffer s)) (be_bytes 8 (8 * n))))))"
proof -
  let ?bs = "buffer_size s" and ?buf = "sha_buffer s" and ?len = "be_bytes 8 (8 * n)"
  have bs: "?bs < 64" "length ?buf = 64" using assms(1) by (auto simp: sha_inv_def)
  have "unat ((- 1) div 8 :: u64) = (2 ^ 64 - 1) div 8"
    by (simp add: unat_div unsigned_minus_1_eq_mask mask_eq_exp_minus_1)
  then have guard: "\<not> (- 1) div 8 < total_bytes s"
    using assms(3,4) by (simp add: word_less_nat_alt unat_of_nat)
  note tail = length_bytes_eq [OF assms(4)] store_length_bytes
  show ?thesis
  proof (cases "?bs \<le> 55")
    case True
    have k: "(119 - ?bs) mod 64 = 55 - ?bs" using True by (simp add: mod_if)
    have b: "memset (?buf[?bs := 0x80]) (Suc ?bs) (55 - ?bs) =
        take ?bs ?buf @ 0x80 # replicate (55 - ?bs) 0 @ drop 56 ?buf"
      using memset_after [of ?buf ?bs "55 - ?bs" "0x80"] bs True by simp
    have t: "take (56 - ?bs) (0x80 # replicate (55 - ?bs) 0 @ drop 56 ?buf) = 0x80 # replicate (55 - ?bs) 0"
      using Suc_diff_le [OF True] by simp
    show ?thesis
      using guard assms(2,3) True bs
      by (simp add: Sha256_Final_def Let_def b t tail Sha256_Transform_def transform_state_eq
          digest_bytes tail_blocks_def k del: upt_rec_numeral)
  next
    case False
    have k': "(119 - min (length ?buf) ?bs) mod 64 = (63 - ?bs) + 56"
      using bs False by (simp add: mod_if)
    have b: "memset (?buf[?bs := 0x80]) (Suc ?bs) (63 - ?bs) =
        take ?bs ?buf @ 0x80 # replicate (63 - ?bs) 0"
      using memset_after [of ?buf ?bs "63 - ?bs" "0x80"] bs by simp
    have "tail_blocks (take ?bs ?buf) ?len =
        (take ?bs ?buf @ 0x80 # replicate (63 - ?bs) 0) @ (replicate 56 0 @ ?len)"
      using bs unfolding tail_blocks_def length_take k' replicate_add by simp
    then have "compress_blocks st (tail_blocks (take ?bs ?buf) ?len) =
        compress (compress st (take ?bs ?buf @ 0x80 # replicate (63 - ?bs) 0)) (replicate 56 0 @ ?len)" for st
      using compress_blocks_append [of "take ?bs ?buf @ 0x80 # replicate (63 - ?bs) 0" st] bs by simp
    then show ?thesis
      using guard assms(2,3) False bs
      by (simp add: Sha256_Final_def Let_def b tail memset_zero Sha256_Transform_def transform_state_eq
          digest_bytes del: upt_rec_numeral)
  qed
qed

lemma Sha256_Final_message:
  assumes "sha_message s m" and "8 * length m < 2 ^ 64"
  shows "fst (Sha256_Final True s) = Some (sha256 m)"
proof -
  from assms(1) obtain a where m: "m = a @ take (buffer_size s) (sha_buffer s)" "64 dvd length a"
    and st: "sha_state s = compress_blocks sha_initial_state a"
    and inv: "sha_inv s" "\<not> finalized s" and t: "total_bytes s = of_nat (length m)"
    by (auto simp: sha_message_def sha_blocks_def)
  have r: "length (take (buffer_size s) (sha_buffer s)) = buffer_size s" "buffer_size s < 64"
    using inv by (auto simp: sha_inv_def)
  have "length m mod 64 = buffer_size s" using m r by auto
  then have "sha_padded m =
      m @ 0x80 # replicate ((119 - buffer_size s) mod 64) 0 @ be_bytes 8 (8 * length m)"
    by (simp only: sha_padded_def)
  also have "\<dots> = a @ tail_blocks (take (buffer_size s) (sha_buffer s)) (be_bytes 8 (8 * length m))"
    unfolding tail_blocks_def r(1) by (simp add: append_assoc [symmetric] m(1) [symmetric] del: append_assoc)
  finally have "sha_padded m =
      a @ tail_blocks (take (buffer_size s) (sha_buffer s)) (be_bytes 8 (8 * length m))" .
  then show ?thesis
    using Sha256_Final_state [OF inv t assms(2)] m(2)
    by (simp add: sha256_def st compress_blocks_append)
qed

section \<open>Feeding in pieces\<close>

text \<open>
  \<open>Update\<close> as a consumer of pieces, \<open>None\<close> once it returned false.  A piece is a buffer in
  memory, whose size fits a \<open>size_t\<close>.
\<close>

definition sha_feed :: "byte list \<Rightarrow> Sha256 option \<Rightarrow> Sha256 option" where
  "sha_feed xs os =
     (case os of
        None \<Rightarrow> None
      | Some s \<Rightarrow>
          if length xs < 2 ^ 64
          then case Sha256_Update (Some xs) (length xs) s of (ok, s') \<Rightarrow> if ok then Some s' else None
          else None)"

definition sha_open :: "Sha256 option \<Rightarrow> bool" where
  "sha_open os \<longleftrightarrow> (\<exists>s. os = Some s \<and> sha_inv s \<and> \<not> finalized s)"

lemma sha_feed_eq:
  assumes "sha_inv s" and "\<not> finalized s"
  shows "sha_feed xs (Some s) =
    (if unat (total_bytes s) + length xs < 2 ^ 64
     then Some ((fold put_byte xs s)\<lparr>total_bytes := total_bytes s + of_nat (length xs)\<rparr>) else None)"
proof (cases "length xs < 2 ^ 64")
  case True
  have "unat (- 1 :: u64) = 2 ^ 64 - 1"
    by (simp add: unsigned_minus_1_eq_mask mask_eq_exp_minus_1)
  then have "unat (- 1 - total_bytes s) = 2 ^ 64 - 1 - unat (total_bytes s)" by (simp add: unat_sub)
  then have guard: "- 1 - total_bytes s < (of_nat (length xs) :: u64) \<longleftrightarrow>
      \<not> unat (total_bytes s) + length xs < 2 ^ 64"
    using True u64_less [of "total_bytes s"] by (auto simp: word_less_nat_alt unat_of_nat)
  have "sha_inv (s\<lparr>total_bytes := total_bytes s + of_nat (length xs)\<rparr>)"
    using assms by (simp add: sha_inv_def)
  then show ?thesis
    using assms True by (simp add: sha_feed_def Sha256_Update_def guard update_loop_eq
        fold_put_byte_set_total)
next
  case False
  then show ?thesis by (simp add: sha_feed_def)
qed

lemma fold_put_byte_finalized [simp]: "finalized (fold put_byte xs s) = finalized s"
  by (induction xs arbitrary: s) (simp_all add: put_byte_def Sha256_Transform_def Let_def)

interpretation sha_stream: incremental sha_feed sha_open
proof
  fix os assume "sha_open os"
  then obtain s where "os = Some s" "sha_inv s" "\<not> finalized s" by (auto simp: sha_open_def)
  then show "sha_feed [] os = os" using u64_less [of "total_bytes s"] by (simp add: sha_feed_eq)
next
  fix xs ys os assume "sha_open os" and good: "sha_open (sha_feed (xs @ ys) os)"
  then obtain s where s: "os = Some s" "sha_inv s" "\<not> finalized s" by (auto simp: sha_open_def)
  have bound: "unat (total_bytes s) + length (xs @ ys) < 2 ^ 64"
    using good s by (auto simp: sha_feed_eq sha_open_def split: if_splits)
  let ?s = "(fold put_byte xs s)\<lparr>total_bytes := total_bytes s + of_nat (length xs)\<rparr>"
  have inv: "sha_inv ?s" "\<not> finalized ?s"
    using sha_inv_fold [OF s(2), of xs] s(3) by (simp_all add: sha_inv_def)
  have total: "unat (total_bytes ?s) = unat (total_bytes s) + length xs"
    using bound by (simp add: unat_word_ariths unat_of_nat)
  show "sha_open (sha_feed xs os) \<and> sha_feed (xs @ ys) os = sha_feed ys (sha_feed xs os)"
    using s inv bound total
    by (simp add: sha_feed_eq sha_open_def fold_put_byte_set_total)
qed

section \<open>Properties\<close>

text \<open>
  C6: the streaming class computes SHA-256.  Starting from \<open>Reset\<close>, for every sequence of
  pieces whose total length is below \<open>2 ^ 61\<close> bytes, every \<open>Update\<close> call returns true and
  \<open>Final\<close> returns true with the digest FIPS 180-4 defines for the concatenation.
\<close>

theorem sha256_streaming_correct:
  assumes "8 * length (concat ps) < 2 ^ 64"
  shows "\<exists>s. fold sha_feed ps (Some Sha256_Reset) = Some s \<and>
    fst (Sha256_Final True s) = Some (sha256 (concat ps))"
proof -
  obtain s where s: "Sha256_Update (Some (concat ps)) (length (concat ps)) Sha256_Reset = (True, s)"
    "sha_message s (concat ps)"
    using Sha256_Update_message [OF sha_message_Reset, of "concat ps"] assms by auto
  then have one: "sha_feed (concat ps) (Some Sha256_Reset) = Some s"
    using assms by (simp add: sha_feed_def)
  have "sha_open (Some Sha256_Reset)" and "sha_open (sha_feed (concat ps) (Some Sha256_Reset))"
    using sha_message_Reset s(2) by (auto simp: one sha_open_def sha_message_def sha_blocks_def)
  then have "fold sha_feed ps (Some Sha256_Reset) = Some s"
    using sha_stream.feed_pieces one by metis
  with Sha256_Final_message [OF s(2) assms] show ?thesis by blast
qed

theorem sha256_streaming_correct_witness:
  "\<exists>s. fold sha_feed [[0x61], [], [0x62, 0x63]] (Some Sha256_Reset) = Some s \<and>
    fst (Sha256_Final True s) = Some (sha256 [0x61, 0x62, 0x63])"
proof -
  have "8 * length (concat [[0x61], [], [0x62, 0x63 :: byte]]) < 2 ^ 64" by simp
  from sha256_streaming_correct [OF this] show ?thesis by simp
qed

text \<open>
  The two tables are the ones the standard derives from the primes: the initial state holds
  the first 32 fractional bits of the square roots of the first eight primes, the round
  constants those of the cube roots of the first sixty-four.
\<close>

definition first_primes :: "nat list" where
  "first_primes =
    [2, 3, 5, 7, 11, 13, 17, 19, 23, 29, 31, 37, 41, 43, 47, 53, 59, 61, 67, 71, 73, 79, 83, 89, 97,
     101, 103, 107, 109, 113, 127, 131, 137, 139, 149, 151, 157, 163, 167, 173, 179, 181, 191, 193,
     197, 199, 211, 223, 227, 229, 233, 239, 241, 251, 257, 263, 269, 271, 277, 281, 283, 293, 307, 311]"

definition integer_root :: "nat \<Rightarrow> nat \<Rightarrow> nat" where
  "integer_root k p = length (filter (\<lambda>c. c ^ k \<le> p) [1, 2, 3, 4, 5, 6])"

definition root_fraction :: "nat \<Rightarrow> nat \<Rightarrow> u32 \<Rightarrow> bool" where
  "root_fraction k p w \<longleftrightarrow>
     (let n = integer_root k p * 2 ^ 32 + unat w in
      n ^ k \<le> p * 2 ^ (32 * k) \<and> p * 2 ^ (32 * k) < (n + 1) ^ k)"

lemma sha256_constants:
  "length first_primes = 64 \<and> length kRoundConstants = 64 \<and> length sha_initial_state = 8 \<and>
   list_all2 (root_fraction 3) first_primes kRoundConstants \<and>
   list_all2 (root_fraction 2) (take 8 first_primes) sha_initial_state"
proof (intro conjI)
  show "list_all2 (root_fraction 3) first_primes kRoundConstants"
    by (simp add: first_primes_def kRoundConstants_def root_fraction_def integer_root_def)
  show "list_all2 (root_fraction 2) (take 8 first_primes) sha_initial_state"
    by (simp add: first_primes_def sha_initial_state_def root_fraction_def integer_root_def)
qed (simp_all add: first_primes_def kRoundConstants_def sha_initial_state_def)

lemma length_sha256 [simp]: "length (sha256 m) = 32"
proof -
  have "length (compress_blocks st m) = 8" if "length st = 8" for st m
    using that by (induction st m rule: compress_blocks.induct) (subst compress_blocks.simps, auto)
  note len = this
  have "length (concat (map (\<lambda>w. be_bytes 4 (unat w)) ws)) = 4 * length ws" for ws :: "u32 list"
    by (induction ws) auto
  then show ?thesis
    unfolding sha256_def using len [of sha_initial_state "sha_padded m"] by (simp add: sha_initial_state_def)
qed

lemma Sha256_Final_bound:
  assumes "sha_message s m" and "Sha256_Final True s = (Some digest, s')"
  shows "digest = sha256 m"
proof -
  have t: "total_bytes s = of_nat (length m)" and len: "length m < 2 ^ 64"
    using assms(1) by (auto simp: sha_message_def)
  have "\<not> total_bytes s > (- 1) div 8" using assms(2) by (auto simp: Sha256_Final_def split: if_split_asm)
  then have "unat (total_bytes s) \<le> unat ((- 1 :: u64) div 8)" by (simp add: word_le_nat_alt not_less)
  moreover have "unat ((- 1 :: u64) div 8) = (2 ^ 64 - 1) div 8"
    by (simp add: unat_div unsigned_minus_1_eq_mask mask_eq_exp_minus_1)
  ultimately have "8 * length m < 2 ^ 64" using t len by (simp add: unat_of_nat)
  from Sha256_Final_message [OF assms(1) this] assms(2) show ?thesis by simp
qed

lemma ConstantTimeDigestEqual_iff:
  assumes "length l = 32" and "length r = 32"
  shows "ConstantTimeDigestEqual (Some l) (Some r) \<longleftrightarrow> l = r"
proof -
  have xor_zero_iff: "a XOR b = 0 \<longleftrightarrow> a = b" for a b :: byte
    by (metis xor.assoc xor.right_neutral xor_self_eq)
  have "fold (\<lambda>i d. d OR (l ! i XOR r ! i)) xs z = 0 \<longleftrightarrow> z = 0 \<and> (\<forall>i\<in>set xs. l ! i = r ! i)"
    for xs and z :: byte
    by (induction xs arbitrary: z) (auto simp: or_eq_0_iff xor_zero_iff)
  note diff = this
  show ?thesis
    using assms by (auto simp: ConstantTimeDigestEqual_def diff list_eq_iff_nth_eq simp del: upt_rec_numeral)
qed

text \<open>
  the constant-time comparison of two digests is equality of their thirty-two bytes, and is
  false when either is absent.
\<close>

lemma digest_comparison_correct:
  assumes "list_all (\<lambda>d. length d = 32) [l, r]"
  shows "ConstantTimeDigestEqual (Some l) (Some r) = (l = r) \<and>
    \<not> ConstantTimeDigestEqual None (Some r) \<and> \<not> ConstantTimeDigestEqual (Some l) None"
  using assms ConstantTimeDigestEqual_iff by (simp add: ConstantTimeDigestEqual_def)

end
