(* ===== verification/Http_Common.thy ===== *)
theory Http_Common
  imports Bmx_Prelude
begin

text \<open>
  What the two HTTP head parsers have in common: the remote server's request parser
  (\<open>src/src/remote/http_parser.cpp\<close>) and the updater's response parser
  (\<open>src/src/update/http_response_parser.cpp\<close>) split a header line with the same statements and
  read numbers with the same loops.  A header line is modelled as the list of its bytes without
  the CRLF, the pointers into it as positions.
\<close>

section \<open>Characters\<close>

abbreviation CR :: byte where "CR \<equiv> 13"
abbreviation LF :: byte where "LF \<equiv> 10"
abbreviation SP :: byte where "SP \<equiv> 32"
abbreviation HT :: byte where "HT \<equiv> 9"

definition token_symbols :: "byte list" where
  "token_symbols = [0x21, 0x23, 0x24, 0x25, 0x26, 0x27, 0x2a, 0x2b, 0x2d, 0x2e, 0x5e, 0x5f, 0x60, 0x7c, 0x7e]"

text \<open>\<open>strchr\<close> also finds the terminating NUL of its first argument.\<close>

definition IsTokenCharacter :: "byte \<Rightarrow> bool" where
  "IsTokenCharacter c \<longleftrightarrow> is_lower c \<or> is_upper c \<or> is_digit c \<or> c \<in> set (token_symbols @ [0])"

definition is_blank :: "byte \<Rightarrow> bool" where
  "is_blank c \<longleftrightarrow> c = SP \<or> c = HT"

definition bad_value_byte :: "byte \<Rightarrow> bool" where
  "bad_value_byte c \<longleftrightarrow> (c < 0x20 \<and> c \<noteq> HT) \<or> c = 0x7f"

lemma token_character_range: "IsTokenCharacter c \<Longrightarrow> c \<noteq> 0 \<Longrightarrow> 0x20 < c \<and> c < 0x7f \<and> c \<noteq> 0x3a"
  unfolding IsTokenCharacter_def token_symbols_def
  by (auto simp: bmx_chars word_le_nat_alt word_less_nat_alt)

lemma token_not_blank: "IsTokenCharacter c \<Longrightarrow> \<not> is_blank c"
  unfolding is_blank_def IsTokenCharacter_def token_symbols_def
  by (auto simp: bmx_chars word_le_nat_alt)

lemma token_not_control: "IsTokenCharacter c \<Longrightarrow> c \<noteq> CR \<and> c \<noteq> LF"
  unfolding IsTokenCharacter_def token_symbols_def
  by (auto simp: bmx_chars word_le_nat_alt)

lemma value_not_control: "\<not> bad_value_byte c \<Longrightarrow> c \<noteq> CR \<and> c \<noteq> LF \<and> c \<noteq> 0"
  by (auto simp: bad_value_byte_def)

section \<open>Case-insensitive names\<close>

definition EqualsInsensitive :: "byte list \<Rightarrow> byte list \<Rightarrow> bool" where
  "EqualsInsensitive value expected \<longleftrightarrow>
     length value = length expected \<and> list_all2 (\<lambda>a b. AsciiLower a = AsciiLower b) value expected"

lemma EqualsInsensitive_map: "EqualsInsensitive a b \<longleftrightarrow> map AsciiLower a = map AsciiLower b"
  unfolding EqualsInsensitive_def by (auto simp: list_all2_conv_all_nth list_eq_iff_nth_eq)

section \<open>Numbers\<close>

primrec decimal_loop :: "u64 \<Rightarrow> byte list \<Rightarrow> u64 option" where
  "decimal_loop result [] = Some result"
| "decimal_loop result (c # cs) =
     (if c < ch CHR ''0'' \<or> c > ch CHR ''9'' then None
      else let digit = ucast (c - ch CHR ''0'') in
           if result > (- 1 - digit) div 10 then None
           else decimal_loop (result * 10 + digit) cs)"

interpretation decimal: checked_number 10 decimal_digit decimal_loop
proof
  fix r c cs
  have "(c < ch CHR ''0'' \<or> c > ch CHR ''9'') = (decimal_digit c = None)"
    by (auto simp: decimal_digit_def is_digit_def not_le)
  moreover have "(ucast (c - ch CHR ''0'') :: u64) = of_nat (unat (c - ch CHR ''0''))" by simp
  ultimately show "decimal_loop r (c # cs) =
      (case decimal_digit c of None \<Rightarrow> None
       | Some d \<Rightarrow> if (- 1 - of_nat d) div of_nat 10 < r then None
                   else decimal_loop (r * of_nat 10 + of_nat d) cs)"
    by (cases "decimal_digit c")
      (auto simp: decimal_digit_def Let_def simp del: of_nat_unat split: if_splits)
qed (auto dest: decimal_digit_less)

primrec hex_loop :: "u64 \<Rightarrow> byte list \<Rightarrow> u64 option" where
  "hex_loop chunk_size [] = Some chunk_size"
| "hex_loop chunk_size (c # cs) =
     (let go = \<lambda>digit :: u64. if chunk_size > (- 1 - digit) div 16 then None
                       else hex_loop (chunk_size * 16 + digit) cs
      in if ch CHR ''0'' \<le> c \<and> c \<le> ch CHR ''9'' then go (ucast (c - ch CHR ''0''))
         else if ch CHR ''a'' \<le> c \<and> c \<le> ch CHR ''f'' then go (ucast (c - ch CHR ''a'' + 10))
         else if ch CHR ''A'' \<le> c \<and> c \<le> ch CHR ''F'' then go (ucast (c - ch CHR ''A'' + 10))
         else None)"

interpretation hex: checked_number 16 hex_digit hex_loop
proof
  fix r c cs
  have "(ucast (b :: byte) :: u64) = of_nat (unat b)" for b by simp
  then show "hex_loop r (c # cs) =
      (case hex_digit c of None \<Rightarrow> None
       | Some d \<Rightarrow> if (- 1 - of_nat d) div of_nat 16 < r then None
                   else hex_loop (r * of_nat 16 + of_nat d) cs)"
    by (auto simp: hex_digit_def is_digit_def Let_def simp del: of_nat_unat)
qed (auto dest: hex_digit_less)

definition ParseDecimal :: "byte list \<Rightarrow> u64 option" where
  "ParseDecimal value = (if value = [] then None else decimal_loop 0 value)"

lemma ParseDecimal_iff:
  "ParseDecimal value = Some v \<longleftrightarrow>
   value \<noteq> [] \<and> (\<exists>n. digits_value 10 decimal_digit value = Some n \<and> n < 2 ^ 64 \<and> v = of_nat n)"
  by (simp add: ParseDecimal_def decimal.acc_value)

section \<open>Header lines\<close>

text \<open>
  \<open>value\<close> is moved over leading blanks, \<open>value_end\<close> back over trailing ones.
\<close>

definition trim_value :: "byte list \<Rightarrow> byte list" where
  "trim_value v = rev (dropWhile is_blank (rev (dropWhile is_blank v)))"

text \<open>
  A header line: no leading blank, a colon that is not the first byte, a token before it, and
  after trimming no control byte in the value.  \<open>None\<close> is \<open>InvalidHeader\<close>.
\<close>

definition split_header_line :: "byte list \<Rightarrow> (byte list \<times> byte list) option" where
  "split_header_line line =
     (if line \<noteq> [] \<and> is_blank (hd line) then None
      else case index_of (\<lambda>c. c = ch CHR '':'') line of
        None \<Rightarrow> None
      | Some colon \<Rightarrow>
          if colon = 0 then None
          else if \<not> list_all IsTokenCharacter (take colon line) then None
          else let value = trim_value (drop (Suc colon) line) in
               if \<not> list_all (\<lambda>c. \<not> bad_value_byte c) value then None
               else Some (take colon line, value))"

definition trimmed :: "byte list \<Rightarrow> bool" where
  "trimmed v \<longleftrightarrow> (v \<noteq> [] \<longrightarrow> \<not> is_blank (hd v) \<and> \<not> is_blank (last v))"

definition wf_field :: "byte list \<times> byte list \<Rightarrow> bool" where
  "wf_field f \<longleftrightarrow>
     fst f \<noteq> [] \<and> list_all IsTokenCharacter (fst f) \<and>
     trimmed (snd f) \<and> list_all (\<lambda>c. \<not> bad_value_byte c) (snd f)"

lemma trim_value_id: "trimmed v \<Longrightarrow> trim_value v = v"
proof (cases "v = []")
  case False
  assume t: "trimmed v"
  with False have "dropWhile is_blank v = v" by (cases v) (auto simp: trimmed_def)
  moreover have "dropWhile is_blank (rev v) = rev v"
    using t False by (cases v rule: rev_cases) (auto simp: trimmed_def)
  ultimately show ?thesis by (simp add: trim_value_def)
qed (simp add: trim_value_def)

lemma trimmed_trim_value: "trimmed (trim_value v)"
proof -
  let ?w = "dropWhile is_blank v"
  let ?u = "dropWhile is_blank (rev ?w)"
  have "\<not> is_blank (last (rev ?u))" if "?u \<noteq> []"
    using that hd_dropWhile [of is_blank "rev ?w"] by (simp add: last_rev)
  moreover have "\<not> is_blank (hd (rev ?u))" if ne: "?u \<noteq> []"
  proof -
    have "?w \<noteq> []" using ne by (metis dropWhile.simps(1) rev.simps(1))
    then have "\<not> is_blank (hd ?w)" by (rule hd_dropWhile)
    moreover have "last ?u = last (rev ?w)"
      using ne by (metis last_appendR takeWhile_dropWhile_id)
    ultimately show ?thesis using ne \<open>?w \<noteq> []\<close> by (simp add: hd_rev last_rev)
  qed
  ultimately show ?thesis by (simp add: trimmed_def trim_value_def)
qed

lemma set_trim_value: "set (trim_value v) \<subseteq> set v"
  by (auto simp: trim_value_def dest!: set_dropWhileD)

lemma split_header_line_wf: "split_header_line line = Some f \<Longrightarrow> wf_field f"
  by (auto simp: split_header_line_def wf_field_def trimmed_trim_value Let_def
      dest: index_of_SomeD(1) split: if_splits option.splits)

text \<open>The canonical form of a field is read back.\<close>

definition render_field :: "byte list \<times> byte list \<Rightarrow> byte list" where
  "render_field f = fst f @ ch CHR '':'' # SP # snd f"

lemma token_not_colon: "IsTokenCharacter c \<Longrightarrow> c \<noteq> ch CHR '':''"
  unfolding IsTokenCharacter_def token_symbols_def
  by (auto simp: bmx_chars word_le_nat_alt)

lemma split_render_field:
  assumes "wf_field f"
  shows "split_header_line (render_field f) = Some f"
proof -
  obtain n v where f: "f = (n, v)" by (cases f)
  from assms f have n: "n \<noteq> []" "list_all IsTokenCharacter n"
    and v: "trimmed v" "list_all (\<lambda>c. \<not> bad_value_byte c) v" by (auto simp: wf_field_def)
  have "ch CHR '':'' \<notin> set n" using n(2) token_not_colon by (auto simp: list_all_iff)
  then have colon: "index_of (\<lambda>c. c = ch CHR '':'') (n @ ch CHR '':'' # SP # v) = Some (length n)"
    by (simp add: index_of_eq_append)
  have "\<not> is_blank (hd n)" using n token_not_blank by (cases n) auto
  moreover have "trim_value (SP # v) = v"
    using trim_value_id [OF v(1)] by (simp add: trim_value_def is_blank_def)
  ultimately show ?thesis
    using n v(2) colon by (simp add: f render_field_def split_header_line_def Let_def)
qed

lemma render_field_clean:
  "wf_field f \<Longrightarrow> c \<in> set (render_field f) \<Longrightarrow> c \<noteq> CR \<and> c \<noteq> LF"
  using token_not_control value_not_control
  by (auto simp: render_field_def wf_field_def list_all_iff bmx_chars)

end
