(* ===== verification/Http_Request.thy ===== *)
theory Http_Request
  imports Http_Common
begin

text \<open>
  The request parser of the remote server, \<open>src/src/remote/http_types.h\<close> and
  \<open>src/src/remote/http_parser.cpp\<close>.  The parser's state is a record; the \<open>size_\<close> valid bytes of
  \<open>buffer_\<close> are the list \<open>parser_bytes\<close>, and the views of the request head, which point into
  that buffer, are the byte lists they denote (the buffer does not change once the head is
  parsed).  A request head is shown to be accepted exactly through its empty line, whatever the
  network's segmentation; an accepted one is well formed and unambiguous about its body; and
  every well-formed head within the limits is read back from its printed form.
\<close>

section \<open>Data\<close>

definition kHttpMaximumHeaderBytes :: nat where "kHttpMaximumHeaderBytes = 8192"
definition kHttpMaximumRequestTargetBytes :: nat where "kHttpMaximumRequestTargetBytes = 2048"
definition kHttpMaximumRequestHeaders :: nat where "kHttpMaximumRequestHeaders = 64"

datatype HttpMethod = Get | Head | Put | Post | Delete

definition HttpMethodName :: "HttpMethod \<Rightarrow> byte list" where
  "HttpMethodName m =
     bytes_of (case m of Get \<Rightarrow> ''GET'' | Head \<Rightarrow> ''HEAD'' | Put \<Rightarrow> ''PUT'' | Post \<Rightarrow> ''POST''
               | Delete \<Rightarrow> ''DELETE'')"

datatype HttpRequestParseStatus =
    ReqNeedMoreData | ReqComplete | ReqInvalidArgument | ReqHeaderTooLarge | ReqInvalidLineEnding
  | ReqInvalidRequestLine | ReqUnsupportedMethod | ReqUnsupportedVersion | ReqInvalidRequestTarget
  | ReqRequestTargetTooLong | ReqInvalidHeader | ReqTooManyHeaders | ReqInvalidContentLength
  | ReqConflictingContentLength | ReqUnsupportedTransferEncoding | ReqAmbiguousBodyLength

record HttpRequestHead =
  req_method :: HttpMethod
  raw_target :: "byte list"
  raw_path :: "byte list"
  raw_query :: "byte list"
  has_query :: bool
  req_headers :: "(byte list \<times> byte list) list"
  req_has_content_length :: bool
  req_content_length :: u64
  content_length_count :: nat

record HttpRequestParser =
  parser_bytes :: "byte list"
  maximum_header_bytes :: nat
  previous_was_cr :: bool
  parser_status :: HttpRequestParseStatus
  parser_request :: HttpRequestHead

definition empty_head :: HttpRequestHead where
  "empty_head = \<lparr>req_method = Get, raw_target = [], raw_path = [], raw_query = [], has_query = False,
     req_headers = [], req_has_content_length = False, req_content_length = 0,
     content_length_count = 0\<rparr>"

text \<open>\<open>HttpRequestHead::Header\<close> and \<open>HeaderCount\<close>.\<close>

definition Header :: "byte list \<Rightarrow> HttpRequestHead \<Rightarrow> byte list option" where
  "Header name r = map_option snd (find (\<lambda>h. EqualsInsensitive (fst h) name) (req_headers r))"

definition HeaderCount :: "byte list \<Rightarrow> HttpRequestHead \<Rightarrow> nat" where
  "HeaderCount name r = length (filter (\<lambda>h. EqualsInsensitive (fst h) name) (req_headers r))"

section \<open>The parser\<close>

definition NewHttpRequestParser :: "nat \<Rightarrow> HttpRequestParser" where
  "NewHttpRequestParser maximum =
     \<lparr>parser_bytes = [],
      maximum_header_bytes =
        (if maximum = 0 \<or> maximum > kHttpMaximumHeaderBytes then kHttpMaximumHeaderBytes else maximum),
      previous_was_cr = False, parser_status = ReqNeedMoreData, parser_request = empty_head\<rparr>"

definition ResetParser :: "HttpRequestParser \<Rightarrow> HttpRequestParser" where
  "ResetParser p = p\<lparr>parser_bytes := [], previous_was_cr := False, parser_status := ReqNeedMoreData,
     parser_request := empty_head\<rparr>"

definition FailRequest :: "HttpRequestParseStatus \<Rightarrow> HttpRequestParser \<Rightarrow> HttpRequestParser" where
  "FailRequest st p = p\<lparr>parser_status := st\<rparr>"

text \<open>The position of the first CRLF.\<close>

fun FindCrlf :: "byte list \<Rightarrow> nat option" where
  "FindCrlf (a # b # cs) = (if a = CR \<and> b = LF then Some 0 else map_option Suc (FindCrlf (b # cs)))"
| "FindCrlf _ = None"

definition ParseMethod :: "byte list \<Rightarrow> HttpMethod option" where
  "ParseMethod value =
     (if value = bytes_of ''GET'' then Some Get
      else if value = bytes_of ''HEAD'' then Some Head
      else if value = bytes_of ''PUT'' then Some Put
      else if value = bytes_of ''POST'' then Some Post
      else if value = bytes_of ''DELETE'' then Some Delete
      else None)"

definition bad_target_byte :: "byte \<Rightarrow> bool" where
  "bad_target_byte c \<longleftrightarrow> c \<le> 0x20 \<or> c > 0x7e \<or> c = ch CHR ''#''"

text \<open>
  The request line, its CRLF removed.  \<open>None\<close> in the first component means that the parser goes
  on to the header lines.
\<close>

definition parse_request_line ::
  "byte list \<Rightarrow> HttpRequestHead \<Rightarrow> HttpRequestParseStatus option \<times> HttpRequestHead" where
  "parse_request_line line r =
     (case index_of (\<lambda>c. c = SP) line of
        None \<Rightarrow> (Some ReqInvalidRequestLine, r)
      | Some i \<Rightarrow>
        if i = 0 then (Some ReqInvalidRequestLine, r)
        else let after = drop (Suc i) line in
        case index_of (\<lambda>c. c = SP) after of
          None \<Rightarrow> (Some ReqInvalidRequestLine, r)
        | Some j \<Rightarrow>
          let version = drop (Suc j) after; target = take j after in
          if j = 0 \<or> version = [] \<or> index_of (\<lambda>c. c = SP) version \<noteq> None
          then (Some ReqInvalidRequestLine, r)
          else case ParseMethod (take i line) of
            None \<Rightarrow> (Some ReqUnsupportedMethod, r)
          | Some m \<Rightarrow>
            let r = r\<lparr>req_method := m\<rparr> in
            if length target > kHttpMaximumRequestTargetBytes then (Some ReqRequestTargetTooLong, r)
            else if length target = 0 \<or> target ! 0 \<noteq> ch CHR ''/'' then (Some ReqInvalidRequestTarget, r)
            else if \<not> list_all (\<lambda>c. \<not> bad_target_byte c) target then (Some ReqInvalidRequestTarget, r)
            else if version \<noteq> bytes_of ''HTTP/1.1'' then (Some ReqUnsupportedVersion, r)
            else (None,
              case index_of (\<lambda>c. c = ch CHR ''?'') target of
                None \<Rightarrow> r\<lparr>raw_target := target, raw_path := target, raw_query := [], has_query := False\<rparr>
              | Some q \<Rightarrow> r\<lparr>raw_target := target, raw_path := take q target,
                            raw_query := drop (Suc q) target, has_query := True\<rparr>))"

text \<open>A header line: the field is recorded, and the two body-framing fields are inspected.\<close>

definition content_length_name :: "byte list" where
  "content_length_name = bytes_of ''Content-Length''"

definition transfer_encoding_name :: "byte list" where
  "transfer_encoding_name = bytes_of ''Transfer-Encoding''"

definition parse_header_line ::
  "byte list \<Rightarrow> HttpRequestHead \<Rightarrow> bool \<Rightarrow> HttpRequestParseStatus option \<times> HttpRequestHead \<times> bool" where
  "parse_header_line line r saw_transfer_encoding =
     (case split_header_line line of
        None \<Rightarrow> (Some ReqInvalidHeader, r, saw_transfer_encoding)
      | Some (name, value) \<Rightarrow>
        if length (req_headers r) \<ge> kHttpMaximumRequestHeaders
        then (Some ReqTooManyHeaders, r, saw_transfer_encoding)
        else let r = r\<lparr>req_headers := req_headers r @ [(name, value)]\<rparr> in
        if EqualsInsensitive name content_length_name
        then case ParseDecimal value of
            None \<Rightarrow> (Some ReqInvalidContentLength, r, saw_transfer_encoding)
          | Some parsed_length \<Rightarrow>
            if req_has_content_length r \<and> req_content_length r \<noteq> parsed_length
            then (Some ReqConflictingContentLength, r, saw_transfer_encoding)
            else (None, r\<lparr>req_has_content_length := True, req_content_length := parsed_length,
                          content_length_count := Suc (content_length_count r)\<rparr>, saw_transfer_encoding)
        else if EqualsInsensitive name transfer_encoding_name then (None, r, True)
        else (None, r, saw_transfer_encoding))"

text \<open>The checks after the loop; \<open>rest\<close> is what lies between \<open>line\<close> and \<open>end\<close>.\<close>

definition finish_head :: "byte list \<Rightarrow> HttpRequestHead \<Rightarrow> bool \<Rightarrow> HttpRequestParseStatus \<times> HttpRequestHead" where
  "finish_head rest r saw_transfer_encoding =
     (if rest \<noteq> [] then (ReqInvalidHeader, r)
      else if saw_transfer_encoding \<and> req_has_content_length r then (ReqAmbiguousBodyLength, r)
      else if saw_transfer_encoding then (ReqUnsupportedTransferEncoding, r)
      else (ReqComplete, r))"

function parse_headers ::
  "byte list \<Rightarrow> HttpRequestHead \<Rightarrow> bool \<Rightarrow> HttpRequestParseStatus \<times> HttpRequestHead" where
  "parse_headers rest r saw =
     (if rest = [] then finish_head rest r saw
      else case FindCrlf rest of
        None \<Rightarrow> (ReqInvalidHeader, r)
      | Some i \<Rightarrow>
        if i = 0 then finish_head (drop 2 rest) r saw
        else case parse_header_line (take i rest) r saw of
          (Some st, r, saw) \<Rightarrow> (st, r)
        | (None, r, saw) \<Rightarrow> parse_headers (drop (i + 2) rest) r saw)"
  by pat_completeness auto
termination
  by (relation "measure (\<lambda>(rest, r, saw). length rest)") auto

declare parse_headers.simps [simp del]

definition parse_head :: "byte list \<Rightarrow> HttpRequestHead \<Rightarrow> HttpRequestParseStatus \<times> HttpRequestHead" where
  "parse_head bytes r =
     (case FindCrlf bytes of
        None \<Rightarrow> (ReqInvalidRequestLine, r)
      | Some i \<Rightarrow>
        if i = 0 then (ReqInvalidRequestLine, r)
        else case parse_request_line (take i bytes) r of
          (Some st, r) \<Rightarrow> (st, r)
        | (None, r) \<Rightarrow> parse_headers (drop (i + 2) bytes) r False)"

definition ParseCompleteHead :: "HttpRequestParser \<Rightarrow> HttpRequestParser" where
  "ParseCompleteHead p =
     (case parse_head (parser_bytes p) (parser_request p) of
        (st, r) \<Rightarrow> p\<lparr>parser_status := st, parser_request := r\<rparr>)"

definition ends_head :: "byte list \<Rightarrow> bool" where
  "ends_head bytes \<longleftrightarrow>
     length bytes \<ge> 4 \<and> drop (length bytes - 4) bytes = [CR, LF, CR, LF]"

text \<open>The loop of \<open>Feed\<close>, with the count of consumed bytes.\<close>

fun feed_loop :: "byte list \<Rightarrow> nat \<Rightarrow> HttpRequestParser \<Rightarrow> nat \<times> HttpRequestParser" where
  "feed_loop [] consumed p =
     (consumed,
      if length (parser_bytes p) = maximum_header_bytes p then FailRequest ReqHeaderTooLarge p else p)"
| "feed_loop (value # rest) consumed p =
     (if length (parser_bytes p) \<ge> maximum_header_bytes p
      then (consumed, FailRequest ReqHeaderTooLarge p)
      else if value = 0 then (consumed, FailRequest ReqInvalidHeader p)
      else if (previous_was_cr p \<and> value \<noteq> LF) \<or> (\<not> previous_was_cr p \<and> value = LF)
      then (consumed, FailRequest ReqInvalidLineEnding p)
      else let p = p\<lparr>parser_bytes := parser_bytes p @ [value], previous_was_cr := (value = CR)\<rparr> in
        if ends_head (parser_bytes p) then (Suc consumed, ParseCompleteHead p)
        else feed_loop rest (Suc consumed) p)"

definition FeedRequest ::
  "byte list option \<Rightarrow> nat \<Rightarrow> bool \<Rightarrow> HttpRequestParser \<Rightarrow>
   HttpRequestParseStatus \<times> nat \<times> HttpRequestParser" where
  "FeedRequest data n have_consumed p =
     (if \<not> have_consumed \<or> (data = None \<and> n \<noteq> 0) then (ReqInvalidArgument, 0, p)
      else if parser_status p \<noteq> ReqNeedMoreData then (parser_status p, 0, p)
      else case feed_loop (case data of None \<Rightarrow> [] | Some bytes \<Rightarrow> take n bytes) 0 p of
             (consumed, p) \<Rightarrow> (parser_status p, consumed, p))"

section \<open>Feeding in pieces\<close>

lemma parse_request_line_status: "fst (parse_request_line line r) \<noteq> Some ReqNeedMoreData"
  by (simp add: parse_request_line_def Let_def split: option.splits)

lemma parse_header_line_status: "fst (parse_header_line line r saw) \<noteq> Some ReqNeedMoreData"
  by (simp add: parse_header_line_def Let_def split: option.splits prod.splits)

lemma finish_head_status: "fst (finish_head rest r saw) \<noteq> ReqNeedMoreData"
  by (simp add: finish_head_def)

lemma parse_headers_status: "fst (parse_headers rest r saw) \<noteq> ReqNeedMoreData"
proof (induction rest r saw rule: parse_headers.induct)
  case (1 rest r saw)
  then show ?case
    using parse_header_line_status finish_head_status
    by (subst parse_headers.simps) (auto split: option.splits prod.splits; metis fst_conv)
qed

lemma parse_head_status: "fst (parse_head bytes r) \<noteq> ReqNeedMoreData"
  using parse_request_line_status parse_headers_status
  by (auto simp: parse_head_def split: option.splits prod.splits) (metis fst_conv)

lemma ParseCompleteHead_status: "parser_status (ParseCompleteHead p) \<noteq> ReqNeedMoreData"
  using parse_head_status [of "parser_bytes p" "parser_request p"]
  by (simp add: ParseCompleteHead_def case_prod_beta)

lemma FailRequest_simps [simp]:
  "parser_status (FailRequest st p) = st"
  "parser_bytes (FailRequest st p) = parser_bytes p"
  "maximum_header_bytes (FailRequest st p) = maximum_header_bytes p"
  by (simp_all add: FailRequest_def)

lemma ParseCompleteHead_simps [simp]:
  "parser_bytes (ParseCompleteHead p) = parser_bytes p"
  "maximum_header_bytes (ParseCompleteHead p) = maximum_header_bytes p"
  by (simp_all add: ParseCompleteHead_def split: prod.splits)

definition wf_parser :: "HttpRequestParser \<Rightarrow> bool" where
  "wf_parser p \<longleftrightarrow> length (parser_bytes p) \<le> maximum_header_bytes p \<and>
     (parser_status p = ReqNeedMoreData \<longrightarrow> length (parser_bytes p) < maximum_header_bytes p)"

lemma feed_loop_wf:
  "length (parser_bytes p) \<le> maximum_header_bytes p \<Longrightarrow> wf_parser (snd (feed_loop xs n p))"
proof (induction xs arbitrary: n p)
  case Nil
  then show ?case by (simp add: wf_parser_def)
next
  case (Cons x xs)
  then show ?case
    using ParseCompleteHead_status by (auto simp: wf_parser_def Let_def)
qed

lemma feed_loop_full:
  "length (parser_bytes p) = maximum_header_bytes p \<Longrightarrow>
   feed_loop xs n p = (n, FailRequest ReqHeaderTooLarge p)"
  by (cases xs) auto

lemma feed_loop_append:
  assumes "parser_status p = ReqNeedMoreData" and "length (parser_bytes p) < maximum_header_bytes p"
  shows "feed_loop (xs @ ys) n p =
    (case feed_loop xs n p of (m, p') \<Rightarrow>
       if parser_status p' = ReqNeedMoreData then feed_loop ys m p' else (m, p'))"
  using assms
proof (induction xs arbitrary: n p)
  case Nil
  then show ?case by simp
next
  case (Cons x xs)
  let ?p = "p\<lparr>parser_bytes := parser_bytes p @ [x], previous_was_cr := (x = CR)\<rparr>"
  show ?case
  proof (cases "length (parser_bytes ?p) = maximum_header_bytes ?p")
    case True
    from feed_loop_full [OF this] Cons.prems show ?thesis
      using ParseCompleteHead_status by (auto simp: Let_def)
  next
    case False
    with Cons.prems Cons.IH [of ?p "Suc n"] show ?thesis
      using ParseCompleteHead_status by (simp add: Let_def)
  qed
qed

definition request_feed :: "byte list \<Rightarrow> HttpRequestParser \<Rightarrow> HttpRequestParser" where
  "request_feed xs p = snd (snd (FeedRequest (Some xs) (length xs) True p))"

lemma request_feed_eq:
  "request_feed xs p =
    (if parser_status p = ReqNeedMoreData then snd (feed_loop xs 0 p) else p)"
  by (simp add: request_feed_def FeedRequest_def split: prod.splits)

lemma feed_loop_count: "feed_loop xs n p = (n + fst (feed_loop xs 0 p), snd (feed_loop xs 0 p))"
proof (induction xs arbitrary: n p)
  case Nil
  then show ?case by simp
next
  case (Cons x xs)
  let ?p = "p\<lparr>parser_bytes := parser_bytes p @ [x], previous_was_cr := (x = CR)\<rparr>"
  from Cons [of "Suc n" ?p] Cons [of "Suc 0" ?p] show ?case by (simp add: Let_def)
qed

interpretation request_stream: incremental request_feed wf_parser
proof
  fix p assume "wf_parser p"
  then show "request_feed [] p = p" by (auto simp: request_feed_eq wf_parser_def)
next
  fix xs ys p assume wf: "wf_parser p"
  have "wf_parser (request_feed xs p)"
    using wf feed_loop_wf [of p xs 0] by (auto simp: request_feed_eq wf_parser_def)
  moreover have "request_feed (xs @ ys) p = request_feed ys (request_feed xs p)"
  proof (cases "parser_status p = ReqNeedMoreData")
    case True
    with wf have "length (parser_bytes p) < maximum_header_bytes p" by (simp add: wf_parser_def)
    from feed_loop_append [OF True this, of xs ys 0] show ?thesis
      using feed_loop_count [of ys "fst (feed_loop xs 0 p)" "snd (feed_loop xs 0 p)"] True
      by (simp add: request_feed_eq case_prod_beta)
  next
    case False
    then show ?thesis by (simp add: request_feed_eq)
  qed
  ultimately show "wf_parser (request_feed xs p) \<and>
      request_feed (xs @ ys) p = request_feed ys (request_feed xs p)" ..
qed

lemma wf_new_parser: "wf_parser (NewHttpRequestParser maximum)"
  by (auto simp: wf_parser_def NewHttpRequestParser_def kHttpMaximumHeaderBytes_def)

section \<open>What is consumed\<close>

definition store_byte :: "byte \<Rightarrow> HttpRequestParser \<Rightarrow> HttpRequestParser" where
  "store_byte x p = p\<lparr>parser_bytes := parser_bytes p @ [x], previous_was_cr := (x = CR)\<rparr>"

lemma store_byte_simps [simp]:
  "parser_bytes (store_byte x p) = parser_bytes p @ [x]"
  "parser_status (store_byte x p) = parser_status p"
  "parser_request (store_byte x p) = parser_request p"
  "maximum_header_bytes (store_byte x p) = maximum_header_bytes p"
  "previous_was_cr (store_byte x p) = (x = CR)"
  by (simp_all add: store_byte_def)

lemma feed_loop_Cons_cases:
  assumes "feed_loop (x # xs) n p = (m, p')"
  obtains st where "m = n" "p' = FailRequest st p" "st \<noteq> ReqComplete" "st \<noteq> ReqNeedMoreData"
  | "m = Suc n" "p' = ParseCompleteHead (store_byte x p)" "ends_head (parser_bytes p @ [x])"
  | "feed_loop xs (Suc n) (store_byte x p) = (m, p')" "\<not> ends_head (parser_bytes p @ [x])"
proof -
  have "feed_loop (x # xs) n p = (if length (parser_bytes p) \<ge> maximum_header_bytes p
      then (n, FailRequest ReqHeaderTooLarge p)
      else if x = 0 then (n, FailRequest ReqInvalidHeader p)
      else if (previous_was_cr p \<and> x \<noteq> LF) \<or> (\<not> previous_was_cr p \<and> x = LF)
      then (n, FailRequest ReqInvalidLineEnding p)
      else if ends_head (parser_bytes p @ [x]) then (Suc n, ParseCompleteHead (store_byte x p))
      else feed_loop xs (Suc n) (store_byte x p))"
    by (simp add: Let_def store_byte_def)
  note eq = this assms
  consider "length (parser_bytes p) \<ge> maximum_header_bytes p"
    | "\<not> length (parser_bytes p) \<ge> maximum_header_bytes p" "x = 0"
    | "\<not> length (parser_bytes p) \<ge> maximum_header_bytes p" "x \<noteq> 0"
        "(previous_was_cr p \<and> x \<noteq> LF) \<or> (\<not> previous_was_cr p \<and> x = LF)"
    | "\<not> length (parser_bytes p) \<ge> maximum_header_bytes p" "x \<noteq> 0"
        "\<not> ((previous_was_cr p \<and> x \<noteq> LF) \<or> (\<not> previous_was_cr p \<and> x = LF))"
    by blast
  then show ?thesis
  proof cases
    case 1
    with eq show ?thesis by (intro that(1) [of ReqHeaderTooLarge]) simp_all
  next
    case 2
    with eq show ?thesis by (intro that(1) [of ReqInvalidHeader]) simp_all
  next
    case 3
    with eq show ?thesis by (intro that(1) [of ReqInvalidLineEnding]) simp_all
  next
    case 4
    then have "(if ends_head (parser_bytes p @ [x]) then (Suc n, ParseCompleteHead (store_byte x p))
        else feed_loop xs (Suc n) (store_byte x p)) = (m, p')"
      using eq by (simp only: if_False)
    then show ?thesis using that(2,3) by (cases "ends_head (parser_bytes p @ [x])") simp_all
  qed
qed

lemma feed_loop_prefix:
  assumes "feed_loop xs n p = (m, p')"
  shows "n \<le> m \<and> m \<le> n + length xs \<and> parser_bytes p' = parser_bytes p @ take (m - n) xs \<and>
    maximum_header_bytes p' = maximum_header_bytes p"
  using assms
proof (induction xs arbitrary: n p)
  case Nil
  then show ?case by (auto split: if_splits)
next
  case (Cons x xs)
  from Cons.prems show ?case
  proof (cases rule: feed_loop_Cons_cases)
    case 3
    from Cons.IH [OF this(1)] have "Suc n \<le> m" "m \<le> Suc n + length xs"
      and "parser_bytes p' = parser_bytes p @ [x] @ take (m - Suc n) xs"
      and "maximum_header_bytes p' = maximum_header_bytes p" by auto
    moreover from \<open>Suc n \<le> m\<close> have "m - n = Suc (m - Suc n)" by simp
    ultimately show ?thesis by simp
  qed simp_all
qed

lemma feed_loop_status:
  assumes "feed_loop xs n p = (m, p')" and "parser_status p = ReqNeedMoreData"
    and "\<not> ends_head (parser_bytes p)"
  shows "(parser_status p' = ReqComplete \<longrightarrow>
      ends_head (parser_bytes p') \<and> parser_request p' = snd (parse_head (parser_bytes p') (parser_request p)) \<and>
      fst (parse_head (parser_bytes p') (parser_request p)) = ReqComplete) \<and>
    (\<forall>k < m - n. \<not> ends_head (parser_bytes p @ take k xs))"
  using assms
proof (induction xs arbitrary: n p)
  case Nil
  then show ?case by (auto split: if_splits)
next
  case (Cons x xs)
  from Cons.prems(1) show ?case
  proof (cases rule: feed_loop_Cons_cases)
    case (1 st)
    then show ?thesis by simp
  next
    case 2
    then show ?thesis using Cons.prems(3)
      by (simp add: ParseCompleteHead_def case_prod_beta)
  next
    case 3
    from Cons.IH [OF this(1)] Cons.prems(2) 3(2) have
      c: "parser_status p' = ReqComplete \<Longrightarrow> ends_head (parser_bytes p') \<and>
        parser_request p' = snd (parse_head (parser_bytes p') (parser_request p)) \<and>
        fst (parse_head (parser_bytes p') (parser_request p)) = ReqComplete"
      and k: "k < m - Suc n \<Longrightarrow> \<not> ends_head (parser_bytes p @ x # take k xs)" for k by auto
    have "\<not> ends_head (parser_bytes p @ take k (x # xs))" if "k < m - n" for k
      using that k [of "k - 1"] Cons.prems(3) by (cases k) auto
    with c show ?thesis by blast
  qed
qed

section \<open>Well-formed request heads\<close>

definition wf_target :: "byte list \<Rightarrow> bool" where
  "wf_target t \<longleftrightarrow> t \<noteq> [] \<and> hd t = ch CHR ''/'' \<and> list_all (\<lambda>c. \<not> bad_target_byte c) t \<and>
     length t \<le> kHttpMaximumRequestTargetBytes"

definition wf_target_parts :: "HttpRequestHead \<Rightarrow> bool" where
  "wf_target_parts r \<longleftrightarrow> wf_target (raw_target r) \<and> ch CHR ''?'' \<notin> set (raw_path r) \<and>
     raw_target r = raw_path r @ (if has_query r then ch CHR ''?'' # raw_query r else []) \<and>
     (\<not> has_query r \<longrightarrow> raw_query r = [])"

definition length_fields :: "(byte list \<times> byte list) list \<Rightarrow> (byte list \<times> byte list) list" where
  "length_fields fs = filter (\<lambda>f. EqualsInsensitive (fst f) content_length_name) fs"

definition wf_fields :: "(byte list \<times> byte list) list \<Rightarrow> bool" where
  "wf_fields fs \<longleftrightarrow> list_all (\<lambda>f. wf_field f \<and> 0 \<notin> set (fst f)) fs \<and> length fs \<le> kHttpMaximumRequestHeaders"

text \<open>
  The body length is unambiguous: every \<open>Content-Length\<close> field denotes the recorded number.
\<close>

definition wf_framing :: "HttpRequestHead \<Rightarrow> bool" where
  "wf_framing r \<longleftrightarrow>
     (let ls = length_fields (req_headers r) in
      req_has_content_length r = (ls \<noteq> []) \<and> content_length_count r = length ls \<and>
      list_all (\<lambda>f. ParseDecimal (snd f) = Some (req_content_length r)) ls \<and>
      (ls = [] \<longrightarrow> req_content_length r = 0))"

definition no_transfer_encoding :: "(byte list \<times> byte list) list \<Rightarrow> bool" where
  "no_transfer_encoding fs \<longleftrightarrow> list_all (\<lambda>f. \<not> EqualsInsensitive (fst f) transfer_encoding_name) fs"

definition wf_request :: "HttpRequestHead \<Rightarrow> bool" where
  "wf_request r \<longleftrightarrow> wf_target_parts r \<and> wf_fields (req_headers r) \<and> wf_framing r \<and>
     no_transfer_encoding (req_headers r)"

lemma framing_names_differ:
  "EqualsInsensitive n content_length_name \<Longrightarrow> \<not> EqualsInsensitive n transfer_encoding_name"
  by (auto simp: EqualsInsensitive_def content_length_name_def transfer_encoding_name_def)

lemma parse_request_line_sound:
  assumes "parse_request_line line r = (None, r')"
  shows "wf_target_parts r' \<and> req_headers r' = req_headers r \<and>
    req_has_content_length r' = req_has_content_length r \<and>
    req_content_length r' = req_content_length r \<and> content_length_count r' = content_length_count r"
proof -
  obtain i where i: "index_of (\<lambda>c. c = SP) line = Some i"
    using assms by (auto simp: parse_request_line_def split: option.split_asm)
  let ?after = "drop (Suc i) line"
  obtain j where j: "index_of (\<lambda>c. c = SP) ?after = Some j"
    using assms i by (auto simp: parse_request_line_def Let_def split: option.split_asm if_split_asm)
  obtain m where m: "ParseMethod (take i line) = Some m"
    using assms i j by (auto simp: parse_request_line_def Let_def split: option.split_asm if_split_asm)
  define target where "target = take j ?after"
  have t: "target \<noteq> []" "target ! 0 = ch CHR ''/''" "list_all (\<lambda>c. \<not> bad_target_byte c) target"
      "length target \<le> kHttpMaximumRequestTargetBytes"
    and r': "r' = (case index_of (\<lambda>c. c = ch CHR ''?'') target of
        None \<Rightarrow> r\<lparr>req_method := m, raw_target := target, raw_path := target, raw_query := [], has_query := False\<rparr>
      | Some q \<Rightarrow> r\<lparr>req_method := m, raw_target := target, raw_path := take q target,
                    raw_query := drop (Suc q) target, has_query := True\<rparr>)"
    using assms
    by (simp_all add: parse_request_line_def Let_def i j m target_def [symmetric] split: if_split_asm)
  show ?thesis
  proof (cases "index_of (\<lambda>c. c = ch CHR ''?'') target")
    case None
    then have "ch CHR ''?'' \<notin> set target" by (simp add: index_of_eq_None)
    then show ?thesis using t r'
      by (simp add: None wf_target_parts_def wf_target_def hd_conv_nth)
  next
    case (Some q)
    from index_of_SomeD [OF Some] index_of_split [OF Some] have
      "target = take q target @ ch CHR ''?'' # drop (Suc q) target"
      "ch CHR ''?'' \<notin> set (take q target)" by (auto simp: list_all_iff)
    then show ?thesis using t r' Some
      by (simp add: wf_target_parts_def wf_target_def hd_conv_nth)
  qed
qed

lemma split_header_line_name: "split_header_line line = Some (n, v) \<Longrightarrow> set n \<subseteq> set line"
  by (auto simp: split_header_line_def Let_def dest: in_set_takeD split: if_splits option.splits)

definition head_inv :: "HttpRequestHead \<Rightarrow> bool \<Rightarrow> bool" where
  "head_inv r saw \<longleftrightarrow> wf_target_parts r \<and> wf_fields (req_headers r) \<and> wf_framing r \<and>
     saw = (\<not> no_transfer_encoding (req_headers r))"

lemma parse_header_line_sound:
  assumes "parse_header_line line r saw = (None, r', saw')" and "head_inv r saw" and "0 \<notin> set line"
  shows "head_inv r' saw'"
proof -
  from assms(1) obtain n v where sp: "split_header_line line = Some (n, v)"
    by (auto simp: parse_header_line_def split: option.splits)
  from split_header_line_wf [OF sp] split_header_line_name [OF sp] assms(3)
  have f: "wf_field (n, v)" "0 \<notin> set n" by auto
  from assms(1) sp have len: "length (req_headers r) < kHttpMaximumRequestHeaders"
    by (auto simp: parse_header_line_def not_le split: if_splits)
  have fields: "wf_fields (req_headers r @ [(n, v)])"
    using f len assms(2) by (simp add: wf_fields_def head_inv_def)
  show ?thesis
  proof (cases "EqualsInsensitive n content_length_name")
    case True
    with assms(1) sp len obtain k where k: "ParseDecimal v = Some k"
      "req_has_content_length r \<longrightarrow> req_content_length r = k" "saw' = saw"
      "r' = r\<lparr>req_headers := req_headers r @ [(n, v)], req_has_content_length := True,
              req_content_length := k, content_length_count := Suc (content_length_count r)\<rparr>"
      by (auto simp: parse_header_line_def Let_def split: option.splits if_splits)
    with True fields assms(2) framing_names_differ [OF True] show ?thesis
      by (auto simp: head_inv_def wf_target_parts_def wf_framing_def length_fields_def Let_def
          no_transfer_encoding_def)
  next
    case False
    with assms(1) sp len have
      "r' = r\<lparr>req_headers := req_headers r @ [(n, v)]\<rparr>"
      "saw' = (saw \<or> EqualsInsensitive n transfer_encoding_name)"
      by (auto simp: parse_header_line_def Let_def split: if_splits)
    with False fields assms(2) show ?thesis
      by (auto simp: head_inv_def wf_target_parts_def wf_framing_def length_fields_def Let_def
          no_transfer_encoding_def)
  qed
qed

lemma finish_head_sound:
  "finish_head rest r saw = (ReqComplete, r') \<Longrightarrow> head_inv r saw \<Longrightarrow> wf_request r'"
  by (auto simp: finish_head_def head_inv_def wf_request_def split: if_splits)

lemma parse_headers_sound:
  "parse_headers rest r saw = (ReqComplete, r') \<Longrightarrow> head_inv r saw \<Longrightarrow> 0 \<notin> set rest \<Longrightarrow> wf_request r'"
proof (induction rest r saw rule: parse_headers.induct)
  case (1 rest r saw)
  show ?case
  proof (cases "rest = [] \<or> FindCrlf rest = Some 0")
    case True
    with "1.prems" show ?thesis
      by (subst (asm) parse_headers.simps) (auto intro: finish_head_sound split: if_splits)
  next
    case False
    with "1.prems"(1) obtain i where i: "FindCrlf rest = Some i" "i \<noteq> 0"
      by (subst (asm) parse_headers.simps) (auto split: option.splits)
    obtain st r1 saw1 where line: "parse_header_line (take i rest) r saw = (st, r1, saw1)"
      by (metis prod_cases3)
    show ?thesis
    proof (cases st)
      case None
      have "parse_headers (drop (i + 2) rest) r1 saw1 = (ReqComplete, r')"
        using "1.prems"(1) False i line None by (subst (asm) parse_headers.simps) simp
      moreover have "head_inv r1 saw1"
        using parse_header_line_sound line None "1.prems"(2,3) by (metis in_set_takeD)
      moreover have "0 \<notin> set (drop (i + 2) rest)" using "1.prems"(3) by (meson in_set_dropD)
      ultimately show ?thesis
        using "1.IH" [OF _ i(1) i(2)] False line None by auto
    next
      case (Some st')
      then have "st' = ReqComplete"
        using "1.prems"(1) False i line by (subst (asm) parse_headers.simps) simp
      with line Some have "fst (parse_header_line (take i rest) r saw) = Some ReqComplete" by simp
      then have False
        by (simp add: parse_header_line_def Let_def split: option.splits prod.splits if_splits)
      then show ?thesis ..
    qed
  qed
qed

lemma parse_head_sound:
  assumes "parse_head bytes empty_head = (ReqComplete, r')" and "0 \<notin> set bytes"
  shows "wf_request r'"
proof -
  from assms(1) obtain i st r1 where i: "FindCrlf bytes = Some i"
    and l: "parse_request_line (take i bytes) empty_head = (st, r1)"
    and rest: "(case st of Some st' \<Rightarrow> (st', r1) | None \<Rightarrow> parse_headers (drop (i + 2) bytes) r1 False) =
      (ReqComplete, r')"
    by (auto simp: parse_head_def split: option.splits prod.splits if_splits)
  have "st \<noteq> Some ReqComplete"
    using l by (auto simp: parse_request_line_def Let_def split: option.splits if_splits)
  with rest have "st = None" and rest: "parse_headers (drop (i + 2) bytes) r1 False = (ReqComplete, r')"
    by (auto split: option.splits)
  from parse_request_line_sound [OF l [unfolded \<open>st = None\<close>]] have "head_inv r1 False"
    by (auto simp: head_inv_def empty_head_def wf_fields_def wf_framing_def length_fields_def
        no_transfer_encoding_def)
  then show ?thesis using parse_headers_sound [OF rest] assms(2) by (meson in_set_dropD)
qed

section \<open>Printing and reading back\<close>

definition render_line :: "byte list \<Rightarrow> byte list" where
  "render_line l = l @ [CR, LF]"

definition request_line :: "HttpRequestHead \<Rightarrow> byte list" where
  "request_line r = HttpMethodName (req_method r) @ SP # raw_target r @ SP # bytes_of ''HTTP/1.1''"

definition render_request :: "HttpRequestHead \<Rightarrow> byte list" where
  "render_request r =
     concat (map render_line (request_line r # map render_field (req_headers r))) @ [CR, LF]"

lemma FindCrlf_line: "CR \<notin> set l \<Longrightarrow> FindCrlf (l @ CR # LF # rest) = Some (length l)"
proof (induction l)
  case Nil
  then show ?case by simp
next
  case (Cons a l)
  then have "FindCrlf (l @ CR # LF # rest) = Some (length l)" by simp
  moreover obtain b cs where "l @ CR # LF # rest = b # cs" by (cases l) auto
  ultimately show ?case using Cons.prems by auto
qed

lemma method_name_clean: "c \<in> set (HttpMethodName m) \<Longrightarrow> c \<noteq> SP \<and> c \<noteq> CR \<and> c \<noteq> LF \<and> c \<noteq> 0"
  by (cases m) (auto simp: HttpMethodName_def bmx_chars)

lemma ParseMethod_name: "ParseMethod (HttpMethodName m) = Some m"
  by (cases m) (simp_all add: ParseMethod_def HttpMethodName_def)

lemma HttpMethodName_not_Nil: "HttpMethodName m \<noteq> []"
  by (cases m) (simp_all add: HttpMethodName_def)

lemma target_clean: "wf_target t \<Longrightarrow> c \<in> set t \<Longrightarrow> c \<noteq> SP \<and> c \<noteq> CR \<and> c \<noteq> LF \<and> c \<noteq> 0"
  by (auto simp: wf_target_def list_all_iff bad_target_byte_def)

lemma version_clean:
  "c \<in> set (bytes_of ''HTTP/1.1'') \<Longrightarrow> c \<noteq> SP \<and> c \<noteq> CR \<and> c \<noteq> LF \<and> c \<noteq> 0"
  by (auto simp: bmx_chars)

lemma index_of_SP: "SP \<notin> set a \<Longrightarrow> index_of (\<lambda>c. c = SP) (a @ SP # b) = Some (length a)"
  by (simp add: index_of_eq_append)

lemma parse_request_line_render:
  assumes "wf_target_parts r"
  shows "parse_request_line (request_line r) empty_head =
    (None, empty_head\<lparr>req_method := req_method r, raw_target := raw_target r, raw_path := raw_path r,
       raw_query := raw_query r, has_query := has_query r\<rparr>)"
proof -
  let ?m = "HttpMethodName (req_method r)" and ?v = "bytes_of ''HTTP/1.1''"
  from assms have t: "wf_target (raw_target r)" unfolding wf_target_parts_def by blast
  have i: "index_of (\<lambda>c. c = SP) (request_line r) = Some (length ?m)"
    unfolding request_line_def by (rule index_of_SP) (use method_name_clean in blast)
  have j: "index_of (\<lambda>c. c = SP) (raw_target r @ SP # ?v) = Some (length (raw_target r))"
    by (rule index_of_SP) (use target_clean [OF t] in blast)
  have v: "index_of (\<lambda>c. c = SP) ?v = None"
    unfolding index_of_eq_None using version_clean by blast
  have q: "index_of (\<lambda>c. c = ch CHR ''?'') (raw_target r) =
      (if has_query r then Some (length (raw_path r)) else None)"
    using assms by (auto simp: wf_target_parts_def index_of_eq_append index_of_eq_None)
  have parts: "has_query r \<Longrightarrow> take (length (raw_path r)) (raw_target r) = raw_path r"
    "has_query r \<Longrightarrow> drop (Suc (length (raw_path r))) (raw_target r) = raw_query r"
    "\<not> has_query r \<Longrightarrow> raw_path r = raw_target r" "\<not> has_query r \<Longrightarrow> raw_query r = []"
    using assms by (auto simp: wf_target_parts_def)
  have "drop (Suc (length ?m)) (request_line r) = raw_target r @ SP # ?v"
    "take (length ?m) (request_line r) = ?m" by (simp_all add: request_line_def)
  moreover have "raw_target r ! 0 = ch CHR ''/''" using t by (auto simp: wf_target_def hd_conv_nth)
  moreover have "?v \<noteq> []" by simp
  ultimately show ?thesis
    using t unfolding parse_request_line_def Let_def i option.case
    by (simp add: j v ParseMethod_name HttpMethodName_not_Nil wf_target_def q parts
        del: bytes_of_Cons)
qed

text \<open>
  The head as far as it is built once the fields \<open>done\<close> are read.
\<close>

definition partial_head :: "HttpRequestHead \<Rightarrow> (byte list \<times> byte list) list \<Rightarrow> HttpRequestHead" where
  "partial_head r fs =
     r\<lparr>req_headers := fs, req_has_content_length := (length_fields fs \<noteq> []),
       req_content_length := (if length_fields fs = [] then 0 else req_content_length r),
       content_length_count := length (length_fields fs)\<rparr>"

lemma parse_header_line_render:
  assumes "wf_request r" and "req_headers r = done @ f # todo"
  shows "parse_header_line (render_field f) (partial_head r done) False =
    (None, partial_head r (done @ [f]), False)"
proof -
  obtain n v where f: "f = (n, v)" by (cases f)
  have sp: "split_header_line (render_field (n, v)) = Some (n, v)"
    using assms f split_render_field by (auto simp: wf_request_def wf_fields_def)
  have len: "length done < kHttpMaximumRequestHeaders"
    using assms by (auto simp: wf_request_def wf_fields_def)
  have te: "\<not> EqualsInsensitive n transfer_encoding_name"
    using assms f by (auto simp: wf_request_def no_transfer_encoding_def)
  show ?thesis
  proof (cases "EqualsInsensitive n content_length_name")
    case True
    then have "ParseDecimal v = Some (req_content_length r)"
      using assms f by (auto simp: wf_request_def wf_framing_def length_fields_def Let_def)
    with True sp len show ?thesis
      by (simp add: f parse_header_line_def partial_head_def length_fields_def Let_def)
  next
    case False
    with te sp len show ?thesis
      by (simp add: f parse_header_line_def partial_head_def length_fields_def Let_def)
  qed
qed

lemma render_field_not_Nil [simp]: "render_field f \<noteq> []"
  by (simp add: render_field_def)

lemma parse_headers_render:
  "wf_request r \<Longrightarrow> req_headers r = done @ todo \<Longrightarrow>
   parse_headers (concat (map (render_line \<circ> render_field) todo) @ [CR, LF]) (partial_head r done) False =
     (ReqComplete, r)"
proof (induction todo arbitrary: "done")
  case Nil
  have "partial_head r done = r"
    using Nil by (auto simp: partial_head_def wf_request_def wf_framing_def Let_def)
  then show ?case by (simp add: parse_headers.simps finish_head_def)
next
  case (Cons f todo)
  let ?rest = "concat (map (render_line \<circ> render_field) todo) @ [CR, LF]"
  have "CR \<notin> set (render_field f)"
    using Cons.prems render_field_clean [of f] by (auto simp: wf_request_def wf_fields_def)
  then have crlf: "FindCrlf (render_field f @ CR # LF # ?rest) = Some (length (render_field f))"
    by (rule FindCrlf_line)
  have "parse_headers (render_field f @ CR # LF # ?rest) (partial_head r done) False =
      parse_headers ?rest (partial_head r (done @ [f])) False"
    using parse_header_line_render [OF Cons.prems] crlf
    by (subst parse_headers.simps) simp
  with Cons.IH [of "done @ [f]"] Cons.prems show ?case by (simp add: render_line_def comp_def)
qed

lemma parse_head_render:
  assumes "wf_request r"
  shows "parse_head (render_request r) empty_head = (ReqComplete, r)"
proof -
  let ?rest = "concat (map (render_line \<circ> render_field) (req_headers r)) @ [CR, LF]"
  from assms have t: "wf_target_parts r" "wf_target (raw_target r)"
    unfolding wf_request_def wf_target_parts_def by blast+
  have bytes: "render_request r = request_line r @ CR # LF # ?rest"
    by (simp add: render_request_def render_line_def comp_def)
  have "CR \<notin> set (request_line r)"
    using method_name_clean target_clean [OF t(2)] version_clean by (auto simp: request_line_def)
  then have crlf: "FindCrlf (render_request r) = Some (length (request_line r))"
    unfolding bytes by (rule FindCrlf_line)
  have start: "empty_head\<lparr>req_method := req_method r, raw_target := raw_target r, raw_path := raw_path r,
       raw_query := raw_query r, has_query := has_query r\<rparr> = partial_head r []"
    by (simp add: empty_head_def partial_head_def length_fields_def)
  have "take (length (request_line r)) (render_request r) = request_line r"
    "drop (length (request_line r) + 2) (render_request r) = ?rest" "length (request_line r) \<noteq> 0"
    by (simp_all add: bytes) (simp add: request_line_def)
  then show ?thesis
    using parse_headers_render [OF assms, of "[]" "req_headers r"]
    by (simp add: parse_head_def crlf parse_request_line_render [OF t(1)] start)
qed

section \<open>Feeding a printed head\<close>

lemma feed_loop_Cons:
  assumes "length (parser_bytes p) < maximum_header_bytes p" and "x \<noteq> 0"
    and "previous_was_cr p = (x = LF)" and "\<not> ends_head (parser_bytes p @ [x])"
  shows "feed_loop (x # xs) n p = feed_loop xs (Suc n) (store_byte x p)"
  using assms by (simp add: Let_def store_byte_def)

lemma ends_head_snoc: "ends_head (b @ [x]) \<Longrightarrow> x = LF \<and> (\<exists>a. b = a @ [CR, LF, CR])"
proof -
  assume "ends_head (b @ [x])"
  then have "b @ [x] = take (length (b @ [x]) - 4) (b @ [x]) @ [CR, LF, CR, LF]"
    unfolding ends_head_def by (metis append_take_drop_id)
  then have "b @ [x] = (take (length (b @ [x]) - 4) (b @ [x]) @ [CR, LF, CR]) @ [LF]" by simp
  then show ?thesis unfolding append1_eq_conv by blast
qed

lemma ends_head_append: "ends_head (b @ [CR, LF, CR, LF])"
  by (simp add: ends_head_def)

text \<open>A line without CR, LF and NUL is stored.\<close>

lemma feed_loop_clean:
  "list_all (\<lambda>c. c \<noteq> CR \<and> c \<noteq> LF \<and> c \<noteq> 0) l \<Longrightarrow> \<not> previous_was_cr p \<Longrightarrow>
   length (parser_bytes p) + length l \<le> maximum_header_bytes p \<Longrightarrow>
   feed_loop (l @ rest) n p =
     feed_loop rest (n + length l) (p\<lparr>parser_bytes := parser_bytes p @ l, previous_was_cr := False\<rparr>)"
proof (induction l arbitrary: n p)
  case Nil
  then have "p\<lparr>parser_bytes := parser_bytes p @ [], previous_was_cr := False\<rparr> = p" by (cases p) simp
  then show ?case by simp
next
  case (Cons x l)
  have "feed_loop ((x # l) @ rest) n p = feed_loop (l @ rest) (Suc n) (store_byte x p)"
    using Cons.prems by (subst append_Cons, intro feed_loop_Cons) (auto dest: ends_head_snoc)
  with Cons.IH [of "store_byte x p" "Suc n"] Cons.prems show ?case
    by (simp add: store_byte_def)
qed

lemma feed_loop_crlf:
  assumes "\<not> previous_was_cr p" and "length (parser_bytes p) + 2 \<le> maximum_header_bytes p"
  shows "feed_loop (CR # LF # rest) n p =
    (let p' = p\<lparr>parser_bytes := parser_bytes p @ [CR, LF], previous_was_cr := False\<rparr> in
     if ends_head (parser_bytes p @ [CR, LF]) then (n + 2, ParseCompleteHead p') else feed_loop rest (n + 2) p')"
proof -
  have "\<not> ends_head (parser_bytes p @ [CR])" by (auto dest: ends_head_snoc)
  then show ?thesis using assms by (simp add: Let_def)
qed

lemma feed_loop_lines:
  assumes "list_all (\<lambda>l. l \<noteq> [] \<and> list_all (\<lambda>c. c \<noteq> CR \<and> c \<noteq> LF \<and> c \<noteq> 0) l) ls"
    and "\<not> previous_was_cr p"
    and "length (parser_bytes p) + length (concat (map render_line ls)) + 2 \<le> maximum_header_bytes p"
    and "if ls = [] then \<exists>b. parser_bytes p = b @ [CR, LF] else True"
  shows "feed_loop (concat (map render_line ls) @ CR # LF # body) n p =
    (n + length (concat (map render_line ls)) + 2,
     ParseCompleteHead (p\<lparr>parser_bytes := parser_bytes p @ concat (map render_line ls) @ [CR, LF],
                          previous_was_cr := False\<rparr>))"
  using assms
proof (induction ls arbitrary: n p)
  case Nil
  then obtain b where b: "parser_bytes p = b @ [CR, LF]" by auto
  then have "ends_head (parser_bytes p @ [CR, LF])" using ends_head_append [of b] by simp
  with feed_loop_crlf [of p body n] Nil show ?case by (simp add: Let_def)
next
  case (Cons l ls)
  let ?rest = "concat (map render_line ls) @ CR # LF # body"
  let ?p1 = "p\<lparr>parser_bytes := parser_bytes p @ l, previous_was_cr := False\<rparr>"
  let ?p2 = "p\<lparr>parser_bytes := parser_bytes p @ l @ [CR, LF], previous_was_cr := False\<rparr>"
  have l: "l \<noteq> []" "list_all (\<lambda>c. c \<noteq> CR \<and> c \<noteq> LF \<and> c \<noteq> 0) l" using Cons.prems(1) by auto
  have len: "length (parser_bytes p) + length l + 2 \<le> maximum_header_bytes p"
    using Cons.prems(3) by (simp add: render_line_def)
  have no: "\<not> ends_head ((parser_bytes p @ l) @ [CR, LF])"
  proof
    assume "ends_head ((parser_bytes p @ l) @ [CR, LF])"
    then obtain a where "parser_bytes p @ l @ [CR] = a @ [CR, LF, CR]"
      using ends_head_snoc [of "parser_bytes p @ l @ [CR]" LF] by auto
    then have "(parser_bytes p @ l) @ [CR] = (a @ [CR, LF]) @ [CR]" by simp
    then have "parser_bytes p @ l = (a @ [CR]) @ [LF]" unfolding append1_eq_conv by simp
    then have "last (parser_bytes p @ l) = LF" by (simp only: last_snoc)
    then have "last l = LF" using l(1) by simp
    moreover have "last l \<in> set l" using l(1) by simp
    ultimately show False using l(2) by (auto simp: list_all_iff)
  qed
  have "feed_loop (l @ CR # LF # ?rest) n p = feed_loop (CR # LF # ?rest) (n + length l) ?p1"
    using feed_loop_clean [OF l(2) Cons.prems(2)] len by simp
  also have "\<dots> = feed_loop ?rest (n + length l + 2) ?p2"
    using feed_loop_crlf [of ?p1 ?rest "n + length l"] len no by (simp add: Let_def)
  also have "\<dots> = (n + length l + 2 + length (concat (map render_line ls)) + 2,
     ParseCompleteHead (?p2\<lparr>parser_bytes := parser_bytes ?p2 @ concat (map render_line ls) @ [CR, LF],
                            previous_was_cr := False\<rparr>))"
    using Cons.prems by (intro Cons.IH) (auto simp: render_line_def)
  finally show ?case by (simp add: render_line_def [of l] add.assoc)
qed

lemma feed_loop_no_nul:
  "0 \<notin> set (parser_bytes p) \<Longrightarrow> feed_loop xs n p = (m, p') \<Longrightarrow> 0 \<notin> set (parser_bytes p')"
proof (induction xs arbitrary: n p)
  case Nil
  then show ?case by (auto split: if_splits)
next
  case (Cons x xs)
  show ?case
  proof (cases "x = 0")
    case True
    with Cons.prems show ?thesis by (auto split: if_splits)
  next
    case False
    from Cons.prems(2) show ?thesis
    proof (cases rule: feed_loop_Cons_cases)
      case 3
      with Cons.IH [of "store_byte x p" "Suc n"] Cons.prems(1) False show ?thesis by simp
    qed (use Cons.prems(1) False in simp_all)
  qed
qed

lemma feed_complete:
  assumes "FeedRequest (Some data) (length data) True (NewHttpRequestParser maximum) = (ReqComplete, n, p)"
  shows "feed_loop data 0 (NewHttpRequestParser maximum) = (n, p)" and "parser_status p = ReqComplete"
  using assms by (auto simp: FeedRequest_def NewHttpRequestParser_def split: prod.splits if_splits)

lemma new_parser_simps [simp]:
  "parser_bytes (NewHttpRequestParser k) = []"
  "parser_status (NewHttpRequestParser k) = ReqNeedMoreData"
  "parser_request (NewHttpRequestParser k) = empty_head"
  "previous_was_cr (NewHttpRequestParser k) = False"
  "maximum_header_bytes (NewHttpRequestParser k) =
     (if k = 0 \<or> k > kHttpMaximumHeaderBytes then kHttpMaximumHeaderBytes else k)"
  by (simp_all add: NewHttpRequestParser_def)

section \<open>Properties\<close>

definition sample_request :: HttpRequestHead where
  "sample_request = empty_head\<lparr>req_method := Post, raw_target := bytes_of ''/a?b'',
     raw_path := bytes_of ''/a'', raw_query := bytes_of ''b'', has_query := True,
     req_headers := [(bytes_of ''content-length'', bytes_of ''12'')],
     req_has_content_length := True, req_content_length := 12, content_length_count := 1\<rparr>"

definition sample_bytes :: "byte list" where
  "sample_bytes = bytes_of ''POST /a?b HTTP/1.1'' @ [CR, LF] @ bytes_of ''content-length: 12'' @
     [CR, LF, CR, LF] @ bytes_of ''body''"

lemma sample_request_feed:
  "\<exists>n p. FeedRequest (Some sample_bytes) (length sample_bytes) True (NewHttpRequestParser 60) =
     (ReqComplete, n, p)"
proof -
  have "fst (FeedRequest (Some sample_bytes) (length sample_bytes) True (NewHttpRequestParser 60)) = ReqComplete"
    by code_simp
  then show ?thesis by (metis prod.collapse)
qed

text \<open>
  C29: however the network cuts the bytes of a connection into pieces, the parser ends in the
  same state as if they had come in one call: status, buffered head and parsed request.
\<close>

theorem request_feed_repartition:
  assumes "concat ps = concat qs"
  shows "fold request_feed ps (NewHttpRequestParser maximum) =
    fold request_feed qs (NewHttpRequestParser maximum)"
proof (rule request_stream.feed_repartition)
  let ?p = "NewHttpRequestParser maximum"
  show "wf_parser ?p" by (rule wf_new_parser)
  then show "wf_parser (request_feed (concat ps) ?p)"
    using feed_loop_wf [of ?p "concat ps" 0] by (simp add: request_feed_eq wf_parser_def)
qed (rule assms)

theorem request_feed_repartition_witness:
  "fold request_feed [[71, 69], [84]] (NewHttpRequestParser 0) =
   fold request_feed [[71], [], [69, 84]] (NewHttpRequestParser 0)"
  by (rule request_feed_repartition) simp

text \<open>
  When a head is complete, the parser consumed exactly the bytes up to and including the
  first empty line, at most the configured maximum, and left the first bytes of the body to its
  caller.
\<close>

lemma request_consumed_through_empty_line:
  assumes "FeedRequest (Some data) (length data) True (NewHttpRequestParser maximum) = (ReqComplete, n, p)"
  shows "n \<le> length data \<and> n \<le> maximum_header_bytes p \<and> maximum_header_bytes p \<le> kHttpMaximumHeaderBytes \<and>
    parser_bytes p = take n data \<and> ends_head (take n data) \<and>
    (\<forall>k < n. \<not> ends_head (take k data))"
proof -
  note f = feed_complete [OF assms]
  from feed_loop_prefix [OF f(1)] have n: "n \<le> length data" "parser_bytes p = take n data"
    and m: "maximum_header_bytes p = maximum_header_bytes (NewHttpRequestParser maximum)" by auto
  have "wf_parser p" using feed_loop_wf [of "NewHttpRequestParser maximum" data 0] f(1) by simp
  then have "n \<le> maximum_header_bytes p" using n by (simp add: wf_parser_def min_absorb2)
  moreover have "\<not> ends_head []" by (simp add: ends_head_def)
  ultimately show ?thesis
    using feed_loop_status [OF f(1)] f(2) n m by (auto simp: kHttpMaximumHeaderBytes_def)
qed

lemma request_consumed_through_empty_line_witness:
  "\<exists>n p. FeedRequest (Some sample_bytes) (length sample_bytes) True (NewHttpRequestParser 60) =
     (ReqComplete, n, p) \<and> parser_bytes p = take n sample_bytes \<and> ends_head (take n sample_bytes)"
  using request_consumed_through_empty_line sample_request_feed by blast

text \<open>
  C20: a head the parser completes is well formed: the target is an absolute path of visible
  characters split at its first question mark, at most sixty-four fields have token names and
  clean values, no \<open>Transfer-Encoding\<close> occurs, and every \<open>Content-Length\<close> field denotes the one
  recorded 64-bit length, so that the body that follows has one possible extent.
\<close>

theorem completed_request_well_formed:
  assumes "FeedRequest (Some data) (length data) True (NewHttpRequestParser maximum) = (ReqComplete, n, p)"
  shows "wf_request (parser_request p)"
proof -
  note f = feed_complete [OF assms]
  have "\<not> ends_head []" by (simp add: ends_head_def)
  with feed_loop_status [OF f(1)] f(2)
  have "parse_head (parser_bytes p) empty_head = (ReqComplete, parser_request p)"
    by (simp add: prod_eq_iff)
  moreover have "0 \<notin> set (parser_bytes p)" using feed_loop_no_nul [OF _ f(1)] by simp
  ultimately show ?thesis by (rule parse_head_sound)
qed

theorem completed_request_well_formed_witness:
  "\<exists>n p. FeedRequest (Some sample_bytes) (length sample_bytes) True (NewHttpRequestParser 60) =
     (ReqComplete, n, p) \<and> wf_request (parser_request p)"
  using completed_request_well_formed sample_request_feed by blast

text \<open>
  C15: every well-formed request head is accepted and read back.  Printed and followed by any
  body bytes it is complete after exactly its own length, and the parsed request is the printed
  one, provided it fits the parser's limit.
\<close>

theorem request_roundtrip:
  assumes "wf_request r" and "length (render_request r) \<le> maximum" and "maximum \<le> kHttpMaximumHeaderBytes"
  shows "\<exists>p. FeedRequest (Some (render_request r @ body)) (length (render_request r @ body)) True
      (NewHttpRequestParser maximum) = (ReqComplete, length (render_request r), p) \<and> parser_request p = r"
proof -
  let ?ls = "request_line r # map render_field (req_headers r)"
  let ?p = "NewHttpRequestParser maximum"
  from assms(1) have t: "wf_target (raw_target r)" unfolding wf_request_def wf_target_parts_def by blast
  have line: "list_all (\<lambda>c. c \<noteq> CR \<and> c \<noteq> LF \<and> c \<noteq> 0) (request_line r)" "request_line r \<noteq> []"
    using method_name_clean target_clean [OF t] version_clean
    by (auto simp: request_line_def list_all_iff simp del: bytes_of_Cons)
  have "list_all (\<lambda>c. c \<noteq> CR \<and> c \<noteq> LF \<and> c \<noteq> 0) (render_field f)" if "f \<in> set (req_headers r)" for f
  proof -
    from that assms(1) have "wf_field f" "0 \<notin> set (fst f)"
      by (auto simp: wf_request_def wf_fields_def list_all_iff)
    then show ?thesis using render_field_clean [of f] value_not_control
      by (auto simp: list_all_iff render_field_def wf_field_def ch_def)
  qed
  then have lines: "list_all (\<lambda>l. l \<noteq> [] \<and> list_all (\<lambda>c. c \<noteq> CR \<and> c \<noteq> LF \<and> c \<noteq> 0) l) ?ls"
    using line by (auto simp: list_all_iff)
  have bytes: "render_request r = concat (map render_line ?ls) @ [CR, LF]"
    by (simp add: render_request_def)
  have max: "maximum_header_bytes ?p = maximum" using assms(2,3) by (simp add: bytes)
  have "feed_loop (concat (map render_line ?ls) @ CR # LF # body) 0 ?p =
      (0 + length (concat (map render_line ?ls)) + 2,
       ParseCompleteHead (?p\<lparr>parser_bytes := parser_bytes ?p @ concat (map render_line ?ls) @ [CR, LF],
                             previous_was_cr := False\<rparr>))"
    using assms(2) by (intro feed_loop_lines [OF lines]) (simp_all only: max bytes, simp_all)
  then have feed: "feed_loop (render_request r @ body) 0 ?p = (length (render_request r),
      ParseCompleteHead (?p\<lparr>parser_bytes := render_request r, previous_was_cr := False\<rparr>))"
    unfolding bytes by simp
  have "ParseCompleteHead (?p\<lparr>parser_bytes := render_request r, previous_was_cr := False\<rparr>) =
      ?p\<lparr>parser_bytes := render_request r, previous_was_cr := False, parser_status := ReqComplete,
         parser_request := r\<rparr>"
    by (simp add: ParseCompleteHead_def parse_head_render [OF assms(1)])
  with feed show ?thesis by (simp add: FeedRequest_def)
qed

theorem request_roundtrip_witness:
  "\<exists>p. FeedRequest (Some (render_request sample_request @ [1, 2])) (length (render_request sample_request @ [1, 2]))
     True (NewHttpRequestParser 8192) = (ReqComplete, length (render_request sample_request), p) \<and>
     parser_request p = sample_request"
proof (rule request_roundtrip)
  show "wf_request sample_request" by code_simp
  show "length (render_request sample_request) \<le> 8192" by code_simp
  show "8192 \<le> kHttpMaximumHeaderBytes" by (simp add: kHttpMaximumHeaderBytes_def)
qed

end
