(* ===== verification/Http_Response.thy ===== *)
theory Http_Response
  imports Http_Common
begin

text \<open>
  The head of an HTTP response as the updater reads it, first half of
  \<open>src/src/update/http_response_parser.cpp\<close>.  \<open>ParseHttpResponseHead\<close> is called again with a
  longer prefix of the stream until it no longer asks for more data; the model takes that prefix
  as a byte list and returns the status with the two output objects.  \<open>location\<close> and
  \<open>content_type\<close> are the bytes copied in front of the terminating NUL.
\<close>

section \<open>Data\<close>

definition kMaximumHttpHeaderBytes :: nat where "kMaximumHttpHeaderBytes = 32768"
definition kMaximumHttpLocationBytes :: nat where "kMaximumHttpLocationBytes = 2048"
definition kMaximumHttpContentTypeBytes :: nat where "kMaximumHttpContentTypeBytes = 96"

datatype HttpParseStatus =
    HeadOk | HeadNeedMoreData | HeadInvalidArgument | HeadHeaderTooLarge | HeadInvalidStatusLine
  | HeadInvalidHeader | HeadDuplicateHeader | HeadUnsupportedTransferEncoding
  | HeadUnsupportedContentEncoding | HeadAmbiguousBodyLength | HeadMissingBodyLength
  | HeadInvalidContentLength | HeadMissingLocation | HeadOutputTooSmall

record HttpResponseHead =
  status_code :: nat
  has_content_length :: bool
  content_length :: u64
  chunked :: bool
  connection_close :: bool
  location :: "byte list"
  content_type :: "byte list"

definition zero_head :: HttpResponseHead where
  "zero_head = \<lparr>status_code = 0, has_content_length = False, content_length = 0, chunked = False,
     connection_close = False, location = [], content_type = []\<rparr>"

record seen_fields =
  saw_transfer_encoding :: bool
  saw_content_encoding :: bool
  saw_location :: bool
  saw_content_type :: bool
  saw_connection :: bool

definition nothing_seen :: seen_fields where
  "nothing_seen = \<lparr>saw_transfer_encoding = False, saw_content_encoding = False, saw_location = False,
     saw_content_type = False, saw_connection = False\<rparr>"

section \<open>The parser\<close>

text \<open>\<open>NameEquals\<close> and \<open>ValueEqualsInsensitive\<close>: \<open>expected\<close> is given in lower case.\<close>

definition NameEquals :: "byte list \<Rightarrow> byte list \<Rightarrow> bool" where
  "NameEquals name expected \<longleftrightarrow> length name = length expected \<and> map AsciiLower name = expected"

definition CopyValue :: "byte list \<Rightarrow> nat \<Rightarrow> byte list option" where
  "CopyValue value output_size = (if length value \<ge> output_size then None else Some value)"

definition StatusMayHaveUnframedBody :: "nat \<Rightarrow> bool" where
  "StatusMayHaveUnframedBody status \<longleftrightarrow>
     (status \<ge> 100 \<and> status < 200) \<or> status = 204 \<or> status = 304 \<or> (status \<ge> 300 \<and> status < 400)"

text \<open>The first CRLF, unless a line feed without carriage return comes before it.\<close>

fun FindStrictCrlf :: "byte list \<Rightarrow> nat option" where
  "FindStrictCrlf (a # b # cs) =
     (if a = CR \<and> b = LF then Some 0
      else if a = LF then None
      else map_option Suc (FindStrictCrlf (b # cs)))"
| "FindStrictCrlf _ = None"

definition status_line_ok :: "byte list \<Rightarrow> bool" where
  "status_line_ok line \<longleftrightarrow>
     \<not> (length line < 12 \<or>
        (take 9 line \<noteq> bytes_of ''HTTP/1.1 '' \<and> take 9 line \<noteq> bytes_of ''HTTP/1.0 '') \<or>
        line ! 9 < ch CHR ''1'' \<or> line ! 9 > ch CHR ''5'' \<or>
        line ! 10 < ch CHR ''0'' \<or> line ! 10 > ch CHR ''9'' \<or>
        line ! 11 < ch CHR ''0'' \<or> line ! 11 > ch CHR ''9'' \<or>
        (length line > 12 \<and> line ! 12 \<noteq> SP)) \<and>
     list_all (\<lambda>c. \<not> (c < 0x20 \<or> c > 0x7e)) (drop 12 line)"

definition line_status_code :: "byte list \<Rightarrow> nat" where
  "line_status_code line =
     unat (line ! 9 - ch CHR ''0'') * 100 + unat (line ! 10 - ch CHR ''0'') * 10 +
     unat (line ! 11 - ch CHR ''0'')"

text \<open>
  The effect of one header field; \<open>None\<close> as status means that the loop goes on.
\<close>

definition response_field ::
  "byte list \<Rightarrow> byte list \<Rightarrow> HttpResponseHead \<Rightarrow> seen_fields \<Rightarrow>
   HttpParseStatus option \<times> HttpResponseHead \<times> seen_fields" where
  "response_field name value h seen =
     (if NameEquals name (bytes_of ''content-length'') then
        if has_content_length h then (Some HeadDuplicateHeader, h, seen)
        else case ParseDecimal value of
            None \<Rightarrow> (Some HeadInvalidContentLength, h, seen)
          | Some n \<Rightarrow> (None, h\<lparr>content_length := n, has_content_length := True\<rparr>, seen)
      else if NameEquals name (bytes_of ''transfer-encoding'') then
        if saw_transfer_encoding seen then (Some HeadDuplicateHeader, h, seen)
        else let seen = seen\<lparr>saw_transfer_encoding := True\<rparr> in
          if \<not> NameEquals value (bytes_of ''chunked'') then (Some HeadUnsupportedTransferEncoding, h, seen)
          else (None, h\<lparr>chunked := True\<rparr>, seen)
      else if NameEquals name (bytes_of ''content-encoding'') then
        if saw_content_encoding seen then (Some HeadDuplicateHeader, h, seen)
        else let seen = seen\<lparr>saw_content_encoding := True\<rparr> in
          if \<not> NameEquals value (bytes_of ''identity'') then (Some HeadUnsupportedContentEncoding, h, seen)
          else (None, h, seen)
      else if NameEquals name (bytes_of ''location'') then
        if saw_location seen then (Some HeadDuplicateHeader, h, seen)
        else let seen = seen\<lparr>saw_location := True\<rparr> in
          case CopyValue value kMaximumHttpLocationBytes of
            None \<Rightarrow> (Some HeadOutputTooSmall, h, seen)
          | Some v \<Rightarrow> (None, h\<lparr>location := v\<rparr>, seen)
      else if NameEquals name (bytes_of ''content-type'') then
        if saw_content_type seen then (Some HeadDuplicateHeader, h, seen)
        else let seen = seen\<lparr>saw_content_type := True\<rparr> in
          case CopyValue value kMaximumHttpContentTypeBytes of
            None \<Rightarrow> (Some HeadOutputTooSmall, h, seen)
          | Some v \<Rightarrow> (None, h\<lparr>content_type := v\<rparr>, seen)
      else if NameEquals name (bytes_of ''connection'') then
        if saw_connection seen then (Some HeadDuplicateHeader, h, seen)
        else (None, h\<lparr>connection_close := NameEquals value (bytes_of ''close'')\<rparr>,
              seen\<lparr>saw_connection := True\<rparr>)
      else if NameEquals name (bytes_of ''content-range'') then (Some HeadInvalidHeader, h, seen)
      else (None, h, seen))"

definition out_of_data :: "nat \<Rightarrow> HttpParseStatus" where
  "out_of_data input_size =
     (if input_size = kMaximumHttpHeaderBytes then HeadHeaderTooLarge else HeadNeedMoreData)"

text \<open>
  The header loop on what follows the status line; the third component is the position behind
  the empty line, where there is one.
\<close>

function response_headers ::
  "nat \<Rightarrow> byte list \<Rightarrow> HttpResponseHead \<Rightarrow> seen_fields \<Rightarrow> HttpParseStatus \<times> HttpResponseHead \<times> nat option" where
  "response_headers input_size rest h seen =
     (if length rest < 2 then (out_of_data input_size, h, None)
      else if rest ! 0 = CR \<and> rest ! 1 = LF then (HeadOk, h, Some (input_size - length rest + 2))
      else if is_blank (rest ! 0) then (HeadInvalidHeader, h, None)
      else case FindStrictCrlf rest of
        None \<Rightarrow> (out_of_data input_size, h, None)
      | Some i \<Rightarrow>
        (case split_header_line (take i rest) of
           None \<Rightarrow> (HeadInvalidHeader, h, None)
         | Some (name, value) \<Rightarrow>
           (case response_field name value h seen of
              (Some st, h, seen) \<Rightarrow> (st, h, None)
            | (None, h, seen) \<Rightarrow> response_headers input_size (drop (i + 2) rest) h seen)))"
  by pat_completeness auto
termination
  by (relation "measure (\<lambda>(input_size, rest, h, seen). length rest)") auto

declare response_headers.simps [simp del]

definition finish_response :: "HttpResponseHead \<Rightarrow> HttpParseStatus" where
  "finish_response h =
     (if has_content_length h \<and> chunked h then HeadAmbiguousBodyLength
      else if \<not> has_content_length h \<and> \<not> chunked h \<and> \<not> StatusMayHaveUnframedBody (status_code h)
      then HeadMissingBodyLength
      else if status_code h \<ge> 300 \<and> status_code h < 400 \<and> cstr_at (location h) 0 = 0
      then HeadMissingLocation
      else HeadOk)"

definition parse_response_input ::
  "byte list \<Rightarrow> HttpResponseHead \<Rightarrow> nat \<Rightarrow> HttpParseStatus \<times> HttpResponseHead \<times> nat" where
  "parse_response_input input head header_bytes =
     (case FindStrictCrlf input of
        None \<Rightarrow> (out_of_data (length input), head, header_bytes)
      | Some i \<Rightarrow>
        if \<not> status_line_ok (take i input) then (HeadInvalidStatusLine, head, header_bytes)
        else case response_headers (length input) (drop (i + 2) input)
                    (zero_head\<lparr>status_code := line_status_code (take i input)\<rparr>) nothing_seen of
          (st, h, None) \<Rightarrow> (st, h, header_bytes)
        | (st, h, Some n) \<Rightarrow> (finish_response h, h, n))"

definition ParseHttpResponseHead ::
  "byte list option \<Rightarrow> bool \<Rightarrow> HttpResponseHead \<Rightarrow> nat \<Rightarrow> HttpParseStatus \<times> HttpResponseHead \<times> nat" where
  "ParseHttpResponseHead data have_outputs head header_bytes =
     (if data = None \<or> \<not> have_outputs then (HeadInvalidArgument, head, header_bytes)
      else parse_response_input (take kMaximumHttpHeaderBytes (the data)) head header_bytes)"

section \<open>A verdict is final\<close>

lemma FindStrictCrlf_append: "FindStrictCrlf xs = Some i \<Longrightarrow> FindStrictCrlf (xs @ ys) = Some i"
  by (induction xs arbitrary: i rule: FindStrictCrlf.induct) (auto split: if_splits)

lemma FindStrictCrlf_Some:
  "FindStrictCrlf xs = Some i \<Longrightarrow> i + 2 \<le> length xs \<and> take (i + 2) xs = take i xs @ [CR, LF]"
  by (induction xs arbitrary: i rule: FindStrictCrlf.induct) (auto split: if_splits)

lemma response_headers_unfold:
  assumes "\<not> length rest < 2" and "\<not> (rest ! 0 = CR \<and> rest ! 1 = LF)" and "\<not> is_blank (rest ! 0)"
    and "FindStrictCrlf rest = Some i" and "split_header_line (take i rest) = Some (n, v)"
    and "response_field n v h seen = (st, h', seen')"
  shows "response_headers k rest h seen =
    (case st of Some st \<Rightarrow> (st, h', None) | None \<Rightarrow> response_headers k (drop (i + 2) rest) h' seen')"
  using assms by (subst response_headers.simps) (auto split: option.splits)

lemma response_headers_stable:
  assumes "response_headers k rest h seen = (st, h', n)" and "st \<noteq> HeadNeedMoreData"
    and "k \<noteq> kMaximumHttpHeaderBytes" and "length rest \<le> k"
  shows "response_headers (k + length ys) (rest @ ys) h seen = (st, h', n)"
  using assms
proof (induction k rest h seen rule: response_headers.induct)
  case (1 k rest h seen)
  have out: "out_of_data k = HeadNeedMoreData" using "1.prems"(3) by (simp add: out_of_data_def)
  have two: "\<not> length rest < 2"
    using "1.prems"(1,2) out by (subst (asm) response_headers.simps) auto
  then have heads: "(rest @ ys) ! 0 = rest ! 0" "(rest @ ys) ! 1 = rest ! 1" "\<not> length (rest @ ys) < 2"
    by (auto simp: nth_append)
  show ?case
  proof (cases "(rest ! 0 = CR \<and> rest ! 1 = LF) \<or> is_blank (rest ! 0)")
    case True
    then show ?thesis
      using "1.prems" two heads
      by (subst (asm) response_headers.simps, subst response_headers.simps) (auto simp: is_blank_def)
  next
    case False
    then obtain i where i: "FindStrictCrlf rest = Some i"
      using "1.prems"(1,2) two out by (subst (asm) response_headers.simps) (auto split: option.splits)
    note i' = FindStrictCrlf_append [OF i, of ys] FindStrictCrlf_Some [OF i]
    show ?thesis
    proof (cases "split_header_line (take i rest)")
      case None
      then show ?thesis
        using "1.prems" two heads False i i'
        by (subst (asm) response_headers.simps, subst response_headers.simps) auto
    next
      case (Some f)
      then obtain nm v where f: "split_header_line (take i rest) = Some (nm, v)" by (cases f) auto
      obtain st1 h1 seen1 where rf: "response_field nm v h seen = (st1, h1, seen1)" by (metis prod_cases3)
      have eq: "response_headers k rest h seen = (case st1 of Some st \<Rightarrow> (st, h1, None)
          | None \<Rightarrow> response_headers k (drop (i + 2) rest) h1 seen1)"
        using response_headers_unfold [OF two _ _ i f rf] False by blast
      have eq': "response_headers (k + length ys) (rest @ ys) h seen =
          (case st1 of Some st \<Rightarrow> (st, h1, None)
          | None \<Rightarrow> response_headers (k + length ys) (drop (i + 2) (rest @ ys)) h1 seen1)"
        using False heads f i' by (intro response_headers_unfold [OF _ _ _ _ _ rf]) auto
      show ?thesis
      proof (cases st1)
        case None
        have "response_headers (k + length ys) (drop (i + 2) rest @ ys) h1 seen1 = (st, h', n)"
          using "1.IH" [OF two _ _ i f refl rf [unfolded None, symmetric] refl refl] "1.prems" eq None False
          by auto
        then show ?thesis using eq' None i' by simp
      next
        case (Some st2)
        then show ?thesis using eq eq' "1.prems"(1) by simp
      qed
    qed
  qed
qed

lemma take_append_short: "length xs \<le> n \<Longrightarrow> take n (xs @ ys) = xs @ take (n - length xs) ys"
  by simp

section \<open>The loop ends with a head only at the empty line\<close>

lemma response_field_not_ok: "fst (response_field n v h seen) \<noteq> Some HeadOk"
  by (simp add: response_field_def Let_def split: option.split)

lemma response_headers_not_ok: "response_headers k rest h seen = (HeadOk, h', None) \<Longrightarrow> False"
proof (induction k rest h seen rule: response_headers.induct)
  case (1 k rest h seen)
  have out: "out_of_data k \<noteq> HeadOk" by (simp add: out_of_data_def)
  have two: "\<not> length rest < 2" and nc: "\<not> (rest ! 0 = CR \<and> rest ! 1 = LF)"
    and blank: "\<not> is_blank (rest ! 0)"
    using "1.prems" out by (auto simp: response_headers.simps [of k rest] split: if_split_asm)
  with out obtain i nm v where i: "FindStrictCrlf rest = Some i"
    and f: "split_header_line (take i rest) = Some (nm, v)"
    using "1.prems" by (auto simp: response_headers.simps [of k rest] split: option.split_asm)
  obtain st1 h1 seen1 where rf: "response_field nm v h seen = (st1, h1, seen1)" by (metis prod_cases3)
  note eq = response_headers_unfold [OF two nc blank i f rf, of k]
  show ?case
  proof (cases st1)
    case None
    then have "response_headers k (drop (i + 2) rest) h1 seen1 = (HeadOk, h', None)"
      using eq "1.prems" by simp
    from "1.IH" [OF two nc blank i f refl rf [unfolded None, symmetric] refl refl this] show ?thesis .
  next
    case (Some st2)
    then show ?thesis using eq "1.prems" response_field_not_ok [of nm v h seen] rf by simp
  qed
qed

section \<open>Sample heads\<close>

definition sample_response :: "byte list" where
  "sample_response = bytes_of ''HTTP/1.1 302 Found'' @ [CR, LF] @ bytes_of ''Location: /x'' @
     [CR, LF] @ bytes_of ''content-length: 5'' @ [CR, LF, CR, LF] @ bytes_of ''hello''"

lemma parse_short_input:
  "length data \<le> 32768 \<Longrightarrow>
   ParseHttpResponseHead (Some data) True head n = parse_response_input data head n"
  by (simp add: ParseHttpResponseHead_def kMaximumHttpHeaderBytes_def)

lemma response_headers_done:
  "response_headers k rest h seen = (st, h', Some n) \<Longrightarrow> st = HeadOk"
proof (induction k rest h seen rule: response_headers.induct)
  case (1 k rest h seen)
  have "response_headers k rest h seen = (st, h', Some n)" by (rule "1.prems")
  then show ?case
    by (subst (asm) response_headers.simps)
      (use "1.IH" in \<open>auto split: if_split_asm option.split_asm prod.split_asm\<close>)
qed

lemma sample_response_parsed:
  "\<exists>h. ParseHttpResponseHead (Some sample_response) True zero_head 0 = (HeadOk, h, 55)"
proof -
  have "fst (parse_response_input sample_response zero_head 0) = HeadOk"
    "snd (snd (parse_response_input sample_response zero_head 0)) = 55"
    by (code_simp, code_simp)
  moreover have "length sample_response \<le> 32768" by (simp add: sample_response_def)
  ultimately show ?thesis by (metis parse_short_input prod.collapse)
qed

section \<open>Properties\<close>

text \<open>
  C26: the verdict on a response head is final.  Once a prefix of the stream, shorter than the
  header limit, gives any answer but ``need more data'', every longer prefix gives the same
  answer, the same head and the same header size; so the caller may grow its buffer in any steps.
\<close>

theorem response_verdict_final:
  assumes "length data < kMaximumHttpHeaderBytes"
    and "ParseHttpResponseHead (Some data) True head header_bytes = (st, h, n)"
    and "st \<noteq> HeadNeedMoreData"
  shows "ParseHttpResponseHead (Some (data @ extra)) True head header_bytes = (st, h, n)"
proof -
  have out: "out_of_data (length data) = HeadNeedMoreData" using assms(1) by (simp add: out_of_data_def)
  define rest where "rest = take (kMaximumHttpHeaderBytes - length data) extra"
  have input: "take kMaximumHttpHeaderBytes data = data"
    "take kMaximumHttpHeaderBytes (data @ extra) = data @ rest"
    using assms(1) by (simp_all add: rest_def)
  note def = ParseHttpResponseHead_def parse_response_input_def option.sel input
  obtain i where i: "FindStrictCrlf data = Some i"
    using assms(2,3) out by (auto simp: def split: option.split_asm)
  note i' = FindStrictCrlf_append [OF i, of rest] FindStrictCrlf_Some [OF i]
  then have parts: "take i (data @ rest) = take i data" "drop (i + 2) (data @ rest) = drop (i + 2) data @ rest"
    by simp_all
  show ?thesis
  proof (cases "status_line_ok (take i data)")
    case False
    then show ?thesis using assms(2) by (simp add: def i i' parts del: take_append)
  next
    case True
    define h0 where "h0 = zero_head\<lparr>status_code := line_status_code (take i data)\<rparr>"
    obtain st1 h1 m where r: "response_headers (length data) (drop (i + 2) data) h0 nothing_seen = (st1, h1, m)"
      by (metis prod_cases3)
    have res: "(case m of None \<Rightarrow> (st1, h1, header_bytes) | Some n \<Rightarrow> (finish_response h1, h1, n)) = (st, h, n)"
      using assms(2) r True by (simp add: def i h0_def [symmetric] split: option.splits)
    have "st1 \<noteq> HeadNeedMoreData"
    proof (cases m)
      case None
      with res assms(3) show ?thesis by simp
    next
      case (Some k)
      with response_headers_done [OF r [unfolded Some]] show ?thesis by simp
    qed
    from response_headers_stable [OF r this, of rest] assms(1)
    have "response_headers (length (data @ rest)) (drop (i + 2) (data @ rest)) h0 nothing_seen = (st1, h1, m)"
      by (simp only: parts length_append) simp
    with True res show ?thesis
      by (simp add: def i' parts h0_def [symmetric] del: take_append drop_append length_append split: option.splits)
  qed
qed

theorem response_verdict_final_witness:
  "\<exists>h. ParseHttpResponseHead (Some (sample_response @ [1, 2])) True zero_head 0 = (HeadOk, h, 55)"
proof -
  obtain h where "ParseHttpResponseHead (Some sample_response) True zero_head 0 = (HeadOk, h, 55)"
    using sample_response_parsed by blast
  moreover have "length sample_response < kMaximumHttpHeaderBytes"
    by (simp add: sample_response_def kMaximumHttpHeaderBytes_def)
  ultimately show ?thesis using response_verdict_final by blast
qed

definition nul_name_response :: "byte list" where
  "nul_name_response = bytes_of ''HTTP/1.1 204 x'' @ [CR, LF] @ bytes_of ''X'' @ [0] @ bytes_of '': y'' @
     [CR, LF, CR, LF]"

text \<open>
  A divergence from the token grammar.  A response whose only header name is the two bytes
  \<open>X\<close> and NUL is accepted, because \<open>strchr\<close> finds the terminator of the symbol list; the
  comment on the status line says that NUL in particular is rejected so that no C string
  function sees another line than the parser does.
\<close>

lemma nul_in_header_name_accepted:
  "fst (ParseHttpResponseHead (Some nul_name_response) True zero_head 0) = HeadOk"
proof -
  have "fst (parse_response_input nul_name_response zero_head 0) = HeadOk" by code_simp
  moreover have "length nul_name_response \<le> 32768" by (simp add: nul_name_response_def)
  ultimately show ?thesis by (simp only: parse_short_input)
qed

end
