(* ===== verification/Http_Body.thy ===== *)
theory Http_Body
  imports Http_Response
begin

text \<open>
  The body of a response, second half of \<open>src/src/update/http_response_parser.cpp\<close> and
  \<open>src/src/update/body_sinks.cpp\<close>: the decoder for bodies framed by a length or by chunks, and
  the sinks it writes to.  \<open>HttpBodySink\<close> is an abstract class; the decoder takes its \<open>Write\<close> as
  an argument, and the locale \<open>body_sink\<close> states what the decoder relies on.  It is interpreted
  on \<open>BoundedMemoryBodySink\<close>.  The decoder is shown not to depend on how the network cuts the
  body, and to accept exactly the encodings of the bytes it delivers.
\<close>

section \<open>The bounded memory sink\<close>

record BoundedMemoryBodySink =
  sink_buffer :: "byte list option"
  sink_capacity :: nat
  sink_size :: nat
  overflowed :: bool

definition NewBoundedMemoryBodySink :: "byte list option \<Rightarrow> nat \<Rightarrow> BoundedMemoryBodySink" where
  "NewBoundedMemoryBodySink buffer capacity =
     \<lparr>sink_buffer = buffer, sink_capacity = capacity, sink_size = 0, overflowed = False\<rparr>"

definition SinkWrite :: "byte list option \<Rightarrow> nat \<Rightarrow> BoundedMemoryBodySink \<Rightarrow> bool \<times> BoundedMemoryBodySink" where
  "SinkWrite data n s =
     (if (data = None \<and> n \<noteq> 0) \<or> sink_buffer s = None \<or> n > sink_capacity s - sink_size s
      then (False, s\<lparr>overflowed := True\<rparr>)
      else let s = (if n \<noteq> 0
                    then s\<lparr>sink_buffer := Some (memcpy (the (sink_buffer s)) (sink_size s) (take n (the data)))\<rparr>
                    else s)
           in (True, s\<lparr>sink_size := sink_size s + n\<rparr>))"

definition SinkReset :: "BoundedMemoryBodySink \<Rightarrow> BoundedMemoryBodySink" where
  "SinkReset s = s\<lparr>sink_size := 0, overflowed := False\<rparr>"

definition sink_bytes :: "BoundedMemoryBodySink \<Rightarrow> byte list" where
  "sink_bytes s = take (sink_size s) (the (sink_buffer s))"

section \<open>The decoder\<close>

datatype HttpBodyStatus =
    BodyOk | BodyComplete | BodyInvalidArgument | BodyTooLarge | BodySinkRejected | BodyInvalidChunk
  | BodyUnexpectedData | BodyTruncated

datatype BodyState =
    kContentLength | kChunkSize | kChunkSizeLf | kChunkData | kChunkDataCr | kChunkDataLf
  | kFinalCr | kFinalLf | kComplete | kFailed

record HttpBodyDecoder =
  body_state :: BodyState
  remaining :: u64
  decoded_bytes :: u64
  maximum_body_bytes :: u64
  chunk_line :: "byte list"

definition kChunkLineBytes :: nat where "kChunkLineBytes = 18"

definition NewHttpBodyDecoder :: "HttpResponseHead \<Rightarrow> u64 \<Rightarrow> bool \<Rightarrow> HttpBodyDecoder" where
  "NewHttpBodyDecoder head maximum have_sink =
     (let d = \<lparr>body_state = (if chunked head then kChunkSize else kContentLength),
               remaining = (if has_content_length head then content_length head else 0),
               decoded_bytes = 0, maximum_body_bytes = maximum, chunk_line = []\<rparr>
      in if \<not> have_sink \<or> has_content_length head = chunked head then d\<lparr>body_state := kFailed\<rparr>
         else if \<not> chunked head \<and> remaining d > maximum then d\<lparr>body_state := kFailed\<rparr>
         else if \<not> chunked head \<and> remaining d = 0 then d\<lparr>body_state := kComplete\<rparr>
         else d)"

type_synonym 's sink_write = "byte list \<Rightarrow> 's \<Rightarrow> bool \<times> 's"

definition WriteBody ::
  "'s sink_write \<Rightarrow> byte list \<Rightarrow> HttpBodyDecoder \<Rightarrow> 's \<Rightarrow> HttpBodyStatus \<times> HttpBodyDecoder \<times> 's" where
  "WriteBody write data d s =
     (if length data = 0 then (BodyOk, d, s)
      else if decoded_bytes d > maximum_body_bytes d \<or>
              length data > unat (maximum_body_bytes d - decoded_bytes d)
      then (BodyTooLarge, d\<lparr>body_state := kFailed\<rparr>, s)
      else case write data s of
        (False, s) \<Rightarrow> (BodySinkRejected, d\<lparr>body_state := kFailed\<rparr>, s)
      | (True, s) \<Rightarrow> (BodyOk, d\<lparr>decoded_bytes := decoded_bytes d + of_nat (length data)\<rparr>, s))"

lemma WriteBody_remaining: "WriteBody write data d s = (st, d', s') \<Longrightarrow> remaining d' = remaining d"
  by (auto simp: WriteBody_def split: if_splits prod.splits bool.splits)

text \<open>
  One byte in the states that only look at the chunk framing; a status means that \<open>Feed\<close>
  returns it.
\<close>

definition chunk_byte :: "byte \<Rightarrow> HttpBodyDecoder \<Rightarrow> HttpBodyStatus option \<times> HttpBodyDecoder" where
  "chunk_byte c d =
     (let invalid = (Some BodyInvalidChunk, d\<lparr>body_state := kFailed\<rparr>);
          expect = \<lambda>b next. if c \<noteq> b then invalid else (None, d\<lparr>body_state := next\<rparr>)
      in case body_state d of
        kChunkSize \<Rightarrow>
          if c = CR then
            if chunk_line d = [] then invalid
            else case hex_loop 0 (chunk_line d) of
              None \<Rightarrow> invalid
            | Some chunk_size \<Rightarrow>
                (None, d\<lparr>remaining := chunk_size, chunk_line := [], body_state := kChunkSizeLf\<rparr>)
          else if c = LF \<or> c = ch CHR '';'' \<or> length (chunk_line d) \<ge> kChunkLineBytes then invalid
          else (None, d\<lparr>chunk_line := chunk_line d @ [c]\<rparr>)
      | kChunkSizeLf \<Rightarrow> expect LF (if remaining d = 0 then kFinalCr else kChunkData)
      | kChunkDataCr \<Rightarrow> expect CR kChunkDataLf
      | kChunkDataLf \<Rightarrow> expect LF kChunkSize
      | kFinalCr \<Rightarrow> expect CR kFinalLf
      | _ \<Rightarrow> (None, d))"

text \<open>The bytes of the input that belong to the current body or chunk.\<close>

definition clamp_to :: "nat \<Rightarrow> u64 \<Rightarrow> nat" where
  "clamp_to available limit = (if available > unat limit then unat limit else available)"

lemma clamp_to_min: "clamp_to n r = min n (unat r)"
  by (simp add: clamp_to_def min_def)

text \<open>
  A byte of chunk data and the bulk copy behind it: the number of further bytes copied.
\<close>

definition chunk_data ::
  "'s sink_write \<Rightarrow> byte \<Rightarrow> byte list \<Rightarrow> HttpBodyDecoder \<Rightarrow> 's \<Rightarrow>
   HttpBodyStatus \<times> nat \<times> HttpBodyDecoder \<times> 's" where
  "chunk_data write c rest d s =
     (case WriteBody write [c] d s of (st, d, s) \<Rightarrow>
        if st \<noteq> BodyOk then (st, 0, d, s)
        else let d = d\<lparr>remaining := remaining d - 1\<rparr> in
          if remaining d \<noteq> 0 \<and> rest \<noteq> [] then
            let available = clamp_to (length rest) (remaining d)
            in case WriteBody write (take available rest) d s of (st, d, s) \<Rightarrow>
                 if st \<noteq> BodyOk then (st, 0, d, s)
                 else let d = d\<lparr>remaining := remaining d - of_nat available\<rparr>
                      in (BodyOk, available,
                          if remaining d = 0 then d\<lparr>body_state := kChunkDataCr\<rparr> else d, s)
          else (BodyOk, 0, if remaining d = 0 then d\<lparr>body_state := kChunkDataCr\<rparr> else d, s))"

function feed_body ::
  "'s sink_write \<Rightarrow> byte list \<Rightarrow> nat \<Rightarrow> HttpBodyDecoder \<Rightarrow> 's \<Rightarrow>
   HttpBodyStatus \<times> nat \<times> HttpBodyDecoder \<times> 's" where
  "feed_body write data consumed d s =
     (if data = [] then (if body_state d = kComplete then BodyComplete else BodyOk, consumed, d, s)
      else if body_state d = kContentLength then
        let available = clamp_to (length data) (remaining d)
        in case WriteBody write (take available data) d s of (st, d, s) \<Rightarrow>
          if st \<noteq> BodyOk then (st, consumed, d, s)
          else let consumed = consumed + available; d = d\<lparr>remaining := remaining d - of_nat available\<rparr> in
            if remaining d = 0
            then (if available = length data then BodyComplete else BodyUnexpectedData, consumed,
                  d\<lparr>body_state := kComplete\<rparr>, s)
            else feed_body write (drop available data) consumed d s
      else if body_state d = kChunkData then
        case chunk_data write (hd data) (tl data) d s of (st, copied, d, s) \<Rightarrow>
          if st \<noteq> BodyOk then (st, Suc consumed, d, s)
          else feed_body write (drop copied (tl data)) (Suc consumed + copied) d s
      else if body_state d = kFinalLf then
        if hd data \<noteq> LF then (BodyInvalidChunk, Suc consumed, d\<lparr>body_state := kFailed\<rparr>, s)
        else (if tl data = [] then BodyComplete else BodyUnexpectedData, Suc consumed,
              d\<lparr>body_state := kComplete\<rparr>, s)
      else case chunk_byte (hd data) d of
          (Some st, d) \<Rightarrow> (st, Suc consumed, d, s)
        | (None, d) \<Rightarrow> feed_body write (tl data) (Suc consumed) d s)"
  by pat_completeness auto
termination
  by (relation "measure (\<lambda>(write, data, consumed, d, s). length data)")
    (auto simp: unat_eq_0 clamp_to_def dest!: WriteBody_remaining [OF sym] split: if_splits)

declare feed_body.simps [simp del]

definition FeedBody ::
  "'s sink_write \<Rightarrow> byte list option \<Rightarrow> nat \<Rightarrow> bool \<Rightarrow> HttpBodyDecoder \<Rightarrow> 's \<Rightarrow>
   HttpBodyStatus \<times> nat \<times> HttpBodyDecoder \<times> 's" where
  "FeedBody write data n have_consumed d s =
     (if \<not> have_consumed \<or> (data = None \<and> n \<noteq> 0) then (BodyInvalidArgument, 0, d, s)
      else if body_state d = kFailed then (BodyInvalidArgument, 0, d, s)
      else if body_state d = kComplete
      then (if n = 0 then BodyComplete else BodyUnexpectedData, 0, d, s)
      else feed_body write (case data of None \<Rightarrow> [] | Some bytes \<Rightarrow> take n bytes) 0 d s)"

definition FinishBody :: "HttpBodyDecoder \<Rightarrow> HttpBodyStatus \<times> HttpBodyDecoder" where
  "FinishBody d =
     (if body_state d = kComplete then (BodyComplete, d)
      else if body_state d = kFailed then (BodyInvalidArgument, d)
      else (BodyTruncated, d\<lparr>body_state := kFailed\<rparr>))"

section \<open>What the decoder relies on\<close>

text \<open>
  A sink in a state \<open>ok\<close> that accepts a block holds it behind what it held before, and accepts
  a block exactly when it accepts its parts one after the other.
\<close>

locale body_sink =
  fixes put :: "'s sink_write"
    and ok :: "'s \<Rightarrow> bool"
    and held :: "'s \<Rightarrow> byte list"
  assumes write_held: "ok s \<Longrightarrow> put xs s = (True, s') \<Longrightarrow> ok s' \<and> held s' = held s @ xs"
    and write_Nil: "ok s \<Longrightarrow> put [] s = (True, s)"
    and write_parts: "ok s \<Longrightarrow>
      put (xs @ ys) s = (True, s') \<longleftrightarrow> (\<exists>s1. put xs s = (True, s1) \<and> put ys s1 = (True, s'))"

definition bounded_write :: "BoundedMemoryBodySink sink_write" where
  "bounded_write xs s = SinkWrite (Some xs) (length xs) s"

definition sink_ok :: "BoundedMemoryBodySink \<Rightarrow> bool" where
  "sink_ok s \<longleftrightarrow> (\<exists>b. sink_buffer s = Some b \<and> length b = sink_capacity s) \<and> sink_size s \<le> sink_capacity s"

lemma bounded_write_iff:
  assumes "sink_ok s"
  shows "bounded_write xs s = (True, s') \<longleftrightarrow>
    sink_size s + length xs \<le> sink_capacity s \<and>
    s' = s\<lparr>sink_buffer := Some (memcpy (the (sink_buffer s)) (sink_size s) xs),
           sink_size := sink_size s + length xs\<rparr>"
  using assms
  by (cases s) (auto simp: bounded_write_def SinkWrite_def sink_ok_def Let_def)

lemma memcpy_append:
  "at + length xs + length ys \<le> length dst \<Longrightarrow>
   memcpy (memcpy dst at xs) (at + length xs) ys = memcpy dst at (xs @ ys)"
  by (simp add: memcpy_def add_ac)

interpretation memory_sink: body_sink bounded_write sink_ok sink_bytes
proof
  fix s xs s' assume s: "sink_ok s" and w: "bounded_write xs s = (True, s')"
  then show "sink_ok s' \<and> sink_bytes s' = sink_bytes s @ xs"
    by (auto simp: bounded_write_iff sink_ok_def sink_bytes_def memcpy_def)
next
  fix s assume "sink_ok s"
  then show "bounded_write [] s = (True, s)" by (cases s) (auto simp: bounded_write_iff sink_ok_def)
next
  fix s xs ys s' assume s: "sink_ok s"
  have ok1: "sink_ok s1" if "bounded_write xs s = (True, s1)" for s1
    using s that by (auto simp: bounded_write_iff sink_ok_def)
  show "bounded_write (xs @ ys) s = (True, s') \<longleftrightarrow>
      (\<exists>s1. bounded_write xs s = (True, s1) \<and> bounded_write ys s1 = (True, s'))"
  proof -
    from s obtain b where b: "sink_buffer s = Some b" "length b = sink_capacity s"
      by (auto simp: sink_ok_def)
    let ?s1 = "s\<lparr>sink_buffer := Some (memcpy b (sink_size s) xs), sink_size := sink_size s + length xs\<rparr>"
    have "bounded_write ys ?s1 = (True, s') \<longleftrightarrow> sink_size s + length (xs @ ys) \<le> sink_capacity s \<and>
        s' = s\<lparr>sink_buffer := Some (memcpy b (sink_size s) (xs @ ys)), sink_size := sink_size s + length (xs @ ys)\<rparr>"
      if "sink_size s + length xs \<le> sink_capacity s"
      using bounded_write_iff [of ?s1 ys s'] ok1 [of ?s1] b that s memcpy_append [of "sink_size s" xs ys b]
      by (auto simp: bounded_write_iff)
    then show ?thesis
      using s b by (auto simp: bounded_write_iff)
  qed
qed

section \<open>One byte after the other\<close>

text \<open>
  The decoder with blocks of one byte.  Bulk copies make a difference only to what the sink
  holds when it is full; as long as nothing fails, \<open>Feed\<close> is this machine.
\<close>

definition data_byte ::
  "'s sink_write \<Rightarrow> BodyState \<Rightarrow> byte \<Rightarrow> HttpBodyDecoder \<times> 's \<Rightarrow> HttpBodyDecoder \<times> 's" where
  "data_byte write next c ds =
     (case WriteBody write [c] (fst ds) (snd ds) of (st, d, s) \<Rightarrow>
        if st \<noteq> BodyOk then (d, s)
        else (d\<lparr>remaining := remaining d - 1,
                body_state := (if remaining d = 1 then next else body_state d)\<rparr>, s))"

definition body_byte :: "'s sink_write \<Rightarrow> byte \<Rightarrow> HttpBodyDecoder \<times> 's \<Rightarrow> HttpBodyDecoder \<times> 's" where
  "body_byte write c ds =
     (case body_state (fst ds) of
        kComplete \<Rightarrow> ds
      | kFailed \<Rightarrow> ds
      | kContentLength \<Rightarrow> data_byte write kComplete c ds
      | kChunkData \<Rightarrow> data_byte write kChunkDataCr c ds
      | kFinalLf \<Rightarrow> ((fst ds)\<lparr>body_state := (if c = LF then kComplete else kFailed)\<rparr>, snd ds)
      | _ \<Rightarrow> (snd (chunk_byte c (fst ds)), snd ds))"

definition body_bytes :: "'s sink_write \<Rightarrow> byte list \<Rightarrow> HttpBodyDecoder \<times> 's \<Rightarrow> HttpBodyDecoder \<times> 's" where
  "body_bytes write xs ds = fold (body_byte write) xs ds"

definition body_failed :: "HttpBodyDecoder \<times> 's \<Rightarrow> bool" where
  "body_failed ds \<longleftrightarrow> body_state (fst ds) = kFailed"

lemma body_bytes_simps [simp]:
  "body_bytes write [] ds = ds"
  "body_bytes write (x # xs) ds = body_bytes write xs (body_byte write x ds)"
  "body_bytes write (xs @ ys) ds = body_bytes write ys (body_bytes write xs ds)"
  by (simp_all add: body_bytes_def)

lemma body_bytes_absorbing:
  "body_state (fst ds) = kFailed \<or> body_state (fst ds) = kComplete \<Longrightarrow> body_bytes write xs ds = ds"
  by (induction xs) (auto simp: body_byte_def)

lemma body_failed_bytes: "body_failed ds \<Longrightarrow> body_failed (body_bytes write xs ds)"
  by (simp add: body_failed_def body_bytes_absorbing)

lemma sub_of_nat_eq_0: "n \<le> unat r \<Longrightarrow> r - of_nat n = 0 \<longleftrightarrow> n = unat (r :: u64)"
proof -
  assume "n \<le> unat r"
  then have "unat (of_nat n :: u64) = n" using u64_less [of r] by (simp add: unat_of_nat)
  then have "r = of_nat n \<longleftrightarrow> n = unat r" by (auto simp: word_unat_eq_iff)
  then show ?thesis by simp
qed

lemma WriteBody_Ok_iff:
  "WriteBody write xs d s = (BodyOk, d', s') \<longleftrightarrow>
   (xs = [] \<and> d' = d \<and> s' = s) \<or>
   (xs \<noteq> [] \<and> decoded_bytes d \<le> maximum_body_bytes d \<and>
    unat (decoded_bytes d) + length xs \<le> unat (maximum_body_bytes d) \<and>
    write xs s = (True, s') \<and> d' = d\<lparr>decoded_bytes := decoded_bytes d + of_nat (length xs)\<rparr>)"
proof -
  have "length xs > unat (maximum_body_bytes d - decoded_bytes d) \<longleftrightarrow>
      \<not> unat (decoded_bytes d) + length xs \<le> unat (maximum_body_bytes d)"
    if "decoded_bytes d \<le> maximum_body_bytes d"
    using that by (auto simp: unat_sub word_le_nat_alt)
  then show ?thesis
    by (cases "write xs s") (auto simp: WriteBody_def not_less split: bool.split)
qed

lemma WriteBody_failed:
  "WriteBody write xs d s = (st, d', s') \<Longrightarrow> st \<noteq> BodyOk \<Longrightarrow> body_state d' = kFailed"
  by (auto simp: WriteBody_def split: if_split_asm prod.split_asm bool.split_asm)

text \<open>The state a data state turns into when its last byte is read.\<close>

definition data_next :: "BodyState \<Rightarrow> BodyState" where
  "data_next st = (if st = kContentLength then kComplete else kChunkDataCr)"

definition in_data :: "HttpBodyDecoder \<Rightarrow> bool" where
  "in_data d \<longleftrightarrow> body_state d = kContentLength \<or> body_state d = kChunkData"

definition wf_decoder :: "HttpBodyDecoder \<Rightarrow> bool" where
  "wf_decoder d \<longleftrightarrow> (in_data d \<longrightarrow> remaining d \<noteq> 0)"

lemma body_byte_data:
  "in_data d \<Longrightarrow> body_byte put c (d, s) = data_byte put (data_next (body_state d)) c (d, s)"
  by (auto simp: body_byte_def in_data_def data_next_def)

lemma WriteBody_set_remaining:
  "WriteBody put xs (d\<lparr>remaining := r\<rparr>) s =
     (case WriteBody put xs d s of (st, d', s') \<Rightarrow> (st, d'\<lparr>remaining := r\<rparr>, s'))"
  by (auto simp: WriteBody_def split: prod.split bool.split)

lemma WriteBody_state: "WriteBody put xs d s = (BodyOk, d', s') \<Longrightarrow> body_state d' = body_state d"
  by (auto simp: WriteBody_Ok_iff)

lemma chunk_byte_failed: "chunk_byte c d = (Some st, d') \<Longrightarrow> body_state d' = kFailed"
  by (auto simp: chunk_byte_def Let_def split: BodyState.split_asm if_split_asm option.split_asm)

lemma chunk_byte_wf:
  assumes "chunk_byte c d = (None, d')"
    and "body_state d \<notin> {kContentLength, kChunkData, kFinalLf, kFailed, kComplete}"
  shows "wf_decoder d'" and "body_state d' \<noteq> kFailed" and "body_state d' \<noteq> kComplete"
  using assms
  by (auto simp: chunk_byte_def Let_def wf_decoder_def in_data_def
      split: BodyState.split_asm if_split_asm option.split_asm)

context body_sink
begin

lemma WriteBody_ok: "ok s \<Longrightarrow> WriteBody put xs d s = (BodyOk, d', s') \<Longrightarrow> ok s'"
  using write_held by (auto simp: WriteBody_Ok_iff)

lemma WriteBody_Cons:
  assumes "ok s"
  shows "WriteBody put (x # xs) d s = (BodyOk, d', s') \<longleftrightarrow>
    (\<exists>d1 s1. WriteBody put [x] d s = (BodyOk, d1, s1) \<and> WriteBody put xs d1 s1 = (BodyOk, d', s'))"
proof (cases "xs = []")
  case True
  then show ?thesis by (auto simp: WriteBody_Ok_iff)
next
  case False
  let ?d1 = "d\<lparr>decoded_bytes := decoded_bytes d + 1\<rparr>"
  have next1: "unat (decoded_bytes d + 1) = unat (decoded_bytes d) + 1"
    if "unat (decoded_bytes d) + 1 \<le> unat (maximum_body_bytes d)"
    using that u64_less [of "maximum_body_bytes d"] by (simp add: unat_word_ariths)
  have parts: "put (x # xs) s = (True, s') \<longleftrightarrow> (\<exists>s1. put [x] s = (True, s1) \<and> put xs s1 = (True, s'))"
    using write_parts [OF assms, of "[x]" xs s'] by simp
  show ?thesis
    using False next1 parts
    by (fastforce simp: WriteBody_Ok_iff word_le_nat_alt add.assoc)
qed

lemma body_bytes_run:
  assumes "ok s" and "in_data d" and "length p \<le> unat (remaining d)"
  shows "WriteBody put p d s = (BodyOk, d1, s1) \<Longrightarrow>
      body_bytes put p (d, s) =
        (d1\<lparr>remaining := remaining d - of_nat (length p),
            body_state := (if p \<noteq> [] \<and> length p = unat (remaining d) then data_next (body_state d)
                           else body_state d)\<rparr>, s1)"
    and "fst (WriteBody put p d s) \<noteq> BodyOk \<Longrightarrow> body_failed (body_bytes put p (d, s))"
  using assms
proof (induction p arbitrary: d s d1 s1)
  case Nil
  {
    case 1
    then show ?case by (cases d) (simp add: WriteBody_Ok_iff)
  next
    case 2
    then show ?case by (simp add: WriteBody_def)
  }
next
  case (Cons x p)
  have step: "body_byte put x (d, s) = (d0\<lparr>remaining := remaining d - 1,
      body_state := (if remaining d = 1 then data_next (body_state d) else body_state d)\<rparr>, s0)"
    if "WriteBody put [x] d s = (BodyOk, d0, s0)" "in_data d" for d s d0 s0
    using that WriteBody_remaining [OF that(1)] WriteBody_state [OF that(1)]
    by (simp add: body_byte_data data_byte_def)
  have rem: "unat (remaining d - 1) = unat (remaining d) - 1"
    if "length (x # p) \<le> unat (remaining d)" for d :: HttpBodyDecoder
    using that by (simp add: unat_sub word_le_nat_alt)
  have one: "remaining d = 1 \<longleftrightarrow> unat (remaining d) = 1" for d :: HttpBodyDecoder
    by (simp add: word_unat_eq_iff)
  {
    case 1
    then obtain d0 s0 where w0: "WriteBody put [x] d s = (BodyOk, d0, s0)"
      and w1: "WriteBody put p d0 s0 = (BodyOk, d1, s1)"
      using WriteBody_Cons by blast
    note st = WriteBody_state [OF w0] WriteBody_remaining [OF w0] WriteBody_ok [OF 1(2) w0]
    show ?case
    proof (cases "remaining d = 1")
      case True
      with 1 have "p = []" by simp
      with w1 have "d1 = d0" "s1 = s0" by (simp_all add: WriteBody_Ok_iff)
      with True \<open>p = []\<close> step [OF w0 1(3)] show ?thesis by simp
    next
      case False
      let ?d = "d0\<lparr>remaining := (remaining d - 1)\<rparr>"
      have d: "body_byte put x (d, s) = (?d, s0)"
        using step [OF w0 1(3)] False st(1) by (cases d0) simp
      have w: "WriteBody put p ?d s0 = (BodyOk, d1\<lparr>remaining := (remaining d - 1)\<rparr>, s1)"
        using w1 by (simp add: WriteBody_set_remaining)
      have wf: "in_data ?d" "length p \<le> unat (remaining ?d)"
        using 1(3,4) st(1) rem by (auto simp: in_data_def)
      have "p \<noteq> [] \<and> length p = unat (remaining d) - 1 \<longleftrightarrow> length (x # p) = unat (remaining d)"
        using False one 1(4) by (cases p) auto
      with Cons.IH(1) [OF w st(3) wf] show ?thesis
        using st d rem [OF 1(4)] by (simp add: algebra_simps)
    qed
  next
    case 2
    show ?case
    proof (cases "fst (WriteBody put [x] d s) = BodyOk")
      case False
      then have "body_failed (body_byte put x (d, s))"
        using 2(3) WriteBody_failed [of put "[x]" d s]
        by (cases "WriteBody put [x] d s") (auto simp: body_byte_data data_byte_def body_failed_def)
      then show ?thesis using body_failed_bytes by simp
    next
      case True
      then obtain d0 s0 where w0: "WriteBody put [x] d s = (BodyOk, d0, s0)"
        by (metis prod.collapse)
      note st = WriteBody_state [OF w0] WriteBody_remaining [OF w0] WriteBody_ok [OF 2(2) w0]
      have fail: "fst (WriteBody put p d0 s0) \<noteq> BodyOk"
        using 2(1) w0 WriteBody_Cons [OF 2(2), of x p d] by (metis prod.collapse fst_conv)
      then have "p \<noteq> []" by (auto simp: WriteBody_def)
      with 2(4) have False': "remaining d \<noteq> 1" by (cases p) auto
      let ?d = "d0\<lparr>remaining := (remaining d - 1)\<rparr>"
      have d: "body_byte put x (d, s) = (?d, s0)"
        using step [OF w0 2(3)] False' st(1) by (cases d0) simp
      have "fst (WriteBody put p ?d s0) \<noteq> BodyOk"
        using fail by (simp add: WriteBody_set_remaining case_prod_beta)
      moreover have "in_data ?d" "length p \<le> unat (remaining ?d)"
        using 2(3,4) st(1) rem by (auto simp: in_data_def)
      ultimately show ?thesis using Cons.IH(2) [of ?d s0] st(3) d by simp
    qed
  }
qed

text \<open>
  The outcome of a call against the byte machine: the same state and sink, unless both failed.
\<close>

definition agrees :: "HttpBodyDecoder \<times> 's \<Rightarrow> HttpBodyDecoder \<times> 's \<Rightarrow> bool" where
  "agrees a b \<longleftrightarrow> a = b \<or> (body_failed a \<and> body_failed b)"

lemma chunk_data_run:
  assumes "ok s" and "body_state d = kChunkData" and "remaining d \<noteq> 0"
    and "chunk_data put c rest d s = (st, copied, d', s')"
  shows "if st = BodyOk
    then body_bytes put (c # take copied rest) (d, s) = (d', s') \<and> ok s' \<and> wf_decoder d' \<and>
      body_state d' \<in> {kChunkData, kChunkDataCr} \<and> copied < unat (remaining d)
    else body_failed (d', s') \<and> body_failed (body_bytes put (c # rest) (d, s))"
proof -
  have data: "in_data d" and next_st: "data_next (body_state d) = kChunkDataCr"
    using assms(2) by (simp_all add: in_data_def data_next_def)
  have pos: "length [c] \<le> unat (remaining d)" using assms(3) unat_gt_0 [of "remaining d"] by simp
  obtain st1 d1 s1 where w1: "WriteBody put [c] d s = (st1, d1, s1)" by (metis prod_cases3)
  show ?thesis
  proof (cases "st1 = BodyOk")
    case False
    then have "st = st1" "d' = d1" "s' = s1" using assms(4) w1 by (auto simp: chunk_data_def)
    moreover have "body_failed (d1, s1)" using WriteBody_failed [OF w1 False] by (simp add: body_failed_def)
    moreover have "body_failed (body_bytes put [c] (d, s))"
      using body_bytes_run(2) [OF assms(1) data pos] w1 False by simp
    ultimately show ?thesis using False body_failed_bytes by simp
  next
    case True
    note w = w1 [unfolded True]
    let ?d = "d1\<lparr>remaining := remaining d - 1\<rparr>"
    note keep = WriteBody_remaining [OF w] WriteBody_state [OF w] WriteBody_ok [OF assms(1) w]
    have first: "body_bytes put [c] (d, s) =
        (?d\<lparr>body_state := (if remaining d = 1 then kChunkDataCr else kChunkData)\<rparr>, s1)"
      using body_bytes_run(1) [OF assms(1) data pos w] next_st assms(2)
      by (simp add: word_unat_eq_iff [of "remaining d"])
    show ?thesis
    proof (cases "remaining d \<noteq> 1 \<and> rest \<noteq> []")
      case False
      then have "st = BodyOk" "copied = 0" "s' = s1"
        "d' = (if remaining d = 1 then ?d\<lparr>body_state := kChunkDataCr\<rparr> else ?d)"
        using assms(4) w keep by (auto simp: chunk_data_def Let_def)
      then show ?thesis using first keep assms(2) pos
        by (cases d1) (auto simp: wf_decoder_def in_data_def)
    next
      case bulk: True
      define a where "a = min (length rest) (unat (remaining d - 1))"
      have a: "clamp_to (length rest) (remaining d - 1) = a"
        by (simp add: a_def clamp_to_min)
      have "remaining d - 1 \<noteq> 0" using bulk by simp
      then have a_pos: "0 < a" and a_le: "a \<le> length rest" "a \<le> unat (remaining d - 1)"
        using bulk unat_gt_0 [of "remaining d - 1"] by (auto simp: a_def)
      have in_d: "in_data ?d" and st_d: "body_state ?d = kChunkData"
        using keep assms(2) by (simp_all add: in_data_def)
      have first': "body_bytes put [c] (d, s) = (?d, s1)"
        using first bulk st_d by (cases d1) simp
      obtain st2 d2 s2 where w2: "WriteBody put (take a rest) ?d s1 = (st2, d2, s2)" by (metis prod_cases3)
      have len: "length (take a rest) \<le> unat (remaining ?d)" using a_le by simp
      have bytes: "body_bytes put (c # take a rest) (d, s) = body_bytes put (take a rest) (?d, s1)"
        using first' by simp
      show ?thesis
      proof (cases "st2 = BodyOk")
        case False
        then have "st = st2" "d' = d2" "s' = s2"
          using assms(4) w w2 keep bulk by (auto simp: chunk_data_def Let_def a)
        moreover have "body_failed (d2, s2)" using WriteBody_failed [OF w2 False] by (simp add: body_failed_def)
        moreover have "body_failed (body_bytes put (c # take a rest) (d, s))"
          using body_bytes_run(2) [OF keep(3) in_d len] w2 False bytes by simp
        then have "body_failed (body_bytes put ((c # take a rest) @ drop a rest) (d, s))"
          unfolding body_bytes_simps(3) by (rule body_failed_bytes)
        ultimately show ?thesis using False by simp
      next
        case True
        note w' = w2 [unfolded True]
        have r2: "remaining d2 = remaining d - 1" using WriteBody_remaining [OF w'] by simp
        have st: "st = BodyOk" "copied = a" "s' = s2"
          "d' = (let d3 = d2\<lparr>remaining := remaining d2 - of_nat a\<rparr>
                 in if remaining d3 = 0 then d3\<lparr>body_state := kChunkDataCr\<rparr> else d3)"
          using assms(4) w w' keep bulk by (auto simp: chunk_data_def Let_def a)
        have full: "remaining d - 1 - of_nat a = 0 \<longleftrightarrow> a = unat (remaining d - 1)"
          by (rule sub_of_nat_eq_0) (rule a_le(2))
        have "body_bytes put (take a rest) (?d, s1) = (d', s')"
          using body_bytes_run(1) [OF keep(3) in_d len w'] st r2 full a_pos a_le st_d WriteBody_state [OF w']
          by (cases d2) (auto simp: data_next_def Let_def)
        moreover have "a < unat (remaining d)"
          using a_le(2) pos by (simp add: unat_sub word_le_nat_alt)
        ultimately show ?thesis
          using st bytes WriteBody_ok [OF keep(3) w'] WriteBody_state [OF w'] st_d r2
          by (auto simp: wf_decoder_def in_data_def Let_def)
      qed
    qed
  qed
qed

lemma feed_body_agrees:
  assumes "ok s" and "wf_decoder d" and "body_state d \<noteq> kFailed" and "body_state d \<noteq> kComplete"
    and "feed_body put xs k d s = (st, n, d', s')"
  shows "agrees (body_bytes put xs (d, s)) (d', s')"
  using assms
proof (induction "length xs" arbitrary: xs k d s rule: less_induct)
  case less
  note prems = less.prems and eq = less.prems(5) [unfolded feed_body.simps [of put xs]]
  show ?case
  proof (cases xs)
    case Nil
    with eq show ?thesis by (simp add: agrees_def)
  next
    case (Cons c rest)
    consider "body_state d = kContentLength" | "body_state d = kChunkData" | "body_state d = kFinalLf"
      | "body_state d \<notin> {kContentLength, kChunkData, kFinalLf, kFailed, kComplete}"
      using prems(3,4) by auto
    then show ?thesis
    proof cases
      case 1
      define a where "a = min (length xs) (unat (remaining d))"
      have a: "clamp_to (length xs) (remaining d) = a" by (simp add: a_def clamp_to_min)
      have data: "in_data d" and r: "remaining d \<noteq> 0"
        using 1 prems(2) by (simp_all add: in_data_def wf_decoder_def)
      have a_le: "a \<le> unat (remaining d)" "a \<le> length xs" and len: "length (take a xs) \<le> unat (remaining d)"
        and a_pos: "0 < a" using Cons r unat_gt_0 [of "remaining d"] by (auto simp: a_def)
      obtain st1 d1 s1 where w: "WriteBody put (take a xs) d s = (st1, d1, s1)" by (metis prod_cases3)
      show ?thesis
      proof (cases "st1 = BodyOk")
        case False
        with eq w 1 Cons a have "d' = d1" "s' = s1" by auto
        then have "body_failed (d', s')" using WriteBody_failed [OF w False] by (simp add: body_failed_def)
        moreover have "body_failed (body_bytes put (take a xs) (d, s))"
          using body_bytes_run(2) [OF prems(1) data len] w False by simp
        then have "body_failed (body_bytes put (take a xs @ drop a xs) (d, s))"
          unfolding body_bytes_simps(3) by (rule body_failed_bytes)
        ultimately show ?thesis by (simp add: agrees_def)
      next
        case True
        note w' = w [unfolded True]
        note keep = WriteBody_remaining [OF w'] WriteBody_state [OF w']
        let ?d = "d1\<lparr>remaining := remaining d - of_nat a\<rparr>"
        have full: "remaining d - of_nat a = 0 \<longleftrightarrow> a = unat (remaining d)"
          by (rule sub_of_nat_eq_0) (rule a_le(1))
        have run: "body_bytes put (take a xs) (d, s) =
            (?d\<lparr>body_state := (if a = unat (remaining d) then kComplete else kContentLength)\<rparr>, s1)"
          using body_bytes_run(1) [OF prems(1) data len w'] a_le(2) a_pos 1
          by (auto simp: data_next_def)
        show ?thesis
        proof (cases "a = unat (remaining d)")
          case True
          with eq w' 1 Cons a keep full have "d' = ?d\<lparr>body_state := kComplete\<rparr>" "s' = s1"
            by (auto simp: Let_def)
          moreover have "body_bytes put (take a xs @ drop a xs) (d, s) = (?d\<lparr>body_state := kComplete\<rparr>, s1)"
            unfolding body_bytes_simps(3) run using True by (simp add: body_bytes_absorbing)
          ultimately show ?thesis by (simp add: agrees_def)
        next
          case False
          then have all: "take a xs = xs" "drop a xs = []" by (auto simp: a_def min_def split: if_splits)
          with eq w' 1 Cons a keep full False have "d' = ?d" "s' = s1"
            by (auto simp: feed_body.simps)
          moreover have "?d\<lparr>body_state := kContentLength\<rparr> = ?d" using keep 1 by (cases d1) simp
          ultimately show ?thesis using run all False by (simp add: agrees_def)
        qed
      qed
    next
      case 2
      then have r: "remaining d \<noteq> 0" using prems(2) by (simp add: wf_decoder_def in_data_def)
      obtain st1 m d1 s1 where cd: "chunk_data put c rest d s = (st1, m, d1, s1)" by (metis prod_cases4)
      note run = chunk_data_run [OF prems(1) 2 r cd]
      show ?thesis
      proof (cases "st1 = BodyOk")
        case False
        with run eq cd 2 Cons show ?thesis by (auto simp: agrees_def)
      next
        case True
        with run have run': "body_bytes put (c # take m rest) (d, s) = (d1, s1)" "ok s1" "wf_decoder d1"
          "body_state d1 \<noteq> kFailed" "body_state d1 \<noteq> kComplete" by auto
        have "feed_body put (drop m rest) (Suc k + m) d1 s1 = (st, n, d', s')"
          using eq cd 2 Cons True by simp
        from less.hyps [OF _ run'(2-5) this] Cons
        have "agrees (body_bytes put (drop m rest) (d1, s1)) (d', s')" by simp
        moreover have "body_bytes put xs (d, s) = body_bytes put ((c # take m rest) @ drop m rest) (d, s)"
          by (simp add: Cons)
        ultimately show ?thesis unfolding body_bytes_simps(3) run'(1) by simp
      qed
    next
      case 3
      with eq Cons show ?thesis
        by (auto simp: agrees_def body_byte_def body_bytes_absorbing body_failed_def)
    next
      case 4
      obtain st1 d1 where cb: "chunk_byte c d = (st1, d1)" by (metis prod.collapse)
      have byte: "body_byte put c (d, s) = (d1, s)"
        using 4 cb by (auto simp: body_byte_def split: BodyState.split)
      show ?thesis
      proof (cases st1)
        case None
        note wf = chunk_byte_wf [OF cb [unfolded None] 4]
        have "feed_body put rest (Suc k) d1 s = (st, n, d', s')"
          using eq Cons 4 cb None by auto
        from less.hyps [OF _ prems(1) wf this] Cons byte show ?thesis by simp
      next
        case (Some st2)
        then have "d' = d1" "s' = s" using eq Cons 4 cb by auto
        moreover have "body_state d1 = kFailed" using chunk_byte_failed cb Some by blast
        ultimately show ?thesis using Cons byte
          by (simp add: agrees_def body_bytes_absorbing)
      qed
    qed
  qed
qed

text \<open>
  Unexpected data is reported exactly when the body was complete before the last byte.
\<close>

lemma body_bytes_in_data:
  assumes "ok s" and "in_data d" and "length p \<le> unat (remaining d)"
    and "body_state d = kContentLength \<longrightarrow> length p < unat (remaining d)"
  shows "body_state (fst (body_bytes put p (d, s))) \<noteq> kComplete"
proof (cases "fst (WriteBody put p d s) = BodyOk")
  case True
  then obtain d1 s1 where w: "WriteBody put p d s = (BodyOk, d1, s1)" by (metis prod.collapse)
  with body_bytes_run(1) [OF assms(1-3) w] assms(2,4) show ?thesis
    by (auto simp: in_data_def data_next_def)
next
  case False
  with body_bytes_run(2) [OF assms(1-3) False] show ?thesis by (simp add: body_failed_def)
qed

lemma feed_body_status:
  assumes "ok s" and "wf_decoder d" and "body_state d \<noteq> kFailed" and "body_state d \<noteq> kComplete"
    and "feed_body put xs k d s = (st, n, d', s')" and "body_state d' \<noteq> kFailed"
  shows "st = (if xs \<noteq> [] \<and> body_state (fst (body_bytes put (butlast xs) (d, s))) = kComplete
               then BodyUnexpectedData else if body_state d' = kComplete then BodyComplete else BodyOk)"
  using assms
proof (induction "length xs" arbitrary: xs k d s rule: less_induct)
  case less
  note prems = less.prems and eq = less.prems(5) [unfolded feed_body.simps [of put xs]]
  show ?case
  proof (cases xs)
    case Nil
    with eq show ?thesis by auto
  next
    case (Cons c rest)
    consider "body_state d = kContentLength" | "body_state d = kChunkData" | "body_state d = kFinalLf"
      | "body_state d \<notin> {kContentLength, kChunkData, kFinalLf, kFailed, kComplete}"
      using prems(3,4) by auto
    then show ?thesis
    proof cases
      case 1
      define a where "a = min (length xs) (unat (remaining d))"
      have a: "clamp_to (length xs) (remaining d) = a" by (simp add: a_def clamp_to_min)
      have data: "in_data d" using 1 by (simp add: in_data_def)
      have a_le: "a \<le> unat (remaining d)" by (simp add: a_def)
      obtain st1 d1 s1 where w: "WriteBody put (take a xs) d s = (st1, d1, s1)" by (metis prod_cases3)
      have "st1 = BodyOk"
      proof (rule ccontr)
        assume "st1 \<noteq> BodyOk"
        then have "d' = d1" using eq w 1 Cons a by auto
        with WriteBody_failed [OF w \<open>st1 \<noteq> BodyOk\<close>] prems(6) show False by simp
      qed
      note w' = w [unfolded this]
      have full: "remaining d1 - of_nat a = 0 \<longleftrightarrow> a = unat (remaining d)"
        using sub_of_nat_eq_0 [OF a_le] WriteBody_remaining [OF w'] by simp
      show ?thesis
      proof (cases "unat (remaining d) < length xs")
        case True
        then have au: "a = unat (remaining d)" by (simp add: a_def)
        then have len: "length (take a xs) \<le> unat (remaining d)" by simp
        have "a \<noteq> 0" using au prems(2) data by (simp add: wf_decoder_def unat_eq_0)
        have "body_state (fst (body_bytes put (take a xs) (d, s))) = kComplete"
          using body_bytes_run(1) [OF prems(1) data len w'] 1 True au \<open>a \<noteq> 0\<close> Cons by (auto simp: data_next_def)
        moreover have "take a (butlast xs) = take a xs"
          using True au by (simp add: butlast_conv_take min_absorb1)
        then have "butlast xs = take a xs @ drop a (butlast xs)"
          using append_take_drop_id [of a "butlast xs"] by simp
        then have "body_bytes put (butlast xs) (d, s) = body_bytes put (take a xs) (d, s)"
          using calculation by (metis body_bytes_absorbing body_bytes_simps(3))
        ultimately show ?thesis
          using eq w' 1 Cons a full au True by (auto simp: Let_def)
      next
        case False
        then have al: "a = length xs" by (simp add: a_def)
        have "body_state (fst (body_bytes put (butlast xs) (d, s))) \<noteq> kComplete"
          using False Cons by (intro body_bytes_in_data [OF prems(1) data]) auto
        then show ?thesis
          using eq w' 1 Cons a full al WriteBody_state [OF w']
          by (auto simp: Let_def feed_body.simps split: if_splits)
      qed
    next
      case 2
      then have data: "in_data d" and r: "remaining d \<noteq> 0"
        using prems(2) by (simp_all add: wf_decoder_def in_data_def)
      obtain st1 m d1 s1 where cd: "chunk_data put c rest d s = (st1, m, d1, s1)" by (metis prod_cases4)
      note run = chunk_data_run [OF prems(1) 2 r cd]
      have ok1: "st1 = BodyOk" using run eq cd 2 Cons prems(6) by (auto simp: body_failed_def split: if_splits)
      with run have run': "body_bytes put (c # take m rest) (d, s) = (d1, s1)" "ok s1" "wf_decoder d1"
          "body_state d1 \<noteq> kFailed" "body_state d1 \<noteq> kComplete" and m: "m < unat (remaining d)" by auto
      have next_feed: "feed_body put (drop m rest) (Suc k + m) d1 s1 = (st, n, d', s')"
        using eq cd 2 Cons ok1 by simp
      from less.hyps [OF _ run'(2-5) next_feed prems(6)] Cons
      have IH: "st = (if drop m rest \<noteq> [] \<and> body_state (fst (body_bytes put (butlast (drop m rest)) (d1, s1))) = kComplete
          then BodyUnexpectedData else if body_state d' = kComplete then BodyComplete else BodyOk)" by simp
      show ?thesis
      proof (cases "drop m rest = []")
        case True
        then have "length (butlast xs) < unat (remaining d)" using m Cons by simp
        then have "body_state (fst (body_bytes put (butlast xs) (d, s))) \<noteq> kComplete"
          by (intro body_bytes_in_data [OF prems(1) data]) simp_all
        with IH True show ?thesis by simp
      next
        case False
        have "xs = (c # take m rest) @ drop m rest" by (simp add: Cons)
        then have "butlast xs = (c # take m rest) @ butlast (drop m rest)"
          using False by (metis butlast_append)
        then have "body_bytes put (butlast xs) (d, s) = body_bytes put (butlast (drop m rest)) (d1, s1)"
          by (simp only: body_bytes_simps(3) run'(1))
        with IH False Cons show ?thesis by simp
      qed
    next
      case 3
      show ?thesis
      proof (cases rest)
        case Nil
        with 3 eq Cons prems(6) show ?thesis by (auto split: if_splits)
      next
        case (Cons c2 rest2)
        have "c = LF" using 3 eq \<open>xs = c # rest\<close> prems(6) by (auto split: if_splits)
        then have "body_state (fst (body_byte put c (d, s))) = kComplete" using 3 by (simp add: body_byte_def)
        then have "body_state (fst (body_bytes put (butlast xs) (d, s))) = kComplete"
          using Cons \<open>xs = c # rest\<close> by (simp add: body_bytes_absorbing)
        with 3 eq \<open>xs = c # rest\<close> \<open>c = LF\<close> Cons show ?thesis by auto
      qed
    next
      case 4
      obtain st1 d1 where cb: "chunk_byte c d = (st1, d1)" by (metis prod.collapse)
      have byte: "body_byte put c (d, s) = (d1, s)"
        using 4 cb by (auto simp: body_byte_def split: BodyState.split)
      have none: "st1 = None"
      proof (cases st1)
        case (Some st2)
        then have "d' = d1" using eq Cons 4 cb by auto
        then show ?thesis using chunk_byte_failed cb Some prems(6) by blast
      qed simp
      note wf = chunk_byte_wf [OF cb [unfolded none] 4]
      have "feed_body put rest (Suc k) d1 s = (st, n, d', s')" using eq Cons 4 cb none by auto
      from less.hyps [OF _ prems(1) wf this prems(6)] Cons
      have IH: "st = (if rest \<noteq> [] \<and> body_state (fst (body_bytes put (butlast rest) (d1, s))) = kComplete
          then BodyUnexpectedData else if body_state d' = kComplete then BodyComplete else BodyOk)" by simp
      show ?thesis using IH Cons byte prems(4) by (cases "rest = []") auto
    qed
  qed
qed

end

end
