(* ===== verification/Chunked_Body.thy ===== *)
theory Chunked_Body
  imports Http_Body
begin

text \<open>
  What the body decoder accepts.  The specification of a chunked body is a list of chunks, each
  a string of hexadecimal digits with the data it announces; \<open>encode_body\<close> prints it.  The
  decoder completes on exactly these encodings (and, for a body framed by its length, on exactly
  that many bytes), delivers exactly the data, never more than its limit, and does not depend on
  how the network cuts the stream.
\<close>

section \<open>Chunk encodings\<close>

text \<open>At most eighteen digits, the size of \<open>chunk_line_\<close>, and a value that fits 64 bits.\<close>

definition size_digits :: "byte list \<Rightarrow> nat \<Rightarrow> bool" where
  "size_digits ds n \<longleftrightarrow> ds \<noteq> [] \<and> length ds \<le> kChunkLineBytes \<and>
     digits_value 16 hex_digit ds = Some n \<and> n < 2 ^ 64"

type_synonym chunk = "byte list \<times> byte list"

definition wf_chunk :: "chunk \<Rightarrow> bool" where
  "wf_chunk c \<longleftrightarrow> snd c \<noteq> [] \<and> size_digits (fst c) (length (snd c))"

definition encode_chunks :: "chunk list \<Rightarrow> byte list" where
  "encode_chunks cs = concat (map (\<lambda>c. fst c @ [CR, LF] @ snd c @ [CR, LF]) cs)"

definition encode_body :: "chunk list \<Rightarrow> byte list \<Rightarrow> byte list" where
  "encode_body cs zero = encode_chunks cs @ zero @ [CR, LF, CR, LF]"

definition chunk_bytes :: "chunk list \<Rightarrow> byte list" where
  "chunk_bytes cs = concat (map snd cs)"

lemma size_digits_hex: "size_digits ds n \<Longrightarrow> hex_loop 0 ds = Some (of_nat n)"
  by (auto simp: size_digits_def hex.acc_value)

lemma hex_size_digits:
  "hex_loop 0 ds = Some v \<Longrightarrow> ds \<noteq> [] \<Longrightarrow> length ds \<le> kChunkLineBytes \<Longrightarrow> size_digits ds (unat v)"
  by (auto simp: size_digits_def hex.acc_value unat_of_nat)

lemma encode_chunks_simps [simp]:
  "encode_chunks [] = []"
  "encode_chunks (c # cs) = fst c @ [CR, LF] @ snd c @ [CR, LF] @ encode_chunks cs"
  "encode_chunks (cs @ ds) = encode_chunks cs @ encode_chunks ds"
  by (simp_all add: encode_chunks_def)

lemma chunk_bytes_simps [simp]:
  "chunk_bytes [] = []"
  "chunk_bytes (c # cs) = snd c @ chunk_bytes cs"
  "chunk_bytes (cs @ ds) = chunk_bytes cs @ chunk_bytes ds"
  by (simp_all add: chunk_bytes_def)

section \<open>The decoder as a consumer of pieces\<close>

definition body_feed :: "'s sink_write \<Rightarrow> byte list \<Rightarrow> HttpBodyDecoder \<times> 's \<Rightarrow> HttpBodyDecoder \<times> 's" where
  "body_feed put xs ds =
     (case FeedBody put (Some xs) (length xs) True (fst ds) (snd ds) of (st, n, d, s) \<Rightarrow> (d, s))"

definition body_good :: "('s \<Rightarrow> bool) \<Rightarrow> HttpBodyDecoder \<times> 's \<Rightarrow> bool" where
  "body_good ok ds \<longleftrightarrow> ok (snd ds) \<and> wf_decoder (fst ds) \<and> \<not> body_failed ds"

lemma chunk_byte_not_data:
  "\<not> in_data d \<Longrightarrow> wf_decoder (snd (chunk_byte c d))"
  by (auto simp: chunk_byte_def Let_def wf_decoder_def in_data_def split: BodyState.split option.split)

context body_sink
begin

lemma body_byte_good:
  assumes "body_good ok ds" and "\<not> body_failed (body_byte put c ds)"
  shows "body_good ok (body_byte put c ds)"
proof -
  obtain d s where ds: "ds = (d, s)" by (cases ds)
  show ?thesis
  proof (cases "in_data d")
    case True
    obtain st d1 s1 where w: "WriteBody put [c] d s = (st, d1, s1)" by (metis prod_cases3)
    have "st = BodyOk"
    proof (rule ccontr)
      assume "st \<noteq> BodyOk"
      with assms(2) w WriteBody_failed [OF w] show False
        by (simp add: ds body_byte_data [OF True] data_byte_def body_failed_def)
    qed
    note w' = w [unfolded this]
    have "body_byte put c ds = (d1\<lparr>remaining := remaining d1 - 1,
        body_state := (if remaining d1 = 1 then data_next (body_state d) else body_state d1)\<rparr>, s1)"
      using w' by (simp add: ds body_byte_data [OF True] data_byte_def)
    then show ?thesis
      using assms WriteBody_ok [OF _ w'] WriteBody_state [OF w']
      by (auto simp: ds body_good_def wf_decoder_def in_data_def data_next_def)
  next
    case False
    then show ?thesis
      using assms chunk_byte_not_data [OF False, of c]
      by (auto simp: ds body_good_def body_byte_def wf_decoder_def in_data_def split: BodyState.splits)
  qed
qed

lemma body_bytes_good:
  "body_good ok ds \<Longrightarrow> \<not> body_failed (body_bytes put xs ds) \<Longrightarrow> body_good ok (body_bytes put xs ds)"
proof (induction xs arbitrary: ds)
  case Nil
  then show ?case by simp
next
  case (Cons x xs)
  then have "\<not> body_failed (body_byte put x ds)"
    using body_failed_bytes [of "body_byte put x ds" put xs] by auto
  with Cons body_byte_good show ?case by simp
qed

lemma body_feed_agrees:
  assumes "body_good ok ds"
  shows "agrees (body_bytes put xs ds) (body_feed put xs ds)"
proof (cases "body_state (fst ds) = kComplete")
  case True
  then show ?thesis by (simp add: agrees_def body_feed_def FeedBody_def body_bytes_absorbing)
next
  case False
  obtain d s where ds: "ds = (d, s)" by (cases ds)
  obtain st n d' s' where f: "feed_body put xs 0 d s = (st, n, d', s')" by (metis prod_cases4)
  have "agrees (body_bytes put xs (d, s)) (d', s')"
    using feed_body_agrees [OF _ _ _ _ f] assms False by (simp add: ds body_good_def body_failed_def)
  then show ?thesis
    using assms False f by (simp add: ds body_feed_def FeedBody_def body_good_def body_failed_def)
qed

lemma body_feed_eq:
  assumes "body_good ok ds"
  shows "\<not> body_failed (body_feed put xs ds) \<Longrightarrow> body_feed put xs ds = body_bytes put xs ds"
    and "\<not> body_failed (body_bytes put xs ds) \<Longrightarrow> body_feed put xs ds = body_bytes put xs ds"
  using body_feed_agrees [OF assms, of xs] by (auto simp: agrees_def)

end

sublocale body_sink \<subseteq> body_stream: incremental "body_feed put" "body_good ok"
proof
  fix ds assume "body_good ok ds"
  then show "body_feed put [] ds = ds"
    using body_feed_eq(2) [of ds "[]"] by (simp add: body_good_def)
next
  fix xs ys ds assume good: "body_good ok ds" and "body_good ok (body_feed put (xs @ ys) ds)"
  then have nf: "\<not> body_failed (body_feed put (xs @ ys) ds)" by (simp add: body_good_def)
  then have eq: "body_feed put (xs @ ys) ds = body_bytes put ys (body_bytes put xs ds)"
    using body_feed_eq(1) [OF good, of "xs @ ys"] by simp
  with nf have nf1: "\<not> body_failed (body_bytes put xs ds)" using body_failed_bytes by metis
  then have eq1: "body_feed put xs ds = body_bytes put xs ds" by (rule body_feed_eq(2) [OF good])
  moreover have good1: "body_good ok (body_bytes put xs ds)" using good nf1 by (rule body_bytes_good)
  moreover have "body_feed put ys (body_bytes put xs ds) = body_bytes put ys (body_bytes put xs ds)"
    using body_feed_eq(2) [OF good1] nf eq by simp
  ultimately show "body_good ok (body_feed put xs ds) \<and>
      body_feed put (xs @ ys) ds = body_feed put ys (body_feed put xs ds)"
    using eq by simp
qed

section \<open>Everything that is accepted is an encoding\<close>

text \<open>
  The input \<open>pre\<close> read so far and the data \<open>out\<close> delivered so far, as seen from the state.
\<close>

definition chunk_inv :: "byte list \<Rightarrow> HttpBodyDecoder \<Rightarrow> byte list \<Rightarrow> bool" where
  "chunk_inv pre d out \<longleftrightarrow>
     (\<exists>cs. list_all wf_chunk cs \<and>
       (case body_state d of
          kChunkSize \<Rightarrow>
            pre = encode_chunks cs @ chunk_line d \<and> length (chunk_line d) \<le> kChunkLineBytes \<and>
            out = chunk_bytes cs
        | kChunkSizeLf \<Rightarrow>
            (\<exists>ds. size_digits ds (unat (remaining d)) \<and> pre = encode_chunks cs @ ds @ [CR] \<and>
               out = chunk_bytes cs \<and> chunk_line d = [])
        | kChunkData \<Rightarrow>
            (\<exists>ds data. size_digits ds (length data + unat (remaining d)) \<and>
               pre = encode_chunks cs @ ds @ [CR, LF] @ data \<and> out = chunk_bytes cs @ data \<and>
               remaining d \<noteq> 0 \<and> chunk_line d = [])
        | kChunkDataCr \<Rightarrow>
            (\<exists>ds data. wf_chunk (ds, data) \<and> pre = encode_chunks cs @ ds @ [CR, LF] @ data \<and>
               out = chunk_bytes cs @ data \<and> chunk_line d = [])
        | kChunkDataLf \<Rightarrow>
            (\<exists>ds data. wf_chunk (ds, data) \<and> pre = encode_chunks cs @ ds @ [CR, LF] @ data @ [CR] \<and>
               out = chunk_bytes cs @ data \<and> chunk_line d = [])
        | kFinalCr \<Rightarrow>
            (\<exists>ds. size_digits ds 0 \<and> pre = encode_chunks cs @ ds @ [CR, LF] \<and> out = chunk_bytes cs)
        | kFinalLf \<Rightarrow>
            (\<exists>ds. size_digits ds 0 \<and> pre = encode_chunks cs @ ds @ [CR, LF, CR] \<and> out = chunk_bytes cs)
        | kComplete \<Rightarrow>
            (\<exists>ds. size_digits ds 0 \<and> pre = encode_body cs ds \<and> out = chunk_bytes cs)
        | _ \<Rightarrow> False))"

lemma chunk_inv_framing:
  assumes "chunk_inv pre d out" and "body_state d \<notin> {kChunkData, kFinalLf, kComplete}"
    and "chunk_byte c d = (None, d')"
  shows "chunk_inv (pre @ [c]) d' out"
proof -
  from assms(1) obtain cs where cs: "list_all wf_chunk cs"
    and inv: "case body_state d of
          kChunkSize \<Rightarrow>
            pre = encode_chunks cs @ chunk_line d \<and> length (chunk_line d) \<le> kChunkLineBytes \<and>
            out = chunk_bytes cs
        | kChunkSizeLf \<Rightarrow>
            (\<exists>ds. size_digits ds (unat (remaining d)) \<and> pre = encode_chunks cs @ ds @ [CR] \<and>
               out = chunk_bytes cs \<and> chunk_line d = [])
        | kChunkDataCr \<Rightarrow>
            (\<exists>ds data. wf_chunk (ds, data) \<and> pre = encode_chunks cs @ ds @ [CR, LF] @ data \<and>
               out = chunk_bytes cs @ data \<and> chunk_line d = [])
        | kChunkDataLf \<Rightarrow>
            (\<exists>ds data. wf_chunk (ds, data) \<and> pre = encode_chunks cs @ ds @ [CR, LF] @ data @ [CR] \<and>
               out = chunk_bytes cs @ data \<and> chunk_line d = [])
        | kFinalCr \<Rightarrow>
            (\<exists>ds. size_digits ds 0 \<and> pre = encode_chunks cs @ ds @ [CR, LF] \<and> out = chunk_bytes cs)
        | _ \<Rightarrow> False"
    using assms(2) by (cases "body_state d") (auto simp: chunk_inv_def)
  show ?thesis
  proof (cases "body_state d")
    case kChunkSize
    show ?thesis
    proof (cases "c = CR")
      case True
      with assms(3) kChunkSize obtain v where v: "hex_loop 0 (chunk_line d) = Some v" "chunk_line d \<noteq> []"
        "d' = d\<lparr>remaining := v, chunk_line := [], body_state := kChunkSizeLf\<rparr>"
        by (auto simp: chunk_byte_def Let_def split: if_split_asm option.split_asm)
      with inv kChunkSize True cs hex_size_digits [OF v(1,2)] show ?thesis by (auto simp: chunk_inv_def)
    next
      case False
      with assms(3) kChunkSize have "d' = d\<lparr>chunk_line := chunk_line d @ [c]\<rparr>"
        "length (chunk_line d) < kChunkLineBytes"
        by (auto simp: chunk_byte_def Let_def split: if_split_asm)
      with inv kChunkSize cs show ?thesis by (auto simp: chunk_inv_def)
    qed
  next
    case kChunkSizeLf
    with assms(3) have d': "c = LF" "d' = d\<lparr>body_state := (if remaining d = 0 then kFinalCr else kChunkData)\<rparr>"
      by (auto simp: chunk_byte_def Let_def split: if_split_asm)
    from inv kChunkSizeLf obtain ds where ds: "size_digits ds (unat (remaining d))"
      "pre = encode_chunks cs @ ds @ [CR]" "out = chunk_bytes cs" "chunk_line d = []" by auto
    show ?thesis
    proof (cases "remaining d = 0")
      case True
      with d' ds cs show ?thesis by (auto simp: chunk_inv_def)
    next
      case False
      have "size_digits ds (length [] + unat (remaining d))" using ds(1) by simp
      with False d' ds cs show ?thesis
        unfolding chunk_inv_def by (intro exI [of _ cs]) (auto intro!: exI [of _ ds] exI [of _ "[]"])
    qed
  next
    case kChunkDataCr
    with assms(3) have "c = CR" "d' = d\<lparr>body_state := kChunkDataLf\<rparr>"
      by (auto simp: chunk_byte_def Let_def split: if_split_asm)
    with inv kChunkDataCr cs show ?thesis by (auto simp: chunk_inv_def)
  next
    case kChunkDataLf
    with assms(3) have d': "c = LF" "d' = d\<lparr>body_state := kChunkSize\<rparr>"
      by (auto simp: chunk_byte_def Let_def split: if_split_asm)
    from inv kChunkDataLf obtain ds data where "wf_chunk (ds, data)"
      "pre = encode_chunks cs @ ds @ [CR, LF] @ data @ [CR]" "out = chunk_bytes cs @ data" "chunk_line d = []"
      by auto
    with d' cs show ?thesis
      unfolding chunk_inv_def by (intro exI [of _ "cs @ [(ds, data)]"]) simp
  next
    case kFinalCr
    with assms(3) have "c = CR" "d' = d\<lparr>body_state := kFinalLf\<rparr>"
      by (auto simp: chunk_byte_def Let_def split: if_split_asm)
    with inv kFinalCr cs show ?thesis by (auto simp: chunk_inv_def)
  qed (use inv in simp_all)
qed

lemma chunk_inv_data:
  assumes "chunk_inv pre d out" and "body_state d = kChunkData" and "d' = d\<lparr>decoded_bytes := n,
      remaining := remaining d - 1, body_state := (if remaining d = 1 then kChunkDataCr else kChunkData)\<rparr>"
  shows "chunk_inv (pre @ [c]) d' (out @ [c])"
proof -
  from assms(1,2) obtain cs ds data where cs: "list_all wf_chunk cs"
    and ds: "size_digits ds (length data + unat (remaining d))"
      "pre = encode_chunks cs @ ds @ [CR, LF] @ data" "out = chunk_bytes cs @ data"
      "remaining d \<noteq> 0" "chunk_line d = []" by (auto simp: chunk_inv_def)
  show ?thesis
  proof (cases "remaining d = 1")
    case True
    then have "wf_chunk (ds, data @ [c])" using ds(1) by (simp add: wf_chunk_def)
    with True assms(3) ds cs show ?thesis
      unfolding chunk_inv_def
      by (intro exI [of _ cs]) (auto intro!: exI [of _ ds] exI [of _ "data @ [c]"])
  next
    case False
    have "unat (remaining d) = Suc (unat (remaining d - 1))"
      using ds(4) unat_gt_0 [of "remaining d"] by (simp add: unat_sub word_le_nat_alt)
    then have "size_digits ds (length (data @ [c]) + unat (remaining d - 1))" using ds(1) by simp
    moreover have "remaining d - 1 \<noteq> 0" using False by simp
    ultimately show ?thesis
      using False assms(3) ds cs unfolding chunk_inv_def
      by (intro exI [of _ cs]) (auto intro!: exI [of _ ds] exI [of _ "data @ [c]"])
  qed
qed

text \<open>The count of delivered bytes, and the limit.\<close>

definition count_inv :: "u64 \<Rightarrow> HttpBodyDecoder \<Rightarrow> byte list \<Rightarrow> bool" where
  "count_inv maximum d out \<longleftrightarrow> maximum_body_bytes d = maximum \<and>
     unat (decoded_bytes d) = length out \<and> length out \<le> unat maximum"

lemma chunk_byte_count: "count_inv maximum d out \<Longrightarrow> count_inv maximum (snd (chunk_byte c d)) out"
  by (auto simp: chunk_byte_def count_inv_def Let_def split: BodyState.split option.split)

context body_sink
begin

lemma data_byte_accepted:
  assumes "ok s" and "in_data d" and "\<not> body_failed (body_byte put c (d, s))" and "count_inv maximum d out"
  obtains s' where "body_byte put c (d, s) = (d\<lparr>decoded_bytes := decoded_bytes d + 1,
      remaining := remaining d - 1,
      body_state := (if remaining d = 1 then data_next (body_state d) else body_state d)\<rparr>, s')"
    and "held s' = held s @ [c]"
    and "unat (decoded_bytes d + 1) = length (out @ [c])" and "length (out @ [c]) \<le> unat maximum"
proof -
  obtain st d1 s1 where w: "WriteBody put [c] d s = (st, d1, s1)" by (metis prod_cases3)
  have "st = BodyOk"
  proof (rule ccontr)
    assume "st \<noteq> BodyOk"
    with assms(3) w WriteBody_failed [OF w] show False
      by (simp add: body_byte_data [OF assms(2)] data_byte_def body_failed_def)
  qed
  note w' = w [unfolded this]
  from w' have h: "put [c] s = (True, s1)" and d1: "d1 = d\<lparr>decoded_bytes := decoded_bytes d + 1\<rparr>"
    and le: "unat (decoded_bytes d) + 1 \<le> unat (maximum_body_bytes d)"
    by (auto simp: WriteBody_Ok_iff)
  have "unat (decoded_bytes d + 1) = unat (decoded_bytes d) + 1"
    using le u64_less [of "maximum_body_bytes d"] by (simp add: unat_word_ariths)
  with le assms(4) have "unat (decoded_bytes d + 1) = length (out @ [c])" "length (out @ [c]) \<le> unat maximum"
    by (auto simp: count_inv_def)
  moreover have "body_byte put c (d, s) = (d\<lparr>decoded_bytes := decoded_bytes d + 1,
      remaining := remaining d - 1,
      body_state := (if remaining d = 1 then data_next (body_state d) else body_state d)\<rparr>, s1)"
    using w' by (simp add: body_byte_data [OF assms(2)] data_byte_def d1)
  moreover have "held s1 = held s @ [c]" using write_held [OF assms(1) h] by simp
  ultimately show ?thesis by (intro that)
qed

lemma chunk_inv_byte:
  assumes "ok s" and "chunk_inv pre d out" and "count_inv maximum d out" and "held s = h0 @ out"
    and "body_state d \<noteq> kComplete" and "body_byte put c (d, s) = (d', s')" and "body_state d' \<noteq> kFailed"
  shows "\<exists>out'. chunk_inv (pre @ [c]) d' out' \<and> count_inv maximum d' out' \<and> held s' = h0 @ out'"
proof -
  consider "body_state d = kChunkData" | "body_state d = kFinalLf"
    | "body_state d \<notin> {kChunkData, kFinalLf, kComplete, kContentLength, kFailed}"
    using assms(2,5) by (cases "body_state d") (auto simp: chunk_inv_def)
  then show ?thesis
  proof cases
    case 1
    then have "in_data d" by (simp add: in_data_def)
    moreover have "\<not> body_failed (body_byte put c (d, s))" using assms(6,7) by (simp add: body_failed_def)
    ultimately obtain s1 where b: "body_byte put c (d, s) = (d\<lparr>decoded_bytes := decoded_bytes d + 1,
        remaining := remaining d - 1,
        body_state := (if remaining d = 1 then data_next (body_state d) else body_state d)\<rparr>, s1)"
      "held s1 = held s @ [c]"
      "unat (decoded_bytes d + 1) = length (out @ [c])" "length (out @ [c]) \<le> unat maximum"
      using data_byte_accepted [OF assms(1) _ _ assms(3)] by blast
    have "d' = d\<lparr>decoded_bytes := decoded_bytes d + 1, remaining := remaining d - 1,
        body_state := (if remaining d = 1 then kChunkDataCr else kChunkData)\<rparr>"
      using b(1) assms(6) 1 by (simp add: data_next_def)
    with chunk_inv_data [OF assms(2) 1 this] b assms(3,4,6) show ?thesis
      by (intro exI [of _ "out @ [c]"]) (auto simp: count_inv_def)
  next
    case 2
    with assms(6,7) have "c = LF" "d' = d\<lparr>body_state := kComplete\<rparr>" "s' = s"
      by (auto simp: body_byte_def split: if_split_asm)
    with 2 assms(2,3,4) show ?thesis
      by (intro exI [of _ out]) (auto simp: chunk_inv_def count_inv_def encode_body_def)
  next
    case 3
    then have "d' = snd (chunk_byte c d)" "s' = s"
      using assms(6) by (auto simp: body_byte_def split: BodyState.splits)
    moreover obtain st where st: "chunk_byte c d = (st, snd (chunk_byte c d))" by (metis prod.collapse)
    moreover have "st = None" using chunk_byte_failed st calculation(1) assms(7) by (cases st) auto
    ultimately show ?thesis
      using chunk_inv_framing [OF assms(2), of c d'] chunk_byte_count [OF assms(3), of c] 3 assms(4)
      by auto
  qed
qed

lemma chunk_inv_bytes:
  assumes "body_good ok (d0, s0)" and "chunk_inv [] d0 []" and "count_inv maximum d0 []"
    and "xs = [] \<or> body_state (fst (body_bytes put (butlast xs) (d0, s0))) \<noteq> kComplete"
    and "body_bytes put xs (d0, s0) = (d, s)" and "body_state d \<noteq> kFailed"
  shows "\<exists>out. chunk_inv xs d out \<and> count_inv maximum d out \<and> held s = held s0 @ out"
  using assms(4-6)
proof (induction xs arbitrary: d s rule: rev_induct)
  case Nil
  with assms(2,3) show ?case by auto
next
  case (snoc c ys)
  obtain d1 s1 where ys: "body_bytes put ys (d0, s0) = (d1, s1)" by (metis prod.collapse)
  have last: "body_byte put c (d1, s1) = (d, s)" using snoc.prems(2) ys by simp
  have nc: "body_state d1 \<noteq> kComplete" using snoc.prems(1) ys by simp
  have nf: "body_state d1 \<noteq> kFailed"
    using last snoc.prems(3) by (auto simp: body_byte_def split: BodyState.splits)
  have "ys = [] \<or> body_state (fst (body_bytes put (butlast ys) (d0, s0))) \<noteq> kComplete"
  proof (rule ccontr)
    assume a: "\<not> ?thesis"
    then have "ys = butlast ys @ [last ys]" by simp
    then have "body_bytes put ys (d0, s0) = body_byte put (last ys) (body_bytes put (butlast ys) (d0, s0))"
      by (metis body_bytes_simps(1) body_bytes_simps(2) body_bytes_simps(3))
    with a ys nc show False by (simp add: body_byte_def)
  qed
  from snoc.IH [OF this ys nf] obtain out where out: "chunk_inv ys d1 out" "count_inv maximum d1 out"
    "held s1 = held s0 @ out" by blast
  have "ok s1" using body_bytes_good [OF assms(1), of ys] ys nf by (simp add: body_good_def body_failed_def)
  from chunk_inv_byte [OF this out nc last snoc.prems(3)] show ?case by simp
qed

end

section \<open>Every encoding is accepted\<close>

lemma hex_digit_plain: "hex_digit c = Some v \<Longrightarrow> c \<noteq> CR \<and> c \<noteq> LF \<and> c \<noteq> ch CHR '';''"
  by (auto simp: hex_digit_def bmx_chars word_le_nat_alt split: if_split_asm)

lemma digits_value_from_digits:
  "digits_value_from base digit n ds = Some v \<Longrightarrow> list_all (\<lambda>c. digit c \<noteq> None) ds"
  by (induction ds arbitrary: n) (auto split: option.splits)

lemma WriteBody_not_complete: "fst (WriteBody put xs d s) \<noteq> BodyComplete"
  by (auto simp: WriteBody_def split: prod.split bool.split)

lemma chunk_data_not_complete: "fst (chunk_data put c rest d s) \<noteq> BodyComplete"
  by (simp add: chunk_data_def Let_def case_prod_beta WriteBody_not_complete)

lemma chunk_byte_not_complete: "fst (chunk_byte c d) \<noteq> Some BodyComplete"
  by (auto simp: chunk_byte_def Let_def split: BodyState.split option.split)

lemma feed_body_complete:
  "feed_body put xs k d s = (BodyComplete, n, d', s') \<Longrightarrow> body_state d' = kComplete"
proof (induction "length xs" arbitrary: xs k d s rule: less_induct)
  case less
  note eq = less.prems [unfolded feed_body.simps [of put xs]]
  show ?case
  proof (cases xs)
    case Nil
    with eq show ?thesis by (auto split: if_split_asm)
  next
    case (Cons c rest)
    consider "body_state d = kContentLength" | "body_state d = kChunkData" | "body_state d = kFinalLf"
      | "body_state d \<notin> {kContentLength, kChunkData, kFinalLf}" by auto
    then show ?thesis
    proof cases
      case 1
      let ?a = "clamp_to (length xs) (remaining d)"
      obtain st1 d1 s1 where w: "WriteBody put (take ?a xs) d s = (st1, d1, s1)" by (metis prod_cases3)
      have ok: "st1 = BodyOk"
        using eq 1 Cons w WriteBody_not_complete [of put "take ?a xs" d s]
        by (cases "st1 = BodyOk") (auto simp: Let_def)
      show ?thesis
      proof (cases "remaining d1 - of_nat ?a = 0")
        case True
        with eq 1 Cons w ok show ?thesis by (auto simp: Let_def)
      next
        case False
        have "0 < ?a"
          using False WriteBody_remaining [OF w] Cons unat_gt_0 [of "remaining d"]
          by (auto simp: clamp_to_min)
        then have "length (drop ?a xs) < length xs" using Cons by simp
        moreover have "feed_body put (drop ?a xs) (k + ?a) (d1\<lparr>remaining := remaining d1 - of_nat ?a\<rparr>) s1 =
            (BodyComplete, n, d', s')"
          using eq 1 Cons w ok False by (auto simp: Let_def)
        ultimately show ?thesis by (rule less.hyps)
      qed
    next
      case 2
      obtain st1 m d1 s1 where cd: "chunk_data put c rest d s = (st1, m, d1, s1)" by (metis prod_cases4)
      have "st1 = BodyOk"
        using eq 2 Cons cd chunk_data_not_complete [of put c rest d s] by (auto split: if_split_asm)
      then have "feed_body put (drop m rest) (Suc k + m) d1 s1 = (BodyComplete, n, d', s')"
        using eq 2 Cons cd by simp
      then show ?thesis using less.hyps [of "drop m rest"] Cons by simp
    next
      case 3
      with eq Cons show ?thesis by (auto split: if_split_asm)
    next
      case 4
      obtain st1 d1 where cb: "chunk_byte c d = (st1, d1)" by (metis prod.collapse)
      have "st1 = None"
        using eq 4 Cons cb chunk_byte_not_complete [of c d] by (cases st1) auto
      then have "feed_body put rest (Suc k) d1 s = (BodyComplete, n, d', s')" using eq 4 Cons cb by auto
      then show ?thesis using less.hyps [of rest] Cons by simp
    qed
  qed
qed

lemma body_bytes_digits:
  "body_state d = kChunkSize \<Longrightarrow> list_all (\<lambda>c. hex_digit c \<noteq> None) ds \<Longrightarrow>
   length (chunk_line d) + length ds \<le> kChunkLineBytes \<Longrightarrow>
   body_bytes put ds (d, s) = (d\<lparr>chunk_line := chunk_line d @ ds\<rparr>, s)"
proof (induction ds arbitrary: d)
  case Nil
  then show ?case by simp
next
  case (Cons c ds)
  then obtain v where "hex_digit c = Some v" by auto
  note plain = hex_digit_plain [OF this]
  have "body_byte put c (d, s) = (d\<lparr>chunk_line := chunk_line d @ [c]\<rparr>, s)"
    using plain Cons.prems by (simp add: body_byte_def chunk_byte_def Let_def)
  with Cons.IH [of "d\<lparr>chunk_line := chunk_line d @ [c]\<rparr>"] Cons.prems show ?case by simp
qed

lemma body_bytes_size_line:
  assumes "body_state d = kChunkSize" and "chunk_line d = []" and "size_digits ds n"
  shows "body_bytes put (ds @ [CR, LF]) (d, s) =
    (d\<lparr>remaining := of_nat n, body_state := (if n = 0 then kFinalCr else kChunkData)\<rparr>, s)"
proof -
  have ds: "ds \<noteq> []" "length ds \<le> kChunkLineBytes" "n < 2 ^ 64" "list_all (\<lambda>c. hex_digit c \<noteq> None) ds"
    using assms(3) digits_value_from_digits by (auto simp: size_digits_def digits_value_def)
  have zero: "(of_nat n :: u64) = 0 \<longleftrightarrow> n = 0"
    using ds(3) by (simp add: word_unat_eq_iff unat_of_nat)
  have "body_bytes put ds (d, s) = (d\<lparr>chunk_line := ds\<rparr>, s)"
    using body_bytes_digits [OF assms(1) ds(4), of put s] assms(2) ds(2) by simp
  moreover have "body_bytes put [CR, LF] (d\<lparr>chunk_line := ds\<rparr>, s) =
      (d\<lparr>remaining := of_nat n, body_state := (if n = 0 then kFinalCr else kChunkData), chunk_line := []\<rparr>, s)"
    using assms(1) ds(1) size_digits_hex [OF assms(3)] zero
    by (simp add: body_byte_def chunk_byte_def Let_def)
  ultimately show ?thesis using assms(2) by (cases d) simp
qed

lemma body_bytes_chunk_end:
  "body_state d = kChunkDataCr \<Longrightarrow> body_bytes put [CR, LF] (d, s) = (d\<lparr>body_state := kChunkSize\<rparr>, s)"
  by (simp add: body_byte_def chunk_byte_def Let_def)

lemma body_bytes_final:
  "body_state d = kFinalCr \<Longrightarrow> body_bytes put [CR] (d, s) = (d\<lparr>body_state := kFinalLf\<rparr>, s)"
  by (simp add: body_byte_def chunk_byte_def Let_def)

context body_sink
begin

lemma decode_chunk:
  assumes "ok s" and "body_state d = kChunkSize" and "chunk_line d = []" and "wf_chunk c"
    and "put (snd c) s = (True, s')" and "decoded_bytes d \<le> maximum_body_bytes d"
    and "unat (decoded_bytes d) + length (snd c) \<le> unat (maximum_body_bytes d)"
  shows "body_bytes put (fst c @ [CR, LF] @ snd c @ [CR, LF]) (d, s) =
    (d\<lparr>remaining := 0, decoded_bytes := decoded_bytes d + of_nat (length (snd c))\<rparr>, s')"
proof -
  let ?n = "length (snd c)"
  let ?d1 = "d\<lparr>remaining := of_nat ?n, body_state := kChunkData\<rparr>"
  let ?d2 = "?d1\<lparr>decoded_bytes := decoded_bytes d + of_nat ?n\<rparr>"
  have c: "snd c \<noteq> []" "size_digits (fst c) ?n" "?n < 2 ^ 64"
    using assms(4) by (auto simp: wf_chunk_def size_digits_def)
  have line: "body_bytes put (fst c @ [CR, LF]) (d, s) = (?d1, s)"
    using body_bytes_size_line [OF assms(2,3) c(2)] c(1) by simp
  have un: "unat (of_nat ?n :: u64) = ?n" using c(3) by (simp add: unat_of_nat)
  have w: "WriteBody put (snd c) ?d1 s = (BodyOk, ?d2, s')"
    using c(1) assms(5-7) by (simp add: WriteBody_Ok_iff)
  have data: "body_bytes put (snd c) (?d1, s) =
      (?d2\<lparr>remaining := 0, body_state := kChunkDataCr\<rparr>, s')"
    using body_bytes_run(1) [OF assms(1) _ _ w] un c(1) by (simp add: in_data_def data_next_def)
  have "body_bytes put ((fst c @ [CR, LF]) @ snd c @ [CR, LF]) (d, s) =
      (?d2\<lparr>remaining := 0, body_state := kChunkDataCr, body_state := kChunkSize\<rparr>, s')"
    unfolding body_bytes_simps(3) [of _ "fst c @ [CR, LF]"] line
    unfolding body_bytes_simps(3) [of _ "snd c"] data
    by (subst body_bytes_chunk_end) simp_all
  then show ?thesis using assms(2) by (cases d) simp
qed

lemma decode_chunks:
  assumes "ok s" and "body_state d = kChunkSize" and "chunk_line d = []" and "list_all wf_chunk cs"
    and "put (chunk_bytes cs) s = (True, s')" and "decoded_bytes d \<le> maximum_body_bytes d"
    and "unat (decoded_bytes d) + length (chunk_bytes cs) \<le> unat (maximum_body_bytes d)"
  shows "\<exists>d'. body_bytes put (encode_chunks cs) (d, s) = (d', s') \<and> body_state d' = kChunkSize \<and>
    chunk_line d' = [] \<and> ok s'"
  using assms
proof (induction cs arbitrary: d s)
  case Nil
  then show ?case using write_Nil by simp
next
  case (Cons c cs)
  obtain s1 where s1: "put (snd c) s = (True, s1)" "put (chunk_bytes cs) s1 = (True, s')"
    using Cons.prems(1,5) write_parts by auto
  let ?n = "length (snd c)"
  let ?d = "d\<lparr>remaining := 0, decoded_bytes := decoded_bytes d + of_nat ?n\<rparr>"
  have run: "body_bytes put (fst c @ [CR, LF] @ snd c @ [CR, LF]) (d, s) = (?d, s1)"
    using Cons.prems by (intro decode_chunk [OF Cons.prems(1-3) _ s1(1)]) auto
  have "unat (decoded_bytes d + of_nat ?n) = unat (decoded_bytes d) + ?n"
    using Cons.prems(7) u64_less [of "maximum_body_bytes d"] by (simp add: unat_word_ariths unat_of_nat)
  then have "\<exists>d'. body_bytes put (encode_chunks cs) (?d, s1) = (d', s') \<and> body_state d' = kChunkSize \<and>
      chunk_line d' = [] \<and> ok s'"
    using Cons.prems write_held [OF Cons.prems(1) s1(1)] s1(2)
    by (intro Cons.IH) (auto simp: word_le_nat_alt)
  moreover have "body_bytes put (encode_chunks (c # cs)) (d, s) = body_bytes put (encode_chunks cs) (?d, s1)"
    using run body_bytes_simps(3) [of put "fst c @ [CR, LF] @ snd c @ [CR, LF]" "encode_chunks cs" "(d, s)"]
    by (simp only: encode_chunks_simps append_assoc)
  ultimately show ?case by simp
qed

lemma decode_body:
  assumes "ok s" and "body_state d = kChunkSize" and "chunk_line d = []" and "list_all wf_chunk cs"
    and "size_digits zero 0" and "put (chunk_bytes cs) s = (True, s')" and "decoded_bytes d = 0"
    and "length (chunk_bytes cs) \<le> unat (maximum_body_bytes d)"
  shows "\<exists>d'. body_bytes put (encode_chunks cs @ zero @ [CR, LF, CR]) (d, s) = (d', s') \<and>
    body_state d' = kFinalLf"
proof -
  obtain d1 where d1: "body_bytes put (encode_chunks cs) (d, s) = (d1, s')" "body_state d1 = kChunkSize"
    "chunk_line d1 = []"
    using decode_chunks [OF assms(1-4,6)] assms(7,8) by auto
  have split: "encode_chunks cs @ zero @ [CR, LF, CR] = encode_chunks cs @ (zero @ [CR, LF]) @ [CR]" by simp
  show ?thesis
    unfolding split body_bytes_simps(3) [of _ "encode_chunks cs"] d1(1)
      body_bytes_simps(3) [of _ "zero @ [CR, LF]"] body_bytes_size_line [OF d1(2,3) assms(5)]
    using body_bytes_final [of "d1\<lparr>remaining := of_nat 0, body_state := kFinalCr\<rparr>" put s'] by simp
qed

lemma accepted_bytes:
  assumes "body_good ok (d, s)" and "body_bytes put xs (d, s) = (d', s')" and "body_state d' \<noteq> kFailed"
  shows "\<exists>out. put out s = (True, s')"
  using assms(2,3)
proof (induction xs arbitrary: d' s' rule: rev_induct)
  case Nil
  with assms(1) write_Nil show ?case by (auto simp: body_good_def)
next
  case (snoc c ys)
  obtain d1 s1 where ys: "body_bytes put ys (d, s) = (d1, s1)" by (metis prod.collapse)
  have last: "body_byte put c (d1, s1) = (d', s')" using snoc.prems(1) ys by simp
  have nf: "body_state d1 \<noteq> kFailed"
    using last snoc.prems(2) by (auto simp: body_byte_def split: BodyState.splits)
  from snoc.IH [OF ys nf] obtain out where out: "put out s = (True, s1)" by blast
  show ?case
  proof (cases "in_data d1")
    case True
    obtain st d2 s2 where w: "WriteBody put [c] d1 s1 = (st, d2, s2)" by (metis prod_cases3)
    have "st = BodyOk"
      using last snoc.prems(2) w WriteBody_failed [OF w]
      by (auto simp: body_byte_data [OF True] data_byte_def split: if_split_asm)
    with w have "s' = s2" using last by (auto simp: body_byte_data [OF True] data_byte_def)
    with w \<open>st = BodyOk\<close> have "put [c] s1 = (True, s')" by (auto simp: WriteBody_Ok_iff)
    with out write_parts [of s out "[c]" s'] assms(1) show ?thesis by (auto simp: body_good_def)
  next
    case False
    then have "s' = s1" using last by (auto simp: body_byte_def in_data_def split: BodyState.splits)
    with out show ?thesis by blast
  qed
qed

text \<open>
  A chunked body is complete, with \<open>body\<close> delivered, on exactly the encodings of \<open>body\<close> that
  the limit and the sink admit.
\<close>

lemma chunked_body_iff:
  assumes "ok s" and "body_state d = kChunkSize" and "chunk_line d = []" and "decoded_bytes d = 0"
  shows "(\<exists>n d' s'. FeedBody put (Some data) (length data) True d s = (BodyComplete, n, d', s') \<and>
      held s' = held s @ body) \<longleftrightarrow>
    (\<exists>cs zero. list_all wf_chunk cs \<and> size_digits zero 0 \<and> data = encode_body cs zero \<and>
      body = chunk_bytes cs \<and> length body \<le> unat (maximum_body_bytes d) \<and> fst (put body s))"
    (is "?feed \<longleftrightarrow> ?enc")
proof -
  have good: "body_good ok (d, s)" "wf_decoder d" "body_state d \<noteq> kFailed" "body_state d \<noteq> kComplete"
    using assms by (auto simp: body_good_def wf_decoder_def in_data_def body_failed_def)
  obtain st n d' s' where f: "feed_body put data 0 d s = (st, n, d', s')" by (metis prod_cases4)
  then have F: "FeedBody put (Some data) (length data) True d s = (st, n, d', s')"
    using good by (simp add: FeedBody_def)
  have inv0: "chunk_inv [] d []" "count_inv (maximum_body_bytes d) d []"
    using assms by (auto simp: chunk_inv_def count_inv_def intro!: exI [of _ "[]"])
  note agree = feed_body_agrees [OF assms(1) good(2-4) f]
  note status = feed_body_status [OF assms(1) good(2-4) f]
  show ?thesis
  proof
    assume ?feed
    with F have st: "st = BodyComplete" and held: "held s' = held s @ body" by auto
    have fin: "body_state d' = kComplete"
      using st f feed_body_complete by metis
    with agree have bytes: "body_bytes put data (d, s) = (d', s')"
      by (auto simp: agrees_def body_failed_def)
    have "data = [] \<or> body_state (fst (body_bytes put (butlast data) (d, s))) \<noteq> kComplete"
      using status st fin by (auto split: if_split_asm)
    from chunk_inv_bytes [OF good(1) inv0 this bytes] fin obtain out where
      out: "chunk_inv data d' out" "count_inv (maximum_body_bytes d) d' out" "held s' = held s @ out" by auto
    then obtain cs zero where "list_all wf_chunk cs" "size_digits zero 0" "data = encode_body cs zero"
      "out = chunk_bytes cs" using fin by (auto simp: chunk_inv_def)
    moreover have "body = out" using held out(3) by simp
    moreover have "fst (put out s)"
    proof -
      from accepted_bytes [OF good(1) bytes] fin obtain out' where o: "put out' s = (True, s')" by auto
      with write_held [OF assms(1) o] out(3) show ?thesis by simp
    qed
    ultimately show ?enc using out(2) by (auto simp: count_inv_def)
  next
    assume ?enc
    then obtain cs zero s1 where enc: "list_all wf_chunk cs" "size_digits zero 0" "data = encode_body cs zero"
      "body = chunk_bytes cs" "length body \<le> unat (maximum_body_bytes d)" "put body s = (True, s1)"
      by (metis prod.collapse)
    obtain d1 where d1: "body_bytes put (encode_chunks cs @ zero @ [CR, LF, CR]) (d, s) = (d1, s1)"
      "body_state d1 = kFinalLf"
      using decode_body [OF assms(1-3) enc(1,2)] enc(4-6) assms(4) by auto
    have data: "data = (encode_chunks cs @ zero @ [CR, LF, CR]) @ [LF]" by (simp add: enc(3) encode_body_def)
    have bytes: "body_bytes put data (d, s) = (d1\<lparr>body_state := kComplete\<rparr>, s1)"
      unfolding data body_bytes_simps(3) [of _ _ "[LF]"] d1(1) using d1(2) by (simp add: body_byte_def)
    with agree have "d' = d1\<lparr>body_state := kComplete\<rparr>" "s' = s1"
      by (auto simp: agrees_def body_failed_def)
    moreover have "butlast data = encode_chunks cs @ zero @ [CR, LF, CR]" unfolding data by (rule butlast_snoc)
    ultimately have "st = BodyComplete" using status d1 by simp
    with F \<open>s' = s1\<close> write_held [OF assms(1) enc(6)] show ?feed by auto
  qed
qed

text \<open>A body framed by its length is complete on exactly that many bytes.\<close>

lemma content_length_iff:
  assumes "ok s" and "body_state d = kContentLength" and "remaining d \<noteq> 0" and "decoded_bytes d = 0"
  shows "(\<exists>n d' s'. FeedBody put (Some data) (length data) True d s = (BodyComplete, n, d', s') \<and>
      held s' = held s @ body) \<longleftrightarrow>
    data = body \<and> length body = unat (remaining d) \<and> length body \<le> unat (maximum_body_bytes d) \<and>
    fst (put body s)" (is "?feed \<longleftrightarrow> ?exact")
proof -
  have F: "FeedBody put (Some data) (length data) True d s = feed_body put data 0 d s"
    using assms(2) by (simp add: FeedBody_def)
  define a where "a = min (length data) (unat (remaining d))"
  have a: "clamp_to (length data) (remaining d) = a" by (simp add: a_def clamp_to_min)
  have full: "remaining d - of_nat a = 0 \<longleftrightarrow> a = unat (remaining d)"
    by (rule sub_of_nat_eq_0) (simp add: a_def)
  have pos: "0 < unat (remaining d)" using assms(3) unat_gt_0 by blast
  obtain st1 d1 s1 where w: "WriteBody put (take a data) d s = (st1, d1, s1)" by (metis prod_cases3)
  note eq = feed_body.simps [of put data 0 d s]
  show ?thesis
  proof (cases "st1 = BodyOk \<and> data \<noteq> [] \<and> length data = unat (remaining d)")
    case True
    then have all: "a = unat (remaining d)" "a = length data" "take a data = data" by (auto simp: a_def)
    have w': "WriteBody put data d s = (BodyOk, d1, s1)" using w True all by simp
    then have put_ok: "put data s = (True, s1)" "length data \<le> unat (maximum_body_bytes d)"
      using True assms(4) by (auto simp: WriteBody_Ok_iff)
    have "feed_body put data 0 d s = (BodyComplete, a, d1\<lparr>remaining := 0, body_state := kComplete\<rparr>, s1)"
      using eq assms(2) True a w all full WriteBody_remaining [OF w'] by (simp add: Let_def)
    then show ?thesis using F put_ok write_held [OF assms(1) put_ok(1)] True by auto
  next
    case False
    have "fst (feed_body put data 0 d s) \<noteq> BodyComplete"
    proof (cases "data = [] \<or> st1 \<noteq> BodyOk")
      case True
      then show ?thesis
        using eq assms(2) a w WriteBody_not_complete [of put "take a data" d s] by (auto simp: Let_def)
    next
      case c: False
      then have w': "WriteBody put (take a data) d s = (BodyOk, d1, s1)" using w by simp
      from False c have "length data \<noteq> unat (remaining d)" by blast
      then consider "a = unat (remaining d)" "a \<noteq> length data" | "a \<noteq> unat (remaining d)" "drop a data = []"
        by (cases "length data < unat (remaining d)") (auto simp: a_def)
      then show ?thesis
        using eq assms(2) a w' c full WriteBody_remaining [OF w'] WriteBody_state [OF w']
        by cases (simp_all add: Let_def feed_body.simps [of put "[]"])
    qed
    moreover have "\<not> ?exact"
    proof
      assume e: ?exact
      then have "take a data = data" "data \<noteq> []" using pos by (auto simp: a_def)
      moreover obtain s2 where s2: "put data s = (True, s2)" using e by (metis prod.collapse)
      have "WriteBody put data d s = (BodyOk, d\<lparr>decoded_bytes := decoded_bytes d + of_nat (length data)\<rparr>, s2)"
        unfolding WriteBody_Ok_iff using e s2 \<open>data \<noteq> []\<close> assms(4) by auto
      ultimately show False using False w e by simp
    qed
    ultimately show ?thesis using F by auto
  qed
qed

end

section \<open>Properties\<close>

lemma fresh_sink:
  "sink_ok (NewBoundedMemoryBodySink (Some buffer) (length buffer))"
  "sink_bytes (NewBoundedMemoryBodySink (Some buffer) (length buffer)) = []"
  "fst (bounded_write body (NewBoundedMemoryBodySink (Some buffer) (length buffer))) = (length body \<le> length buffer)"
  by (simp_all add: sink_ok_def sink_bytes_def NewBoundedMemoryBodySink_def bounded_write_def SinkWrite_def)

text \<open>
  C7: a chunked response body.  Feeding the bytes \<open>data\<close> to a fresh decoder with a memory sink
  completes the body and leaves \<open>body\<close> in the sink exactly when \<open>data\<close> is an encoding of
  \<open>body\<close>: chunks of at most eighteen hexadecimal digits (no extensions), each followed by as
  many bytes as it announces, a zero chunk and no trailer, nothing behind it; and when \<open>body\<close>
  fits both the limit and the buffer.
\<close>

theorem chunked_body_exact:
  assumes "chunked head" and "\<not> has_content_length head"
  shows "(\<exists>n d s. FeedBody bounded_write (Some data) (length data) True (NewHttpBodyDecoder head maximum True)
        (NewBoundedMemoryBodySink (Some buffer) (length buffer)) = (BodyComplete, n, d, s) \<and> sink_bytes s = body) =
    (\<exists>cs zero. list_all wf_chunk cs \<and> size_digits zero 0 \<and> data = encode_body cs zero \<and>
      body = chunk_bytes cs \<and> length body \<le> unat maximum \<and> length body \<le> length buffer)"
proof -
  let ?d = "NewHttpBodyDecoder head maximum True"
  have d: "body_state ?d = kChunkSize" "chunk_line ?d = []" "decoded_bytes ?d = 0" "maximum_body_bytes ?d = maximum"
    using assms by (simp_all add: NewHttpBodyDecoder_def Let_def)
  show ?thesis
    using memory_sink.chunked_body_iff [OF fresh_sink(1) d(1-3), of data buffer body] d(4)
    by (simp add: fresh_sink)
qed

theorem chunked_body_exact_witness:
  "\<exists>n d s. FeedBody bounded_write (Some (encode_body [(bytes_of ''3'', [7, 8, 9])] (bytes_of ''0'')))
      (length (encode_body [(bytes_of ''3'', [7, 8, 9])] (bytes_of ''0''))) True
      (NewHttpBodyDecoder (zero_head\<lparr>chunked := True\<rparr>) 100 True)
      (NewBoundedMemoryBodySink (Some [0, 0, 0, 0]) (length [0, 0, 0, 0 :: byte])) = (BodyComplete, n, d, s) \<and>
    sink_bytes s = [7, 8, 9]"
proof -
  have c: "chunked (zero_head\<lparr>chunked := True\<rparr>)" "\<not> has_content_length (zero_head\<lparr>chunked := True\<rparr>)"
    by (simp_all add: zero_head_def)
  have "list_all wf_chunk [(bytes_of ''3'', [7, 8, 9])]" "size_digits (bytes_of ''0'') 0"
    by (simp_all add: wf_chunk_def size_digits_def kChunkLineBytes_def digits_value_def hex_digit_def
        bmx_chars)
  moreover have "[7, 8, 9] = chunk_bytes [(bytes_of ''3'', [7, 8, 9])]" by simp
  moreover have "length [7, 8, 9 :: byte] \<le> unat (100 :: u64)" "length [7, 8, 9 :: byte] \<le> length [0, 0, 0, 0 :: byte]"
    by simp_all
  ultimately show ?thesis unfolding chunked_body_exact [OF c] by blast
qed

text \<open>
  A response body framed by its length.  Feeding \<open>data\<close> to a fresh decoder completes the
  body and leaves \<open>body\<close> in the sink exactly when \<open>data\<close> is \<open>body\<close>, has the announced length
  and fits the buffer; the announced length was checked against the limit before.
\<close>

lemma content_length_body_exact:
  assumes "has_content_length head" and "\<not> chunked head" and "content_length head \<noteq> 0"
    and "content_length head \<le> maximum"
  shows "(\<exists>n d s. FeedBody bounded_write (Some data) (length data) True (NewHttpBodyDecoder head maximum True)
        (NewBoundedMemoryBodySink (Some buffer) (length buffer)) = (BodyComplete, n, d, s) \<and> sink_bytes s = body) =
    (data = body \<and> length body = unat (content_length head) \<and> length body \<le> length buffer)"
proof -
  let ?d = "NewHttpBodyDecoder head maximum True"
  have d: "body_state ?d = kContentLength" "remaining ?d \<noteq> 0" "decoded_bytes ?d = 0"
    "maximum_body_bytes ?d = maximum" "remaining ?d = content_length head"
    using assms by (simp_all add: NewHttpBodyDecoder_def Let_def)
  have "unat (content_length head) \<le> unat maximum" using assms(4) by (simp add: word_le_nat_alt)
  then show ?thesis
    using memory_sink.content_length_iff [OF fresh_sink(1) d(1-3), of data buffer body] d(4,5)
    by (auto simp: fresh_sink)
qed

lemma content_length_body_exact_witness:
  "\<exists>n d s. FeedBody bounded_write (Some [5, 6]) (length [5, 6 :: byte]) True
      (NewHttpBodyDecoder (zero_head\<lparr>has_content_length := True, content_length := 2\<rparr>) 100 True)
      (NewBoundedMemoryBodySink (Some [0, 0, 0]) (length [0, 0, 0 :: byte])) = (BodyComplete, n, d, s) \<and>
    sink_bytes s = [5, 6]"
proof -
  let ?h = "zero_head\<lparr>has_content_length := True, content_length := 2\<rparr>"
  have h: "has_content_length ?h" "\<not> chunked ?h" "content_length ?h \<noteq> 0" "content_length ?h \<le> 100"
    by (simp_all add: zero_head_def)
  show ?thesis unfolding content_length_body_exact [OF h] by simp
qed

text \<open>
  C28: how the connection cuts the body does not matter.  If one call with the whole input does
  not fail, any two ways of cutting it leave the same decoder and the same bytes in the sink.
\<close>

theorem body_feed_repartition:
  assumes "\<not> body_failed (NewHttpBodyDecoder head maximum True, s)" and "sink_ok s"
    and "\<not> body_failed (body_feed bounded_write (concat ps) (NewHttpBodyDecoder head maximum True, s))"
    and "concat ps = concat qs"
  shows "fold (body_feed bounded_write) ps (NewHttpBodyDecoder head maximum True, s) =
    fold (body_feed bounded_write) qs (NewHttpBodyDecoder head maximum True, s)"
proof (rule memory_sink.body_stream.feed_repartition)
  let ?ds = "(NewHttpBodyDecoder head maximum True, s)"
  show good: "body_good sink_ok ?ds"
    using assms(1,2)
    by (auto simp: body_good_def wf_decoder_def in_data_def NewHttpBodyDecoder_def Let_def body_failed_def
        split: if_split_asm)
  show "body_good sink_ok (body_feed bounded_write (concat ps) ?ds)"
    using memory_sink.body_feed_eq(1) [OF good assms(3)] memory_sink.body_bytes_good [OF good] assms(3)
    by simp
qed (rule assms(4))

theorem body_feed_repartition_witness:
  "fold (body_feed bounded_write) [[5], [6, 7]]
     (NewHttpBodyDecoder (zero_head\<lparr>has_content_length := True, content_length := 3\<rparr>) 100 True,
      NewBoundedMemoryBodySink (Some [0, 0, 0]) (length [0, 0, 0 :: byte])) =
   fold (body_feed bounded_write) [[5, 6], [], [7]]
     (NewHttpBodyDecoder (zero_head\<lparr>has_content_length := True, content_length := 3\<rparr>) 100 True,
      NewBoundedMemoryBodySink (Some [0, 0, 0]) (length [0, 0, 0 :: byte]))"
proof (rule body_feed_repartition)
  let ?d = "NewHttpBodyDecoder (zero_head\<lparr>has_content_length := True, content_length := 3\<rparr>) 100 True"
  let ?s = "NewBoundedMemoryBodySink (Some [0, 0, 0]) (length [0, 0, 0 :: byte])"
  show "sink_ok ?s" by (rule fresh_sink)
  show "\<not> body_failed (?d, ?s)" by code_simp
  show "\<not> body_failed (body_feed bounded_write (concat [[5], [6, 7]]) (?d, ?s))" by code_simp
qed simp

end
