(* ===== verification/Response_Exact.thy ===== *)
theory Response_Exact
  imports Http_Response
begin

text \<open>
  Which response heads \<open>ParseHttpResponseHead\<close> accepts, and what it then says of them: the lines of the head
  are read into a list of fields, and the head is a function of that list.
\<close>

section \<open>What the fields mean\<close>

definition field_values :: "string \<Rightarrow> (byte list \<times> byte list) list \<Rightarrow> byte list list" where
  "field_values name fs = map snd (filter (\<lambda>f. NameEquals (fst f) (bytes_of name)) fs)"

text \<open>The fields the parser interprets occur once at most, with the values it knows.\<close>

definition allowed_fields :: "(byte list \<times> byte list) list \<Rightarrow> bool" where
  "allowed_fields fs \<longleftrightarrow>
     length (field_values ''content-length'' fs) \<le> 1 \<and>
     list_all (\<lambda>v. ParseDecimal v \<noteq> None) (field_values ''content-length'' fs) \<and>
     length (field_values ''transfer-encoding'' fs) \<le> 1 \<and>
     list_all (\<lambda>v. NameEquals v (bytes_of ''chunked'')) (field_values ''transfer-encoding'' fs) \<and>
     length (field_values ''content-encoding'' fs) \<le> 1 \<and>
     list_all (\<lambda>v. NameEquals v (bytes_of ''identity'')) (field_values ''content-encoding'' fs) \<and>
     length (field_values ''location'' fs) \<le> 1 \<and>
     list_all (\<lambda>v. length v < kMaximumHttpLocationBytes) (field_values ''location'' fs) \<and>
     length (field_values ''content-type'' fs) \<le> 1 \<and>
     list_all (\<lambda>v. length v < kMaximumHttpContentTypeBytes) (field_values ''content-type'' fs) \<and>
     length (field_values ''connection'' fs) \<le> 1 \<and> field_values ''content-range'' fs = []"

definition only_value :: "byte list list \<Rightarrow> byte list" where
  "only_value vs = (case vs of [] \<Rightarrow> [] | v # _ \<Rightarrow> v)"

definition head_of :: "nat \<Rightarrow> (byte list \<times> byte list) list \<Rightarrow> HttpResponseHead" where
  "head_of code fs =
     \<lparr>status_code = code, has_content_length = (field_values ''content-length'' fs \<noteq> []),
      content_length = (case field_values ''content-length'' fs of [] \<Rightarrow> 0 | v # _ \<Rightarrow> the (ParseDecimal v)),
      chunked = (field_values ''transfer-encoding'' fs \<noteq> []),
      connection_close = (case field_values ''connection'' fs of [] \<Rightarrow> False | v # _ \<Rightarrow> NameEquals v (bytes_of ''close'')),
      location = only_value (field_values ''location'' fs), content_type = only_value (field_values ''content-type'' fs)\<rparr>"

definition seen_of :: "(byte list \<times> byte list) list \<Rightarrow> seen_fields" where
  "seen_of fs =
     \<lparr>saw_transfer_encoding = (field_values ''transfer-encoding'' fs \<noteq> []),
      saw_content_encoding = (field_values ''content-encoding'' fs \<noteq> []),
      saw_location = (field_values ''location'' fs \<noteq> []), saw_content_type = (field_values ''content-type'' fs \<noteq> []),
      saw_connection = (field_values ''connection'' fs \<noteq> [])\<rparr>"

lemma field_values_snoc:
  "field_values name (fs @ [(n, v)]) = field_values name fs @ (if NameEquals n (bytes_of name) then [v] else [])"
  by (simp add: field_values_def)

text \<open>A name is one of the seven at most.\<close>

lemma same_name:
  assumes "NameEquals n (bytes_of a)"
  shows "NameEquals n (bytes_of b) \<longleftrightarrow> a = b"
proof -
  have "inj ch" by (simp add: inj_def)
  then have "bytes_of a = bytes_of b \<longleftrightarrow> a = b" by (simp add: bytes_of_def inj_map_eq_map)
  with assms show ?thesis by (auto simp: NameEquals_def bytes_of_def)
qed

lemmas response_field_defs = response_field_def head_of_def seen_of_def allowed_fields_def field_values_snoc only_value_def
  CopyValue_def Let_def

lemma at_most_one: "length (xs @ [v]) \<le> 1 \<longleftrightarrow> xs = []" for xs :: "byte list list"
  by (cases xs) auto

definition steps :: "nat \<Rightarrow> (byte list \<times> byte list) list \<Rightarrow> byte list \<Rightarrow> byte list \<Rightarrow> bool" where
  "steps code fs n v \<longleftrightarrow>
     (case response_field n v (head_of code fs) (seen_of fs) of
        (None, h, seen) \<Rightarrow> allowed_fields (fs @ [(n, v)]) \<and> h = head_of code (fs @ [(n, v)]) \<and> seen = seen_of (fs @ [(n, v)])
      | (Some _, _) \<Rightarrow> \<not> allowed_fields (fs @ [(n, v)]))"

lemma steps_named:
  assumes "allowed_fields fs" and "a \<in> {''content-length'', ''transfer-encoding'', ''content-encoding'', ''location'', ''content-type'', ''connection'', ''content-range''}"
    and "\<And>b. NameEquals n (bytes_of b) \<longleftrightarrow> a = b"
  shows "steps code fs n v"
  using assms(1,2) unfolding steps_def response_field_defs assms(3)
  by (elim insertE emptyE; hypsubst) (simp_all add: at_most_one not_le del: bytes_of_Cons split: option.split list.split)

lemma response_field_steps:
  assumes "allowed_fields fs"
  shows "steps code fs n v"
proof (cases "\<exists>a \<in> {''content-length'', ''transfer-encoding'', ''content-encoding'', ''location'', ''content-type'', ''connection'', ''content-range''}. NameEquals n (bytes_of a)")
  case True
  then obtain a where a: "a \<in> {''content-length'', ''transfer-encoding'', ''content-encoding'', ''location'', ''content-type'', ''connection'', ''content-range''}" and n: "NameEquals n (bytes_of a)" by (rule bexE)
  from assms a same_name [OF n] show ?thesis by (rule steps_named)
next
  case False
  then show ?thesis using assms unfolding steps_def by (simp add: response_field_defs del: bytes_of_Cons)
qed

section \<open>The lines\<close>

lemma FindStrictCrlf_iff:
  "FindStrictCrlf xs = Some i \<longleftrightarrow> (\<exists>line rest. xs = line @ CR # LF # rest \<and> length line = i \<and> LF \<notin> set line)"
proof (induction xs arbitrary: i rule: FindStrictCrlf.induct)
  case (1 a b cs)
  show ?case
  proof (cases "a = CR \<and> b = LF")
    case True
    then show ?thesis by (auto simp: append_eq_Cons_conv Cons_eq_append_conv)
  next
    case False
    have "(\<exists>line rest. a # b # cs = line @ CR # LF # rest \<and> length line = i \<and> LF \<notin> set line) \<longleftrightarrow>
      (\<exists>line rest. a # b # cs = (a # line) @ CR # LF # rest \<and> i = Suc (length line) \<and> LF \<notin> set (a # line))" (is "?l \<longleftrightarrow> ?r")
    proof
      assume ?l
      then obtain line rest where l: "a # b # cs = line @ CR # LF # rest" "length line = i" "LF \<notin> set line" by blast
      with False obtain line' where "line = a # line'" by (cases line) auto
      with l show ?r by auto
    next
      assume ?r
      then obtain line rest where "a # b # cs = (a # line) @ CR # LF # rest" "i = Suc (length line)" "LF \<notin> set (a # line)" by blast
      then show ?l by (intro exI [of _ "a # line"] exI [of _ rest]) simp
    qed
    also have "\<dots> \<longleftrightarrow> a \<noteq> LF \<and> (\<exists>j. i = Suc j \<and> (\<exists>line rest. b # cs = line @ CR # LF # rest \<and> length line = j \<and> LF \<notin> set line))"
      by auto
    finally show ?thesis using False "1.IH" [OF False] by (cases "a = LF") auto
  qed
qed (auto simp: Cons_eq_append_conv)

definition crlf_lines :: "byte list list \<Rightarrow> byte list" where
  "crlf_lines lines = concat (map (\<lambda>l. l @ [CR, LF]) lines)"

definition header_line :: "byte list \<Rightarrow> byte list \<times> byte list \<Rightarrow> bool" where
  "header_line line f \<longleftrightarrow> LF \<notin> set line \<and> split_header_line line = Some f"

lemma split_header_line_first: "split_header_line line = Some f \<Longrightarrow> line \<noteq> [] \<and> \<not> is_blank (hd line)"
  by (auto simp: split_header_line_def split: if_split_asm option.split_asm)

lemma field_values_append: "field_values name (fs @ gs) = field_values name fs @ field_values name gs"
  by (simp add: field_values_def)

lemma allowed_fields_append: "allowed_fields (fs @ gs) \<Longrightarrow> allowed_fields fs"
  by (simp add: allowed_fields_def field_values_append del: bytes_of_Cons)

text \<open>What the loop accepts, from the fields \<open>fs\<close> already read on.\<close>

definition head_lines ::
  "nat \<Rightarrow> nat \<Rightarrow> byte list \<Rightarrow> (byte list \<times> byte list) list \<Rightarrow> HttpResponseHead \<Rightarrow> nat \<Rightarrow> bool" where
  "head_lines code k rest fs h n \<longleftrightarrow>
     (\<exists>lines gs post. rest = crlf_lines lines @ CR # LF # post \<and> list_all2 header_line lines gs \<and>
        allowed_fields (fs @ gs) \<and> h = head_of code (fs @ gs) \<and> n = k - length post)"

lemma head_lines_step:
  assumes "allowed_fields fs"
  shows "head_lines code k rest fs h n \<longleftrightarrow>
    (\<exists>post. rest = CR # LF # post \<and> h = head_of code fs \<and> n = k - length post) \<or>
    (\<exists>line f rest'. rest = line @ CR # LF # rest' \<and> header_line line f \<and> head_lines code k rest' (fs @ [f]) h n)"
    (is "?spec \<longleftrightarrow> ?stop \<or> ?go")
proof
  assume ?spec
  then obtain lines gs post where l: "rest = crlf_lines lines @ CR # LF # post" "list_all2 header_line lines gs"
    "allowed_fields (fs @ gs)" "h = head_of code (fs @ gs)" "n = k - length post" unfolding head_lines_def by blast
  show "?stop \<or> ?go"
  proof (cases lines)
    case Nil
    with l show ?thesis by (auto simp: crlf_lines_def)
  next
    case (Cons line lines')
    with l(2) obtain f gs' where g: "gs = f # gs'" "header_line line f" "list_all2 header_line lines' gs'" by (auto simp: list_all2_Cons1)
    have "rest = line @ CR # LF # (crlf_lines lines' @ CR # LF # post)" using l(1) Cons by (simp add: crlf_lines_def)
    moreover have "head_lines code k (crlf_lines lines' @ CR # LF # post) (fs @ [f]) h n"
      unfolding head_lines_def using l(3-5) g by auto
    ultimately show ?thesis using g(2) by blast
  qed
next
  assume "?stop \<or> ?go"
  then show ?spec
  proof
    assume ?stop
    then obtain post where "rest = CR # LF # post" "h = head_of code fs" "n = k - length post" by blast
    with assms show ?thesis unfolding head_lines_def by (intro exI [of _ "[]"] exI [of _ post]) (simp add: crlf_lines_def)
  next
    assume ?go
    then obtain line f rest' lines gs post where "rest = line @ CR # LF # rest'" "header_line line f"
      "rest' = crlf_lines lines @ CR # LF # post" "list_all2 header_line lines gs" "allowed_fields ((fs @ [f]) @ gs)"
      "h = head_of code ((fs @ [f]) @ gs)" "n = k - length post" unfolding head_lines_def by blast
    then show ?thesis unfolding head_lines_def
      by (intro exI [of _ "line # lines"] exI [of _ "f # gs"] exI [of _ post]) (simp add: crlf_lines_def)
  qed
qed

lemma header_line_unique:
  assumes "line @ CR # LF # rest = l @ CR # LF # r" and "header_line line f" and "header_line l g"
  shows "l = line \<and> g = f \<and> r = rest"
proof -
  have "FindStrictCrlf (line @ CR # LF # rest) = Some (length line)" "FindStrictCrlf (l @ CR # LF # r) = Some (length l)"
    unfolding FindStrictCrlf_iff using assms(2,3) by (auto simp: header_line_def)
  then have "length l = length line" using assms(1) by simp
  then show ?thesis using assms by (auto simp: header_line_def)
qed

text \<open>One line read: the loop goes on behind it, or the field was refused.\<close>

lemma response_headers_line:
  assumes "header_line line (nm, v)" and "allowed_fields fs"
  shows "allowed_fields (fs @ [(nm, v)]) \<Longrightarrow>
      response_headers k (line @ CR # LF # rest) (head_of code fs) (seen_of fs) =
      response_headers k rest (head_of code (fs @ [(nm, v)])) (seen_of (fs @ [(nm, v)]))"
    and "\<not> allowed_fields (fs @ [(nm, v)]) \<Longrightarrow>
      snd (snd (response_headers k (line @ CR # LF # rest) (head_of code fs) (seen_of fs))) = None"
proof -
  have f: "split_header_line line = Some (nm, v)" and lf: "LF \<notin> set line" using assms(1) by (auto simp: header_line_def)
  obtain c cs where line: "line = c # cs" "\<not> is_blank c" using split_header_line_first [OF f] by (cases line) auto
  have nc: "\<not> (c = CR \<and> (cs @ CR # LF # rest) ! 0 = LF)" using lf line by (cases cs) auto
  have i: "FindStrictCrlf (line @ CR # LF # rest) = Some (length line)" unfolding FindStrictCrlf_iff using lf by blast
  obtain st h1 seen1 where rf: "response_field nm v (head_of code fs) (seen_of fs) = (st, h1, seen1)" by (metis prod_cases3)
  have "response_headers k (line @ CR # LF # rest) (head_of code fs) (seen_of fs) =
      (case st of Some st \<Rightarrow> (st, h1, None) | None \<Rightarrow> response_headers k (drop (length line + 2) (line @ CR # LF # rest)) h1 seen1)"
    using nc line f by (intro response_headers_unfold [OF _ _ _ i _ rf]) auto
  moreover note response_field_steps [OF assms(2), of code nm v]
  ultimately show "allowed_fields (fs @ [(nm, v)]) \<Longrightarrow>
      response_headers k (line @ CR # LF # rest) (head_of code fs) (seen_of fs) =
      response_headers k rest (head_of code (fs @ [(nm, v)])) (seen_of (fs @ [(nm, v)]))"
    and "\<not> allowed_fields (fs @ [(nm, v)]) \<Longrightarrow>
      snd (snd (response_headers k (line @ CR # LF # rest) (head_of code fs) (seen_of fs))) = None"
    using rf by (auto simp: steps_def split: option.split_asm)
qed

text \<open>No line: the loop does not come to the end of the head.\<close>

lemma response_headers_stuck:
  assumes "\<nexists>post. rest = CR # LF # post" and "\<nexists>line f rest'. rest = line @ CR # LF # rest' \<and> header_line line f"
  shows "snd (snd (response_headers k rest h seen)) = None"
proof -
  have nc: "\<not> (rest ! 0 = CR \<and> rest ! 1 = LF) \<or> length rest < 2"
    using assms(1) by (cases rest rule: FindStrictCrlf.cases) auto
  show ?thesis
  proof (cases "length rest < 2 \<or> is_blank (rest ! 0) \<or> FindStrictCrlf rest = None")
    case True
    then show ?thesis using nc by (auto simp: response_headers.simps [of k rest])
  next
    case found: False
    then obtain i where i: "FindStrictCrlf rest = Some i" by auto
    then obtain line rest' where l: "rest = line @ CR # LF # rest'" "length line = i" "LF \<notin> set line"
      unfolding FindStrictCrlf_iff by blast
    then have "split_header_line (take i rest) = None"
      using assms(2) by (cases "split_header_line line") (auto simp: header_line_def)
    then show ?thesis using found nc i by (simp add: response_headers.simps [of k rest])
  qed
qed

lemma response_headers_iff:
  assumes "length rest \<le> k" and "allowed_fields fs"
  shows "(\<exists>st. response_headers k rest (head_of code fs) (seen_of fs) = (st, h, Some n)) \<longleftrightarrow> head_lines code k rest fs h n"
  using assms
proof (induction "length rest" arbitrary: rest fs rule: less_induct)
  case less
  note step = head_lines_step [OF less.prems(2), of code k rest h n]
  consider (stop) post where "rest = CR # LF # post"
    | (line) line nm v rest' where "rest = line @ CR # LF # rest'" "header_line line (nm, v)"
    | (stuck) "\<nexists>post. rest = CR # LF # post" "\<nexists>line f rest'. rest = line @ CR # LF # rest' \<and> header_line line f"
    by (metis surj_pair)
  then show ?case
  proof cases
    case stop
    have "\<not> (rest = line @ CR # LF # rest' \<and> header_line line f)" for line f rest'
      using stop split_header_line_first [of line f] by (auto simp: header_line_def Cons_eq_append_conv)
    then have "head_lines code k rest fs h n \<longleftrightarrow> h = head_of code fs \<and> n = k - length post" using step stop by auto
    moreover have "response_headers k rest (head_of code fs) (seen_of fs) = (HeadOk, head_of code fs, Some (k - length post))"
      using less.prems(1) by (simp add: response_headers.simps stop)
    ultimately show ?thesis by auto
  next
    case line
    have "\<nexists>post. rest = CR # LF # post"
      using line split_header_line_first [of line "(nm, v)"] by (auto simp: header_line_def append_eq_Cons_conv)
    then have spec: "head_lines code k rest fs h n \<longleftrightarrow> head_lines code k rest' (fs @ [(nm, v)]) h n"
      using step line header_line_unique by blast
    note read = response_headers_line [OF line(2) less.prems(2), of k rest' code, folded line(1)]
    show ?thesis
    proof (cases "allowed_fields (fs @ [(nm, v)])")
      case True
      have "length rest' < length rest" "length rest' \<le> k" using line(1) less.prems(1) by auto
      from less.hyps [OF this True] show ?thesis unfolding spec read(1) [OF True] .
    next
      case False
      then have "\<not> head_lines code k rest' (fs @ [(nm, v)]) h n"
        using allowed_fields_append unfolding head_lines_def by blast
      with spec read(2) [OF False] show ?thesis by auto
    qed
  next
    case stuck
    then have "\<not> head_lines code k rest fs h n" using step by blast
    moreover have "snd (snd (response_headers k rest (head_of code fs) (seen_of fs))) = None"
      by (rule response_headers_stuck [OF stuck])
    ultimately show ?thesis by auto
  qed
qed

section \<open>The head\<close>

lemma head_of_Nil: "head_of code [] = zero_head\<lparr>status_code := code\<rparr>" "seen_of [] = nothing_seen"
  by (simp_all add: head_of_def seen_of_def field_values_def only_value_def zero_head_def nothing_seen_def)

lemma allowed_fields_Nil: "allowed_fields []"
  by (simp add: allowed_fields_def field_values_def)

lemma parse_response_input_iff:
  "parse_response_input input head header_bytes = (HeadOk, h, n) \<longleftrightarrow>
   (\<exists>line rest. input = line @ CR # LF # rest \<and> LF \<notin> set line \<and> status_line_ok line \<and>
      head_lines (line_status_code line) (length input) rest [] h n) \<and> finish_response h = HeadOk"
proof (cases "FindStrictCrlf input")
  case None
  then have "\<nexists>line rest. input = line @ CR # LF # rest \<and> LF \<notin> set line" by (metis FindStrictCrlf_iff option.distinct(1))
  with None show ?thesis by (auto simp: parse_response_input_def out_of_data_def)
next
  case (Some i)
  then obtain line rest where l: "input = line @ CR # LF # rest" "length line = i" "LF \<notin> set line"
    unfolding FindStrictCrlf_iff by blast
  have uniq: "line' = line \<and> rest' = rest" if "input = line' @ CR # LF # rest'" "LF \<notin> set line'" for line' rest'
  proof -
    have "FindStrictCrlf input = Some (length line')" unfolding FindStrictCrlf_iff using that by blast
    then show ?thesis using Some l(1,2) that(1) by simp
  qed
  obtain st h' m where r: "response_headers (length input) rest (head_of (line_status_code line) []) (seen_of []) = (st, h', m)"
    by (metis prod_cases3)
  have "length rest \<le> length input" using l(1) by simp
  from response_headers_iff [OF this allowed_fields_Nil, of "line_status_code line" h n]
  have lines: "head_lines (line_status_code line) (length input) rest [] h n \<longleftrightarrow> h' = h \<and> m = Some n" using r by auto
  have none: "st \<noteq> HeadOk" if "m = None" using r response_headers_not_ok that by blast
  have "parse_response_input input head header_bytes = (HeadOk, h, n) \<longleftrightarrow>
      status_line_ok line \<and> h' = h \<and> m = Some n \<and> finish_response h = HeadOk"
    using Some l(1,2) r none by (auto simp: parse_response_input_def head_of_Nil split: option.split)
  then show ?thesis using lines l(1,3) uniq by blast
qed

lemma header_value_no_nul: "header_line line f \<Longrightarrow> 0 \<notin> set (snd f)"
  using split_header_line_wf by (fastforce simp: header_line_def wf_field_def list_all_iff bad_value_byte_def)

lemma location_no_nul:
  assumes "list_all2 header_line lines fs"
  shows "0 \<notin> set (location (head_of code fs))"
proof -
  have "0 \<notin> set (snd f)" if "f \<in> set fs" for f
    using assms that header_value_no_nul by (metis in_set_conv_nth list_all2_conv_all_nth)
  then have "\<forall>v \<in> set (field_values ''location'' fs). 0 \<notin> set v" unfolding field_values_def by auto
  then show ?thesis by (cases "field_values ''location'' fs") (simp_all add: head_of_def only_value_def)
qed

lemma finish_response_iff:
  assumes "0 \<notin> set (location h)"
  shows "finish_response h = HeadOk \<longleftrightarrow> \<not> (has_content_length h \<and> chunked h) \<and>
    (has_content_length h \<or> chunked h \<or> StatusMayHaveUnframedBody (status_code h)) \<and>
    \<not> (300 \<le> status_code h \<and> status_code h < 400 \<and> location h = [])"
  using assms by (cases "location h") (auto simp: finish_response_def cstr_at_def)

text \<open>
  C27: A response head is accepted exactly when it is a valid status line, header lines and an empty line
  within the limit, in which each field that the parser interprets occurs once at most and with a value it
  knows, so that two lengths, equal or not, are refused; not both of \<open>Content-Length\<close> and chunked coding are given,
  and one of them is unless the status allows an unframed body; and a redirect has a location.  The result
  is then determined by the lines: length, coding, location and type are the values of the only fields of
  these names, and the number of bytes consumed is the length of the head.
\<close>

theorem response_head_exact:
  "ParseHttpResponseHead (Some data) True head header_bytes = (HeadOk, h, n) \<longleftrightarrow>
   (\<exists>line lines fs body. data = line @ [CR, LF] @ crlf_lines lines @ [CR, LF] @ body \<and>
      n = length (line @ [CR, LF] @ crlf_lines lines @ [CR, LF]) \<and> n \<le> kMaximumHttpHeaderBytes \<and>
      LF \<notin> set line \<and> status_line_ok line \<and> list_all2 header_line lines fs \<and> allowed_fields fs \<and>
      h = head_of (line_status_code line) fs) \<and>
   \<not> (has_content_length h \<and> chunked h) \<and>
   (has_content_length h \<or> chunked h \<or> StatusMayHaveUnframedBody (status_code h)) \<and>
   \<not> (300 \<le> status_code h \<and> status_code h < 400 \<and> location h = [])"
  (is "?ok \<longleftrightarrow> (\<exists>line lines fs body. ?text line lines fs body) \<and> ?framed")
proof -
  let ?input = "take kMaximumHttpHeaderBytes data"
  have "?ok \<longleftrightarrow> parse_response_input ?input head header_bytes = (HeadOk, h, n)" by (simp add: ParseHttpResponseHead_def)
  also have "\<dots> \<longleftrightarrow> (\<exists>line rest. ?input = line @ CR # LF # rest \<and> LF \<notin> set line \<and> status_line_ok line \<and>
      head_lines (line_status_code line) (length ?input) rest [] h n) \<and> finish_response h = HeadOk"
    by (rule parse_response_input_iff)
  also have "(\<exists>line rest. ?input = line @ CR # LF # rest \<and> LF \<notin> set line \<and> status_line_ok line \<and>
      head_lines (line_status_code line) (length ?input) rest [] h n) \<longleftrightarrow> (\<exists>line lines fs body. ?text line lines fs body)"
  proof
    assume "\<exists>line rest. ?input = line @ CR # LF # rest \<and> LF \<notin> set line \<and> status_line_ok line \<and>
      head_lines (line_status_code line) (length ?input) rest [] h n"
    then obtain line lines fs post where i: "?input = line @ CR # LF # crlf_lines lines @ CR # LF # post"
      "LF \<notin> set line" "status_line_ok line" "list_all2 header_line lines fs" "allowed_fields fs"
      "h = head_of (line_status_code line) fs" "n = length ?input - length post" unfolding head_lines_def append_Nil by blast
    have "data = ?input @ drop kMaximumHttpHeaderBytes data" by simp
    then have "data = line @ [CR, LF] @ crlf_lines lines @ [CR, LF] @ (post @ drop kMaximumHttpHeaderBytes data)"
      unfolding i(1) by simp
    moreover have n: "n = length (line @ [CR, LF] @ crlf_lines lines @ [CR, LF])" using i(7) unfolding i(1) by simp
    moreover have "length ?input \<le> kMaximumHttpHeaderBytes" by simp
    then have "n \<le> kMaximumHttpHeaderBytes" using i(7) by simp
    ultimately show "\<exists>line lines fs body. ?text line lines fs body" using i(2-6) by blast
  next
    assume "\<exists>line lines fs body. ?text line lines fs body"
    then obtain line lines fs body where t: "?text line lines fs body" by blast
    let ?body = "take (kMaximumHttpHeaderBytes - n) body"
    have "data = (line @ [CR, LF] @ crlf_lines lines @ [CR, LF]) @ body" using t by simp
    then have "?input = (line @ [CR, LF] @ crlf_lines lines @ [CR, LF]) @ ?body" using t take_append_short by metis
    then have "?input = line @ CR # LF # (crlf_lines lines @ CR # LF # ?body)" by simp
    moreover from this have "length ?input - length ?body = n" using t by simp
    then have "head_lines (line_status_code line) (length ?input) (crlf_lines lines @ CR # LF # ?body) [] h n"
      unfolding head_lines_def using t by (intro exI [of _ lines] exI [of _ fs] exI [of _ ?body]) simp
    ultimately show "\<exists>line rest. ?input = line @ CR # LF # rest \<and> LF \<notin> set line \<and> status_line_ok line \<and>
      head_lines (line_status_code line) (length ?input) rest [] h n" using t by blast
  qed
  finally show ?thesis using finish_response_iff location_no_nul by blast
qed

end
