(* ===== verification/Signature_Codec.thy ===== *)
theory Signature_Codec
  imports Bmx_Prelude
begin

text \<open>
  The two encodings inside a signature envelope, first half of
  \<open>src/src/update/signature_envelope.cpp\<close>: canonical base64 and the DER form of a P-256 ECDSA
  signature.  Both decoders are shown to accept exactly one encoding of each value: the base64
  decoder accepts exactly the output of the encoder, and the DER check exactly the sequence of
  two minimally encoded integers between one and the group order.
\<close>

section \<open>Base64\<close>

definition Base64Value :: "byte \<Rightarrow> nat option" where
  "Base64Value c =
     (if ch CHR ''A'' \<le> c \<and> c \<le> ch CHR ''Z'' then Some (unat (c - ch CHR ''A''))
      else if ch CHR ''a'' \<le> c \<and> c \<le> ch CHR ''z'' then Some (unat (c - ch CHR ''a'') + 26)
      else if ch CHR ''0'' \<le> c \<and> c \<le> ch CHR ''9'' then Some (unat (c - ch CHR ''0'') + 52)
      else if c = ch CHR ''+'' then Some 62
      else if c = ch CHR ''/'' then Some 63
      else None)"

abbreviation pad :: byte where "pad \<equiv> ch CHR ''=''"

text \<open>The three bytes of a group; \<open>block\<close> is the 24-bit word the source assembles.\<close>

definition group_block :: "nat \<Rightarrow> nat \<Rightarrow> nat \<Rightarrow> nat \<Rightarrow> u32" where
  "group_block v0 v1 v2 v3 =
     push_bit 18 (of_nat v0) OR push_bit 12 (of_nat v1) OR push_bit 6 (of_nat v2) OR of_nat v3"

definition put_if :: "nat \<Rightarrow> byte \<Rightarrow> byte list \<Rightarrow> byte list" where
  "put_if decoded_size b out = (if length out < decoded_size then out @ [b] else out)"

lemma put_if_room: "length out < n \<Longrightarrow> put_if n b out = out @ [b]"
  by (simp add: put_if_def)

text \<open>
  The loop over the groups of four characters, with the bytes decoded so far; \<open>None\<close> where the
  source returns false.  The last equation is never reached, the input being a multiple of four.
\<close>

fun base64_groups :: "nat \<Rightarrow> nat \<Rightarrow> byte list \<Rightarrow> byte list \<Rightarrow> byte list option" where
  "base64_groups decoded_size padding out [] = Some out"
| "base64_groups decoded_size padding out (a # b # c # d # rest) =
     (let final_group = (rest = []);
          v2 = (if c = pad then Some 0 else Base64Value c);
          v3 = (if d = pad then Some 0 else Base64Value d) in
      case (Base64Value a, Base64Value b, v2, v3) of
        (Some v0, Some v1, Some v2, Some v3) \<Rightarrow>
          if \<not> final_group \<and> (c = pad \<or> d = pad) then None
          else if c = pad \<and> d \<noteq> pad then None
          else let block = group_block v0 v1 v2 v3;
                   out = put_if decoded_size (ucast (drop_bit 16 block)) out;
                   out = put_if decoded_size (ucast (drop_bit 8 block)) out;
                   out = put_if decoded_size (ucast block) out in
            if final_group \<and> padding = 1 \<and> v2 mod 4 \<noteq> 0 then None
            else if final_group \<and> padding = 2 \<and> v1 mod 16 \<noteq> 0 then None
            else base64_groups decoded_size padding out rest
      | _ \<Rightarrow> None)"
| "base64_groups decoded_size padding out _ = None"

definition base64_padding :: "byte list \<Rightarrow> nat" where
  "base64_padding encoded =
     (if encoded ! (length encoded - 1) = pad then 1 else 0) +
     (if length encoded \<ge> 2 \<and> encoded ! (length encoded - 2) = pad then 1 else 0)"

definition DecodeCanonicalBase64 :: "byte list \<Rightarrow> nat \<Rightarrow> byte list option" where
  "DecodeCanonicalBase64 encoded output_capacity =
     (let encoded_size = length encoded in
      if encoded_size = 0 \<or> encoded_size mod 4 \<noteq> 0 then None
      else let padding = base64_padding encoded;
               decoded_size = encoded_size div 4 * 3 - padding in
        if decoded_size > output_capacity then None
        else case base64_groups decoded_size padding [] encoded of
            None \<Rightarrow> None
          | Some out \<Rightarrow> if length out = decoded_size then Some out else None)"

text \<open>The encoder of RFC 4648, the specification.\<close>

definition base64_char :: "nat \<Rightarrow> byte" where
  "base64_char v =
     (if v < 26 then ch CHR ''A'' + of_nat v
      else if v < 52 then ch CHR ''a'' + of_nat (v - 26)
      else if v < 62 then ch CHR ''0'' + of_nat (v - 52)
      else if v = 62 then ch CHR ''+'' else ch CHR ''/'')"

fun base64_encode :: "byte list \<Rightarrow> byte list" where
  "base64_encode [] = []"
| "base64_encode [x] =
     [base64_char (unat x div 4), base64_char (unat x mod 4 * 16), pad, pad]"
| "base64_encode [x, y] =
     [base64_char (unat x div 4), base64_char (unat x mod 4 * 16 + unat y div 16),
      base64_char (unat y mod 16 * 4), pad]"
| "base64_encode (x # y # z # rest) =
     base64_char (unat x div 4) # base64_char (unat x mod 4 * 16 + unat y div 16) #
     base64_char (unat y mod 16 * 4 + unat z div 64) # base64_char (unat z mod 64) # base64_encode rest"

lemma unat_base64_char:
  "unat (base64_char v) =
     (if v < 26 then 65 + v else if v < 52 then 71 + v else if v < 62 then v - 4
      else if v = 62 then 43 else 47)"
  by (auto simp: base64_char_def bmx_chars unat_word_ariths unat_of_nat simp del: of_nat_diff)

lemma Base64Value_unat:
  "Base64Value c =
     (if 65 \<le> unat c \<and> unat c \<le> 90 then Some (unat c - 65)
      else if 97 \<le> unat c \<and> unat c \<le> 122 then Some (unat c - 71)
      else if 48 \<le> unat c \<and> unat c \<le> 57 then Some (unat c + 4)
      else if unat c = 43 then Some 62 else if unat c = 47 then Some 63 else None)"
  by (auto simp: Base64Value_def bmx_chars word_le_nat_alt unat_sub word_unat_eq_iff)

lemma Base64Value_iff: "Base64Value c = Some v \<longleftrightarrow> v < 64 \<and> c = base64_char v"
  unfolding word_unat_eq_iff [of c] unat_base64_char Base64Value_unat by auto

lemma Base64Value_char [simp]: "v < 64 \<Longrightarrow> Base64Value (base64_char v) = Some v"
  by (simp add: Base64Value_iff)

lemma Base64Value_pad: "Base64Value pad = None"
  by (simp add: Base64Value_unat bmx_chars)

lemma base64_char_not_pad: "v < 64 \<Longrightarrow> base64_char v \<noteq> pad"
  using Base64Value_char [of v] Base64Value_pad by (metis option.distinct(1))

lemma group_block_value:
  assumes "v0 < 64" and "v1 < 64" and "v2 < 64" and "v3 < 64"
  shows "unat (group_block v0 v1 v2 v3) = v0 * 2 ^ 18 + v1 * 2 ^ 12 + v2 * 2 ^ 6 + v3"
proof -
  have high: "\<not> bit (of_nat v :: u32) n" if "v < 64" "6 \<le> n" for v n
  proof -
    have "v < 2 ^ n" using that power_increasing [of 6 n "2 :: nat"] by simp
    then have "\<not> bit v n" by (simp add: bit_iff_odd)
    then show ?thesis by (simp add: bit_of_nat_iff_bit bit_simps)
  qed
  note bits = bit_push_bit_iff bit_or_iff high assms
  have "push_bit 6 (of_nat v2) + of_nat v3 = (push_bit 6 (of_nat v2) OR of_nat v3 :: u32)"
    by (rule disjunctive_add) (auto simp: bits)
  moreover have "push_bit 12 (of_nat v1) + (push_bit 6 (of_nat v2) OR of_nat v3) =
      (push_bit 12 (of_nat v1) OR (push_bit 6 (of_nat v2) OR of_nat v3) :: u32)"
    by (rule disjunctive_add) (auto simp: bits)
  moreover have "push_bit 18 (of_nat v0) + (push_bit 12 (of_nat v1) OR (push_bit 6 (of_nat v2) OR of_nat v3)) =
      (push_bit 18 (of_nat v0) OR (push_bit 12 (of_nat v1) OR (push_bit 6 (of_nat v2) OR of_nat v3)) :: u32)"
    by (rule disjunctive_add) (auto simp: bits)
  ultimately have "group_block v0 v1 v2 v3 =
      push_bit 18 (of_nat v0) + (push_bit 12 (of_nat v1) + (push_bit 6 (of_nat v2) + of_nat v3))"
    unfolding group_block_def or.assoc by simp
  also have "\<dots> = of_nat (v0 * 2 ^ 18 + v1 * 2 ^ 12 + v2 * 2 ^ 6 + v3)"
    by (simp add: push_bit_eq_mult algebra_simps)
  finally have block: "group_block v0 v1 v2 v3 = of_nat (v0 * 2 ^ 18 + v1 * 2 ^ 12 + v2 * 2 ^ 6 + v3)" .
  show ?thesis unfolding block by (rule unat_of_nat_small) (use assms in simp)
qed

lemma ucast_byte_of_nat: "(ucast (w :: 'a::len word) :: byte) = of_nat (unat w)"
  by simp

lemma split256: "r < 256 \<Longrightarrow> (256 * q + r) div 256 = (q :: nat) \<and> (256 * q + r) mod 256 = r"
  by simp

lemma len8_exp: "(2 :: nat) ^ LENGTH(8) = 256"
  by simp

lemma group_arith:
  "v1 = 16 * p + q \<Longrightarrow> v2 = 4 * r + t \<Longrightarrow>
   v0 * 2 ^ 18 + v1 * 2 ^ 12 + v2 * 2 ^ 6 + v3 = 256 * (256 * (v0 * 4 + p) + (q * 16 + r)) + (t * 64 + v3 :: nat)"
  by simp

lemma group_bytes:
  assumes "v0 < 64" and "v1 < 64" and "v2 < 64" and "v3 < 64"
  defines "block \<equiv> group_block v0 v1 v2 v3"
  shows "unat (ucast (drop_bit 16 block) :: byte) = v0 * 4 + v1 div 16"
    and "unat (ucast (drop_bit 8 block) :: byte) = v1 mod 16 * 16 + v2 div 4"
    and "unat (ucast block :: byte) = v2 mod 4 * 64 + v3"
proof -
  let ?b0 = "v0 * 4 + v1 div 16" and ?b1 = "v1 mod 16 * 16 + v2 div 4" and ?b2 = "v2 mod 4 * 64 + v3"
  have less: "?b0 < 256" "?b1 < 256" "?b2 < 256" using assms(1-4) by auto
  have "v1 = 16 * (v1 div 16) + v1 mod 16" "v2 = 4 * (v2 div 4) + v2 mod 4" by simp_all
  from group_arith [OF this, of v0 v3] have v: "unat block = 256 * (256 * ?b0 + ?b1) + ?b2"
    using assms by (simp only: block_def group_block_value)
  have d: "unat (drop_bit k block) = unat block div 2 ^ k" for k
    unfolding unat_drop_bit_eq by (rule drop_bit_eq_div)
  have d8: "unat block div 256 = 256 * ?b0 + ?b1"
    unfolding v using split256 [OF less(3)] by blast
  have "unat block div 2 ^ 16 = unat block div 256 div 256" by (simp add: div_mult2_eq [symmetric])
  then have d16: "unat block div 2 ^ 16 = ?b0" 
    unfolding d8 using conjunct1 [OF split256 [OF less(2), of ?b0]] by (simp only:)
  show "unat (ucast (drop_bit 16 block) :: byte) = ?b0"
    unfolding ucast_byte_of_nat d d16 by (rule unat_of_nat_small) (use less(1) in simp)
  have "(2 :: nat) ^ 8 = 256" by simp
  then show "unat (ucast (drop_bit 8 block) :: byte) = ?b1"
    unfolding ucast_byte_of_nat d 
    using conjunct2 [OF split256 [OF less(2), of ?b0]] d8 by (simp only: unat_of_nat) simp
  show "unat (ucast block :: byte) = ?b2"
    unfolding ucast_byte_of_nat v unat_of_nat
    using conjunct2 [OF split256 [OF less(3), of "256 * ?b0 + ?b1"]] by (simp only: len8_exp)
qed

lemma base64_padding_Cons4:
  assumes "rest \<noteq> []" and "length rest mod 4 = 0"
  shows "base64_padding (a # b # c # d # rest) = base64_padding rest"
proof -
  have "2 \<le> length rest" using assms by (cases rest rule: list.exhaust) (auto, presburger)
  then obtain n where n: "length rest = Suc (Suc n)" by (metis Suc_le_D numeral_2_eq_2 Suc_le_mono)
  then show ?thesis by (simp add: base64_padding_def)
qed

lemma base64_padding_last: "base64_padding [a, b, c, d] = (if d = pad then 1 else 0) + (if c = pad then 1 else 0)"
  by (simp add: base64_padding_def)

text \<open>The sextets of three bytes, and back.\<close>

lemma sextets_less:
  fixes x y z :: byte
  shows "unat x div 4 < 64" and "unat x mod 4 * 16 + unat y div 16 < 64"
    and "unat x mod 4 * 16 < 64" and "unat y mod 16 * 4 < 64"
    and "unat y mod 16 * 4 + unat z div 64 < 64" and "unat z mod 64 < 64"
  using byte_exhaust_less [of x] byte_exhaust_less [of y] byte_exhaust_less [of z] by auto

lemma group_of_sextets:
  fixes x y z :: byte
  defines "block \<equiv> group_block (unat x div 4) (unat x mod 4 * 16 + unat y div 16)
      (unat y mod 16 * 4 + unat z div 64) (unat z mod 64)"
  shows "(ucast (drop_bit 16 block) :: byte) = x" and "(ucast (drop_bit 8 block) :: byte) = y"
    and "(ucast block :: byte) = z"
proof -
  note g = group_bytes [OF sextets_less(1) [of x] sextets_less(2) [of x y] sextets_less(5) [of y z]
      sextets_less(6) [of z], folded block_def]
  have "unat y div 16 < 16" "unat z div 64 < 4"
    using byte_exhaust_less [of y] byte_exhaust_less [of z] by auto
  then have m: "(unat x mod 4 * 16 + unat y div 16) div 16 = unat x mod 4"
      "(unat x mod 4 * 16 + unat y div 16) mod 16 = unat y div 16"
      "(unat y mod 16 * 4 + unat z div 64) div 4 = unat y mod 16"
      "(unat y mod 16 * 4 + unat z div 64) mod 4 = unat z div 64" by auto
  show "(ucast (drop_bit 16 block) :: byte) = x" "(ucast (drop_bit 8 block) :: byte) = y"
      "(ucast block :: byte) = z"
    unfolding word_unat_eq_iff g m by simp_all
qed

lemma sextets_of_group:
  assumes "v0 < 64" and "v1 < 64" and "v2 < 64" and "v3 < 64"
  defines "block \<equiv> group_block v0 v1 v2 v3"
  defines "x \<equiv> ucast (drop_bit 16 block) :: byte" and "y \<equiv> ucast (drop_bit 8 block) :: byte"
    and "z \<equiv> ucast block :: byte"
  shows "unat x div 4 = v0" and "unat x mod 4 * 16 + unat y div 16 = v1"
    and "unat y mod 16 * 4 + unat z div 64 = v2" and "unat z mod 64 = v3"
    and "v1 mod 16 = 0 \<Longrightarrow> unat x mod 4 * 16 = v1"
    and "v2 mod 4 = 0 \<Longrightarrow> unat y mod 16 * 4 = v2"
proof -
  have u: "unat x = v0 * 4 + v1 div 16" "unat y = v1 mod 16 * 16 + v2 div 4" "unat z = v2 mod 4 * 64 + v3"
    unfolding x_def y_def z_def block_def using group_bytes [OF assms(1-4)] by simp_all
  have "v1 div 16 < 4" "v2 div 4 < 16" using assms(2,3) by auto
  then show "unat x div 4 = v0" "unat x mod 4 * 16 + unat y div 16 = v1"
    "unat y mod 16 * 4 + unat z div 64 = v2" "unat z mod 64 = v3"
    "v1 mod 16 = 0 \<Longrightarrow> unat x mod 4 * 16 = v1" "v2 mod 4 = 0 \<Longrightarrow> unat y mod 16 * 4 = v2"
    unfolding u using assms(4) by auto
qed

lemma base64_encode_length: "length (base64_encode out) mod 4 = 0"
  by (induction out rule: base64_encode.induct) simp_all

lemma base64_encode_Nil_iff [simp]: "base64_encode out = [] \<longleftrightarrow> out = []"
  by (cases out rule: base64_encode.cases) simp_all

lemma base64_encode_size:
  "out \<noteq> [] \<Longrightarrow>
   length (base64_encode out) div 4 * 3 - base64_padding (base64_encode out) = length out \<and>
   base64_padding (base64_encode out) \<le> 2 \<and> 4 \<le> length (base64_encode out)"
proof (induction out rule: base64_encode.induct)
  case (4 x y z rest)
  show ?case
  proof (cases "rest = []")
    case True
    then show ?thesis by (simp add: base64_padding_last base64_char_not_pad sextets_less)
  next
    case False
    have "(4 + length (base64_encode rest)) div 4 = Suc (length (base64_encode rest) div 4)" by simp
    moreover have "1 \<le> length (base64_encode rest) div 4" using "4.IH" [OF False] by linarith
    ultimately show ?thesis
      using "4.IH" [OF False] False by (auto simp: base64_padding_Cons4 base64_encode_length)
  qed
qed (simp_all add: base64_padding_last base64_char_not_pad sextets_less)

lemma base64_groups_encode:
  "out \<noteq> [] \<Longrightarrow>
   base64_groups (length acc + length out) (base64_padding (base64_encode out)) acc (base64_encode out) =
   Some (acc @ out)"
proof (induction out arbitrary: acc rule: base64_encode.induct)
  case 1
  then show ?case by simp
next
  case (2 x)
  show ?case
    using group_of_sextets(1) [of x 0 0]
    by (simp add: base64_padding_last base64_char_not_pad sextets_less put_if_def Let_def)
next
  case (3 x y)
  show ?case
    using group_of_sextets(1,2) [of x y 0]
    by (simp add: base64_padding_last base64_char_not_pad sextets_less put_if_def Let_def)
next
  case (4 x y z rest)
  note step = group_of_sextets [of x y z] base64_char_not_pad sextets_less put_if_def Let_def
  show ?case
  proof (cases "rest = []")
    case True
    then show ?thesis by (simp add: step base64_padding_last)
  next
    case False
    from "4.IH" [OF False, of "acc @ [x, y, z]"] False show ?thesis
      by (simp add: step base64_padding_Cons4 base64_encode_length)
  qed
qed

text \<open>One group: what an accepted one holds.\<close>

lemma base64_group_accepted:
  assumes "base64_groups n p acc (a # b # c # d # rest) = Some res"
  obtains v0 v1 v2 v3 where "v0 < 64" "v1 < 64" "v2 < 64" "v3 < 64"
    "a = base64_char v0" "b = base64_char v1"
    "c = base64_char v2 \<or> c = pad \<and> d = pad \<and> v2 = 0 \<and> rest = []"
    "d = base64_char v3 \<or> d = pad \<and> v3 = 0 \<and> rest = []"
    "rest = [] \<and> p = 1 \<longrightarrow> v2 mod 4 = 0" "rest = [] \<and> p = 2 \<longrightarrow> v1 mod 16 = 0"
    "base64_groups n p
       (put_if n (ucast (group_block v0 v1 v2 v3))
         (put_if n (ucast (drop_bit 8 (group_block v0 v1 v2 v3)))
           (put_if n (ucast (drop_bit 16 (group_block v0 v1 v2 v3))) acc))) rest = Some res"
proof -
  let ?v2 = "if c = pad then Some 0 else Base64Value c" and ?v3 = "if d = pad then Some 0 else Base64Value d"
  obtain v0 v1 v2 v3 where v: "Base64Value a = Some v0" "Base64Value b = Some v1" "?v2 = Some v2" "?v3 = Some v3"
    using assms by (simp add: Let_def split: option.split_asm)
  have "v0 < 64" "a = base64_char v0" "v1 < 64" "b = base64_char v1"
    using v(1,2) by (auto simp: Base64Value_iff)
  moreover have "v2 < 64" "c = base64_char v2 \<or> c = pad \<and> v2 = 0"
    using v(3) by (auto simp: Base64Value_iff split: if_split_asm)
  moreover have "v3 < 64" "d = base64_char v3 \<or> d = pad \<and> v3 = 0"
    using v(4) by (auto simp: Base64Value_iff split: if_split_asm)
  ultimately show thesis
    using assms v that [of v0 v1 v2 v3] by (simp add: Let_def split: if_split_asm)
qed

lemma base64_groups_sound:
  assumes "base64_groups n p acc enc = Some res"
    and "enc \<noteq> []" and "length enc mod 4 = 0" and "p = base64_padding enc"
    and "n = length acc + (length enc div 4 * 3 - p)"
  shows "\<exists>out. res = acc @ out \<and> enc = base64_encode out"
  using assms
proof (induction enc arbitrary: acc rule: length_induct)
  case (1 enc)
  obtain a b c d rest where enc: "enc = a # b # c # d # rest"
    using "1.prems"(2,3) by (cases "(n, p, acc, enc)" rule: base64_groups.cases) auto
  note prems = "1.prems" [unfolded enc]
  have IH: "\<exists>out. res = acc' @ out \<and> rest = base64_encode out"
    if "base64_groups n p acc' rest = Some res" "rest \<noteq> []" "length rest mod 4 = 0"
      "p = base64_padding rest" "n = length acc' + (length rest div 4 * 3 - p)" for acc'
    using "1.IH" that by (auto simp: enc)
  from prems(1) obtain v0 v1 v2 v3 where v: "v0 < 64" "v1 < 64" "v2 < 64" "v3 < 64"
    and ab: "a = base64_char v0" "b = base64_char v1"
    and c: "c = base64_char v2 \<or> c = pad \<and> d = pad \<and> v2 = 0 \<and> rest = []"
    and d: "d = base64_char v3 \<or> d = pad \<and> v3 = 0 \<and> rest = []"
    and p1: "rest = [] \<and> p = 1 \<longrightarrow> v2 mod 4 = 0" and p2: "rest = [] \<and> p = 2 \<longrightarrow> v1 mod 16 = 0"
    and next_group: "base64_groups n p
       (put_if n (ucast (group_block v0 v1 v2 v3))
         (put_if n (ucast (drop_bit 8 (group_block v0 v1 v2 v3)))
           (put_if n (ucast (drop_bit 16 (group_block v0 v1 v2 v3))) acc))) rest = Some res"
    by (rule base64_group_accepted)
  define x y z :: byte where "x = ucast (drop_bit 16 (group_block v0 v1 v2 v3))"
    and "y = ucast (drop_bit 8 (group_block v0 v1 v2 v3))" and "z = ucast (group_block v0 v1 v2 v3)"
  note sext = sextets_of_group [OF v, folded x_def y_def z_def]
  note next_group = next_group [folded x_def y_def z_def]
  show ?case
  proof (cases "rest = []")
    case True
    then have p: "p = (if d = pad then 1 else 0) + (if c = pad then 1 else 0)"
      using prems(4) by (simp add: base64_padding_last)
    consider "c \<noteq> pad" "d \<noteq> pad" | "c \<noteq> pad" "d = pad" | "c = pad" "d = pad"
      using c d base64_char_not_pad v by auto
    then show ?thesis
    proof cases
      case 1
      with True p next_group prems(5) have "res = acc @ [x, y, z]" by (simp add: put_if_def)
      moreover have "enc = base64_encode [x, y, z]" using 1 True enc ab c d sext by simp
      ultimately show ?thesis by blast
    next
      case 2
      with True p next_group prems(5) have "res = acc @ [x, y]" by (simp add: put_if_def)
      moreover have "enc = base64_encode [x, y]"
        using 2 True enc ab c sext(1,2) sext(6) p1 p by simp
      ultimately show ?thesis by blast
    next
      case 3
      with True p next_group prems(5) have "res = acc @ [x]" by (simp add: put_if_def)
      moreover have "enc = base64_encode [x]"
        using 3 True enc ab sext(1) sext(5) p2 p by simp
      ultimately show ?thesis by blast
    qed
  next
    case False
    have len: "length rest mod 4 = 0" using prems(3) by simp
    then have "4 \<le> length rest" using False by (cases "length rest < 4") auto
    then have m: "1 \<le> length rest div 4" by linarith
    have p: "p = base64_padding rest" using prems(4) base64_padding_Cons4 [OF False len] by simp
    then have "p \<le> 2" by (simp add: base64_padding_def)
    moreover have "(4 + length rest) div 4 = Suc (length rest div 4)" by simp
    ultimately have n: "n = length (acc @ [x, y, z]) + (length rest div 4 * 3 - p)"
      using prems(5) m by simp
    then have "length acc + 2 < n" by simp
    with next_group have "base64_groups n p (acc @ [x, y, z]) rest = Some res"
      by (simp add: put_if_room)
    from IH [OF this False len p n] obtain out where "res = acc @ x # y # z # out" "rest = base64_encode out"
      by auto
    moreover from this have "enc = base64_encode (x # y # z # out)" using False enc ab c d sext by simp
    ultimately show ?thesis by blast
  qed
qed


lemma DecodeCanonicalBase64_iff:
  "DecodeCanonicalBase64 enc cap = Some out \<longleftrightarrow> out \<noteq> [] \<and> length out \<le> cap \<and> enc = base64_encode out"
proof
  assume "DecodeCanonicalBase64 enc cap = Some out"
  then have h: "enc \<noteq> []" "length enc mod 4 = 0" "length out = length enc div 4 * 3 - base64_padding enc"
      "length out \<le> cap" "base64_groups (length out) (base64_padding enc) [] enc = Some out"
    by (auto simp: DecodeCanonicalBase64_def Let_def split: if_split_asm option.split_asm)
  from base64_groups_sound [OF h(5) h(1,2) refl] h(3) have "enc = base64_encode out" by auto
  with h(1,4) show "out \<noteq> [] \<and> length out \<le> cap \<and> enc = base64_encode out" by auto
next
  assume "out \<noteq> [] \<and> length out \<le> cap \<and> enc = base64_encode out"
  then show "DecodeCanonicalBase64 enc cap = Some out"
    using base64_encode_size [of out] base64_groups_encode [of out "[]"] base64_encode_length [of out]
    by (simp add: DecodeCanonicalBase64_def)
qed

text \<open>
  C35: The decoder accepts exactly the canonical encodings.  It returns \<open>out\<close> just when the text is
  the RFC 4648 encoding of \<open>out\<close>, which is not empty and fits the output buffer: no second
  text (other padding, stray bits in the last group, white space) decodes to the same bytes, and
  every encoding that fits is decoded.
\<close>

theorem base64_canonical:
  "DecodeCanonicalBase64 enc cap = Some out \<longleftrightarrow> out \<noteq> [] \<and> length out \<le> cap \<and> enc = base64_encode out"
  by (rule DecodeCanonicalBase64_iff)

section \<open>DER-encoded P-256 signatures\<close>

definition kMaximumEcdsaDerBytes :: nat where
  "kMaximumEcdsaDerBytes = 80"

definition kP256Order :: "byte list" where
  "kP256Order =
     [0xff, 0xff, 0xff, 0xff, 0x00, 0x00, 0x00, 0x00,
      0xff, 0xff, 0xff, 0xff, 0xff, 0xff, 0xff, 0xff,
      0xbc, 0xe6, 0xfa, 0xad, 0xa7, 0x17, 0x9e, 0x84,
      0xf3, 0xb9, 0xca, 0xc2, 0xfc, 0x63, 0x25, 0x51]"

definition ScalarInP256Range :: "byte list \<Rightarrow> bool" where
  "ScalarInP256Range encoded =
     (let size = length encoded in
      if size = 0 \<or> size > 33 \<or> encoded ! 0 AND 0x80 \<noteq> 0 then False
      else if size > 1 \<and> encoded ! 0 = 0 \<and> encoded ! 1 AND 0x80 = 0 then False
      else if size = 33 \<and> encoded ! 0 \<noteq> 0 then False
      else let value = dropWhile (\<lambda>b. b = 0) (if size = 33 then drop 1 encoded else encoded) in
        if value = [] then False
        else if length value < length kP256Order then True
        else if length value > length kP256Order then False
        else bytes_less value kP256Order)"

text \<open>The loop over the two integers, with the number of them left and the cursor.\<close>

primrec der_scalars :: "nat \<Rightarrow> byte list \<Rightarrow> nat \<Rightarrow> nat option" where
  "der_scalars 0 signature cursor = Some cursor"
| "der_scalars (Suc k) signature cursor =
     (if cursor + 2 > length signature \<or> signature ! cursor \<noteq> 0x02 then None
      else let size = unat (signature ! (cursor + 1)); cursor = cursor + 2 in
        if size = 0 \<or> size > 33 \<or> cursor + size > length signature \<or>
           \<not> ScalarInP256Range (segment signature cursor (cursor + size)) then None
        else der_scalars k signature (cursor + size))"

definition IsValidP256EcdsaDer :: "byte list \<Rightarrow> bool" where
  "IsValidP256EcdsaDer signature =
     (if length signature < 8 \<or> length signature > kMaximumEcdsaDerBytes \<or>
         signature ! 0 \<noteq> 0x30 \<or> signature ! 1 \<ge> 0x80 \<or>
         unat (signature ! 1) \<noteq> length signature - 2 then False
      else case der_scalars 2 signature 2 of
          None \<Rightarrow> False
        | Some cursor \<Rightarrow> cursor = length signature)"

text \<open>
  The specification: the order of the group, the shortest big-endian form of a number, the DER
  contents of a positive integer (a zero octet in front when the first bit is set), and the
  sequence of two of them.
\<close>

definition p256_order :: nat where
  "p256_order = 0xffffffff00000000ffffffffffffffffbce6faada7179e84f3b9cac2fc632551"

fun be_bytes :: "nat \<Rightarrow> byte list" where
  "be_bytes n = (if n = 0 then [] else be_bytes (n div 256) @ [of_nat n])"

declare be_bytes.simps [simp del]

definition der_integer :: "nat \<Rightarrow> byte list" where
  "der_integer n = (let bs = be_bytes n in if bs = [] \<or> 0x80 \<le> hd bs then 0 # bs else bs)"

definition der_tlv :: "byte \<Rightarrow> byte list \<Rightarrow> byte list" where
  "der_tlv tag contents = tag # of_nat (length contents) # contents"

definition der_signature :: "nat \<Rightarrow> nat \<Rightarrow> byte list" where
  "der_signature r s = der_tlv 0x30 (der_tlv 0x02 (der_integer r) @ der_tlv 0x02 (der_integer s))"

lemma high_bit_clear_iff: "(b :: byte) AND 0x80 = 0 \<longleftrightarrow> b < 0x80"
proof -
  have "b AND 0x80 = 0 \<longleftrightarrow> \<not> bit b 7"
    using and_exp_eq_0_iff_not_bit [of b 7] by simp
  also have "\<dots> \<longleftrightarrow> \<not> bit (unat b) 7" by (simp add: bit_unsigned_iff)
  also have "\<dots> \<longleftrightarrow> even (unat b div 128)" by (simp add: bit_iff_odd)
  also have "\<dots> \<longleftrightarrow> unat b < 128"
  proof (cases "unat b < 128")
    case False
    then have "unat b div 128 = 1" using byte_exhaust_less [of b] by (simp add: div_nat_eqI)
    with False show ?thesis by simp
  qed simp
  finally show ?thesis by (simp add: word_less_nat_alt)
qed

lemma be_bytes_Nil_iff [simp]: "be_bytes n = [] \<longleftrightarrow> n = 0"
  by (subst be_bytes.simps) simp

lemma be_bytes_0 [simp]: "be_bytes 0 = []"
  by simp

lemma be_value_snoc: "be_value (bs @ [b]) = be_value bs * 256 + unat b"
  by (simp add: be_value_def)

lemma be_value_be_bytes [simp]: "be_value (be_bytes n) = n"
proof (induction n rule: be_bytes.induct)
  case (1 n)
  then show ?case
    by (cases "n = 0") (simp add: be_value_def, simp add: be_bytes.simps [of n] be_value_snoc unat_of_nat)
qed

lemma be_value_eq_0: "be_value bs = 0 \<longleftrightarrow> list_all (\<lambda>b. b = 0) bs"
  by (induction bs) (simp add: be_value_def, simp add: be_value_Cons, metis unat_0 word_unat_eq_iff)

lemma be_bytes_be_value: "be_bytes (be_value bs) = dropWhile (\<lambda>b. b = 0) bs"
proof (induction bs rule: rev_induct)
  case Nil
  then show ?case by (simp add: be_value_def be_bytes.simps)
next
  case (snoc b bs)
  have d: "(be_value bs * 256 + unat b) div 256 = be_value bs" using byte_exhaust_less [of b] by simp
  have o: "(of_nat (be_value bs * 256 + unat b) :: byte) = b"
  proof -
    have "(256 :: byte) = 0" by simp
    then show ?thesis by (simp only: of_nat_add of_nat_mult of_nat_numeral) simp
  qed
  show ?case
  proof (cases "be_value (bs @ [b]) = 0")
    case True
    then show ?thesis by (simp add: be_bytes.simps be_value_eq_0 list_all_iff)
  next
    case False
    then have "be_bytes (be_value (bs @ [b])) = dropWhile (\<lambda>b. b = 0) bs @ [b]"
      unfolding be_value_snoc using d o snoc.IH by (subst be_bytes.simps) (simp only: if_False)
    moreover have "\<not> list_all (\<lambda>b. b = 0) (bs @ [b])" using False unfolding be_value_eq_0 .
    ultimately show ?thesis by (auto simp: dropWhile_append list_all_iff)
  qed
qed

lemma be_bytes_hd: "be_bytes n \<noteq> [] \<Longrightarrow> hd (be_bytes n) \<noteq> 0"
proof -
  assume ne: "be_bytes n \<noteq> []"
  have eq: "dropWhile (\<lambda>b. b = 0) (be_bytes n) = be_bytes n"
    using be_bytes_be_value [of "be_bytes n"] by simp
  show ?thesis using hd_dropWhile [of "\<lambda>b. b = 0" "be_bytes n"] ne unfolding eq by simp
qed

lemma be_bytes_length_le:
  assumes "n < 256 ^ k"
  shows "length (be_bytes n) \<le> k"
proof (cases "be_bytes n")
  case (Cons b bs)
  then have "1 \<le> unat b" using be_bytes_hd [of n] by (simp add: word_unat_eq_iff)
  then have "256 ^ length bs \<le> be_value (b # bs)"
    unfolding be_value_Cons by (cases "unat b") (simp_all add: trans_le_add1)
  then have "(256 :: nat) ^ length bs < 256 ^ k"
    using assms unfolding Cons [symmetric] be_value_be_bytes by (rule le_less_trans)
  then have "length bs < k" by (rule power_less_imp_less_exp [rotated]) simp
  then show ?thesis using Cons by simp
qed simp

lemma p256_order_bytes: "be_value kP256Order = p256_order" "length kP256Order = 32"
  by (simp_all add: be_value_def kP256Order_def p256_order_def)

lemma p256_order_bounds: "256 ^ 31 < p256_order" "p256_order < 256 ^ 32"
  by (simp_all add: p256_order_def)

text \<open>The range test on the significant bytes is the comparison of numbers.\<close>

lemma scalar_in_range_iff:
  assumes "value = dropWhile (\<lambda>b. b = 0) bs" and "length bs \<le> 32"
  shows "value \<noteq> [] \<and> (length value < 32 \<or> bytes_less value kP256Order) \<longleftrightarrow>
    0 < be_value bs \<and> be_value bs < p256_order"
proof -
  have v: "be_bytes (be_value bs) = value" using assms(1) be_bytes_be_value by simp
  then have val: "be_value value = be_value bs" using be_value_be_bytes by metis
  have "value = [] \<longleftrightarrow> be_value bs = 0" using v val by (auto simp: be_bytes.simps be_value_def)
  moreover have "length value \<le> 32" using assms length_dropWhile_le le_trans by metis
  moreover have "be_value bs < p256_order" if "length value < 32"
  proof -
    have "be_value value < 256 ^ length value" by (rule be_value_less)
    also have "\<dots> \<le> 256 ^ 31" using that by (intro power_increasing) auto
    finally show ?thesis using val p256_order_bounds by simp
  qed
  moreover have "bytes_less value kP256Order \<longleftrightarrow> be_value bs < p256_order" if "length value = 32"
    using be_value_less_iff [of "value" kP256Order] that val p256_order_bytes by simp
  ultimately show ?thesis by (metis bot_nat_0.not_eq_extremum le_neq_implies_less)
qed

lemma be_value_0_Cons [simp]: "be_value (0 # bs) = be_value bs"
  by (simp add: be_value_Cons)

lemma be_value_der_integer [simp]: "be_value (der_integer n) = n"
  by (simp add: der_integer_def Let_def)

lemma der_integer_minimal:
  "(\<exists>n. 0 < n \<and> e = der_integer n) \<longleftrightarrow>
   e \<noteq> [] \<and> e ! 0 < 0x80 \<and> \<not> (1 < length e \<and> e ! 0 = 0 \<and> e ! 1 < 0x80) \<and> 0 < be_value e"
  (is "?int \<longleftrightarrow> ?min")
proof
  assume ?int
  then obtain n where n: "0 < n" "e = der_integer n" by blast
  then obtain b bs where b: "be_bytes n = b # bs" by (cases "be_bytes n") auto
  then have "b \<noteq> 0" using be_bytes_hd [of n] by simp
  have v: "0 < be_value e" using n by simp
  have e: "e = (if 0x80 \<le> b then 0 # b # bs else b # bs)" using n(2) b by (simp add: der_integer_def)
  show ?min
  proof (cases "0x80 \<le> b")
    case True
    then have "e = 0 # b # bs" "\<not> b < 0x80" using e by simp_all
    with v show ?thesis by simp
  next
    case False
    then have "e = b # bs" "b < 0x80" using e by simp_all
    with v \<open>b \<noteq> 0\<close> show ?thesis by simp
  qed
next
  assume m: ?min
  then obtain x xs where e: "e = x # xs" by (cases e) auto
  have "e = der_integer (be_value e)"
  proof (cases "x = 0")
    case False
    moreover have "\<not> 0x80 \<le> x" using m e by (simp add: not_le)
    ultimately show ?thesis by (simp add: der_integer_def be_bytes_be_value e)
  next
    case True
    then obtain y ys where xs: "xs = y # ys" using m e by (cases xs) (auto simp: be_value_def)
    moreover have "0x80 \<le> y" using m e True xs by (simp add: not_less)
    moreover from this have "y \<noteq> 0" by auto
    ultimately show ?thesis using True by (simp add: der_integer_def be_bytes_be_value e)
  qed
  with m show ?int by blast
qed

lemma der_integer_length:
  assumes "n < p256_order"
  shows "length (der_integer n) \<le> 33" and "length (der_integer n) = 33 \<Longrightarrow> der_integer n ! 0 = 0"
  using be_bytes_length_le [of n 32] assms p256_order_bounds(2)
  by (auto simp: der_integer_def Let_def)

lemma ScalarInP256Range_iff:
  "ScalarInP256Range e \<longleftrightarrow> (\<exists>n. 0 < n \<and> n < p256_order \<and> e = der_integer n)"
proof (cases "e \<noteq> [] \<and> length e \<le> 33 \<and> (length e = 33 \<longrightarrow> e ! 0 = 0)")
  case True
  let ?bs = "if length e = 33 then drop 1 e else e"
  have len: "length ?bs \<le> 32" and val: "be_value ?bs = be_value e" using True by (cases e; auto)+
  define v where "v = dropWhile (\<lambda>b. b = 0) ?bs"
  have "length v \<le> 32"
    using length_dropWhile_le [of "\<lambda>b. b = 0" ?bs] len unfolding v_def by linarith
  then have "ScalarInP256Range e \<longleftrightarrow> e ! 0 < 0x80 \<and> \<not> (1 < length e \<and> e ! 0 = 0 \<and> e ! 1 < 0x80) \<and>
      v \<noteq> [] \<and> (length v < 32 \<or> bytes_less v kP256Order)"
    using True unfolding ScalarInP256Range_def Let_def high_bit_clear_iff p256_order_bytes v_def [symmetric]
    by auto
  also have "\<dots> \<longleftrightarrow> e ! 0 < 0x80 \<and> \<not> (1 < length e \<and> e ! 0 = 0 \<and> e ! 1 < 0x80) \<and>
      0 < be_value e \<and> be_value e < p256_order"
    unfolding scalar_in_range_iff [OF v_def len] val ..
  also have "\<dots> \<longleftrightarrow> (\<exists>n. 0 < n \<and> e = der_integer n) \<and> be_value e < p256_order"
    using True unfolding der_integer_minimal by blast
  finally show ?thesis by auto
next
  case False
  then have "\<not> ScalarInP256Range e" by (auto simp: ScalarInP256Range_def)
  moreover have "e \<noteq> der_integer n" if "n < p256_order" for n
    using False der_integer_length [OF that] by (auto simp: der_integer_def Let_def split: if_split_asm)
  ultimately show ?thesis by blast
qed

text \<open>One turn of the loop consumes the tag, the length and the contents of one integer.\<close>

lemma der_scalars_step:
  "der_scalars (Suc k) signature cursor = Some c \<longleftrightarrow>
   (\<exists>n rest. 0 < n \<and> n < p256_order \<and> drop cursor signature = der_tlv 0x02 (der_integer n) @ rest \<and>
      der_scalars k signature (cursor + length (der_tlv 0x02 (der_integer n))) = Some c)"
  (is "?step \<longleftrightarrow> ?int")
proof
  let ?size = "unat (signature ! (cursor + 1))"
  assume ?step
  then have h: "cursor + 2 \<le> length signature" "signature ! cursor = 0x02"
      "cursor + 2 + ?size \<le> length signature"
      "ScalarInP256Range (segment signature (cursor + 2) (cursor + 2 + ?size))"
      "der_scalars k signature (cursor + 2 + ?size) = Some c"
    by (auto simp: Let_def split: if_split_asm)
  then obtain n where n: "0 < n" "n < p256_order" "segment signature (cursor + 2) (cursor + 2 + ?size) = der_integer n"
    unfolding ScalarInP256Range_iff by blast
  from n(3) have len: "length (der_integer n) = ?size"
    using h(3) by (simp flip: n(3))
  have "drop cursor signature = signature ! cursor # signature ! (cursor + 1) # drop (cursor + 2) signature"
    using h(1) by (simp add: Cons_nth_drop_Suc)
  also have "drop (cursor + 2) signature = der_integer n @ drop (cursor + 2 + ?size) signature"
    using segment_append_drop [of "cursor + 2" "cursor + 2 + ?size" signature] h(3) n(3) by simp
  finally have "drop cursor signature = der_tlv 0x02 (der_integer n) @ drop (cursor + 2 + ?size) signature"
    using h(2) by (simp add: der_tlv_def len)
  with n h(5) show ?int by (auto simp: der_tlv_def len add.assoc)
next
  assume ?int
  then obtain n rest where n: "0 < n" "n < p256_order"
    and d: "drop cursor signature = der_tlv 0x02 (der_integer n) @ rest"
    and c: "der_scalars k signature (cursor + length (der_tlv 0x02 (der_integer n))) = Some c" by blast
  let ?m = "length (der_integer n)"
  have m: "0 < ?m" "?m \<le> 33" using n(1) der_integer_length(1) [OF n(2)] by (auto simp: der_integer_def Let_def)
  have len: "cursor + (2 + ?m) \<le> length signature"
    using arg_cong [OF d, of length] by (simp add: der_tlv_def)
  have "signature ! (cursor + i) = (der_tlv 0x02 (der_integer n) @ rest) ! i" for i
    using nth_drop [of cursor signature i] len by (simp add: d)
  from this [of 0] this [of 1] len have b: "signature ! cursor = 0x02" "unat (signature ! (cursor + 1)) = ?m"
    using m by (simp_all add: der_tlv_def unat_of_nat)
  have "segment signature (cursor + 2) (cursor + 2 + ?m) = take ?m (drop 2 (drop cursor signature))"
    by (simp add: segment_def add.commute)
  also have "\<dots> = der_integer n" by (simp add: d der_tlv_def)
  finally have "ScalarInP256Range (segment signature (cursor + 2) (cursor + 2 + ?m))"
    using n ScalarInP256Range_iff by blast
  with b len m c show ?step by (simp add: der_tlv_def add.assoc)
qed

lemma der_integer_not_Nil: "der_integer n \<noteq> []"
  by (auto simp: der_integer_def Let_def)

lemma IsValidP256EcdsaDer_iff:
  "IsValidP256EcdsaDer sig \<longleftrightarrow>
   (\<exists>r s. 0 < r \<and> r < p256_order \<and> 0 < s \<and> s < p256_order \<and> sig = der_signature r s)"
  (is "?valid \<longleftrightarrow> ?der")
proof
  assume ?valid
  then have h: "8 \<le> length sig" "sig ! 0 = 0x30" "unat (sig ! 1) = length sig - 2"
      "der_scalars 2 sig 2 = Some (length sig)"
    by (auto simp: IsValidP256EcdsaDer_def split: if_split_asm option.split_asm)
  from h(4) obtain r rest s rest' where rs: "0 < r" "r < p256_order" "0 < s" "s < p256_order"
    and d: "drop 2 sig = der_tlv 0x02 (der_integer r) @ rest"
      "drop (2 + length (der_tlv 0x02 (der_integer r))) sig = der_tlv 0x02 (der_integer s) @ rest'"
    and e: "2 + length (der_tlv 0x02 (der_integer r)) + length (der_tlv 0x02 (der_integer s)) = length sig"
    unfolding numeral_2_eq_2 der_scalars_step by auto
  have "rest = drop (length (der_tlv 0x02 (der_integer r))) (drop 2 sig)" by (simp add: d(1))
  then have rest: "rest = der_tlv 0x02 (der_integer s) @ rest'" using d(2) by (simp add: add.commute)
  have "length rest' = 0" using arg_cong [OF d(2), of length] e by (simp only: length_append length_drop)
  then have "rest' = []" by simp
  with rest d(1) have body: "drop 2 sig = der_tlv 0x02 (der_integer r) @ der_tlv 0x02 (der_integer s)" by simp
  have "sig = sig ! 0 # sig ! 1 # drop 2 sig"
    using h(1) by (cases sig; cases "tl sig") auto
  moreover have "sig ! 1 = of_nat (length (drop 2 sig))" using h(3) by (simp flip: h(3))
  ultimately have "sig = der_signature r s" using h(2) body by (simp add: der_signature_def der_tlv_def)
  with rs show ?der by blast
next
  assume ?der
  then obtain r s where rs: "0 < r" "r < p256_order" "0 < s" "s < p256_order" and sig: "sig = der_signature r s"
    by blast
  note len = der_integer_length(1) [OF rs(2)] der_integer_length(1) [OF rs(4)]
  have "0 < length (der_integer r)" "0 < length (der_integer s)" by (simp_all add: der_integer_not_Nil)
  moreover have "der_scalars 2 sig 2 = Some (length sig)"
    unfolding numeral_2_eq_2 der_scalars_step
    by (rule exI [of _ r], rule exI, intro conjI rs,
        simp_all add: sig der_signature_def der_tlv_def, rule exI [of _ s], simp add: rs)
  ultimately have pos: "0 < length (der_integer r)" "0 < length (der_integer s)"
    and scan: "der_scalars 2 sig 2 = Some (length sig)" by auto
  define body where "body = der_tlv 0x02 (der_integer r) @ der_tlv 0x02 (der_integer s)"
  have sig': "sig = 0x30 # of_nat (length body) # body"
      "length body = length (der_integer r) + length (der_integer s) + 4"
    unfolding sig der_signature_def body_def [symmetric] der_tlv_def [of "0x30"]
    by (rule refl) (simp add: body_def der_tlv_def)
  have bounds: "length body < 128" "6 \<le> length body" "length body \<le> 70" using sig'(2) len pos by linarith+
  then have "unat (of_nat (length body) :: byte) = length body" by (simp add: unat_of_nat)
  with scan sig'(1) bounds show ?valid
    by (simp add: IsValidP256EcdsaDer_def kMaximumEcdsaDerBytes_def word_le_nat_alt)
qed

text \<open>
  C36: The DER check accepts exactly the encodings of pairs of numbers between one and the order of
  the P-256 group: for every accepted byte string there are \<open>r\<close> and \<open>s\<close> in that range such that
  the string is their DER encoding in the shortest form, and every such encoding is accepted, so a
  signature cannot be altered without changing the numbers it stands for.
\<close>

theorem ecdsa_der_canonical:
  "IsValidP256EcdsaDer sig \<longleftrightarrow>
   (\<exists>r s. 0 < r \<and> r < p256_order \<and> 0 < s \<and> s < p256_order \<and> sig = der_signature r s)"
  by (rule IsValidP256EcdsaDer_iff)

text \<open>What the envelope needs of the encoders: the size and the alphabet of their output.\<close>

lemma base64_encode_length_le: "length (base64_encode out) \<le> 4 * ((length out + 2) div 3)"
proof (induction out rule: base64_encode.induct)
  case (4 x y z rest)
  have "(length (x # y # z # rest) + 2) div 3 = Suc ((length rest + 2) div 3)" by simp
  with 4 show ?case by simp
qed simp_all

lemma base64_char_range: "v < 64 \<Longrightarrow> 43 \<le> unat (base64_char v) \<and> unat (base64_char v) \<le> 122"
  by (auto simp: unat_base64_char)

lemma base64_encode_range: "c \<in> set (base64_encode out) \<Longrightarrow> 43 \<le> unat c \<and> unat c \<le> 122"
proof (induction out rule: base64_encode.induct)
  case (4 x y z rest)
  then show ?case using base64_char_range sextets_less by auto
qed (use base64_char_range sextets_less in \<open>auto simp: bmx_chars\<close>)

lemma der_signature_length:
  "r < p256_order \<Longrightarrow> s < p256_order \<Longrightarrow> length (der_signature r s) \<le> 72"
  using der_integer_length(1) [of r] der_integer_length(1) [of s] by (simp add: der_signature_def der_tlv_def)

lemma IsValidP256EcdsaDer_length: "IsValidP256EcdsaDer sig \<Longrightarrow> 8 \<le> length sig \<and> length sig \<le> 80"
  by (auto simp: IsValidP256EcdsaDer_def kMaximumEcdsaDerBytes_def split: if_split_asm)

end
