(* ===== verification/Signature_Envelope.thy ===== *)
theory Signature_Envelope
  imports Signature_Codec
begin

text \<open>
  The signature envelope of a release and the trust decision over it, second half of
  \<open>src/src/update/signature_envelope.cpp\<close> and \<open>src/src/update/signature_verifier.cpp\<close>.

  The envelope is a text of lines: a version line, then one record of three lines for each
  signature.  The parser is shown to accept exactly the texts the renderer \<open>render_envelope\<close>
  produces from one to four signatures with strictly ascending key names.  The trust decision
  takes the verification primitive (mbedTLS on the device, a stub in the host tests) as a
  parameter and is characterised status by status.
\<close>

section \<open>Constants and types\<close>

definition kMaximumSignatureEnvelopeBytes :: nat where
  "kMaximumSignatureEnvelopeBytes = 4096"

definition kMaximumReleaseSignatures :: nat where
  "kMaximumReleaseSignatures = 4"

definition kMaximumSigningKeyIdBytes :: nat where
  "kMaximumSigningKeyIdBytes = 64"

definition kEnvelopeHeader :: "byte list" where
  "kEnvelopeHeader = bytes_of ''BMX-SIGNATURE-V1''"

definition kKeyPrefix :: "byte list" where
  "kKeyPrefix = bytes_of ''key-id: ''"

definition kAlgorithmLine :: "byte list" where
  "kAlgorithmLine = bytes_of ''algorithm: ECDSA-P256-SHA256''"

definition kSignaturePrefix :: "byte list" where
  "kSignaturePrefix = bytes_of ''signature: ''"

record ReleaseSignature =
  key_id :: "byte list"
  der :: "byte list"

datatype SignatureEnvelopeStatus =
    EnvelopeOk | EnvelopeInvalidArgument | InvalidSize | NonAscii | InvalidLineEnding
  | UnsupportedVersion | IncompleteRecord | SignatureCount | InvalidKeyId | KeyOrder
  | UnsupportedAlgorithm | InvalidBase64 | InvalidDer

abbreviation nl :: byte where "nl \<equiv> ch CHR 0x0A"

section \<open>Parsing\<close>

definition alpha_numeric :: "byte \<Rightarrow> bool" where
  "alpha_numeric c \<longleftrightarrow> is_digit c \<or> is_upper c \<or> is_lower c"

definition IsIdentifier :: "byte list \<Rightarrow> bool" where
  "IsIdentifier cs =
     (if cs = [] \<or> length cs > kMaximumSigningKeyIdBytes then False
      else list_all (\<lambda>i. let c = cs ! i in
             alpha_numeric c \<or>
             \<not> (i = 0 \<or> (c \<noteq> ch CHR ''.'' \<and> c \<noteq> ch CHR ''_'' \<and> c \<noteq> ch CHR ''-''))) [0..<length cs])"

text \<open>\<open>NextLine\<close> returns the line at the cursor without its newline, and the new cursor.\<close>

definition NextLine :: "byte list \<Rightarrow> nat \<Rightarrow> (byte list \<times> nat) option" where
  "NextLine envelope cursor =
     (case index_of (\<lambda>c. c = nl) (drop cursor envelope) of
        None \<Rightarrow> None
      | Some k \<Rightarrow> Some (segment envelope cursor (cursor + k), cursor + k + 1))"

definition LineEquals :: "byte list \<Rightarrow> byte list \<Rightarrow> bool" where
  "LineEquals line expected \<longleftrightarrow> line = expected"

definition LineStartsWith :: "byte list \<Rightarrow> byte list \<Rightarrow> byte list option" where
  "LineStartsWith line prefix =
     (if length line \<le> length prefix \<or> take (length prefix) line \<noteq> prefix then None
      else Some (drop (length prefix) line))"

text \<open>One turn of the record loop: the status it fails with, or the signature and the cursor.\<close>

definition envelope_record ::
  "byte list \<Rightarrow> nat \<Rightarrow> byte list \<Rightarrow> nat \<Rightarrow> SignatureEnvelopeStatus + ReleaseSignature \<times> nat" where
  "envelope_record envelope count previous_key cursor =
     (case NextLine envelope cursor of None \<Rightarrow> Inl IncompleteRecord
      | Some (key_line, cursor) \<Rightarrow>
     (case NextLine envelope cursor of None \<Rightarrow> Inl IncompleteRecord
      | Some (algorithm_line, cursor) \<Rightarrow>
     (case NextLine envelope cursor of None \<Rightarrow> Inl IncompleteRecord
      | Some (signature_line, cursor) \<Rightarrow>
     (case LineStartsWith key_line kKeyPrefix of None \<Rightarrow> Inl InvalidKeyId
      | Some key \<Rightarrow>
        if \<not> IsIdentifier key then Inl InvalidKeyId
        else if count \<noteq> 0 \<and> \<not> bytes_less previous_key key then Inl KeyOrder
        else if \<not> LineEquals algorithm_line kAlgorithmLine then Inl UnsupportedAlgorithm
        else case LineStartsWith signature_line kSignaturePrefix of None \<Rightarrow> Inl InvalidBase64
          | Some encoded \<Rightarrow>
         (case DecodeCanonicalBase64 encoded kMaximumEcdsaDerBytes of None \<Rightarrow> Inl InvalidBase64
          | Some der_bytes \<Rightarrow>
              if \<not> IsValidP256EcdsaDer der_bytes then Inl InvalidDer
              else Inr (\<lparr>key_id = key, der = der_bytes\<rparr>, cursor))))))"

lemma NextLine_cursor: "NextLine envelope cursor = Some (line, cursor') \<Longrightarrow> cursor < cursor'"
  by (auto simp: NextLine_def split: option.split_asm)

lemma envelope_record_cursor:
  "envelope_record envelope count previous_key cursor = Inr (s, cursor') \<Longrightarrow> cursor < cursor'"
  by (auto simp: envelope_record_def split: option.split_asm prod.split_asm if_split_asm dest!: NextLine_cursor)

text \<open>The record loop with the signatures read so far and the last key name.\<close>

function envelope_records ::
  "byte list \<Rightarrow> nat \<Rightarrow> ReleaseSignature list \<Rightarrow> byte list \<Rightarrow> nat \<Rightarrow>
   SignatureEnvelopeStatus \<times> ReleaseSignature list" where
  "envelope_records envelope signature_capacity signatures previous_key cursor =
     (if cursor < length envelope then
        if length signatures \<ge> kMaximumReleaseSignatures \<or> length signatures \<ge> signature_capacity
        then (SignatureCount, [])
        else case envelope_record envelope (length signatures) previous_key cursor of
            Inl status \<Rightarrow> (status, [])
          | Inr (s, cursor') \<Rightarrow>
              envelope_records envelope signature_capacity (signatures @ [s]) (key_id s) cursor'
      else if signatures = [] then (SignatureCount, [])
      else (EnvelopeOk, signatures))"
  by pat_completeness auto
termination
  by (relation "measure (\<lambda>(envelope, capacity, signatures, key, cursor). length envelope - cursor)")
    (use envelope_record_cursor in fastforce)+

declare envelope_records.simps [simp del]

definition first_bad_byte :: "byte list \<Rightarrow> SignatureEnvelopeStatus option" where
  "first_bad_byte envelope =
     (case index_of (\<lambda>c. c = ch CHR 0x0D \<or> c > 0x7f) envelope of
        None \<Rightarrow> None
      | Some i \<Rightarrow> Some (if envelope ! i = ch CHR 0x0D then InvalidLineEnding else NonAscii))"

definition ParseSignatureEnvelope ::
  "byte list option \<Rightarrow> nat \<Rightarrow> SignatureEnvelopeStatus \<times> ReleaseSignature list" where
  "ParseSignatureEnvelope envelope signature_capacity =
     (case envelope of None \<Rightarrow> (EnvelopeInvalidArgument, [])
      | Some envelope \<Rightarrow>
        if length envelope = 0 \<or> length envelope > kMaximumSignatureEnvelopeBytes then (InvalidSize, [])
        else if envelope ! (length envelope - 1) \<noteq> nl then (InvalidLineEnding, [])
        else case first_bad_byte envelope of Some status \<Rightarrow> (status, [])
        | None \<Rightarrow>
          (case NextLine envelope 0 of
             None \<Rightarrow> (UnsupportedVersion, [])
           | Some (line, cursor) \<Rightarrow>
               if \<not> LineEquals line kEnvelopeHeader then (UnsupportedVersion, [])
               else envelope_records envelope signature_capacity [] [] cursor))"

section \<open>The specification\<close>

definition render_record :: "ReleaseSignature \<Rightarrow> byte list" where
  "render_record s = kKeyPrefix @ key_id s @ nl # kAlgorithmLine @ nl #
     kSignaturePrefix @ base64_encode (der s) @ [nl]"

definition render_envelope :: "ReleaseSignature list \<Rightarrow> byte list" where
  "render_envelope ss = kEnvelopeHeader @ nl # concat (map render_record ss)"

definition signatures_ok :: "ReleaseSignature list \<Rightarrow> bool" where
  "signatures_ok ss \<longleftrightarrow>
     length ss \<le> kMaximumReleaseSignatures \<and>
     sorted_wrt bytes_less (map key_id ss) \<and>
     list_all (\<lambda>s. IsIdentifier (key_id s) \<and> IsValidP256EcdsaDer (der s)) ss"

lemma NextLine_iff:
  "NextLine envelope cursor = Some (line, cursor') \<longleftrightarrow>
   nl \<notin> set line \<and> drop cursor envelope = line @ nl # drop cursor' envelope \<and>
   cursor' = cursor + length line + 1"
proof
  assume "NextLine envelope cursor = Some (line, cursor')"
  then obtain k where k: "index_of (\<lambda>c. c = nl) (drop cursor envelope) = Some k"
    and line: "line = segment envelope cursor (cursor + k)" "cursor' = cursor + k + 1"
    by (auto simp: NextLine_def split: option.split_asm)
  from k obtain ys zs where s: "drop cursor envelope = ys @ nl # zs" "nl \<notin> set ys" "length ys = k"
    by (auto simp: index_of_eq_Some)
  moreover from this have "line = ys" by (simp add: line segment_def)
  moreover have "drop cursor' envelope = drop (k + 1) (drop cursor envelope)"
    by (simp add: line add.commute add.left_commute)
  then have "drop cursor' envelope = zs" using s by simp
  ultimately show "nl \<notin> set line \<and> drop cursor envelope = line @ nl # drop cursor' envelope \<and>
      cursor' = cursor + length line + 1" using line by simp
next
  assume h: "nl \<notin> set line \<and> drop cursor envelope = line @ nl # drop cursor' envelope \<and>
    cursor' = cursor + length line + 1"
  then have "index_of (\<lambda>c. c = nl) (drop cursor envelope) = Some (length line)"
    by (auto simp: index_of_eq_Some)
  with h show "NextLine envelope cursor = Some (line, cursor')"
    by (simp add: NextLine_def segment_def)
qed

lemma LineStartsWith_iff: "LineStartsWith line prefix = Some rest \<longleftrightarrow> line = prefix @ rest \<and> rest \<noteq> []"
  unfolding LineStartsWith_def
  by (auto simp: not_le) (metis append_take_drop_id)

text \<open>The bytes of identifiers and of the fixed lines are printable, none is a newline.\<close>

lemma IsIdentifier_bytes:
  assumes "IsIdentifier cs" and "c \<in> set cs"
  shows "45 \<le> unat c \<and> unat c \<le> 122"
proof -
  obtain i where "i < length cs" "c = cs ! i" using assms(2) by (auto simp: in_set_conv_nth)
  then have "alpha_numeric c \<or> c = ch CHR ''.'' \<or> c = ch CHR ''_'' \<or> c = ch CHR ''-''"
    using assms(1) by (auto simp: IsIdentifier_def list_all_iff Let_def split: if_split_asm)
  then show ?thesis by (auto simp: alpha_numeric_def bmx_chars word_le_nat_alt)
qed

lemma IsIdentifier_length: "IsIdentifier cs \<Longrightarrow> cs \<noteq> [] \<and> length cs \<le> 64"
  by (auto simp: IsIdentifier_def kMaximumSigningKeyIdBytes_def split: if_split_asm)

lemma unat_nl: "unat nl = 10"
  by (simp add: ch_def)

lemma fixed_line_bytes:
  assumes "c \<in> set kEnvelopeHeader \<union> set kKeyPrefix \<union> set kAlgorithmLine \<union> set kSignaturePrefix"
  shows "32 \<le> unat c \<and> unat c \<le> 122"
  using assms
  by (auto simp: kEnvelopeHeader_def kKeyPrefix_def kAlgorithmLine_def kSignaturePrefix_def ch_def)

lemma line_parts_no_nl:
  "nl \<notin> set kKeyPrefix" "nl \<notin> set kAlgorithmLine" "nl \<notin> set kSignaturePrefix" "nl \<notin> set kEnvelopeHeader"
  "IsIdentifier cs \<Longrightarrow> nl \<notin> set cs" "nl \<notin> set (base64_encode bs)"
  using IsIdentifier_bytes [of cs nl] base64_encode_range [of nl bs]
  by (auto simp: kEnvelopeHeader_def kKeyPrefix_def kAlgorithmLine_def kSignaturePrefix_def unat_nl)

text \<open>One accepted record is a rendered one.\<close>

lemma envelope_record_iff:
  "envelope_record envelope count previous_key cursor = Inr (s, cursor') \<longleftrightarrow>
   drop cursor envelope = render_record s @ drop cursor' envelope \<and>
   cursor' = cursor + length (render_record s) \<and> IsIdentifier (key_id s) \<and>
   (count = 0 \<or> bytes_less previous_key (key_id s)) \<and> IsValidP256EcdsaDer (der s)"
  (is "?rec \<longleftrightarrow> ?spec")
proof
  assume ?rec
  then obtain l1 l2 l3 c1 c2 key enc where n: "NextLine envelope cursor = Some (l1, c1)"
      "NextLine envelope c1 = Some (l2, c2)" "NextLine envelope c2 = Some (l3, cursor')"
    and p: "LineStartsWith l1 kKeyPrefix = Some key" "LineStartsWith l3 kSignaturePrefix = Some enc"
    and l2: "l2 = kAlgorithmLine" and id: "IsIdentifier key" "count = 0 \<or> bytes_less previous_key key"
    and d: "DecodeCanonicalBase64 enc kMaximumEcdsaDerBytes = Some (der s)"
      "IsValidP256EcdsaDer (der s)" "s = \<lparr>key_id = key, der = der s\<rparr>"
    by (auto simp: envelope_record_def LineEquals_def split: option.split_asm prod.split_asm if_split_asm)
  from d(3) have key: "key_id s = key" by (metis ReleaseSignature.select_convs(1))
  note n = n [unfolded NextLine_iff] and p = p [unfolded LineStartsWith_iff]
    and d1 = d(1) [unfolded DecodeCanonicalBase64_iff]
  from n p l2 d1 have "drop cursor envelope = render_record s @ drop cursor' envelope"
    by (simp add: render_record_def key)
  moreover from n p l2 d1 have "cursor' = cursor + length (render_record s)"
    by (simp add: render_record_def key)
  ultimately show ?spec using id d(2) key by simp
next
  assume h: ?spec
  let ?l1 = "kKeyPrefix @ key_id s" and ?l3 = "kSignaturePrefix @ base64_encode (der s)"
  let ?c1 = "cursor + length ?l1 + 1"
  let ?c2 = "?c1 + length kAlgorithmLine + 1"
  have len: "8 \<le> length (der s)" "length (der s) \<le> kMaximumEcdsaDerBytes"
    using h IsValidP256EcdsaDer_length by (auto simp: kMaximumEcdsaDerBytes_def)
  have c': "cursor' = ?c2 + length ?l3 + 1" using h by (simp add: render_record_def)
  have d0: "drop cursor envelope = ?l1 @ nl # kAlgorithmLine @ nl # ?l3 @ nl # drop cursor' envelope"
    using h by (simp add: render_record_def)
  have "drop ?c1 envelope = drop (length ?l1 + 1) (drop cursor envelope)" by (simp add: add.commute add.left_commute)
  then have d1: "drop ?c1 envelope = kAlgorithmLine @ nl # ?l3 @ nl # drop cursor' envelope" unfolding d0 by simp
  have "drop ?c2 envelope = drop (length kAlgorithmLine + 1) (drop ?c1 envelope)" by (simp add: add.commute add.left_commute)
  then have d2: "drop ?c2 envelope = ?l3 @ nl # drop cursor' envelope" unfolding d1 by simp
  have "nl \<notin> set ?l1" "nl \<notin> set kAlgorithmLine" "nl \<notin> set ?l3"
    using h line_parts_no_nl by auto
  then have "NextLine envelope cursor = Some (?l1, ?c1)" "NextLine envelope ?c1 = Some (kAlgorithmLine, ?c2)"
      "NextLine envelope ?c2 = Some (?l3, cursor')"
    using d0 d1 d2 c' unfolding NextLine_iff by simp_all
  moreover have "LineStartsWith ?l1 kKeyPrefix = Some (key_id s)"
    using h IsIdentifier_length by (simp add: LineStartsWith_iff)
  moreover have "LineStartsWith ?l3 kSignaturePrefix = Some (base64_encode (der s))"
    using len by (auto simp: LineStartsWith_iff)
  moreover have "DecodeCanonicalBase64 (base64_encode (der s)) kMaximumEcdsaDerBytes = Some (der s)"
    using len by (auto simp: DecodeCanonicalBase64_iff)
  ultimately show ?rec using h by (simp add: envelope_record_def LineEquals_def)
qed

lemma signatures_ok_snoc:
  "signatures_ok (ss @ [s]) \<longleftrightarrow>
   signatures_ok ss \<and> length ss < kMaximumReleaseSignatures \<and>
   (ss = [] \<or> bytes_less (key_id (last ss)) (key_id s)) \<and>
   IsIdentifier (key_id s) \<and> IsValidP256EcdsaDer (der s)"
proof -
  have "sorted_wrt bytes_less (map key_id (ss @ [s])) \<longleftrightarrow>
      sorted_wrt bytes_less (map key_id ss) \<and> (ss = [] \<or> bytes_less (key_id (last ss)) (key_id s))"
    by (cases ss rule: rev_cases) (auto simp: sorted_wrt_append intro: bytes_less_trans)
  then show ?thesis by (auto simp: signatures_ok_def)
qed

lemma signatures_ok_prefix: "signatures_ok (ss @ ts) \<Longrightarrow> signatures_ok ss"
  by (auto simp: signatures_ok_def sorted_wrt_append)

lemma envelope_record_not_Ok: "envelope_record envelope count prev cursor \<noteq> Inl EnvelopeOk"
  by (auto simp: envelope_record_def split: option.split prod.split)

lemma render_record_not_Nil [simp]: "render_record s \<noteq> []"
  by (simp add: render_record_def)

text \<open>
  The loop accepts exactly the concatenations of rendered records that keep the order:
  \<open>envelope_tail envelope cap ss cursor result\<close> says so of the input from the cursor on.
\<close>

definition envelope_tail ::
  "byte list \<Rightarrow> nat \<Rightarrow> ReleaseSignature list \<Rightarrow> nat \<Rightarrow> ReleaseSignature list \<Rightarrow> bool" where
  "envelope_tail envelope cap ss cursor result \<longleftrightarrow>
     (\<exists>ts. result = ss @ ts \<and> result \<noteq> [] \<and> drop cursor envelope = concat (map render_record ts) \<and>
        signatures_ok result \<and> length result \<le> cap)"

lemma envelope_tail_end:
  "length envelope \<le> cursor \<Longrightarrow> signatures_ok ss \<Longrightarrow> length ss \<le> cap \<Longrightarrow>
   envelope_tail envelope cap ss cursor result \<longleftrightarrow> ss \<noteq> [] \<and> result = ss"
  by (auto simp: envelope_tail_def)

lemma envelope_tail_step:
  assumes "cursor < length envelope" and "ss \<noteq> [] \<Longrightarrow> prev = key_id (last ss)"
  shows "envelope_tail envelope cap ss cursor result \<longleftrightarrow>
    (\<exists>s cursor'. envelope_record envelope (length ss) prev cursor = Inr (s, cursor') \<and>
       length ss < kMaximumReleaseSignatures \<and> length ss < cap \<and>
       envelope_tail envelope cap (ss @ [s]) cursor' result)"
  (is "?tail \<longleftrightarrow> ?step")
proof
  assume ?tail
  then obtain ts where ts: "result = ss @ ts" "drop cursor envelope = concat (map render_record ts)"
      "signatures_ok result" "length result \<le> cap" by (auto simp: envelope_tail_def)
  have "ts \<noteq> []" using assms(1) ts(2) by (cases ts) auto
  then obtain s ts' where s: "ts = s # ts'" by (cases ts) auto
  let ?c = "cursor + length (render_record s)"
  have "drop ?c envelope = drop (length (render_record s)) (drop cursor envelope)" by (simp add: add.commute)
  then have d: "drop ?c envelope = concat (map render_record ts')" unfolding ts(2) s by simp
  have "signatures_ok (ss @ [s])" using ts(1,3) signatures_ok_prefix [of "ss @ [s]" ts'] s by simp
  then have ok: "length ss < kMaximumReleaseSignatures" "IsIdentifier (key_id s)" "IsValidP256EcdsaDer (der s)"
      "length ss = 0 \<or> bytes_less prev (key_id s)"
    using assms(2) by (auto simp: signatures_ok_snoc)
  have "envelope_record envelope (length ss) prev cursor = Inr (s, ?c)"
    unfolding envelope_record_iff using ok d ts(2) s by simp
  moreover have "envelope_tail envelope cap (ss @ [s]) ?c result"
    unfolding envelope_tail_def using ts s d by auto
  moreover have "length ss < cap" using ts(1,4) s by simp
  ultimately show ?step using ok(1) by blast
next
  assume ?step
  then obtain s c where r: "envelope_record envelope (length ss) prev cursor = Inr (s, c)"
    and t: "envelope_tail envelope cap (ss @ [s]) c result" by blast
  from t obtain ts where ts: "result = (ss @ [s]) @ ts" "drop c envelope = concat (map render_record ts)"
      "signatures_ok result" "length result \<le> cap" unfolding envelope_tail_def by blast
  from r have "drop cursor envelope = concat (map render_record (s # ts))"
    unfolding envelope_record_iff using ts(2) by simp
  then show ?tail unfolding envelope_tail_def using ts by (intro exI [of _ "s # ts"]) auto
qed

lemma envelope_records_iff:
  assumes "signatures_ok ss" and "length ss \<le> cap" and "ss \<noteq> [] \<Longrightarrow> prev = key_id (last ss)"
  shows "envelope_records envelope cap ss prev cursor = (EnvelopeOk, result) \<longleftrightarrow>
    envelope_tail envelope cap ss cursor result"
  using assms
proof (induction envelope cap ss prev cursor rule: envelope_records.induct)
  case (1 envelope cap ss prev cursor)
  note eq = envelope_records.simps [of envelope cap ss prev cursor]
  show ?case
  proof (cases "cursor < length envelope")
    case False
    then show ?thesis using envelope_tail_end [of envelope cursor ss cap result] "1.prems"(1,2)
      by (auto simp: eq)
  next
    case more: True
    have step: "envelope_tail envelope cap ss cursor result \<longleftrightarrow>
      (\<exists>s c. envelope_record envelope (length ss) prev cursor = Inr (s, c) \<and>
         length ss < kMaximumReleaseSignatures \<and> length ss < cap \<and> envelope_tail envelope cap (ss @ [s]) c result)"
      by (rule envelope_tail_step) (use more "1.prems"(3) in auto)
    show ?thesis
    proof (cases "length ss \<ge> kMaximumReleaseSignatures \<or> length ss \<ge> cap")
      case True
      then show ?thesis unfolding step using more by (auto simp: eq)
    next
      case room: False
      show ?thesis
      proof (cases "envelope_record envelope (length ss) prev cursor")
        case (Inl status)
        then show ?thesis unfolding step using more room envelope_record_not_Ok [of envelope "length ss" prev cursor]
          by (auto simp: eq)
      next
        case (Inr sc)
        obtain s c where sc: "sc = (s, c)" by (cases sc)
        have rec: "envelope_record envelope (length ss) prev cursor = Inr (s, c)" using Inr sc by simp
        then have "signatures_ok (ss @ [s])" "length (ss @ [s]) \<le> cap" "key_id s = key_id (last (ss @ [s]))"
          using "1.prems" room unfolding envelope_record_iff by (auto simp: signatures_ok_snoc)
        note IH = "1.IH" [OF more room Inr sc [symmetric] this]
        show ?thesis unfolding step using more room rec IH by (simp add: eq) 
      qed
    qed
  qed
qed

text \<open>Bounds of a rendered envelope: at most four records, all printable or newline.\<close>

lemma render_record_length:
  assumes "IsIdentifier (key_id s)" and "IsValidP256EcdsaDer (der s)"
  shows "length (render_record s) \<le> 230"
proof -
  have "(length (der s) + 2) div 3 \<le> 27" using IsValidP256EcdsaDer_length [OF assms(2)] by linarith
  then have "length (base64_encode (der s)) \<le> 108"
    using base64_encode_length_le [of "der s"] by linarith
  then show ?thesis using IsIdentifier_length [OF assms(1)]
    by (simp add: render_record_def kKeyPrefix_def kAlgorithmLine_def kSignaturePrefix_def)
qed

lemma render_records_length:
  "list_all (\<lambda>s. IsIdentifier (key_id s) \<and> IsValidP256EcdsaDer (der s)) ss \<Longrightarrow>
   length (concat (map render_record ss)) \<le> 230 * length ss"
  by (induction ss) (auto dest: render_record_length)

lemma render_envelope_bounds:
  assumes "signatures_ok ss"
  shows "length (render_envelope ss) \<le> kMaximumSignatureEnvelopeBytes"
    and "c \<in> set (render_envelope ss) \<Longrightarrow> c = nl \<or> 32 \<le> unat c \<and> unat c \<le> 122"
proof -
  have ok: "list_all (\<lambda>s. IsIdentifier (key_id s) \<and> IsValidP256EcdsaDer (der s)) ss" "length ss \<le> 4"
    using assms by (auto simp: signatures_ok_def kMaximumReleaseSignatures_def)
  show "length (render_envelope ss) \<le> kMaximumSignatureEnvelopeBytes"
    using render_records_length [OF ok(1)] ok(2)
    by (simp add: render_envelope_def kEnvelopeHeader_def kMaximumSignatureEnvelopeBytes_def)
  assume "c \<in> set (render_envelope ss)"
  then consider "c = nl" | "c \<in> set kEnvelopeHeader \<union> set kKeyPrefix \<union> set kAlgorithmLine \<union> set kSignaturePrefix"
    | s where "s \<in> set ss" "c \<in> set (key_id s)" | s where "s \<in> set ss" "c \<in> set (base64_encode (der s))"
    by (auto simp: render_envelope_def render_record_def split: if_split_asm)
  then show "c = nl \<or> 32 \<le> unat c \<and> unat c \<le> 122"
  proof cases
    case 2
    then show ?thesis using fixed_line_bytes by blast
  next
    case 3
    then have "IsIdentifier (key_id s)" using ok(1) by (simp add: list_all_iff)
    from IsIdentifier_bytes [OF this 3(2)] show ?thesis by simp
  next
    case 4
    from base64_encode_range [OF this(2)] show ?thesis by simp
  qed simp
qed

lemma first_bad_byte_None:
  "first_bad_byte envelope = None \<longleftrightarrow> list_all (\<lambda>c. c \<noteq> ch CHR 0x0D \<and> c \<le> 0x7f) envelope"
proof -
  have "first_bad_byte envelope = None \<longleftrightarrow> index_of (\<lambda>c. c = ch CHR 0x0D \<or> c > 0x7f) envelope = None"
    by (simp add: first_bad_byte_def split: option.split)
  then show ?thesis by (simp add: index_of_None_iff not_less)
qed

lemma ParseSignatureEnvelope_Ok_iff:
  "ParseSignatureEnvelope (Some envelope) cap = (EnvelopeOk, ss) \<longleftrightarrow>
   ss \<noteq> [] \<and> length ss \<le> cap \<and> signatures_ok ss \<and> envelope = render_envelope ss"
  (is "?parse \<longleftrightarrow> ?spec")
proof -
  have empty_ok: "signatures_ok []" by (simp add: signatures_ok_def)
  have records: "envelope_records envelope cap [] [] c = (EnvelopeOk, ss) \<longleftrightarrow> envelope_tail envelope cap [] c ss" for c
    by (rule envelope_records_iff) (simp_all add: empty_ok)
  show ?thesis
  proof
    assume ?parse
    then obtain line c where n: "NextLine envelope 0 = Some (line, c)" "line = kEnvelopeHeader"
      and "envelope_records envelope cap [] [] c = (EnvelopeOk, ss)"
      by (auto simp: ParseSignatureEnvelope_def LineEquals_def first_bad_byte_def
          split: if_split_asm option.split_asm)
    then have t: "envelope_tail envelope cap [] c ss" using records by blast
    from n have "envelope = kEnvelopeHeader @ nl # drop c envelope" unfolding NextLine_iff drop_0 by blast
    also have "drop c envelope = concat (map render_record ss)" using t by (simp add: envelope_tail_def)
    finally show ?spec using t by (auto simp: render_envelope_def envelope_tail_def)
  next
    assume h: ?spec
    let ?c = "length kEnvelopeHeader + 1"
    have n: "NextLine envelope 0 = Some (kEnvelopeHeader, ?c)"
      using h line_parts_no_nl(4) by (simp add: NextLine_iff render_envelope_def)
    have "envelope_tail envelope cap [] ?c ss"
      using h by (simp add: envelope_tail_def render_envelope_def)
    then have r: "envelope_records envelope cap [] [] ?c = (EnvelopeOk, ss)" using records by blast
    have ok: "signatures_ok ss" and e: "envelope = render_envelope ss" using h by auto
    have "c \<noteq> ch CHR 0x0D \<and> c \<le> 0x7f" if "c \<in> set envelope" for c
    proof -
      have "unat c = 10 \<or> 32 \<le> unat c \<and> unat c \<le> 122"
        using render_envelope_bounds(2) [OF ok] that e unat_nl by auto
      moreover have "unat (ch CHR 0x0D) = 13" by (simp add: ch_def)
      ultimately show ?thesis by (auto simp: word_le_nat_alt)
    qed
    then have "first_bad_byte envelope = None" by (simp add: first_bad_byte_None list_all_iff)
    moreover have "envelope \<noteq> []" by (simp add: e render_envelope_def)
    moreover have "last envelope = nl"
      using h by (cases ss rule: rev_cases) (auto simp: render_envelope_def render_record_def)
    ultimately show ?parse
      using n r render_envelope_bounds(1) [OF ok] e
      by (simp add: ParseSignatureEnvelope_def LineEquals_def last_conv_nth)
  qed
qed

text \<open>
  C23: An envelope is accepted exactly when it is the rendering of one to four signatures, no more
  than the caller has room for, whose key names are identifiers in strictly ascending order and
  whose values are canonical P-256 signatures; the signatures are then returned as rendered.  So
  the parser reads back everything the renderer writes, two different texts never mean the same
  signatures, and the size bound of 4096 bytes never rejects a well-formed envelope.
\<close>

theorem envelope_accepted_iff_rendered:
  "ParseSignatureEnvelope (Some envelope) cap = (EnvelopeOk, ss) \<longleftrightarrow>
   ss \<noteq> [] \<and> length ss \<le> cap \<and> signatures_ok ss \<and> envelope = render_envelope ss"
  by (rule ParseSignatureEnvelope_Ok_iff)

section \<open>The trust decision\<close>

record TrustedReleaseKey =
  trusted_key_id :: "byte list option"
  public_key_pem :: "byte list option"
  revoked :: bool

datatype ManifestTrustStatus =
    Trusted | TrustInvalidArgument | EnvelopeInvalid | UndeclaredSignature | NoTrustedKey
  | SignatureMismatch

record ManifestTrustResult =
  trust_status :: ManifestTrustStatus
  envelope_status :: SignatureEnvelopeStatus
  verified_key_id :: "byte list"

text \<open>The manifest enters only through the key names it declares.\<close>

definition ManifestListsSigningKey :: "byte list list \<Rightarrow> byte list \<Rightarrow> bool" where
  "ManifestListsSigningKey signing_key_ids key = list_ex (\<lambda>k. k = key) signing_key_ids"

text \<open>
  The inner loop over the trusted keys for one signature: whether one of them verified it, and
  whether a usable key of that name was seen.
\<close>

fun try_keys ::
  "(byte list \<Rightarrow> byte list \<Rightarrow> byte list \<Rightarrow> bool) \<Rightarrow> byte list \<Rightarrow> ReleaseSignature \<Rightarrow>
   TrustedReleaseKey list \<Rightarrow> bool \<Rightarrow> bool \<times> bool" where
  "try_keys verify manifest_bytes s [] saw = (False, saw)"
| "try_keys verify manifest_bytes s (key # keys) saw =
     (if trusted_key_id key \<noteq> Some (key_id s) \<or> revoked key
      then try_keys verify manifest_bytes s keys saw
      else case public_key_pem key of
          None \<Rightarrow> try_keys verify manifest_bytes s keys True
        | Some pem \<Rightarrow>
            if pem = [] then try_keys verify manifest_bytes s keys True
            else if verify pem manifest_bytes (der s) then (True, True)
            else try_keys verify manifest_bytes s keys True)"

text \<open>The outer loop over the signatures, with the two flags of the source.\<close>

fun try_signatures ::
  "(byte list \<Rightarrow> byte list \<Rightarrow> byte list \<Rightarrow> bool) \<Rightarrow> byte list \<Rightarrow> byte list list \<Rightarrow>
   TrustedReleaseKey list \<Rightarrow> ReleaseSignature list \<Rightarrow> bool \<Rightarrow> bool \<Rightarrow> ManifestTrustStatus \<times> byte list" where
  "try_signatures verify manifest_bytes declared keys [] saw_trusted_key saw_undeclared =
     (if saw_undeclared \<and> \<not> saw_trusted_key then UndeclaredSignature
      else if \<not> saw_trusted_key then NoTrustedKey
      else SignatureMismatch, [])"
| "try_signatures verify manifest_bytes declared keys (s # ss) saw_trusted_key saw_undeclared =
     (if \<not> ManifestListsSigningKey declared (key_id s)
      then try_signatures verify manifest_bytes declared keys ss saw_trusted_key True
      else case try_keys verify manifest_bytes s keys saw_trusted_key of
          (True, _) \<Rightarrow> (Trusted, key_id s)
        | (False, saw) \<Rightarrow> try_signatures verify manifest_bytes declared keys ss saw saw_undeclared)"

definition VerifyManifestTrust ::
  "(byte list \<Rightarrow> byte list \<Rightarrow> byte list \<Rightarrow> bool) option \<Rightarrow> byte list option \<Rightarrow> byte list list \<Rightarrow>
   byte list option \<Rightarrow> TrustedReleaseKey list option \<Rightarrow> ManifestTrustResult" where
  "VerifyManifestTrust verify_function manifest_bytes signing_key_ids signature_envelope trusted_keys =
     (case (verify_function, manifest_bytes, signature_envelope, trusted_keys) of
        (Some verify, Some manifest, Some envelope, Some keys) \<Rightarrow>
          if manifest = [] \<or> keys = []
          then \<lparr>trust_status = TrustInvalidArgument, envelope_status = EnvelopeInvalidArgument,
                verified_key_id = []\<rparr>
          else (case ParseSignatureEnvelope (Some envelope) kMaximumReleaseSignatures of
              (status, signatures) \<Rightarrow>
                if status \<noteq> EnvelopeOk
                then \<lparr>trust_status = EnvelopeInvalid, envelope_status = status, verified_key_id = []\<rparr>
                else let (trust, key) = try_signatures verify manifest signing_key_ids keys signatures False False in
                  \<lparr>trust_status = trust, envelope_status = EnvelopeOk, verified_key_id = key\<rparr>)
      | _ \<Rightarrow> \<lparr>trust_status = TrustInvalidArgument, envelope_status = EnvelopeInvalidArgument,
              verified_key_id = []\<rparr>)"

text \<open>
  The specification: a usable key is a trusted key of that name which is not revoked; it vouches
  for a signature when its public key is present and the primitive accepts.
\<close>

definition usable_key :: "TrustedReleaseKey list \<Rightarrow> byte list \<Rightarrow> bool" where
  "usable_key keys name \<longleftrightarrow> (\<exists>k \<in> set keys. trusted_key_id k = Some name \<and> \<not> revoked k)"

definition vouched ::
  "(byte list \<Rightarrow> byte list \<Rightarrow> byte list \<Rightarrow> bool) \<Rightarrow> byte list \<Rightarrow> TrustedReleaseKey list \<Rightarrow>
   ReleaseSignature \<Rightarrow> bool" where
  "vouched verify manifest_bytes keys s \<longleftrightarrow>
     (\<exists>k \<in> set keys. \<exists>pem. trusted_key_id k = Some (key_id s) \<and> \<not> revoked k \<and>
        public_key_pem k = Some pem \<and> pem \<noteq> [] \<and> verify pem manifest_bytes (der s))"

lemma try_keys_eq:
  "fst (try_keys verify m s keys saw) \<longleftrightarrow> vouched verify m keys s"
  "\<not> vouched verify m keys s \<Longrightarrow> snd (try_keys verify m s keys saw) \<longleftrightarrow> saw \<or> usable_key keys (key_id s)"
  by (induction keys arbitrary: saw) (auto simp: vouched_def usable_key_def split: option.split)

lemma try_signatures_Cons:
  "try_signatures verify m declared keys (s # ss) a b =
   (if key_id s \<notin> set declared then try_signatures verify m declared keys ss a True
    else if vouched verify m keys s then (Trusted, key_id s)
    else try_signatures verify m declared keys ss (a \<or> usable_key keys (key_id s)) b)"
proof (cases "try_keys verify m s keys a")
  case (Pair found saw)
  then show ?thesis using try_keys_eq(1) [of verify m s keys a] try_keys_eq(2) [of verify m keys s a]
    by (cases found) (auto simp: ManifestListsSigningKey_def list_ex_iff)
qed

declare try_signatures.simps(2) [simp del]

lemma try_signatures_Trusted:
  "(\<exists>name. try_signatures verify m declared keys ss a b = (Trusted, name)) \<longleftrightarrow>
   (\<exists>s \<in> set ss. key_id s \<in> set declared \<and> vouched verify m keys s)"
proof (induction ss arbitrary: a b)
  case (Cons s ss)
  then show ?case
    by (auto simp: try_signatures_Cons)
qed simp

lemma try_signatures_name:
  "try_signatures verify m declared keys ss a b = (Trusted, name) \<Longrightarrow>
   \<exists>s \<in> set ss. key_id s = name \<and> name \<in> set declared \<and> vouched verify m keys s"
proof (induction ss arbitrary: a b)
  case (Cons s ss)
  then show ?case
    by (auto simp: try_signatures_Cons split: if_split_asm)
qed (simp split: if_split_asm)

lemma try_signatures_refused:
  "\<not> (\<exists>s \<in> set ss. key_id s \<in> set declared \<and> vouched verify m keys s) \<Longrightarrow>
   try_signatures verify m declared keys ss a b =
     (if a \<or> (\<exists>s \<in> set ss. key_id s \<in> set declared \<and> usable_key keys (key_id s)) then SignatureMismatch
      else if b \<or> (\<exists>s \<in> set ss. key_id s \<notin> set declared) then UndeclaredSignature else NoTrustedKey, [])"
proof (induction ss arbitrary: a b)
  case (Cons s ss)
  then show ?case
    by (auto simp: try_signatures_Cons)
qed auto

lemma trust_exact:
  "trust_status (VerifyManifestTrust v m declared e k) = Trusted \<longleftrightarrow>
   (\<exists>verify manifest keys ss s. v = Some verify \<and> m = Some manifest \<and> manifest \<noteq> [] \<and> k = Some keys \<and>
      e = Some (render_envelope ss) \<and> signatures_ok ss \<and> s \<in> set ss \<and>
      key_id s \<in> set declared \<and> vouched verify manifest keys s)"
  (is "?trusted \<longleftrightarrow> ?spec")
proof
  assume ?trusted
  then obtain verify manifest keys envelope ss where a: "v = Some verify" "m = Some manifest" "manifest \<noteq> []"
      "k = Some keys" "e = Some envelope"
    and p: "ParseSignatureEnvelope (Some envelope) kMaximumReleaseSignatures = (EnvelopeOk, ss)"
    and t: "fst (try_signatures verify manifest declared keys ss False False) = Trusted"
    by (auto simp: VerifyManifestTrust_def split: option.split_asm if_split_asm prod.split_asm)
  from t have "\<exists>name. try_signatures verify manifest declared keys ss False False = (Trusted, name)"
    by (metis prod.collapse)
  with try_signatures_Trusted a p show ?spec unfolding ParseSignatureEnvelope_Ok_iff by metis
next
  assume ?spec
  then obtain verify manifest keys ss s where a: "v = Some verify" "m = Some manifest" "manifest \<noteq> []"
      "k = Some keys" "e = Some (render_envelope ss)"
    and s: "signatures_ok ss" "s \<in> set ss" "key_id s \<in> set declared" "vouched verify manifest keys s" by blast
  from s(2,3,4) obtain name where "try_signatures verify manifest declared keys ss False False = (Trusted, name)"
    using try_signatures_Trusted [of verify manifest declared keys ss] by blast
  moreover have "ParseSignatureEnvelope e kMaximumReleaseSignatures = (EnvelopeOk, ss)"
    using s(1,2) by (auto simp: a ParseSignatureEnvelope_Ok_iff signatures_ok_def)
  moreover have "keys \<noteq> []" using s(4) by (auto simp: vouched_def)
  ultimately show ?trusted using a by (simp add: VerifyManifestTrust_def)
qed

text \<open>
  C4: A manifest is trusted exactly when every argument is present, the envelope is the rendering of
  one to four ordered signatures, and one of these carries a key name which the manifest declares
  and for which a trusted, unrevoked key with a public key accepts the signature over the manifest
  bytes.  A revoked key, an undeclared name or a malformed envelope never leads to trust.
\<close>

theorem manifest_trusted_iff:
  "trust_status (VerifyManifestTrust v m declared e k) = Trusted \<longleftrightarrow>
   (\<exists>verify manifest keys ss s. v = Some verify \<and> m = Some manifest \<and> manifest \<noteq> [] \<and> k = Some keys \<and>
      e = Some (render_envelope ss) \<and> signatures_ok ss \<and> s \<in> set ss \<and>
      key_id s \<in> set declared \<and> vouched verify manifest keys s)"
  by (rule trust_exact)

text \<open>
  C37: On a well-formed envelope which no declared and usable key vouches for, the status says why.
  It is a mismatch when a declared signature met a usable trusted key, otherwise undeclared when
  some signature names a key the manifest does not list, otherwise no trusted key; no key name is
  reported as verified.
\<close>

theorem manifest_refusal_reason:
  assumes "manifest \<noteq> []" and "keys \<noteq> []" and "ss \<noteq> []" and "signatures_ok ss"
    and "\<not> (\<exists>s \<in> set ss. key_id s \<in> set declared \<and> vouched verify manifest keys s)"
  shows "VerifyManifestTrust (Some verify) (Some manifest) declared (Some (render_envelope ss)) (Some keys) =
    \<lparr>trust_status =
       (if \<exists>s \<in> set ss. key_id s \<in> set declared \<and> usable_key keys (key_id s) then SignatureMismatch
        else if \<exists>s \<in> set ss. key_id s \<notin> set declared then UndeclaredSignature else NoTrustedKey),
     envelope_status = EnvelopeOk, verified_key_id = []\<rparr>"
proof -
  have "ParseSignatureEnvelope (Some (render_envelope ss)) kMaximumReleaseSignatures = (EnvelopeOk, ss)"
    using assms(3,4) by (simp add: ParseSignatureEnvelope_Ok_iff signatures_ok_def)
  with assms(1,2) try_signatures_refused [OF assms(5), of False False] show ?thesis
    by (simp add: VerifyManifestTrust_def)
qed

theorem manifest_refusal_reason_witness:
  "trust_status (VerifyManifestTrust (Some (\<lambda>pem m d. pem = m)) (Some [1]) [bytes_of ''k1'']
     (Some (render_envelope [\<lparr>key_id = bytes_of ''k1'', der = der_signature 1 2\<rparr>]))
     (Some [\<lparr>trusted_key_id = Some (bytes_of ''k1''), public_key_pem = Some [2], revoked = False\<rparr>]))
   = SignatureMismatch"
proof -
  let ?s = "\<lparr>key_id = bytes_of ''k1'', der = der_signature 1 2\<rparr>"
  let ?k = "\<lparr>trusted_key_id = Some (bytes_of ''k1''), public_key_pem = Some [2], revoked = False\<rparr>"
  have "IsValidP256EcdsaDer (der_signature 1 2)"
    unfolding IsValidP256EcdsaDer_iff using p256_order_bounds by (intro exI [of _ 1] exI [of _ 2]) simp
  moreover have "IsIdentifier (bytes_of ''k1'')"
    by (simp add: IsIdentifier_def kMaximumSigningKeyIdBytes_def alpha_numeric_def bmx_chars upt_rec)
  ultimately have "signatures_ok [?s]" by (simp add: signatures_ok_def kMaximumReleaseSignatures_def)
  then show ?thesis
    using manifest_refusal_reason [of "[1]" "[?k]" "[?s]" "[bytes_of ''k1'']" "\<lambda>pem m d. pem = m"]
    by (simp add: vouched_def usable_key_def)
qed

text \<open>
  The key name reported with a trusted manifest is the name of a signature of the envelope which
  the manifest declares and which a trusted, unrevoked key vouches for.
\<close>

lemma verified_key_is_vouched:
  assumes "trust_status (VerifyManifestTrust (Some verify) (Some manifest) declared (Some envelope) (Some keys)) = Trusted"
  shows "\<exists>ss s. envelope = render_envelope ss \<and> s \<in> set ss \<and> vouched verify manifest keys s \<and>
    key_id s \<in> set declared \<and>
    verified_key_id (VerifyManifestTrust (Some verify) (Some manifest) declared (Some envelope) (Some keys)) = key_id s"
proof -
  from assms obtain ss name where p: "ParseSignatureEnvelope (Some envelope) kMaximumReleaseSignatures = (EnvelopeOk, ss)"
    and t: "try_signatures verify manifest declared keys ss False False = (Trusted, name)"
    and "manifest \<noteq> []" "keys \<noteq> []"
    by (auto simp: VerifyManifestTrust_def split: option.split_asm if_split_asm prod.split_asm)
  then have "verified_key_id (VerifyManifestTrust (Some verify) (Some manifest) declared (Some envelope) (Some keys)) = name"
    by (simp add: VerifyManifestTrust_def)
  with try_signatures_name [OF t] p show ?thesis unfolding ParseSignatureEnvelope_Ok_iff by metis
qed

end
