(* ===== verification/Crc32_Check.thy ===== *)
theory Crc32_Check
  imports Bmx_Prelude
begin

text \<open>
  The checksum of archive members, \<open>UpdateCrc32\<close> of \<open>src/src/update/zip_reader.cpp\<close>: a loop
  over a table of 256 words built on first use.  The reference is the division by the reversed
  polynomial bit by bit; the table-driven loop is shown to be equal to it on every input.
\<close>

text \<open>One turn of the inner loop of \<open>Crc32TableEntry\<close>.\<close>

definition crc_bit :: "u32 \<Rightarrow> u32" where
  "crc_bit v = (if v AND 1 \<noteq> 0 then drop_bit 1 v XOR 0xedb88320 else drop_bit 1 v)"

definition Crc32TableEntry :: "nat \<Rightarrow> u32" where
  "Crc32TableEntry index = (crc_bit ^^ 8) (of_nat index)"

definition Crc32Table :: "u32 list" where
  "Crc32Table = map Crc32TableEntry [0..<256]"

definition crc_table_step :: "u32 \<Rightarrow> byte \<Rightarrow> u32" where
  "crc_table_step v b = Crc32Table ! unat ((v XOR ucast b) AND 0xff) XOR drop_bit 8 v"

definition UpdateCrc32 :: "u32 \<Rightarrow> byte list \<Rightarrow> u32" where
  "UpdateCrc32 crc bytes = foldl crc_table_step crc bytes"

text \<open>
  The reference: the byte is added to the remainder, which is then reduced eight times by the
  polynomial \<open>x^32 + x^26 + x^23 + x^22 + x^16 + x^12 + x^11 + x^10 + x^8 + x^7 + x^5 + x^4 + x^2 + x + 1\<close>
  of the standard, given by its exponents, with the bits of a word in reverse order.
\<close>

definition crc_polynomial :: u32 where
  "crc_polynomial = foldr (\<lambda>exponent. set_bit (31 - exponent)) [26, 23, 22, 16, 12, 11, 10, 8, 7, 5, 4, 2, 1, 0] 0"

definition crc_reduce :: "u32 \<Rightarrow> u32" where
  "crc_reduce v = (if bit v 0 then drop_bit 1 v XOR crc_polynomial else drop_bit 1 v)"

definition crc_bitwise_step :: "u32 \<Rightarrow> byte \<Rightarrow> u32" where
  "crc_bitwise_step v b = (crc_reduce ^^ 8) (v XOR ucast b)"

definition crc32_bitwise :: "u32 \<Rightarrow> byte list \<Rightarrow> u32" where
  "crc32_bitwise crc bytes = foldl crc_bitwise_step crc bytes"

lemma crc_polynomial_value: "crc_polynomial = 0xedb88320"
  unfolding crc_polynomial_def by code_simp

lemma crc_reduce_bit: "crc_reduce = crc_bit"
  by (simp add: fun_eq_iff crc_reduce_def crc_bit_def crc_polynomial_value bit_0 and_one_eq odd_iff_mod_2_eq_one)

lemma crc_bit_alt: "crc_bit v = drop_bit 1 v XOR (if odd v then 0xedb88320 else 0)"
  by (cases "odd v") (simp_all add: crc_bit_def and_one_eq odd_iff_mod_2_eq_one even_iff_mod_2_eq_zero)

lemma odd_xor: "odd (v XOR w :: u32) \<longleftrightarrow> odd v \<noteq> odd w"
  using bit_xor_iff [of v w 0] by (simp add: bit_0)

lemma crc_bit_xor: "crc_bit (v XOR w) = crc_bit v XOR crc_bit w"
  by (auto simp: crc_bit_alt odd_xor drop_bit_xor ac_simps)

lemma crc_bits_xor: "(crc_bit ^^ n) (v XOR w) = (crc_bit ^^ n) v XOR (crc_bit ^^ n) w"
  by (induction n) (simp_all add: crc_bit_xor)

text \<open>On a word whose low bits are clear the reduction is a shift.\<close>

lemma crc_bits_shift: "(\<And>k. k < n \<Longrightarrow> \<not> bit w k) \<Longrightarrow> (crc_bit ^^ n) w = drop_bit n w"
proof (induction n arbitrary: w)
  case (Suc n)
  have "\<not> odd w" using Suc.prems [of 0] by (simp add: bit_0)
  then have "crc_bit w = drop_bit 1 w" by (simp add: crc_bit_alt)
  moreover have "(crc_bit ^^ n) (drop_bit 1 w) = drop_bit n (drop_bit 1 w)"
    by (rule Suc.IH) (use Suc.prems in \<open>auto simp: bit_drop_bit_eq\<close>)
  ultimately show ?case by (simp add: funpow_swap1 drop_bit_drop_bit)
qed simp

lemma split_mask: "x = (x AND m) XOR (x AND NOT m)" for x m :: u32
  by (rule bit_word_eqI) (auto simp: bit_and_iff bit_xor_iff bit_not_iff)

lemma crc_step_eq: "crc_table_step v b = crc_bitwise_step v b"
proof -
  define x where "x = v XOR ucast b"
  have low: "unat (x AND 0xff) < 256"
  proof -
    have "x AND 0xff = take_bit 8 x" by (simp add: take_bit_eq_mask mask_eq_exp_minus_1)
    then have "unat (x AND 0xff) = take_bit 8 (unat x)" by (simp add: unsigned_take_bit_eq)
    then show ?thesis using take_bit_nat_less_exp [of 8 "unat x"] by simp
  qed
  have high: "drop_bit 8 (x AND NOT 0xff) = drop_bit 8 v"
  proof (rule bit_word_eqI)
    fix n assume "n < LENGTH(32)"
    have m: "bit (0xff :: u32) k \<longleftrightarrow> k < 8" for k
      using bit_mask_iff [of 8 k, where 'a = u32] by (auto simp: mask_eq_exp_minus_1)
    show "bit (drop_bit 8 (x AND NOT 0xff)) n = bit (drop_bit 8 v) n"
      unfolding bit_drop_bit_eq comp_def bit_and_iff bit_not_iff m x_def bit_xor_iff bit_unsigned_iff
      by (auto dest: bit_imp_le_length)
  qed
  have "x = (x AND 0xff) XOR (x AND NOT 0xff)" by (rule split_mask)
  then have "(crc_bit ^^ 8) x = (crc_bit ^^ 8) (x AND 0xff) XOR (crc_bit ^^ 8) (x AND NOT 0xff)"
    by (metis crc_bits_xor)
  also have "(crc_bit ^^ 8) (x AND NOT 0xff) = drop_bit 8 (x AND NOT 0xff)"
  proof (rule crc_bits_shift)
    fix k :: nat assume "k < 8"
    then have "bit (0xff :: u32) k"
      using bit_mask_iff [of 8 k, where 'a = u32] by (simp add: mask_eq_exp_minus_1)
    then show "\<not> bit (x AND NOT 0xff) k" unfolding bit_and_iff bit_not_iff by blast
  qed
  also have "(crc_bit ^^ 8) (x AND 0xff) = Crc32Table ! unat (x AND 0xff)"
    using low by (simp add: Crc32Table_def Crc32TableEntry_def del: funpow.simps upt_rec_numeral)
  finally show ?thesis
    by (simp only: crc_table_step_def crc_bitwise_step_def crc_reduce_bit x_def [symmetric] high)
qed

interpretation crc_stream: incremental "\<lambda>bytes crc. UpdateCrc32 crc bytes" "\<lambda>_. True"
  by unfold_locales (simp_all add: UpdateCrc32_def)

text \<open>
  C38: The table-driven checksum equals the bit-by-bit reduction by the polynomial for every start
  value and every byte string, so the speed-up noted in the source changes no digest.
\<close>

theorem crc32_table_equals_bitwise: "UpdateCrc32 crc bytes = crc32_bitwise crc bytes"
proof -
  have "crc_table_step = crc_bitwise_step" by (intro ext crc_step_eq)
  then show ?thesis by (simp add: UpdateCrc32_def crc32_bitwise_def)
qed

end
