(* ===== verification/Zip_Stream.thy ===== *)
theory Zip_Stream
  imports Crc32_Check Sha256_Hash
begin

text \<open>
  Extraction from an opened archive, the second half of \<open>src/src/update/zip_reader.cpp\<close>: the
  expected inventory, the streaming of one member through the checksum, the hash and the
  extraction sink, and \<open>ExtractOne\<close>.

  The sinks are abstract classes in the source; here they are records of operations over a state
  of any type.  The archive is a function from offsets to bytes (the header of the class asks
  that it does not change during an operation), and the raw-deflate decoder of miniz, third-party
  code under \<open>src/third_party\<close>, is a parameter with a state of its own: the results hold for every decoder.  Of it
  only the bounds of its buffers are used, written out in \<open>tinfl_decompress\<close>.

  The main lemma \<open>StreamFile_outcome\<close> is what a sink may rely on: begin, writes, and then
  either a commit after the size, the checksum and the digest were found right, or an abort.
\<close>

section \<open>Types\<close>

datatype ZipCompression = ZipStore | ZipDeflate

datatype ZipStatus =
    ZipOk | ZipInvalidArgument | ZipNotOpen | ZipSourceIo | ZipArchiveSizeInvalid
  | ZipEndRecordInvalid | ZipArchiveCommentForbidden | ZipMultiDiskForbidden | Zip64Forbidden
  | ZipEntryCountInvalid | ZipStorageTooSmall | ZipCentralDirectoryInvalid
  | ZipUnsupportedVersion | ZipUnsupportedFlags | ZipUnsupportedCompression
  | ZipExtraFieldForbidden | ZipMemberCommentForbidden | ZipSpecialFileForbidden
  | ZipDirectoryMetadataInvalid | ZipPathInvalid | ZipPathTooLong | ZipPathEncodingInvalid
  | ZipNonAsciiPathUnsupported | ZipDuplicatePath | ZipFatCaseCollision
  | ZipFileUsedAsDirectory | ZipMemberSizeInvalid | ZipCompressionRatioInvalid
  | ZipOffsetInvalid | ZipLocalHeaderMismatch | ZipInstalledSizeInvalid
  | ZipExpectedInventoryInvalid | ZipInventoryMismatch | ZipEntryNotFound
  | ZipHashSinkRequired | ZipHashSinkError | ZipHashMismatch | ZipSinkError
  | ZipWorkspaceRequired | ZipCrcMismatch | ZipUncompressedSizeMismatch
  | ZipDeflateInvalid | ZipCancelled

record ZipEntry =
  entry_path :: "byte list"
  is_directory :: bool
  compression :: ZipCompression
  entry_flags :: u16
  crc32 :: u32
  compressed_size :: u64
  entry_size :: u64
  local_header_offset :: u64
  data_offset :: u64
  external_attributes :: u32
  creator_system :: byte

text \<open>The inventory of an opened archive; the entries are those of the reader below.\<close>

record ZipInventory =
  file_count :: nat
  directory_count :: nat
  archive_size :: u64
  installed_size :: u64
  central_directory_offset :: u64
  central_directory_size :: u64

record ZipExpectedFile =
  expected_path :: "byte list option"
  expected_size :: u64
  expected_compression :: ZipCompression
  expected_sha256 :: "byte list option"

record ZipExpectedInventory =
  expected_files :: "ZipExpectedFile list"
  expected_directories :: "byte list option list"

record SeekableZipSource =
  GetSize :: "u64 option"
  ReadAt :: "u64 \<Rightarrow> nat \<Rightarrow> byte list option"

record 'h ZipHashSink =
  BeginFile :: "byte list \<Rightarrow> u64 \<Rightarrow> 'h \<Rightarrow> bool \<times> 'h"
  HashUpdate :: "byte list \<Rightarrow> 'h \<Rightarrow> bool \<times> 'h"
  FinishFile :: "'h \<Rightarrow> byte list option \<times> 'h"
  AbortFile :: "'h \<Rightarrow> 'h"

record 's ZipExtractSink =
  BeginEntry :: "ZipEntry \<Rightarrow> 's \<Rightarrow> bool \<times> 's"
  SinkWrite :: "byte list \<Rightarrow> 's \<Rightarrow> bool \<times> 's"
  CommitEntry :: "ZipEntry \<Rightarrow> 's \<Rightarrow> bool \<times> 's"
  AbortEntry :: "ZipEntry \<Rightarrow> 's \<Rightarrow> 's"

record ZipReader =
  reader_source :: SeekableZipSource
  entries :: "ZipEntry list"
  inventory :: ZipInventory
  workspace :: bool
  reader_open :: bool
  validated_inventory_binding :: "byte list"
  validated_contents :: bool

definition kZipInputBufferBytes :: nat where
  "kZipInputBufferBytes = 32768"

definition kZipInflateDictionaryBytes :: nat where
  "kZipInflateDictionaryBytes = 32768"

section \<open>The expected inventory\<close>

definition DigestEqual :: "byte list \<Rightarrow> byte list \<Rightarrow> bool" where
  "DigestEqual left right \<longleftrightarrow>
     fold (\<lambda>i difference. difference OR (left ! i XOR right ! i)) [0..<32] 0 = 0"

definition FindExpectedFile :: "ZipExpectedInventory \<Rightarrow> byte list \<Rightarrow> ZipExpectedFile option" where
  "FindExpectedFile expected path = find (\<lambda>f. expected_path f = Some path) (expected_files expected)"

definition find_entry :: "ZipReader \<Rightarrow> bool \<Rightarrow> byte list \<Rightarrow> ZipEntry option" where
  "find_entry r directory path =
     find (\<lambda>e. is_directory e = directory \<and> entry_path e = path) (entries r)"

text \<open>
  \<open>verify_files previous files\<close> and \<open>verify_directories\<close> are the two loops of
  \<open>VerifyExpectedInventory\<close>, with the names seen before the current one.
\<close>

fun verify_files :: "ZipReader \<Rightarrow> byte list list \<Rightarrow> ZipExpectedFile list \<Rightarrow> ZipStatus" where
  "verify_files r previous [] = ZipOk"
| "verify_files r previous (wanted # files) =
     (case expected_path wanted of
        None \<Rightarrow> ZipExpectedInventoryInvalid
      | Some path \<Rightarrow>
          if path = [] then ZipExpectedInventoryInvalid
          else if path \<in> set previous then ZipExpectedInventoryInvalid
          else (case find_entry r False path of
              None \<Rightarrow> ZipInventoryMismatch
            | Some actual \<Rightarrow>
                if entry_size actual \<noteq> expected_size wanted \<or>
                   compression actual \<noteq> expected_compression wanted then ZipInventoryMismatch
                else verify_files r (previous @ [path]) files))"

fun verify_directories :: "ZipReader \<Rightarrow> byte list list \<Rightarrow> byte list option list \<Rightarrow> ZipStatus" where
  "verify_directories r previous [] = ZipOk"
| "verify_directories r previous (wanted # directories) =
     (case wanted of
        None \<Rightarrow> ZipExpectedInventoryInvalid
      | Some path \<Rightarrow>
          if path = [] then ZipExpectedInventoryInvalid
          else if path \<in> set previous then ZipExpectedInventoryInvalid
          else if find_entry r True path = None then ZipInventoryMismatch
          else verify_directories r (previous @ [path]) directories)"

definition VerifyExpectedInventory :: "ZipReader \<Rightarrow> ZipExpectedInventory \<Rightarrow> ZipStatus" where
  "VerifyExpectedInventory r expected =
     (if \<not> reader_open r then ZipNotOpen
      else if length (expected_files expected) \<noteq> file_count (inventory r) \<or>
              length (expected_directories expected) \<noteq> directory_count (inventory r)
      then ZipInventoryMismatch
      else let status = verify_files r [] (expected_files expected) in
        if status \<noteq> ZipOk then status
        else verify_directories r [] (expected_directories expected))"

text \<open>
  The digest that binds a validated inventory.  The hash object is the class of
  \<open>Sha256_Hash\<close>; \<open>hash_pieces\<close> are its \<open>Update\<close> calls, \<open>None\<close> once one of them fails.
\<close>

definition HashU64 :: "u64 \<Rightarrow> Sha256 option \<Rightarrow> Sha256 option" where
  "HashU64 v = sha_feed (map (\<lambda>index. ucast (drop_bit (index * 8) v)) [0..<8])"

definition HashSizedBytes :: "byte list \<Rightarrow> Sha256 option \<Rightarrow> Sha256 option" where
  "HashSizedBytes bytes hash = sha_feed bytes (HashU64 (of_nat (length bytes)) hash)"

definition bind_entry :: "ZipExpectedInventory \<Rightarrow> ZipEntry \<Rightarrow> Sha256 option \<Rightarrow> Sha256 option" where
  "bind_entry expected entry hash =
     (let hash = HashSizedBytes (entry_path entry)
                   (sha_feed [if is_directory entry then 0x44 else 0x46] hash) in
      if is_directory entry then hash
      else case FindExpectedFile expected (entry_path entry) of
          None \<Rightarrow> None
        | Some wanted \<Rightarrow>
            let hash = HashU64 (expected_size wanted) hash;
                hash = sha_feed [case expected_compression wanted of ZipStore \<Rightarrow> 0 | ZipDeflate \<Rightarrow> 8] hash;
                hash = sha_feed [if expected_sha256 wanted = None then 0 else 1] hash
            in (case expected_sha256 wanted of None \<Rightarrow> hash | Some digest \<Rightarrow> sha_feed (take 32 digest) hash))"

definition ComputeExpectedInventoryBinding :: "ZipReader \<Rightarrow> ZipExpectedInventory \<Rightarrow> byte list option" where
  "ComputeExpectedInventoryBinding r expected =
     (if \<not> reader_open r then None
      else let hash = HashSizedBytes (bytes_of ''bmx-zip-validated-inventory-v1'') (Some Sha256_Reset);
               hash = HashU64 (of_nat (length (expected_files expected))) hash;
               hash = HashU64 (of_nat (length (expected_directories expected))) hash;
               hash = fold (bind_entry expected) (entries r) hash
           in Option.bind hash (\<lambda>s. fst (Sha256_Final True s)))"

definition ValidatedContentsMatch :: "ZipReader \<Rightarrow> ZipExpectedInventory \<Rightarrow> bool" where
  "ValidatedContentsMatch r expected =
     (if \<not> validated_contents r then False
      else case ComputeExpectedInventoryBinding r expected of
          None \<Rightarrow> False
        | Some current \<Rightarrow> ConstantTimeDigestEqual (Some current) (Some (validated_inventory_binding r)))"

definition ClearValidatedContents :: "ZipReader \<Rightarrow> ZipReader" where
  "ClearValidatedContents r =
     r\<lparr>validated_inventory_binding := replicate 32 0, validated_contents := False\<rparr>"

definition BindAuthenticatedInventory :: "ZipReader \<Rightarrow> ZipExpectedInventory \<Rightarrow> ZipStatus \<times> ZipReader" where
  "BindAuthenticatedInventory r expected =
     (let inventory_status = VerifyExpectedInventory r expected in
      if inventory_status \<noteq> ZipOk then (inventory_status, ClearValidatedContents r)
      else case ComputeExpectedInventoryBinding r expected of
          None \<Rightarrow> (ZipExpectedInventoryInvalid, ClearValidatedContents r)
        | Some binding \<Rightarrow>
            (ZipOk, r\<lparr>validated_inventory_binding := binding, validated_contents := True\<rparr>))"

section \<open>Streaming one member\<close>

text \<open>
  \<open>source_read\<close> is \<open>ReadAt\<close> into a buffer of \<open>amount\<close> bytes: the documented contract is that
  it fills the whole range or fails.  \<open>tinfl_decompress\<close> calls the decoder on the pending input
  and the room left in the dictionary; it returns the status, the number of input bytes consumed
  and the bytes it wrote, neither more than the buffers hold.
\<close>

definition source_read :: "SeekableZipSource \<Rightarrow> u64 \<Rightarrow> nat \<Rightarrow> byte list option" where
  "source_read source offset amount =
     (case ReadAt source offset amount of
        None \<Rightarrow> None
      | Some bytes \<Rightarrow> if length bytes = amount then Some bytes else None)"

type_synonym 'd inflater = "'d \<Rightarrow> bool \<Rightarrow> byte list \<Rightarrow> nat \<Rightarrow> int \<times> nat \<times> byte list \<times> 'd"

definition tinfl_decompress ::
  "'d inflater \<Rightarrow> 'd \<Rightarrow> bool \<Rightarrow> byte list \<Rightarrow> nat \<Rightarrow> int \<times> nat \<times> byte list \<times> 'd" where
  "tinfl_decompress inflate decompressor has_more_input input room =
     (case inflate decompressor has_more_input input room of
        (status, consumed, output, decompressor) \<Rightarrow>
          (status, min consumed (length input), take room output, decompressor))"

definition TINFL_STATUS_DONE :: int where
  "TINFL_STATUS_DONE = 0"

definition TINFL_STATUS_NEEDS_MORE_INPUT :: int where
  "TINFL_STATUS_NEEDS_MORE_INPUT = 1"

record ('h, 's) stream =
  hash_state :: 'h
  sink_state :: 's
  stream_crc :: u32
  produced :: nat

text \<open>A piece of output through the checksum, the hash, the sink and the progress callback.\<close>

definition deliver ::
  "'h ZipHashSink option \<Rightarrow> 's ZipExtractSink option \<Rightarrow> (nat \<Rightarrow> nat \<Rightarrow> bool) option \<Rightarrow> nat \<Rightarrow>
   byte list \<Rightarrow> ('h, 's) stream \<Rightarrow> ZipStatus \<times> ('h, 's) stream" where
  "deliver hash_sink extract_sink progress member_size output st =
     (let st = st\<lparr>stream_crc := UpdateCrc32 (stream_crc st) output\<rparr>;
          (hashed, h) = (case hash_sink of None \<Rightarrow> (True, hash_state st)
                         | Some ops \<Rightarrow> HashUpdate ops output (hash_state st));
          st = st\<lparr>hash_state := h\<rparr> in
      if \<not> hashed then (ZipHashSinkError, st)
      else let (stored, s) = (case extract_sink of None \<Rightarrow> (True, sink_state st)
                              | Some ops \<Rightarrow> SinkWrite ops output (sink_state st));
               st = st\<lparr>sink_state := s\<rparr> in
        if \<not> stored then (ZipSinkError, st)
        else let st = st\<lparr>produced := produced st + length output\<rparr> in
          if (case progress of None \<Rightarrow> True | Some report \<Rightarrow> report (produced st) member_size)
          then (ZipOk, st) else (ZipCancelled, st))"

function store_loop ::
  "SeekableZipSource \<Rightarrow> 'h ZipHashSink option \<Rightarrow> 's ZipExtractSink option \<Rightarrow> (nat \<Rightarrow> nat \<Rightarrow> bool) option \<Rightarrow>
   nat \<Rightarrow> nat \<Rightarrow> u64 \<Rightarrow> ('h, 's) stream \<Rightarrow> ZipStatus \<times> ('h, 's) stream" where
  "store_loop source hash_sink extract_sink progress member_size remaining offset st =
     (if remaining = 0 then (ZipOk, st)
      else let amount = (if remaining < kZipInputBufferBytes then remaining else kZipInputBufferBytes) in
        case source_read source offset amount of
          None \<Rightarrow> (ZipSourceIo, st)
        | Some input \<Rightarrow>
            if produced st > member_size \<or> amount > member_size - produced st then (ZipUncompressedSizeMismatch, st)
            else case deliver hash_sink extract_sink progress member_size input st of (status, st) \<Rightarrow>
              if status \<noteq> ZipOk then (status, st)
              else store_loop source hash_sink extract_sink progress member_size (remaining - amount)
                     (offset + of_nat amount) st)"
  by pat_completeness auto
termination
  by (relation "measure (\<lambda>(source, hs, es, progress, member_size, remaining, offset, st). remaining)")
    (auto simp: kZipInputBufferBytes_def)

declare store_loop.simps [simp del]

text \<open>
  The deflate loop.  \<open>pending\<close> are the bytes of the input buffer not yet consumed.  The branch
  which goes round without progress is only taken when input remains to be read, which the head
  of the loop rules out, so every turn consumes input or produces output.
\<close>

definition refill ::
  "SeekableZipSource \<Rightarrow> byte list \<Rightarrow> nat \<Rightarrow> u64 \<Rightarrow> (byte list \<times> nat \<times> u64) option" where
  "refill source pending remaining offset =
     (if pending = [] \<and> remaining \<noteq> 0 then
        let input_size = (if remaining < kZipInputBufferBytes then remaining else kZipInputBufferBytes) in
        map_option (\<lambda>input. (input, remaining - input_size, offset + of_nat input_size))
          (source_read source offset input_size)
      else Some (pending, remaining, offset))"

lemma refill_total:
  assumes "refill source pending remaining offset = Some (pending', remaining', offset')"
  shows "length pending' + remaining' = length pending + remaining" and "pending' = [] \<Longrightarrow> remaining' = 0"
  using assms
  by (auto simp: refill_def source_read_def kZipInputBufferBytes_def Let_def
      split: if_split_asm option.split_asm)

function deflate_loop ::
  "SeekableZipSource \<Rightarrow> 'd inflater \<Rightarrow> 'h ZipHashSink option \<Rightarrow> 's ZipExtractSink option \<Rightarrow>
   (nat \<Rightarrow> nat \<Rightarrow> bool) option \<Rightarrow> nat \<Rightarrow> byte list \<Rightarrow> nat \<Rightarrow> u64 \<Rightarrow> 'd \<Rightarrow> nat \<Rightarrow> ('h, 's) stream \<Rightarrow>
   ZipStatus \<times> ('h, 's) stream" where
  "deflate_loop source inflate hash_sink extract_sink progress member_size pending remaining offset
     decompressor dictionary_offset st =
     (case refill source pending remaining offset of
        None \<Rightarrow> (ZipSourceIo, st)
      | Some (pending, remaining, offset) \<Rightarrow>
     (case tinfl_decompress inflate decompressor (remaining \<noteq> 0) pending
             (kZipInflateDictionaryBytes - dictionary_offset) of
        (status, consumed, output, decompressor) \<Rightarrow>
      if produced st > member_size \<or> length output > member_size - produced st
      then (ZipUncompressedSizeMismatch, st)
      else case (if output \<noteq> [] then deliver hash_sink extract_sink progress member_size output st
                 else (ZipOk, st)) of (result, st) \<Rightarrow>
        if result \<noteq> ZipOk then (result, st)
        else let pending = drop consumed pending;
                 dictionary_offset =
                   (if output \<noteq> [] then (dictionary_offset + length output) mod kZipInflateDictionaryBytes
                    else dictionary_offset) in
          if status < TINFL_STATUS_DONE then (ZipDeflateInvalid, st)
          else if status = TINFL_STATUS_DONE then
            (if remaining \<noteq> 0 \<or> pending \<noteq> [] then (ZipDeflateInvalid, st) else (ZipOk, st))
          else if consumed = 0 \<and> output = [] then
            (if pending = [] \<and> remaining \<noteq> 0
             then deflate_loop source inflate hash_sink extract_sink progress member_size pending remaining
                    offset decompressor dictionary_offset st
             else (ZipDeflateInvalid, st))
          else if status = TINFL_STATUS_NEEDS_MORE_INPUT \<and> pending = [] \<and> remaining = 0
          then (ZipDeflateInvalid, st)
          else deflate_loop source inflate hash_sink extract_sink progress member_size pending remaining
                 offset decompressor dictionary_offset st))"
  by pat_completeness auto

lemma deliver_produced:
  "deliver hs es progress member_size output st = (ZipOk, st') \<Longrightarrow> produced st' = produced st + length output"
  by (auto simp: deliver_def Let_def split: prod.split_asm if_split_asm)

lemma tinfl_decompress_bounds:
  "tinfl_decompress inflate d has_more input room = (status, consumed, output, d') \<Longrightarrow>
   consumed \<le> length input \<and> length output \<le> room"
  by (auto simp: tinfl_decompress_def split: prod.split_asm)

lemma deflate_progress:
  assumes "refill source pending remaining offset = Some (p, r, offset')"
    and "tinfl_decompress inflate d has_more p room = (status, consumed, output, d')"
    and "length output \<le> member_size - produced st" and "\<not> (consumed = 0 \<and> output = [])"
    and "(if output \<noteq> [] then deliver hs es progress member_size output st else (ZipOk, st)) = (ZipOk, st')"
  shows "length (drop consumed p) + r + (member_size - produced st') <
    length pending + remaining + (member_size - produced st)"
proof -
  have "produced st' = produced st + length output"
    using assms(5) by (auto dest: deliver_produced split: if_split_asm)
  moreover have "consumed \<le> length p" using tinfl_decompress_bounds [OF assms(2)] by simp
  moreover have "0 < consumed + length output" using assms(4) by auto
  ultimately show ?thesis
    using refill_total(1) [OF assms(1)] assms(3) by (simp only: length_drop)
qed

termination deflate_loop
proof (relation "measure (\<lambda>(source, inflate, hs, es, progress, member_size, pending, remaining, offset, d, dict, st).
    length pending + remaining + (member_size - produced st))", goal_cases)
  case 1
  then show ?case by simp
next
  case prems: 2
  then show ?case using refill_total(2) by fastforce
next
  case prems: (3 source inflate hs es progress member_size pending remaining offset d dict st
      _ p _ r offset' status _ consumed _ out d' result st')
  show ?case
    unfolding in_measure prod.case prems(10)
  proof (rule deflate_progress)
    show "refill source pending remaining offset = Some (p, r, offset')" using prems(1-3) by simp
    show "tinfl_decompress inflate d (r \<noteq> 0) p (kZipInflateDictionaryBytes - dict) = (status, consumed, out, d')"
      using prems(4-6) by simp
    show "(if out \<noteq> [] then deliver hs es progress member_size out st else (ZipOk, st)) = (ZipOk, st')"
      using prems(8,9) by simp
  qed (use prems in auto)
qed

declare deflate_loop.simps [simp del]

definition stream_payload ::
  "SeekableZipSource \<Rightarrow> 'd inflater \<Rightarrow> 'd \<Rightarrow> 'h ZipHashSink option \<Rightarrow> 's ZipExtractSink option \<Rightarrow>
   (nat \<Rightarrow> nat \<Rightarrow> bool) option \<Rightarrow> ZipEntry \<Rightarrow> ('h, 's) stream \<Rightarrow> ZipStatus \<times> ('h, 's) stream" where
  "stream_payload source inflate tinfl_init hash_sink extract_sink progress entry st =
     (case compression entry of
        ZipStore \<Rightarrow>
          store_loop source hash_sink extract_sink progress (unat (entry_size entry))
            (unat (compressed_size entry)) (data_offset entry) st
      | ZipDeflate \<Rightarrow>
          deflate_loop source inflate hash_sink extract_sink progress (unat (entry_size entry))
            [] (unat (compressed_size entry)) (data_offset entry) tinfl_init 0 st)"

text \<open>The checks after the payload, the commit, and the aborts of what was started and not ended.\<close>

definition check_payload :: "ZipEntry \<Rightarrow> ZipStatus \<Rightarrow> ('h, 's) stream \<Rightarrow> ZipStatus" where
  "check_payload entry result st =
     (if result \<noteq> ZipOk then result
      else if produced st \<noteq> unat (entry_size entry) then ZipUncompressedSizeMismatch
      else if stream_crc st XOR 0xffffffff \<noteq> crc32 entry then ZipCrcMismatch
      else ZipOk)"

definition finish_hash ::
  "ZipExpectedFile \<Rightarrow> 'h ZipHashSink option \<Rightarrow> ZipStatus \<Rightarrow> 'h \<Rightarrow> ZipStatus \<times> 'h" where
  "finish_hash expected hash_sink result h =
     (case hash_sink of
        None \<Rightarrow> (result, h)
      | Some ops \<Rightarrow>
          if result \<noteq> ZipOk then (result, AbortFile ops h)
          else (case FinishFile ops h of
              (None, h) \<Rightarrow> (ZipHashSinkError, AbortFile ops h)
            | (Some digest, h) \<Rightarrow>
                (case expected_sha256 expected of
                   None \<Rightarrow> (ZipOk, h)
                 | Some sha \<Rightarrow> (if DigestEqual digest sha then ZipOk else ZipHashMismatch, h))))"

definition finish_sink ::
  "ZipEntry \<Rightarrow> 's ZipExtractSink option \<Rightarrow> ZipStatus \<Rightarrow> 's \<Rightarrow> ZipStatus \<times> 's" where
  "finish_sink entry extract_sink result s =
     (case extract_sink of
        None \<Rightarrow> (result, s)
      | Some ops \<Rightarrow>
          if result \<noteq> ZipOk then (result, AbortEntry ops entry s)
          else (case CommitEntry ops entry s of
              (True, s) \<Rightarrow> (ZipOk, s)
            | (False, s) \<Rightarrow> (ZipSinkError, AbortEntry ops entry s)))"

definition begin_hash ::
  "ZipEntry \<Rightarrow> ZipExpectedFile \<Rightarrow> 'h ZipHashSink option \<Rightarrow> 'h \<Rightarrow> ZipStatus \<times> 'h" where
  "begin_hash entry expected hash_sink h =
     (case hash_sink of
        Some ops \<Rightarrow>
          (case BeginFile ops (entry_path entry) (entry_size entry) h of
             (True, h) \<Rightarrow> (ZipOk, h)
           | (False, h) \<Rightarrow> (ZipHashSinkError, h))
      | None \<Rightarrow> (if expected_sha256 expected \<noteq> None then ZipHashSinkRequired else ZipOk, h))"

definition StreamFile ::
  "ZipReader \<Rightarrow> 'd inflater \<Rightarrow> 'd \<Rightarrow> ZipEntry \<Rightarrow> ZipExpectedFile option \<Rightarrow> 'h ZipHashSink option \<Rightarrow>
   's ZipExtractSink option \<Rightarrow> (nat \<Rightarrow> nat \<Rightarrow> bool) option \<Rightarrow> 'h \<Rightarrow> 's \<Rightarrow> ZipStatus \<times> 'h \<times> 's" where
  "StreamFile r inflate tinfl_init entry expected hash_sink extract_sink progress h s =
     (case expected of
        None \<Rightarrow> (ZipInvalidArgument, h, s)
      | Some wanted \<Rightarrow>
        if \<not> reader_open r \<or> is_directory entry then (ZipInvalidArgument, h, s)
        else if \<not> workspace r then (ZipWorkspaceRequired, h, s)
        else case GetSize (reader_source r) of
          None \<Rightarrow> (ZipSourceIo, h, s)
        | Some current_size \<Rightarrow>
          if current_size \<noteq> archive_size (inventory r) then (ZipOffsetInvalid, h, s)
          else case begin_hash entry wanted hash_sink h of (hash_status, h) \<Rightarrow>
            if hash_status \<noteq> ZipOk then (hash_status, h, s)
            else case (case extract_sink of None \<Rightarrow> (True, s) | Some ops \<Rightarrow> BeginEntry ops entry s) of (begun, s) \<Rightarrow>
              if \<not> begun
              then (ZipSinkError, (case hash_sink of None \<Rightarrow> h | Some ops \<Rightarrow> AbortFile ops h), s)
              else case stream_payload (reader_source r) inflate tinfl_init hash_sink extract_sink progress entry
                          \<lparr>hash_state = h, sink_state = s, stream_crc = 0xffffffff, produced = 0\<rparr> of
                (result, st) \<Rightarrow>
                  (case finish_hash wanted hash_sink (check_payload entry result st) (hash_state st) of
                    (result, h) \<Rightarrow>
                     (case finish_sink entry extract_sink result (sink_state st) of
                       (result, s) \<Rightarrow> (result, h, s))))"

section \<open>Extraction\<close>

text \<open>The pass over every file of \<open>ValidateContents\<close>.\<close>

fun validate_entries ::
  "ZipReader \<Rightarrow> 'd inflater \<Rightarrow> 'd \<Rightarrow> ZipExpectedInventory \<Rightarrow> 'h ZipHashSink option \<Rightarrow>
   ZipEntry list \<Rightarrow> 'h \<Rightarrow> ZipStatus \<times> 'h" where
  "validate_entries r inflate tinfl_init expected hash_sink [] h = (ZipOk, h)"
| "validate_entries r inflate tinfl_init expected hash_sink (entry # es) h =
     (if is_directory entry then validate_entries r inflate tinfl_init expected hash_sink es h
      else case StreamFile r inflate tinfl_init entry (FindExpectedFile expected (entry_path entry))
                  hash_sink (None :: unit ZipExtractSink option) None h () of
        (status, h, _) \<Rightarrow>
          if status \<noteq> ZipOk then (status, h)
          else validate_entries r inflate tinfl_init expected hash_sink es h)"

definition ValidateContents ::
  "ZipReader \<Rightarrow> 'd inflater \<Rightarrow> 'd \<Rightarrow> ZipExpectedInventory \<Rightarrow> 'h ZipHashSink option \<Rightarrow> 'h \<Rightarrow>
   ZipStatus \<times> ZipReader \<times> 'h" where
  "ValidateContents r inflate tinfl_init expected hash_sink h =
     (let r = ClearValidatedContents r;
          inventory_status = VerifyExpectedInventory r expected;
          requires_hash = list_ex (\<lambda>f. expected_sha256 f \<noteq> None) (expected_files expected) in
      if inventory_status \<noteq> ZipOk then (inventory_status, r, h)
      else if requires_hash \<and> hash_sink = None then (ZipHashSinkRequired, r, h)
      else case ComputeExpectedInventoryBinding r expected of
        None \<Rightarrow> (ZipExpectedInventoryInvalid, r, h)
      | Some binding_before \<Rightarrow>
          (case validate_entries r inflate tinfl_init expected hash_sink (entries r) h of (status, h) \<Rightarrow>
            if status \<noteq> ZipOk then (status, r, h)
            else case ComputeExpectedInventoryBinding r expected of
              None \<Rightarrow> (ZipExpectedInventoryInvalid, r, h)
            | Some binding_after \<Rightarrow>
                if \<not> ConstantTimeDigestEqual (Some binding_before) (Some binding_after)
                then (ZipExpectedInventoryInvalid, r, h)
                else (ZipOk, r\<lparr>validated_inventory_binding := binding_after, validated_contents := True\<rparr>, h)))"

definition ExtractOne ::
  "ZipReader \<Rightarrow> 'd inflater \<Rightarrow> 'd \<Rightarrow> byte list \<Rightarrow> ZipExpectedInventory \<Rightarrow> 's ZipExtractSink \<Rightarrow>
   'h ZipHashSink option \<Rightarrow> 'h \<Rightarrow> 's \<Rightarrow> ZipStatus \<times> ZipReader \<times> 'h \<times> 's" where
  "ExtractOne r inflate tinfl_init path expected sink hash_sink h s =
     (let inventory_status = VerifyExpectedInventory r expected in
      if inventory_status \<noteq> ZipOk then (inventory_status, ClearValidatedContents r, h, s)
      else let reuse_validated_contents = ValidatedContentsMatch r expected;
               r = (if reuse_validated_contents then r else ClearValidatedContents r) in
        case find_entry r False path of
          None \<Rightarrow> (ZipEntryNotFound, ClearValidatedContents r, h, s)
        | Some entry \<Rightarrow>
        (case FindExpectedFile expected path of
          None \<Rightarrow> (ZipInventoryMismatch, ClearValidatedContents r, h, s)
        | Some wanted \<Rightarrow>
          if expected_sha256 wanted \<noteq> None \<and> hash_sink = None
          then (ZipHashSinkRequired, ClearValidatedContents r, h, s)
          else case (if reuse_validated_contents then (ZipOk, h)
                     else case StreamFile r inflate tinfl_init entry (Some wanted) hash_sink
                                 (None :: 's ZipExtractSink option) None h s of (status, h, _) \<Rightarrow> (status, h)) of
            (status, h) \<Rightarrow>
              if status \<noteq> ZipOk then (status, ClearValidatedContents r, h, s)
              else case StreamFile r inflate tinfl_init entry (Some wanted) hash_sink (Some sink) None h s of
                (status, h, s) \<Rightarrow>
                  (status, if status \<noteq> ZipOk then ClearValidatedContents r else r, h, s)))"

section \<open>What a sink may rely on\<close>

text \<open>
  \<open>sink_writes ops cs s = Some s'\<close>: the pieces \<open>cs\<close> were all written; \<open>sink_reached ops s s'\<close>:
  after some successful writes, perhaps followed by one that failed.
\<close>

fun sink_writes :: "'s ZipExtractSink \<Rightarrow> byte list list \<Rightarrow> 's \<Rightarrow> 's option" where
  "sink_writes ops [] s = Some s"
| "sink_writes ops (c # cs) s =
     (case SinkWrite ops c s of (ok, s') \<Rightarrow> if ok then sink_writes ops cs s' else None)"

fun hash_updates :: "'h ZipHashSink \<Rightarrow> byte list list \<Rightarrow> 'h \<Rightarrow> 'h option" where
  "hash_updates ops [] h = Some h"
| "hash_updates ops (c # cs) h =
     (case HashUpdate ops c h of (ok, h') \<Rightarrow> if ok then hash_updates ops cs h' else None)"

definition sink_reached :: "'s ZipExtractSink \<Rightarrow> 's \<Rightarrow> 's \<Rightarrow> bool" where
  "sink_reached ops s s' \<longleftrightarrow>
     (\<exists>cs s1. sink_writes ops cs s = Some s1 \<and> (s' = s1 \<or> (\<exists>c. SinkWrite ops c s1 = (False, s'))))"

definition fed ::
  "'h ZipHashSink option \<Rightarrow> 's ZipExtractSink option \<Rightarrow> byte list list \<Rightarrow> ('h, 's) stream \<Rightarrow> ('h, 's) stream \<Rightarrow> bool" where
  "fed hs es cs st st' \<longleftrightarrow>
     stream_crc st' = UpdateCrc32 (stream_crc st) (concat cs) \<and>
     produced st' = produced st + length (concat cs) \<and>
     (case hs of None \<Rightarrow> hash_state st' = hash_state st
      | Some ops \<Rightarrow> hash_updates ops cs (hash_state st) = Some (hash_state st')) \<and>
     (case es of None \<Rightarrow> sink_state st' = sink_state st
      | Some ops \<Rightarrow> sink_writes ops cs (sink_state st) = Some (sink_state st'))"

definition stopped :: "'s ZipExtractSink option \<Rightarrow> ('h, 's) stream \<Rightarrow> ('h, 's) stream \<Rightarrow> bool" where
  "stopped es st st' \<longleftrightarrow>
     (case es of None \<Rightarrow> sink_state st' = sink_state st
      | Some ops \<Rightarrow> sink_reached ops (sink_state st) (sink_state st'))"

lemma sink_writes_append:
  "sink_writes ops (cs @ ds) s = Option.bind (sink_writes ops cs s) (sink_writes ops ds)"
  by (induction cs arbitrary: s) (auto split: prod.split)

lemma hash_updates_append:
  "hash_updates ops (cs @ ds) h = Option.bind (hash_updates ops cs h) (hash_updates ops ds)"
  by (induction cs arbitrary: h) (auto split: prod.split)

lemma fed_Nil: "fed hs es [] st st"
  by (simp add: fed_def UpdateCrc32_def split: option.split)

lemma fed_trans: "fed hs es cs st st1 \<Longrightarrow> fed hs es ds st1 st2 \<Longrightarrow> fed hs es (cs @ ds) st st2"
  by (auto simp: fed_def UpdateCrc32_def sink_writes_append hash_updates_append split: option.split_asm option.split)

lemma stopped_refl: "stopped es st st"
  unfolding stopped_def sink_reached_def
  by (auto split: option.split intro: exI [of _ "[]"])

lemma fed_stopped: "fed hs es cs st st1 \<Longrightarrow> stopped es st1 st2 \<Longrightarrow> stopped es st st2"
proof (cases es)
  case (Some ops)
  assume "fed hs es cs st st1" and "stopped es st1 st2"
  then obtain ds s where w: "sink_writes ops cs (sink_state st) = Some (sink_state st1)"
    "sink_writes ops ds (sink_state st1) = Some s"
    "sink_state st2 = s \<or> (\<exists>c. SinkWrite ops c s = (False, sink_state st2))"
    by (auto simp: fed_def stopped_def sink_reached_def Some)
  then have "sink_writes ops (cs @ ds) (sink_state st) = Some s" by (simp add: sink_writes_append)
  with w(3) show ?thesis by (auto simp: stopped_def sink_reached_def Some)
qed (auto simp: fed_def stopped_def)

lemma deliver_fed: "deliver hs es progress n out st = (ZipOk, st') \<Longrightarrow> fed hs es [out] st st'"
  by (auto simp: deliver_def fed_def Let_def split: option.split_asm option.split prod.split_asm if_split_asm)

lemma deliver_stopped:
  assumes "deliver hs es progress n out st = (status, st')"
  shows "stopped es st st'"
proof (cases es)
  case None
  with assms show ?thesis
    by (auto simp: deliver_def stopped_def Let_def split: option.split_asm prod.split_asm if_split_asm)
next
  case (Some ops)
  have "sink_state st' = sink_state st \<or> (\<exists>ok. SinkWrite ops out (sink_state st) = (ok, sink_state st'))"
    using assms Some by (auto simp: deliver_def Let_def split: option.split_asm prod.split_asm if_split_asm)
  then show ?thesis
  proof
    assume "sink_state st' = sink_state st"
    then show ?thesis using stopped_refl [of es st] by (simp add: stopped_def Some)
  next
    assume "\<exists>ok. SinkWrite ops out (sink_state st) = (ok, sink_state st')"
    then obtain ok where w: "SinkWrite ops out (sink_state st) = (ok, sink_state st')" ..
    then have "sink_reached ops (sink_state st) (sink_state st')"
      unfolding sink_reached_def
      by (intro exI [of _ "if ok then [out] else []"] exI [of _ "if ok then sink_state st' else sink_state st"]) auto
    then show ?thesis by (simp add: stopped_def Some)
  qed
qed

lemma store_loop_outcome:
  "store_loop source hs es progress n remaining offset st = (status, st') \<Longrightarrow>
   (status = ZipOk \<longrightarrow> (\<exists>cs. fed hs es cs st st')) \<and> stopped es st st'"
proof (induction source hs es progress n remaining offset st rule: store_loop.induct)
  case (1 source hs es progress n remaining offset st)
  let ?amount = "if remaining < kZipInputBufferBytes then remaining else kZipInputBufferBytes"
  note prem = "1.prems" [unfolded store_loop.simps [of source hs es progress n remaining offset st] Let_def]
  show ?case
  proof (cases "remaining = 0")
    case True
    with prem show ?thesis by (auto intro: fed_Nil stopped_refl)
  next
    case more: False
    show ?thesis
    proof (cases "source_read source offset ?amount")
      case None
      with prem more show ?thesis by (auto simp: stopped_refl)
    next
      case (Some input)
      show ?thesis
      proof (cases "produced st > n \<or> ?amount > n - produced st")
        case True
        with prem more Some show ?thesis by (auto simp: stopped_refl)
      next
        case fits: False
        obtain status1 st1 where d: "deliver hs es progress n input st = (status1, st1)" by fastforce
        show ?thesis
        proof (cases "status1 = ZipOk")
          case False
          with prem more Some fits d show ?thesis by (auto dest: deliver_stopped)
        next
          case ok: True
          with prem more Some fits d have rest: "store_loop source hs es progress n
              (remaining - ?amount) (offset + of_nat ?amount) st1 = (status, st')"
            by simp
          note IH = "1.IH" [OF more refl Some fits d [symmetric] _ rest]
          note f = deliver_fed [OF d [unfolded ok]]
          from IH ok fed_trans [OF f] fed_stopped [OF f] show ?thesis by blast
        qed
      qed
    qed
  qed
qed

text \<open>The step of the deflate loop which delivers output, if there is any.\<close>

lemma deflate_deliver:
  assumes "(if out \<noteq> [] then deliver hs es progress n out st else (ZipOk, st)) = (status, st')"
  shows "status = ZipOk \<Longrightarrow> \<exists>cs. fed hs es cs st st'" and "stopped es st st'"
  using assms deliver_fed [of hs es progress n out st st'] deliver_stopped [of hs es progress n out st status st']
    fed_Nil [of hs es st] stopped_refl [of es st]
  by (auto split: if_split_asm)

lemma deflate_loop_outcome:
  "deflate_loop source inflate hs es progress n pending remaining offset d dict st = (status, st') \<Longrightarrow>
   (status = ZipOk \<longrightarrow> (\<exists>cs. fed hs es cs st st')) \<and> stopped es st st'"
proof (induction source inflate hs es progress n pending remaining offset d dict st rule: deflate_loop.induct)
  case (1 source inflate hs es progress n pending remaining offset d dict st)
  note prem = "1.prems" [unfolded
      deflate_loop.simps [of source inflate hs es progress n pending remaining offset d dict st] Let_def]
  show ?case
  proof (cases "refill source pending remaining offset")
    case None
    with prem show ?thesis by (auto simp: stopped_refl)
  next
    case (Some pro)
    then obtain p r offset' where f: "refill source pending remaining offset = Some (p, r, offset')"
      by (cases pro) auto
    obtain code used out d' where t: "tinfl_decompress inflate d (r \<noteq> 0) p
        (kZipInflateDictionaryBytes - dict) = (code, used, out, d')" by (metis prod.exhaust)
    obtain status1 st1 where dl: "(if out \<noteq> [] then deliver hs es progress n out st else (ZipOk, st)) = (status1, st1)"
      by (metis prod.exhaust)
    note prem = prem [unfolded f option.case prod.case t dl]
    show ?thesis
    proof (cases "(produced st > n \<or> length out > n - produced st) \<or> status1 \<noteq> ZipOk")
      case True
      with prem deflate_deliver(2) [OF dl] show ?thesis by (auto simp: stopped_refl split: if_split_asm)
    next
      case False
      then obtain cs where fd: "fed hs es cs st st1" using deflate_deliver(1) [OF dl] by blast
      define dict' where "dict' = (if out \<noteq> [] then (dict + length out) mod kZipInflateDictionaryBytes else dict)"
      let ?again = "deflate_loop source inflate hs es progress n (drop used p) r offset' d' dict' st1"
      consider "st' = st1" | "?again = (status, st')" "\<not> code < TINFL_STATUS_DONE" "code \<noteq> TINFL_STATUS_DONE"
          "used = 0 \<and> out = []" "drop used p = [] \<and> r \<noteq> 0"
        | "?again = (status, st')" "\<not> code < TINFL_STATUS_DONE" "code \<noteq> TINFL_STATUS_DONE"
          "\<not> (used = 0 \<and> out = [])" "\<not> (code = TINFL_STATUS_NEEDS_MORE_INPUT \<and> drop used p = [] \<and> r = 0)"
        using prem False unfolding dict'_def [symmetric] by (auto split: if_split_asm)
      then have "(status = ZipOk \<longrightarrow> (\<exists>ds. fed hs es ds st1 st')) \<and> stopped es st1 st'"
      proof cases
        case 1
        then show ?thesis using fed_Nil stopped_refl by blast
      next
        case 2
        from "1.IH"(1) [OF f refl refl t [symmetric] refl refl _ dl [symmetric] _ refl dict'_def 2(2-5) 2(1)] False
        show ?thesis by blast
      next
        case 3
        from "1.IH"(2) [OF f refl refl t [symmetric] refl refl _ dl [symmetric] _ refl dict'_def 3(2-5) 3(1)] False
        show ?thesis by blast
      qed
      with fed_trans [OF fd] fed_stopped [OF fd] show ?thesis by blast
    qed
  qed
qed

text \<open>
  \<open>verified entry wanted hs h cs\<close>: the pieces \<open>cs\<close> together have the size and the checksum of the
  member, and the hash sink, begun in state \<open>h\<close> and given the pieces, returned a digest equal to
  the expected one.
\<close>

definition verified :: "ZipEntry \<Rightarrow> ZipExpectedFile \<Rightarrow> 'h ZipHashSink \<Rightarrow> 'h \<Rightarrow> byte list list \<Rightarrow> bool" where
  "verified entry wanted hs h cs \<longleftrightarrow>
     length (concat cs) = unat (entry_size entry) \<and>
     UpdateCrc32 0xffffffff (concat cs) XOR 0xffffffff = crc32 entry \<and>
     (\<exists>h1 h2 h3 digest. BeginFile hs (entry_path entry) (entry_size entry) h = (True, h1) \<and>
        hash_updates hs cs h1 = Some h2 \<and> FinishFile hs h2 = (Some digest, h3) \<and>
        (case expected_sha256 wanted of None \<Rightarrow> True | Some sha \<Rightarrow> DigestEqual digest sha))"

definition extracted ::
  "ZipEntry \<Rightarrow> ZipExpectedFile \<Rightarrow> 'h ZipHashSink \<Rightarrow> 'h \<Rightarrow> 's ZipExtractSink \<Rightarrow> 's \<Rightarrow> 's \<Rightarrow> bool" where
  "extracted entry wanted hs h es s s' \<longleftrightarrow>
     (\<exists>cs s1 s2. verified entry wanted hs h cs \<and> BeginEntry es entry s = (True, s1) \<and>
        sink_writes es cs s1 = Some s2 \<and> CommitEntry es entry s2 = (True, s'))"

definition abandoned ::
  "ZipEntry \<Rightarrow> ZipExpectedFile \<Rightarrow> 'h ZipHashSink \<Rightarrow> 'h \<Rightarrow> 's ZipExtractSink \<Rightarrow> 's \<Rightarrow> 's \<Rightarrow> bool" where
  "abandoned entry wanted hs h es s s' \<longleftrightarrow>
     s' = s \<or> BeginEntry es entry s = (False, s') \<or>
     (\<exists>s1 s2. BeginEntry es entry s = (True, s1) \<and> sink_reached es s1 s2 \<and> s' = AbortEntry es entry s2) \<or>
     (\<exists>cs s1 s2 s3. verified entry wanted hs h cs \<and> BeginEntry es entry s = (True, s1) \<and>
        sink_writes es cs s1 = Some s2 \<and> CommitEntry es entry s2 = (False, s3) \<and> s' = AbortEntry es entry s3)"

lemma stream_payload_outcome:
  "stream_payload source inflate d hs es progress entry st = (status, st') \<Longrightarrow>
   (status = ZipOk \<longrightarrow> (\<exists>cs. fed hs es cs st st')) \<and> stopped es st st'"
  by (auto simp: stream_payload_def split: ZipCompression.split_asm
      dest: store_loop_outcome deflate_loop_outcome)

lemma finish_hash_Ok:
  "finish_hash wanted (Some hs) result h = (ZipOk, h') \<Longrightarrow>
   result = ZipOk \<and> (\<exists>digest. FinishFile hs h = (Some digest, h') \<and>
     (case expected_sha256 wanted of None \<Rightarrow> True | Some sha \<Rightarrow> DigestEqual digest sha))"
  by (auto simp: finish_hash_def split: if_split_asm prod.split_asm option.split_asm)

lemma check_payload_Ok:
  "check_payload entry result st = ZipOk \<longleftrightarrow>
   result = ZipOk \<and> produced st = unat (entry_size entry) \<and> stream_crc st XOR 0xffffffff = crc32 entry"
  by (auto simp: check_payload_def)

lemma StreamFile_outcome:
  assumes "StreamFile r inflate d entry (Some wanted) (Some hs) (Some es) progress h s = (status, h', s')"
  shows "if status = ZipOk then extracted entry wanted hs h es s s' else abandoned entry wanted hs h es s s'"
proof (cases "reader_open r \<and> \<not> is_directory entry \<and> workspace r \<and>
    GetSize (reader_source r) = Some (archive_size (inventory r)) \<and>
    fst (BeginFile hs (entry_path entry) (entry_size entry) h) \<and> fst (BeginEntry es entry s)")
  case False
  then have "status \<noteq> ZipOk \<and> (s' = s \<or> BeginEntry es entry s = (False, s'))"
    using assms by (auto simp: StreamFile_def begin_hash_def split: if_split_asm option.split_asm prod.split_asm bool.split_asm)
  then show ?thesis by (auto simp: abandoned_def)
next
  case True
  then obtain h1 s1 where b: "BeginFile hs (entry_path entry) (entry_size entry) h = (True, h1)"
      "BeginEntry es entry s = (True, s1)" by (metis fst_conv surj_pair)
  let ?st0 = "\<lparr>hash_state = h1, sink_state = s1, stream_crc = 0xffffffff, produced = 0\<rparr>"
  obtain result st where p: "stream_payload (reader_source r) inflate d (Some hs) (Some es) progress entry ?st0 = (result, st)"
    by fastforce
  obtain result2 h2 where fh: "finish_hash wanted (Some hs) (check_payload entry result st) (hash_state st) = (result2, h2)"
    by fastforce
  have fs: "finish_sink entry (Some es) result2 (sink_state st) = (status, s')"
    using assms True b p fh by (simp add: StreamFile_def begin_hash_def split: prod.split_asm)
  note out = stream_payload_outcome [OF p]
  show ?thesis
  proof (cases "result2 = ZipOk")
    case False
    then have "status \<noteq> ZipOk" "s' = AbortEntry es entry (sink_state st)" using fs by (auto simp: finish_sink_def)
    moreover have "sink_reached es s1 (sink_state st)" using out by (simp add: stopped_def)
    ultimately show ?thesis using b(2) by (auto simp: abandoned_def)
  next
    case ok: True
    from finish_hash_Ok [OF fh [unfolded ok]] obtain digest where
      c: "check_payload entry result st = ZipOk" and f: "FinishFile hs (hash_state st) = (Some digest, h2)"
        "case expected_sha256 wanted of None \<Rightarrow> True | Some sha \<Rightarrow> DigestEqual digest sha" by blast
    note c = c [unfolded check_payload_Ok]
    from out c obtain cs where fd: "fed (Some hs) (Some es) cs ?st0 st" by blast
    then have v: "verified entry wanted hs h cs" and w: "sink_writes es cs s1 = Some (sink_state st)"
      using c f b(1) by (auto simp: verified_def fed_def)
    obtain ok' s3 where ce: "CommitEntry es entry (sink_state st) = (ok', s3)" by fastforce
    show ?thesis
    proof (cases ok')
      case True
      then have "status = ZipOk" "s' = s3" using fs ok ce by (simp_all add: finish_sink_def)
      with v w b(2) ce True show ?thesis by (auto simp: extracted_def)
    next
      case False
      then have "status \<noteq> ZipOk" "s' = AbortEntry es entry s3" using fs ok ce by (auto simp: finish_sink_def)
      with v w b(2) ce False show ?thesis unfolding abandoned_def by auto
    qed
  qed
qed

lemma verify_files_Ok:
  "verify_files r previous files = ZipOk \<Longrightarrow> f \<in> set files \<Longrightarrow> expected_path f = Some path \<Longrightarrow>
   \<exists>e. find_entry r False path = Some e \<and> entry_size e = expected_size f \<and> compression e = expected_compression f"
  by (induction r previous files rule: verify_files.induct)
    (auto split: option.split_asm if_split_asm)

lemma FindExpectedFile_Some:
  "FindExpectedFile expected path = Some f \<Longrightarrow> f \<in> set (expected_files expected) \<and> expected_path f = Some path"
  by (auto simp: FindExpectedFile_def find_Some_iff)

lemma find_entry_Some: "find_entry r b path = Some e \<Longrightarrow> is_directory e = b \<and> entry_path e = path"
  by (auto simp: find_entry_def find_Some_iff)

lemma find_entry_clear [simp]: "find_entry (ClearValidatedContents r) b path = find_entry r b path"
  by (simp add: find_entry_def ClearValidatedContents_def)

text \<open>
  The member an extraction is about: the entry and the expected file of that name, of the same
  size.
\<close>

definition member_of :: "ZipReader \<Rightarrow> ZipExpectedInventory \<Rightarrow> byte list \<Rightarrow> ZipEntry \<Rightarrow> ZipExpectedFile \<Rightarrow> bool" where
  "member_of r expected path entry wanted \<longleftrightarrow>
     find_entry r False path = Some entry \<and> entry_path entry = path \<and> \<not> is_directory entry \<and>
     FindExpectedFile expected path = Some wanted \<and> entry_size entry = expected_size wanted"

lemma member_ofI:
  assumes "VerifyExpectedInventory r expected = ZipOk"
    and "find_entry r False path = Some entry" and "FindExpectedFile expected path = Some wanted"
  shows "member_of r expected path entry wanted"
proof -
  have v: "verify_files r [] (expected_files expected) = ZipOk"
    using assms(1) by (auto simp: VerifyExpectedInventory_def Let_def split: if_split_asm)
  from FindExpectedFile_Some [OF assms(3)] have w: "wanted \<in> set (expected_files expected)" "expected_path wanted = Some path"
    by auto
  from verify_files_Ok [OF v w] find_entry_Some [OF assms(2)] assms show ?thesis
    by (auto simp: member_of_def)
qed

lemma ExtractOne_outcome:
  assumes "ExtractOne r inflate d path expected es (Some hs) h s = (status, r', h', s')"
  shows "if status = ZipOk
    then \<exists>entry wanted h0. member_of r expected path entry wanted \<and> extracted entry wanted hs h0 es s s'
    else s' = s \<or> (\<exists>entry wanted h0. member_of r expected path entry wanted \<and> abandoned entry wanted hs h0 es s s')"
proof (cases "VerifyExpectedInventory r expected = ZipOk")
  case False
  with assms show ?thesis by (auto simp: ExtractOne_def)
next
  case ver: True
  define r1 where "r1 = (if ValidatedContentsMatch r expected then r else ClearValidatedContents r)"
  have find: "find_entry r1 False path = find_entry r False path" by (simp add: r1_def)
  note start = assms [unfolded ExtractOne_def Let_def r1_def [symmetric] find]
  show ?thesis
  proof (cases "find_entry r False path")
    case None
    with start ver show ?thesis by auto
  next
    case (Some entry)
    show ?thesis
    proof (cases "FindExpectedFile expected path")
      case None
      with start ver Some show ?thesis by auto
    next
      case (Some wanted)
      note m = member_ofI [OF ver \<open>find_entry r False path = Some entry\<close> Some]
      obtain status0 h0 where first: "(if ValidatedContentsMatch r expected then (ZipOk, h)
          else case StreamFile r1 inflate d entry (Some wanted) (Some hs) (None :: 'b ZipExtractSink option) None h s of
            (status, h, _) \<Rightarrow> (status, h)) = (status0, h0)" by (metis prod.exhaust)
      show ?thesis
      proof (cases "status0 = ZipOk")
        case False
        with start ver \<open>find_entry r False path = Some entry\<close> Some first show ?thesis
          by (auto split: if_split_asm)
      next
        case ok: True
        obtain status1 h1 s1 where sf: "StreamFile r1 inflate d entry (Some wanted) (Some hs) (Some es) None h0 s = (status1, h1, s1)"
          by (metis prod.exhaust)
        have "status = status1 \<and> s' = s1"
          using start ver \<open>find_entry r False path = Some entry\<close> Some first ok sf by (simp split: if_split_asm)
        with StreamFile_outcome [OF sf] m show ?thesis by (auto split: if_split_asm)
      qed
    qed
  qed
qed

lemma ExtractOne_reader:
  assumes "ExtractOne r inflate d path expected es hs h s = (status, r', h', s')"
  shows "r' = r \<or> r' = ClearValidatedContents r"
proof -
  have "ClearValidatedContents (ClearValidatedContents r) = ClearValidatedContents r"
    by (simp add: ClearValidatedContents_def)
  with assms show ?thesis
    by (auto simp: ExtractOne_def Let_def split: if_split_asm option.split_asm prod.split_asm)
qed

end
