(* ===== verification/Update_Volume.thy ===== *)
theory Update_Volume
  imports Bmx_Prelude
begin

text \<open>
  The file system interface of the updater, \<open>src/src/update/update_filesystem.h\<close>.  The abstract
  class is a record of operations over a volume state of any type; an operation returns false
  (or \<open>None\<close>) where the method of the source does.  A file handle is named by the path it was
  opened or created with, since no client holds two handles on one path.

  The locale \<open>update_volume\<close> states what the header documents of an implementation, as laws on
  two observations of the volume: what is at a path, and whether no file is open for writing.  Names are compared without case, as FAT
  does.  Every operation may fail at any time; the laws say which paths a failed operation
  may have damaged, so that a theorem proved from them covers a volume which fails in the
  middle of the work or stops working altogether.
\<close>

type_synonym path = "byte list"

datatype UpdateNodeType = NodeMissing | NodeRegularFile | NodeDirectory | NodeOther

record UpdateFileStat =
  stat_type :: UpdateNodeType
  stat_size :: u64

record 'v UpdateFileSystem =
  Stat :: "path \<Rightarrow> 'v \<Rightarrow> UpdateFileStat option \<times> 'v"
  OpenRead :: "path \<Rightarrow> 'v \<Rightarrow> bool \<times> 'v"
  FileGetSize :: "path \<Rightarrow> 'v \<Rightarrow> u64 option \<times> 'v"
  FileReadAt :: "path \<Rightarrow> u64 \<Rightarrow> nat \<Rightarrow> 'v \<Rightarrow> byte list option \<times> 'v"
  FileCloseRead :: "path \<Rightarrow> 'v \<Rightarrow> bool \<times> 'v"
  CreateFileFresh :: "path \<Rightarrow> 'v \<Rightarrow> bool \<times> 'v"
  FileWrite :: "path \<Rightarrow> byte list \<Rightarrow> 'v \<Rightarrow> bool \<times> 'v"
  FileSync :: "path \<Rightarrow> 'v \<Rightarrow> bool \<times> 'v"
  FileClose :: "path \<Rightarrow> 'v \<Rightarrow> bool \<times> 'v"
  CreateDirectory :: "path \<Rightarrow> 'v \<Rightarrow> bool \<times> 'v"
  RemoveFile :: "path \<Rightarrow> 'v \<Rightarrow> bool \<times> 'v"
  Rename :: "path \<Rightarrow> path \<Rightarrow> bool \<Rightarrow> 'v \<Rightarrow> bool \<times> 'v"
  SyncContainingDirectory :: "path \<Rightarrow> 'v \<Rightarrow> bool \<times> 'v"
  GetFreeSpace :: "'v \<Rightarrow> u64 option \<times> 'v"
  GetVolumeSize :: "'v \<Rightarrow> u64 option \<times> 'v"

section \<open>Names without case\<close>

text \<open>The comparison of two source files, \<open>FatPathEqual\<close> and \<open>SameFatPath\<close>.\<close>

fun FatPathEqual :: "path \<Rightarrow> path \<Rightarrow> bool" where
  "FatPathEqual [] [] = True"
| "FatPathEqual (a # as) (b # bs) = (if AsciiLower a \<noteq> AsciiLower b then False else FatPathEqual as bs)"
| "FatPathEqual _ _ = False"

definition fat_key :: "path \<Rightarrow> path" where
  "fat_key p = map AsciiLower p"

lemma FatPathEqual_key: "FatPathEqual p q \<longleftrightarrow> fat_key p = fat_key q"
  by (induction p q rule: FatPathEqual.induct) (auto simp: fat_key_def)

section \<open>The contract\<close>

text \<open>
  What is at a path: \<open>Writing c\<close> is a file whose fresh handle is still open, with the bytes
  given to it so far.
\<close>

datatype node = Absent | File "byte list" | Writing "byte list" | Folder | Special

definition quiet :: "(path \<Rightarrow> node) \<Rightarrow> bool" where
  "quiet at \<longleftrightarrow> (\<forall>p c. at p \<noteq> Writing c)"

definition stat_matches :: "UpdateFileStat \<Rightarrow> node \<Rightarrow> bool" where
  "stat_matches st n =
     (case n of
        Absent \<Rightarrow> stat_type st = NodeMissing
      | File c \<Rightarrow> stat_type st = NodeRegularFile \<and> unat (stat_size st) = length c
      | Writing c \<Rightarrow> stat_type st = NodeRegularFile
      | Folder \<Rightarrow> stat_type st = NodeDirectory
      | Special \<Rightarrow> stat_type st = NodeOther)"

locale update_volume =
  fixes fs :: "'v UpdateFileSystem"
    and node :: "'v \<Rightarrow> path \<Rightarrow> node"
    and idle :: "'v \<Rightarrow> bool"
  assumes node_key: "fat_key p = fat_key q \<Longrightarrow> node v p = node v q"
    and Stat_node: "Stat fs p v = (r, v') \<Longrightarrow> node v' = node v"
    and Stat_matches: "Stat fs p v = (Some st, v') \<Longrightarrow> stat_matches st (node v p)"
    and OpenRead_node: "OpenRead fs p v = (ok, v') \<Longrightarrow> node v' = node v"
    and FileGetSize_node: "FileGetSize fs p v = (rz, v') \<Longrightarrow> node v' = node v"
    and FileReadAt_node: "FileReadAt fs p offset n v = (rb, v') \<Longrightarrow> node v' = node v"
    and FileReadAt_bytes: "FileReadAt fs p offset n v = (Some bs, v') \<Longrightarrow> 0 < n \<Longrightarrow>
      \<exists>c. node v p = File c \<and> unat offset + n \<le> length c \<and> bs = take n (drop (unat offset) c)"
    and FileCloseRead_node: "FileCloseRead fs p v = (ok, v') \<Longrightarrow> node v' = node v"
    and CreateFileFresh_other:
      "CreateFileFresh fs p v = (ok, v') \<Longrightarrow> fat_key q \<noteq> fat_key p \<Longrightarrow> node v' q = node v q"
    and CreateFileFresh_done: "CreateFileFresh fs p v = (True, v') \<Longrightarrow> node v' p = Writing []"
    and FileWrite_other:
      "FileWrite fs p bs v = (ok, v') \<Longrightarrow> fat_key q \<noteq> fat_key p \<Longrightarrow> node v' q = node v q"
    and FileWrite_done: "FileWrite fs p bs v = (True, v') \<Longrightarrow> node v p = Writing c \<Longrightarrow>
      node v' p = Writing (c @ bs)"
    and FileSync_other:
      "FileSync fs p v = (ok, v') \<Longrightarrow> fat_key q \<noteq> fat_key p \<Longrightarrow> node v' q = node v q"
    and FileSync_done: "FileSync fs p v = (True, v') \<Longrightarrow> node v p = Writing c \<Longrightarrow> node v' p = Writing c"
    and FileClose_other:
      "FileClose fs p v = (ok, v') \<Longrightarrow> fat_key q \<noteq> fat_key p \<Longrightarrow> node v' q = node v q"
    and FileClose_done: "FileClose fs p v = (True, v') \<Longrightarrow> node v p = Writing c \<Longrightarrow> node v' p = File c \<and> idle v'"
    and CreateDirectory_other:
      "CreateDirectory fs p v = (ok, v') \<Longrightarrow> fat_key q \<noteq> fat_key p \<Longrightarrow> node v' q = node v q"
    and CreateDirectory_keeps: "CreateDirectory fs p v = (ok, v') \<Longrightarrow> node v p \<noteq> Absent \<Longrightarrow> node v' p = node v p"
    and CreateDirectory_node: "CreateDirectory fs p v = (ok, v') \<Longrightarrow> node v' p \<noteq> Folder \<Longrightarrow> node v' p = node v p"
    and RemoveFile_other:
      "RemoveFile fs p v = (ok, v') \<Longrightarrow> fat_key q \<noteq> fat_key p \<Longrightarrow> node v' q = node v q"
    and RemoveFile_done: "RemoveFile fs p v = (True, v') \<Longrightarrow> node v' p = Absent"
    and RemoveFile_failed: "RemoveFile fs p v = (False, v') \<Longrightarrow> node v' p = node v p \<or> node v' p = Absent"
    and Rename_other: "Rename fs p q True v = (ok, v') \<Longrightarrow> fat_key x \<noteq> fat_key p \<Longrightarrow> fat_key x \<noteq> fat_key q \<Longrightarrow>
      node v' x = node v x"
    and Rename_done: "Rename fs p q True v = (True, v') \<Longrightarrow> idle v \<Longrightarrow> node v p = File c \<Longrightarrow> node v' q = File c"
    and Rename_failed: "Rename fs p q True v = (False, v') \<Longrightarrow> idle v \<Longrightarrow> node v p = File c \<Longrightarrow>
      node v' q = node v q \<or> node v' q = Absent \<or> node v' q = File c"
    and SyncContainingDirectory_node: "SyncContainingDirectory fs p v = (ok, v') \<Longrightarrow> node v' = node v"
    and GetFreeSpace_node: "GetFreeSpace fs v = (rz, v') \<Longrightarrow> node v' = node v"
    and GetVolumeSize_node: "GetVolumeSize fs v = (rz, v') \<Longrightarrow> node v' = node v"
begin

text \<open>
  \<open>only ks v v'\<close>: from \<open>v\<close> to \<open>v'\<close> nothing changed outside the names \<open>ks\<close> (folded).
\<close>

definition only :: "path set \<Rightarrow> 'v \<Rightarrow> 'v \<Rightarrow> bool" where
  "only ks v v' \<longleftrightarrow> (\<forall>q. fat_key q \<notin> ks \<longrightarrow> node v' q = node v q)"

lemma onlyD: "only ks v v' \<Longrightarrow> fat_key q \<notin> ks \<Longrightarrow> node v' q = node v q"
  by (simp add: only_def)

lemma only_trans: "only ks v v' \<Longrightarrow> only ls v' v'' \<Longrightarrow> only (ks \<union> ls) v v''"
  by (simp add: only_def)

lemma only_same: "node v' = node v \<Longrightarrow> only ks v v'"
  by (simp add: only_def)

lemma only_mono: "only ks v v' \<Longrightarrow> ks \<subseteq> ls \<Longrightarrow> only ls v v'"
  by (auto simp: only_def)

lemmas read_laws = Stat_node OpenRead_node FileGetSize_node FileReadAt_node FileCloseRead_node
  SyncContainingDirectory_node GetFreeSpace_node GetVolumeSize_node

lemma change_laws:
  "CreateFileFresh fs p v = (ok, v') \<Longrightarrow> only {fat_key p} v v'"
  "FileWrite fs p bs v = (ok, v') \<Longrightarrow> only {fat_key p} v v'"
  "FileSync fs p v = (ok, v') \<Longrightarrow> only {fat_key p} v v'"
  "FileClose fs p v = (ok, v') \<Longrightarrow> only {fat_key p} v v'"
  "CreateDirectory fs p v = (ok, v') \<Longrightarrow> only {fat_key p} v v'"
  "RemoveFile fs p v = (ok, v') \<Longrightarrow> only {fat_key p} v v'"
  "Rename fs p q True v = (ok, v') \<Longrightarrow> only {fat_key p, fat_key q} v v'"
  by (auto simp: only_def CreateFileFresh_other FileWrite_other FileSync_other FileClose_other
      CreateDirectory_other RemoveFile_other Rename_other)

end

end
