(* ===== verification/Zip_Open.thy ===== *)
theory Zip_Open
  imports Zip_Stream Fat_Path Update_Volume
begin

text \<open>
  Opening an archive, the first half of \<open>src/src/update/zip_reader.cpp\<close>: the search for the end
  record, the central directory, the local headers, and the limits.  The archive is only read;
  what \<open>Open\<close> returns is a status and the reader with its table of entries.

  The model keeps every leniency flag of the class.  Where an archive is refused, the contents of
  the table the caller lent are not part of the result (the reader forgets the table then).
\<close>

section \<open>Constants and words\<close>

definition kEndSignature :: u32 where "kEndSignature = 0x06054b50"
definition kCentralSignature :: u32 where "kCentralSignature = 0x02014b50"
definition kLocalSignature :: u32 where "kLocalSignature = 0x04034b50"
definition kDescriptorSignature :: u32 where "kDescriptorSignature = 0x08074b50"
definition kUtf8Flag :: u16 where "kUtf8Flag = push_bit 11 1"
definition kLenientFlagMask :: u16 where "kLenientFlagMask = push_bit 1 1 OR push_bit 2 1 OR push_bit 3 1"
definition kEndRecordSize :: nat where "kEndRecordSize = 22"
definition kCentralHeaderSize :: nat where "kCentralHeaderSize = 46"
definition kLocalHeaderSize :: nat where "kLocalHeaderSize = 30"
definition kZipMaximumEntries :: nat where "kZipMaximumEntries = 32768"
definition kZipMaximumPathBytes :: nat where "kZipMaximumPathBytes = 240"

lemmas zip_sizes = kEndRecordSize_def kCentralHeaderSize_def kLocalHeaderSize_def kZipMaximumEntries_def
  kZipMaximumPathBytes_def

definition ReadU16 :: "byte list \<Rightarrow> nat \<Rightarrow> u16" where
  "ReadU16 bytes at = ucast (bytes ! at) OR push_bit 8 (ucast (bytes ! (at + 1)))"

definition ReadU32 :: "byte list \<Rightarrow> nat \<Rightarrow> u32" where
  "ReadU32 bytes at =
     ucast (bytes ! at) OR push_bit 8 (ucast (bytes ! (at + 1))) OR push_bit 16 (ucast (bytes ! (at + 2))) OR
     push_bit 24 (ucast (bytes ! (at + 3)))"

definition CheckedAdd :: "u64 \<Rightarrow> u64 \<Rightarrow> u64 option" where
  "CheckedAdd left right = (if left > - 1 - right then None else Some (left + right))"

definition RangeWithin :: "u64 \<Rightarrow> u64 \<Rightarrow> u64 \<Rightarrow> bool" where
  "RangeWithin offset extent boundary =
     (case CheckedAdd offset extent of None \<Rightarrow> False | Some end \<Rightarrow> end \<le> boundary)"

section \<open>Names\<close>

fun FatEqual :: "path \<Rightarrow> path \<Rightarrow> bool" where
  "FatEqual [] [] = True"
| "FatEqual (l # ls) (r # rs) = (if AsciiLower l \<noteq> AsciiLower r then False else FatEqual ls rs)"
| "FatEqual _ _ = False"

fun FatPrefixDirectory :: "path \<Rightarrow> path \<Rightarrow> bool" where
  "FatPrefixDirectory [] child = (child \<noteq> [] \<and> hd child = slash)"
| "FatPrefixDirectory (p # ps) [] = False"
| "FatPrefixDirectory (p # ps) (c # cs) = (if AsciiLower p \<noteq> AsciiLower c then False else FatPrefixDirectory ps cs)"

text \<open>The lead byte of a UTF-8 sequence: the bits it gives, and how many bytes follow.\<close>

definition utf8_lead :: "byte \<Rightarrow> (u32 \<times> nat) option" where
  "utf8_lead first =
     (if 0xc2 \<le> first \<and> first \<le> 0xdf then Some (ucast (first AND 0x1f), 1)
      else if 0xe0 \<le> first \<and> first \<le> 0xef then Some (ucast (first AND 0x0f), 2)
      else if 0xf0 \<le> first \<and> first \<le> 0xf4 then Some (ucast (first AND 0x07), 3)
      else None)"

primrec utf8_rest :: "u32 \<Rightarrow> byte list \<Rightarrow> u32 option" where
  "utf8_rest code_point [] = Some code_point"
| "utf8_rest code_point (next # bytes) =
     (if next AND 0xc0 \<noteq> 0x80 then None
      else utf8_rest (push_bit 6 code_point OR ucast (next AND 0x3f)) bytes)"

definition utf8_forbidden :: "nat \<Rightarrow> u32 \<Rightarrow> bool" where
  "utf8_forbidden continuation_count code_point \<longleftrightarrow>
     (continuation_count = 1 \<and> code_point < 0x80) \<or>
     (continuation_count = 2 \<and> code_point < 0x800) \<or>
     (continuation_count = 3 \<and> code_point < 0x10000) \<or>
     (code_point \<ge> 0xd800 \<and> code_point \<le> 0xdfff) \<or> code_point > 0x10ffff"

function IsValidUtf8 :: "byte list \<Rightarrow> bool" where
  "IsValidUtf8 [] = True"
| "IsValidUtf8 (first # bytes) =
     (if first < 0x80 then IsValidUtf8 bytes
      else case utf8_lead first of
        None \<Rightarrow> False
      | Some (bits, continuation_count) \<Rightarrow>
          if continuation_count > length bytes then False
          else (case utf8_rest bits (take continuation_count bytes) of
              None \<Rightarrow> False
            | Some code_point \<Rightarrow>
                if utf8_forbidden continuation_count code_point then False
                else IsValidUtf8 (drop continuation_count bytes)))"
  by pat_completeness auto
termination
  by (relation "measure length") auto

definition ValidateAndCopyPath :: "byte list \<Rightarrow> u16 \<Rightarrow> bool \<Rightarrow> nat \<Rightarrow> ZipStatus + path" where
  "ValidateAndCopyPath raw flags directory maximum_path_bytes =
     (if raw = [] then Inl ZipPathInvalid
      else if list_ex (\<lambda>b. b = 0) raw then Inl ZipPathInvalid
      else if list_ex (\<lambda>b. b \<ge> 0x80) raw
      then Inl (if flags AND kUtf8Flag = 0 \<or> \<not> IsValidUtf8 raw then ZipPathEncodingInvalid
                else ZipNonAsciiPathUnsupported)
      else let trailing_slash = (raw ! (length raw - 1) = slash) in
        if trailing_slash \<noteq> directory then Inl ZipDirectoryMetadataInvalid
        else let normalized_size = (if trailing_slash then length raw - 1 else length raw);
                 path_status = ValidateFatRelativePathBytes (Some (take normalized_size raw)) maximum_path_bytes in
          if path_status = FatPathTooLong then Inl ZipPathTooLong
          else if path_status \<noteq> FatOk then Inl ZipPathInvalid
          else Inr (take normalized_size raw))"

definition IsDirectoryMetadata :: "byte \<Rightarrow> u32 \<Rightarrow> bool \<Rightarrow> ZipStatus" where
  "IsDirectoryMetadata creator external name_is_directory =
     (let unix_type = (ucast (drop_bit 16 external) :: u16) AND 0xf000 in
      if creator = 3 \<and> unix_type = 0xa000 then ZipSpecialFileForbidden
      else if creator = 3 \<and> unix_type \<noteq> 0 \<and> unix_type \<noteq> 0x8000 \<and> unix_type \<noteq> 0x4000
      then ZipSpecialFileForbidden
      else let by_unix_mode = (creator = 3 \<and> unix_type = 0x4000);
               by_dos_attribute = (external AND 0x10 \<noteq> 0) in
        if (by_unix_mode \<or> by_dos_attribute) \<noteq> name_is_directory then ZipDirectoryMetadataInvalid else ZipOk)"

text \<open>The copy of an offending name that is kept for a message.\<close>

definition NoteFailurePath :: "byte list \<Rightarrow> byte list" where
  "NoteFailurePath raw = map (\<lambda>c. if c \<ge> 0x20 \<and> c < 0x7f then c else ch CHR ''?'') (take 255 raw)"

text \<open>
  The repair of names made under Windows: one component after the other, with the bytes written
  so far and the size of the buffer.
\<close>

definition separator :: "byte \<Rightarrow> bool" where
  "separator c \<longleftrightarrow> c = slash \<or> c = ch CHR 0x5C"

definition trim_component :: "byte list \<Rightarrow> byte list" where
  "trim_component component =
     rev (dropWhile (\<lambda>c. c = ch CHR '' '' \<or> c = ch CHR ''.'') (rev (dropWhile (\<lambda>c. c = ch CHR '' '') component)))"

function lenient_components :: "nat \<Rightarrow> byte list \<Rightarrow> byte list \<Rightarrow> byte list option" where
  "lenient_components dstsz written raw =
     (if raw = [] then Some written
      else let component = trim_component (takeWhile (\<lambda>c. \<not> separator c) raw) in
        if component = [] then None
        else if written \<noteq> [] \<and> length written + 1 \<ge> dstsz then None
        else let written = (if written \<noteq> [] then written @ [slash] else written) in
          if length written + length component \<ge> dstsz then None
          else lenient_components dstsz (written @ component)
                 (dropWhile separator (dropWhile (\<lambda>c. \<not> separator c) raw)))"
  by pat_completeness auto

lemma dropWhile_separators_less:
  assumes "raw \<noteq> []"
    and "trim_component (takeWhile (\<lambda>c. \<not> separator c) raw) \<noteq> []"
  shows "length (dropWhile separator (dropWhile (\<lambda>c. \<not> separator c) raw)) < length raw"
proof -
  have "takeWhile (\<lambda>c. \<not> separator c) raw \<noteq> []" using assms(2) by (auto simp: trim_component_def)
  then have "length (dropWhile (\<lambda>c. \<not> separator c) raw) < length raw"
    by (metis length_append length_greater_0_conv less_add_same_cancel2 takeWhile_dropWhile_id)
  then show ?thesis using length_dropWhile_le [of separator "dropWhile (\<lambda>c. \<not> separator c) raw"] by linarith
qed

termination lenient_components
  by (relation "measure (\<lambda>(dstsz, written, raw). length raw)") (simp_all add: dropWhile_separators_less)

declare lenient_components.simps [simp del]

definition NormalizeLenientPath :: "nat \<Rightarrow> byte list \<Rightarrow> (byte list \<times> bool) option" where
  "NormalizeLenientPath dstsz raw =
     (if dstsz = 0 \<or> raw = [] then None
      else let trailing_slash = separator (raw ! (length raw - 1)) in
        case lenient_components dstsz [] (dropWhile separator raw) of
          None \<Rightarrow> None
        | Some written \<Rightarrow>
            if written = [] then None
            else if trailing_slash then
              (if length written + 1 \<ge> dstsz then None else Some (written @ [slash], True))
            else Some (written, False))"

section \<open>Searching the archive\<close>

text \<open>
  Both searches read pieces of 4096 bytes and keep the last three bytes before a piece, so that
  a signature across two pieces is found.  \<open>None\<close> is a read that failed.
\<close>

definition kSearchChunk :: nat where "kSearchChunk = 4096"

definition signature_hits :: "byte list \<Rightarrow> byte list \<Rightarrow> nat list" where
  "signature_hits signature buffer =
     filter (\<lambda>index. take 4 (drop index buffer) = signature) [0..<length buffer - 3]"

definition search_amount :: "u64 \<Rightarrow> u64 \<Rightarrow> nat" where
  "search_amount offset end = (if end - offset < of_nat kSearchChunk then unat (end - offset) else kSearchChunk)"

definition search_prefix :: "byte list \<Rightarrow> byte list" where
  "search_prefix buffer = drop (length buffer - (if length buffer < 3 then length buffer else 3)) buffer"

lemma search_amount_progress:
  assumes "offset < end"
  shows "unat (end - (offset + of_nat (search_amount offset end))) < unat (end - offset)"
    and "0 < search_amount offset end" and "search_amount offset end \<le> unat (end - offset)"
    and "unat (offset + of_nat (search_amount offset end)) = unat offset + search_amount offset end"
    and "unat offset + search_amount offset end \<le> unat end"
proof -
  have d: "unat (end - offset) = unat end - unat offset" using assms by (simp add: unat_sub less_imp_le)
  have lt: "unat offset < unat end" using assms by (simp add: word_less_nat_alt)
  have k: "unat (of_nat kSearchChunk :: u64) = kSearchChunk" by (simp add: kSearchChunk_def)
  show a: "0 < search_amount offset end" and b: "search_amount offset end \<le> unat (end - offset)"
    using lt d k by (auto simp: search_amount_def word_less_nat_alt kSearchChunk_def)
  show c: "unat offset + search_amount offset end \<le> unat end" using b d lt by linarith
  have "unat end < 2 ^ 64" by (rule u64_less)
  with c have s: "unat offset + search_amount offset end < 2 ^ 64" by linarith
  then have n: "unat (of_nat (search_amount offset end) :: u64) = search_amount offset end"
    by (intro unat_of_nat_small) simp
  show e: "unat (offset + of_nat (search_amount offset end)) = unat offset + search_amount offset end"
    using s n by (simp add: unat_word_ariths)
  then have "unat (end - (offset + of_nat (search_amount offset end))) =
      unat end - (unat offset + search_amount offset end)"
    using c by (simp add: unat_sub word_le_nat_alt)
  then show "unat (end - (offset + of_nat (search_amount offset end))) < unat (end - offset)"
    using a lt d by linarith
qed

function contains_loop ::
  "SeekableZipSource \<Rightarrow> u64 \<Rightarrow> byte list \<Rightarrow> byte list \<Rightarrow> u64 \<Rightarrow> bool option" where
  "contains_loop source end signature prefix offset =
     (if \<not> offset < end then Some False
      else case source_read source offset (search_amount offset end) of
        None \<Rightarrow> None
      | Some bytes \<Rightarrow>
          let buffer = prefix @ bytes in
          if signature_hits signature buffer \<noteq> [] then Some True
          else contains_loop source end signature (search_prefix buffer)
                 (offset + of_nat (search_amount offset end)))"
  by pat_completeness auto
termination contains_loop
  by (relation "measure (\<lambda>(source, end, signature, prefix, offset). unat (end - offset))")
    (simp_all add: search_amount_progress)

declare contains_loop.simps [simp del]

definition ContainsSignature :: "SeekableZipSource \<Rightarrow> u64 \<Rightarrow> u64 \<Rightarrow> byte list \<Rightarrow> bool option" where
  "ContainsSignature source begin end signature =
     (if begin > end then None else contains_loop source end signature [] begin)"

function last_loop ::
  "SeekableZipSource \<Rightarrow> u64 \<Rightarrow> byte list \<Rightarrow> u64 option \<Rightarrow> byte list \<Rightarrow> u64 \<Rightarrow> u64 option option" where
  "last_loop source end signature found prefix offset =
     (if \<not> offset < end then Some found
      else case source_read source offset (search_amount offset end) of
        None \<Rightarrow> None
      | Some bytes \<Rightarrow>
          let buffer = prefix @ bytes; hits = signature_hits signature buffer in
          last_loop source end signature
            (if hits = [] then found else Some (offset - of_nat (length prefix) + of_nat (last hits)))
            (search_prefix buffer) (offset + of_nat (search_amount offset end)))"
  by pat_completeness auto
termination last_loop
  by (relation "measure (\<lambda>(source, end, signature, found, prefix, offset). unat (end - offset))")
    (simp_all add: search_amount_progress)

declare last_loop.simps [simp del]

text \<open>\<open>Some None\<close> is a search that found nothing.\<close>

definition FindLastSignature :: "SeekableZipSource \<Rightarrow> u64 \<Rightarrow> u64 \<Rightarrow> byte list \<Rightarrow> u64 option option" where
  "FindLastSignature source begin end signature =
     (if begin > end then None else last_loop source end signature None [] begin)"

section \<open>The reader\<close>

record ZipLimits =
  maximum_archive_bytes :: u64
  maximum_entries :: nat
  maximum_path_bytes :: nat
  maximum_file_bytes :: u64
  maximum_installed_bytes :: u64
  maximum_compression_ratio :: u32

definition default_limits :: ZipLimits where
  "default_limits =
     \<lparr>maximum_archive_bytes = 512 * 1024 * 1024, maximum_entries = kZipMaximumEntries,
      maximum_path_bytes = kZipMaximumPathBytes, maximum_file_bytes = 128 * 1024 * 1024,
      maximum_installed_bytes = 512 * 1024 * 1024, maximum_compression_ratio = 200\<rparr>"

text \<open>The members of the class that \<open>Zip_Stream\<close> does not use.\<close>

record ArchiveReader = ZipReader +
  limits :: ZipLimits
  lenient_extra_fields :: bool
  lenient_paths :: bool
  lenient_archive :: bool
  lenient_ratio :: bool
  first_failure_path :: "byte list"

definition no_source :: SeekableZipSource where
  "no_source = \<lparr>GetSize = None, ReadAt = (\<lambda>offset n. None)\<rparr>"

definition no_inventory :: ZipInventory where
  "no_inventory =
     \<lparr>file_count = 0, directory_count = 0, archive_size = 0, installed_size = 0,
      central_directory_offset = 0, central_directory_size = 0\<rparr>"

definition new_ZipReader :: ArchiveReader where
  "new_ZipReader =
     \<lparr>reader_source = no_source, entries = [], inventory = no_inventory, workspace = False, reader_open = False,
      validated_inventory_binding = replicate 32 0, validated_contents = False, limits = default_limits,
      lenient_extra_fields = False, lenient_paths = False, lenient_archive = False, lenient_ratio = False,
      first_failure_path = []\<rparr>"

definition SetLenientExtraFields :: "bool \<Rightarrow> ArchiveReader \<Rightarrow> ArchiveReader" where
  "SetLenientExtraFields lenient r = r\<lparr>lenient_extra_fields := lenient\<rparr>"

definition SetLenientPaths :: "bool \<Rightarrow> ArchiveReader \<Rightarrow> ArchiveReader" where
  "SetLenientPaths lenient r = r\<lparr>lenient_paths := lenient\<rparr>"

definition SetLenientArchive :: "bool \<Rightarrow> ArchiveReader \<Rightarrow> ArchiveReader" where
  "SetLenientArchive lenient r = r\<lparr>lenient_archive := lenient\<rparr>"

definition SetLenientRatio :: "bool \<Rightarrow> ArchiveReader \<Rightarrow> ArchiveReader" where
  "SetLenientRatio lenient r = r\<lparr>lenient_ratio := lenient\<rparr>"

definition SetWorkspace :: "bool \<Rightarrow> ArchiveReader \<Rightarrow> ArchiveReader" where
  "SetWorkspace have_workspace r = r\<lparr>workspace := have_workspace\<rparr>"

section \<open>The end record\<close>

record EndRecord =
  end_archive_size :: u64
  end_offset :: u64
  end_entry_count :: nat
  end_central_offset :: u64
  end_central_size :: u64

definition end_signature :: "byte list" where "end_signature = [0x50, 0x4b, 0x05, 0x06]"
definition zip64_end_signature :: "byte list" where "zip64_end_signature = [0x50, 0x4b, 0x06, 0x06]"
definition zip64_locator_signature :: "byte list" where "zip64_locator_signature = [0x50, 0x4b, 0x06, 0x07]"

definition limits_valid :: "ZipLimits \<Rightarrow> bool" where
  "limits_valid l \<longleftrightarrow>
     \<not> (maximum_entries l = 0 \<or> maximum_entries l > kZipMaximumEntries \<or> maximum_path_bytes l = 0 \<or>
        maximum_path_bytes l > kZipMaximumPathBytes \<or> maximum_archive_bytes l < of_nat kEndRecordSize \<or>
        maximum_file_bytes l = 0 \<or> maximum_installed_bytes l = 0 \<or> maximum_compression_ratio l = 0)"

definition parse_end_record ::
  "ZipLimits \<Rightarrow> bool \<Rightarrow> nat \<Rightarrow> u64 \<Rightarrow> u64 \<Rightarrow> byte list \<Rightarrow> ZipStatus + EndRecord" where
  "parse_end_record l lenient entry_capacity archive_bytes offset end_record =
     (if ReadU32 end_record 0 \<noteq> kEndSignature then Inl ZipEndRecordInvalid
      else let disk_number = ReadU16 end_record 4; central_disk = ReadU16 end_record 6;
               entries_on_disk = ReadU16 end_record 8; entry_count = ReadU16 end_record 10;
               central_size = ReadU32 end_record 12; central_offset = ReadU32 end_record 16;
               comment_length = ReadU16 end_record 20;
               archive_end = Option.bind (CheckedAdd offset (of_nat kEndRecordSize)) (\<lambda>e. CheckedAdd e (ucast comment_length)) in
        if archive_end \<noteq> Some archive_bytes then Inl ZipEndRecordInvalid
        else if comment_length \<noteq> 0 \<and> \<not> lenient then Inl ZipArchiveCommentForbidden
        else if disk_number \<noteq> 0 \<or> central_disk \<noteq> 0 \<or> entries_on_disk \<noteq> entry_count then Inl ZipMultiDiskForbidden
        else if entry_count = 0 \<or> entry_count = - 1 \<or> unat entry_count > maximum_entries l
        then Inl ZipEntryCountInvalid
        else if central_size = - 1 \<or> central_offset = - 1 then Inl Zip64Forbidden
        else if unat entry_count > entry_capacity then Inl ZipStorageTooSmall
        else if CheckedAdd (ucast central_offset) (ucast central_size) \<noteq> Some offset
        then Inl ZipCentralDirectoryInvalid
        else Inr \<lparr>end_archive_size = archive_bytes, end_offset = offset, end_entry_count = unat entry_count,
                  end_central_offset = ucast central_offset, end_central_size = ucast central_size\<rparr>)"

definition find_end_record ::
  "SeekableZipSource \<Rightarrow> ZipLimits \<Rightarrow> bool \<Rightarrow> nat \<Rightarrow> ZipStatus + EndRecord" where
  "find_end_record source l lenient entry_capacity =
     (case GetSize source of
        None \<Rightarrow> Inl ZipSourceIo
      | Some archive_bytes \<Rightarrow>
          if archive_bytes < of_nat kEndRecordSize \<or> archive_bytes > maximum_archive_bytes l then Inl ZipArchiveSizeInvalid
          else let tail_begin = archive_bytes - (if archive_bytes < 65557 then archive_bytes else 65557) in
            case FindLastSignature source tail_begin archive_bytes end_signature of
              None \<Rightarrow> Inl ZipSourceIo
            | Some None \<Rightarrow> Inl ZipEndRecordInvalid
            | Some (Some offset) \<Rightarrow>
                if \<not> RangeWithin offset (of_nat kEndRecordSize) archive_bytes then Inl ZipEndRecordInvalid
                else case source_read source offset kEndRecordSize of
                  None \<Rightarrow> Inl ZipSourceIo
                | Some end_record \<Rightarrow>
                  (case parse_end_record l lenient entry_capacity archive_bytes offset end_record of
                     Inl status \<Rightarrow> Inl status
                   | Inr e \<Rightarrow>
                     (case ContainsSignature source tail_begin offset zip64_end_signature of
                        None \<Rightarrow> Inl ZipSourceIo
                      | Some True \<Rightarrow> Inl Zip64Forbidden
                      | Some False \<Rightarrow>
                        (case ContainsSignature source tail_begin offset zip64_locator_signature of
                           None \<Rightarrow> Inl ZipSourceIo
                         | Some True \<Rightarrow> Inl Zip64Forbidden
                         | Some False \<Rightarrow> Inr e))))"

section \<open>The central directory\<close>

text \<open>A refusal is a status and, where the code keeps the offending name, that name.\<close>

type_synonym refusal = "ZipStatus \<times> byte list option"

definition check_central_header :: "ArchiveReader \<Rightarrow> byte list \<Rightarrow> ZipStatus" where
  "check_central_header r header =
     (let flags = ReadU16 header 8; method = ReadU16 header 10;
          allowed = (if lenient_paths r then kUtf8Flag OR kLenientFlagMask else kUtf8Flag) in
      if ReadU32 header 0 \<noteq> kCentralSignature then ZipCentralDirectoryInvalid
      else if ReadU16 header 6 > 20 then ZipUnsupportedVersion
      else if flags AND NOT allowed \<noteq> 0 then ZipUnsupportedFlags
      else if method \<noteq> 0 \<and> method \<noteq> 8 then ZipUnsupportedCompression
      else if ReadU16 header 34 \<noteq> 0 then ZipMultiDiskForbidden
      else if ReadU32 header 20 = - 1 \<or> ReadU32 header 24 = - 1 \<or> ReadU32 header 42 = - 1 then Zip64Forbidden
      else if ReadU16 header 30 \<noteq> 0 \<and> \<not> lenient_extra_fields r then ZipExtraFieldForbidden
      else if ReadU16 header 32 \<noteq> 0 then ZipMemberCommentForbidden
      else if ReadU16 header 28 = 0 then ZipPathInvalid
      else ZipOk)"

definition noted :: "byte list \<Rightarrow> byte list option" where
  "noted raw = Some (NoteFailurePath (take 240 raw))"

definition central_path ::
  "ArchiveReader \<Rightarrow> ZipLimits \<Rightarrow> u16 \<Rightarrow> byte list \<Rightarrow> refusal + path \<times> bool" where
  "central_path r l flags raw =
     (case (if lenient_paths r \<and> length raw \<le> kZipMaximumPathBytes
            then map_option (\<lambda>(name, directory). (c_str name, directory)) (NormalizeLenientPath (kZipMaximumPathBytes + 1) raw)
            else Some (raw, raw ! (length raw - 1) = slash)) of
        None \<Rightarrow> Inl (ZipPathInvalid, noted raw)
      | Some (name, directory) \<Rightarrow>
          (case ValidateAndCopyPath name flags directory (maximum_path_bytes l) of
             Inl status \<Rightarrow> Inl (status, noted raw)
           | Inr path \<Rightarrow> Inr (path, directory)))"

definition check_duplicates :: "path \<Rightarrow> ZipEntry list \<Rightarrow> refusal option" where
  "check_duplicates path es =
     (case find (\<lambda>e. path = entry_path e \<or> FatEqual path (entry_path e)) es of
        None \<Rightarrow> None
      | Some e \<Rightarrow> Some (if path = entry_path e then ZipDuplicatePath else ZipFatCaseCollision,
                     Some (NoteFailurePath path)))"

definition check_entry_sizes :: "ArchiveReader \<Rightarrow> ZipLimits \<Rightarrow> ZipEntry \<Rightarrow> ZipStatus" where
  "check_entry_sizes r l e =
     (if is_directory e then
        (if compression e \<noteq> ZipStore \<or> compressed_size e \<noteq> 0 \<or> entry_size e \<noteq> 0 \<or> crc32 e \<noteq> 0
         then ZipDirectoryMetadataInvalid else ZipOk)
      else if entry_size e > maximum_file_bytes l \<or> (entry_size e \<noteq> 0 \<and> compressed_size e = 0)
      then ZipMemberSizeInvalid
      else let ratio_denominator = (if compressed_size e = 0 then 1 else compressed_size e) in
        if \<not> lenient_ratio r \<and>
           (entry_size e div ratio_denominator > ucast (maximum_compression_ratio l) \<or>
            (entry_size e div ratio_denominator = ucast (maximum_compression_ratio l) \<and>
             entry_size e mod ratio_denominator \<noteq> 0))
        then ZipCompressionRatioInvalid else ZipOk)"

definition central_entry :: "byte list \<Rightarrow> path \<Rightarrow> bool \<Rightarrow> ZipEntry" where
  "central_entry header path directory =
     \<lparr>entry_path = path, is_directory = directory,
      compression = (if ReadU16 header 10 = 0 then ZipStore else ZipDeflate),
      entry_flags = ReadU16 header 8, crc32 = ReadU32 header 16,
      compressed_size = ucast (ReadU32 header 20), entry_size = ucast (ReadU32 header 24),
      local_header_offset = ucast (ReadU32 header 42), data_offset = 0,
      external_attributes = ReadU32 header 38, creator_system = ucast (drop_bit 8 (ReadU16 header 4))\<rparr>"

record central_state =
  cursor :: u64
  scanned :: "ZipEntry list"
  scanned_files :: nat
  scanned_directories :: nat

definition record_size :: "byte list \<Rightarrow> u64 option" where
  "record_size header =
     Option.bind (CheckedAdd (of_nat kCentralHeaderSize) (ucast (ReadU16 header 28))) (\<lambda>n.
     Option.bind (CheckedAdd n (ucast (ReadU16 header 30))) (\<lambda>n. CheckedAdd n (ucast (ReadU16 header 32))))"

definition read_central_header ::
  "SeekableZipSource \<Rightarrow> ZipLimits \<Rightarrow> ArchiveReader \<Rightarrow> u64 \<Rightarrow> u64 \<Rightarrow> ZipStatus + byte list \<times> u64 \<times> byte list" where
  "read_central_header source l r central_end at =
     (if \<not> RangeWithin at (of_nat kCentralHeaderSize) central_end then Inl ZipCentralDirectoryInvalid
      else case source_read source at kCentralHeaderSize of
        None \<Rightarrow> Inl ZipSourceIo
      | Some header \<Rightarrow>
        let status = check_central_header r header; name_length = unat (ReadU16 header 28) in
        if status \<noteq> ZipOk then Inl status
        else case record_size header of
          None \<Rightarrow> Inl ZipCentralDirectoryInvalid
        | Some n \<Rightarrow>
          if \<not> RangeWithin at n central_end then Inl ZipCentralDirectoryInvalid
          else if name_length > maximum_path_bytes l + 1 \<or> name_length > kZipMaximumPathBytes + 1
          then Inl ZipPathTooLong
          else (case source_read source (at + of_nat kCentralHeaderSize) name_length of
              None \<Rightarrow> Inl ZipSourceIo
            | Some raw_name \<Rightarrow> Inr (header, n, raw_name)))"

definition central_step ::
  "SeekableZipSource \<Rightarrow> ZipLimits \<Rightarrow> ArchiveReader \<Rightarrow> u64 \<Rightarrow> central_state \<Rightarrow> refusal + central_state" where
  "central_step source l r central_end s =
     (case read_central_header source l r central_end (cursor s) of
        Inl status \<Rightarrow> Inl (status, None)
      | Inr (header, n, raw_name) \<Rightarrow>
        let name_is_directory = (raw_name ! (length raw_name - 1) = slash);
            metadata_status = IsDirectoryMetadata (ucast (drop_bit 8 (ReadU16 header 4))) (ReadU32 header 38) name_is_directory in
        if metadata_status \<noteq> ZipOk then Inl (metadata_status, None)
        else case central_path r l (ReadU16 header 8) raw_name of
          Inl refused \<Rightarrow> Inl refused
        | Inr (path, directory) \<Rightarrow>
          (case check_duplicates path (scanned s) of
             Some refused \<Rightarrow> Inl refused
           | None \<Rightarrow>
             let entry = central_entry header path directory; status = check_entry_sizes r l entry in
             if status \<noteq> ZipOk then Inl (status, None)
             else Inr \<lparr>cursor = cursor s + n, scanned = scanned s @ [entry],
                       scanned_files = (if directory then scanned_files s else scanned_files s + 1),
                       scanned_directories = (if directory then scanned_directories s + 1 else scanned_directories s)\<rparr>))"

text \<open>The loop, and the progress callback after each 256 entries.\<close>

primrec central_loop ::
  "SeekableZipSource \<Rightarrow> ZipLimits \<Rightarrow> ArchiveReader \<Rightarrow> (nat \<Rightarrow> nat \<Rightarrow> bool) option \<Rightarrow> nat \<Rightarrow> u64 \<Rightarrow> nat \<Rightarrow>
   central_state \<Rightarrow> refusal + central_state" where
  "central_loop source l r progress entry_count central_end 0 s = Inr s"
| "central_loop source l r progress entry_count central_end (Suc n) s =
     (case central_step source l r central_end s of
        Inl refused \<Rightarrow> Inl refused
      | Inr s' \<Rightarrow>
          if length (scanned s) mod 256 = 0 \<and>
             (case progress of None \<Rightarrow> False | Some report \<Rightarrow> \<not> report (length (scanned s)) entry_count)
          then Inl (ZipCancelled, None)
          else central_loop source l r progress entry_count central_end n s')"

definition file_used_as_directory :: "ZipEntry list \<Rightarrow> bool" where
  "file_used_as_directory es =
     list_ex (\<lambda>index. \<not> is_directory (es ! index) \<and>
         list_ex (\<lambda>child. index \<noteq> child \<and> FatPrefixDirectory (entry_path (es ! index)) (entry_path (es ! child)))
           [0..<length es]) [0..<length es]"

section \<open>The local headers\<close>

definition check_local_header :: "ArchiveReader \<Rightarrow> ZipEntry \<Rightarrow> byte list \<Rightarrow> ZipStatus" where
  "check_local_header r e local =
     (let local_flags = ReadU16 local 6; sizes_postponed = (lenient_paths r \<and> local_flags AND push_bit 3 1 \<noteq> 0) in
      if ReadU32 local 0 \<noteq> kLocalSignature then ZipLocalHeaderMismatch
      else if ReadU16 local 4 > 20 then ZipUnsupportedVersion
      else if local_flags \<noteq> entry_flags e \<or>
              ReadU16 local 8 \<noteq> (case compression e of ZipStore \<Rightarrow> 0 | ZipDeflate \<Rightarrow> 8) \<or>
              (\<not> sizes_postponed \<and>
               (ReadU32 local 14 \<noteq> crc32 e \<or> ucast (ReadU32 local 18) \<noteq> compressed_size e \<or>
                ucast (ReadU32 local 22) \<noteq> entry_size e))
      then ZipLocalHeaderMismatch
      else if ReadU16 local 28 \<noteq> 0 \<and> \<not> lenient_extra_fields r then ZipExtraFieldForbidden
      else if unat (ReadU16 local 26) > kZipMaximumPathBytes + 1 then ZipLocalHeaderMismatch
      else ZipOk)"

definition local_data_offset :: "ZipEntry \<Rightarrow> byte list \<Rightarrow> u64 option" where
  "local_data_offset e local =
     Option.bind (CheckedAdd (local_header_offset e) (of_nat kLocalHeaderSize)) (\<lambda>n.
     Option.bind (CheckedAdd n (ucast (ReadU16 local 26))) (\<lambda>n. CheckedAdd n (ucast (ReadU16 local 28))))"

definition compared_name :: "ArchiveReader \<Rightarrow> byte list \<Rightarrow> byte list option" where
  "compared_name r local_name =
     (if lenient_paths r \<and> length local_name \<le> kZipMaximumPathBytes
      then map_option (\<lambda>(name, directory). c_str name) (NormalizeLenientPath (kZipMaximumPathBytes + 1) local_name)
      else Some local_name)"

text \<open>The offset of the payload of an entry, after its local header was found to agree with it.\<close>

definition local_header ::
  "SeekableZipSource \<Rightarrow> ArchiveReader \<Rightarrow> u64 \<Rightarrow> u64 \<Rightarrow> ZipEntry \<Rightarrow> ZipStatus + u64" where
  "local_header source r central_offset expected_local_offset e =
     (if local_header_offset e \<noteq> expected_local_offset \<or>
         \<not> RangeWithin (local_header_offset e) (of_nat kLocalHeaderSize) central_offset
      then Inl ZipOffsetInvalid
      else case source_read source (local_header_offset e) kLocalHeaderSize of
        None \<Rightarrow> Inl ZipSourceIo
      | Some local \<Rightarrow>
        let status = check_local_header r e local in
        if status \<noteq> ZipOk then Inl status
        else case source_read source (local_header_offset e + of_nat kLocalHeaderSize) (unat (ReadU16 local 26)) of
          None \<Rightarrow> Inl ZipSourceIo
        | Some local_name \<Rightarrow>
          (case compared_name r local_name of
             None \<Rightarrow> Inl ZipLocalHeaderMismatch
           | Some cmp_name \<Rightarrow>
             if length cmp_name \<noteq> length (entry_path e) + (if is_directory e then 1 else 0)
             then Inl ZipLocalHeaderMismatch
             else case local_data_offset e local of
               None \<Rightarrow> Inl ZipOffsetInvalid
             | Some at \<Rightarrow>
               if \<not> RangeWithin at (compressed_size e) central_offset then Inl ZipOffsetInvalid
               else if take (length (entry_path e)) cmp_name \<noteq> entry_path e \<or>
                       (is_directory e \<and> (cmp_name = [] \<or> cmp_name ! (length cmp_name - 1) \<noteq> slash))
               then Inl ZipLocalHeaderMismatch
               else Inr at))"

text \<open>A data descriptor after the payload, which only lenient browsing accepts.\<close>

definition read_descriptor :: "SeekableZipSource \<Rightarrow> u64 \<Rightarrow> u64 \<Rightarrow> ZipStatus + nat \<times> byte list" where
  "read_descriptor source central_offset at =
     (if RangeWithin at 16 central_offset then
        (case source_read source at 16 of
           None \<Rightarrow> Inl ZipSourceIo
         | Some dd \<Rightarrow> Inr (if ReadU32 dd 0 = kDescriptorSignature then (16, drop 4 dd) else (12, dd)))
      else if \<not> RangeWithin at 12 central_offset then Inl ZipOffsetInvalid
      else (case source_read source at 12 of None \<Rightarrow> Inl ZipOffsetInvalid | Some dd \<Rightarrow> Inr (12, dd)))"

definition skip_descriptor ::
  "SeekableZipSource \<Rightarrow> ArchiveReader \<Rightarrow> u64 \<Rightarrow> ZipEntry \<Rightarrow> u64 \<Rightarrow> ZipStatus + u64" where
  "skip_descriptor source r central_offset e at =
     (if is_directory e \<or> \<not> lenient_paths r \<or> entry_flags e AND push_bit 3 1 = 0 then Inr at
      else if \<not> RangeWithin at 4 central_offset then Inl ZipSourceIo
      else case source_read source at 4 of
        None \<Rightarrow> Inl ZipSourceIo
      | Some sig \<Rightarrow>
        if ReadU32 sig 0 = kLocalSignature then Inr at
        else case read_descriptor source central_offset at of
          Inl status \<Rightarrow> Inl status
        | Inr (dd_size, pl) \<Rightarrow>
          if ReadU32 pl 0 \<noteq> crc32 e \<or> ReadU32 pl 4 \<noteq> ucast (compressed_size e) \<or> ReadU32 pl 8 \<noteq> ucast (entry_size e)
          then Inl ZipOffsetInvalid
          else (case CheckedAdd at (of_nat dd_size) of None \<Rightarrow> Inl ZipOffsetInvalid | Some at \<Rightarrow> Inr at))"

record local_state =
  checked :: "ZipEntry list"
  expected_local_offset :: u64
  installed_bytes :: u64

definition local_step ::
  "SeekableZipSource \<Rightarrow> ZipLimits \<Rightarrow> ArchiveReader \<Rightarrow> u64 \<Rightarrow> ZipEntry \<Rightarrow> local_state \<Rightarrow> ZipStatus + local_state" where
  "local_step source l r central_offset e s =
     (case local_header source r central_offset (expected_local_offset s) e of
        Inl status \<Rightarrow> Inl status
      | Inr at \<Rightarrow>
        (case CheckedAdd at (compressed_size e) of
           None \<Rightarrow> Inl ZipOffsetInvalid
         | Some after \<Rightarrow>
           (case skip_descriptor source r central_offset e after of
              Inl status \<Rightarrow> Inl status
            | Inr after \<Rightarrow>
              let s = s\<lparr>checked := checked s @ [e\<lparr>data_offset := at\<rparr>], expected_local_offset := after\<rparr> in
              if is_directory e then Inr s
              else case CheckedAdd (installed_bytes s) (entry_size e) of
                None \<Rightarrow> Inl ZipInstalledSizeInvalid
              | Some installed \<Rightarrow>
                if installed > maximum_installed_bytes l then Inl ZipInstalledSizeInvalid
                else Inr (s\<lparr>installed_bytes := installed\<rparr>))))"

fun local_loop ::
  "SeekableZipSource \<Rightarrow> ZipLimits \<Rightarrow> ArchiveReader \<Rightarrow> (nat \<Rightarrow> nat \<Rightarrow> bool) option \<Rightarrow> nat \<Rightarrow> u64 \<Rightarrow>
   ZipEntry list \<Rightarrow> local_state \<Rightarrow> ZipStatus + local_state" where
  "local_loop source l r progress entry_count central_offset [] s = Inr s"
| "local_loop source l r progress entry_count central_offset (e # es) s =
     (if length (checked s) mod 256 = 0 \<and>
         (case progress of None \<Rightarrow> False
          | Some report \<Rightarrow> \<not> report (entry_count + length (checked s)) (entry_count * 2))
      then Inl ZipCancelled
      else case local_step source l r central_offset e s of
        Inl status \<Rightarrow> Inl status
      | Inr s \<Rightarrow> local_loop source l r progress entry_count central_offset es s)"

section \<open>Open\<close>

definition read_directory ::
  "SeekableZipSource \<Rightarrow> ZipLimits \<Rightarrow> ArchiveReader \<Rightarrow> (nat \<Rightarrow> nat \<Rightarrow> bool) option \<Rightarrow> EndRecord \<Rightarrow>
   refusal + central_state \<times> local_state" where
  "read_directory source l r progress e =
     (case central_loop source l r progress (end_entry_count e) (end_offset e) (end_entry_count e)
             \<lparr>cursor = end_central_offset e, scanned = [], scanned_files = 0, scanned_directories = 0\<rparr> of
        Inl refused \<Rightarrow> Inl refused
      | Inr c \<Rightarrow>
        if cursor c \<noteq> end_offset e then Inl (ZipCentralDirectoryInvalid, None)
        else if file_used_as_directory (scanned c) then Inl (ZipFileUsedAsDirectory, None)
        else (case local_loop source l r progress (end_entry_count e) (end_central_offset e) (scanned c)
                     \<lparr>checked = [], expected_local_offset = 0, installed_bytes = 0\<rparr> of
            Inl status \<Rightarrow> Inl (status, None)
          | Inr s \<Rightarrow>
            if expected_local_offset s \<noteq> end_central_offset e then Inl (ZipOffsetInvalid, None)
            else Inr (c, s)))"

definition note_refusal :: "byte list option \<Rightarrow> ArchiveReader \<Rightarrow> ArchiveReader" where
  "note_refusal note r = (case note of None \<Rightarrow> r | Some name \<Rightarrow> r\<lparr>first_failure_path := name\<rparr>)"

definition Open ::
  "SeekableZipSource option \<Rightarrow> bool \<Rightarrow> nat \<Rightarrow> ZipLimits \<Rightarrow> (nat \<Rightarrow> nat \<Rightarrow> bool) option \<Rightarrow> ArchiveReader \<Rightarrow>
   ZipStatus \<times> ArchiveReader" where
  "Open source_pointer have_entries entry_capacity l progress r =
     (let r = r\<lparr>validated_inventory_binding := replicate 32 0, validated_contents := False, reader_open := False,
                 reader_source := no_source, entries := [], inventory := no_inventory\<rparr> in
      case source_pointer of
        None \<Rightarrow> (ZipInvalidArgument, r)
      | Some source \<Rightarrow>
        if \<not> have_entries \<or> \<not> limits_valid l then (ZipInvalidArgument, r)
        else case find_end_record source l (lenient_archive r) entry_capacity of
          Inl status \<Rightarrow> (status, r)
        | Inr e \<Rightarrow>
          (case read_directory source l r progress e of
             Inl (status, note) \<Rightarrow> (status, note_refusal note r)
           | Inr (c, s) \<Rightarrow>
             (ZipOk, r\<lparr>reader_source := source, entries := checked s, limits := l,
                inventory := \<lparr>file_count = scanned_files c, directory_count = scanned_directories c,
                  archive_size = end_archive_size e, installed_size = installed_bytes s,
                  central_directory_offset = end_central_offset e, central_directory_size = end_central_size e\<rparr>,
                reader_open := True\<rparr>)))"

section \<open>Extraction for browsing, and of a whole archive\<close>

text \<open>The check of the inventory with its progress callback, after each file.\<close>

fun verify_files_progress ::
  "ZipReader \<Rightarrow> (nat \<Rightarrow> nat \<Rightarrow> bool) option \<Rightarrow> nat \<Rightarrow> byte list list \<Rightarrow> ZipExpectedFile list \<Rightarrow> ZipStatus" where
  "verify_files_progress r progress file_total previous [] = ZipOk"
| "verify_files_progress r progress file_total previous (wanted # files) =
     (let status = verify_files r previous [wanted] in
      if status \<noteq> ZipOk then status
      else if (case progress of None \<Rightarrow> False | Some report \<Rightarrow> \<not> report (length previous + 1) file_total)
      then ZipCancelled
      else verify_files_progress r progress file_total (previous @ [the (expected_path wanted)]) files)"

definition VerifyExpectedInventoryProgress ::
  "ZipReader \<Rightarrow> ZipExpectedInventory \<Rightarrow> (nat \<Rightarrow> nat \<Rightarrow> bool) option \<Rightarrow> ZipStatus" where
  "VerifyExpectedInventoryProgress r expected progress =
     (if \<not> reader_open r then ZipNotOpen
      else if length (expected_files expected) \<noteq> file_count (inventory r) \<or>
              length (expected_directories expected) \<noteq> directory_count (inventory r)
      then ZipInventoryMismatch
      else let status = verify_files_progress r progress (length (expected_files expected)) [] (expected_files expected) in
        if status \<noteq> ZipOk then status
        else verify_directories r [] (expected_directories expected))"

definition ExtractOneSinglePass ::
  "ZipReader \<Rightarrow> 'd inflater \<Rightarrow> 'd \<Rightarrow> path option \<Rightarrow> ZipExpectedInventory \<Rightarrow> 's ZipExtractSink option \<Rightarrow>
   (nat \<Rightarrow> nat \<Rightarrow> bool) option \<Rightarrow> (nat \<Rightarrow> nat \<Rightarrow> bool) option \<Rightarrow> 's \<Rightarrow> ZipStatus \<times> ZipReader \<times> 's" where
  "ExtractOneSinglePass r inflate tinfl_init path expected sink verify_progress stream_progress s =
     (case (path, sink) of
        (Some path, Some ops) \<Rightarrow>
        let inventory_status = VerifyExpectedInventoryProgress r expected verify_progress in
        if inventory_status \<noteq> ZipOk then (inventory_status, ClearValidatedContents r, s)
        else (case find_entry r False path of
            None \<Rightarrow> (ZipEntryNotFound, ClearValidatedContents r, s)
          | Some entry \<Rightarrow>
            (case FindExpectedFile expected path of
               None \<Rightarrow> (ZipInventoryMismatch, ClearValidatedContents r, s)
             | Some wanted \<Rightarrow>
               (case StreamFile r inflate tinfl_init entry (Some wanted) (None :: unit ZipHashSink option) (Some ops)
                       stream_progress () s of
                  (status, _, s) \<Rightarrow> (status, if status \<noteq> ZipOk then ClearValidatedContents r else r, s))))
      | _ \<Rightarrow> (ZipInvalidArgument, r, s))"

fun extract_directories :: "'s ZipExtractSink \<Rightarrow> ZipEntry list \<Rightarrow> 's \<Rightarrow> ZipStatus \<times> 's" where
  "extract_directories sink [] s = (ZipOk, s)"
| "extract_directories sink (entry # es) s =
     (if \<not> is_directory entry then extract_directories sink es s
      else case BeginEntry sink entry s of
        (False, s) \<Rightarrow> (ZipSinkError, s)
      | (True, s) \<Rightarrow>
        (case CommitEntry sink entry s of
           (False, s) \<Rightarrow> (ZipSinkError, AbortEntry sink entry s)
         | (True, s) \<Rightarrow> extract_directories sink es s))"

fun extract_files ::
  "ZipReader \<Rightarrow> 'd inflater \<Rightarrow> 'd \<Rightarrow> ZipExpectedInventory \<Rightarrow> 's ZipExtractSink \<Rightarrow> 'h ZipHashSink option \<Rightarrow>
   ZipEntry list \<Rightarrow> 'h \<Rightarrow> 's \<Rightarrow> ZipStatus \<times> 'h \<times> 's" where
  "extract_files r inflate tinfl_init expected sink hash_sink [] h s = (ZipOk, h, s)"
| "extract_files r inflate tinfl_init expected sink hash_sink (entry # es) h s =
     (if is_directory entry then extract_files r inflate tinfl_init expected sink hash_sink es h s
      else case StreamFile r inflate tinfl_init entry (FindExpectedFile expected (entry_path entry)) hash_sink
                  (Some sink) None h s of
        (status, h, s) \<Rightarrow>
          if status \<noteq> ZipOk then (status, h, s)
          else extract_files r inflate tinfl_init expected sink hash_sink es h s)"

definition ExtractAll ::
  "ZipReader \<Rightarrow> 'd inflater \<Rightarrow> 'd \<Rightarrow> ZipExpectedInventory \<Rightarrow> 's ZipExtractSink option \<Rightarrow> 'h ZipHashSink option \<Rightarrow>
   'h \<Rightarrow> 's \<Rightarrow> ZipStatus \<times> ZipReader \<times> 'h \<times> 's" where
  "ExtractAll r inflate tinfl_init expected sink hash_sink h s =
     (case sink of
        None \<Rightarrow> (ZipInvalidArgument, ClearValidatedContents r, h, s)
      | Some ops \<Rightarrow>
        (case ValidateContents r inflate tinfl_init expected hash_sink h of
           (status, r, h) \<Rightarrow>
           if status \<noteq> ZipOk then (status, r, h, s)
           else case extract_directories ops (entries r) s of
             (status, s) \<Rightarrow>
             if status \<noteq> ZipOk then (status, ClearValidatedContents r, h, s)
             else (case extract_files r inflate tinfl_init expected ops hash_sink (entries r) h s of
                 (status, h, s) \<Rightarrow> (status, if status \<noteq> ZipOk then ClearValidatedContents r else r, h, s))))"

section \<open>Sums and ranges\<close>

lemma unat_room: "unat (- 1 - b :: u64) = 2 ^ 64 - 1 - unat b"
proof -
  have "unat (- 1 - b :: u64) = unat (- 1 :: u64) - unat b" by (rule unat_sub) simp
  then show ?thesis by (simp add: unsigned_minus_1_eq_mask mask_eq_exp_minus_1)
qed

lemma CheckedAdd_Some:
  assumes "CheckedAdd a b = Some c"
  shows "unat c = unat a + unat b"
proof -
  have "a \<le> - 1 - b" and c: "c = a + b" using assms by (auto simp: CheckedAdd_def split: if_split_asm)
  then have "unat a + unat b < 2 ^ 64" using u64_less [of b] by (simp add: word_le_nat_alt unat_room)
  then show ?thesis using c by (simp add: unat_word_ariths)
qed

lemma RangeWithin_iff: "RangeWithin a n b \<longleftrightarrow> unat a + unat n \<le> unat b"
proof -
  have "CheckedAdd a n \<noteq> None" if "unat a + unat n \<le> unat b"
  proof -
    have "unat a + unat n < 2 ^ 64" using that u64_less [of b] by linarith
    then show ?thesis by (simp add: CheckedAdd_def word_less_nat_alt unat_room)
  qed
  then show ?thesis
    by (auto simp: RangeWithin_def word_le_nat_alt split: option.split dest: CheckedAdd_Some)
qed

lemma source_read_length: "source_read source at n = Some bytes \<Longrightarrow> length bytes = n"
  by (auto simp: source_read_def split: option.split_asm if_split_asm)

lemma FatEqual_key: "FatEqual p q \<longleftrightarrow> fat_key p = fat_key q"
  by (induction p q rule: FatEqual.induct) (auto simp: fat_key_def)

section \<open>The central directory: names and counts\<close>

text \<open>The name of an entry as both its headers store it: a directory with its slash.\<close>

definition stored_name :: "ZipEntry \<Rightarrow> byte list" where
  "stored_name e = entry_path e @ (if is_directory e then [slash] else [])"

definition path_accepted :: "ZipLimits \<Rightarrow> ZipEntry \<Rightarrow> bool" where
  "path_accepted l e \<longleftrightarrow> ValidateFatRelativePathBytes (Some (entry_path e)) (maximum_path_bytes l) = FatOk"

definition names_apart :: "ZipEntry list \<Rightarrow> bool" where
  "names_apart es \<longleftrightarrow> distinct (map (\<lambda>e. fat_key (entry_path e)) es)"

definition directory_counted :: "ZipLimits \<Rightarrow> central_state \<Rightarrow> bool" where
  "directory_counted l c \<longleftrightarrow> list_all (path_accepted l) (scanned c) \<and> names_apart (scanned c) \<and>
     scanned_files c = length (filter (\<lambda>e. \<not> is_directory e) (scanned c)) \<and>
     scanned_directories c = length (filter is_directory (scanned c))"

lemma ValidateAndCopyPath_ok:
  assumes "ValidateAndCopyPath raw flags directory m = Inr path"
  shows "ValidateFatRelativePathBytes (Some path) m = FatOk" and "raw = path @ (if directory then [slash] else [])"
proof -
  have raw: "raw \<noteq> []" and d: "(raw ! (length raw - 1) = slash) = directory"
    and p: "path = take (if directory then length raw - 1 else length raw) raw"
    and v: "ValidateFatRelativePathBytes (Some path) m = FatOk"
    using assms by (auto simp: ValidateAndCopyPath_def Let_def split: if_split_asm)
  show "ValidateFatRelativePathBytes (Some path) m = FatOk" by (rule v)
  show "raw = path @ (if directory then [slash] else [])"
    using append_butlast_last_id [OF raw] raw d p by (auto simp: last_conv_nth butlast_conv_take)
qed

lemma central_path_ok:
  assumes "central_path r l flags raw = Inr (path, directory)"
  shows "ValidateFatRelativePathBytes (Some path) (maximum_path_bytes l) = FatOk"
    and "\<not> lenient_paths r \<Longrightarrow> raw = path @ (if directory then [slash] else [])"
  using assms
  by (auto simp: central_path_def split: option.split_asm sum.split_asm if_split_asm dest: ValidateAndCopyPath_ok)

lemma check_duplicates_None:
  "check_duplicates path es = None \<Longrightarrow> e \<in> set es \<Longrightarrow> fat_key (entry_path e) \<noteq> fat_key path"
  by (auto simp: check_duplicates_def find_None_iff FatEqual_key split: option.split_asm)

lemma central_step_ok:
  assumes "central_step source l r central_end s = Inr s'"
  obtains header n raw path directory where
    "read_central_header source l r central_end (cursor s) = Inr (header, n, raw)"
    "central_path r l (ReadU16 header 8) raw = Inr (path, directory)" "check_duplicates path (scanned s) = None"
    "check_entry_sizes r l (central_entry header path directory) = ZipOk"
    "s' = \<lparr>cursor = cursor s + n, scanned = scanned s @ [central_entry header path directory],
       scanned_files = (if directory then scanned_files s else scanned_files s + 1),
       scanned_directories = (if directory then scanned_directories s + 1 else scanned_directories s)\<rparr>"
  using assms
  by (auto simp: central_step_def Let_def split: sum.split_asm if_split_asm option.split_asm prod.split_asm)

lemma central_entry_sel [simp]:
  "entry_path (central_entry header path directory) = path"
  "is_directory (central_entry header path directory) = directory"
  by (simp_all add: central_entry_def)

lemma central_step_counted:
  assumes "central_step source l r central_end s = Inr s'" and "directory_counted l s"
  shows "directory_counted l s'"
  using assms(1)
proof (rule central_step_ok)
  fix header n raw path directory
  assume p: "central_path r l (ReadU16 header 8) raw = Inr (path, directory)"
    and d: "check_duplicates path (scanned s) = None"
    and s': "s' = \<lparr>cursor = cursor s + n, scanned = scanned s @ [central_entry header path directory],
       scanned_files = (if directory then scanned_files s else scanned_files s + 1),
       scanned_directories = (if directory then scanned_directories s + 1 else scanned_directories s)\<rparr>"
  from check_duplicates_None [OF d] have "fat_key path \<notin> (\<lambda>e. fat_key (entry_path e)) ` set (scanned s)" by fastforce
  with assms(2) central_path_ok(1) [OF p] show ?thesis
    by (auto simp: directory_counted_def names_apart_def path_accepted_def s')
qed

lemma central_loop_counted:
  "central_loop source l r progress k central_end n s = Inr s' \<Longrightarrow> directory_counted l s \<Longrightarrow>
   directory_counted l s' \<and> length (scanned s') = length (scanned s) + n"
proof (induction n arbitrary: s)
  case (Suc n)
  then obtain s1 where s1: "central_step source l r central_end s = Inr s1"
    "central_loop source l r progress k central_end n s1 = Inr s'"
    by (auto split: sum.split_asm if_split_asm)
  have "length (scanned s1) = length (scanned s) + 1" using s1(1) by (auto elim: central_step_ok)
  with Suc.IH [OF s1(2)] central_step_counted [OF s1(1) Suc.prems(2)] show ?case by simp
qed simp

section \<open>The records of an archive\<close>

text \<open>
  \<open>central_agrees source at e\<close>: the record of the central directory at \<open>at\<close> is that of \<open>e\<close>, its
  name included.  \<open>local_agrees\<close> is the same of the local header, and says where the payload is.
  The two \<open>tiled\<close> predicates place the records one after the other, with nothing between them.
\<close>

definition strict :: "ArchiveReader \<Rightarrow> bool" where
  "strict r \<longleftrightarrow> \<not> lenient_extra_fields r \<and> \<not> lenient_paths r \<and> \<not> lenient_archive r \<and> \<not> lenient_ratio r"

definition central_agrees :: "SeekableZipSource \<Rightarrow> nat \<Rightarrow> ZipEntry \<Rightarrow> bool" where
  "central_agrees source at e \<longleftrightarrow>
     (\<exists>header. source_read source (of_nat at) kCentralHeaderSize = Some header \<and>
        ReadU32 header 0 = kCentralSignature \<and>
        e\<lparr>data_offset := 0\<rparr> = central_entry header (entry_path e) (is_directory e) \<and>
        source_read source (of_nat (at + kCentralHeaderSize)) (length (stored_name e)) = Some (stored_name e))"

definition local_agrees :: "SeekableZipSource \<Rightarrow> nat \<Rightarrow> ZipEntry \<Rightarrow> bool" where
  "local_agrees source at e \<longleftrightarrow>
     unat (local_header_offset e) = at \<and> unat (data_offset e) = at + kLocalHeaderSize + length (stored_name e) \<and>
     (\<exists>local. source_read source (of_nat at) kLocalHeaderSize = Some local \<and>
        ReadU32 local 0 = kLocalSignature \<and> ReadU16 local 6 = entry_flags e \<and> ReadU32 local 14 = crc32 e \<and>
        ucast (ReadU32 local 18) = compressed_size e \<and> ucast (ReadU32 local 22) = entry_size e \<and>
        source_read source (of_nat (at + kLocalHeaderSize)) (length (stored_name e)) = Some (stored_name e))"

fun central_tiled :: "SeekableZipSource \<Rightarrow> nat \<Rightarrow> ZipEntry list \<Rightarrow> nat \<Rightarrow> bool" where
  "central_tiled source at [] after \<longleftrightarrow> at = after"
| "central_tiled source at (e # es) after \<longleftrightarrow>
     central_agrees source at e \<and> central_tiled source (at + kCentralHeaderSize + length (stored_name e)) es after"

fun local_tiled :: "SeekableZipSource \<Rightarrow> nat \<Rightarrow> ZipEntry list \<Rightarrow> nat \<Rightarrow> bool" where
  "local_tiled source at [] after \<longleftrightarrow> at = after"
| "local_tiled source at (e # es) after \<longleftrightarrow>
     local_agrees source at e \<and>
     local_tiled source (at + kLocalHeaderSize + length (stored_name e) + unat (compressed_size e)) es after"

lemma central_tiled_append:
  "central_tiled source a (es @ [e]) b \<longleftrightarrow>
   (\<exists>m. central_tiled source a es m \<and> central_tiled source m [e] b)"
  by (induction es arbitrary: a) auto

lemma local_tiled_append:
  "local_tiled source a (es @ [e]) b \<longleftrightarrow>
   (\<exists>m. local_tiled source a es m \<and> local_tiled source m [e] b)"
  by (induction es arbitrary: a) auto

lemma length_ucast16: "unat (ucast (x :: u16) :: u64) = unat x"
proof -
  have "unat x < 65536" using unsigned_less [of x] by simp
  then have "unat x < 2 ^ 64" by simp
  then show ?thesis by (simp add: unsigned_ucast_eq take_bit_nat_eq_self)
qed

lemma read_central_header_ok:
  assumes "read_central_header source l r central_end at = Inr (header, n, raw)" and "\<not> lenient_extra_fields r"
  shows "source_read source at kCentralHeaderSize = Some header" and "ReadU32 header 0 = kCentralSignature"
    and "source_read source (at + of_nat kCentralHeaderSize) (length raw) = Some raw"
    and "unat n = kCentralHeaderSize + length raw" and "unat at + unat n \<le> unat central_end"
proof -
  have h: "source_read source at kCentralHeaderSize = Some header" "check_central_header r header = ZipOk"
      "record_size header = Some n" "RangeWithin at n central_end"
      "source_read source (at + of_nat kCentralHeaderSize) (unat (ReadU16 header 28)) = Some raw"
    using assms(1) by (auto simp: read_central_header_def Let_def split: if_split_asm option.split_asm)
  show "source_read source at kCentralHeaderSize = Some header" by (rule h)
  show "ReadU32 header 0 = kCentralSignature" using h(2) by (auto simp: check_central_header_def Let_def split: if_split_asm)
  have extra: "ReadU16 header 30 = 0" "ReadU16 header 32 = 0"
    using h(2) assms(2) by (auto simp: check_central_header_def Let_def split: if_split_asm)
  have len: "length raw = unat (ReadU16 header 28)" by (rule source_read_length [OF h(5)])
  with h(5) show "source_read source (at + of_nat kCentralHeaderSize) (length raw) = Some raw" by simp
  from h(3) extra have "Option.bind (CheckedAdd (of_nat kCentralHeaderSize) (ucast (ReadU16 header 28)))
      (\<lambda>n. Option.bind (CheckedAdd n 0) (\<lambda>n. CheckedAdd n 0)) = Some n"
    by (simp add: record_size_def)
  then show "unat n = kCentralHeaderSize + length raw"
    by (auto simp: bind_eq_Some_conv len length_ucast16 kCentralHeaderSize_def dest!: CheckedAdd_Some)
  show "unat at + unat n \<le> unat central_end" using h(4) by (simp add: RangeWithin_iff)
qed

lemma unat_plus_bounded: "unat (a :: u64) + unat n \<le> unat (b :: u64) \<Longrightarrow> unat (a + n) = unat a + unat n"
  using u64_less [of b] by (simp add: unat_word_ariths)

lemma central_step_tiled:
  assumes "central_step source l r central_end s = Inr s'" and "strict r"
  shows "\<exists>e. scanned s' = scanned s @ [e] \<and> central_tiled source (unat (cursor s)) [e] (unat (cursor s'))"
  using assms(1)
proof (rule central_step_ok)
  fix header n raw path directory
  let ?e = "central_entry header path directory"
  assume h: "read_central_header source l r central_end (cursor s) = Inr (header, n, raw)"
    and p: "central_path r l (ReadU16 header 8) raw = Inr (path, directory)"
    and s': "s' = \<lparr>cursor = cursor s + n, scanned = scanned s @ [?e],
       scanned_files = (if directory then scanned_files s else scanned_files s + 1),
       scanned_directories = (if directory then scanned_directories s + 1 else scanned_directories s)\<rparr>"
  have strict: "\<not> lenient_extra_fields r" "\<not> lenient_paths r" using assms(2) by (simp_all add: strict_def)
  note h = read_central_header_ok [OF h strict(1)]
  have raw: "stored_name ?e = raw" using central_path_ok(2) [OF p strict(2)] by (simp add: stored_name_def)
  have "?e\<lparr>data_offset := 0\<rparr> = ?e" by (simp add: central_entry_def)
  with h raw have "central_agrees source (unat (cursor s)) ?e" by (auto simp: central_agrees_def)
  moreover have "unat (cursor s + n) = unat (cursor s) + kCentralHeaderSize + length raw"
    using unat_plus_bounded [OF h(5)] h(4) by simp
  ultimately show ?thesis using raw by (simp add: s')
qed

lemma central_loop_tiled:
  "central_loop source l r progress k central_end n s = Inr s' \<Longrightarrow> strict r \<Longrightarrow>
   \<exists>es. scanned s' = scanned s @ es \<and> central_tiled source (unat (cursor s)) es (unat (cursor s'))"
proof (induction n arbitrary: s)
  case (Suc n)
  then obtain s1 where s1: "central_step source l r central_end s = Inr s1"
    "central_loop source l r progress k central_end n s1 = Inr s'"
    by (auto split: sum.split_asm if_split_asm)
  from central_step_tiled [OF s1(1) Suc.prems(2)] Suc.IH [OF s1(2) Suc.prems(2)]
  obtain e es where "scanned s1 = scanned s @ [e]" "central_tiled source (unat (cursor s)) [e] (unat (cursor s1))"
    "scanned s' = scanned s1 @ es" "central_tiled source (unat (cursor s1)) es (unat (cursor s'))" by blast
  then show ?case by (intro exI [of _ "e # es"]) simp
qed simp

section \<open>The local headers\<close>

text \<open>\<open>placed es es'\<close>: the same entries with their payload offsets filled in.\<close>

abbreviation placed :: "ZipEntry list \<Rightarrow> ZipEntry list \<Rightarrow> bool" where
  "placed \<equiv> list_all2 (\<lambda>e e'. \<exists>at. e' = e\<lparr>data_offset := at\<rparr>)"

lemma local_step_placed:
  "local_step source l r central_offset e s = Inr s' \<Longrightarrow> \<exists>at. checked s' = checked s @ [e\<lparr>data_offset := at\<rparr>]"
  by (auto simp: local_step_def Let_def split: sum.split_asm option.split_asm if_split_asm)

lemma local_loop_placed:
  "local_loop source l r progress k central_offset es s = Inr s' \<Longrightarrow> \<exists>es'. checked s' = checked s @ es' \<and> placed es es'"
proof (induction es arbitrary: s)
  case (Cons e es)
  then obtain s1 where s1: "local_step source l r central_offset e s = Inr s1"
    "local_loop source l r progress k central_offset es s1 = Inr s'"
    by (auto split: sum.split_asm if_split_asm)
  from local_step_placed [OF s1(1)] Cons.IH [OF s1(2)] obtain at es' where
    "checked s1 = checked s @ [e\<lparr>data_offset := at\<rparr>]" "checked s' = checked s1 @ es'" "placed es es'" by blast
  then show ?case by (intro exI [of _ "e\<lparr>data_offset := at\<rparr> # es'"]) auto
qed simp

lemma placed_map:
  assumes "placed es es'" and "\<And>e at. f (e\<lparr>data_offset := at\<rparr>) = f e"
  shows "map f es' = map f es"
  using assms(1) by (induction rule: list_all2_induct) (auto simp: assms(2))

lemma stored_name_placed [simp]: "stored_name (e\<lparr>data_offset := at\<rparr>) = stored_name e"
  by (simp add: stored_name_def)

lemma placed_central: "placed es es' \<Longrightarrow> central_tiled source a es b \<Longrightarrow> central_tiled source a es' b"
  by (induction arbitrary: a rule: list_all2_induct) (auto simp: central_agrees_def)

lemma local_header_ok:
  assumes "local_header source r central_offset expected e = Inr at" and "strict r"
  shows "local_agrees source (unat expected) (e\<lparr>data_offset := at\<rparr>)"
    and "unat at + unat (compressed_size e) \<le> unat central_offset"
proof -
  have strict: "\<not> lenient_extra_fields r" "\<not> lenient_paths r" using assms(2) by (simp_all add: strict_def)
  obtain local name where h: "local_header_offset e = expected"
      "source_read source expected kLocalHeaderSize = Some local" "check_local_header r e local = ZipOk"
      "source_read source (expected + of_nat kLocalHeaderSize) (unat (ReadU16 local 26)) = Some name"
      "length name = length (entry_path e) + (if is_directory e then 1 else 0)"
      "local_data_offset e local = Some at" "RangeWithin at (compressed_size e) central_offset"
      "take (length (entry_path e)) name = entry_path e"
      "is_directory e \<Longrightarrow> name ! (length name - 1) = slash"
    using assms(1) strict
    by (auto simp: local_header_def compared_name_def Let_def split: if_split_asm option.split_asm)
  have fields: "ReadU32 local 0 = kLocalSignature" "ReadU16 local 6 = entry_flags e" "ReadU32 local 14 = crc32 e"
      "ucast (ReadU32 local 18) = compressed_size e" "ucast (ReadU32 local 22) = entry_size e" "ReadU16 local 28 = 0"
    using h(3) strict by (auto simp: check_local_header_def Let_def split: if_split_asm)
  have len: "length name = unat (ReadU16 local 26)" by (rule source_read_length [OF h(4)])
  have "drop (length (entry_path e)) name = (if is_directory e then [slash] else [])"
    using h(5,9) Cons_nth_drop_Suc [of "length (entry_path e)" name] by (cases "is_directory e") simp_all
  with h(8) have name: "name = stored_name e"
    unfolding stored_name_def by (metis append_take_drop_id)
  have "Option.bind (CheckedAdd expected (of_nat kLocalHeaderSize)) (\<lambda>n. Option.bind (CheckedAdd n (ucast (ReadU16 local 26)))
      (\<lambda>n. CheckedAdd n 0)) = Some at"
    using h(6) fields(6) h(1) by (simp add: local_data_offset_def)
  then have "unat at = unat expected + kLocalHeaderSize + length name"
    by (auto simp: bind_eq_Some_conv len length_ucast16 kLocalHeaderSize_def dest!: CheckedAdd_Some)
  with h fields name len show "local_agrees source (unat expected) (e\<lparr>data_offset := at\<rparr>)"
    by (auto simp: local_agrees_def)
  show "unat at + unat (compressed_size e) \<le> unat central_offset" using h(7) by (simp add: RangeWithin_iff)
qed

lemma local_step_tiled:
  assumes "local_step source l r central_offset e s = Inr s'" and "strict r"
  shows "\<exists>at. checked s' = checked s @ [e\<lparr>data_offset := at\<rparr>] \<and>
    local_tiled source (unat (expected_local_offset s)) [e\<lparr>data_offset := at\<rparr>] (unat (expected_local_offset s'))"
proof -
  have lenient: "\<not> lenient_paths r" using assms(2) by (simp add: strict_def)
  then have skip: "skip_descriptor source r central_offset e n = Inr n" for n by (simp add: skip_descriptor_def)
  obtain at after where h: "local_header source r central_offset (expected_local_offset s) e = Inr at"
      "CheckedAdd at (compressed_size e) = Some after"
      "checked s' = checked s @ [e\<lparr>data_offset := at\<rparr>]" "expected_local_offset s' = after"
    using assms(1) by (auto simp: local_step_def skip Let_def split: sum.split_asm option.split_asm if_split_asm)
  note a = local_header_ok(1) [OF h(1) assms(2)]
  then have "unat at = unat (expected_local_offset s) + kLocalHeaderSize + length (stored_name e)"
    by (simp add: local_agrees_def)
  with CheckedAdd_Some [OF h(2)] a h(3,4) show ?thesis by auto
qed

lemma local_loop_tiled:
  "local_loop source l r progress k central_offset es s = Inr s' \<Longrightarrow> strict r \<Longrightarrow>
   \<exists>es'. checked s' = checked s @ es' \<and> placed es es' \<and>
     local_tiled source (unat (expected_local_offset s)) es' (unat (expected_local_offset s'))"
proof (induction es arbitrary: s)
  case (Cons e es)
  then obtain s1 where s1: "local_step source l r central_offset e s = Inr s1"
    "local_loop source l r progress k central_offset es s1 = Inr s'"
    by (auto split: sum.split_asm if_split_asm)
  from local_step_tiled [OF s1(1) Cons.prems(2)] Cons.IH [OF s1(2) Cons.prems(2)] obtain at es' where
    "checked s1 = checked s @ [e\<lparr>data_offset := at\<rparr>]" "checked s' = checked s1 @ es'" "placed es es'"
    "local_tiled source (unat (expected_local_offset s)) [e\<lparr>data_offset := at\<rparr>] (unat (expected_local_offset s1))"
    "local_tiled source (unat (expected_local_offset s1)) es' (unat (expected_local_offset s'))" by blast
  then show ?case by (intro exI [of _ "e\<lparr>data_offset := at\<rparr> # es'"]) auto
qed simp

end
