(* ===== verification/Zip_Directory.thy ===== *)
theory Zip_Directory
  imports Zip_Open
begin

text \<open>
  What a caller of \<open>Open\<close> may rely on: the names of the entries are portable, pairwise different on
  a FAT volume and never a file and a directory at once; a strict reader accounts for every byte
  of the archive; and the searches by pieces of 4096 bytes find what a search of the whole range
  would find.
\<close>

section \<open>Refusals are never the status of success\<close>

lemma if_neq: "x \<noteq> z \<Longrightarrow> y \<noteq> z \<Longrightarrow> (if b then x else y) \<noteq> z"
  by simp

lemma option_neq: "x \<noteq> z \<Longrightarrow> (\<And>a. y a \<noteq> z) \<Longrightarrow> case_option x y v \<noteq> z"
  and bool_neq: "x \<noteq> z \<Longrightarrow> y' \<noteq> z \<Longrightarrow> case_bool x y' b \<noteq> z"
  and sum_neq: "(\<And>a. v' = Inl a \<Longrightarrow> f a \<noteq> z) \<Longrightarrow> (\<And>c. g c \<noteq> z) \<Longrightarrow> case_sum f g v' \<noteq> z"
  by (auto split: option.split bool.split sum.split)

lemma find_end_record_refusal: "find_end_record source l lenient entry_capacity \<noteq> Inl ZipOk"
proof -
  have "parse_end_record l lenient entry_capacity n offset bytes \<noteq> Inl ZipOk" for n offset bytes
    unfolding parse_end_record_def Let_def by (intro if_neq) simp_all
  then show ?thesis
    unfolding find_end_record_def Let_def
    by (intro if_neq option_neq sum_neq bool_neq allI impI) (simp_all, metis)
qed

lemma ValidateAndCopyPath_refusal: "ValidateAndCopyPath raw flags directory m \<noteq> Inl ZipOk"
  by (simp add: ValidateAndCopyPath_def Let_def)

lemma central_path_refusal: "central_path r l flags raw \<noteq> Inl (ZipOk, note)"
  using ValidateAndCopyPath_refusal
  by (auto simp: central_path_def split: option.split sum.split)

lemma read_central_header_refusal: "read_central_header source l r central_end at \<noteq> Inl ZipOk"
  by (auto simp: read_central_header_def Let_def split: option.split)

lemma check_duplicates_refusal: "check_duplicates path es \<noteq> Some (ZipOk, note)"
  by (auto simp: check_duplicates_def split: option.split)

lemma central_step_refusal: "central_step source l r central_end s \<noteq> Inl (ZipOk, note)"
  using central_path_refusal read_central_header_refusal check_duplicates_refusal
  by (auto simp: central_step_def Let_def split: sum.split option.split prod.split)

lemma central_loop_refusal: "central_loop source l r progress k central_end n s \<noteq> Inl (ZipOk, note)"
  using central_step_refusal by (induction n arbitrary: s) (auto split: sum.split)

lemma local_header_refusal: "local_header source r central_offset expected e \<noteq> Inl ZipOk"
  by (auto simp: local_header_def Let_def split: option.split)

lemma skip_descriptor_refusal: "skip_descriptor source r central_offset e at \<noteq> Inl ZipOk"
proof -
  have "read_descriptor source central_offset at \<noteq> Inl ZipOk"
    by (auto simp: read_descriptor_def split: option.split)
  then show ?thesis by (auto simp: skip_descriptor_def split: option.split sum.split)
qed

lemma local_step_refusal: "local_step source l r central_offset e s \<noteq> Inl ZipOk"
  using local_header_refusal skip_descriptor_refusal
  by (auto simp: local_step_def Let_def split: sum.split option.split)

lemma local_loop_refusal: "local_loop source l r progress k central_offset es s \<noteq> Inl ZipOk"
  using local_step_refusal by (induction es arbitrary: s) (auto split: sum.split)

lemma read_directory_refusal: "read_directory source l r progress e \<noteq> Inl (ZipOk, note)"
  using central_loop_refusal local_loop_refusal
  by (auto simp: read_directory_def split: sum.split)

section \<open>A successful Open\<close>

lemma Open_ok:
  assumes "Open source_pointer have_entries entry_capacity l progress r = (ZipOk, r')"
  obtains source e c s r0 where "source_pointer = Some source"
    "find_end_record source l (lenient_archive r) entry_capacity = Inr e"
    "read_directory source l r0 progress e = Inr (c, s)" "strict r \<longleftrightarrow> strict r0"
    "entries r' = checked s" "reader_source r' = source" "reader_open r'" "limits r' = l"
    "inventory r' = \<lparr>file_count = scanned_files c, directory_count = scanned_directories c,
       archive_size = end_archive_size e, installed_size = installed_bytes s,
       central_directory_offset = end_central_offset e, central_directory_size = end_central_size e\<rparr>"
  using assms find_end_record_refusal read_directory_refusal
  unfolding Open_def Let_def
  by (auto simp: strict_def split: option.split_asm sum.split_asm if_split_asm prod.split_asm)

lemma read_directory_ok:
  assumes "read_directory source l r progress e = Inr (c, s)"
  shows "directory_counted l c" and "placed (scanned c) (checked s)" and "\<not> file_used_as_directory (scanned c)"
    and "length (checked s) = end_entry_count e"
    and "strict r \<Longrightarrow> local_tiled source 0 (checked s) (unat (end_central_offset e)) \<and>
      central_tiled source (unat (end_central_offset e)) (checked s) (unat (end_offset e))"
proof -
  let ?c0 = "\<lparr>cursor = end_central_offset e, scanned = [], scanned_files = 0, scanned_directories = 0\<rparr>"
  let ?s0 = "\<lparr>checked = [], expected_local_offset = 0, installed_bytes = 0\<rparr>"
  have c: "central_loop source l r progress (end_entry_count e) (end_offset e) (end_entry_count e) ?c0 = Inr c"
      "cursor c = end_offset e" "\<not> file_used_as_directory (scanned c)"
      "local_loop source l r progress (end_entry_count e) (end_central_offset e) (scanned c) ?s0 = Inr s"
      "expected_local_offset s = end_central_offset e"
    using assms by (auto simp: read_directory_def split: sum.split_asm if_split_asm)
  have "directory_counted l ?c0" by (simp add: directory_counted_def names_apart_def)
  from central_loop_counted [OF c(1) this] have d: "directory_counted l c" "length (scanned c) = end_entry_count e" by simp_all
  show "directory_counted l c" by (rule d)
  from local_loop_placed [OF c(4)] show p: "placed (scanned c) (checked s)" by simp
  show "\<not> file_used_as_directory (scanned c)" by (rule c)
  show "length (checked s) = end_entry_count e" using list_all2_lengthD [OF p] d(2) by simp
  assume "strict r"
  from central_loop_tiled [OF c(1) this] c(2) have "central_tiled source (unat (end_central_offset e)) (scanned c) (unat (end_offset e))"
    by simp
  from placed_central [OF p this] local_loop_tiled [OF c(4) \<open>strict r\<close>] c(5)
  show "local_tiled source 0 (checked s) (unat (end_central_offset e)) \<and>
      central_tiled source (unat (end_central_offset e)) (checked s) (unat (end_offset e))" by simp
qed

section \<open>Names\<close>

lemma AsciiLower_eq_slash [simp]: "AsciiLower c = slash \<longleftrightarrow> c = slash"
proof -
  have upper: False if "is_upper c" "c - ch CHR ''A'' + ch CHR ''a'' = slash"
  proof -
    have "c = slash - ch CHR ''a'' + ch CHR ''A''" using that(2) by (metis add_diff_cancel_right' diff_add_cancel)
    moreover have "\<not> is_upper (slash - ch CHR ''a'' + ch CHR ''A'')" by code_simp
    ultimately show ?thesis using that(1) by simp
  qed
  have "\<not> is_upper slash" by code_simp
  then show ?thesis using upper by (auto simp: AsciiLower_def)
qed

lemma FatPrefixDirectory_iff: "FatPrefixDirectory p q \<longleftrightarrow> (\<exists>rest. fat_key q = fat_key p @ slash # rest)"
  by (induction p q rule: FatPrefixDirectory.induct) (auto simp: fat_key_def neq_Nil_conv)

text \<open>\<open>below_file es\<close>: some entry lies in a directory whose name is that of a file of the archive.\<close>

definition below_file :: "ZipEntry list \<Rightarrow> bool" where
  "below_file es \<longleftrightarrow> (\<exists>f \<in> set es. \<not> is_directory f \<and>
     (\<exists>e \<in> set es. \<exists>rest. fat_key (entry_path e) = fat_key (entry_path f) @ slash # rest))"

lemma file_used_as_directory_iff: "file_used_as_directory es \<longleftrightarrow> below_file es"
proof
  assume "below_file es"
  then obtain i j where ij: "i < length es" "j < length es" "\<not> is_directory (es ! i)"
      "\<exists>rest. fat_key (entry_path (es ! j)) = fat_key (entry_path (es ! i)) @ slash # rest"
    by (auto simp: below_file_def in_set_conv_nth)
  then have "i \<noteq> j" by auto
  with ij show "file_used_as_directory es"
    unfolding file_used_as_directory_def list_ex_iff FatPrefixDirectory_iff set_upt
    by (intro bexI [of _ i] conjI bexI [of _ j]) simp_all
next
  assume "file_used_as_directory es"
  then obtain i j where "i < length es" "j < length es" "\<not> is_directory (es ! i)"
      "\<exists>rest. fat_key (entry_path (es ! j)) = fat_key (entry_path (es ! i)) @ slash # rest"
    by (auto simp: file_used_as_directory_def list_ex_iff FatPrefixDirectory_iff)
  then show "below_file es" unfolding below_file_def by (intro bexI [of _ "es ! i"] conjI bexI [of _ "es ! j"]) simp_all
qed

lemma placed_names:
  assumes "placed es es'"
  shows "list_all (path_accepted l) es' = list_all (path_accepted l) es" and "names_apart es' = names_apart es"
    and "below_file es' = below_file es" and "filter is_directory es' = [] \<longleftrightarrow> filter is_directory es = []"
    and "length (filter is_directory es') = length (filter is_directory es)"
    and "length (filter (\<lambda>e. \<not> is_directory e) es') = length (filter (\<lambda>e. \<not> is_directory e) es)"
proof -
  have k: "map (\<lambda>e. fat_key (entry_path e)) es' = map (\<lambda>e. fat_key (entry_path e)) es"
    and b: "map (\<lambda>e. (is_directory e, fat_key (entry_path e))) es' = map (\<lambda>e. (is_directory e, fat_key (entry_path e))) es"
    and a: "map (path_accepted l) es' = map (path_accepted l) es"
    and d: "map is_directory es' = map is_directory es"
    by (rule placed_map [OF assms], simp add: path_accepted_def)+
  show "list_all (path_accepted l) es' = list_all (path_accepted l) es"
    using arg_cong [OF a, of "list_all id"] by (simp add: list.pred_map comp_def)
  show "names_apart es' = names_apart es" using k by (simp add: names_apart_def)
  have bf: "below_file xs \<longleftrightarrow> (\<exists>p \<in> set (map (\<lambda>e. (is_directory e, fat_key (entry_path e))) xs). \<not> fst p \<and>
      (\<exists>q \<in> set (map (\<lambda>e. (is_directory e, fat_key (entry_path e))) xs). \<exists>rest. snd q = snd p @ slash # rest))" for xs
    by (simp add: below_file_def)
  show "below_file es' = below_file es" by (simp only: bf b)
  have f: "length (filter P xs) = length (filter id (map P xs))" for P :: "ZipEntry \<Rightarrow> bool" and xs
    by (simp add: filter_map)
  show "length (filter is_directory es') = length (filter is_directory es)"
    by (simp only: f [of is_directory es'] f [of is_directory es] d)
  then show "filter is_directory es' = [] \<longleftrightarrow> filter is_directory es = []" by (metis length_0_conv)
  show "length (filter (\<lambda>e. \<not> is_directory e) es') = length (filter (\<lambda>e. \<not> is_directory e) es)"
    using \<open>length (filter is_directory es') = length (filter is_directory es)\<close>
      sum_length_filter_compl [of is_directory es'] sum_length_filter_compl [of is_directory es]
      list_all2_lengthD [OF assms] by simp
qed

text \<open>
  C9: the entries of an archive that was opened, strictly or leniently, have names the release
  path policy accepts, no two of them the same name on a FAT volume, none of them below a file;
  and the counts of the inventory are those of the table.
\<close>

theorem opened_names_safe:
  assumes "Open source_pointer have_entries entry_capacity l progress r = (ZipOk, r')"
  shows "list_all (\<lambda>e. ValidateFatRelativePathBytes (Some (entry_path e)) (maximum_path_bytes l) = FatOk) (entries r') \<and>
    distinct (map (\<lambda>e. fat_key (entry_path e)) (entries r')) \<and> \<not> below_file (entries r') \<and>
    file_count (inventory r') = length (filter (\<lambda>e. \<not> is_directory e) (entries r')) \<and>
    directory_count (inventory r') = length (filter is_directory (entries r'))"
  using assms
proof (rule Open_ok)
  fix source e c s r0
  assume d: "read_directory source l r0 progress e = Inr (c, s)" and es: "entries r' = checked s"
    and i: "inventory r' = \<lparr>file_count = scanned_files c, directory_count = scanned_directories c,
       archive_size = end_archive_size e, installed_size = installed_bytes s,
       central_directory_offset = end_central_offset e, central_directory_size = end_central_size e\<rparr>"
  from read_directory_ok [OF d] placed_names [OF read_directory_ok(2) [OF d]] show ?thesis
    by (simp add: es i directory_counted_def path_accepted_def [symmetric] names_apart_def [symmetric] file_used_as_directory_iff
        path_accepted_def [abs_def, symmetric])
qed

section \<open>Every byte of a strict archive\<close>

lemma if_Inl_eq_Inr: "(if b then Inl x else y) = Inr z \<longleftrightarrow> \<not> b \<and> y = Inr z"
  by simp

lemma parse_end_record_ok:
  assumes "parse_end_record l False entry_capacity n offset bytes = Inr e"
  shows "ReadU32 bytes 0 = kEndSignature" and "end_archive_size e = n" and "end_offset e = offset"
    and "unat n = unat offset + kEndRecordSize" and "unat (end_central_offset e) + unat (end_central_size e) = unat offset"
    and "end_entry_count e = unat (ReadU16 bytes 10)" and "0 < end_entry_count e"
proof -
  note h = assms [unfolded parse_end_record_def Let_def if_Inl_eq_Inr not_False_eq_True HOL.simp_thms]
  show "ReadU32 bytes 0 = kEndSignature" using h by blast
  have "ReadU16 bytes 20 = 0" using h by blast
  moreover have "Option.bind (CheckedAdd offset (of_nat kEndRecordSize)) (\<lambda>e. CheckedAdd e (ucast (ReadU16 bytes 20))) = Some n"
    using h by blast
  ultimately show "unat n = unat offset + kEndRecordSize"
    by (auto simp: bind_eq_Some_conv kEndRecordSize_def dest!: CheckedAdd_Some)
  have e: "Inr \<lparr>end_archive_size = n, end_offset = offset, end_entry_count = unat (ReadU16 bytes 10),
      end_central_offset = ucast (ReadU32 bytes 16), end_central_size = ucast (ReadU32 bytes 12)\<rparr> =
      (Inr e :: ZipStatus + EndRecord)"
    using h by blast
  then show "end_archive_size e = n" "end_offset e = offset" "end_entry_count e = unat (ReadU16 bytes 10)" by auto
  have "ReadU16 bytes 10 \<noteq> 0" using h by blast
  then show "0 < end_entry_count e" using e by (auto simp: unat_gt_0)
  have "CheckedAdd (ucast (ReadU32 bytes 16)) (ucast (ReadU32 bytes 12)) = Some offset" using h by blast
  from CheckedAdd_Some [OF this] e show "unat (end_central_offset e) + unat (end_central_size e) = unat offset" by auto
qed

lemma find_end_record_ok:
  assumes "find_end_record source l lenient entry_capacity = Inr e"
  obtains n offset bytes where "GetSize source = Some n" "source_read source offset kEndRecordSize = Some bytes"
    "parse_end_record l lenient entry_capacity n offset bytes = Inr e"
proof -
  obtain n where n: "GetSize source = Some n"
    using assms by (cases "GetSize source") (auto simp: find_end_record_def)
  let ?b = "n - (if n < 65557 then n else 65557)"
  note h = assms [unfolded find_end_record_def n option.case Let_def if_Inl_eq_Inr]
  obtain found where f: "FindLastSignature source ?b n end_signature = Some found"
    using h by (cases "FindLastSignature source ?b n end_signature") auto
  note h = h [unfolded f option.case]
  obtain offset where o: "found = Some offset" using h by (cases found) auto
  note h = h [unfolded o option.case if_Inl_eq_Inr]
  obtain bytes where b: "source_read source offset kEndRecordSize = Some bytes"
    using h by (cases "source_read source offset kEndRecordSize") auto
  note h = h [unfolded b option.case]
  obtain e' where p: "parse_end_record l lenient entry_capacity n offset bytes = Inr e'"
    using h by (cases "parse_end_record l lenient entry_capacity n offset bytes") auto
  have "e' = e" using h unfolding p by (auto split: option.split_asm bool.split_asm)
  with that n b p show ?thesis by blast
qed

lemma central_tiled_sum:
  "central_tiled source a es b \<Longrightarrow> b = a + (\<Sum>e\<leftarrow>es. kCentralHeaderSize + length (stored_name e))"
proof (induction es arbitrary: a)
  case (Cons e es)
  then have "central_tiled source (a + kCentralHeaderSize + length (stored_name e)) es b" by simp
  from Cons.IH [OF this] show ?case by (simp only: list.map sum_list.Cons add.assoc)
qed simp

lemma local_tiled_sum:
  "local_tiled source a es b \<Longrightarrow>
   b = a + (\<Sum>e\<leftarrow>es. kLocalHeaderSize + length (stored_name e) + unat (compressed_size e))"
proof (induction es arbitrary: a)
  case (Cons e es)
  then have "local_tiled source (a + kLocalHeaderSize + length (stored_name e) + unat (compressed_size e)) es b" by simp
  from Cons.IH [OF this] show ?case by (simp only: list.map sum_list.Cons add.assoc)
qed simp

text \<open>
  C8: a strict reader accounts for every byte of the archive it opened.  From offset 0 there are,
  in the order of the table, the local header, the name and the payload of each entry, directly
  followed by the records of the central directory in the same order and by the end record, with
  nothing before, between or after them; so no two payloads overlap, and both headers of an
  entry agree with the table on its name, its flags, its checksum and its sizes.
\<close>

theorem opened_archive_tiled:
  assumes "Open (Some source) have_entries entry_capacity l progress r = (ZipOk, r')" and "strict r"
  shows "local_tiled source 0 (entries r') (unat (central_directory_offset (inventory r'))) \<and>
    central_tiled source (unat (central_directory_offset (inventory r'))) (entries r')
      (unat (central_directory_offset (inventory r')) + unat (central_directory_size (inventory r'))) \<and>
    unat (archive_size (inventory r')) =
      (\<Sum>e\<leftarrow>entries r'. kLocalHeaderSize + length (stored_name e) + unat (compressed_size e)) +
      (\<Sum>e\<leftarrow>entries r'. kCentralHeaderSize + length (stored_name e)) + kEndRecordSize"
  using assms(1)
proof (rule Open_ok)
  fix source' e c s r0
  assume "Some source = Some source'" and f: "find_end_record source' l (lenient_archive r) entry_capacity = Inr e"
    and d: "read_directory source' l r0 progress e = Inr (c, s)" and st: "strict r \<longleftrightarrow> strict r0"
    and es: "entries r' = checked s"
    and i: "inventory r' = \<lparr>file_count = scanned_files c, directory_count = scanned_directories c,
       archive_size = end_archive_size e, installed_size = installed_bytes s,
       central_directory_offset = end_central_offset e, central_directory_size = end_central_size e\<rparr>"
  then have src: "source' = source" by simp
  have "lenient_archive r = False" using assms(2) by (simp add: strict_def)
  from find_end_record_ok [OF f [unfolded this]]
  obtain n offset bytes where p: "parse_end_record l False entry_capacity n offset bytes = Inr e" by metis
  note p = parse_end_record_ok [OF p]
  have t: "local_tiled source 0 (checked s) (unat (end_central_offset e))"
      "central_tiled source (unat (end_central_offset e)) (checked s) (unat (end_offset e))"
    using read_directory_ok(5) [OF d] st assms(2) src by auto
  from local_tiled_sum [OF t(1)] central_tiled_sum [OF t(2)] t p(2-5) show ?thesis by (simp add: es i)
qed

section \<open>Searching by pieces\<close>

text \<open>
  \<open>backed source c\<close>: the source reads the bytes \<open>c\<close>.  \<open>range_hits\<close> are the offsets at which a
  signature of four bytes stands within a range.
\<close>

definition backed :: "SeekableZipSource \<Rightarrow> byte list \<Rightarrow> bool" where
  "backed source c \<longleftrightarrow> (\<forall>offset n. unat offset + n \<le> length c \<longrightarrow>
     source_read source offset n = Some (take n (drop (unat offset) c)))"

definition range_hits :: "byte list \<Rightarrow> byte list \<Rightarrow> nat \<Rightarrow> nat \<Rightarrow> nat list" where
  "range_hits signature c begin end = filter (\<lambda>i. take 4 (drop i c) = signature) [begin..<end - 3]"

lemma range_hits_split:
  assumes "m' = (if m \<le> o' - 3 then o' - 3 else m)" and "o' \<le> e"
  shows "range_hits signature c m e = range_hits signature c m o' @ range_hits signature c m' e"
proof (cases "m \<le> o' - 3")
  case True
  have "(o' - 3) + ((e - 3) - (o' - 3)) = e - 3" using assms(2) by linarith
  with upt_add_eq_append [OF True, of "(e - 3) - (o' - 3)"] have "[m..<e - 3] = [m..<o' - 3] @ [o' - 3..<e - 3]"
    by (simp only:)
  then show ?thesis using True assms(1) by (simp add: range_hits_def)
next
  case False
  then have "[m..<o' - 3] = []" by simp
  then show ?thesis using False assms(1) by (simp add: range_hits_def)
qed

lemma signature_hits_range:
  assumes "buffer = take n (drop m c)" and "m + n \<le> length c"
  shows "range_hits signature c m (m + n) = map ((+) m) (signature_hits signature buffer)"
proof -
  have len: "length buffer = n" using assms by simp
  have "take 4 (drop i buffer) = take 4 (drop (m + i) c)" if "i < n - 3" for i
    using that by (simp add: assms(1) drop_take add.commute min_def)
  then have f: "filter (\<lambda>i. take 4 (drop (m + i) c) = signature) [0..<n - 3] =
      filter (\<lambda>i. take 4 (drop i buffer) = signature) [0..<n - 3]"
    by (intro filter_cong) auto
  have "[m..<m + n - 3] = map ((+) m) [0..<n - 3]"
  proof (cases "3 \<le> n")
    case True
    then have "m + n - 3 = (n - 3) + m" by simp
    moreover have "map ((+) m) [0..<n - 3] = map (\<lambda>i. i + m) [0..<n - 3]" by (simp add: add.commute)
    ultimately show ?thesis by (simp only: map_add_upt)
  qed simp
  then show ?thesis by (simp add: range_hits_def signature_hits_def filter_map comp_def f len)
qed

text \<open>One piece: the buffer, the next prefix, and what the piece adds to the hits.\<close>

lemma search_piece:
  assumes b: "backed source c" and lt: "offset < end" and e: "unat end \<le> length c"
    and p: "prefix = take (unat offset - m) (drop m c)" "m \<le> unat offset"
  defines "o' \<equiv> unat (offset + of_nat (search_amount offset end))"
  obtains bytes m' where "source_read source offset (search_amount offset end) = Some bytes"
    "range_hits signature c m (unat end) =
       map ((+) m) (signature_hits signature (prefix @ bytes)) @ range_hits signature c m' (unat end)"
    "search_prefix (prefix @ bytes) = take (o' - m') (drop m' c)" "m' \<le> o'" "o' \<le> m' + 3" "o' \<le> unat end" "length prefix = unat offset - m"
proof -
  let ?n = "search_amount offset end" and ?o = "unat offset"
  note amount = search_amount_progress [OF lt]
  have o': "o' = ?o + ?n" "o' \<le> unat end" using amount by (simp_all add: o'_def)
  define bytes where "bytes = take ?n (drop ?o c)"
  have read: "source_read source offset ?n = Some bytes"
    using b o' e by (simp add: backed_def bytes_def)
  have lp: "length prefix = ?o - m" using p o' e by simp
  have "drop (?o - m) (drop m c) = drop ?o c" using p(2) by simp
  then have buffer: "prefix @ bytes = take (o' - m) (drop m c)"
  proof -
    have "o' - m = (?o - m) + ?n" using p(2) o'(1) by simp
    then show ?thesis using p \<open>drop (?o - m) (drop m c) = drop ?o c\<close> by (simp only: bytes_def take_add)
  qed
  have len: "length (prefix @ bytes) = o' - m" using o' e by (simp add: buffer)
  define m' where "m' = (if m \<le> o' - 3 then o' - 3 else m)"
  have mo: "m \<le> o'" using p(2) o'(1) by simp
  have hits: "range_hits signature c m (unat end) =
       map ((+) m) (signature_hits signature (prefix @ bytes)) @ range_hits signature c m' (unat end)"
    using range_hits_split [OF m'_def o'(2)] signature_hits_range [OF buffer] mo o'(2) e by simp
  have "search_prefix (prefix @ bytes) = take (o' - m') (drop m' c)"
  proof (cases "o' - m < 3")
    case True
    then have "m' = m" using mo unfolding m'_def by presburger
    with True show ?thesis by (simp only: search_prefix_def len) (simp add: buffer)
  next
    case False
    with mo have "m' = o' - 3" "m + (o' - m - 3) = o' - 3" "o' - m' = 3" by (auto simp: m'_def)
    with False show ?thesis by (simp only: search_prefix_def len) (simp add: buffer drop_take add.commute)
  qed
  moreover have "m' \<le> o'" "o' \<le> m' + 3" using mo by (auto simp: m'_def)
  ultimately show ?thesis using that read hits lp o'(2) by blast
qed

lemma range_hits_short: "e \<le> m + 3 \<Longrightarrow> range_hits signature c m e = []"
  by (simp add: range_hits_def)

lemma contains_loop_hits:
  "backed source c \<Longrightarrow> unat stop \<le> length c \<Longrightarrow> prefix = take (unat offset - m) (drop m c) \<Longrightarrow>
   m \<le> unat offset \<Longrightarrow> unat offset \<le> m + 3 \<Longrightarrow> unat offset \<le> unat stop \<Longrightarrow>
   contains_loop source stop signature prefix offset = Some (range_hits signature c m (unat stop) \<noteq> [])"
proof (induction source stop signature prefix offset arbitrary: m rule: contains_loop.induct)
  case (1 source stop signature prefix offset)
  show ?case
  proof (cases "offset < stop")
    case False
    then have "unat offset = unat stop" using "1.prems"(6) by (simp add: word_less_nat_alt)
    with False "1.prems"(5) show ?thesis by (simp add: contains_loop.simps range_hits_short)
  next
    case True
    let ?o' = "offset + of_nat (search_amount offset stop)"
    from search_piece [OF "1.prems"(1) True "1.prems"(2-4), where signature = signature]
    obtain bytes m' where b: "source_read source offset (search_amount offset stop) = Some bytes"
      "range_hits signature c m (unat stop) =
         map ((+) m) (signature_hits signature (prefix @ bytes)) @ range_hits signature c m' (unat stop)"
      "search_prefix (prefix @ bytes) = take (unat ?o' - m') (drop m' c)" "m' \<le> unat ?o'" "unat ?o' \<le> m' + 3"
      "unat ?o' \<le> unat stop" by metis
    show ?thesis
    proof (cases "signature_hits signature (prefix @ bytes) = []")
      case none: True
      from "1.IH" [OF _ b(1) refl, of m'] True none "1.prems"(1,2) b(3-6)
      show ?thesis by (simp add: contains_loop.simps [of source stop signature prefix] b(1,2) none)
    qed (simp add: contains_loop.simps [of source stop signature prefix] True b(1,2))
  qed
qed

lemma last_loop_hits:
  "backed source c \<Longrightarrow> unat stop \<le> length c \<Longrightarrow> prefix = take (unat offset - m) (drop m c) \<Longrightarrow>
   m \<le> unat offset \<Longrightarrow> unat offset \<le> m + 3 \<Longrightarrow> unat offset \<le> unat stop \<Longrightarrow>
   last_loop source stop signature found prefix offset =
     Some (if range_hits signature c m (unat stop) = [] then found
           else Some (of_nat (last (range_hits signature c m (unat stop)))))"
proof (induction source stop signature found prefix offset arbitrary: m rule: last_loop.induct)
  case (1 source stop signature found prefix offset)
  show ?case
  proof (cases "offset < stop")
    case False
    then have "unat offset = unat stop" using "1.prems"(6) by (simp add: word_less_nat_alt)
    with False "1.prems"(5) show ?thesis by (simp add: last_loop.simps range_hits_short)
  next
    case True
    let ?o' = "offset + of_nat (search_amount offset stop)"
    from search_piece [OF "1.prems"(1) True "1.prems"(2-4), where signature = signature]
    obtain bytes m' where b: "source_read source offset (search_amount offset stop) = Some bytes"
      "range_hits signature c m (unat stop) =
         map ((+) m) (signature_hits signature (prefix @ bytes)) @ range_hits signature c m' (unat stop)"
      "search_prefix (prefix @ bytes) = take (unat ?o' - m') (drop m' c)" "m' \<le> unat ?o'" "unat ?o' \<le> m' + 3"
      "unat ?o' \<le> unat stop" "length prefix = unat offset - m" by metis
    let ?hits = "signature_hits signature (prefix @ bytes)"
    have "offset = of_nat (unat offset)" by simp
    also have "\<dots> = of_nat (m + length prefix)" using b(7) "1.prems"(4) by simp
    finally have at: "offset - of_nat (length prefix) + of_nat (last ?hits) = of_nat (m + last ?hits)" by simp
    note IH = "1.IH" [OF _ b(1) refl refl, of m']
    show ?thesis
    proof (cases "?hits = []")
      case none: True
      with IH True "1.prems"(1,2) b(3-6) show ?thesis
        by (simp add: last_loop.simps [of source stop signature found prefix] b(1,2) none Let_def)
    next
      case some: False
      with IH True "1.prems"(1,2) b(3-6) at show ?thesis
        by (simp add: last_loop.simps [of source stop signature found prefix] b(1,2) some last_map Let_def)
    qed
  qed
qed

text \<open>
  C39: the searches by pieces equal a search of the whole range: over a source that reads the bytes
  \<open>c\<close>, \<open>ContainsSignature\<close> tells whether the signature occurs between the two offsets, wherever
  the pieces end, and \<open>FindLastSignature\<close> returns its last occurrence.
\<close>

theorem signature_search_exact:
  assumes "backed source c" and "start \<le> stop" and "unat stop \<le> length c"
  shows "ContainsSignature source start stop signature = Some (range_hits signature c (unat start) (unat stop) \<noteq> []) \<and>
    FindLastSignature source start stop signature =
      Some (if range_hits signature c (unat start) (unat stop) = [] then None
            else Some (of_nat (last (range_hits signature c (unat start) (unat stop)))))"
  using assms contains_loop_hits [of source c stop "[]" start "unat start" signature]
    last_loop_hits [of source c stop "[]" start "unat start" signature None]
  by (simp add: ContainsSignature_def FindLastSignature_def word_le_nat_alt word_less_nat_alt)

end
