(* ===== verification/Update_Installer.thy ===== *)
theory Update_Installer
  imports Update_Volume Zip_Stream
begin

text \<open>
  The installer of an authenticated release, \<open>src/src/update/simple_update_installer.cpp\<close>: the
  checks of the manifest, the comparison of the installed files with it, the extraction of the
  changed files in passes (ordinary files, kernels, configuration templates), the signed
  deletions and replacements, and the build identity last.

  The volume, the archive and the progress display are parameters.  The archive has been opened:
  the result of \<open>ZipReader::Open\<close> is an argument of \<open>Install\<close>, everything after it is the
  model of \<open>Zip_Stream\<close>.
\<close>

section \<open>The manifest\<close>

datatype ManifestFilePolicy = Kernel | ManagedReplace | ConfigTemplate | Preserve | Metadata

datatype ManifestCompression = ManifestStore | ManifestDeflate

record ManifestFile =
  file_path :: path
  file_size :: u64
  file_sha256 :: "byte list"
  policy :: ManifestFilePolicy
  file_compression :: ManifestCompression

record ManifestReplacement =
  replaced_path :: path
  replaced_by :: path

record ManifestAsset =
  files :: "ManifestFile list"
  directories :: "path list"
  deletions :: "path list"
  replacements :: "ManifestReplacement list"
  configuration_reset_required :: bool

definition kSimpleUpdateMinimumVolumeBytes :: u64 where
  "kSimpleUpdateMinimumVolumeBytes = 512 * 1024 * 1024"

definition kSimpleUpdateSafetyReserveBytes :: u64 where
  "kSimpleUpdateSafetyReserveBytes = 16 * 1024 * 1024"

definition kSimpleUpdateTemporaryPath :: path where
  "kSimpleUpdateTemporaryPath = bytes_of ''BMX-UPD.TMP''"

datatype SimpleUpdatePhase = HashPhase | InstallPhase

datatype SimpleUpdateStatus =
    UpdateOk | UpdateInvalidArgument | ReservedPathCollision | ZipInvalid | FileSystemError
  | VolumeTooSmall | InsufficientSpace | Canceled | ExtractFailed | PublishFailed

record SimpleUpdateWorkspace =
  have_zip_entries :: bool
  zip_entry_capacity :: nat
  have_expected_files :: bool
  expected_file_capacity :: nat
  have_expected_directories :: bool
  expected_directory_capacity :: nat
  have_file_actions :: bool
  file_action_capacity :: nat
  have_zip_workspace :: bool
  have_io_buffer :: bool
  io_buffer_size :: nat

record SimpleUpdateResult =
  update_status :: SimpleUpdateStatus
  zip_status :: ZipStatus
  changed_file_count :: nat
  unchanged_file_count :: nat
  preserved_file_count :: nat
  deleted_file_count :: nat
  changed_bytes :: u64
  required_free_bytes :: u64
  available_free_bytes :: u64

datatype FileAction = InstallFile | KeepUnchanged | PreserveExisting

type_synonym progress = "(SimpleUpdatePhase \<Rightarrow> u64 \<Rightarrow> u64 \<Rightarrow> bool) option"

section \<open>Helpers\<close>

definition AddWithoutOverflow :: "u64 \<Rightarrow> u64 \<Rightarrow> u64 option" where
  "AddWithoutOverflow left right = (if right > - 1 - left then None else Some (left + right))"

definition IsReservedPath :: "path \<Rightarrow> bool" where
  "IsReservedPath path \<longleftrightarrow>
     FatPathEqual path kSimpleUpdateTemporaryPath \<or> FatPathEqual path (bytes_of ''BMX-UPD.ZIP'') \<or>
     FatPathEqual path (bytes_of ''BMX-UPD.ZIP.part'')"

definition HasManagedReplacement :: "ManifestAsset \<Rightarrow> path \<Rightarrow> bool" where
  "HasManagedReplacement asset path =
     list_ex (\<lambda>file. FatPathEqual (file_path file) path \<and>
                     (policy file = Kernel \<or> policy file = ManagedReplace)) (files asset)"

text \<open>\<open>RemoveSignedFile\<close> returns whether it succeeded and the new count of removed files.\<close>

definition RemoveSignedFile ::
  "'v UpdateFileSystem \<Rightarrow> path \<Rightarrow> nat \<Rightarrow> 'v \<Rightarrow> bool \<times> nat \<times> 'v" where
  "RemoveSignedFile fs path removed_count v =
     (case Stat fs path v of
        (None, v) \<Rightarrow> (False, removed_count, v)
      | (Some st, v) \<Rightarrow>
          if stat_type st \<noteq> NodeMissing \<and> stat_type st \<noteq> NodeRegularFile then (False, removed_count, v)
          else if stat_type st = NodeMissing then (True, removed_count, v)
          else case RemoveFile fs path v of
            (False, v) \<Rightarrow> (False, removed_count, v)
          | (True, v) \<Rightarrow>
              (case SyncContainingDirectory fs path v of
                 (False, v) \<Rightarrow> (False, removed_count, v)
               | (True, v) \<Rightarrow> (True, removed_count + 1, v)))"

definition WorkspaceValid :: "SimpleUpdateWorkspace \<Rightarrow> ManifestAsset \<Rightarrow> bool" where
  "WorkspaceValid w asset \<longleftrightarrow>
     have_zip_entries w \<and> zip_entry_capacity w \<noteq> 0 \<and>
     have_expected_files w \<and> expected_file_capacity w \<ge> length (files asset) \<and>
     have_expected_directories w \<and> expected_directory_capacity w \<ge> length (directories asset) \<and>
     have_file_actions w \<and> file_action_capacity w \<ge> length (files asset) \<and>
     have_zip_workspace w \<and> have_io_buffer w \<and> io_buffer_size w \<noteq> 0"

definition Result :: "SimpleUpdateStatus \<Rightarrow> SimpleUpdateResult" where
  "Result status = \<lparr>update_status = status, zip_status = ZipOk, changed_file_count = 0,
     unchanged_file_count = 0, preserved_file_count = 0, deleted_file_count = 0,
     changed_bytes = 0, required_free_bytes = 0, available_free_bytes = 0\<rparr>"

definition BuildExpectedInventory :: "ManifestAsset \<Rightarrow> ZipExpectedInventory" where
  "BuildExpectedInventory asset =
     \<lparr>expected_files = map (\<lambda>file.
        \<lparr>expected_path = Some (file_path file), expected_size = file_size file,
         expected_compression =
           (if file_compression file = ManifestStore then ZipStore else ZipDeflate),
         expected_sha256 = Some (file_sha256 file)\<rparr>) (files asset),
      expected_directories = map Some (directories asset)\<rparr>"

definition Report :: "progress \<Rightarrow> SimpleUpdatePhase \<Rightarrow> u64 \<Rightarrow> u64 \<Rightarrow> bool" where
  "Report progress phase completed all_bytes =
     (case progress of None \<Rightarrow> True | Some report \<Rightarrow> report phase completed all_bytes)"

definition IsBuildIdentity :: "ManifestFile \<Rightarrow> bool" where
  "IsBuildIdentity file \<longleftrightarrow> policy file = Metadata \<and> FatPathEqual (file_path file) (bytes_of ''BMX-BUILD.json'')"

definition InstallPass :: "ManifestFile \<Rightarrow> nat" where
  "InstallPass file =
     (if IsBuildIdentity file then 3
      else if policy file = Kernel then 1
      else if policy file = ConfigTemplate then 2
      else 0)"

section \<open>Hashing an installed file\<close>

datatype HashTargetStatus = HashTargetOk | HashTargetCanceled | HashTargetFailed

text \<open>
  The read loop.  \<open>buffer_bytes\<close> is not zero (\<open>WorkspaceValid\<close>, which the only caller has
  checked): with a buffer of no bytes the loop of the source would not advance.
\<close>

function hash_loop ::
  "'v UpdateFileSystem \<Rightarrow> path \<Rightarrow> nat \<Rightarrow> nat \<Rightarrow> u64 \<Rightarrow> u64 \<Rightarrow> progress \<Rightarrow> nat \<Rightarrow> Sha256 \<Rightarrow> 'v \<Rightarrow>
   HashTargetStatus \<times> Sha256 \<times> 'v" where
  "hash_loop fs path wanted_size buffer_bytes progress_base progress_total progress offset hash v =
     (if offset < wanted_size \<and> buffer_bytes \<noteq> 0 then
        let amount = (if buffer_bytes > wanted_size - offset then wanted_size - offset else buffer_bytes) in
        case FileReadAt fs path (of_nat offset) amount v of
          (None, v) \<Rightarrow> (HashTargetFailed, hash, snd (FileCloseRead fs path v))
        | (Some buffer, v) \<Rightarrow>
            (case Sha256_Update (Some buffer) amount hash of
               (False, hash) \<Rightarrow> (HashTargetFailed, hash, snd (FileCloseRead fs path v))
             | (True, hash) \<Rightarrow>
                 let offset = offset + amount in
                 if \<not> Report progress HashPhase (progress_base + of_nat offset) progress_total
                 then (HashTargetCanceled, hash, snd (FileCloseRead fs path v))
                 else hash_loop fs path wanted_size buffer_bytes progress_base progress_total progress offset hash v)
      else (HashTargetOk, hash, v))"
  by pat_completeness auto
termination
  by (relation "measure (\<lambda>(fs, path, n, b, base, all, progress, offset, hash, v). n - offset)") auto

declare hash_loop.simps [simp del]

definition HashTarget ::
  "'v UpdateFileSystem \<Rightarrow> path \<Rightarrow> u64 \<Rightarrow> nat \<Rightarrow> u64 \<Rightarrow> u64 \<Rightarrow> progress \<Rightarrow> 'v \<Rightarrow>
   HashTargetStatus \<times> byte list \<times> 'v" where
  "HashTarget fs path wanted_size buffer_bytes progress_base progress_total progress v =
     (case OpenRead fs path v of
        (False, v) \<Rightarrow> (HashTargetFailed, [], v)
      | (True, v) \<Rightarrow>
     (case FileGetSize fs path v of
        (actual_size, v) \<Rightarrow>
          if actual_size \<noteq> Some wanted_size then (HashTargetFailed, [], snd (FileCloseRead fs path v))
          else case hash_loop fs path (unat wanted_size) buffer_bytes progress_base progress_total
                      progress 0 Sha256_Reset v of
            (status, hash, v) \<Rightarrow>
              if status \<noteq> HashTargetOk then (status, [], v)
              else case FileCloseRead fs path v of
                (False, v) \<Rightarrow> (HashTargetFailed, [], v)
              | (True, v) \<Rightarrow>
                  (case Sha256_Final True hash of
                     (None, _) \<Rightarrow> (HashTargetFailed, [], v)
                   | (Some digest, _) \<Rightarrow> (HashTargetOk, digest, v))))"

section \<open>The sinks\<close>

text \<open>\<open>SingleFileExtractSink\<close>: its own fields and the volume it works on.\<close>

record 'v SingleFileExtractSink =
  sink_volume :: 'v
  sink_file :: bool
  written :: u64
  sink_active :: bool

definition new_extract_sink :: "'v \<Rightarrow> 'v SingleFileExtractSink" where
  "new_extract_sink v = \<lparr>sink_volume = v, sink_file = False, written = 0, sink_active = False\<rparr>"

definition extract_begin ::
  "'v UpdateFileSystem \<Rightarrow> path \<Rightarrow> ZipEntry \<Rightarrow> 'v SingleFileExtractSink \<Rightarrow> bool \<times> 'v SingleFileExtractSink" where
  "extract_begin fs target entry s =
     (if sink_active s \<or> is_directory entry \<or> entry_path entry \<noteq> target then (False, s)
      else case RemoveFile fs kSimpleUpdateTemporaryPath (sink_volume s) of
        (False, v) \<Rightarrow> (False, s\<lparr>sink_volume := v\<rparr>)
      | (True, v) \<Rightarrow>
          (case CreateFileFresh fs kSimpleUpdateTemporaryPath v of
             (False, v) \<Rightarrow> (False, s\<lparr>sink_volume := v\<rparr>)
           | (True, v) \<Rightarrow>
               (True, s\<lparr>sink_volume := v, sink_file := True, written := 0, sink_active := True\<rparr>)))"

definition extract_write ::
  "'v UpdateFileSystem \<Rightarrow> u64 \<Rightarrow> u64 \<Rightarrow> progress \<Rightarrow> byte list \<Rightarrow> 'v SingleFileExtractSink \<Rightarrow>
   bool \<times> 'v SingleFileExtractSink" where
  "extract_write fs stage_base stage_total progress bytes s =
     (if \<not> sink_active s \<or> \<not> sink_file s then (False, s)
      else case FileWrite fs kSimpleUpdateTemporaryPath bytes (sink_volume s) of
        (False, v) \<Rightarrow> (False, s\<lparr>sink_volume := v\<rparr>)
      | (True, v) \<Rightarrow>
          let s = s\<lparr>sink_volume := v, written := written s + of_nat (length bytes)\<rparr>
          in (Report progress InstallPhase (stage_base + written s) stage_total, s))"

text \<open>The rename and the directory sync of a commit whose temporary file has been stored.\<close>

definition extract_publish :: "'v UpdateFileSystem \<Rightarrow> path \<Rightarrow> 'v \<Rightarrow> bool \<times> 'v" where
  "extract_publish fs target v =
     (case Rename fs kSimpleUpdateTemporaryPath target True v of
        (False, v) \<Rightarrow> (False, v)
      | (True, v) \<Rightarrow> SyncContainingDirectory fs target v)"

definition extract_commit ::
  "'v UpdateFileSystem \<Rightarrow> path \<Rightarrow> u64 \<Rightarrow> u64 \<Rightarrow> progress \<Rightarrow> ZipEntry \<Rightarrow> 'v SingleFileExtractSink \<Rightarrow>
   bool \<times> 'v SingleFileExtractSink" where
  "extract_commit fs target stage_base stage_total progress entry s =
     (if \<not> sink_active s \<or> \<not> sink_file s \<or> entry_path entry \<noteq> target then (False, s)
      else case FileSync fs kSimpleUpdateTemporaryPath (sink_volume s) of (synced, v) \<Rightarrow>
        (case FileClose fs kSimpleUpdateTemporaryPath v of (closed, v) \<Rightarrow>
          let s = s\<lparr>sink_file := False, sink_active := False\<rparr>;
              (published, v) = (if synced \<and> closed then extract_publish fs target v else (False, v)) in
          if \<not> published
          then (False, s\<lparr>sink_volume := snd (RemoveFile fs kSimpleUpdateTemporaryPath v)\<rparr>)
          else (Report progress InstallPhase (stage_base + written s) stage_total, s\<lparr>sink_volume := v\<rparr>)))"

definition extract_abort ::
  "'v UpdateFileSystem \<Rightarrow> ZipEntry \<Rightarrow> 'v SingleFileExtractSink \<Rightarrow> 'v SingleFileExtractSink" where
  "extract_abort fs entry s =
     (let v = (if sink_file s then snd (FileClose fs kSimpleUpdateTemporaryPath (sink_volume s))
               else sink_volume s)
      in s\<lparr>sink_volume := snd (RemoveFile fs kSimpleUpdateTemporaryPath v), sink_file := False,
            sink_active := False\<rparr>)"

definition SingleFileExtractOps ::
  "'v UpdateFileSystem \<Rightarrow> path \<Rightarrow> u64 \<Rightarrow> u64 \<Rightarrow> progress \<Rightarrow> 'v SingleFileExtractSink ZipExtractSink" where
  "SingleFileExtractOps fs target stage_base stage_total progress =
     \<lparr>BeginEntry = extract_begin fs target,
      SinkWrite = extract_write fs stage_base stage_total progress,
      CommitEntry = extract_commit fs target stage_base stage_total progress,
      AbortEntry = extract_abort fs\<rparr>"

record SimpleZipHashSink =
  zip_hash :: Sha256
  hash_expected :: u64
  hash_received :: u64
  hash_active :: bool

definition new_hash_sink :: SimpleZipHashSink where
  "new_hash_sink = \<lparr>zip_hash = Sha256_Reset, hash_expected = 0, hash_received = 0, hash_active = False\<rparr>"

definition hash_begin :: "path \<Rightarrow> u64 \<Rightarrow> SimpleZipHashSink \<Rightarrow> bool \<times> SimpleZipHashSink" where
  "hash_begin path n h =
     (if hash_active h then (False, h)
      else (True, h\<lparr>zip_hash := Sha256_Reset, hash_expected := n, hash_received := 0, hash_active := True\<rparr>))"

definition hash_update :: "byte list \<Rightarrow> SimpleZipHashSink \<Rightarrow> bool \<times> SimpleZipHashSink" where
  "hash_update bytes h =
     (if \<not> hash_active h \<or> of_nat (length bytes) > hash_expected h - hash_received h then (False, h)
      else case Sha256_Update (Some bytes) (length bytes) (zip_hash h) of
        (False, s) \<Rightarrow> (False, h\<lparr>zip_hash := s\<rparr>)
      | (True, s) \<Rightarrow> (True, h\<lparr>zip_hash := s, hash_received := hash_received h + of_nat (length bytes)\<rparr>))"

definition hash_finish :: "SimpleZipHashSink \<Rightarrow> byte list option \<times> SimpleZipHashSink" where
  "hash_finish h =
     (if \<not> hash_active h \<or> hash_received h \<noteq> hash_expected h then (None, h\<lparr>hash_active := False\<rparr>)
      else case Sha256_Final True (zip_hash h) of
        (digest, s) \<Rightarrow> (digest, h\<lparr>zip_hash := s, hash_active := False\<rparr>))"

definition hash_abort :: "SimpleZipHashSink \<Rightarrow> SimpleZipHashSink" where
  "hash_abort h = h\<lparr>hash_active := False\<rparr>"

definition SimpleZipHashOps :: "SimpleZipHashSink ZipHashSink" where
  "SimpleZipHashOps =
     \<lparr>BeginFile = hash_begin, HashUpdate = hash_update, FinishFile = hash_finish, AbortFile = hash_abort\<rparr>"

section \<open>Install\<close>

text \<open>
  The checks of the manifest before anything is opened: the status the source returns early
  with, or the total number of bytes of the files.
\<close>

fun check_files :: "ManifestFile list \<Rightarrow> nat \<Rightarrow> u64 \<Rightarrow> SimpleUpdateStatus + nat \<times> u64" where
  "check_files [] build_identity_count hash_total = Inr (build_identity_count, hash_total)"
| "check_files (file # fls) build_identity_count hash_total =
     (if IsReservedPath (file_path file) then Inl ReservedPathCollision
      else let build_identity_count =
                 (if IsBuildIdentity file then build_identity_count + 1 else build_identity_count) in
        case AddWithoutOverflow hash_total (file_size file) of
          None \<Rightarrow> Inl UpdateInvalidArgument
        | Some hash_total \<Rightarrow> check_files fls build_identity_count hash_total)"

fun check_deletions :: "ManifestAsset \<Rightarrow> path list \<Rightarrow> SimpleUpdateStatus option" where
  "check_deletions asset [] = None"
| "check_deletions asset (path # paths) =
     (if IsReservedPath path then Some ReservedPathCollision
      else if list_ex (\<lambda>file. FatPathEqual path (file_path file)) (files asset)
      then Some UpdateInvalidArgument
      else check_deletions asset paths)"

fun check_replacements :: "ManifestAsset \<Rightarrow> ManifestReplacement list \<Rightarrow> SimpleUpdateStatus option" where
  "check_replacements asset [] = None"
| "check_replacements asset (replacement # rs) =
     (if IsReservedPath (replaced_path replacement) \<or>
         FatPathEqual (replaced_path replacement) (replaced_by replacement) \<or>
         \<not> HasManagedReplacement asset (replaced_by replacement)
      then Some ReservedPathCollision
      else if list_ex (\<lambda>file. FatPathEqual (replaced_path replacement) (file_path file)) (files asset)
      then Some UpdateInvalidArgument
      else check_replacements asset rs)"

definition check_manifest :: "ManifestAsset \<Rightarrow> SimpleUpdateStatus + u64" where
  "check_manifest asset =
     (case check_files (files asset) 0 0 of
        Inl status \<Rightarrow> Inl status
      | Inr (build_identity_count, hash_total) \<Rightarrow>
          if build_identity_count \<noteq> 1 then Inl UpdateInvalidArgument
          else case check_deletions asset (deletions asset) of
            Some status \<Rightarrow> Inl status
          | None \<Rightarrow>
              (case check_replacements asset (replacements asset) of
                 Some status \<Rightarrow> Inl status
               | None \<Rightarrow> Inr hash_total))"

text \<open>
  The comparison of the installed files with the manifest: for each file the action to take.
  The result of \<open>plan_file\<close> is the early return, or the action with the counters.
\<close>

record plan_state =
  plan_result :: SimpleUpdateResult
  hashed :: u64
  largest_changed :: u64

definition preserves :: "bool \<Rightarrow> ManifestFile \<Rightarrow> bool" where
  "preserves reset_configuration item \<longleftrightarrow>
     policy item = Preserve \<or> (policy item = ConfigTemplate \<and> \<not> reset_configuration)"

definition choose_action ::
  "'v UpdateFileSystem \<Rightarrow> bool \<Rightarrow> nat \<Rightarrow> u64 \<Rightarrow> u64 \<Rightarrow> progress \<Rightarrow> ManifestFile \<Rightarrow> 'v \<Rightarrow>
   (SimpleUpdateStatus + FileAction) \<times> 'v" where
  "choose_action fs reset_configuration io_bytes progress_base hash_total progress item v =
     (case Stat fs (file_path item) v of
        (None, v) \<Rightarrow> (Inl FileSystemError, v)
      | (Some st, v) \<Rightarrow>
          if stat_type st \<noteq> NodeMissing \<and> stat_type st \<noteq> NodeRegularFile then (Inl FileSystemError, v)
          else if preserves reset_configuration item \<and> stat_type st = NodeRegularFile
          then (Inr PreserveExisting, v)
          else if stat_type st = NodeRegularFile \<and> stat_size st = file_size item then
            (case HashTarget fs (file_path item) (file_size item) io_bytes progress_base hash_total progress v of
               (HashTargetCanceled, _, v) \<Rightarrow> (Inl Canceled, v)
             | (HashTargetFailed, _, v) \<Rightarrow> (Inl FileSystemError, v)
             | (HashTargetOk, digest, v) \<Rightarrow>
                 (Inr (if ConstantTimeDigestEqual (Some digest) (Some (file_sha256 item))
                       then KeepUnchanged else InstallFile), v))
          else (Inr InstallFile, v))"

definition count_action :: "ManifestFile \<Rightarrow> FileAction \<Rightarrow> plan_state \<Rightarrow> bool \<times> plan_state" where
  "count_action item action s =
     (let r = plan_result s in
      case action of
        PreserveExisting \<Rightarrow> (True, s\<lparr>plan_result := r\<lparr>preserved_file_count := preserved_file_count r + 1\<rparr>\<rparr>)
      | KeepUnchanged \<Rightarrow> (True, s\<lparr>plan_result := r\<lparr>unchanged_file_count := unchanged_file_count r + 1\<rparr>\<rparr>)
      | InstallFile \<Rightarrow>
          let r = r\<lparr>changed_file_count := changed_file_count r + 1\<rparr> in
          (case AddWithoutOverflow (changed_bytes r) (file_size item) of
             None \<Rightarrow> (False, s\<lparr>plan_result := r\<rparr>)
           | Some bytes \<Rightarrow>
               (True, s\<lparr>plan_result := r\<lparr>changed_bytes := bytes\<rparr>,
                        largest_changed := (if file_size item > largest_changed s then file_size item
                                            else largest_changed s)\<rparr>)))"

definition refuse :: "SimpleUpdateStatus \<Rightarrow> SimpleUpdateResult \<Rightarrow> SimpleUpdateResult" where
  "refuse status r = r\<lparr>update_status := status\<rparr>"

fun plan_files ::
  "'v UpdateFileSystem \<Rightarrow> bool \<Rightarrow> nat \<Rightarrow> u64 \<Rightarrow> progress \<Rightarrow> ManifestFile list \<Rightarrow> FileAction list \<Rightarrow>
   plan_state \<Rightarrow> 'v \<Rightarrow> (SimpleUpdateResult + plan_state \<times> FileAction list) \<times> 'v" where
  "plan_files fs reset io_bytes hash_total progress [] actions s v = (Inr (s, actions), v)"
| "plan_files fs reset io_bytes hash_total progress (item # items) actions s v =
     (case choose_action fs reset io_bytes (hashed s) hash_total progress item v of
        (Inl status, v) \<Rightarrow> (Inl (refuse status (plan_result s)), v)
      | (Inr action, v) \<Rightarrow>
          (case count_action item action s of
             (False, s) \<Rightarrow> (Inl (refuse UpdateInvalidArgument (plan_result s)), v)
           | (True, s) \<Rightarrow>
               (case AddWithoutOverflow (hashed s) (file_size item) of
                  None \<Rightarrow> (Inl (refuse Canceled (plan_result s)), v)
                | Some hashed_bytes \<Rightarrow>
                    if \<not> Report progress HashPhase hashed_bytes hash_total
                    then (Inl (refuse Canceled (plan_result s)), v)
                    else plan_files fs reset io_bytes hash_total progress items (actions @ [action])
                           (s\<lparr>hashed := hashed_bytes\<rparr>) v)))"

fun create_directories :: "'v UpdateFileSystem \<Rightarrow> path list \<Rightarrow> 'v \<Rightarrow> bool \<times> 'v" where
  "create_directories fs [] v = (True, v)"
| "create_directories fs (path # paths) v =
     (case CreateDirectory fs path v of
        (False, v) \<Rightarrow> (False, v)
      | (True, v) \<Rightarrow> create_directories fs paths v)"

text \<open>
  The extraction of one file and of one pass.  \<open>install_state\<close> holds what the loops share: the
  volume, the reader, the hash sink, the bytes installed so far and the last zip status.
\<close>

record 'v install_state =
  volume :: 'v
  reader :: ZipReader
  hash_sink :: SimpleZipHashSink
  installed :: u64
  last_zip :: ZipStatus

definition install_file ::
  "'v UpdateFileSystem \<Rightarrow> 'd inflater \<Rightarrow> 'd \<Rightarrow> ZipExpectedInventory \<Rightarrow> u64 \<Rightarrow> progress \<Rightarrow> ManifestFile \<Rightarrow>
   'v install_state \<Rightarrow> bool \<times> 'v install_state" where
  "install_file fs inflate tinfl_init expected stage_total progress item s =
     (case ExtractOne (reader s) inflate tinfl_init (file_path item) expected
             (SingleFileExtractOps fs (file_path item) (installed s) stage_total progress)
             (Some SimpleZipHashOps) (hash_sink s) (new_extract_sink (volume s)) of
        (status, r, h, sink) \<Rightarrow>
          let s = s\<lparr>volume := sink_volume sink, reader := r, hash_sink := h, last_zip := status\<rparr> in
          if status \<noteq> ZipOk
          then (False, s\<lparr>volume := snd (RemoveFile fs kSimpleUpdateTemporaryPath (volume s))\<rparr>)
          else (True, s\<lparr>installed := installed s + file_size item\<rparr>))"

fun install_pass ::
  "'v UpdateFileSystem \<Rightarrow> 'd inflater \<Rightarrow> 'd \<Rightarrow> ZipExpectedInventory \<Rightarrow> u64 \<Rightarrow> progress \<Rightarrow> nat \<Rightarrow>
   (ManifestFile \<times> FileAction) list \<Rightarrow> 'v install_state \<Rightarrow> bool \<times> 'v install_state" where
  "install_pass fs inflate tinfl_init expected stage_total progress pass [] s = (True, s)"
| "install_pass fs inflate tinfl_init expected stage_total progress pass ((item, action) # items) s =
     (if InstallPass item \<noteq> pass \<or> action \<noteq> InstallFile
      then install_pass fs inflate tinfl_init expected stage_total progress pass items s
      else case install_file fs inflate tinfl_init expected stage_total progress item s of
        (False, s) \<Rightarrow> (False, s)
      | (True, s) \<Rightarrow> install_pass fs inflate tinfl_init expected stage_total progress pass items s)"

fun install_passes ::
  "'v UpdateFileSystem \<Rightarrow> 'd inflater \<Rightarrow> 'd \<Rightarrow> ZipExpectedInventory \<Rightarrow> u64 \<Rightarrow> progress \<Rightarrow>
   (ManifestFile \<times> FileAction) list \<Rightarrow> nat list \<Rightarrow> 'v install_state \<Rightarrow> bool \<times> 'v install_state" where
  "install_passes fs inflate tinfl_init expected stage_total progress items [] s = (True, s)"
| "install_passes fs inflate tinfl_init expected stage_total progress items (pass # passes) s =
     (case install_pass fs inflate tinfl_init expected stage_total progress pass items s of
        (False, s) \<Rightarrow> (False, s)
      | (True, s) \<Rightarrow> install_passes fs inflate tinfl_init expected stage_total progress items passes s)"

fun remove_signed_files ::
  "'v UpdateFileSystem \<Rightarrow> path list \<Rightarrow> nat \<Rightarrow> 'v \<Rightarrow> bool \<times> nat \<times> 'v" where
  "remove_signed_files fs [] removed_count v = (True, removed_count, v)"
| "remove_signed_files fs (path # paths) removed_count v =
     (case RemoveSignedFile fs path removed_count v of
        (False, removed_count, v) \<Rightarrow> (False, removed_count, v)
      | (True, removed_count, v) \<Rightarrow> remove_signed_files fs paths removed_count v)"

text \<open>
  The part of \<open>Install\<close> after the free space was found sufficient: directories, passes,
  deletions, replacements, the build identity, and the removal of the temporary file.
\<close>

definition finish_install ::
  "'v UpdateFileSystem \<Rightarrow> u64 \<Rightarrow> progress \<Rightarrow> SimpleUpdateResult \<Rightarrow> 'v install_state \<Rightarrow> SimpleUpdateResult \<times> 'v" where
  "finish_install fs stage_total progress r s =
     (case RemoveFile fs kSimpleUpdateTemporaryPath (volume s) of (removed, v) \<Rightarrow>
        if \<not> removed \<or> \<not> Report progress InstallPhase stage_total stage_total
        then (refuse PublishFailed r, v)
        else (refuse UpdateOk r, v))"

definition publish ::
  "'v UpdateFileSystem \<Rightarrow> 'd inflater \<Rightarrow> 'd \<Rightarrow> ManifestAsset \<Rightarrow> ZipExpectedInventory \<Rightarrow> progress \<Rightarrow>
   (ManifestFile \<times> FileAction) list \<Rightarrow> u64 \<Rightarrow> SimpleUpdateResult \<Rightarrow> 'v install_state \<Rightarrow>
   SimpleUpdateResult \<times> 'v" where
  "publish fs inflate tinfl_init asset expected progress items stage_total r s =
     (case install_passes fs inflate tinfl_init expected stage_total progress items [0, 1, 2] s of (ok, s) \<Rightarrow>
      let r = r\<lparr>zip_status := last_zip s\<rparr> in
      if \<not> ok then (refuse ExtractFailed r, volume s)
      else case remove_signed_files fs (deletions asset) (deleted_file_count r) (volume s) of (ok, removed, v) \<Rightarrow>
        let r = r\<lparr>deleted_file_count := removed\<rparr> in
        if \<not> ok then (refuse PublishFailed r, v)
        else case remove_signed_files fs (map replaced_path (replacements asset)) (deleted_file_count r) v of
          (ok, removed, v) \<Rightarrow>
          let r = r\<lparr>deleted_file_count := removed\<rparr> in
          if \<not> ok then (refuse PublishFailed r, v)
          else case install_pass fs inflate tinfl_init expected stage_total progress 3 items (s\<lparr>volume := v\<rparr>) of
            (ok, s) \<Rightarrow>
            let r = r\<lparr>zip_status := last_zip s\<rparr> in
            if \<not> ok then (refuse ExtractFailed r, volume s)
            else finish_install fs stage_total progress r s)"

definition apply_plan ::
  "'v UpdateFileSystem \<Rightarrow> 'd inflater \<Rightarrow> 'd \<Rightarrow> ManifestAsset \<Rightarrow> ZipExpectedInventory \<Rightarrow> progress \<Rightarrow> ZipReader \<Rightarrow>
   plan_state \<Rightarrow> FileAction list \<Rightarrow> 'v \<Rightarrow> SimpleUpdateResult \<times> 'v" where
  "apply_plan fs inflate tinfl_init asset expected progress r_zip s actions v =
     (let r = plan_result s in
      case AddWithoutOverflow (largest_changed s) kSimpleUpdateSafetyReserveBytes of
        None \<Rightarrow> (refuse FileSystemError r, v)
      | Some required \<Rightarrow>
        let r = r\<lparr>required_free_bytes := required\<rparr> in
        (case GetFreeSpace fs v of
           (None, v) \<Rightarrow> (refuse FileSystemError r, v)
         | (Some available, v) \<Rightarrow>
           let r = r\<lparr>available_free_bytes := available\<rparr> in
           if available < required then (refuse InsufficientSpace r, v)
           else case RemoveFile fs kSimpleUpdateTemporaryPath v of
             (False, v) \<Rightarrow> (refuse FileSystemError r, v)
           | (True, v) \<Rightarrow>
             (case create_directories fs (directories asset) v of
                (False, v) \<Rightarrow> (refuse FileSystemError r, v)
              | (True, v) \<Rightarrow>
                let stage_total = (if changed_bytes r = 0 then 1 else changed_bytes r) in
                if \<not> Report progress InstallPhase 0 stage_total then (refuse PublishFailed r, v)
                else publish fs inflate tinfl_init asset expected progress (zip (files asset) actions)
                       stage_total r
                       \<lparr>volume = v, reader = r_zip, hash_sink = new_hash_sink, installed = 0,
                        last_zip = zip_status r\<rparr>)))"

text \<open>
  \<open>Install\<close>.  \<open>opened\<close> is what \<open>ZipReader::Open\<close> returned for the archive, \<open>None\<close> for a null
  archive; \<open>file_system\<close> is \<open>None\<close> for an installer constructed with a null pointer.
\<close>

definition Install ::
  "'v UpdateFileSystem option \<Rightarrow> 'd inflater \<Rightarrow> 'd \<Rightarrow> (ZipStatus \<times> ZipReader) option \<Rightarrow> ManifestAsset \<Rightarrow>
   bool \<Rightarrow> bool \<Rightarrow> SimpleUpdateWorkspace \<Rightarrow> progress \<Rightarrow> 'v \<Rightarrow> SimpleUpdateResult \<times> 'v" where
  "Install file_system inflate tinfl_init opened asset reset_configuration archive_bytes_authenticated w progress v =
     (case (file_system, opened) of
        (Some fs, Some (open_status, r_zip)) \<Rightarrow>
        if \<not> archive_bytes_authenticated \<or> files asset = [] \<or>
           (configuration_reset_required asset \<and> \<not> reset_configuration) \<or> \<not> WorkspaceValid w asset
        then (Result UpdateInvalidArgument, v)
        else (case check_manifest asset of
          Inl status \<Rightarrow> (Result status, v)
        | Inr hash_total \<Rightarrow>
          let expected = BuildExpectedInventory asset; r = Result UpdateInvalidArgument in
          if open_status \<noteq> ZipOk then (r\<lparr>zip_status := open_status, update_status := ZipInvalid\<rparr>, v)
          else case BindAuthenticatedInventory r_zip expected of (bind_status, r_zip) \<Rightarrow>
            if bind_status \<noteq> ZipOk then (r\<lparr>zip_status := bind_status, update_status := ZipInvalid\<rparr>, v)
            else case GetVolumeSize fs v of
              (None, v) \<Rightarrow> (refuse FileSystemError r, v)
            | (Some volume_size, v) \<Rightarrow>
              if volume_size < kSimpleUpdateMinimumVolumeBytes then (refuse VolumeTooSmall r, v)
              else if \<not> Report progress HashPhase 0 hash_total then (refuse Canceled r, v)
              else case plan_files fs reset_configuration (io_buffer_size w) hash_total progress (files asset) []
                          \<lparr>plan_result = r, hashed = 0, largest_changed = 0\<rparr> v of
                (Inl r, v) \<Rightarrow> (r, v)
              | (Inr (s, actions), v) \<Rightarrow>
                  apply_plan fs inflate tinfl_init asset expected progress r_zip s actions v)
      | _ \<Rightarrow> (Result UpdateInvalidArgument, v))"

end
