(* ===== verification/Installer_Volume.thy ===== *)
theory Installer_Volume
  imports Update_Installer
begin

text \<open>
  What the installer does to a volume, proved once for every implementation of the interface
  in the context of the locale \<open>update_volume\<close>: the effect of the extraction sink, of one file,
  of a pass, of the signed deletions, and the plan made from the installed files.
\<close>

section \<open>Digests\<close>

lemma DigestEqual_iff: "length a = 32 \<Longrightarrow> length b = 32 \<Longrightarrow> DigestEqual a b \<longleftrightarrow> a = b"
  using ConstantTimeDigestEqual_iff by (simp add: DigestEqual_def ConstantTimeDigestEqual_def)

lemma hash_updates_message:
  assumes "sha_message (zip_hash h) m" and "hash_active h" and "length m + length (concat cs) < 2 ^ 64"
    and "hash_updates SimpleZipHashOps cs h = Some h'"
  shows "sha_message (zip_hash h') (m @ concat cs)"
  using assms
proof (induction cs arbitrary: h m)
  case (Cons c cs)
  from Cons.prems(4) obtain h1 where u: "hash_update c h = (True, h1)" "hash_updates SimpleZipHashOps cs h1 = Some h'"
    by (auto simp: SimpleZipHashOps_def split: prod.split_asm if_split_asm)
  from u(1) obtain s where s: "Sha256_Update (Some c) (length c) (zip_hash h) = (True, s)"
    and h1: "zip_hash h1 = s" "hash_active h1"
    using Cons.prems(2) by (auto simp: hash_update_def split: if_split_asm prod.split_asm bool.split_asm)
  have "length m + length c < 2 ^ 64" using Cons.prems(3) by simp
  from Sha256_Update_message [OF Cons.prems(1) this] s have "sha_message (zip_hash h1) (m @ c)"
    by (auto simp: h1)
  with Cons.IH [of h1 "m @ c"] u(2) h1(2) Cons.prems(3) show ?case by simp
qed simp

text \<open>What a verified member is: its size and its digest are the expected ones.\<close>

lemma verified_content:
  assumes "verified entry wanted SimpleZipHashOps h cs" and "expected_sha256 wanted = Some sha" and "length sha = 32"
  shows "length (concat cs) = unat (entry_size entry) \<and> sha256 (concat cs) = sha"
proof -
  from assms(1,2) obtain h1 h2 h3 digest where len: "length (concat cs) = unat (entry_size entry)"
    and b: "hash_begin (entry_path entry) (entry_size entry) h = (True, h1)"
    and u: "hash_updates SimpleZipHashOps cs h1 = Some h2" and f: "hash_finish h2 = (Some digest, h3)"
    and d: "DigestEqual digest sha"
    by (auto simp: verified_def SimpleZipHashOps_def)
  from b have h1: "zip_hash h1 = Sha256_Reset" "hash_active h1" by (auto simp: hash_begin_def split: if_split_asm)
  have "length (concat cs) < 2 ^ 64" unfolding len by (rule u64_less)
  with hash_updates_message [of h1 "[]" cs h2] h1 u sha_message_Reset have "sha_message (zip_hash h2) (concat cs)" by simp
  moreover from f obtain s where "Sha256_Final True (zip_hash h2) = (Some digest, s)"
    by (auto simp: hash_finish_def split: if_split_asm prod.split_asm)
  ultimately have "digest = sha256 (concat cs)" by (rule Sha256_Final_bound)
  with d assms(3) len show ?thesis by (simp add: DigestEqual_iff)
qed

section \<open>Extracting one file\<close>

text \<open>The node of a released file: it has the size and the digest the manifest gives.\<close>

definition right_content :: "u64 \<Rightarrow> byte list \<Rightarrow> node \<Rightarrow> bool" where
  "right_content n sha x \<longleftrightarrow> (case x of File c \<Rightarrow> length c = unat n \<and> sha256 c = sha | _ \<Rightarrow> False)"

definition release_node :: "ManifestFile \<Rightarrow> node \<Rightarrow> bool" where
  "release_node f = right_content (file_size f) (file_sha256 f)"

text \<open>
  What holds of a parsed asset whose archive was opened: no two files, and no file and directory,
  have names that FAT takes for the same, and digests have their length.
\<close>

definition asset_ok :: "ManifestAsset \<Rightarrow> bool" where
  "asset_ok asset \<longleftrightarrow> distinct (map (\<lambda>f. fat_key (file_path f)) (files asset)) \<and>
     list_all (\<lambda>f. length (file_sha256 f) = 32) (files asset) \<and>
     list_all (\<lambda>f. fat_key (file_path f) \<notin> fat_key ` set (directories asset)) (files asset)"

lemma expected_member:
  assumes "asset_ok asset" and "f \<in> set (files asset)"
    and "member_of r (BuildExpectedInventory asset) (file_path f) entry wanted"
  shows "expected_sha256 wanted = Some (file_sha256 f) \<and> entry_size entry = file_size f \<and> length (file_sha256 f) = 32"
proof -
  have "FindExpectedFile (BuildExpectedInventory asset) (file_path f) = Some wanted"
    and size: "entry_size entry = expected_size wanted" using assms(3) by (auto simp: member_of_def)
  from FindExpectedFile_Some [OF this(1)] obtain g where g: "g \<in> set (files asset)" "file_path g = file_path f"
    and w: "expected_size wanted = file_size g" "expected_sha256 wanted = Some (file_sha256 g)"
    by (auto simp: BuildExpectedInventory_def)
  have "inj_on (\<lambda>f. fat_key (file_path f)) (set (files asset))" using assms(1) by (simp add: asset_ok_def distinct_map)
  from inj_onD [OF this, of g f] have "g = f" using g assms(2) by simp
  with w size assms(1,2) show ?thesis by (auto simp: asset_ok_def list_all_iff)
qed

text \<open>What the checks at the start of \<open>Install\<close> establish.\<close>

lemma check_files_ok:
  "check_files fls k n = Inr r \<Longrightarrow> f \<in> set fls \<Longrightarrow> \<not> IsReservedPath (file_path f)"
  by (induction fls k n rule: check_files.induct) (auto simp: Let_def split: if_split_asm option.split_asm)

lemma check_deletions_ok:
  "check_deletions asset ps = None \<Longrightarrow> p \<in> set ps \<Longrightarrow>
   \<not> IsReservedPath p \<and> (\<forall>f \<in> set (files asset). fat_key p \<noteq> fat_key (file_path f))"
  by (induction asset ps rule: check_deletions.induct)
    (auto simp: list_ex_iff FatPathEqual_key split: if_split_asm)

lemma check_replacements_ok:
  "check_replacements asset rs = None \<Longrightarrow> x \<in> set rs \<Longrightarrow>
   \<not> IsReservedPath (replaced_path x) \<and> (\<forall>f \<in> set (files asset). fat_key (replaced_path x) \<noteq> fat_key (file_path f))"
  by (induction asset rs rule: check_replacements.induct)
    (auto simp: list_ex_iff FatPathEqual_key split: if_split_asm)

lemma check_manifest_status:
  "check_manifest asset = Inl st \<Longrightarrow> st \<noteq> UpdateOk"
proof -
  have f: "check_files fls k n = Inl st \<Longrightarrow> st \<noteq> UpdateOk" for fls k n
    by (induction fls k n rule: check_files.induct) (auto simp: Let_def split: if_split_asm option.split_asm)
  have d: "check_deletions asset ps = Some st \<Longrightarrow> st \<noteq> UpdateOk" for ps
    by (induction asset ps rule: check_deletions.induct) (auto split: if_split_asm)
  have r: "check_replacements asset rs = Some st \<Longrightarrow> st \<noteq> UpdateOk" for rs
    by (induction asset rs rule: check_replacements.induct) (auto split: if_split_asm)
  show "check_manifest asset = Inl st \<Longrightarrow> st \<noteq> UpdateOk"
    using f d r by (auto simp: check_manifest_def split: sum.split_asm if_split_asm option.split_asm)
qed

lemma not_reserved_temp: "\<not> IsReservedPath p \<Longrightarrow> fat_key p \<noteq> fat_key kSimpleUpdateTemporaryPath"
  by (auto simp: IsReservedPath_def FatPathEqual_key)

abbreviation temp :: path where "temp \<equiv> kSimpleUpdateTemporaryPath"

lemmas sink_ops = SingleFileExtractOps_def ZipExtractSink.simps

text \<open>Where a manifest file stands after an installation that is complete for it.\<close>

definition is_file :: "node \<Rightarrow> bool" where
  "is_file n \<longleftrightarrow> (\<exists>c. n = File c)"

definition in_place :: "bool \<Rightarrow> (path \<Rightarrow> node) \<Rightarrow> (path \<Rightarrow> node) \<Rightarrow> ManifestFile \<Rightarrow> bool" where
  "in_place reset before after f \<longleftrightarrow>
     (if preserves reset f \<and> is_file (before (file_path f)) then after (file_path f) = before (file_path f)
      else release_node f (after (file_path f)))"

definition gone :: "ManifestAsset \<Rightarrow> path set" where
  "gone asset = set (deletions asset) \<union> replaced_path ` set (replacements asset)"

context update_volume
begin

lemma RemoveFile_temp: "only {fat_key p} v (snd (RemoveFile fs p v))"
  using change_laws(6) [of p v] by (metis prod.collapse)

lemma FileClose_temp: "only {fat_key p} v (snd (FileClose fs p v))"
  using change_laws(4) [of p v] by (metis prod.collapse)

lemma only_chain: "only ks v v' \<Longrightarrow> only ks v' v'' \<Longrightarrow> only ks v v''"
  using only_trans [of ks v v' ks v''] by simp

lemma extract_begin_volume:
  assumes "extract_begin fs target entry s = (ok, s')"
  shows "only {fat_key temp} (sink_volume s) (sink_volume s')"
    and "ok \<Longrightarrow> node (sink_volume s') temp = Writing []"
  using assms
  by (auto simp: extract_begin_def CreateFileFresh_done intro: only_same
      split: if_split_asm prod.split_asm bool.split_asm
      intro: change_laws(6) only_chain [OF change_laws(6) change_laws(1)])

lemma extract_write_volume:
  assumes "extract_write fs base all progress bytes s = (ok, s')"
  shows "only {fat_key temp} (sink_volume s) (sink_volume s')"
    and "ok \<Longrightarrow> node (sink_volume s) temp = Writing c \<Longrightarrow> node (sink_volume s') temp = Writing (c @ bytes)"
  using assms
  by (auto simp: extract_write_def Let_def FileWrite_done intro: only_same
      split: if_split_asm prod.split_asm bool.split_asm dest: change_laws(2))

lemma sink_writes_volume:
  assumes "sink_writes (SingleFileExtractOps fs target base all progress) cs s = Some s'"
  shows "only {fat_key temp} (sink_volume s) (sink_volume s') \<and>
    (node (sink_volume s) temp = Writing c \<longrightarrow> node (sink_volume s') temp = Writing (c @ concat cs))"
  using assms
proof (induction cs arbitrary: s c)
  case (Cons b bs)
  from Cons.prems obtain s1 where w: "extract_write fs base all progress b s = (True, s1)"
    and r: "sink_writes (SingleFileExtractOps fs target base all progress) bs s1 = Some s'"
    by (auto simp: sink_ops split: prod.split_asm if_split_asm)
  note ww = extract_write_volume [OF w]
  from Cons.IH [OF r, of "c @ b"] only_chain [OF ww(1)] ww(2) [of c] show ?case by simp
qed (simp add: only_same)

lemma sink_reached_volume:
  assumes "sink_reached (SingleFileExtractOps fs target base all progress) s s'"
  shows "only {fat_key temp} (sink_volume s) (sink_volume s')"
proof -
  from assms obtain cs s1 where w: "sink_writes (SingleFileExtractOps fs target base all progress) cs s = Some s1"
    and e: "s' = s1 \<or> (\<exists>c. extract_write fs base all progress c s1 = (False, s'))"
    by (auto simp: sink_reached_def sink_ops)
  from e have "only {fat_key temp} (sink_volume s1) (sink_volume s')"
    using extract_write_volume(1) only_same by blast
  with sink_writes_volume [OF w] only_chain show ?thesis by blast
qed

lemma extract_abort_volume: "only {fat_key temp} (sink_volume s) (sink_volume (extract_abort fs entry s))"
  using RemoveFile_temp only_chain [OF FileClose_temp RemoveFile_temp] by (simp add: extract_abort_def Let_def)

lemma extract_publish_volume:
  assumes "extract_publish fs target v = (ok, v')" and "node v temp = File c" and "idle v"
  shows "only {fat_key temp, fat_key target} v v'"
    and "ok \<Longrightarrow> node v' target = File c"
    and "node v' target = node v target \<or> node v' target = Absent \<or> node v' target = File c"
proof -
  obtain b v1 where r: "Rename fs temp target True v = (b, v1)" by fastforce
  have n: "node v' = node v1" and ok: "ok \<Longrightarrow> b"
    using assms(1) r SyncContainingDirectory_node by (cases b; auto simp: extract_publish_def)+
  show "only {fat_key temp, fat_key target} v v'" using change_laws(7) [OF r] n by (simp add: only_def)
  show "ok \<Longrightarrow> node v' target = File c" using ok Rename_done r assms(2,3) n by (cases b) auto
  show "node v' target = node v target \<or> node v' target = Absent \<or> node v' target = File c"
    using Rename_done Rename_failed r assms(2,3) n by (cases b) auto
qed

lemma extract_commit_volume:
  assumes "extract_commit fs target base all progress entry s = (ok, s')"
    and c: "node (sink_volume s) temp = Writing c" and ne: "fat_key target \<noteq> fat_key temp"
  shows "only {fat_key temp, fat_key target} (sink_volume s) (sink_volume s')"
    and "ok \<Longrightarrow> node (sink_volume s') target = File c"
    and "node (sink_volume s') target = node (sink_volume s) target \<or>
      node (sink_volume s') target = Absent \<or> node (sink_volume s') target = File c"
proof -
  obtain synced v1 where sy: "FileSync fs temp (sink_volume s) = (synced, v1)" by fastforce
  obtain closed v2 where cl: "FileClose fs temp v1 = (closed, v2)" by fastforce
  obtain published v3 where pu: "(if synced \<and> closed then extract_publish fs target v2 else (False, v2)) = (published, v3)"
    by (metis prod.exhaust)
  have o2: "only {fat_key temp} (sink_volume s) v2"
    using only_chain change_laws(3) [OF sy] change_laws(4) [OF cl] by blast
  then have t2: "node v2 target = node (sink_volume s) target" using ne by (auto intro: onlyD)
  have c2: "node v2 temp = File c" "idle v2" if "synced" "closed"
    using FileSync_done FileClose_done sy cl c that by auto
  have o3: "only {fat_key temp, fat_key target} v2 v3"
    and d3: "published \<Longrightarrow> node v3 target = File c"
    and f3: "node v3 target = node v2 target \<or> node v3 target = Absent \<or> node v3 target = File c"
    using pu extract_publish_volume [of target v2 published v3 c] c2
    by (cases "synced \<and> closed"; auto simp: only_same)+
  have res: "sink_volume s' = sink_volume s \<and> \<not> ok \<or> sink_volume s' = v3 \<and> published \<or>
      sink_volume s' = snd (RemoveFile fs temp v3) \<and> \<not> ok"
    using assms(1) sy cl pu by (auto simp: extract_commit_def Let_def split: if_split_asm)
  have rm: "only {fat_key temp} v3 (snd (RemoveFile fs temp v3))" by (rule RemoveFile_temp)
  then have rt: "node (snd (RemoveFile fs temp v3)) target = node v3 target" using ne by (auto intro: onlyD)
  have o23: "only {fat_key temp, fat_key target} (sink_volume s) v3"
    using only_trans [OF o2 o3] by (simp add: insert_commute)
  show "only {fat_key temp, fat_key target} (sink_volume s) (sink_volume s')"
    using res o23 only_trans [OF o23 rm] by (auto simp: only_same insert_commute)
  show "ok \<Longrightarrow> node (sink_volume s') target = File c" using res d3 by auto
  show "node (sink_volume s') target = node (sink_volume s) target \<or>
      node (sink_volume s') target = Absent \<or> node (sink_volume s') target = File c"
    using res f3 t2 rt by auto
qed

text \<open>A sink that saw the whole protocol, and one that was abandoned on the way.\<close>

lemma committed_volume:
  assumes v: "verified entry wanted SimpleZipHashOps h cs" and sha: "expected_sha256 wanted = Some sha" "length sha = 32"
    and ne: "fat_key target \<noteq> fat_key temp"
    and b: "extract_begin fs target entry s = (True, s1)"
    and w: "sink_writes (SingleFileExtractOps fs target base all progress) cs s1 = Some s2"
    and c: "extract_commit fs target base all progress entry s2 = (ok, s3)"
  shows "only {fat_key temp, fat_key target} (sink_volume s) (sink_volume s3)"
    and "ok \<Longrightarrow> right_content (entry_size entry) sha (node (sink_volume s3) target)"
    and "node (sink_volume s3) target = node (sink_volume s) target \<or> node (sink_volume s3) target = Absent \<or>
      right_content (entry_size entry) sha (node (sink_volume s3) target)"
proof -
  note bv = extract_begin_volume [OF b] and wv = sink_writes_volume [OF w, of "[]"]
  have t: "node (sink_volume s2) temp = Writing (concat cs)" using bv(2) wv by simp
  note cv = extract_commit_volume [OF c t ne]
  have o2: "only {fat_key temp} (sink_volume s) (sink_volume s2)" using only_chain [OF bv(1)] wv by blast
  then have same: "node (sink_volume s2) target = node (sink_volume s) target" using ne by (auto intro: onlyD)
  have right: "right_content (entry_size entry) sha (File (concat cs))"
    using verified_content [OF v sha] by (simp add: right_content_def)
  show "only {fat_key temp, fat_key target} (sink_volume s) (sink_volume s3)"
    using only_trans [OF o2 cv(1)] by (simp add: insert_commute)
  show "ok \<Longrightarrow> right_content (entry_size entry) sha (node (sink_volume s3) target)" using cv(2) right by simp
  show "node (sink_volume s3) target = node (sink_volume s) target \<or> node (sink_volume s3) target = Absent \<or>
      right_content (entry_size entry) sha (node (sink_volume s3) target)"
    using cv(3) right same by auto
qed

lemma extracted_volume:
  assumes "extracted entry wanted SimpleZipHashOps h (SingleFileExtractOps fs target base all progress) s s'"
    and "expected_sha256 wanted = Some sha" "length sha = 32" "fat_key target \<noteq> fat_key temp"
  shows "only {fat_key temp, fat_key target} (sink_volume s) (sink_volume s')"
    and "right_content (entry_size entry) sha (node (sink_volume s') target)"
  using assms committed_volume [OF _ assms(2-4), where ok = True]
  unfolding extracted_def sink_ops by blast+

lemma abandoned_volume:
  assumes "abandoned entry wanted SimpleZipHashOps h (SingleFileExtractOps fs target base all progress) s s'"
    and sha: "expected_sha256 wanted = Some sha" "length sha = 32" and ne: "fat_key target \<noteq> fat_key temp"
  shows "only {fat_key temp, fat_key target} (sink_volume s) (sink_volume s') \<and>
    (node (sink_volume s') target = node (sink_volume s) target \<or> node (sink_volume s') target = Absent \<or>
     right_content (entry_size entry) sha (node (sink_volume s') target))"
proof -
  let ?ops = "SingleFileExtractOps fs target base all progress"
  have small: ?thesis if "only {fat_key temp} (sink_volume s) (sink_volume s')"
    using that ne only_mono [OF that, of "{fat_key temp, fat_key target}"] by (auto dest: onlyD)
  from assms(1) consider "s' = s" | "extract_begin fs target entry s = (False, s')"
    | s1 s2 where "extract_begin fs target entry s = (True, s1)" "sink_reached ?ops s1 s2" "s' = extract_abort fs entry s2"
    | cs s1 s2 s3 where "verified entry wanted SimpleZipHashOps h cs" "extract_begin fs target entry s = (True, s1)"
        "sink_writes ?ops cs s1 = Some s2" "extract_commit fs target base all progress entry s2 = (False, s3)"
        "s' = extract_abort fs entry s3"
    unfolding abandoned_def by (auto simp: sink_ops)
  then show ?thesis
  proof cases
    case 1
    then show ?thesis by (simp add: only_same)
  next
    case 2
    from extract_begin_volume(1) [OF this] show ?thesis by (rule small)
  next
    case 3
    from only_chain [OF only_chain [OF extract_begin_volume(1) [OF 3(1)] sink_reached_volume [OF 3(2)]]
        extract_abort_volume] 3(3) show ?thesis using small by simp
  next
    case 4
    note cv = committed_volume [OF 4(1) sha ne 4(2-4)]
    have ab: "only {fat_key temp} (sink_volume s3) (sink_volume s')" using extract_abort_volume 4(5) by simp
    then have "node (sink_volume s') target = node (sink_volume s3) target" using ne by (auto intro: onlyD)
    with cv(3) only_trans [OF cv(1) ab] show ?thesis by (simp add: insert_commute)
  qed
qed

section \<open>Files, passes and deletions\<close>

text \<open>
  \<open>moves f v v'\<close>: what an extraction of \<open>f\<close>, complete or not, does to its own name.
\<close>

definition moves :: "ManifestFile \<Rightarrow> 'v \<Rightarrow> 'v \<Rightarrow> bool" where
  "moves f v v' \<longleftrightarrow> node v' (file_path f) = node v (file_path f) \<or> node v' (file_path f) = Absent \<or>
     release_node f (node v' (file_path f))"

lemma install_file_volume:
  assumes "asset_ok asset" and f: "f \<in> set (files asset)" and ne: "fat_key (file_path f) \<noteq> fat_key temp"
    and i: "install_file fs inflate d (BuildExpectedInventory asset) all progress f s = (ok, s')"
  shows "only {fat_key temp, fat_key (file_path f)} (volume s) (volume s')"
    and "ok \<Longrightarrow> release_node f (node (volume s') (file_path f))" and "moves f (volume s) (volume s')"
proof -
  let ?t = "file_path f"
  let ?ops = "SingleFileExtractOps fs ?t (installed s) all progress"
  obtain status r h sink where e: "ExtractOne (reader s) inflate d ?t (BuildExpectedInventory asset) ?ops
      (Some SimpleZipHashOps) (hash_sink s) (new_extract_sink (volume s)) = (status, r, h, sink)"
    by (metis prod.exhaust)
  note out = ExtractOne_outcome [OF e]
  have start: "sink_volume (new_extract_sink (volume s)) = volume s" by (simp add: new_extract_sink_def)
  have ends: "ok \<longleftrightarrow> status = ZipOk"
      "volume s' = (if status = ZipOk then sink_volume sink else snd (RemoveFile fs temp (sink_volume sink)))"
    using i e by (auto simp: install_file_def Let_def split: if_split_asm)
  have sink_end: "only {fat_key temp, fat_key ?t} (volume s) (sink_volume sink) \<and> moves f (volume s) (sink_volume sink) \<and>
      (status = ZipOk \<longrightarrow> release_node f (node (sink_volume sink) ?t))"
  proof (cases "status = ZipOk")
    case True
    then obtain entry wanted h0 where m: "member_of (reader s) (BuildExpectedInventory asset) ?t entry wanted"
      and x: "extracted entry wanted SimpleZipHashOps h0 ?ops (new_extract_sink (volume s)) sink" using out by auto
    from extracted_volume [OF x] expected_member [OF assms(1) f m] ne start show ?thesis
      by (simp add: release_node_def moves_def)
  next
    case False
    then consider "sink = new_extract_sink (volume s)"
      | entry wanted h0 where "member_of (reader s) (BuildExpectedInventory asset) ?t entry wanted"
        "abandoned entry wanted SimpleZipHashOps h0 ?ops (new_extract_sink (volume s)) sink" using out by auto
    then show ?thesis
    proof cases
      case 1
      with False start show ?thesis by (simp add: only_same moves_def)
    next
      case 2
      from abandoned_volume [OF 2(2)] expected_member [OF assms(1) f 2(1)] ne start False show ?thesis
        by (simp add: release_node_def moves_def)
    qed
  qed
  have rm: "only {fat_key temp} (sink_volume sink) (snd (RemoveFile fs temp (sink_volume sink)))" by (rule RemoveFile_temp)
  then have keep: "node (snd (RemoveFile fs temp (sink_volume sink))) ?t = node (sink_volume sink) ?t"
    using ne by (auto intro: onlyD)
  show "only {fat_key temp, fat_key ?t} (volume s) (volume s')"
    using sink_end ends(2) only_chain [OF _ only_mono [OF rm, of "{fat_key temp, fat_key ?t}"]]
    by (auto split: if_split_asm)
  show "ok \<Longrightarrow> release_node f (node (volume s') ?t)" using sink_end ends by simp
  show "moves f (volume s) (volume s')" using sink_end ends(2) keep by (auto simp: moves_def)
qed

text \<open>
  \<open>due p items\<close>: the files of a list of planned files which the passes in \<open>p\<close> install.
\<close>

definition due :: "nat set \<Rightarrow> (ManifestFile \<times> FileAction) list \<Rightarrow> ManifestFile set" where
  "due p items = {f. (f, InstallFile) \<in> set items \<and> InstallPass f \<in> p}"

definition keys :: "ManifestFile set \<Rightarrow> path set" where
  "keys fls = (\<lambda>f. fat_key (file_path f)) ` fls"

definition plan_ok :: "ManifestAsset \<Rightarrow> (ManifestFile \<times> FileAction) list \<Rightarrow> bool" where
  "plan_ok asset items \<longleftrightarrow> asset_ok asset \<and> distinct (map (\<lambda>(f, a). fat_key (file_path f)) items) \<and>
     fst ` set items \<subseteq> set (files asset) \<and>
     (\<forall>f \<in> set (files asset). fat_key (file_path f) \<noteq> fat_key temp)"

text \<open>The effect of passes that ended with \<open>ok\<close>: of the files due, each one moved, or all installed.\<close>

definition passed :: "ManifestFile set \<Rightarrow> bool \<Rightarrow> 'v \<Rightarrow> 'v \<Rightarrow> bool" where
  "passed fls ok v v' \<longleftrightarrow> only (insert (fat_key temp) (keys fls)) v v' \<and>
     (\<forall>f \<in> fls. moves f v v' \<and> (ok \<longrightarrow> release_node f (node v' (file_path f))))"

lemma passed_union:
  assumes p: "passed fls True v v1" and q: "passed gs ok v1 v2" and disj: "keys fls \<inter> keys gs = {}"
    and t: "fat_key temp \<notin> keys fls" "fat_key temp \<notin> keys gs"
  shows "passed (fls \<union> gs) ok v v2"
proof -
  have "only (insert (fat_key temp) (keys fls) \<union> insert (fat_key temp) (keys gs)) v v2"
    using only_trans p q unfolding passed_def by blast
  then have o: "only (insert (fat_key temp) (keys (fls \<union> gs))) v v2"
    by (rule only_mono) (auto simp: keys_def)
  have f: "node v2 (file_path f) = node v1 (file_path f)" if "f \<in> fls" for f
  proof -
    have "fat_key (file_path f) \<in> keys fls" using that by (auto simp: keys_def)
    then have "fat_key (file_path f) \<notin> insert (fat_key temp) (keys gs)" using disj t by auto
    with q show ?thesis by (auto simp: passed_def dest: onlyD)
  qed
  have g: "node v1 (file_path f) = node v (file_path f)" if "f \<in> gs" for f
  proof -
    have "fat_key (file_path f) \<in> keys gs" using that by (auto simp: keys_def)
    then have "fat_key (file_path f) \<notin> insert (fat_key temp) (keys fls)" using disj t by auto
    with p show ?thesis by (auto simp: passed_def dest: onlyD)
  qed
  show ?thesis unfolding passed_def
  proof (intro conjI o ballI)
    fix x assume "x \<in> fls \<union> gs"
    then show "moves x v v2" using p q f g unfolding passed_def moves_def by (metis UnE)
    show "ok \<longrightarrow> release_node x (node v2 (file_path x))"
      using \<open>x \<in> fls \<union> gs\<close> p q f unfolding passed_def by (metis UnE)
  qed
qed

lemma passed_part:
  assumes "passed fls ok v v'" and "fls \<subseteq> gs" and "\<And>g. g \<in> gs - fls \<Longrightarrow> node v' (file_path g) = node v (file_path g)"
  shows "passed gs False v v'"
  unfolding passed_def
proof (intro conjI ballI)
  have "insert (fat_key temp) (keys fls) \<subseteq> insert (fat_key temp) (keys gs)" using assms(2) by (auto simp: keys_def)
  then show "only (insert (fat_key temp) (keys gs)) v v'" using assms(1) only_mono unfolding passed_def by blast
  fix g assume "g \<in> gs"
  then show "moves g v v'" using assms(1,3) unfolding passed_def moves_def by blast
qed simp

lemma plan_okD:
  assumes "plan_ok asset items" and "(f, a) \<in> set items"
  shows "asset_ok asset" and "f \<in> set (files asset)" and "fat_key (file_path f) \<noteq> fat_key temp"
  using assms by (auto simp: plan_ok_def)

lemma plan_ok_tail: "plan_ok asset (x # items) \<Longrightarrow> plan_ok asset items"
  by (auto simp: plan_ok_def)

lemma due_temp: "plan_ok asset items \<Longrightarrow> fat_key temp \<notin> keys (due p items)"
  using plan_okD(3) by (fastforce simp: keys_def due_def)

lemma due_keys_disjoint:
  assumes "plan_ok asset items" and "p \<inter> q = {}"
  shows "keys (due p items) \<inter> keys (due q items) = {}"
proof -
  have "inj_on (\<lambda>(f, a). fat_key (file_path f)) (set items)"
    using assms(1) by (simp add: plan_ok_def distinct_map)
  then have same: "f = g" if "(f, InstallFile) \<in> set items" "(g, InstallFile) \<in> set items"
      "fat_key (file_path f) = fat_key (file_path g)" for f g
    using that inj_onD [of "\<lambda>(f, a). fat_key (file_path f)" "set items" "(f, InstallFile)" "(g, InstallFile)"] by auto
  show ?thesis
  proof (rule equals0I)
    fix k assume "k \<in> keys (due p items) \<inter> keys (due q items)"
    then obtain f g where "f \<in> due p items" "g \<in> due q items" "fat_key (file_path f) = fat_key (file_path g)"
      by (auto simp: keys_def)
    with same have "f \<in> due p items" "f \<in> due q items" by (auto simp: due_def)
    with assms(2) show False by (auto simp: due_def)
  qed
qed

lemma due_skip: "InstallPass f \<notin> p \<or> a \<noteq> InstallFile \<Longrightarrow> due p ((f, a) # items) = due p items"
  by (auto simp: due_def)

lemma due_take: "InstallPass f \<in> p \<Longrightarrow> due p ((f, InstallFile) # items) = {f} \<union> due p items"
  by (auto simp: due_def)

lemma install_pass_volume:
  assumes "plan_ok asset items"
    and "install_pass fs inflate d (BuildExpectedInventory asset) all progress pass items s = (ok, s')"
  shows "passed (due {pass} items) ok (volume s) (volume s')"
  using assms
proof (induction items arbitrary: s)
  case Nil
  then show ?case by (simp add: passed_def due_def keys_def only_same)
next
  case (Cons x items)
  obtain f a where x: "x = (f, a)" by (cases x)
  note tail = plan_ok_tail [OF Cons.prems(1)]
  show ?case
  proof (cases "InstallPass f \<noteq> pass \<or> a \<noteq> InstallFile")
    case True
    then have "due {pass} (x # items) = due {pass} items" unfolding x by (intro due_skip) auto
    with Cons.IH [OF tail] Cons.prems(2) True show ?thesis by (simp add: x)
  next
    case False
    then have a: "InstallPass f = pass" "a = InstallFile" by auto
    have d: "due {pass} (x # items) = {f} \<union> due {pass} items" using a by (simp add: x due_take)
    have mem: "(f, a) \<in> set (x # items)" by (simp add: x)
    note pf = plan_okD [OF Cons.prems(1) mem]
    have apart: "keys {f} \<inter> keys (due {pass} items) = {}"
      using Cons.prems(1) by (fastforce simp: keys_def due_def plan_ok_def x)
    obtain ok1 s1 where i: "install_file fs inflate d (BuildExpectedInventory asset) all progress f s = (ok1, s1)"
      by fastforce
    note iv = install_file_volume [OF pf i]
    have p1: "passed {f} ok1 (volume s) (volume s1)" using iv by (simp add: passed_def keys_def)
    show ?thesis
    proof (cases ok1)
      case True
      then have "install_pass fs inflate d (BuildExpectedInventory asset) all progress pass items s1 = (ok, s')"
        using Cons.prems(2) a i by (simp add: x)
      from Cons.IH [OF tail this] True p1 show ?thesis
        unfolding d using passed_union [OF _ _ apart] pf(3) due_temp [OF tail] by (auto simp: keys_def)
    next
      case False
      then have e: "ok = False" "s' = s1" using Cons.prems(2) a i by (simp_all add: x)
      have "node (volume s1) (file_path g) = node (volume s) (file_path g)" if "g \<in> due {pass} items" for g
      proof -
        have "fat_key (file_path g) \<in> keys (due {pass} items)" using that by (auto simp: keys_def)
        moreover have "fat_key (file_path f) \<notin> keys (due {pass} items)" using apart by (simp add: keys_def)
        ultimately have "fat_key (file_path g) \<notin> {fat_key temp, fat_key (file_path f)}"
          using due_temp [OF tail, of "{pass}"] by auto
        then show ?thesis using iv(1) by (rule onlyD [rotated])
      qed
      with passed_part [OF p1, of "{f} \<union> due {pass} items"] e show ?thesis unfolding d by auto
    qed
  qed
qed

lemma install_passes_volume:
  assumes "plan_ok asset items" and "distinct ps"
    and "install_passes fs inflate d (BuildExpectedInventory asset) all progress items ps s = (ok, s')"
  shows "passed (due (set ps) items) ok (volume s) (volume s')"
  using assms(2,3)
proof (induction ps arbitrary: s)
  case Nil
  then show ?case by (simp add: passed_def due_def keys_def only_same)
next
  case (Cons p ps)
  obtain ok1 s1 where i: "install_pass fs inflate d (BuildExpectedInventory asset) all progress p items s = (ok1, s1)"
    by fastforce
  note p1 = install_pass_volume [OF assms(1) i]
  have d: "due (set (p # ps)) items = due {p} items \<union> due (set ps) items" by (auto simp: due_def)
  have apart: "keys (due {p} items) \<inter> keys (due (set ps) items) = {}"
    by (rule due_keys_disjoint [OF assms(1)]) (use Cons.prems(1) in auto)
  show ?case
  proof (cases ok1)
    case True
    then have "install_passes fs inflate d (BuildExpectedInventory asset) all progress items ps s1 = (ok, s')"
      using Cons.prems(2) i by simp
    from Cons.IH [OF _ this] Cons.prems(1) True p1 show ?thesis
      unfolding d using passed_union [OF _ _ apart] due_temp [OF assms(1)] by simp
  next
    case False
    then have e: "ok = False" "s' = s1" using Cons.prems(2) i by simp_all
    have "node (volume s1) (file_path g) = node (volume s) (file_path g)" if "g \<in> due (set ps) items" for g
    proof -
      have "fat_key (file_path g) \<in> keys (due (set ps) items)" using that by (auto simp: keys_def)
      then have "fat_key (file_path g) \<notin> insert (fat_key temp) (keys (due {p} items))"
        using apart due_temp [OF assms(1)] by auto
      then show ?thesis using p1 by (auto simp: passed_def dest: onlyD)
    qed
    with passed_part [OF p1, of "due {p} items \<union> due (set ps) items"] e show ?thesis unfolding d by auto
  qed
qed

text \<open>Signed deletions: each name is as it was or gone, and after success all are gone.\<close>

definition removed :: "path set \<Rightarrow> bool \<Rightarrow> 'v \<Rightarrow> 'v \<Rightarrow> bool" where
  "removed ps ok v v' \<longleftrightarrow> only (fat_key ` ps) v v' \<and> (\<forall>q. node v' q = node v q \<or> node v' q = Absent) \<and>
     (ok \<longrightarrow> (\<forall>p \<in> ps. node v' p = Absent))"

lemma RemoveSignedFile_volume:
  assumes "RemoveSignedFile fs p n v = (ok, n', v')"
  shows "removed {p} ok v v'"
proof -
  obtain st v1 where s: "Stat fs p v = (st, v1)" by fastforce
  note sn = Stat_node [OF s]
  show ?thesis
  proof (cases "\<exists>x. st = Some x \<and> stat_type x = NodeRegularFile")
    case False
    then have "node v' = node v1" and "ok \<Longrightarrow> \<exists>x. st = Some x \<and> stat_type x = NodeMissing"
      using assms s by (auto simp: RemoveSignedFile_def split: option.split_asm if_split_asm)
    moreover have "node v p = Absent" if "st = Some x" "stat_type x = NodeMissing" for x
      using Stat_matches [of p v x v1] s that by (auto simp: stat_matches_def split: node.split_asm)
    ultimately show ?thesis using sn by (auto simp: removed_def only_same)
  next
    case True
    then obtain x where x: "st = Some x" "stat_type x = NodeRegularFile" by blast
    obtain b v2 where r: "RemoveFile fs p v1 = (b, v2)" by fastforce
    have v': "node v' = node v2" and ok: "ok \<Longrightarrow> b"
      using assms s x r SyncContainingDirectory_node
      by (auto simp: RemoveSignedFile_def split: bool.split_asm prod.split_asm)
    have "node v2 q = node v q \<or> node v2 q = Absent" for q
    proof (cases "fat_key q = fat_key p")
      case True
      then have "node v2 q = node v2 p" "node v q = node v p" using node_key by blast+
      then show ?thesis
        using RemoveFile_done [of p v1 v2] RemoveFile_failed [of p v1 v2] r sn by (cases b) auto
    next
      case False
      then show ?thesis using RemoveFile_other [OF r] sn by simp
    qed
    moreover have "only {fat_key p} v v2" using change_laws(6) [OF r] sn by (simp add: only_def)
    moreover have "ok \<Longrightarrow> node v2 p = Absent" using ok RemoveFile_done r by auto
    ultimately show ?thesis using v' by (auto simp: removed_def only_def)
  qed
qed

lemma removed_union: "removed ps True v v1 \<Longrightarrow> removed qs ok v1 v2 \<Longrightarrow> removed (ps \<union> qs) ok v v2"
  unfolding removed_def image_Un using only_trans by (metis UnE)

lemma removed_part: "removed ps ok v v1 \<Longrightarrow> ps \<subseteq> qs \<Longrightarrow> removed qs False v v1"
  unfolding removed_def using only_mono image_mono by metis

lemma remove_signed_files_volume:
  "remove_signed_files fs ps n v = (ok, n', v') \<Longrightarrow> removed (set ps) ok v v'"
proof (induction ps arbitrary: n v)
  case Nil
  then show ?case by (simp add: removed_def only_same)
next
  case (Cons p ps)
  obtain ok1 n1 v1 where r: "RemoveSignedFile fs p n v = (ok1, n1, v1)" by (metis prod.exhaust)
  note p1 = RemoveSignedFile_volume [OF r]
  show ?case
  proof (cases ok1)
    case True
    then have "removed (set ps) ok v1 v'" using Cons.IH Cons.prems r by simp
    with removed_union [of "{p}" v v1] p1 True show ?thesis by simp
  next
    case False
    then have "ok = False" "v' = v1" using Cons.prems r by simp_all
    then show ?thesis using removed_part [OF p1, of "set (p # ps)"] by simp
  qed
qed

section \<open>The publishing phase\<close>

text \<open>
  The whole phase from volume \<open>v\<close> to \<open>v'\<close>, whatever its outcome: nothing outside the planned files
  and the signed deletions changes; a planned file is as it was, gone, or as released; and the
  build identity has moved only if every other file is as released and every deletion done.
\<close>

definition published :: "ManifestAsset \<Rightarrow> (ManifestFile \<times> FileAction) list \<Rightarrow> bool \<Rightarrow> 'v \<Rightarrow> 'v \<Rightarrow> bool" where
  "published asset items ok v v' \<longleftrightarrow>
     only (insert (fat_key temp) (keys (due UNIV items) \<union> fat_key ` gone asset)) v v' \<and>
     (\<forall>f \<in> due UNIV items. moves f v v') \<and>
     (\<forall>p \<in> gone asset. node v' p = node v p \<or> node v' p = Absent) \<and>
     (\<forall>b \<in> due {3} items. node v' (file_path b) = node v (file_path b) \<or>
        (\<forall>f \<in> due {0, 1, 2} items. release_node f (node v' (file_path f))) \<and> (\<forall>p \<in> gone asset. node v' p = Absent)) \<and>
     (ok \<longrightarrow> (\<forall>f \<in> due UNIV items. release_node f (node v' (file_path f))) \<and> (\<forall>p \<in> gone asset. node v' p = Absent))"

lemma due_UNIV: "due UNIV items = due {0, 1, 2} items \<union> due {3} items"
  by (auto simp: due_def InstallPass_def)

lemma publishedI:
  assumes plan: "plan_ok asset items"
    and apart: "fat_key ` gone asset \<inter> keys (due UNIV items) = {}" "fat_key temp \<notin> fat_key ` gone asset"
    and p1: "passed (due {0, 1, 2} items) ok1 v v1"
    and r: "removed (gone asset) ok2 v1 v2"
    and p2: "passed (due {3} items) ok3 v2 v3"
    and o: "only {fat_key temp} v3 v4"
    and stop: "\<not> (ok1 \<and> ok2) \<Longrightarrow> node v3 = node v2"
    and ok: "ok \<Longrightarrow> ok1 \<and> ok2 \<and> ok3"
  shows "published asset items ok v v4"
proof -
  let ?A = "due {0, 1, 2} items" and ?B = "due {3} items"
  have t: "fat_key temp \<notin> keys ?A" "fat_key temp \<notin> keys ?B" using due_temp [OF plan] by auto
  have AB: "keys ?A \<inter> keys ?B = {}" by (rule due_keys_disjoint [OF plan]) simp
  have U: "keys (due UNIV items) = keys ?A \<union> keys ?B" by (auto simp: due_UNIV keys_def)
  have in_A: "fat_key (file_path f) \<in> keys ?A" if "f \<in> ?A" for f using that by (auto simp: keys_def)
  have in_B: "fat_key (file_path f) \<in> keys ?B" if "f \<in> ?B" for f using that by (auto simp: keys_def)
  have A: "node v4 (file_path f) = node v1 (file_path f)" if "f \<in> ?A" for f
  proof -
    have "node v2 (file_path f) = node v1 (file_path f)"
      using r in_A [OF that] apart(1) U by (auto simp: removed_def intro!: onlyD)
    moreover have "node v3 (file_path f) = node v2 (file_path f)"
      using p2 in_A [OF that] AB t by (auto simp: passed_def intro!: onlyD)
    moreover have "node v4 (file_path f) = node v3 (file_path f)" using o in_A [OF that] t by (auto intro!: onlyD)
    ultimately show ?thesis by simp
  qed
  have B: "node v2 (file_path f) = node v (file_path f)" "node v4 (file_path f) = node v3 (file_path f)" if "f \<in> ?B" for f
  proof -
    have "node v1 (file_path f) = node v (file_path f)"
      using p1 in_B [OF that] AB t by (auto simp: passed_def intro!: onlyD)
    moreover have "node v2 (file_path f) = node v1 (file_path f)"
      using r in_B [OF that] apart(1) U by (auto simp: removed_def intro!: onlyD)
    ultimately show "node v2 (file_path f) = node v (file_path f)" by simp
    show "node v4 (file_path f) = node v3 (file_path f)" using o in_B [OF that] t by (auto intro!: onlyD)
  qed
  have G: "node v1 q = node v q" "node v4 q = node v2 q" if "q \<in> gone asset" for q
  proof -
    have "fat_key q \<in> fat_key ` gone asset" using that by (rule imageI)
    then have k: "fat_key q \<noteq> fat_key temp" "fat_key q \<notin> insert (fat_key temp) (keys ?A)"
        "fat_key q \<notin> insert (fat_key temp) (keys ?B)"
      using apart U by (metis, auto)
    show "node v1 q = node v q" using p1 k(2) by (auto simp: passed_def intro!: onlyD)
    have "node v3 q = node v2 q" using p2 k(3) by (auto simp: passed_def intro!: onlyD)
    moreover have "node v4 q = node v3 q" using o k by (auto intro!: onlyD)
    ultimately show "node v4 q = node v2 q" by simp
  qed
  have all_done: "(\<forall>f \<in> ?A. release_node f (node v4 (file_path f))) \<and> (\<forall>p \<in> gone asset. node v4 p = Absent)"
    if "ok1" "ok2" using that p1 r A G by (simp add: passed_def removed_def)
  have "only (insert (fat_key temp) (keys ?A) \<union> fat_key ` gone asset \<union> insert (fat_key temp) (keys ?B) \<union> {fat_key temp}) v v4"
    by (rule only_trans [OF only_trans [OF only_trans [OF conjunct1 [OF p1 [unfolded passed_def]]
            conjunct1 [OF r [unfolded removed_def]]] conjunct1 [OF p2 [unfolded passed_def]]] o])
  then have "only (insert (fat_key temp) (keys (due UNIV items) \<union> fat_key ` gone asset)) v v4"
    by (rule only_mono) (auto simp: U)
  moreover have "moves f v v4" if "f \<in> due UNIV items" for f
    using that p1 p2 A B unfolding due_UNIV passed_def moves_def by (metis UnE)
  moreover have "node v4 p = node v p \<or> node v4 p = Absent" if "p \<in> gone asset" for p
    using G [OF that] r unfolding removed_def by metis
  moreover have "node v4 (file_path b) = node v (file_path b)" if "b \<in> ?B" "\<not> (ok1 \<and> ok2)" for b
    using B [OF that(1)] stop [OF that(2)] by simp
  moreover have "release_node f (node v4 (file_path f))" if "ok" "f \<in> due UNIV items" for f
    using that ok [OF that(1)] all_done p2 B unfolding due_UNIV passed_def by (metis UnE)
  ultimately show ?thesis unfolding published_def using all_done ok by blast
qed

lemma passed_refl: "passed fls False v v"
  by (simp add: passed_def moves_def only_same)

lemma removed_refl: "removed ps False v v"
  by (simp add: removed_def only_same)

lemma refuse_status [simp]: "update_status (refuse st r) = st"
  by (simp add: refuse_def)

lemma publish_volume:
  assumes plan: "plan_ok asset items"
    and apart: "fat_key ` gone asset \<inter> keys (due UNIV items) = {}" "fat_key temp \<notin> fat_key ` gone asset"
    and p: "publish fs inflate d asset (BuildExpectedInventory asset) progress items all r s = (r', v')"
  shows "published asset items (update_status r' = UpdateOk) (volume s) v'"
    and "update_status r' = UpdateOk \<Longrightarrow> node v' temp = Absent"
proof -
  obtain ok1 s1 where e1: "install_passes fs inflate d (BuildExpectedInventory asset) all progress items [0, 1, 2] s = (ok1, s1)"
    by fastforce
  have p1: "passed (due {0, 1, 2} items) ok1 (volume s) (volume s1)"
    using install_passes_volume [OF plan _ e1] by simp
  obtain okd nd vd where ed: "remove_signed_files fs (deletions asset) (deleted_file_count r) (volume s1) = (okd, nd, vd)"
    by (metis prod.exhaust)
  obtain okr nr vr where er: "remove_signed_files fs (map replaced_path (replacements asset)) nd vd = (okr, nr, vr)"
    by (metis prod.exhaust)
  obtain ok3 s3 where e3: "install_pass fs inflate d (BuildExpectedInventory asset) all progress 3 items (s1\<lparr>volume := vr\<rparr>) = (ok3, s3)"
    by fastforce
  have rd: "removed (set (deletions asset)) okd (volume s1) vd" by (rule remove_signed_files_volume [OF ed])
  have rr: "removed (replaced_path ` set (replacements asset)) okr vd vr"
    using remove_signed_files_volume [OF er] by simp
  have p3: "passed (due {3} items) ok3 vr (volume s3)" using install_pass_volume [OF plan e3] by simp
  note build = publishedI [OF plan apart p1]
  note p = p [unfolded publish_def e1 prod.case Let_def]
  consider (passes) "\<not> ok1" | (deletions) "ok1" "\<not> okd" | (replacements) "ok1" "okd" "\<not> okr" | (rest) "ok1" "okd" "okr" by blast
  then have "published asset items (update_status r' = UpdateOk) (volume s) v' \<and>
      (update_status r' = UpdateOk \<longrightarrow> node v' temp = Absent)"
  proof cases
    case passes
    then have "v' = volume s1" "update_status r' \<noteq> UpdateOk" using p by auto
    with build [OF removed_refl passed_refl only_same] passes show ?thesis by simp
  next
    case deletions
    then have "v' = vd" "update_status r' \<noteq> UpdateOk" using p ed by auto
    with build [OF removed_part [OF rd, of "gone asset"] passed_refl only_same] deletions show ?thesis
      by (simp add: gone_def)
  next
    case replacements
    then have "v' = vr" "update_status r' \<noteq> UpdateOk" using p ed er by auto
    moreover have "removed (gone asset) False (volume s1) vr"
      unfolding gone_def using removed_union [of "set (deletions asset)" "volume s1" vd] rd rr replacements by simp
    ultimately show ?thesis using build [OF _ passed_refl only_same] replacements by simp
  next
    case rest
    have rg: "removed (gone asset) True (volume s1) vr"
      unfolding gone_def using removed_union [of "set (deletions asset)" "volume s1" vd] rd rr rest by simp
    show ?thesis
    proof (cases ok3)
      case False
      then have "v' = volume s3" "update_status r' \<noteq> UpdateOk" using p ed er e3 rest by auto
      with build [OF rg p3 only_same] rest show ?thesis by simp
    next
      case True
      obtain b v4 where rm: "RemoveFile fs temp (volume s3) = (b, v4)" by fastforce
      have v': "v' = v4" and b: "update_status r' = UpdateOk \<Longrightarrow> b"
        using p ed er e3 rest True rm by (auto simp: finish_install_def split: if_split_asm)
      have "published asset items (update_status r' = UpdateOk) (volume s) v4"
        using build [OF rg p3 change_laws(6) [OF rm]] rest True by simp
      then show ?thesis using v' b RemoveFile_done rm by auto
    qed
  qed
  then show "published asset items (update_status r' = UpdateOk) (volume s) v'"
    and "update_status r' = UpdateOk \<Longrightarrow> node v' temp = Absent" by auto
qed

section \<open>Directories and the plan\<close>

definition made :: "path set \<Rightarrow> 'v \<Rightarrow> 'v \<Rightarrow> bool" where
  "made ds v v' \<longleftrightarrow> (\<forall>q. node v' q = node v q \<or>
     (fat_key q \<in> fat_key ` ds \<and> node v q = Absent \<and> node v' q = Folder))"

lemma CreateDirectory_made: "CreateDirectory fs p v = (ok, v') \<Longrightarrow> made {p} v v'"
  unfolding made_def using CreateDirectory_other CreateDirectory_keeps CreateDirectory_node node_key
  by (metis imageI insertI1)

lemma made_trans: "made ds v v1 \<Longrightarrow> made es v1 v2 \<Longrightarrow> made (ds \<union> es) v v2"
  unfolding made_def image_Un by (metis UnCI)

lemma create_directories_made:
  "create_directories fs ds v = (ok, v') \<Longrightarrow> made (set ds) v v'"
proof (induction ds arbitrary: v)
  case (Cons p ps)
  obtain b v1 where c: "CreateDirectory fs p v = (b, v1)" by fastforce
  note m = CreateDirectory_made [OF c]
  show ?case
  proof (cases b)
    case True
    with Cons c have "made (set ps) v1 v'" by simp
    with made_trans [OF m] show ?thesis by simp
  next
    case False
    with Cons.prems c have "v' = v1" by simp
    with m show ?thesis by (auto simp: made_def)
  qed
qed (simp add: made_def)

lemma FileCloseRead_same: "node (snd (FileCloseRead fs p v)) = node v"
  using FileCloseRead_node by (metis prod.collapse)

lemma hash_loop_digest:
  assumes "hash_loop fs p n b base all progress offset hash v = (status, hash', v')"
    and "node v p = File c" and "length c = n" and "n < 2 ^ 64" and "b \<noteq> 0"
    and "sha_message hash (take offset c)" and "offset \<le> n"
  shows "node v' = node v \<and> (status = HashTargetOk \<longrightarrow> sha_message hash' c)"
  using assms
proof (induction "n - offset" arbitrary: offset hash v rule: less_induct)
  case less
  note eq = less.prems(1) [unfolded hash_loop.simps [of fs p n b base all progress offset hash v] Let_def]
  let ?amount = "if b > n - offset then n - offset else b"
  show ?case
  proof (cases "offset < n")
    case False
    then have "take offset c = c" using less.prems(3,7) by simp
    with False eq less.prems(6) show ?thesis by simp
  next
    case more: True
    obtain rb v1 where r: "FileReadAt fs p (of_nat offset) ?amount v = (rb, v1)" by fastforce
    note n1 = FileReadAt_node [OF r]
    show ?thesis
    proof (cases rb)
      case None
      with eq more less.prems(5) r n1 show ?thesis by (auto simp: FileCloseRead_same)
    next
      case (Some buffer)
      have o: "unat (of_nat offset :: u64) = offset" using more less.prems(4) by (simp add: unat_of_nat)
      have "0 < ?amount" using more less.prems(5) by simp
      from FileReadAt_bytes [OF r [unfolded Some] this] less.prems(2) o
      have buf: "buffer = take ?amount (drop offset c)" by auto
      have len: "length buffer = ?amount" using less.prems(3) by (simp add: buf)
      have taken: "take offset c @ buffer = take (offset + ?amount) c" unfolding buf by (rule take_add [symmetric])
      have "length (take offset c) + length buffer < 2 ^ 64"
        using less.prems(3,4) arg_cong [OF taken, of length] by simp
      from Sha256_Update_message [OF less.prems(6) this] obtain hash1
        where u: "Sha256_Update (Some buffer) ?amount hash = (True, hash1)"
          "sha_message hash1 (take (offset + ?amount) c)" unfolding len taken by blast
      show ?thesis
      proof (cases "Report progress HashPhase (base + of_nat (offset + ?amount)) all")
        case False
        with eq more less.prems(5) r Some u(1) n1 show ?thesis by (auto simp: FileCloseRead_same)
      next
        case True
        then have rest: "hash_loop fs p n b base all progress (offset + ?amount) hash1 v1 = (status, hash', v')"
          using eq more less.prems(5) r Some u(1) by simp
        have "n - (offset + ?amount) < n - offset" "offset + ?amount \<le> n" using more less.prems(5) by auto
        from less.hyps [OF this(1) rest _ _ _ _ _ this(2)] u(2) n1 less.prems(2-5) show ?thesis by simp
      qed
    qed
  qed
qed

lemma HashTarget_digest:
  assumes "HashTarget fs p n b base all progress v = (status, digest, v')" and "b \<noteq> 0"
    and "node v p = File c" and "length c = unat n"
  shows "node v' = node v" and "status = HashTargetOk \<Longrightarrow> digest = sha256 c"
proof -
  obtain ok v1 where o: "OpenRead fs p v = (ok, v1)" by fastforce
  obtain z v2 where g: "FileGetSize fs p v1 = (z, v2)" by fastforce
  obtain st hash v3 where l: "hash_loop fs p (unat n) b base all progress 0 Sha256_Reset v2 = (st, hash, v3)"
    by (metis prod.exhaust)
  obtain cl v4 where c: "FileCloseRead fs p v3 = (cl, v4)" by fastforce
  have n2: "node v2 = node v" "node v1 = node v" using OpenRead_node [OF o] FileGetSize_node [OF g] by simp_all
  have h: "node v3 = node v2 \<and> (st = HashTargetOk \<longrightarrow> sha_message hash c)"
    using hash_loop_digest [OF l] n2 assms(2-4) u64_less [of n] sha_message_Reset by simp
  note eq = assms(1) [unfolded HashTarget_def o prod.case g]
  show "node v' = node v"
    using eq h n2 FileCloseRead_node [OF c] l c
    by (auto simp: FileCloseRead_same split: bool.split_asm if_split_asm prod.split_asm option.split_asm)
  show "status = HashTargetOk \<Longrightarrow> digest = sha256 c"
    using eq h l c Sha256_Final_bound
    by (auto split: bool.split_asm if_split_asm prod.split_asm option.split_asm)
qed

text \<open>The action chosen for a file is right for the volume it was chosen on.\<close>

definition action_right :: "bool \<Rightarrow> 'v \<Rightarrow> ManifestFile \<Rightarrow> FileAction \<Rightarrow> bool" where
  "action_right reset v f a \<longleftrightarrow>
     (case a of
        PreserveExisting \<Rightarrow> preserves reset f \<and> is_file (node v (file_path f))
      | KeepUnchanged \<Rightarrow> release_node f (node v (file_path f)) \<and> \<not> preserves reset f
      | InstallFile \<Rightarrow> \<not> (preserves reset f \<and> is_file (node v (file_path f))))"

lemma choose_action_right:
  assumes "choose_action fs reset b base all progress f v = (r, v')" and "b \<noteq> 0" and "length (file_sha256 f) = 32"
    and quiet: "quiet (node v)"
  shows "node v' = node v" and "r = Inr a \<Longrightarrow> action_right reset v f a"
proof -
  let ?p = "file_path f"
  obtain st v1 where s: "Stat fs ?p v = (st, v1)" by fastforce
  note n1 = Stat_node [OF s]
  note eq = assms(1) [unfolded choose_action_def s prod.case]
  have both: "node v' = node v \<and> (\<forall>a. r = Inr a \<longrightarrow> action_right reset v f a)"
  proof (cases st)
    case None
    with eq n1 show ?thesis by auto
  next
    case (Some x)
    from Stat_matches [OF s [unfolded Some]] have kind: "stat_matches x (node v ?p)" .
    show ?thesis
    proof (cases "stat_type x = NodeRegularFile \<and> \<not> preserves reset f \<and> stat_size x = file_size f")
      case False
      have regular: "is_file (node v ?p) \<longleftrightarrow> stat_type x = NodeRegularFile"
        using kind quiet by (auto simp: is_file_def stat_matches_def quiet_def split: node.split_asm)
      show ?thesis
        using eq Some n1 False regular by (auto simp: action_right_def split: if_split_asm)
    next
      case True
      then obtain c where c: "node v ?p = File c" "length c = unat (file_size f)"
        using kind quiet by (auto simp: stat_matches_def quiet_def split: node.split_asm)
      obtain hs digest v2 where h: "HashTarget fs ?p (file_size f) b base all progress v1 = (hs, digest, v2)"
        by (metis prod.exhaust)
      note hd = HashTarget_digest [OF h assms(2), of c]
      have "ConstantTimeDigestEqual (Some (sha256 c)) (Some (file_sha256 f)) \<longleftrightarrow> DigestEqual (sha256 c) (file_sha256 f)"
        by (simp add: ConstantTimeDigestEqual_def DigestEqual_def)
      then have same: "ConstantTimeDigestEqual (Some (sha256 c)) (Some (file_sha256 f)) \<longleftrightarrow> sha256 c = file_sha256 f"
        using assms(3) by (simp add: DigestEqual_iff)
      show ?thesis
        using eq Some True h hd n1 c same
        by (cases hs) (auto simp: action_right_def release_node_def right_content_def split: if_split_asm)
    qed
  qed
  show "node v' = node v" and "r = Inr a \<Longrightarrow> action_right reset v f a" using both by auto
qed

lemma plan_files_right:
  assumes "plan_files fs reset b all progress items acts s v = (r, v')" and "b \<noteq> 0"
    and "list_all (\<lambda>f. length (file_sha256 f) = 32) items"
    and "quiet (node v)"
  shows "node v' = node v \<and> (\<forall>s' acts'. r = Inr (s', acts') \<longrightarrow>
    (\<exists>new. acts' = acts @ new \<and> list_all2 (action_right reset v) items new))"
  using assms(1,3,4)
proof (induction items arbitrary: acts s v)
  case Nil
  then show ?case by auto
next
  case (Cons f items)
  obtain ca v1 where c: "choose_action fs reset b (hashed s) all progress f v = (ca, v1)" by fastforce
  have l: "length (file_sha256 f) = 32" using Cons.prems(2) by simp
  note right = choose_action_right [OF c assms(2) l Cons.prems(3)]
  show ?case
  proof (cases ca)
    case (Inl status)
    with Cons.prems(1) c right(1) show ?thesis by auto
  next
    case (Inr a)
    obtain ok s1 where k: "count_action f a s = (ok, s1)" by fastforce
    show ?thesis
    proof (cases "ok \<and> (\<exists>h. AddWithoutOverflow (hashed s1) (file_size f) = Some h \<and> Report progress HashPhase h all)")
      case False
      with Cons.prems(1) c Inr k right(1) show ?thesis
        by (auto split: bool.split_asm option.split_asm if_split_asm)
    next
      case True
      then obtain h where "plan_files fs reset b all progress items (acts @ [a]) (s1\<lparr>hashed := h\<rparr>) v1 = (r, v')"
        using Cons.prems(1) c Inr k by auto
      from Cons.IH [OF this] Cons.prems(2,3) right(1) have IH: "node v' = node v1 \<and> (\<forall>s' acts'. r = Inr (s', acts') \<longrightarrow>
          (\<exists>new. acts' = (acts @ [a]) @ new \<and> list_all2 (action_right reset v1) items new))" by simp
      have same: "action_right reset v1 = action_right reset v" by (intro ext) (simp add: action_right_def right(1) split: FileAction.split)
      show ?thesis
      proof (intro conjI allI impI)
        show "node v' = node v" using IH right(1) by simp
        fix s' acts' assume "r = Inr (s', acts')"
        then obtain new where "acts' = acts @ (a # new)" "list_all2 (action_right reset v) items new"
          using IH same by auto
        then show "\<exists>new. acts' = acts @ new \<and> list_all2 (action_right reset v) (f # items) new"
          using right(2) [OF Inr] by (intro exI [of _ "a # new"]) simp
      qed
    qed
  qed
qed

section \<open>The whole installation\<close>

lemma check_manifest_ok:
  assumes "check_manifest asset = Inr n"
  shows "f \<in> set (files asset) \<Longrightarrow> fat_key (file_path f) \<noteq> fat_key temp"
    and "p \<in> gone asset \<Longrightarrow> fat_key p \<noteq> fat_key temp \<and> (\<forall>f \<in> set (files asset). fat_key p \<noteq> fat_key (file_path f))"
proof -
  obtain k where c: "check_files (files asset) 0 0 = Inr (k, n)" "check_deletions asset (deletions asset) = None"
      "check_replacements asset (replacements asset) = None"
    using assms by (auto simp: check_manifest_def split: sum.split_asm if_split_asm option.split_asm)
  show "f \<in> set (files asset) \<Longrightarrow> fat_key (file_path f) \<noteq> fat_key temp"
    using check_files_ok [OF c(1)] not_reserved_temp by blast
  show "p \<in> gone asset \<Longrightarrow> fat_key p \<noteq> fat_key temp \<and> (\<forall>f \<in> set (files asset). fat_key p \<noteq> fat_key (file_path f))"
    using check_deletions_ok [OF c(2)] check_replacements_ok [OF c(3)] not_reserved_temp by (auto simp: gone_def)
qed

lemma publish_status:
  "publish fs inflate d asset expected progress items all r s = (r', v') \<Longrightarrow>
   update_status r' \<in> {UpdateOk, ExtractFailed, PublishFailed}"
  by (auto simp: publish_def finish_install_def Let_def split: prod.split_asm if_split_asm)

text \<open>
  \<open>reached asset items ok v v'\<close>: the volume before and after an installation which chose the
  actions of \<open>items\<close> and passed the stage of changing nothing.
\<close>

definition reached :: "ManifestAsset \<Rightarrow> (ManifestFile \<times> FileAction) list \<Rightarrow> bool \<Rightarrow> 'v \<Rightarrow> 'v \<Rightarrow> bool" where
  "reached asset items ok v v' \<longleftrightarrow>
     (\<exists>v1. (\<forall>q. fat_key q \<noteq> fat_key temp \<longrightarrow> node v1 q = node v q \<or>
          (fat_key q \<in> fat_key ` set (directories asset) \<and> node v q = Absent \<and> node v1 q = Folder)) \<and>
        published asset items ok v1 v')"

lemma published_refl: "published asset items False v v"
  by (simp add: published_def only_same moves_def)

lemma apply_plan_reached:
  assumes a: "apply_plan fs inflate d asset (BuildExpectedInventory asset) progress rz s acts v = (r, v')"
    and plan: "plan_ok asset (zip (files asset) acts)" and m: "check_manifest asset = Inr n"
  shows "(node v' = node v \<and> update_status r \<noteq> UpdateOk) \<or>
    (reached asset (zip (files asset) acts) (update_status r = UpdateOk) v v' \<and>
     update_status r \<in> {UpdateOk, ExtractFailed, PublishFailed, FileSystemError} \<and>
     (update_status r = UpdateOk \<longrightarrow> node v' temp = Absent))"
proof -
  let ?items = "zip (files asset) acts"
  have apart: "fat_key ` gone asset \<inter> keys (due UNIV ?items) = {}" "fat_key temp \<notin> fat_key ` gone asset"
    using check_manifest_ok(2) [OF m] by (fastforce simp: keys_def due_def dest: set_zip_leftD)+
  obtain fr v1 where f: "GetFreeSpace fs v = (fr, v1)" by fastforce
  obtain b v2 where rm: "RemoveFile fs temp v1 = (b, v2)" by fastforce
  obtain b3 v3 where cd: "create_directories fs (directories asset) v2 = (b3, v3)" by fastforce
  note n1 = GetFreeSpace_node [OF f] and o2 = change_laws(6) [OF rm] and m3 = create_directories_made [OF cd]
  have dirs2: "node v2 q = node v q" if "fat_key q \<noteq> fat_key temp" for q using o2 n1 that by (simp add: only_def)
  have dirs3: "node v3 q = node v q \<or> (fat_key q \<in> fat_key ` set (directories asset) \<and> node v q = Absent \<and> node v3 q = Folder)"
    if "fat_key q \<noteq> fat_key temp" for q
  proof -
    have "node v3 q = node v2 q \<or> (fat_key q \<in> fat_key ` set (directories asset) \<and> node v2 q = Absent \<and> node v3 q = Folder)"
      using m3 unfolding made_def by blast
    then show ?thesis unfolding dirs2 [OF that] is_file_def by auto
  qed
  consider "node v' = node v" "update_status r \<noteq> UpdateOk" | "v' = v2" "update_status r = FileSystemError"
    | "v' = v3" "update_status r \<in> {FileSystemError, PublishFailed}"
    | all r0 s0 where "publish fs inflate d asset (BuildExpectedInventory asset) progress ?items all r0 s0 = (r, v')" "volume s0 = v3"
    using a f rm cd n1
    by (auto simp: apply_plan_def Let_def split: option.split_asm if_split_asm bool.split_asm)
  then show ?thesis
  proof cases
    case 1
    then show ?thesis by simp
  next
    case 2
    have "reached asset ?items False v v2"
      unfolding reached_def by (rule exI [of _ v2]) (use dirs2 published_refl in blast)
    with 2 show ?thesis by simp
  next
    case 3
    have "reached asset ?items False v v3"
      unfolding reached_def by (rule exI [of _ v3]) (use dirs3 published_refl in blast)
    with 3 show ?thesis by auto
  next
    case 4
    note pv = publish_volume [OF plan apart 4(1)]
    have "reached asset ?items (update_status r = UpdateOk) v v'"
      unfolding reached_def by (rule exI [of _ v3]) (use dirs3 pv(1) 4(2) in blast)
    with pv(2) publish_status [OF 4(1)] show ?thesis by auto
  qed
qed

lemma plan_zip_ok:
  assumes "asset_ok asset" and "check_manifest asset = Inr n" and "length acts = length (files asset)"
  shows "plan_ok asset (zip (files asset) acts)"
proof -
  have "map (\<lambda>(f, a). fat_key (file_path f)) (zip (files asset) acts) = map (\<lambda>f. fat_key (file_path f)) (files asset)"
    using assms(3) by (simp add: list_eq_iff_nth_eq)
  then show ?thesis
    using assms(1) check_manifest_ok(1) [OF assms(2)] by (auto simp: plan_ok_def asset_ok_def dest: set_zip_leftD)
qed

lemma choose_action_status:
  "choose_action fs reset b base all progress f v = (Inl st, v') \<Longrightarrow> st \<in> {FileSystemError, Canceled}"
  by (auto simp: choose_action_def split: prod.split_asm option.split_asm if_split_asm HashTargetStatus.split_asm)

lemma plan_files_status:
  "plan_files fs reset b all progress items acts s v = (Inl r, v') \<Longrightarrow>
   update_status r \<in> {FileSystemError, Canceled, UpdateInvalidArgument}"
proof (induction items arbitrary: acts s v)
  case (Cons f items)
  obtain ca v1 where c: "choose_action fs reset b (hashed s) all progress f v = (ca, v1)" by fastforce
  show ?case
  proof (cases ca)
    case (Inl st)
    with Cons.prems c choose_action_status [of reset b "hashed s" all progress f v st v1] show ?thesis by auto
  next
    case (Inr a)
    with Cons.prems c Cons.IH show ?thesis
      by (auto split: prod.split_asm bool.split_asm option.split_asm if_split_asm)
  qed
qed simp

lemma Install_reached:
  assumes ok: "asset_ok asset"
    and i: "Install (Some fs) inflate d opened asset reset auth w progress v = (r, v')"
    and quiet: "quiet (node v)"
  shows "(node v' = node v \<and> update_status r \<noteq> UpdateOk) \<or>
    (\<exists>acts n. check_manifest asset = Inr n \<and> list_all2 (action_right reset v) (files asset) acts \<and>
       reached asset (zip (files asset) acts) (update_status r = UpdateOk) v v' \<and>
       update_status r \<in> {UpdateOk, ExtractFailed, PublishFailed, FileSystemError} \<and>
       (update_status r = UpdateOk \<longrightarrow> node v' temp = Absent))"
proof -
  let ?expected = "BuildExpectedInventory asset"
  have status: "update_status (Result st) = st" for st by (simp add: Result_def)
  obtain vs v1 where g: "GetVolumeSize fs v = (vs, v1)" by fastforce
  note n1 = GetVolumeSize_node [OF g]
  show ?thesis
  proof (cases "\<exists>os rz n. opened = Some (os, rz) \<and> WorkspaceValid w asset \<and> check_manifest asset = Inr n")
    case False
    then have "v' = v" "update_status r \<noteq> UpdateOk"
      using i by (auto simp: Install_def status check_manifest_status split: option.split_asm if_split_asm sum.split_asm)
    then show ?thesis by simp
  next
    case True
    then obtain os rz n where o: "opened = Some (os, rz)" "WorkspaceValid w asset" "check_manifest asset = Inr n" by blast
    obtain bs rz1 where b: "BindAuthenticatedInventory rz ?expected = (bs, rz1)" by fastforce
    let ?s0 = "\<lparr>plan_result = Result UpdateInvalidArgument, hashed = 0, largest_changed = 0\<rparr>"
    obtain p v2 where pl: "plan_files fs reset (io_buffer_size w) n progress (files asset) [] ?s0 v1 = (p, v2)"
      by fastforce
    have io: "io_buffer_size w \<noteq> 0" using o(2) by (simp add: WorkspaceValid_def)
    have sha: "list_all (\<lambda>f. length (file_sha256 f) = 32) (files asset)" using ok by (simp add: asset_ok_def)
    note right = plan_files_right [OF pl io sha quiet [folded n1]]
    consider "node v' = node v" "update_status r \<noteq> UpdateOk"
      | s acts where "p = Inr (s, acts)" "apply_plan fs inflate d asset ?expected progress rz1 s acts v2 = (r, v')"
    proof (cases "\<exists>s acts. p = Inr (s, acts) \<and> apply_plan fs inflate d asset ?expected progress rz1 s acts v2 = (r, v')")
      case True
      then show ?thesis using that by blast
    next
      case False
      have st: "update_status r0 \<noteq> UpdateOk" if "p = Inl r0" for r0
        using plan_files_status [OF pl [unfolded that]] by auto
      have "node v' = node v \<and> update_status r \<noteq> UpdateOk"
        using i o b g pl False st n1 right
        by (auto simp: Install_def status Let_def split: option.split_asm if_split_asm sum.split_asm)
      then show ?thesis using that by blast
    qed
    then show ?thesis
    proof cases
      case 1
      then show ?thesis by simp
    next
      case 2
      with right have n2: "node v2 = node v" and acts: "list_all2 (action_right reset v1) (files asset) acts" using n1 by auto
      have same: "action_right reset v1 = action_right reset v"
        by (intro ext) (simp add: action_right_def n1 split: FileAction.split)
      have "length acts = length (files asset)" using acts by (simp add: list_all2_lengthD)
      from apply_plan_reached [OF 2(2) plan_zip_ok [OF ok o(3) this] o(3)] n2 acts o(3)
      show ?thesis unfolding same reached_def by auto
    qed
  qed
qed

text \<open>What each file and each name became, from \<open>reached\<close>.\<close>

lemma zip_all2:
  "list_all2 P xs ys \<Longrightarrow> x \<in> set xs \<Longrightarrow> \<exists>y. (x, y) \<in> set (zip xs ys) \<and> P x y"
  by (induction rule: list_all2_induct) auto

lemma due_action:
  assumes "list_all2 P (files asset) acts" and "f \<in> due p (zip (files asset) acts)"
  shows "f \<in> set (files asset) \<and> P f InstallFile \<and> InstallPass f \<in> p"
  using assms by (auto simp: due_def list_all2_iff dest: set_zip_leftD)

lemma reached_in_place:
  assumes ok: "asset_ok asset" and m: "check_manifest asset = Inr n"
    and acts: "list_all2 (action_right reset v) (files asset) acts"
    and reached: "reached asset (zip (files asset) acts) b v v'" and f: "f \<in> set (files asset)"
    and all_done: "f \<in> due UNIV (zip (files asset) acts) \<Longrightarrow> release_node f (node v' (file_path f))"
  shows "in_place reset (node v) (node v') f"
proof -
  let ?items = "zip (files asset) acts"
  obtain a where a: "(f, a) \<in> set ?items" "action_right reset v f a" using zip_all2 [OF acts f] by blast
  show ?thesis
  proof (cases "a = InstallFile")
    case True
    then have "f \<in> due UNIV ?items" using a(1) by (simp add: due_def)
    with all_done a(2) True show ?thesis by (auto simp: in_place_def action_right_def)
  next
    case False
    then have regular: "is_file (node v (file_path f))"
      using a(2) by (cases a) (auto simp: action_right_def release_node_def right_content_def is_file_def split: node.split_asm)
    have not_due: "fat_key (file_path f) \<notin> keys (due UNIV ?items)"
    proof
      assume "fat_key (file_path f) \<in> keys (due UNIV ?items)"
      then obtain g where g: "(g, InstallFile) \<in> set ?items" "fat_key (file_path g) = fat_key (file_path f)"
        by (auto simp: keys_def due_def)
      have "distinct (map (\<lambda>(f, a). fat_key (file_path f)) ?items)"
        using plan_zip_ok [OF ok m] list_all2_lengthD [OF acts] by (simp add: plan_ok_def)
      then have "inj_on (\<lambda>(f, a). fat_key (file_path f)) (set ?items)" by (simp add: distinct_map)
      from inj_onD [OF this _ g(1) a(1)] g(2) False show False by simp
    qed
    from reached obtain v1 where v1: "node v1 (file_path f) = node v (file_path f)"
      and p: "published asset ?items b v1 v'"
      using regular check_manifest_ok(1) [OF m f] by (auto simp: reached_def is_file_def)
    have "fat_key (file_path f) \<notin> insert (fat_key temp) (keys (due UNIV ?items) \<union> fat_key ` gone asset)"
      using not_due check_manifest_ok(1) [OF m f] check_manifest_ok(2) [OF m] f by force
    then have "node v' (file_path f) = node v (file_path f)"
      using p v1 by (auto simp: published_def dest: onlyD)
    with a(2) False regular show ?thesis by (cases a) (auto simp: in_place_def action_right_def)
  qed
qed

lemma Install_success:
  assumes "asset_ok asset" and "Install (Some fs) inflate d opened asset reset auth w progress v = (r, v')"
    and "quiet (node v)"
    and "update_status r = UpdateOk"
  shows "(\<forall>f \<in> set (files asset). in_place reset (node v) (node v') f) \<and>
    (\<forall>p \<in> gone asset. node v' p = Absent) \<and> node v' temp = Absent"
proof -
  from Install_reached [OF assms(1-3)] assms(4) obtain acts n where m: "check_manifest asset = Inr n"
    and acts: "list_all2 (action_right reset v) (files asset) acts"
    and re: "reached asset (zip (files asset) acts) True v v'" and t: "node v' temp = Absent" by auto
  from re obtain v1 where p: "published asset (zip (files asset) acts) True v1 v'" by (auto simp: reached_def)
  then have "in_place reset (node v) (node v') f" if "f \<in> set (files asset)" for f
    using reached_in_place [OF assms(1) m acts re that] by (auto simp: published_def)
  moreover have "node v' p = Absent" if "p \<in> gone asset" for p using p that by (simp add: published_def)
  ultimately show ?thesis using t by simp
qed

lemma Install_refused:
  assumes "asset_ok asset" and "Install (Some fs) inflate d opened asset reset auth w progress v = (r, v')"
    and "quiet (node v)"
    and "update_status r \<notin> {UpdateOk, ExtractFailed, PublishFailed, FileSystemError}"
  shows "node v' = node v"
  using Install_reached [OF assms(1-3)] assms(4) by auto

lemma Install_names:
  assumes ok: "asset_ok asset" and i: "Install (Some fs) inflate d opened asset reset auth w progress v = (r, v')"
    and quiet: "quiet (node v)"
    and q: "fat_key q \<noteq> fat_key temp"
  shows "node v' q = node v q \<or>
    (\<exists>f \<in> set (files asset). fat_key (file_path f) = fat_key q \<and> \<not> (preserves reset f \<and> is_file (node v q)) \<and>
       (node v' q = Absent \<or> release_node f (node v' q))) \<or>
    (\<exists>p \<in> gone asset. fat_key p = fat_key q \<and> node v' q = Absent) \<or>
    (fat_key q \<in> fat_key ` set (directories asset) \<and> node v q = Absent \<and> node v' q = Folder)"
proof (cases "node v' = node v")
  case False
  then obtain acts n b where acts: "list_all2 (action_right reset v) (files asset) acts"
    and re: "reached asset (zip (files asset) acts) b v v'"
    using Install_reached [OF ok i quiet] by blast
  let ?items = "zip (files asset) acts"
  from re q obtain v1 where v1: "node v1 q = node v q \<or>
      (fat_key q \<in> fat_key ` set (directories asset) \<and> node v q = Absent \<and> node v1 q = Folder)"
    and p: "published asset ?items b v1 v'" by (auto simp: reached_def)
  consider (planned) f where "f \<in> due UNIV ?items" "fat_key (file_path f) = fat_key q"
    | (deleted) x where "x \<in> gone asset" "fat_key x = fat_key q"
    | (other) "fat_key q \<notin> insert (fat_key temp) (keys (due UNIV ?items) \<union> fat_key ` gone asset)"
    using q unfolding keys_def by (metis (no_types, lifting) imageE insert_iff Un_iff)
  then show ?thesis
  proof cases
    case planned
    have n: "node x (file_path f) = node x q" for x by (rule node_key) (rule planned(2))
    from due_action [OF acts planned(1)] have f: "f \<in> set (files asset)" "\<not> (preserves reset f \<and> is_file (node v q))"
      by (auto simp: action_right_def n)
    have "fat_key q \<notin> fat_key ` set (directories asset)"
      using ok f(1) planned(2) by (auto simp: asset_ok_def list_all_iff)
    with v1 have "node v1 q = node v q" by simp
    moreover have "node v' q = node v1 q \<or> node v' q = Absent \<or> release_node f (node v' q)"
      using p planned(1) by (auto simp: published_def moves_def n)
    ultimately show ?thesis using f planned(2) by auto
  next
    case deleted
    have n: "node y x = node y q" for y by (rule node_key) (rule deleted(2))
    have "node v' q = node v1 q \<or> node v' q = Absent" using p deleted(1) by (auto simp: published_def n)
    with v1 deleted show ?thesis by metis
  next
    case other
    then have "node v' q = node v1 q" using p by (auto simp: published_def dest: onlyD)
    with v1 show ?thesis by metis
  qed
qed simp

lemma Install_commit:
  assumes ok: "asset_ok asset" and i: "Install (Some fs) inflate d opened asset reset auth w progress v = (r, v')"
    and quiet: "quiet (node v)"
    and b: "b \<in> set (files asset)" "IsBuildIdentity b" and moved: "node v' (file_path b) \<noteq> node v (file_path b)"
  shows "(\<forall>f \<in> set (files asset) - {b}. in_place reset (node v) (node v') f) \<and> (\<forall>p \<in> gone asset. node v' p = Absent)"
proof -
  have "node v' \<noteq> node v" using moved by auto
  with Install_reached [OF ok i quiet] obtain acts n ok' where m: "check_manifest asset = Inr n"
    and acts: "list_all2 (action_right reset v) (files asset) acts"
    and re: "reached asset (zip (files asset) acts) ok' v v'" by blast
  let ?items = "zip (files asset) acts"
  have dirs: "fat_key (file_path b) \<notin> fat_key ` set (directories asset)"
    using ok b(1) by (auto simp: asset_ok_def list_all_iff)
  from re obtain v1 where v1: "node v1 (file_path b) = node v (file_path b)" and p: "published asset ?items ok' v1 v'"
    using check_manifest_ok(1) [OF m b(1)] dirs by (auto simp: reached_def)
  have identity: "f = b" if "f \<in> set (files asset)" "IsBuildIdentity f" for f
  proof -
    have "inj_on (\<lambda>f. fat_key (file_path f)) (set (files asset))" using ok by (simp add: asset_ok_def distinct_map)
    from inj_onD [OF this _ that(1) b(1)] that(2) b(2) show ?thesis by (auto simp: IsBuildIdentity_def FatPathEqual_key)
  qed
  have b_due: "b \<in> due UNIV ?items"
  proof (rule ccontr)
    assume not_due: "b \<notin> due UNIV ?items"
    from reached_in_place [OF ok m acts re b(1)] not_due
    have "in_place reset (node v) (node v') b" by blast
    obtain a where a: "(b, a) \<in> set ?items" using zip_all2 [OF acts b(1)] by blast
    have "fat_key (file_path b) \<notin> keys (due UNIV ?items)"
    proof
      assume "fat_key (file_path b) \<in> keys (due UNIV ?items)"
      then obtain g where g: "g \<in> due UNIV ?items" "fat_key (file_path g) = fat_key (file_path b)"
        by (auto simp: keys_def)
      from due_action [OF acts g(1)] have "g \<in> set (files asset)" by simp
      moreover have "inj_on (\<lambda>f. fat_key (file_path f)) (set (files asset))" using ok by (simp add: asset_ok_def distinct_map)
      ultimately have "g = b" using inj_onD [of _ _ g b] g(2) b(1) by blast
      with g(1) not_due show False by simp
    qed
    then have "fat_key (file_path b) \<notin> insert (fat_key temp) (keys (due UNIV ?items) \<union> fat_key ` gone asset)"
      using check_manifest_ok(1) [OF m b(1)] check_manifest_ok(2) [OF m] b(1) by force
    then have "node v' (file_path b) = node v1 (file_path b)" using p by (auto simp: published_def dest: onlyD)
    with v1 moved show False by simp
  qed
  then have "b \<in> due {3} ?items" using b(2) by (auto simp: due_def InstallPass_def)
  with p v1 moved have rest: "\<forall>f \<in> due {0, 1, 2} ?items. release_node f (node v' (file_path f))"
      "\<forall>p \<in> gone asset. node v' p = Absent" by (auto simp: published_def)
  have "in_place reset (node v) (node v') f" if "f \<in> set (files asset) - {b}" for f
  proof (rule reached_in_place [OF ok m acts re])
    show "f \<in> set (files asset)" using that by simp
    assume "f \<in> due UNIV ?items"
    moreover have "\<not> IsBuildIdentity f" using identity that by blast
    ultimately have "f \<in> due {0, 1, 2} ?items" by (auto simp: due_def InstallPass_def)
    with rest(1) show "release_node f (node v' (file_path f))" by blast
  qed
  with rest(2) show ?thesis by blast
qed

end

end
