(* ===== verification/Archive_Install.thy ===== *)
theory Archive_Install
  imports Zip_Directory Installer_Volume
begin

text \<open>
  The start of \<open>SimpleUpdateInstaller::Install\<close> with the archive it opens: \<open>Install\<close> of
  \<open>Update_Installer\<close> takes the result of \<open>Open\<close>, and here that result comes from the archive.  What
  the proofs of the installer ask of the names in a manifest then follows from the archive: an
  opened archive has no two names that FAT takes for the same, and the inventory of the manifest
  was bound to it.
\<close>

definition OpenArchive :: "SimpleUpdateWorkspace \<Rightarrow> SeekableZipSource \<Rightarrow> ZipStatus \<times> ZipReader" where
  "OpenArchive w source =
     (case Open (Some source) (have_zip_entries w) (zip_entry_capacity w) default_limits None
             (SetWorkspace (have_zip_workspace w) new_ZipReader) of
        (status, r) \<Rightarrow> (status, ZipReader.truncate r))"

definition InstallArchive ::
  "'v UpdateFileSystem option \<Rightarrow> 'd inflater \<Rightarrow> 'd \<Rightarrow> SeekableZipSource option \<Rightarrow> ManifestAsset \<Rightarrow>
   bool \<Rightarrow> bool \<Rightarrow> SimpleUpdateWorkspace \<Rightarrow> progress \<Rightarrow> 'v \<Rightarrow> SimpleUpdateResult \<times> 'v" where
  "InstallArchive file_system inflate tinfl_init archive asset reset authenticated w progress v =
     Install file_system inflate tinfl_init (map_option (OpenArchive w) archive) asset reset authenticated w progress v"

text \<open>The digests of a manifest are arrays of 32 bytes in the source.\<close>

definition digests_sized :: "ManifestAsset \<Rightarrow> bool" where
  "digests_sized asset \<longleftrightarrow> list_all (\<lambda>f. length (file_sha256 f) = 32) (files asset)"

lemma verify_files_names:
  "verify_files r previous fs = ZipOk \<Longrightarrow>
   distinct (map expected_path fs) \<and> (\<forall>f \<in> set fs. \<exists>path. expected_path f = Some path \<and> path \<notin> set previous \<and>
     (\<exists>e \<in> set (entries r). \<not> is_directory e \<and> entry_path e = path))"
proof (induction r previous fs rule: verify_files.induct)
  case (2 r previous wanted fs)
  from "2.prems" obtain path actual where w: "expected_path wanted = Some path" "path \<notin> set previous"
      "find_entry r False path = Some actual" "verify_files r (previous @ [path]) fs = ZipOk"
    "\<not> (entry_size actual \<noteq> expected_size wanted \<or> compression actual \<noteq> expected_compression wanted)" "path \<noteq> []"
    by (auto split: option.split_asm if_split_asm)
  from find_entry_Some [OF w(3)] w(3) have "actual \<in> set (entries r)" "\<not> is_directory actual" "entry_path actual = path"
    by (auto simp: find_entry_def find_Some_iff)
  moreover from "2.IH" [OF w(1) w(6,2,3) w(5,4)]
  have IH: "distinct (map expected_path fs)"
    "\<forall>f \<in> set fs. \<exists>p. expected_path f = Some p \<and> p \<notin> set (previous @ [path]) \<and>
      (\<exists>e \<in> set (entries r). \<not> is_directory e \<and> entry_path e = p)" by blast+
  ultimately show ?case using w(1,2) by fastforce
qed simp

lemma verify_directories_names:
  "verify_directories r previous ds = ZipOk \<Longrightarrow> Some path \<in> set ds \<Longrightarrow>
   \<exists>e \<in> set (entries r). is_directory e \<and> entry_path e = path"
proof (induction r previous ds rule: verify_directories.induct)
  case (2 r previous wanted ds)
  then show ?case
    by (fastforce simp: find_entry_def find_Some_iff split: option.split_asm if_split_asm)
qed simp

lemma verified_asset_ok:
  assumes "names_apart (entries r)" and "VerifyExpectedInventory r (BuildExpectedInventory asset) = ZipOk"
    and "digests_sized asset"
  shows "asset_ok asset"
proof -
  have v: "verify_files r [] (expected_files (BuildExpectedInventory asset)) = ZipOk"
    "verify_directories r [] (map Some (directories asset)) = ZipOk"
    using assms(2) by (auto simp: VerifyExpectedInventory_def BuildExpectedInventory_def Let_def split: if_split_asm)
  note files = verify_files_names [OF v(1)]
  have same: "e = e'" if "e \<in> set (entries r)" "e' \<in> set (entries r)" "fat_key (entry_path e) = fat_key (entry_path e')" for e e'
    using assms(1) that by (auto simp: names_apart_def distinct_map dest: inj_onD)
  have entry: "\<exists>e \<in> set (entries r). \<not> is_directory e \<and> entry_path e = file_path f" if "f \<in> set (files asset)" for f
    using files that by (fastforce simp: BuildExpectedInventory_def)
  have "map expected_path (expected_files (BuildExpectedInventory asset)) = map Some (map file_path (files asset))"
    by (simp add: BuildExpectedInventory_def)
  with files have "distinct (map Some (map file_path (files asset)))" by (simp only:)
  then have paths: "distinct (map file_path (files asset))" by (simp only: distinct_map)
  have "inj_on fat_key (file_path ` set (files asset))"
  proof (rule inj_onI)
    fix p q assume "p \<in> file_path ` set (files asset)" "q \<in> file_path ` set (files asset)" and k: "fat_key p = fat_key q"
    then obtain e e' where "e \<in> set (entries r)" "entry_path e = p" "e' \<in> set (entries r)" "entry_path e' = q"
      using entry by blast
    with same [of e e'] k show "p = q" by simp
  qed
  with paths have "distinct (map fat_key (map file_path (files asset)))" by (simp only: distinct_map set_map)
  then have "distinct (map (\<lambda>f. fat_key (file_path f)) (files asset))" by (simp add: comp_def)
  moreover have "fat_key (file_path f) \<noteq> fat_key p" if "f \<in> set (files asset)" "p \<in> set (directories asset)" for f p
    using entry [OF that(1)] verify_directories_names [OF v(2), of p] that(2) same by fastforce
  ultimately show ?thesis using assms(3) by (auto simp: asset_ok_def digests_sized_def list_all_iff)
qed

lemma OpenArchive_names:
  assumes "OpenArchive w source = (ZipOk, r)"
  shows "names_apart (entries r)"
proof -
  obtain r' where "Open (Some source) (have_zip_entries w) (zip_entry_capacity w) default_limits None
      (SetWorkspace (have_zip_workspace w) new_ZipReader) = (ZipOk, r')" and r: "r = ZipReader.truncate r'"
    using assms by (auto simp: OpenArchive_def split: prod.split_asm)
  from Open_ok [OF this(1)] obtain source' l r0 e c s where
    d: "read_directory source' l r0 None e = Inr (c, s)" "entries r' = checked s" by metis
  from read_directory_ok(1) [OF d(1)] placed_names(2) [OF read_directory_ok(2) [OF d(1)]] d(2) r show ?thesis
    by (simp add: directory_counted_def ZipReader.truncate_def)
qed

text \<open>So a run of the installer either is over a sound manifest, or is refused at its start.\<close>

lemma InstallArchive_cases:
  assumes "InstallArchive (Some fs) inflate d archive asset reset auth w progress v = (r, v')"
    and "digests_sized asset"
  shows "(asset_ok asset \<and>
      Install (Some fs) inflate d (map_option (OpenArchive w) archive) asset reset auth w progress v = (r, v')) \<or>
    (v' = v \<and> update_status r \<noteq> UpdateOk)"
proof (cases "asset_ok asset")
  case False
  have bad: "fst (BindAuthenticatedInventory rz (BuildExpectedInventory asset)) \<noteq> ZipOk"
    if "OpenArchive w source = (ZipOk, rz)" for source rz
    using verified_asset_ok [OF OpenArchive_names [OF that] _ assms(2)] False
    by (auto simp: BindAuthenticatedInventory_def Let_def split: if_split_asm option.split)
  have status: "update_status (Result st) = st" for st by (simp add: Result_def)
  have "v' = v \<and> update_status r \<noteq> UpdateOk"
  proof (cases archive)
    case None
    with assms(1) show ?thesis by (auto simp: InstallArchive_def Install_def status)
  next
    case (Some source)
    obtain os rz where o: "OpenArchive w source = (os, rz)" by fastforce
    obtain bs rz' where b: "BindAuthenticatedInventory rz (BuildExpectedInventory asset) = (bs, rz')" by fastforce
    have "os = ZipOk \<Longrightarrow> bs \<noteq> ZipOk" using bad o b by force
    with assms(1) Some o b show ?thesis
      by (auto simp: InstallArchive_def Install_def status check_manifest_status Let_def
          split: if_split_asm sum.split_asm)
  qed
  then show ?thesis by simp
next
  case True
  with assms(1) show ?thesis by (simp add: InstallArchive_def)
qed

end
