(* ===== verification/Demo_Archive.thy ===== *)
theory Demo_Archive
  imports Archive_Install
begin

text \<open>
  An archive of one stored member, an empty build identity, byte by byte, and what \<open>Open\<close> makes of
  it.  It is the archive of the concrete run in \<open>Installer_Safety\<close>.
\<close>

definition demo_identity :: path where
  "demo_identity = bytes_of ''BMX-BUILD.json''"

definition demo_local :: "byte list" where
  "demo_local = [0x50, 0x4b, 0x03, 0x04, 0x14] @ replicate 21 0 @ [14, 0, 0, 0]"

definition demo_central :: "byte list" where
  "demo_central = [0x50, 0x4b, 0x01, 0x02, 0x14, 0, 0x14] @ replicate 21 0 @ [14, 0] @ replicate 16 0"

definition demo_end :: "byte list" where
  "demo_end = [0x50, 0x4b, 0x05, 0x06, 0, 0, 0, 0, 1, 0, 1, 0, 60, 0, 0, 0, 44, 0, 0, 0, 0, 0]"

definition demo_bytes :: "byte list" where
  "demo_bytes = demo_local @ demo_identity @ demo_central @ demo_identity @ demo_end"

definition demo_source :: SeekableZipSource where
  "demo_source = \<lparr>GetSize = Some (of_nat (length demo_bytes)),
     ReadAt = (\<lambda>offset n. if unat offset + n \<le> length demo_bytes then Some (take n (drop (unat offset) demo_bytes)) else None)\<rparr>"

definition demo_entry :: ZipEntry where
  "demo_entry = \<lparr>entry_path = demo_identity, is_directory = False, compression = ZipStore, entry_flags = 0,
     crc32 = 0, compressed_size = 0, entry_size = 0, local_header_offset = 0, data_offset = 44,
     external_attributes = 0, creator_system = 0\<rparr>"

definition demo_reader :: ZipReader where
  "demo_reader = \<lparr>reader_source = demo_source, entries = [demo_entry],
     inventory = \<lparr>file_count = 1, directory_count = 0, archive_size = 126, installed_size = 0,
       central_directory_offset = 44, central_directory_size = 60\<rparr>,
     workspace = True, reader_open = True, validated_inventory_binding = replicate 32 0, validated_contents = False\<rparr>"

lemma demo_length: "length demo_bytes = 126"
  by (simp add: demo_bytes_def demo_local_def demo_central_def demo_end_def demo_identity_def)

lemma demo_backed: "backed demo_source demo_bytes"
  using u64_less by (auto simp: backed_def source_read_def demo_source_def)

lemma demo_reads:
  "source_read demo_source 0 kLocalHeaderSize = Some demo_local" "source_read demo_source 30 14 = Some demo_identity"
  "source_read demo_source 44 kCentralHeaderSize = Some demo_central" "source_read demo_source 90 14 = Some demo_identity"
  "source_read demo_source 104 kEndRecordSize = Some demo_end"
  by code_simp+

section \<open>The end record\<close>

abbreviation demo_end_record :: EndRecord where
  "demo_end_record \<equiv>
     \<lparr>end_archive_size = 126, end_offset = 104, end_entry_count = Suc 0, end_central_offset = 44, end_central_size = 60\<rparr>"

lemma demo_searches:
  "FindLastSignature demo_source 0 126 end_signature = Some (Some 104)"
  "ContainsSignature demo_source 0 104 zip64_end_signature = Some False"
  "ContainsSignature demo_source 0 104 zip64_locator_signature = Some False"
proof -
  have h: "range_hits end_signature demo_bytes 0 126 = [104]" "range_hits zip64_end_signature demo_bytes 0 104 = []"
    "range_hits zip64_locator_signature demo_bytes 0 104 = []" by code_simp+
  show "FindLastSignature demo_source 0 126 end_signature = Some (Some 104)"
    using last_loop_hits [OF demo_backed, of 126 "[]" 0 0 end_signature None] h
    by (simp add: FindLastSignature_def demo_length)
  show "ContainsSignature demo_source 0 104 zip64_end_signature = Some False"
    "ContainsSignature demo_source 0 104 zip64_locator_signature = Some False"
    using contains_loop_hits [OF demo_backed, of 104 "[]" 0 0] h
    by (simp_all add: ContainsSignature_def demo_length)
qed

lemma demo_find_end: "find_end_record demo_source default_limits False 8 = Inr demo_end_record"
proof -
  have f: "ReadU32 demo_end 0 = kEndSignature" "ReadU16 demo_end 4 = 0" "ReadU16 demo_end 6 = 0" "ReadU16 demo_end 8 = 1"
    "ReadU16 demo_end 10 = 1" "ReadU32 demo_end 12 = 60" "ReadU32 demo_end 16 = 44" "ReadU16 demo_end 20 = 0"
    by code_simp+
  have "parse_end_record default_limits False 8 126 104 demo_end = Inr demo_end_record"
    unfolding parse_end_record_def f by (simp add: default_limits_def kZipMaximumEntries_def CheckedAdd_def kEndRecordSize_def)
  moreover have limits: "maximum_archive_bytes default_limits = 536870912" by (simp add: default_limits_def)
  moreover have "GetSize demo_source = Some 126" by (simp add: demo_source_def demo_length)
  ultimately show ?thesis
    by (simp add: find_end_record_def demo_searches demo_reads [unfolded zip_sizes] limits zip_sizes RangeWithin_def CheckedAdd_def)
qed

section \<open>The directory\<close>

lemma demo_central_fields:
  "ReadU32 demo_central 0 = kCentralSignature" "ReadU16 demo_central 4 = 0x14" "ReadU16 demo_central 6 = 0x14"
  "ReadU16 demo_central 8 = 0" "ReadU16 demo_central 10 = 0" "ReadU32 demo_central 16 = 0" "ReadU32 demo_central 20 = 0"
  "ReadU32 demo_central 24 = 0" "ReadU16 demo_central 28 = 14" "ReadU16 demo_central 30 = 0" "ReadU16 demo_central 32 = 0"
  "ReadU16 demo_central 34 = 0" "ReadU32 demo_central 38 = 0" "ReadU32 demo_central 42 = 0"
  by code_simp+

lemma demo_local_fields:
  "ReadU32 demo_local 0 = kLocalSignature" "ReadU16 demo_local 4 = 0x14" "ReadU16 demo_local 6 = 0" "ReadU16 demo_local 8 = 0"
  "ReadU32 demo_local 14 = 0" "ReadU32 demo_local 18 = 0" "ReadU32 demo_local 22 = 0"
  "ReadU16 demo_local 26 = 14" "ReadU16 demo_local 28 = 0"
  by code_simp+

lemma demo_metadata: "IsDirectoryMetadata 0 0 False = ZipOk"
  by (simp add: IsDirectoryMetadata_def)

lemma demo_strict: "lenient_extra_fields r = False \<Longrightarrow> lenient_paths r = False \<Longrightarrow>
    check_central_header r demo_central = ZipOk"
  "lenient_extra_fields r = False \<Longrightarrow> lenient_paths r = False \<Longrightarrow>
    check_local_header r (demo_entry\<lparr>data_offset := 0\<rparr>) demo_local = ZipOk"
  by (simp_all add: check_central_header_def check_local_header_def demo_central_fields demo_local_fields demo_entry_def
      kZipMaximumPathBytes_def)

lemma demo_record: "record_size demo_central = Some 60"
  by (simp add: record_size_def demo_central_fields CheckedAdd_def kCentralHeaderSize_def)

lemma demo_central_entry: "central_entry demo_central demo_identity False = demo_entry\<lparr>data_offset := 0\<rparr>"
  by (simp add: central_entry_def demo_central_fields demo_entry_def)

lemma demo_name_ok: "ValidateFatRelativePathBytes (Some demo_identity) 240 = FatOk"
  by code_simp

lemma demo_name:
  "demo_identity \<noteq> []" "\<not> list_ex (\<lambda>b. b = 0) demo_identity" "\<not> list_ex (\<lambda>b. b \<ge> 0x80) demo_identity"
  "demo_identity ! (length demo_identity - 1) \<noteq> slash"
  "length demo_identity = 14"
  by code_simp+

text \<open>The steps for any strict reader, and \<open>Open\<close>.\<close>

lemma demo_central_step:
  assumes "lenient_extra_fields r = False" and "lenient_paths r = False"
  shows "central_step demo_source default_limits r 104
     \<lparr>cursor = 44, scanned = [], scanned_files = 0, scanned_directories = 0\<rparr> =
   Inr \<lparr>cursor = 104, scanned = [demo_entry\<lparr>data_offset := 0\<rparr>], scanned_files = 1, scanned_directories = 0\<rparr>"
proof -
  have p: "maximum_path_bytes default_limits = 240" "maximum_file_bytes default_limits = 134217728"
    by (simp_all add: default_limits_def kZipMaximumPathBytes_def)
  have "read_central_header demo_source default_limits r 104 44 = Inr (demo_central, 60, demo_identity)"
    using demo_strict(1) [OF assms] demo_reads
    by (simp add: read_central_header_def demo_central_fields demo_record p zip_sizes RangeWithin_def CheckedAdd_def Let_def)
  moreover have "central_path r default_limits 0 demo_identity = Inr (demo_identity, False)"
    using demo_name demo_name_ok by (simp add: central_path_def assms ValidateAndCopyPath_def p Let_def)
  moreover have "check_entry_sizes r default_limits (demo_entry\<lparr>data_offset := 0\<rparr>) = ZipOk"
    by (simp add: check_entry_sizes_def demo_entry_def p default_limits_def)
  ultimately show ?thesis
    using demo_name demo_metadata
    by (simp add: central_step_def demo_central_fields demo_central_entry check_duplicates_def Let_def)
qed

lemma demo_local_step:
  assumes "lenient_extra_fields r = False" and "lenient_paths r = False"
  shows "local_step demo_source default_limits r 44 (demo_entry\<lparr>data_offset := 0\<rparr>)
      \<lparr>checked = [], expected_local_offset = 0, installed_bytes = 0\<rparr> =
     Inr \<lparr>checked = [demo_entry], expected_local_offset = 44, installed_bytes = 0\<rparr>"
proof -
  have e: "local_header_offset demo_entry = 0" "compressed_size demo_entry = 0" "entry_size demo_entry = 0"
    "\<not> is_directory demo_entry" "entry_path demo_entry = demo_identity" "demo_entry\<lparr>data_offset := 44\<rparr> = demo_entry"
    by (simp_all add: demo_entry_def)
  have "local_header demo_source r 44 0 (demo_entry\<lparr>data_offset := 0\<rparr>) = Inr 44"
    using demo_strict(2) [OF assms] demo_reads
    by (simp add: local_header_def local_data_offset_def compared_name_def demo_local_fields e assms zip_sizes
        RangeWithin_def CheckedAdd_def)
  then show ?thesis
    by (simp add: local_step_def skip_descriptor_def assms e CheckedAdd_def default_limits_def)
qed

lemma demo_directory:
  assumes "lenient_extra_fields r = False" and "lenient_paths r = False"
  shows "read_directory demo_source default_limits r None demo_end_record =
   Inr (\<lparr>cursor = 104, scanned = [demo_entry\<lparr>data_offset := 0\<rparr>], scanned_files = 1, scanned_directories = 0\<rparr>,
     \<lparr>checked = [demo_entry], expected_local_offset = 44, installed_bytes = 0\<rparr>)"
  using demo_central_step [OF assms] demo_local_step [OF assms]
  by (simp add: read_directory_def) (simp add: file_used_as_directory_def)

lemma demo_open:
  "Open (Some demo_source) True 8 default_limits None (SetWorkspace True new_ZipReader) =
   (ZipOk, ZipReader.extend demo_reader (ArchiveReader.fields default_limits False False False False []))"
proof -
  have "limits_valid default_limits" by (simp add: limits_valid_def default_limits_def zip_sizes)
  then show ?thesis
    by (simp add: Open_def SetWorkspace_def new_ZipReader_def demo_find_end demo_directory demo_reader_def
        ZipReader.extend_def ArchiveReader.fields_def)
qed

section \<open>The properties of \<open>Open\<close> on it\<close>

lemma demo_opened_reader:
  "entries (ZipReader.extend demo_reader rest) = [demo_entry]"
  "central_directory_offset (inventory (ZipReader.extend demo_reader rest)) = 44"
  "central_directory_size (inventory (ZipReader.extend demo_reader rest)) = 60"
  "archive_size (inventory (ZipReader.extend demo_reader rest)) = 126"
  by (simp_all add: demo_reader_def ZipReader.extend_def)

theorem opened_names_safe_witness:
  "ValidateFatRelativePathBytes (Some demo_identity) 240 = FatOk \<and> \<not> below_file [demo_entry]"
proof -
  have "maximum_path_bytes default_limits = 240" "entry_path demo_entry = demo_identity"
    by (simp_all add: default_limits_def kZipMaximumPathBytes_def demo_entry_def)
  then show ?thesis using opened_names_safe [OF demo_open] by (simp add: demo_opened_reader)
qed

theorem opened_archive_tiled_witness:
  "local_tiled demo_source 0 [demo_entry] 44 \<and> central_tiled demo_source 44 [demo_entry] 104"
proof -
  have "strict (SetWorkspace True new_ZipReader)" by (simp add: strict_def SetWorkspace_def new_ZipReader_def)
  from opened_archive_tiled [OF demo_open this] show ?thesis by (simp only: demo_opened_reader) simp
qed

theorem signature_search_exact_witness:
  "ContainsSignature demo_source 0 126 end_signature = Some True"
proof -
  have "range_hits end_signature demo_bytes 0 126 = [104]" by code_simp
  moreover have "(0 :: u64) \<le> 126" "unat (126 :: u64) \<le> length demo_bytes" by (simp_all add: demo_length)
  ultimately show ?thesis using signature_search_exact [OF demo_backed, of 0 126 end_signature] by simp
qed

section \<open>A name that lenient browsing cuts short\<close>

text \<open>
  A member whose stored name has a NUL byte inside is refused by a strict reader and accepted by a
  lenient one, under the part of the name before the NUL.
\<close>

theorem lenient_name_cut_at_nul:
  "central_path new_ZipReader default_limits 0 [65, 0, 66] = Inl (ZipPathInvalid, Some [65, 63, 66]) \<and>
   central_path (SetLenientPaths True new_ZipReader) default_limits 0 [65, 0, 66] = Inr ([65], False)"
proof -
  have p: "maximum_path_bytes default_limits = 240" by (simp add: default_limits_def kZipMaximumPathBytes_def)
  have n: "NormalizeLenientPath 241 [65, 0, 66] = Some ([65, 0, 66], False)" by code_simp
  have c: "c_str [65, 0, 66] = [65]" by code_simp
  have v: "ValidateAndCopyPath [65] 0 False 240 = Inr [65]" "ValidateAndCopyPath [65, 0, 66] 0 False 240 = Inl ZipPathInvalid"
    by code_simp+
  have s: "noted [65, 0, 66] = Some [65, 63, 66]" by code_simp
  have d: "(66 :: byte) \<noteq> slash" by code_simp
  show ?thesis
    using v(2) d by (simp add: central_path_def SetLenientPaths_def new_ZipReader_def kZipMaximumPathBytes_def p n c v(1) s)
qed

end
