(* ===== verification/Fatfs_Adapter.thy ===== *)
theory Fatfs_Adapter
  imports Fat_Path Sha256_Hash Update_Volume
begin

text \<open>
  \<open>src/src/update/fatfs_update_filesystem.h\<close> and \<open>.cpp\<close>: the adapter that gives the updater its
  file system on a FAT card.  FatFs itself is third-party code that the repository does not
  hold, so its functions are the fields of the record \<open>FatFs\<close>, over types of their own for the
  card, for a \<open>FIL\<close> opened to read, for a \<open>FIL\<close> opened to write a new file, and for a directory
  being listed.  A closed handle of the source has every field reset, and is \<open>None\<close> here.

  The yield callbacks and the verify buffer have no effect on the results and are left out.  A
  path is the bytes of a C string; a list with a zero byte in it is none, and does not resolve.
\<close>

section \<open>The functions of FatFs\<close>

datatype FRESULT = FR_OK | FR_NO_FILE | FR_NO_PATH | FR_EXIST | FR_OTHER nat

record FILINFO =
  fname :: path
  fattrib :: byte
  fsize :: u64

record FATFS =
  csize :: u16
  sector_bytes :: u64
  n_fatent :: u32
  database :: u32
  volbase :: u32

text \<open>
  \<open>fsize_holds x\<close>: the value survives the cast to \<open>FSIZE_t\<close>, which has 32 or 64 bits by the
  configuration.  \<open>r_name\<close> and \<open>w_name\<close> are the path a \<open>FIL\<close> was opened with, \<open>sector_bytes\<close> is
  \<open>ssize\<close> or \<open>FF_MAX_SS\<close>.
\<close>

record ('d, 'r, 'w, 'q) FatFs =
  f_stat :: "path \<Rightarrow> 'd \<Rightarrow> (FRESULT \<times> FILINFO) \<times> 'd"
  f_open_existing :: "path \<Rightarrow> 'd \<Rightarrow> (FRESULT \<times> 'r) \<times> 'd"
  f_open_new :: "path \<Rightarrow> 'd \<Rightarrow> (FRESULT \<times> 'w) \<times> 'd"
  f_size_r :: "'r \<Rightarrow> u64"
  f_size_w :: "'w \<Rightarrow> u64"
  f_tell_r :: "'r \<Rightarrow> u64"
  f_tell_w :: "'w \<Rightarrow> u64"
  f_lseek :: "u64 \<Rightarrow> 'r \<Rightarrow> 'd \<Rightarrow> FRESULT \<times> 'r \<times> 'd"
  f_read :: "nat \<Rightarrow> 'r \<Rightarrow> 'd \<Rightarrow> (FRESULT \<times> byte list) \<times> 'r \<times> 'd"
  f_write :: "byte list \<Rightarrow> 'w \<Rightarrow> 'd \<Rightarrow> (FRESULT \<times> nat) \<times> 'w \<times> 'd"
  f_sync :: "'w \<Rightarrow> 'd \<Rightarrow> FRESULT \<times> 'w \<times> 'd"
  f_close_r :: "'r \<Rightarrow> 'd \<Rightarrow> FRESULT \<times> 'd"
  f_close_w :: "'w \<Rightarrow> 'd \<Rightarrow> FRESULT \<times> 'd"
  f_mkdir :: "path \<Rightarrow> 'd \<Rightarrow> FRESULT \<times> 'd"
  f_unlink :: "path \<Rightarrow> 'd \<Rightarrow> FRESULT \<times> 'd"
  f_rename :: "path \<Rightarrow> path \<Rightarrow> 'd \<Rightarrow> FRESULT \<times> 'd"
  f_opendir :: "path \<Rightarrow> 'd \<Rightarrow> (FRESULT \<times> 'q) \<times> 'd"
  f_readdir :: "'q \<Rightarrow> 'd \<Rightarrow> (FRESULT \<times> FILINFO) \<times> 'q \<times> 'd"
  f_closedir :: "'q \<Rightarrow> 'd \<Rightarrow> FRESULT \<times> 'd"
  f_getfree :: "path \<Rightarrow> 'd \<Rightarrow> (FRESULT \<times> u32 \<times> FATFS option) \<times> 'd"
  fsize_holds :: "u64 \<Rightarrow> bool"
  r_name :: "'r \<Rightarrow> path"
  w_name :: "'w \<Rightarrow> path"

definition AM_DIR :: byte where
  "AM_DIR = 0x10"

definition uint_maximum :: nat where
  "uint_maximum = 2 ^ 32 - 1"

section \<open>Names and the volume root\<close>

definition kFatFsUpdateFileSystemRelativePathBytes :: nat where
  "kFatFsUpdateFileSystemRelativePathBytes = 512"

definition kFatFsUpdateFileSystemAbsolutePathBytes :: nat where
  "kFatFsUpdateFileSystemAbsolutePathBytes = 544"

definition kFatFsUpdateFileSystemReadHandles :: nat where
  "kFatFsUpdateFileSystemReadHandles = 2"

definition kFatFsUpdateFileSystemVerifyBufferBytes :: nat where
  "kFatFsUpdateFileSystemVerifyBufferBytes = 4096"

datatype FatFsUpdatePathPolicy = PortableRelease | Developer | Media

definition IsVolumeCharacter :: "byte \<Rightarrow> bool" where
  "IsVolumeCharacter c \<longleftrightarrow> is_upper c \<or> is_lower c \<or> is_digit c \<or> c = ch CHR ''_''"

definition colon :: byte where
  "colon = ch CHR '':''"

text \<open>The scan for the colon stops at 16 characters; \<open>None\<close> is a character it refuses.\<close>

function scan_volume :: "byte list \<Rightarrow> nat \<Rightarrow> nat option" where
  "scan_volume volume i =
     (if i < 16 \<and> cstr_at volume i \<noteq> colon \<and> cstr_at volume i \<noteq> 0
      then if \<not> IsVolumeCharacter (cstr_at volume i) then None else scan_volume volume (i + 1)
      else Some i)"
  by pat_completeness auto
termination by (relation "measure (\<lambda>(volume, i). 16 - i)") auto

declare scan_volume.simps [simp del]

definition NormalizeVolume :: "byte list option \<Rightarrow> path option" where
  "NormalizeVolume volume =
     (case volume of
        None \<Rightarrow> None
      | Some volume \<Rightarrow>
          (case scan_volume volume 0 of
             None \<Rightarrow> None
           | Some i \<Rightarrow>
               if i = 0 \<or> i > 15 \<or> cstr_at volume i \<noteq> colon then None
               else if \<not> (cstr_at volume (i + 1) = 0 \<or>
                          (cstr_at volume (i + 1) = slash \<and> cstr_at volume (i + 2) = 0)) then None
               else Some (take (i + 1) volume @ [slash])))"

definition ValidateRelativePath :: "path \<Rightarrow> FatFsUpdatePathPolicy \<Rightarrow> nat option" where
  "ValidateRelativePath path policy =
     (let status = (case policy of
           Developer \<Rightarrow> ValidateDeveloperFatRelativePath (Some path) kFatFsUpdateFileSystemRelativePathBytes
         | Media \<Rightarrow> ValidateMediaFatRelativePath (Some path) kFatFsUpdateFileSystemRelativePathBytes
         | PortableRelease \<Rightarrow> ValidateFatRelativePath (Some path) kFatFsUpdateFileSystemRelativePathBytes)
      in if status \<noteq> FatOk then None else Some (length path))"

section \<open>The state\<close>

record 'r ReadHandle =
  read_file :: 'r
  read_size :: u64

record 'w WriteHandle =
  write_file :: 'w
  write_sha256 :: Sha256
  write_count :: u64
  absolute_path :: path

text \<open>The pools hold two handles to read and one to write.\<close>

record ('d, 'r, 'w) FatFsVolume =
  disk :: 'd
  configured :: bool
  path_policy :: FatFsUpdatePathPolicy
  volume_root :: path
  read_handles :: "'r ReadHandle option list"
  write_handle :: "'w WriteHandle option"

definition AnyHandleOpen :: "('d, 'r, 'w) FatFsVolume \<Rightarrow> bool" where
  "AnyHandleOpen v \<longleftrightarrow> list_ex (\<lambda>h. h \<noteq> None) (read_handles v) \<or> write_handle v \<noteq> None"

definition Configure :: "byte list option \<Rightarrow> ('d, 'r, 'w) FatFsVolume \<Rightarrow> bool \<times> ('d, 'r, 'w) FatFsVolume" where
  "Configure volume v =
     (if AnyHandleOpen v then (False, v)
      else case NormalizeVolume volume of
        None \<Rightarrow> (False, v\<lparr>configured := False, volume_root := []\<rparr>)
      | Some normalized \<Rightarrow> (True, v\<lparr>volume_root := normalized, configured := True\<rparr>))"

text \<open>The constructor.\<close>

definition new_FatFsVolume :: "byte list option \<Rightarrow> FatFsUpdatePathPolicy \<Rightarrow> 'd \<Rightarrow> ('d, 'r, 'w) FatFsVolume" where
  "new_FatFsVolume volume policy d =
     snd (Configure volume
       \<lparr>disk = d, configured = False, path_policy = policy, volume_root = [],
        read_handles = replicate kFatFsUpdateFileSystemReadHandles None, write_handle = None\<rparr>)"

definition Resolve :: "('d, 'r, 'w) FatFsVolume \<Rightarrow> path \<Rightarrow> nat \<Rightarrow> path option" where
  "Resolve v relative capacity =
     (if \<not> configured v \<or> capacity = 0 \<or> 0 \<in> set relative then None
      else case ValidateRelativePath relative (path_policy v) of
        None \<Rightarrow> None
      | Some relative_size \<Rightarrow>
          if length (volume_root v) > 2 ^ 64 - 1 - relative_size \<or>
             length (volume_root v) + relative_size \<ge> capacity then None
          else Some (volume_root v @ relative))"

abbreviation resolved :: "('d, 'r, 'w) FatFsVolume \<Rightarrow> path \<Rightarrow> path option" where
  "resolved v p \<equiv> Resolve v p kFatFsUpdateFileSystemAbsolutePathBytes"

section \<open>Reading\<close>

definition IsMissing :: "FRESULT \<Rightarrow> bool" where
  "IsMissing r \<longleftrightarrow> r = FR_NO_FILE \<or> r = FR_NO_PATH"

definition StatAbsolute :: "('d, 'r, 'w, 'q) FatFs \<Rightarrow> path \<Rightarrow> 'd \<Rightarrow> UpdateFileStat option \<times> 'd" where
  "StatAbsolute ff path d =
     (case f_stat ff path d of ((status, info), d) \<Rightarrow>
        if IsMissing status then (Some \<lparr>stat_type = NodeMissing, stat_size = 0\<rparr>, d)
        else if status \<noteq> FR_OK then (None, d)
        else if fattrib info AND AM_DIR \<noteq> 0 then (Some \<lparr>stat_type = NodeDirectory, stat_size = 0\<rparr>, d)
        else (Some \<lparr>stat_type = NodeRegularFile, stat_size = fsize info\<rparr>, d))"

text \<open>\<open>ReadExact\<close>: reads of at most the largest \<open>UINT\<close> until the range is complete.\<close>

function ReadExact :: "('d, 'r, 'w, 'q) FatFs \<Rightarrow> nat \<Rightarrow> 'r \<Rightarrow> 'd \<Rightarrow> byte list option \<times> 'r \<times> 'd" where
  "ReadExact ff n fil d =
     (if n = 0 then (Some [], fil, d)
      else let count = (if n > uint_maximum then uint_maximum else n) in
        case f_read ff count fil d of ((status, received), fil, d) \<Rightarrow>
          if status \<noteq> FR_OK \<or> length received \<noteq> count then (None, fil, d)
          else (case ReadExact ff (n - count) fil d of
              (None, fil, d) \<Rightarrow> (None, fil, d)
            | (Some rest, fil, d) \<Rightarrow> (Some (received @ rest), fil, d)))"
  by pat_completeness auto
termination by (relation "measure (\<lambda>(ff, n, fil, d). n)") (auto simp: uint_maximum_def)

declare ReadExact.simps [simp del]

definition ReadHandle_Open ::
  "('d, 'r, 'w, 'q) FatFs \<Rightarrow> path \<Rightarrow> u64 \<Rightarrow> 'd \<Rightarrow> 'r ReadHandle option \<times> 'd" where
  "ReadHandle_Open ff absolute wanted d =
     (case f_open_existing ff absolute d of ((status, fil), d) \<Rightarrow>
        if status \<noteq> FR_OK then (None, d)
        else if f_size_r ff fil \<noteq> wanted then (None, snd (f_close_r ff fil d))
        else (Some \<lparr>read_file = fil, read_size = wanted\<rparr>, d))"

definition ReadHandle_GetSize :: "('d, 'r, 'w, 'q) FatFs \<Rightarrow> 'r ReadHandle option \<Rightarrow> u64 option" where
  "ReadHandle_GetSize ff handle =
     (case handle of
        None \<Rightarrow> None
      | Some h \<Rightarrow> if f_size_r ff (read_file h) \<noteq> read_size h then None else Some (read_size h))"

definition ReadHandle_ReadAt ::
  "('d, 'r, 'w, 'q) FatFs \<Rightarrow> u64 \<Rightarrow> nat \<Rightarrow> 'r ReadHandle option \<Rightarrow> 'd \<Rightarrow>
   byte list option \<times> 'r ReadHandle option \<times> 'd" where
  "ReadHandle_ReadAt ff offset n handle d =
     (case handle of
        None \<Rightarrow> (None, None, d)
      | Some h \<Rightarrow>
          if offset > read_size h \<or> n > unat (read_size h - offset) then (None, Some h, d)
          else if \<not> fsize_holds ff offset then (None, Some h, d)
          else case f_lseek ff offset (read_file h) d of (status, fil, d) \<Rightarrow>
            if status \<noteq> FR_OK \<or> f_tell_r ff fil \<noteq> offset then (None, Some (h\<lparr>read_file := fil\<rparr>), d)
            else case ReadExact ff n fil d of (bytes, fil, d) \<Rightarrow> (bytes, Some (h\<lparr>read_file := fil\<rparr>), d))"

definition ReadHandle_Close ::
  "('d, 'r, 'w, 'q) FatFs \<Rightarrow> 'r ReadHandle option \<Rightarrow> 'd \<Rightarrow> bool \<times> 'r ReadHandle option \<times> 'd" where
  "ReadHandle_Close ff handle d =
     (case handle of
        None \<Rightarrow> (True, None, d)
      | Some h \<Rightarrow> (case f_close_r ff (read_file h) d of (status, d) \<Rightarrow> (status = FR_OK, None, d)))"

section \<open>Writing\<close>

definition WriteHandle_Open ::
  "('d, 'r, 'w, 'q) FatFs \<Rightarrow> path \<Rightarrow> 'd \<Rightarrow> 'w WriteHandle option \<times> 'd" where
  "WriteHandle_Open ff absolute d =
     (if length absolute \<ge> kFatFsUpdateFileSystemAbsolutePathBytes then (None, d)
      else case f_open_new ff absolute d of ((status, fil), d) \<Rightarrow>
        if status \<noteq> FR_OK then (None, d)
        else (Some \<lparr>write_file = fil, write_sha256 = Sha256_Reset, write_count = 0, absolute_path = absolute\<rparr>, d))"

function write_chunks ::
  "('d, 'r, 'w, 'q) FatFs \<Rightarrow> byte list \<Rightarrow> 'w WriteHandle \<Rightarrow> 'd \<Rightarrow> bool \<times> 'w WriteHandle \<times> 'd" where
  "write_chunks ff bytes h d =
     (if length bytes = 0 then (True, h, d)
      else let count = (if length bytes > uint_maximum then uint_maximum else length bytes);
               cursor = take count bytes in
        case f_write ff cursor (write_file h) d of ((status, n), fil, d) \<Rightarrow>
          let h = h\<lparr>write_file := fil\<rparr> in
          if status \<noteq> FR_OK \<or> n \<noteq> count then (False, h, d)
          else (case Sha256_Update (Some cursor) count (write_sha256 h) of
              (False, sha) \<Rightarrow> (False, h\<lparr>write_sha256 := sha\<rparr>, d)
            | (True, sha) \<Rightarrow>
                write_chunks ff (drop count bytes)
                  (h\<lparr>write_sha256 := sha, write_count := write_count h + of_nat count\<rparr>) d))"
  by pat_completeness auto
termination by (relation "measure (\<lambda>(ff, bytes, h, d). length bytes)") (auto simp: uint_maximum_def)

declare write_chunks.simps [simp del]

definition WriteHandle_Write ::
  "('d, 'r, 'w, 'q) FatFs \<Rightarrow> byte list \<Rightarrow> 'w WriteHandle \<Rightarrow> 'd \<Rightarrow> bool \<times> 'w WriteHandle \<times> 'd" where
  "WriteHandle_Write ff bytes h d =
     (if length bytes > unat (- 1 - write_count h) then (False, h, d)
      else if \<not> fsize_holds ff (write_count h + of_nat (length bytes)) then (False, h, d)
      else case write_chunks ff bytes h d of
        (False, h, d) \<Rightarrow> (False, h, d)
      | (True, h, d) \<Rightarrow> (f_tell_w ff (write_file h) = write_count h, h, d))"

definition WriteHandle_Close ::
  "('d, 'r, 'w, 'q) FatFs \<Rightarrow> 'w WriteHandle option \<Rightarrow> 'd \<Rightarrow> bool \<times> 'w WriteHandle option \<times> 'd" where
  "WriteHandle_Close ff handle d =
     (case handle of
        None \<Rightarrow> (True, None, d)
      | Some h \<Rightarrow> (case f_close_w ff (write_file h) d of (status, d) \<Rightarrow> (status = FR_OK, None, d)))"

text \<open>The loop of \<open>VerifySyncedWrite\<close> over the file that was opened again.\<close>

function verify_loop ::
  "('d, 'r, 'w, 'q) FatFs \<Rightarrow> u64 \<Rightarrow> Sha256 \<Rightarrow> 'r \<Rightarrow> 'd \<Rightarrow> Sha256 option \<times> 'r \<times> 'd" where
  "verify_loop ff remaining actual_hash fil d =
     (if remaining = 0 then (Some actual_hash, fil, d)
      else let count = (if of_nat kFatFsUpdateFileSystemVerifyBufferBytes > remaining then unat remaining
                        else kFatFsUpdateFileSystemVerifyBufferBytes) in
        case ReadExact ff count fil d of
          (None, fil, d) \<Rightarrow> (None, fil, d)
        | (Some buffer, fil, d) \<Rightarrow>
            (case Sha256_Update (Some buffer) count actual_hash of
               (False, _) \<Rightarrow> (None, fil, d)
             | (True, actual_hash) \<Rightarrow> verify_loop ff (remaining - of_nat count) actual_hash fil d))"
  by pat_completeness auto
termination
proof (relation "measure (\<lambda>(ff, remaining, hash, fil, d). unat remaining)", goal_cases)
  case 1
  show ?case by simp
next
  case (2 ff remaining hash fil d count)
  let ?k = "of_nat kFatFsUpdateFileSystemVerifyBufferBytes :: u64"
  have k: "unat ?k = 4096" by (simp add: kFatFsUpdateFileSystemVerifyBufferBytes_def)
  have c: "0 < count \<and> count \<le> unat remaining"
    using 2(1,2) k unat_gt_0 [of remaining]
    by (auto simp: kFatFsUpdateFileSystemVerifyBufferBytes_def word_less_nat_alt not_less)
  then have "unat (of_nat count :: u64) = count" using u64_less [of remaining] by (simp add: unat_of_nat)
  then have "unat (remaining - of_nat count) = unat remaining - count"
    using c by (simp add: unat_sub_if')
  then show ?case using c by simp
qed

declare verify_loop.simps [simp del]

definition VerifySyncedWrite ::
  "('d, 'r, 'w, 'q) FatFs \<Rightarrow> bool \<Rightarrow> 'w WriteHandle \<Rightarrow> 'd \<Rightarrow> bool \<times> 'w WriteHandle \<times> 'd" where
  "VerifySyncedWrite ff is_configured handle d =
     (if \<not> is_configured then (False, handle, d)
      else case f_sync ff (write_file handle) d of (status, fil, d) \<Rightarrow>
        let handle = handle\<lparr>write_file := fil\<rparr> in
        if status \<noteq> FR_OK then (False, handle, d)
        else if f_size_w ff fil \<noteq> write_count handle then (False, handle, d)
        else case Sha256_Final True (write_sha256 handle) of
          (None, _) \<Rightarrow> (False, handle, d)
        | (Some expected, _) \<Rightarrow>
          (case StatAbsolute ff (absolute_path handle) d of
             (None, d) \<Rightarrow> (False, handle, d)
           | (Some before, d) \<Rightarrow>
               if stat_type before \<noteq> NodeRegularFile \<or> stat_size before \<noteq> write_count handle
               then (False, handle, d)
               else case f_open_existing ff (absolute_path handle) d of ((status, verification), d) \<Rightarrow>
                 if status \<noteq> FR_OK then (False, handle, d)
                 else case (if f_size_r ff verification = write_count handle
                            then verify_loop ff (write_count handle) Sha256_Reset verification d
                            else (None, verification, d)) of (actual_hash, verification, d) \<Rightarrow>
                   case (case actual_hash of
                           None \<Rightarrow> ((FR_OK, []), verification, d)
                         | Some _ \<Rightarrow> f_read ff 1 verification d) of
                     ((extra_status, extra), verification, d) \<Rightarrow>
                   case f_close_r ff verification d of (close_status, d) \<Rightarrow>
                     (case actual_hash of
                        None \<Rightarrow> (False, handle, d)
                      | Some actual_hash \<Rightarrow>
                          if extra_status \<noteq> FR_OK \<or> length extra \<noteq> 0 \<or> close_status \<noteq> FR_OK
                          then (False, handle, d)
                          else case Sha256_Final True actual_hash of
                            (None, _) \<Rightarrow> (False, handle, d)
                          | (Some actual, _) \<Rightarrow>
                              if \<not> ConstantTimeDigestEqual (Some expected) (Some actual) then (False, handle, d)
                              else case StatAbsolute ff (absolute_path handle) d of
                                (None, d) \<Rightarrow> (False, handle, d)
                              | (Some after, d) \<Rightarrow>
                                  (stat_type after = NodeRegularFile \<and> stat_size after = stat_size before,
                                   handle, d))))"

section \<open>The methods\<close>

type_synonym ('d, 'r, 'w) volume = "('d, 'r, 'w) FatFsVolume"

definition fatfs_Stat ::
  "('d, 'r, 'w, 'q) FatFs \<Rightarrow> path \<Rightarrow> ('d, 'r, 'w) volume \<Rightarrow> UpdateFileStat option \<times> ('d, 'r, 'w) volume" where
  "fatfs_Stat ff p v =
     (case resolved v p of
        None \<Rightarrow> (None, v)
      | Some absolute \<Rightarrow> (case StatAbsolute ff absolute (disk v) of (result, d) \<Rightarrow> (result, v\<lparr>disk := d\<rparr>)))"

fun free_handle :: "'a option list \<Rightarrow> nat option" where
  "free_handle [] = None"
| "free_handle (None # hs) = Some 0"
| "free_handle (Some h # hs) = map_option Suc (free_handle hs)"

text \<open>The result is the index of the handle in its pool.\<close>

definition fatfs_OpenRead ::
  "('d, 'r, 'w, 'q) FatFs \<Rightarrow> path \<Rightarrow> ('d, 'r, 'w) volume \<Rightarrow> nat option \<times> ('d, 'r, 'w) volume" where
  "fatfs_OpenRead ff p v =
     (case resolved v p of
        None \<Rightarrow> (None, v)
      | Some absolute \<Rightarrow>
          (case StatAbsolute ff absolute (disk v) of
             (None, d) \<Rightarrow> (None, v\<lparr>disk := d\<rparr>)
           | (Some stat, d) \<Rightarrow>
               if stat_type stat \<noteq> NodeRegularFile then (None, v\<lparr>disk := d\<rparr>)
               else (case free_handle (read_handles v) of
                   None \<Rightarrow> (None, v\<lparr>disk := d\<rparr>)
                 | Some i \<Rightarrow>
                     (case ReadHandle_Open ff absolute (stat_size stat) d of
                        (None, d) \<Rightarrow> (None, v\<lparr>disk := d\<rparr>)
                      | (Some h, d) \<Rightarrow>
                          (Some i, v\<lparr>disk := d, read_handles := (read_handles v)[i := Some h]\<rparr>)))))"

definition fatfs_CreateFileFresh ::
  "('d, 'r, 'w, 'q) FatFs \<Rightarrow> path \<Rightarrow> ('d, 'r, 'w) volume \<Rightarrow> bool \<times> ('d, 'r, 'w) volume" where
  "fatfs_CreateFileFresh ff p v =
     (case resolved v p of
        None \<Rightarrow> (False, v)
      | Some absolute \<Rightarrow>
          if write_handle v \<noteq> None then (False, v)
          else (case StatAbsolute ff absolute (disk v) of
             (None, d) \<Rightarrow> (False, v\<lparr>disk := d\<rparr>)
           | (Some stat, d) \<Rightarrow>
               if stat_type stat \<noteq> NodeMissing then (False, v\<lparr>disk := d\<rparr>)
               else (case WriteHandle_Open ff absolute d of
                   (None, d) \<Rightarrow> (False, v\<lparr>disk := d\<rparr>)
                 | (Some h, d) \<Rightarrow> (True, v\<lparr>disk := d, write_handle := Some h\<rparr>))))"

definition fatfs_CreateDirectory ::
  "('d, 'r, 'w, 'q) FatFs \<Rightarrow> path \<Rightarrow> ('d, 'r, 'w) volume \<Rightarrow> bool \<times> ('d, 'r, 'w) volume" where
  "fatfs_CreateDirectory ff p v =
     (case resolved v p of
        None \<Rightarrow> (False, v)
      | Some absolute \<Rightarrow>
          (case StatAbsolute ff absolute (disk v) of
             (None, d) \<Rightarrow> (False, v\<lparr>disk := d\<rparr>)
           | (Some stat, d) \<Rightarrow>
               if stat_type stat \<noteq> NodeMissing then (stat_type stat = NodeDirectory, v\<lparr>disk := d\<rparr>)
               else (case f_mkdir ff absolute d of (status, d) \<Rightarrow>
                 if status \<noteq> FR_OK \<and> status \<noteq> FR_EXIST then (False, v\<lparr>disk := d\<rparr>)
                 else (case StatAbsolute ff absolute d of
                     (None, d) \<Rightarrow> (False, v\<lparr>disk := d\<rparr>)
                   | (Some stat, d) \<Rightarrow> (stat_type stat = NodeDirectory, v\<lparr>disk := d\<rparr>)))))"

definition fatfs_RemoveFile ::
  "('d, 'r, 'w, 'q) FatFs \<Rightarrow> path \<Rightarrow> ('d, 'r, 'w) volume \<Rightarrow> bool \<times> ('d, 'r, 'w) volume" where
  "fatfs_RemoveFile ff p v =
     (case resolved v p of
        None \<Rightarrow> (False, v)
      | Some absolute \<Rightarrow>
          (case StatAbsolute ff absolute (disk v) of
             (None, d) \<Rightarrow> (False, v\<lparr>disk := d\<rparr>)
           | (Some stat, d) \<Rightarrow>
               if stat_type stat = NodeMissing then (True, v\<lparr>disk := d\<rparr>)
               else if stat_type stat \<noteq> NodeRegularFile then (False, v\<lparr>disk := d\<rparr>)
               else (case f_unlink ff absolute d of (status, d) \<Rightarrow>
                 (status = FR_OK \<or> IsMissing status, v\<lparr>disk := d\<rparr>))))"

definition fatfs_Rename ::
  "('d, 'r, 'w, 'q) FatFs \<Rightarrow> path \<Rightarrow> path \<Rightarrow> bool \<Rightarrow> ('d, 'r, 'w) volume \<Rightarrow> bool \<times> ('d, 'r, 'w) volume" where
  "fatfs_Rename ff source destination replace_existing v =
     (case (resolved v source, resolved v destination) of
        (Some source_absolute, Some destination_absolute) \<Rightarrow>
          if FatPathEqual source_absolute destination_absolute then (False, v)
          else (case StatAbsolute ff source_absolute (disk v) of
             (None, d) \<Rightarrow> (False, v\<lparr>disk := d\<rparr>)
           | (Some source_stat, d) \<Rightarrow>
               (case StatAbsolute ff destination_absolute d of
                  (None, d) \<Rightarrow> (False, v\<lparr>disk := d\<rparr>)
                | (Some destination_stat, d) \<Rightarrow>
                    if (stat_type source_stat \<noteq> NodeRegularFile \<and> stat_type source_stat \<noteq> NodeDirectory) \<or>
                       stat_type destination_stat = NodeDirectory \<or> stat_type destination_stat = NodeOther
                    then (False, v\<lparr>disk := d\<rparr>)
                    else case (if stat_type destination_stat = NodeMissing then (True, d)
                               else if \<not> replace_existing \<or> stat_type source_stat \<noteq> NodeRegularFile then (False, d)
                               else case f_unlink ff destination_absolute d of (status, d) \<Rightarrow> (status = FR_OK, d)) of
                      (False, d) \<Rightarrow> (False, v\<lparr>disk := d\<rparr>)
                    | (True, d) \<Rightarrow>
                        (case f_rename ff source_absolute destination_absolute d of (status, d) \<Rightarrow>
                           if status \<noteq> FR_OK then (False, v\<lparr>disk := d\<rparr>)
                           else (case StatAbsolute ff source_absolute d of
                               (None, d) \<Rightarrow> (False, v\<lparr>disk := d\<rparr>)
                             | (Some source_after, d) \<Rightarrow>
                                 (case StatAbsolute ff destination_absolute d of
                                    (None, d) \<Rightarrow> (False, v\<lparr>disk := d\<rparr>)
                                  | (Some destination_after, d) \<Rightarrow>
                                      (stat_type source_after = NodeMissing \<and>
                                       stat_type destination_after = stat_type source_stat \<and>
                                       (stat_type source_stat \<noteq> NodeRegularFile \<or>
                                        stat_size destination_after = stat_size source_stat), v\<lparr>disk := d\<rparr>))))))
      | _ \<Rightarrow> (False, v))"

text \<open>FatFs has synchronised the volume when it returned; the method acknowledges it.\<close>

definition fatfs_SyncContainingDirectory ::
  "path \<Rightarrow> ('d, 'r, 'w) volume \<Rightarrow> bool \<times> ('d, 'r, 'w) volume" where
  "fatfs_SyncContainingDirectory p v = (resolved v p \<noteq> None, v)"

text \<open>
  \<open>QueryVolumeGeometry\<close>: the free bytes, the bytes of a cluster, and the bytes of the volume
  when \<open>total_wanted\<close>.
\<close>

definition QueryVolumeGeometry ::
  "('d, 'r, 'w, 'q) FatFs \<Rightarrow> path \<Rightarrow> bool \<Rightarrow> 'd \<Rightarrow> (u64 \<times> u64 \<times> u64) option \<times> 'd" where
  "QueryVolumeGeometry ff root total_wanted d =
     (case f_getfree ff root d of
        ((status, free_clusters, None), d) \<Rightarrow> (None, d)
      | ((status, free_clusters, Some file_system), d) \<Rightarrow>
          (if status \<noteq> FR_OK \<or> csize file_system = 0 then None
           else let sector_size = sector_bytes file_system; clusters = ucast (csize file_system) :: u64 in
             if sector_size = 0 \<or> clusters > (- 1) div sector_size then None
             else let cluster_size = clusters * sector_size in
               if ucast free_clusters > (- 1) div cluster_size then None
               else let free_bytes = ucast free_clusters * cluster_size in
                 if \<not> total_wanted then Some (free_bytes, cluster_size, 0)
                 else let total_clusters =
                        (if n_fatent file_system > 2 then ucast (n_fatent file_system - 2) else 0) :: u64 in
                   if total_clusters = 0 \<or> database file_system < volbase file_system then None
                   else let metadata_sectors = ucast (database file_system - volbase file_system) :: u64 in
                     if total_clusters > (- 1) div clusters then None
                     else let data_sectors = total_clusters * clusters; tail_sectors = clusters - 1 in
                       if metadata_sectors > - 1 - data_sectors \<or>
                          metadata_sectors + data_sectors > - 1 - tail_sectors then None
                       else let volume_sectors = metadata_sectors + data_sectors + tail_sectors in
                         if volume_sectors > (- 1) div sector_size then None
                         else Some (free_bytes, cluster_size, volume_sectors * sector_size), d))"

definition fatfs_GetFreeSpace ::
  "('d, 'r, 'w, 'q) FatFs \<Rightarrow> ('d, 'r, 'w) volume \<Rightarrow> u64 option \<times> ('d, 'r, 'w) volume" where
  "fatfs_GetFreeSpace ff v =
     (if \<not> configured v then (None, v)
      else case QueryVolumeGeometry ff (volume_root v) False (disk v) of (g, d) \<Rightarrow>
        (map_option fst g, v\<lparr>disk := d\<rparr>))"

definition fatfs_GetVolumeSize ::
  "('d, 'r, 'w, 'q) FatFs \<Rightarrow> ('d, 'r, 'w) volume \<Rightarrow> u64 option \<times> ('d, 'r, 'w) volume" where
  "fatfs_GetVolumeSize ff v =
     (if \<not> configured v then (None, v)
      else case QueryVolumeGeometry ff (volume_root v) True (disk v) of (g, d) \<Rightarrow>
        (map_option (snd \<circ> snd) g, v\<lparr>disk := d\<rparr>))"

section \<open>Removing a directory\<close>

text \<open>
  \<open>RemoveDirectory\<close> walks a tree with the current path as its only memory.  Both of its loops
  run as long as the card gives them entries, so they take fuel; \<open>None\<close> is fuel that ran out,
  and the card is returned in that case too.
\<close>

datatype directory_child = ReadFailed | NoChild | ChildTooLong | Child path bool

fun next_child ::
  "('d, 'r, 'w, 'q) FatFs \<Rightarrow> path \<Rightarrow> nat \<Rightarrow> 'q \<Rightarrow> 'd \<Rightarrow> directory_child option \<times> 'q \<times> 'd" where
  "next_child ff current 0 dir d = (None, dir, d)"
| "next_child ff current (Suc fuel) dir d =
     (case f_readdir ff dir d of ((read_status, info), dir, d) \<Rightarrow>
        if read_status \<noteq> FR_OK then (Some ReadFailed, dir, d)
        else if fname info = [] then (Some NoChild, dir, d)
        else if fname info = [ch CHR ''.''] \<or> fname info = [ch CHR ''.'', ch CHR ''.'']
        then next_child ff current fuel dir d
        else if length current + 1 + length (fname info) + 1 > kFatFsUpdateFileSystemAbsolutePathBytes
        then (Some ChildTooLong, dir, d)
        else (Some (Child (current @ slash # fname info) (fattrib info AND AM_DIR \<noteq> 0)), dir, d))"

definition strrchr_slash :: "path \<Rightarrow> nat option" where
  "strrchr_slash p =
     (case filter (\<lambda>i. p ! i = slash) [0..<length p] of [] \<Rightarrow> None | found \<Rightarrow> Some (last found))"

fun remove_walk ::
  "('d, 'r, 'w, 'q) FatFs \<Rightarrow> path \<Rightarrow> nat \<Rightarrow> path \<Rightarrow> 'd \<Rightarrow> bool option \<times> 'd" where
  "remove_walk ff root 0 current d = (None, d)"
| "remove_walk ff root (Suc fuel) current d =
     (case f_opendir ff current d of ((status, dir), d) \<Rightarrow>
        if status \<noteq> FR_OK then (Some False, d)
        else case next_child ff current fuel dir d of
          (None, dir, d) \<Rightarrow> (None, d)
        | (Some ReadFailed, dir, d) \<Rightarrow> (Some False, snd (f_closedir ff dir d))
        | (Some ChildTooLong, dir, d) \<Rightarrow> (Some False, snd (f_closedir ff dir d))
        | (Some (Child child directory_child), dir, d) \<Rightarrow>
            (case f_closedir ff dir d of (close_status, d) \<Rightarrow>
               if close_status \<noteq> FR_OK then (Some False, d)
               else if directory_child then remove_walk ff root fuel child d
               else case f_unlink ff child d of (status, d) \<Rightarrow>
                 if status \<noteq> FR_OK then (Some False, d) else remove_walk ff root fuel current d)
        | (Some NoChild, dir, d) \<Rightarrow>
            (case f_closedir ff dir d of (close_status, d) \<Rightarrow>
               if close_status \<noteq> FR_OK then (Some False, d)
               else case f_unlink ff current d of (status, d) \<Rightarrow>
                 if status \<noteq> FR_OK then (Some False, d)
                 else if FatPathEqual current root
                 then (case StatAbsolute ff root d of (after, d) \<Rightarrow>
                         (Some (map_option stat_type after = Some NodeMissing), d))
                 else case strrchr_slash current of
                   None \<Rightarrow> (Some False, d)
                 | Some i \<Rightarrow>
                     if i \<le> 2 then (Some False, d) else remove_walk ff root fuel (take i current) d))"

definition fatfs_RemoveDirectory ::
  "('d, 'r, 'w, 'q) FatFs \<Rightarrow> nat \<Rightarrow> path \<Rightarrow> bool \<Rightarrow> ('d, 'r, 'w) volume \<Rightarrow> bool option \<times> ('d, 'r, 'w) volume" where
  "fatfs_RemoveDirectory ff fuel p recursive v =
     (case resolved v p of
        None \<Rightarrow> (Some False, v)
      | Some root \<Rightarrow>
          (case StatAbsolute ff root (disk v) of
             (None, d) \<Rightarrow> (Some False, v\<lparr>disk := d\<rparr>)
           | (Some stat, d) \<Rightarrow>
               if stat_type stat = NodeMissing then (Some True, v\<lparr>disk := d\<rparr>)
               else if stat_type stat \<noteq> NodeDirectory then (Some False, v\<lparr>disk := d\<rparr>)
               else if \<not> recursive
               then (case f_unlink ff root d of (status, d) \<Rightarrow> (Some (status = FR_OK), v\<lparr>disk := d\<rparr>))
               else (case remove_walk ff root fuel root d of (result, d) \<Rightarrow> (result, v\<lparr>disk := d\<rparr>))))"

section \<open>The interface of the updater\<close>

text \<open>
  The handles as the record of \<open>Update_Volume\<close> names them: a path names the handle to write
  when that one is open on it, and otherwise the first open handle to read it.
\<close>

definition absolute :: "('d, 'r, 'w) volume \<Rightarrow> path \<Rightarrow> path" where
  "absolute v p = volume_root v @ p"

definition writing_at :: "('d, 'r, 'w, 'q) FatFs \<Rightarrow> ('d, 'r, 'w) volume \<Rightarrow> path \<Rightarrow> 'w WriteHandle option" where
  "writing_at ff v p =
     (case write_handle v of
        None \<Rightarrow> None
      | Some h \<Rightarrow> if FatPathEqual (w_name ff (write_file h)) (absolute v p) then Some h else None)"

fun find_reader :: "('d, 'r, 'w, 'q) FatFs \<Rightarrow> path \<Rightarrow> 'r ReadHandle option list \<Rightarrow> nat option" where
  "find_reader ff a [] = None"
| "find_reader ff a (None # hs) = map_option Suc (find_reader ff a hs)"
| "find_reader ff a (Some h # hs) =
     (if FatPathEqual (r_name ff (read_file h)) a then Some 0 else map_option Suc (find_reader ff a hs))"

definition reading_at :: "('d, 'r, 'w, 'q) FatFs \<Rightarrow> ('d, 'r, 'w) volume \<Rightarrow> path \<Rightarrow> nat option" where
  "reading_at ff v p =
     (if writing_at ff v p \<noteq> None then None else find_reader ff (absolute v p) (read_handles v))"

definition FatFsUpdateFileSystem :: "('d, 'r, 'w, 'q) FatFs \<Rightarrow> ('d, 'r, 'w) volume UpdateFileSystem" where
  "FatFsUpdateFileSystem ff =
     \<lparr>Stat = fatfs_Stat ff,
      OpenRead = (\<lambda>p v. case fatfs_OpenRead ff p v of (i, v) \<Rightarrow> (i \<noteq> None, v)),
      FileGetSize = (\<lambda>p v. case reading_at ff v p of
          None \<Rightarrow> (None, v) | Some i \<Rightarrow> (ReadHandle_GetSize ff (read_handles v ! i), v)),
      FileReadAt = (\<lambda>p offset n v. case reading_at ff v p of
          None \<Rightarrow> (None, v)
        | Some i \<Rightarrow> (case ReadHandle_ReadAt ff offset n (read_handles v ! i) (disk v) of (bytes, h, d) \<Rightarrow>
            (bytes, v\<lparr>disk := d, read_handles := (read_handles v)[i := h]\<rparr>))),
      FileCloseRead = (\<lambda>p v. case reading_at ff v p of
          None \<Rightarrow> (True, v)
        | Some i \<Rightarrow> (case ReadHandle_Close ff (read_handles v ! i) (disk v) of (ok, h, d) \<Rightarrow>
            (ok, v\<lparr>disk := d, read_handles := (read_handles v)[i := h]\<rparr>))),
      CreateFileFresh = fatfs_CreateFileFresh ff,
      FileWrite = (\<lambda>p bytes v. case writing_at ff v p of
          None \<Rightarrow> (False, v)
        | Some h \<Rightarrow> (case WriteHandle_Write ff bytes h (disk v) of (ok, h, d) \<Rightarrow>
            (ok, v\<lparr>disk := d, write_handle := Some h\<rparr>))),
      FileSync = (\<lambda>p v. case writing_at ff v p of
          None \<Rightarrow> (False, v)
        | Some h \<Rightarrow> (case VerifySyncedWrite ff (configured v) h (disk v) of (ok, h, d) \<Rightarrow>
            (ok, v\<lparr>disk := d, write_handle := Some h\<rparr>))),
      FileClose = (\<lambda>p v. case writing_at ff v p of
          None \<Rightarrow> (True, v)
        | Some h \<Rightarrow> (case WriteHandle_Close ff (Some h) (disk v) of (ok, h, d) \<Rightarrow>
            (ok, v\<lparr>disk := d, write_handle := h\<rparr>))),
      CreateDirectory = fatfs_CreateDirectory ff,
      RemoveFile = fatfs_RemoveFile ff,
      Rename = fatfs_Rename ff,
      SyncContainingDirectory = fatfs_SyncContainingDirectory,
      GetFreeSpace = fatfs_GetFreeSpace ff,
      GetVolumeSize = fatfs_GetVolumeSize ff\<rparr>"

end
