(* ===== verification/Fatfs_Contract.thy ===== *)
theory Fatfs_Contract
  imports Fatfs_Adapter
begin

text \<open>
  What the adapter needs of FatFs, and what it makes of it.  \<open>fatfs_reads\<close> states the documented
  behaviour of the functions that only read, over an observation of the directory entries of a
  card; \<open>fatfs\<close> adds the functions that change it.  Any of them may fail at any time.  From
  these laws the adapter is shown to meet the contract \<open>update_volume\<close> of the updater.

  Two facts are proved of it besides: a successful \<open>Sync\<close> means that the bytes on the card were read
  back and hashed, whatever \<open>f_write\<close> and \<open>f_sync\<close> did, and the removal of a directory changes
  nothing outside of it.
\<close>

text \<open>One turn of the loop that reads a file back.\<close>

lemma verify_loop_left:
  fixes n :: u64
  defines "k \<equiv> if of_nat kFatFsUpdateFileSystemVerifyBufferBytes > n then unat n
    else kFatFsUpdateFileSystemVerifyBufferBytes"
  shows "unat (n - of_nat k) + k = unat n"
proof -
  have "unat (of_nat kFatFsUpdateFileSystemVerifyBufferBytes :: u64) = kFatFsUpdateFileSystemVerifyBufferBytes"
    by (simp add: kFatFsUpdateFileSystemVerifyBufferBytes_def)
  then have "k \<le> unat n" by (auto simp: k_def word_less_nat_alt)
  moreover from this have "unat (of_nat k :: u64) = k" using u64_less [of n] by (simp add: unat_of_nat)
  ultimately show ?thesis by (simp add: unat_sub_if')
qed

lemma verify_loop_less:
  fixes n :: u64
  assumes "n \<noteq> 0"
  shows "unat (n - of_nat (if of_nat kFatFsUpdateFileSystemVerifyBufferBytes > n then unat n
    else kFatFsUpdateFileSystemVerifyBufferBytes)) < unat n"
proof -
  have "unat n \<noteq> 0" using assms by (simp add: unat_eq_zero)
  then show ?thesis using verify_loop_left [of n] by (auto simp: kFatFsUpdateFileSystemVerifyBufferBytes_def split: if_splits)
qed

section \<open>The laws of FatFs\<close>

locale fatfs_reads =
  fixes ff :: "('d, 'r, 'w, 'q) FatFs"
    and content :: "'d \<Rightarrow> path \<Rightarrow> node"
  assumes content_key: "fat_key p = fat_key q \<Longrightarrow> content d p = content d q"
    and content_plain: "content d p = Absent \<or> content d p = Folder \<or> (\<exists>c. content d p = File c)"
    and f_stat_keeps: "f_stat ff p d = (info_read, d') \<Longrightarrow> content d' = content d"
    and f_stat_missing: "f_stat ff p d = ((st, info), d') \<Longrightarrow> IsMissing st \<Longrightarrow> content d p = Absent"
    and f_stat_folder: "f_stat ff p d = ((FR_OK, info), d') \<Longrightarrow> fattrib info AND AM_DIR \<noteq> 0 \<Longrightarrow>
      content d p = Folder"
    and f_stat_file: "f_stat ff p d = ((FR_OK, info), d') \<Longrightarrow> fattrib info AND AM_DIR = 0 \<Longrightarrow>
      \<exists>c. content d p = File c \<and> length c = unat (fsize info)"
    and f_open_existing_keeps: "f_open_existing ff p d = (opened, d') \<Longrightarrow> content d' = content d"
    and f_open_existing_fil: "f_open_existing ff p d = ((FR_OK, fil), d') \<Longrightarrow>
      fat_key (r_name ff fil) = fat_key p \<and> f_tell_r ff fil = 0"
    and f_lseek_keeps: "f_lseek ff offset fil d = (st, fil', d') \<Longrightarrow>
      content d' = content d \<and> r_name ff fil' = r_name ff fil"
    and f_read_keeps: "f_read ff n fil d = (got, fil', d') \<Longrightarrow>
      content d' = content d \<and> r_name ff fil' = r_name ff fil"
    and f_read_bytes: "f_read ff n fil d = ((FR_OK, bs), fil', d') \<Longrightarrow>
      \<exists>c. content d (r_name ff fil) = File c \<and> bs = take n (drop (unat (f_tell_r ff fil)) c) \<and>
        unat (f_tell_r ff fil') = unat (f_tell_r ff fil) + length bs"
    and f_close_r_keeps: "f_close_r ff fil d = (st, d') \<Longrightarrow> content d' = content d"
    and f_opendir_keeps: "f_opendir ff p d = (listing, d') \<Longrightarrow> content d' = content d"
    and f_readdir_keeps: "f_readdir ff dir d = (found, dir', d') \<Longrightarrow> content d' = content d"
    and f_closedir_keeps: "f_closedir ff dir d = (st, d') \<Longrightarrow> content d' = content d"
    and f_getfree_keeps: "f_getfree ff p d = (geometry, d') \<Longrightarrow> content d' = content d"
begin

lemma StatAbsolute_keeps: "StatAbsolute ff p d = (r, d') \<Longrightarrow> content d' = content d"
  using f_stat_keeps by (auto simp: StatAbsolute_def split: prod.split_asm if_split_asm)

lemma StatAbsolute_matches: "StatAbsolute ff p d = (Some st, d') \<Longrightarrow> stat_matches st (content d p)"
  using f_stat_missing [of p d] f_stat_folder [of p d] f_stat_file [of p d]
  by (auto simp: StatAbsolute_def stat_matches_def split: prod.split_asm if_split_asm)

lemma ReadExact_step:
  assumes "ReadExact ff n fil d = (x, fil', d')" and "n \<noteq> 0"
  obtains st bs fil1 d1 where "f_read ff (min n uint_maximum) fil d = ((st, bs), fil1, d1)"
    and "st = FR_OK \<and> length bs = min n uint_maximum \<longrightarrow>
      (\<exists>y. ReadExact ff (n - min n uint_maximum) fil1 d1 = (y, fil', d') \<and> map_option ((@) bs) y = x)"
    and "\<not> (st = FR_OK \<and> length bs = min n uint_maximum) \<longrightarrow> x = None \<and> fil' = fil1 \<and> d' = d1"
proof -
  obtain st bs fil1 d1 where r: "f_read ff (min n uint_maximum) fil d = ((st, bs), fil1, d1)" by (metis prod.exhaust)
  have m: "(if n > uint_maximum then uint_maximum else n) = min n uint_maximum" by simp
  note eq = assms(1) [unfolded ReadExact.simps [of ff n] Let_def m r prod.case]
  show ?thesis
    by (rule that [OF r]) (use eq assms(2) in \<open>auto split: if_split_asm option.split_asm prod.split_asm\<close>)
qed

lemma ReadExact_less: "(n :: nat) \<noteq> 0 \<Longrightarrow> n - min n uint_maximum < n"
  by (simp add: uint_maximum_def)

lemma ReadExact_keeps:
  "ReadExact ff n fil d = (x, fil', d') \<Longrightarrow> content d' = content d \<and> r_name ff fil' = r_name ff fil"
proof (induction n arbitrary: fil d x rule: less_induct)
  case (less n)
  show ?case
  proof (cases "n = 0")
    case True
    with less.prems show ?thesis by (simp add: ReadExact.simps [of ff 0])
  next
    case False
    obtain st bs fil1 d1 where r: "f_read ff (min n uint_maximum) fil d = ((st, bs), fil1, d1)"
      and s: "st = FR_OK \<and> length bs = min n uint_maximum \<longrightarrow>
        (\<exists>y. ReadExact ff (n - min n uint_maximum) fil1 d1 = (y, fil', d') \<and> map_option ((@) bs) y = x)"
        "\<not> (st = FR_OK \<and> length bs = min n uint_maximum) \<longrightarrow> x = None \<and> fil' = fil1 \<and> d' = d1"
      using ReadExact_step [OF less.prems False] .
    note k = f_read_keeps [OF r]
    show ?thesis using s k less.IH [OF ReadExact_less [OF False], of fil1 d1] by auto
  qed
qed

text \<open>A complete read is the range of the file from the position on, and moves it to the end of the range.\<close>

lemma ReadExact_bytes:
  assumes "ReadExact ff n fil d = (Some bs, fil', d')" and "0 < n"
  shows "\<exists>c. content d (r_name ff fil) = File c \<and> unat (f_tell_r ff fil) + n \<le> length c \<and>
    bs = take n (drop (unat (f_tell_r ff fil)) c) \<and> unat (f_tell_r ff fil') = unat (f_tell_r ff fil) + n"
  using assms
proof (induction n arbitrary: fil d bs rule: less_induct)
  case (less n)
  let ?k = "min n uint_maximum" and ?t = "unat (f_tell_r ff fil)"
  obtain st b fil1 d1 where r: "f_read ff ?k fil d = ((st, b), fil1, d1)"
    and s: "st = FR_OK \<and> length b = ?k \<longrightarrow>
      (\<exists>y. ReadExact ff (n - ?k) fil1 d1 = (y, fil', d') \<and> map_option ((@) b) y = Some bs)"
      "\<not> (st = FR_OK \<and> length b = ?k) \<longrightarrow> Some bs = None \<and> fil' = fil1 \<and> d' = d1"
    using ReadExact_step [OF less.prems(1)] less.prems(2) by (metis bot_nat_0.not_eq_extremum)
  then obtain rest where ok: "st = FR_OK" "length b = ?k"
    and rest: "ReadExact ff (n - ?k) fil1 d1 = (Some rest, fil', d')" "bs = b @ rest" by auto
  obtain c where c: "content d (r_name ff fil) = File c" "b = take ?k (drop ?t c)"
      "unat (f_tell_r ff fil1) = ?t + length b"
    using f_read_bytes [OF r [unfolded ok(1)]] by blast
  have k: "0 < ?k" using less.prems(2) by (simp add: uint_maximum_def)
  have fits: "?t + ?k \<le> length c" using c(2) ok(2) k by (auto simp: min_def split: if_split_asm)
  have t1: "unat (f_tell_r ff fil1) = ?t + ?k" using c(3) ok(2) by simp
  note same = f_read_keeps [OF r]
  show ?case
  proof (cases "n - ?k = 0")
    case True
    with rest have "rest = []" "fil' = fil1" by (auto simp: ReadExact.simps [of ff 0])
    moreover have "?k = n" using True by simp
    ultimately show ?thesis using c fits t1 rest(2) by auto
  next
    case False
    have "n - ?k < n" "0 < n - ?k" using False k by auto
    from less.IH [OF this(1) rest(1) this(2)] obtain c' where c': "content d1 (r_name ff fil1) = File c'"
        "unat (f_tell_r ff fil1) + (n - ?k) \<le> length c'" "rest = take (n - ?k) (drop (unat (f_tell_r ff fil1)) c')"
        "unat (f_tell_r ff fil') = unat (f_tell_r ff fil1) + (n - ?k)" by blast
    have "c' = c" using c' same c(1) by simp
    have "?t + n \<le> length c" using c'(2) False unfolding t1 \<open>c' = c\<close> by simp
    moreover have "bs = take n (drop ?t c)"
    proof -
      have "bs = take ?k (drop ?t c) @ take (n - ?k) (drop ?k (drop ?t c))"
        unfolding rest(2) c(2) c'(3) t1 \<open>c' = c\<close> drop_drop by (simp only: add.commute)
      also have "\<dots> = take (?k + (n - ?k)) (drop ?t c)" by (rule take_add [symmetric])
      finally show ?thesis by simp
    qed
    ultimately show ?thesis using c(1) c'(4) t1 by auto
  qed
qed

lemma ReadHandle_Open_keeps: "ReadHandle_Open ff a n d = (h, d') \<Longrightarrow> content d' = content d"
  using f_open_existing_keeps f_close_r_keeps
  by (auto simp: ReadHandle_Open_def split: prod.split_asm if_split_asm) (metis prod.collapse)+

lemma ReadHandle_ReadAt_keeps: "ReadHandle_ReadAt ff offset n h d = (x, h', d') \<Longrightarrow> content d' = content d"
  using f_lseek_keeps ReadExact_keeps
  by (fastforce simp: ReadHandle_ReadAt_def split: option.split_asm prod.split_asm if_split_asm)

lemma ReadHandle_ReadAt_bytes:
  assumes "ReadHandle_ReadAt ff offset n (Some h) d = (Some bs, h', d')" and "0 < n"
  shows "\<exists>c. content d (r_name ff (read_file h)) = File c \<and> unat offset + n \<le> length c \<and>
    bs = take n (drop (unat offset) c)"
proof -
  obtain st fil d1 where l: "f_lseek ff offset (read_file h) d = (st, fil, d1)" by (metis prod.exhaust)
  with assms(1) obtain fil' where t: "f_tell_r ff fil = offset" and r: "ReadExact ff n fil d1 = (Some bs, fil', d')"
    by (auto simp: ReadHandle_ReadAt_def split: if_split_asm prod.split_asm)
  from ReadExact_bytes [OF r assms(2)] f_lseek_keeps [OF l] t show ?thesis by auto
qed

lemma QueryVolumeGeometry_keeps: "QueryVolumeGeometry ff root all d = (g, d') \<Longrightarrow> content d' = content d"
  using f_getfree_keeps by (fastforce simp: QueryVolumeGeometry_def split: prod.split_asm option.split_asm)

section \<open>Reading back what was written\<close>

lemma verify_loop_keeps:
  "verify_loop ff n hash fil d = (x, fil', d') \<Longrightarrow> content d' = content d \<and> r_name ff fil' = r_name ff fil"
proof (induction "unat n" arbitrary: n hash fil d rule: less_induct)
  case less
  let ?k = "if of_nat kFatFsUpdateFileSystemVerifyBufferBytes > n then unat n else kFatFsUpdateFileSystemVerifyBufferBytes"
  note prem = less.prems [unfolded verify_loop.simps [of ff n] Let_def]
  show ?case
  proof (cases "n = 0")
    case True
    with prem show ?thesis by simp
  next
    case False
    obtain y fil1 d1 where r: "ReadExact ff ?k fil d = (y, fil1, d1)" by (metis prod.exhaust)
    note k = ReadExact_keeps [OF r]
    show ?thesis
    proof (cases "\<exists>b h. y = Some b \<and> Sha256_Update (Some b) ?k hash = (True, h)")
      case False
      with prem \<open>n \<noteq> 0\<close> r k show ?thesis by (auto split: option.split_asm prod.split_asm bool.split_asm)
    next
      case True
      then obtain b h where y: "y = Some b" "Sha256_Update (Some b) ?k hash = (True, h)" by blast
      with prem False r have rec: "verify_loop ff (n - of_nat ?k) h fil1 d1 = (x, fil', d')" by simp
      have "unat (n - of_nat ?k) < unat n" by (rule verify_loop_less [OF False])
      from less.hyps [OF this rec] k show ?thesis by simp
    qed
  qed
qed

lemma verify_loop_hash:
  assumes "verify_loop ff n hash fil d = (Some hash', fil', d')" and "content d (r_name ff fil) = File c"
    and "sha_message hash (take (unat (f_tell_r ff fil)) c)" and "unat (f_tell_r ff fil) \<le> length c"
  shows "unat (f_tell_r ff fil') = unat (f_tell_r ff fil) + unat n \<and> unat (f_tell_r ff fil') \<le> length c \<and>
    sha_message hash' (take (unat (f_tell_r ff fil')) c)"
  using assms
proof (induction "unat n" arbitrary: n hash fil d rule: less_induct)
  case less
  let ?k = "if of_nat kFatFsUpdateFileSystemVerifyBufferBytes > n then unat n else kFatFsUpdateFileSystemVerifyBufferBytes"
  note prem = less.prems(1) [unfolded verify_loop.simps [of ff n] Let_def]
  show ?case
  proof (cases "n = 0")
    case True
    with prem less.prems show ?thesis by simp
  next
    case False
    then obtain b h fil1 d1 where r: "ReadExact ff ?k fil d = (Some b, fil1, d1)"
      and u: "Sha256_Update (Some b) ?k hash = (True, h)"
      and rec: "verify_loop ff (n - of_nat ?k) h fil1 d1 = (Some hash', fil', d')"
      using prem by (auto split: option.split_asm prod.split_asm bool.split_asm)
    have "unat n \<noteq> 0" using False by (simp add: unat_eq_zero)
    then have k: "0 < ?k" by (simp add: kFatFsUpdateFileSystemVerifyBufferBytes_def)
    note same = ReadExact_keeps [OF r]
    from ReadExact_bytes [OF r k] less.prems(2)
    have at: "unat (f_tell_r ff fil) + ?k \<le> length c" "b = take ?k (drop (unat (f_tell_r ff fil)) c)"
      "unat (f_tell_r ff fil1) = unat (f_tell_r ff fil) + ?k" by auto
    have len: "length b = ?k" using at(1) unfolding at(2) by simp
    have m: "take (unat (f_tell_r ff fil)) c @ b = take (unat (f_tell_r ff fil1)) c"
      unfolding at(2,3) by (rule take_add [symmetric])
    have "length (take (unat (f_tell_r ff fil)) c) + length b < 2 ^ 64"
      using u64_less [of "f_tell_r ff fil1"] at(1,3) len by simp
    from Sha256_Update_message [OF less.prems(3) this] u have h: "sha_message h (take (unat (f_tell_r ff fil1)) c)"
      unfolding m len by auto
    have s: "unat (n - of_nat ?k) < unat n" by (rule verify_loop_less [OF False])
    have "unat (f_tell_r ff fil1) \<le> length c" using at(1,3) by simp
    from less.hyps [OF s rec _ h this] same less.prems(2)
    have IH: "unat (f_tell_r ff fil') = unat (f_tell_r ff fil1) + unat (n - of_nat ?k)"
      "unat (f_tell_r ff fil') \<le> length c" "sha_message hash' (take (unat (f_tell_r ff fil')) c)" by auto
    have "unat (n - of_nat ?k) + ?k = unat n" by (rule verify_loop_left)
    with IH at(3) show ?thesis by simp
  qed
qed

text \<open>
  \<open>Sync\<close>: the handle had seen the message \<open>m\<close>, and the card now holds a file of its size and its
  digest at the path.  No law on \<open>f_write\<close> or \<open>f_sync\<close> is used.
\<close>

lemma VerifySyncedWrite_read_back:
  assumes "VerifySyncedWrite ff b h d = (True, h', d')" and m: "sha_message (write_sha256 h) m"
    and n: "write_count h = of_nat (length m)"
  shows "\<exists>c. content d' (absolute_path h) = File c \<and> length c = length m \<and> sha256 c = sha256 m"
proof -
  obtain st fil d1 where y: "f_sync ff (write_file h) d = (st, fil, d1)" by (metis prod.exhaust)
  note eq = assms(1) [unfolded VerifySyncedWrite_def y prod.case Let_def]
  from eq obtain expected s1 before d2 v0 d3 where
    e: "Sha256_Final True (write_sha256 h) = (Some expected, s1)"
    and b: "StatAbsolute ff (absolute_path h) d1 = (Some before, d2)" "stat_size before = write_count h"
    and o: "f_open_existing ff (absolute_path h) d2 = ((FR_OK, v0), d3)"
    and rest: "(case if f_size_r ff v0 = write_count h then verify_loop ff (write_count h) Sha256_Reset v0 d3
        else (None, v0, d3) of (actual_hash, verification, d) \<Rightarrow>
      case (case actual_hash of None \<Rightarrow> ((FR_OK, []), verification, d) | Some _ \<Rightarrow> f_read ff 1 verification d) of
        ((extra_status, extra), verification, d) \<Rightarrow>
      case f_close_r ff verification d of (close_status, d) \<Rightarrow>
        (case actual_hash of None \<Rightarrow> (False, h\<lparr>write_file := fil\<rparr>, d)
         | Some actual_hash \<Rightarrow>
            if extra_status \<noteq> FR_OK \<or> length extra \<noteq> 0 \<or> close_status \<noteq> FR_OK then (False, h\<lparr>write_file := fil\<rparr>, d)
            else case Sha256_Final True actual_hash of (None, _) \<Rightarrow> (False, h\<lparr>write_file := fil\<rparr>, d)
              | (Some actual, _) \<Rightarrow>
                if \<not> ConstantTimeDigestEqual (Some expected) (Some actual) then (False, h\<lparr>write_file := fil\<rparr>, d)
                else case StatAbsolute ff (absolute_path h) d of (None, d) \<Rightarrow> (False, h\<lparr>write_file := fil\<rparr>, d)
                  | (Some after, d) \<Rightarrow> (stat_type after = NodeRegularFile \<and> stat_size after = stat_size before,
                      h\<lparr>write_file := fil\<rparr>, d))) = (True, h', d')"
    by (simp split: if_split_asm option.split_asm prod.split_asm)
  obtain hash v1 d4 where l: "verify_loop ff (write_count h) Sha256_Reset v0 d3 = (Some hash, v1, d4)"
    and sz: "f_size_r ff v0 = write_count h"
    using rest by (auto split: if_split_asm option.split_asm prod.split_asm)
  obtain xs extra v2 d5 where x: "f_read ff 1 v1 d4 = ((xs, extra), v2, d5)" by (metis prod.exhaust)
  obtain cs d6 where c6: "f_close_r ff v2 d5 = (cs, d6)" by fastforce
  have fin: "xs = FR_OK" "extra = []"
    and tail: "(case Sha256_Final True hash of (None, _) \<Rightarrow> (False, h\<lparr>write_file := fil\<rparr>, d6)
              | (Some actual, _) \<Rightarrow>
                if \<not> ConstantTimeDigestEqual (Some expected) (Some actual) then (False, h\<lparr>write_file := fil\<rparr>, d6)
                else case StatAbsolute ff (absolute_path h) d6 of (None, d) \<Rightarrow> (False, h\<lparr>write_file := fil\<rparr>, d)
                  | (Some after, d) \<Rightarrow> (stat_type after = NodeRegularFile \<and> stat_size after = stat_size before,
                      h\<lparr>write_file := fil\<rparr>, d)) = (True, h', d')"
    using rest l sz x c6 by (auto split: if_split_asm)
  then obtain actual s2 after where a: "Sha256_Final True hash = (Some actual, s2)"
    "ConstantTimeDigestEqual (Some expected) (Some actual)" "StatAbsolute ff (absolute_path h) d6 = (Some after, d')"
    by (auto split: if_split_asm option.split_asm prod.split_asm)
  have path: "fat_key (r_name ff v0) = fat_key (absolute_path h)" "f_tell_r ff v0 = 0"
    using f_open_existing_fil [OF o] by auto
  note kl = verify_loop_keeps [OF l] and kr = f_read_keeps [OF x] and kc = f_close_r_keeps [OF c6]
    and ks = StatAbsolute_keeps [OF a(3)]
  obtain c where c: "content d4 (r_name ff v1) = File c" "extra = take 1 (drop (unat (f_tell_r ff v1)) c)"
    using f_read_bytes [OF x [unfolded fin(1)]] by auto
  have c3: "content d3 (r_name ff v0) = File c" using c(1) kl by simp
  have "sha_message Sha256_Reset (take (unat (f_tell_r ff v0)) c)" using sha_message_Reset path(2) by simp
  from verify_loop_hash [OF l c3 this] path(2) have t: "unat (f_tell_r ff v1) = unat (write_count h)"
    "unat (f_tell_r ff v1) \<le> length c" "sha_message hash (take (unat (f_tell_r ff v1)) c)" by auto
  have "length c \<le> unat (f_tell_r ff v1)" using c(2) fin(2) by simp
  with t have len: "length c = unat (write_count h)" and msg: "sha_message hash c" by auto
  have digests: "expected = sha256 m" "actual = sha256 c"
    using Sha256_Final_bound [OF m e] Sha256_Final_bound [OF msg a(1)] by auto
  have "sha256 c = sha256 m" using a(2) unfolding digests by (simp add: ConstantTimeDigestEqual_iff)
  moreover have "length c = length m" using len n m by (simp add: sha_message_def unat_of_nat)
  moreover have "content d' (absolute_path h) = File c"
    using c(1) kl kr kc ks path(1) content_key by metis
  ultimately show ?thesis by blast
qed

end

section \<open>The functions that change the card\<close>

text \<open>
  \<open>w_data\<close> is what a \<open>FIL\<close> opened to write has been given.  The adapter never moves its position,
  so \<open>f_write\<close> appends.  A directory entry is known to be up to date when \<open>f_sync\<close> or \<open>f_close\<close>
  succeeded.
\<close>

locale fatfs = fatfs_reads ff content for ff :: "('d, 'r, 'w, 'q) FatFs" and content :: "'d \<Rightarrow> path \<Rightarrow> node" +
  fixes w_data :: "'w \<Rightarrow> byte list"
  assumes f_open_new_other: "f_open_new ff p d = (made, d') \<Longrightarrow> fat_key q \<noteq> fat_key p \<Longrightarrow>
      content d' q = content d q"
    and f_open_new_done: "f_open_new ff p d = ((FR_OK, w), d') \<Longrightarrow>
      content d' p = File [] \<and> fat_key (w_name ff w) = fat_key p \<and> w_data w = []"
    and f_write_other: "f_write ff bs w d = (put, w', d') \<Longrightarrow> fat_key q \<noteq> fat_key (w_name ff w) \<Longrightarrow>
      content d' q = content d q"
    and f_write_name: "f_write ff bs w d = (put, w', d') \<Longrightarrow> w_name ff w' = w_name ff w"
    and f_write_done: "f_write ff bs w d = ((FR_OK, n), w', d') \<Longrightarrow> n = length bs \<Longrightarrow>
      w_data w' = w_data w @ bs \<and>
      (content d (w_name ff w) = File c \<longrightarrow> (\<exists>c'. content d' (w_name ff w) = File c'))"
    and f_sync_other: "f_sync ff w d = (st, w', d') \<Longrightarrow> fat_key q \<noteq> fat_key (w_name ff w) \<Longrightarrow>
      content d' q = content d q"
    and f_sync_name: "f_sync ff w d = (st, w', d') \<Longrightarrow> w_name ff w' = w_name ff w"
    and f_sync_done: "f_sync ff w d = (FR_OK, w', d') \<Longrightarrow> w_data w' = w_data w \<and>
      (content d (w_name ff w) = File c \<longrightarrow> content d' (w_name ff w) = File (w_data w))"
    and f_close_w_other: "f_close_w ff w d = (st, d') \<Longrightarrow> fat_key q \<noteq> fat_key (w_name ff w) \<Longrightarrow>
      content d' q = content d q"
    and f_close_w_done: "f_close_w ff w d = (FR_OK, d') \<Longrightarrow> content d (w_name ff w) = File c \<Longrightarrow>
      content d' (w_name ff w) = File (w_data w)"
    and f_mkdir_other: "f_mkdir ff p d = (st, d') \<Longrightarrow> fat_key q \<noteq> fat_key p \<Longrightarrow> content d' q = content d q"
    and f_mkdir_node: "f_mkdir ff p d = (st, d') \<Longrightarrow>
      content d' p = content d p \<or> (content d p = Absent \<and> content d' p = Folder)"
    and f_unlink_other: "f_unlink ff p d = (st, d') \<Longrightarrow> fat_key q \<noteq> fat_key p \<Longrightarrow> content d' q = content d q"
    and f_unlink_done: "f_unlink ff p d = (st, d') \<Longrightarrow> st = FR_OK \<or> IsMissing st \<Longrightarrow> content d' p = Absent"
    and f_unlink_failed: "f_unlink ff p d = (st, d') \<Longrightarrow> content d' p = content d p \<or> content d' p = Absent"
    and f_rename_other: "f_rename ff p q d = (st, d') \<Longrightarrow> fat_key x \<noteq> fat_key p \<Longrightarrow> fat_key x \<noteq> fat_key q \<Longrightarrow>
      content d' x = content d x"
    and f_rename_done: "f_rename ff p q d = (FR_OK, d') \<Longrightarrow> content d p = File c \<Longrightarrow> content d' q = File c"
    and f_rename_failed: "f_rename ff p q d = (st, d') \<Longrightarrow> content d p = File c \<Longrightarrow>
      content d' q = content d q \<or> content d' q = File c"

text \<open>What is at a path of the adapter, and that it holds no handle to write.\<close>

definition fatfs_node ::
  "('d, 'r, 'w, 'q) FatFs \<Rightarrow> ('d \<Rightarrow> path \<Rightarrow> node) \<Rightarrow> ('w \<Rightarrow> byte list) \<Rightarrow> ('d, 'r, 'w) volume \<Rightarrow> path \<Rightarrow> node" where
  "fatfs_node ff content w_data v p =
     (case content (disk v) (absolute v p) of
        File c \<Rightarrow> (case writing_at ff v p of None \<Rightarrow> File c | Some h \<Rightarrow> Writing (w_data (write_file h)))
      | n \<Rightarrow> n)"

definition fatfs_idle :: "('d, 'r, 'w) volume \<Rightarrow> bool" where
  "fatfs_idle v \<longleftrightarrow> write_handle v = None"

lemma absolute_key: "fat_key (absolute v p) = fat_key (absolute v q) \<longleftrightarrow> fat_key p = fat_key q"
  by (simp add: absolute_def fat_key_def)

lemma resolved_Some: "resolved v p = Some a \<Longrightarrow> a = absolute v p"
  by (auto simp: Resolve_def absolute_def split: if_split_asm option.split_asm)

lemma absolute_update [simp]:
  "absolute (v\<lparr>disk := d\<rparr>) p = absolute v p" "absolute (v\<lparr>disk := d, read_handles := hs\<rparr>) p = absolute v p"
  "absolute (v\<lparr>disk := d, write_handle := w\<rparr>) p = absolute v p"
  "absolute (v\<lparr>read_handles := hs\<rparr>) p = absolute v p"
  by (simp_all add: absolute_def)

lemma writing_at_update [simp]:
  "writing_at ff (v\<lparr>disk := d\<rparr>) p = writing_at ff v p"
  "writing_at ff (v\<lparr>disk := d, read_handles := hs\<rparr>) p = writing_at ff v p"
  "writing_at ff (v\<lparr>read_handles := hs\<rparr>) p = writing_at ff v p"
  by (simp_all add: writing_at_def split: option.split)

lemma writing_at_key: "fat_key p = fat_key q \<Longrightarrow> writing_at ff v p = writing_at ff v q"
  by (simp add: writing_at_def FatPathEqual_key absolute_def fat_key_def split: option.split)

lemma writing_at_Some:
  "writing_at ff v p = Some h \<longleftrightarrow>
   write_handle v = Some h \<and> fat_key (w_name ff (write_file h)) = fat_key (absolute v p)"
  by (auto simp: writing_at_def FatPathEqual_key split: option.split)

lemma writing_at_other:
  "writing_at ff v p = Some h \<Longrightarrow> fat_key q \<noteq> fat_key p \<Longrightarrow> writing_at ff v q = None"
  by (auto simp: writing_at_def FatPathEqual_key absolute_def fat_key_def split: if_split_asm option.split_asm)

lemma find_reader_Some:
  "find_reader ff a hs = Some i \<Longrightarrow> i < length hs \<and> (\<exists>h. hs ! i = Some h \<and> fat_key (r_name ff (read_file h)) = fat_key a)"
  by (induction ff a hs arbitrary: i rule: find_reader.induct) (auto simp: FatPathEqual_key split: if_split_asm)

section \<open>The adapter meets the contract\<close>

context fatfs
begin

abbreviation node_at :: "('d, 'r, 'w) volume \<Rightarrow> path \<Rightarrow> node" where
  "node_at \<equiv> fatfs_node ff content w_data"

abbreviation ops :: "('d, 'r, 'w) volume UpdateFileSystem" where
  "ops \<equiv> FatFsUpdateFileSystem ff"

lemmas op_defs = FatFsUpdateFileSystem_def UpdateFileSystem.simps

lemma node_read [simp]:
  "content d = content (disk v) \<Longrightarrow> node_at (v\<lparr>disk := d\<rparr>) = node_at v"
  "content d = content (disk v) \<Longrightarrow> node_at (v\<lparr>disk := d, read_handles := hs\<rparr>) = node_at v"
  "node_at (v\<lparr>read_handles := hs\<rparr>) = node_at v"
  by (simp_all add: fatfs_node_def fun_eq_iff cong: node.case_cong)

lemma node_other:
  "content d (absolute v q) = content (disk v) (absolute v q) \<Longrightarrow> node_at (v\<lparr>disk := d\<rparr>) q = node_at v q"
  by (simp add: fatfs_node_def cong: node.case_cong)

lemma node_handle_other:
  assumes "content d (absolute v q) = content (disk v) (absolute v q)"
    and "writing_at ff (v\<lparr>disk := d, write_handle := w\<rparr>) q = None" and "writing_at ff v q = None"
  shows "node_at (v\<lparr>disk := d, write_handle := w\<rparr>) q = node_at v q"
  using assms by (simp add: fatfs_node_def cong: node.case_cong)

lemma node_Absent: "node_at v p = Absent \<longleftrightarrow> content (disk v) (absolute v p) = Absent"
  using content_plain [of "disk v" "absolute v p"] by (auto simp: fatfs_node_def split: option.split_asm option.split)

lemma node_Folder: "node_at v p = Folder \<longleftrightarrow> content (disk v) (absolute v p) = Folder"
  using content_plain [of "disk v" "absolute v p"] by (auto simp: fatfs_node_def split: option.split_asm option.split)

lemma node_File:
  "node_at v p = File c \<longleftrightarrow> content (disk v) (absolute v p) = File c \<and> writing_at ff v p = None"
  using content_plain [of "disk v" "absolute v p"] by (auto simp: fatfs_node_def split: option.split_asm option.split)

lemma node_Writing:
  "node_at v p = Writing c \<longleftrightarrow> (\<exists>c' h. content (disk v) (absolute v p) = File c' \<and> writing_at ff v p = Some h \<and>
     c = w_data (write_file h))"
  using content_plain [of "disk v" "absolute v p"] by (auto simp: fatfs_node_def split: option.split_asm option.split)

lemma fatfs_node_key: "fat_key p = fat_key q \<Longrightarrow> node_at v p = node_at v q"
  using content_key [of "absolute v p" "absolute v q"] writing_at_key [of p q ff v]
  by (simp add: fatfs_node_def absolute_key cong: node.case_cong)

lemma fatfs_Stat_node: "Stat ops p v = (r, v') \<Longrightarrow> node_at v' = node_at v"
  using StatAbsolute_keeps by (fastforce simp: op_defs fatfs_Stat_def split: option.split_asm prod.split_asm)

lemma fatfs_Stat_matches: "Stat ops p v = (Some st, v') \<Longrightarrow> stat_matches st (node_at v p)"
  using resolved_Some StatAbsolute_matches
  by (fastforce simp: op_defs fatfs_Stat_def fatfs_node_def stat_matches_def
      split: option.split option.split_asm prod.split_asm node.split node.split_asm)

lemma fatfs_OpenRead_node: "OpenRead ops p v = (ok, v') \<Longrightarrow> node_at v' = node_at v"
  using StatAbsolute_keeps ReadHandle_Open_keeps
  by (fastforce simp: op_defs fatfs_OpenRead_def split: option.split_asm prod.split_asm if_split_asm)

lemma fatfs_FileGetSize_node: "FileGetSize ops p v = (rz, v') \<Longrightarrow> node_at v' = node_at v"
  by (auto simp: op_defs split: option.split_asm)

lemma fatfs_FileReadAt_node: "FileReadAt ops p offset n v = (rb, v') \<Longrightarrow> node_at v' = node_at v"
  using ReadHandle_ReadAt_keeps by (fastforce simp: op_defs split: option.split_asm prod.split_asm)

lemma fatfs_FileReadAt_bytes:
  assumes "FileReadAt ops p offset n v = (Some bs, v')" and "0 < n"
  shows "\<exists>c. node_at v p = File c \<and> unat offset + n \<le> length c \<and> bs = take n (drop (unat offset) c)"
proof -
  from assms(1) obtain i h' d where i: "reading_at ff v p = Some i"
    and r: "ReadHandle_ReadAt ff offset n (read_handles v ! i) (disk v) = (Some bs, h', d)"
    by (auto simp: op_defs split: option.split_asm prod.split_asm)
  from i have w: "writing_at ff v p = None" and f: "find_reader ff (absolute v p) (read_handles v) = Some i"
    by (auto simp: reading_at_def split: if_split_asm)
  from find_reader_Some [OF f] obtain h where h: "read_handles v ! i = Some h"
    "fat_key (r_name ff (read_file h)) = fat_key (absolute v p)" by blast
  from ReadHandle_ReadAt_bytes [OF r [unfolded h(1)] assms(2)] content_key [OF h(2)] w show ?thesis
    by (simp add: node_File)
qed

lemma fatfs_FileCloseRead_node: "FileCloseRead ops p v = (ok, v') \<Longrightarrow> node_at v' = node_at v"
  by (auto simp: op_defs ReadHandle_Close_def f_close_r_keeps split: option.split_asm prod.split_asm)

lemma fatfs_SyncContainingDirectory_node: "SyncContainingDirectory ops p v = (ok, v') \<Longrightarrow> node_at v' = node_at v"
  by (simp add: op_defs fatfs_SyncContainingDirectory_def)

lemma fatfs_GetFreeSpace_node: "GetFreeSpace ops v = (rz, v') \<Longrightarrow> node_at v' = node_at v"
  using QueryVolumeGeometry_keeps by (fastforce simp: op_defs fatfs_GetFreeSpace_def split: if_split_asm prod.split_asm)

lemma fatfs_GetVolumeSize_node: "GetVolumeSize ops v = (rz, v') \<Longrightarrow> node_at v' = node_at v"
  using QueryVolumeGeometry_keeps by (fastforce simp: op_defs fatfs_GetVolumeSize_def split: if_split_asm prod.split_asm)

lemma fatfs_CreateFileFresh_cases:
  assumes "CreateFileFresh ops p v = (ok, v')"
  obtains "\<not> ok" "node_at v' = node_at v"
    | a d1 d2 x where "write_handle v = None" "a = absolute v p" "content d1 = content (disk v)"
      "f_open_new ff a d1 = (x, d2)" "\<not> ok" "v' = v\<lparr>disk := d2\<rparr>"
    | a d1 d2 w h where "write_handle v = None" "a = absolute v p" "content d1 = content (disk v)"
      "f_open_new ff a d1 = ((FR_OK, w), d2)" "ok" "write_file h = w" "v' = v\<lparr>disk := d2, write_handle := Some h\<rparr>"
proof -
  note eq = assms [unfolded op_defs fatfs_CreateFileFresh_def]
  show ?thesis
  proof (cases "\<exists>a st d1. resolved v p = Some a \<and> write_handle v = None \<and>
      StatAbsolute ff a (disk v) = (Some st, d1) \<and> stat_type st = NodeMissing \<and>
      length a < kFatFsUpdateFileSystemAbsolutePathBytes")
    case False
    then have "\<not> ok \<and> node_at v' = node_at v"
      using eq StatAbsolute_keeps
      by (auto simp: WriteHandle_Open_def not_less split: option.split_asm if_split_asm prod.split_asm)
    then show ?thesis using that(1) by blast
  next
    case True
    then obtain a st d1 where t: "resolved v p = Some a" "write_handle v = None" "StatAbsolute ff a (disk v) = (Some st, d1)"
      "stat_type st = NodeMissing" "length a < kFatFsUpdateFileSystemAbsolutePathBytes" by blast
    note k = StatAbsolute_keeps [OF t(3)] and a = resolved_Some [OF t(1)]
    obtain fr w d2 where o: "f_open_new ff a d1 = ((fr, w), d2)" by (metis prod.exhaust)
    show ?thesis
    proof (cases "fr = FR_OK")
      case True
      with eq t o have "ok" "v' = v\<lparr>disk := d2, write_handle := Some \<lparr>write_file = w, write_sha256 = Sha256_Reset,
          write_count = 0, absolute_path = a\<rparr>\<rparr>" by (auto simp: WriteHandle_Open_def)
      then show ?thesis by (intro that(3) [OF t(2) a k o [unfolded True]]) simp_all
    next
      case False
      with eq t o have "\<not> ok" "v' = v\<lparr>disk := d2\<rparr>" by (auto simp: WriteHandle_Open_def)
      then show ?thesis using that(2) [OF t(2) a k o] by simp
    qed
  qed
qed

lemma no_handle_no_writer: "write_handle v = None \<Longrightarrow> writing_at ff v q = None"
  by (simp add: writing_at_def)

lemma fatfs_CreateFileFresh_other:
  assumes "CreateFileFresh ops p v = (ok, v')" and "fat_key q \<noteq> fat_key p"
  shows "node_at v' q = node_at v q"
  using assms(1)
proof (cases rule: fatfs_CreateFileFresh_cases)
  case (2 a d1 d2 x)
  then show ?thesis
    using f_open_new_other [OF 2(4), of "absolute v q"] assms(2) node_other [of d2 v q] by (simp add: absolute_key)
next
  case (3 a d1 d2 w h)
  note o = f_open_new_done [OF 3(4)]
  have c: "content d2 (absolute v q) = content (disk v) (absolute v q)"
    using f_open_new_other [OF 3(4), of "absolute v q"] assms(2) 3(2,3) by (simp add: absolute_key)
  have "writing_at ff v' q = None"
    using o assms(2) absolute_key [of v q p] unfolding 3(7)
    by (auto simp: writing_at_def FatPathEqual_key 3(2,6))
  then show ?thesis
    unfolding 3(7) by (rule node_handle_other [OF c _ no_handle_no_writer [OF 3(1)]])
qed simp

lemma fatfs_CreateFileFresh_done:
  assumes "CreateFileFresh ops p v = (True, v')"
  shows "node_at v' p = Writing []"
  using assms
proof (cases rule: fatfs_CreateFileFresh_cases)
  case (3 a d1 d2 w h)
  note o = f_open_new_done [OF 3(4)]
  have "writing_at ff v' p = Some h" using o unfolding 3(7) by (simp add: writing_at_Some 3(2,6))
  then show ?thesis using o 3(2,6) unfolding 3(7) by (simp add: node_Writing)
qed simp_all

text \<open>The handle to write: its own name changes, and the others do not.\<close>

lemma write_chunks_keeps:
  "write_chunks ff bs h d = (ok, h', d') \<Longrightarrow> w_name ff (write_file h') = w_name ff (write_file h) \<and>
    (\<forall>q. fat_key q \<noteq> fat_key (w_name ff (write_file h)) \<longrightarrow> content d' q = content d q)"
proof (induction "length bs" arbitrary: bs h d rule: less_induct)
  case less
  let ?n = "if length bs > uint_maximum then uint_maximum else length bs"
  note prem = less.prems [unfolded write_chunks.simps [of ff bs] Let_def]
  show ?case
  proof (cases "length bs = 0")
    case True
    with prem show ?thesis by simp
  next
    case False
    obtain st n fil d1 where w: "f_write ff (take ?n bs) (write_file h) d = ((st, n), fil, d1)" by (metis prod.exhaust)
    note k = f_write_other [OF w] f_write_name [OF w]
    show ?thesis
    proof (cases "\<exists>sha. st = FR_OK \<and> n = ?n \<and> Sha256_Update (Some (take ?n bs)) ?n (write_sha256 h) = (True, sha)")
      case True
      then obtain sha where rec: "write_chunks ff (drop ?n bs)
          (h\<lparr>write_file := fil, write_sha256 := sha, write_count := write_count h + of_nat ?n\<rparr>) d1 = (ok, h', d')"
        using prem False w by auto
      have "length (drop ?n bs) < length bs" using False by (simp add: uint_maximum_def)
      from less.hyps [OF this rec] k show ?thesis by simp
    next
      case no_turn: False
      show ?thesis
        using prem False w k no_turn by (auto split: if_split_asm prod.split_asm bool.split_asm)
    qed
  qed
qed

lemma write_chunks_done:
  "write_chunks ff bs h d = (True, h', d') \<Longrightarrow> w_data (write_file h') = w_data (write_file h) @ bs \<and>
    ((\<exists>c. content d (w_name ff (write_file h)) = File c) \<longrightarrow> (\<exists>c. content d' (w_name ff (write_file h)) = File c))"
proof (induction "length bs" arbitrary: bs h d rule: less_induct)
  case less
  let ?n = "if length bs > uint_maximum then uint_maximum else length bs"
  note prem = less.prems [unfolded write_chunks.simps [of ff bs] Let_def]
  show ?case
  proof (cases "length bs = 0")
    case True
    with prem show ?thesis by simp
  next
    case False
    obtain st n fil d1 where w: "f_write ff (take ?n bs) (write_file h) d = ((st, n), fil, d1)" by (metis prod.exhaust)
    with prem False obtain sha where ok: "st = FR_OK" "n = ?n" and rec: "write_chunks ff (drop ?n bs)
        (h\<lparr>write_file := fil, write_sha256 := sha, write_count := write_count h + of_nat ?n\<rparr>) d1 = (True, h', d')"
      by (auto split: if_split_asm prod.split_asm bool.split_asm)
    have "n = length (take ?n bs)" using ok(2) by simp
    note put = f_write_done [OF w [unfolded ok(1)] this] and name = f_write_name [OF w]
    have "length (drop ?n bs) < length bs" using False by (simp add: uint_maximum_def)
    from less.hyps [OF this rec] have IH: "w_data (write_file h') = w_data fil @ drop ?n bs"
      "(\<exists>c. content d1 (w_name ff fil) = File c) \<longrightarrow> (\<exists>c. content d' (w_name ff fil) = File c)" by auto
    have "w_data (write_file h') = w_data (write_file h) @ (take ?n bs @ drop ?n bs)"
      using IH(1) put by (simp only: append_assoc)
    then have "w_data (write_file h') = w_data (write_file h) @ bs" unfolding append_take_drop_id .
    moreover have "(\<exists>c. content d (w_name ff (write_file h)) = File c) \<longrightarrow>
        (\<exists>c. content d' (w_name ff (write_file h)) = File c)"
      using IH(2) put unfolding name by blast
    ultimately show ?thesis by blast
  qed
qed

text \<open>A step of the handle to write: what it does to a path that is not its own.\<close>

lemma handle_step_other:
  assumes w: "writing_at ff v p = Some h" and ne: "fat_key q \<noteq> fat_key p"
    and c: "\<And>q. fat_key q \<noteq> fat_key (w_name ff (write_file h)) \<Longrightarrow> content d q = content (disk v) q"
    and n: "\<And>g. h' = Some g \<Longrightarrow> w_name ff (write_file g) = w_name ff (write_file h)"
  shows "node_at (v\<lparr>disk := d, write_handle := h'\<rparr>) q = node_at v q"
proof (rule node_handle_other)
  have name: "fat_key (w_name ff (write_file h)) = fat_key (absolute v p)" using w by (simp add: writing_at_Some)
  then show "content d (absolute v q) = content (disk v) (absolute v q)" using c ne by (simp add: absolute_key)
  show "writing_at ff (v\<lparr>disk := d, write_handle := h'\<rparr>) q = None"
    using n name ne absolute_key [of v q p] by (cases h') (auto simp: writing_at_def FatPathEqual_key)
  show "writing_at ff v q = None" using w ne by (rule writing_at_other)
qed

text \<open>And what it does to its own path, when it stays open.\<close>

lemma handle_step_own:
  assumes w: "writing_at ff v p = Some h" and "node_at v p = Writing c"
    and c: "\<And>c. content (disk v) (w_name ff (write_file h)) = File c \<Longrightarrow> \<exists>c'. content d (w_name ff (write_file h)) = File c'"
    and n: "w_name ff (write_file g) = w_name ff (write_file h)"
  shows "node_at (v\<lparr>disk := d, write_handle := Some g\<rparr>) p = Writing (w_data (write_file g))"
proof -
  have name: "fat_key (w_name ff (write_file h)) = fat_key (absolute v p)" using w by (simp add: writing_at_Some)
  note key = content_key [OF name]
  from assms(2) obtain c' where "content (disk v) (absolute v p) = File c'" by (auto simp: node_Writing)
  with c key obtain c' where "content d (absolute v p) = File c'" by metis
  then show ?thesis using n name by (simp add: node_Writing writing_at_Some)
qed

lemma fatfs_FileWrite_other:
  assumes "FileWrite ops p bs v = (ok, v')" and "fat_key q \<noteq> fat_key p"
  shows "node_at v' q = node_at v q"
proof (cases "writing_at ff v p")
  case None
  with assms(1) show ?thesis by (simp add: op_defs)
next
  case (Some h)
  obtain b h' d where w: "WriteHandle_Write ff bs h (disk v) = (b, h', d)" by (metis prod.exhaust)
  then have "w_name ff (write_file h') = w_name ff (write_file h) \<and>
      (\<forall>q. fat_key q \<noteq> fat_key (w_name ff (write_file h)) \<longrightarrow> content d q = content (disk v) q)"
    using write_chunks_keeps
    by (auto simp: WriteHandle_Write_def split: if_split_asm prod.split_asm bool.split_asm)
  with assms(1) Some w show ?thesis by (auto simp: op_defs intro: handle_step_other [OF Some assms(2)])
qed

lemma fatfs_FileWrite_done:
  assumes "FileWrite ops p bs v = (True, v')" and node: "node_at v p = Writing c"
  shows "node_at v' p = Writing (c @ bs)"
proof -
  from node obtain h where h: "writing_at ff v p = Some h" "c = w_data (write_file h)" by (auto simp: node_Writing)
  from assms(1) h obtain h' d where w: "WriteHandle_Write ff bs h (disk v) = (True, h', d)"
    and v': "v' = v\<lparr>disk := d, write_handle := Some h'\<rparr>" by (auto simp: op_defs split: prod.split_asm)
  from w have l: "write_chunks ff bs h (disk v) = (True, h', d)"
    by (auto simp: WriteHandle_Write_def split: if_split_asm prod.split_asm bool.split_asm)
  note k = write_chunks_keeps [OF l] and put = write_chunks_done [OF l]
  show ?thesis
    unfolding v' h(2) using handle_step_own [OF h(1) node, of d h'] k put by auto
qed

lemma VerifySyncedWrite_sync:
  assumes "VerifySyncedWrite ff b h d = (ok, h', d')"
  obtains "\<not> ok" "h' = h" "d' = d" | st fil d1 where "f_sync ff (write_file h) d = (st, fil, d1)" "h' = h\<lparr>write_file := fil\<rparr>"
    "content d' = content d1" "ok \<longrightarrow> st = FR_OK"
proof (cases b)
  case False
  with assms that(1) show ?thesis by (auto simp: VerifySyncedWrite_def)
next
  case True
  obtain st fil d1 where y: "f_sync ff (write_file h) d = (st, fil, d1)" by (metis prod.exhaust)
  note eq = assms [unfolded VerifySyncedWrite_def y prod.case Let_def]
  have same: "h' = h\<lparr>write_file := fil\<rparr>"
    using eq True by (simp split: if_split_asm option.split_asm prod.split_asm)
  have st: "ok \<longrightarrow> st = FR_OK" using eq True by (simp split: if_split_asm)
  have "content d' = content d1"
    using eq True verify_loop_keeps
    by (auto dest!: StatAbsolute_keeps f_open_existing_keeps f_close_r_keeps f_read_keeps
        split: if_split_asm option.split_asm prod.split_asm)
  with y same st show ?thesis using that(2) by blast
qed

lemma fatfs_FileSync_other:
  assumes "FileSync ops p v = (ok, v')" and "fat_key q \<noteq> fat_key p"
  shows "node_at v' q = node_at v q"
proof (cases "writing_at ff v p")
  case None
  with assms(1) show ?thesis by (simp add: op_defs)
next
  case (Some h)
  obtain b h' d where w: "VerifySyncedWrite ff (configured v) h (disk v) = (b, h', d)" by (metis prod.exhaust)
  have v': "v' = v\<lparr>disk := d, write_handle := Some h'\<rparr>" using assms(1) Some w by (simp add: op_defs)
  have "w_name ff (write_file h') = w_name ff (write_file h) \<and>
      (\<forall>q. fat_key q \<noteq> fat_key (w_name ff (write_file h)) \<longrightarrow> content d q = content (disk v) q)"
    using w
  proof (cases rule: VerifySyncedWrite_sync)
    case (2 st fil d1)
    then show ?thesis using f_sync_other [OF 2(1)] f_sync_name [OF 2(1)] by simp
  qed simp
  then show ?thesis unfolding v' by (auto intro: handle_step_other [OF Some assms(2)])
qed

lemma fatfs_FileSync_done:
  assumes "FileSync ops p v = (True, v')" and node: "node_at v p = Writing c"
  shows "node_at v' p = Writing c"
proof -
  from node obtain h where h: "writing_at ff v p = Some h" "c = w_data (write_file h)" by (auto simp: node_Writing)
  from assms(1) h obtain h' d where w: "VerifySyncedWrite ff (configured v) h (disk v) = (True, h', d)"
    and v': "v' = v\<lparr>disk := d, write_handle := Some h'\<rparr>" by (auto simp: op_defs split: prod.split_asm)
  from w obtain fil d1 where
    s: "f_sync ff (write_file h) (disk v) = (FR_OK, fil, d1)" "h' = h\<lparr>write_file := fil\<rparr>" "content d = content d1"
    by (cases rule: VerifySyncedWrite_sync) auto
  note put = f_sync_done [OF s(1)] and name = f_sync_name [OF s(1)]
  show ?thesis
    unfolding v' h(2) using handle_step_own [OF h(1) node, of d h'] s(2,3) put name by auto
qed

lemma fatfs_FileClose_other:
  assumes "FileClose ops p v = (ok, v')" and "fat_key q \<noteq> fat_key p"
  shows "node_at v' q = node_at v q"
proof (cases "writing_at ff v p")
  case None
  with assms(1) show ?thesis by (simp add: op_defs)
next
  case (Some h)
  obtain st d where w: "f_close_w ff (write_file h) (disk v) = (st, d)" by fastforce
  then have "v' = v\<lparr>disk := d, write_handle := None\<rparr>" using assms(1) Some by (simp add: op_defs WriteHandle_Close_def)
  then show ?thesis using f_close_w_other [OF w] by (auto intro: handle_step_other [OF Some assms(2)])
qed

lemma fatfs_FileClose_done:
  assumes "FileClose ops p v = (True, v')" and node: "node_at v p = Writing c"
  shows "node_at v' p = File c \<and> fatfs_idle v'"
proof -
  from node obtain h c' where h: "writing_at ff v p = Some h" "c = w_data (write_file h)"
    "content (disk v) (absolute v p) = File c'" by (auto simp: node_Writing)
  from assms(1) h obtain d where w: "f_close_w ff (write_file h) (disk v) = (FR_OK, d)"
    and v': "v' = v\<lparr>disk := d, write_handle := None\<rparr>"
    by (auto simp: op_defs WriteHandle_Close_def split: prod.split_asm)
  have name: "fat_key (w_name ff (write_file h)) = fat_key (absolute v p)" using h(1) by (simp add: writing_at_Some)
  note key = content_key [OF name]
  from f_close_w_done [OF w] h(3) key have "content d (absolute v p) = File c" unfolding h(2) by metis
  then show ?thesis unfolding v' by (simp add: node_File writing_at_def fatfs_idle_def)
qed

lemma node_updated:
  "node_at (v\<lparr>disk := d\<rparr>) p = Absent \<longleftrightarrow> content d (absolute v p) = Absent"
  "node_at (v\<lparr>disk := d\<rparr>) p = Folder \<longleftrightarrow> content d (absolute v p) = Folder"
  by (simp_all add: node_Absent node_Folder)

lemma fatfs_CreateDirectory_cases:
  assumes "CreateDirectory ops p v = (ok, v')"
  obtains "node_at v' = node_at v"
    | d1 st d2 d where "content d1 = content (disk v)" "f_mkdir ff (absolute v p) d1 = (st, d2)"
      "content d = content d2" "v' = v\<lparr>disk := d\<rparr>"
proof -
  note eq = assms [unfolded op_defs fatfs_CreateDirectory_def]
  show ?thesis
  proof (cases "\<exists>a s d1. resolved v p = Some a \<and> StatAbsolute ff a (disk v) = (Some s, d1) \<and> stat_type s = NodeMissing")
    case False
    then have "node_at v' = node_at v"
      using eq by (auto dest: StatAbsolute_keeps split: option.split_asm if_split_asm prod.split_asm)
    then show ?thesis by (rule that(1))
  next
    case True
    then obtain a s d1 where t: "resolved v p = Some a" "StatAbsolute ff a (disk v) = (Some s, d1)" "stat_type s = NodeMissing"
      by blast
    note k = StatAbsolute_keeps [OF t(2)] and a = resolved_Some [OF t(1)]
    obtain st d2 where m: "f_mkdir ff a d1 = (st, d2)" by fastforce
    with eq t have "\<exists>d. content d = content d2 \<and> v' = v\<lparr>disk := d\<rparr>"
      by (auto dest: StatAbsolute_keeps split: option.split_asm if_split_asm prod.split_asm)
    then show ?thesis using that(2) [OF k m [unfolded a]] by blast
  qed
qed

lemma fatfs_CreateDirectory_other:
  assumes "CreateDirectory ops p v = (ok, v')" and "fat_key q \<noteq> fat_key p"
  shows "node_at v' q = node_at v q"
  using assms(1)
proof (cases rule: fatfs_CreateDirectory_cases)
  case (2 d1 st d2 d)
  then show ?thesis
    using f_mkdir_other [OF 2(2), of "absolute v q"] assms(2) node_other [of d v q] by (simp add: absolute_key)
qed simp

lemma fatfs_CreateDirectory_own:
  assumes "CreateDirectory ops p v = (ok, v')"
  shows "node_at v' p = node_at v p \<or> (node_at v p = Absent \<and> node_at v' p = Folder)"
  using assms
proof (cases rule: fatfs_CreateDirectory_cases)
  case (2 d1 st d2 d)
  then show ?thesis
    using f_mkdir_node [OF 2(2)] node_other [of d v p] node_updated(2) [of d v p] node_Absent [of v p] by auto
qed simp

lemma fatfs_RemoveFile_cases:
  assumes "RemoveFile ops p v = (ok, v')"
  obtains "node_at v' = node_at v" "ok \<longrightarrow> node_at v p = Absent"
    | d1 st d where "content d1 = content (disk v)" "f_unlink ff (absolute v p) d1 = (st, d)"
      "ok \<longleftrightarrow> st = FR_OK \<or> IsMissing st" "v' = v\<lparr>disk := d\<rparr>"
proof -
  note eq = assms [unfolded op_defs fatfs_RemoveFile_def]
  show ?thesis
  proof (cases "\<exists>a s d1. resolved v p = Some a \<and> StatAbsolute ff a (disk v) = (Some s, d1) \<and> stat_type s = NodeRegularFile")
    case False
    then have "node_at v' = node_at v" and "ok \<longrightarrow> (\<exists>a s d1. resolved v p = Some a \<and>
        StatAbsolute ff a (disk v) = (Some s, d1) \<and> stat_type s = NodeMissing)"
      using eq by (auto dest: StatAbsolute_keeps split: option.split_asm if_split_asm prod.split_asm)
    moreover have "node_at v p = Absent" if "resolved v p = Some a" "StatAbsolute ff a (disk v) = (Some s, d1)"
      "stat_type s = NodeMissing" for a s d1
      using StatAbsolute_matches [OF that(2)] that(3) content_plain [of "disk v" a] resolved_Some [OF that(1)]
      by (auto simp: node_Absent stat_matches_def)
    ultimately show ?thesis using that(1) by blast
  next
    case True
    then obtain a s d1 where t: "resolved v p = Some a" "StatAbsolute ff a (disk v) = (Some s, d1)" "stat_type s = NodeRegularFile"
      by blast
    obtain st d where u: "f_unlink ff a d1 = (st, d)" by fastforce
    have "ok \<longleftrightarrow> st = FR_OK \<or> IsMissing st" "v' = v\<lparr>disk := d\<rparr>" using eq t u by auto
    then show ?thesis using that(2) [OF StatAbsolute_keeps [OF t(2)] u [unfolded resolved_Some [OF t(1)]]] by blast
  qed
qed

lemma fatfs_RemoveFile_other:
  assumes "RemoveFile ops p v = (ok, v')" and "fat_key q \<noteq> fat_key p"
  shows "node_at v' q = node_at v q"
  using assms(1)
proof (cases rule: fatfs_RemoveFile_cases)
  case (2 d1 st d)
  then show ?thesis
    using f_unlink_other [OF 2(2), of "absolute v q"] assms(2) node_other [of d v q] by (simp add: absolute_key)
qed simp

lemma fatfs_RemoveFile_own:
  assumes "RemoveFile ops p v = (ok, v')"
  shows "(ok \<longrightarrow> node_at v' p = Absent) \<and> (node_at v' p = node_at v p \<or> node_at v' p = Absent)"
  using assms
proof (cases rule: fatfs_RemoveFile_cases)
  case (2 d1 st d)
  then show ?thesis
    using f_unlink_done [OF 2(2)] f_unlink_failed [OF 2(2)] node_other [of d v p] node_updated(1) [of d v p] by auto
qed auto

lemma fatfs_Rename_cases:
  assumes "Rename ops p q True v = (ok, v')"
  obtains "\<not> ok" "node_at v' = node_at v"
    | a b d1 d2 u where "a = absolute v p" "b = absolute v q" "fat_key a \<noteq> fat_key b"
      "content d1 = content (disk v)" "\<not> ok" "f_unlink ff b d1 = (u, d2)" "v' = v\<lparr>disk := d2\<rparr>"
    | a b d1 d2 d3 d st where "a = absolute v p" "b = absolute v q" "fat_key a \<noteq> fat_key b"
      "content d1 = content (disk v)"
      "content d2 = content d1 \<or> f_unlink ff b d1 = (FR_OK, d2)"
      "f_rename ff a b d2 = (st, d3)" "ok \<longrightarrow> st = FR_OK" "content d = content d3" "v' = v\<lparr>disk := d\<rparr>"
proof -
  note eq = assms [unfolded op_defs fatfs_Rename_def]
  show ?thesis
  proof (cases "\<exists>a b ss d0 ds d1. resolved v p = Some a \<and> resolved v q = Some b \<and> \<not> FatPathEqual a b \<and>
      StatAbsolute ff a (disk v) = (Some ss, d0) \<and> StatAbsolute ff b d0 = (Some ds, d1) \<and>
      (stat_type ss = NodeRegularFile \<or> stat_type ss = NodeDirectory) \<and>
      stat_type ds \<noteq> NodeDirectory \<and> stat_type ds \<noteq> NodeOther")
    case False
    then have "\<not> ok \<and> node_at v' = node_at v"
      using eq by (auto dest!: StatAbsolute_keeps split: option.split_asm if_split_asm prod.split_asm)
    then show ?thesis using that(1) by blast
  next
    case True
    then obtain a b ss d0 ds d1 where t: "resolved v p = Some a" "resolved v q = Some b" "\<not> FatPathEqual a b"
      "StatAbsolute ff a (disk v) = (Some ss, d0)" "StatAbsolute ff b d0 = (Some ds, d1)"
      "stat_type ss = NodeRegularFile \<or> stat_type ss = NodeDirectory"
      "stat_type ds \<noteq> NodeDirectory" "stat_type ds \<noteq> NodeOther" by blast
    have k: "content d1 = content (disk v)" using StatAbsolute_keeps [OF t(4)] StatAbsolute_keeps [OF t(5)] by simp
    have ab: "a = absolute v p" "b = absolute v q" "fat_key a \<noteq> fat_key b"
      using resolved_Some t(1-3) by (auto simp: FatPathEqual_key)
    define clear where "clear = (if stat_type ds = NodeMissing then (True, d1)
        else if \<not> True \<or> stat_type ss \<noteq> NodeRegularFile then (False, d1)
        else case f_unlink ff b d1 of (status, d) \<Rightarrow> (status = FR_OK, d))"
    obtain cleared d2 where cl: "clear = (cleared, d2)" by fastforce
    have eq2: "(case clear of (False, d) \<Rightarrow> (False, v\<lparr>disk := d\<rparr>)
        | (True, d) \<Rightarrow> (case f_rename ff a b d of (status, d) \<Rightarrow>
             if status \<noteq> FR_OK then (False, v\<lparr>disk := d\<rparr>)
             else (case StatAbsolute ff a d of (None, d) \<Rightarrow> (False, v\<lparr>disk := d\<rparr>)
               | (Some sa, d) \<Rightarrow> (case StatAbsolute ff b d of (None, d) \<Rightarrow> (False, v\<lparr>disk := d\<rparr>)
                   | (Some da, d) \<Rightarrow> (stat_type sa = NodeMissing \<and> stat_type da = stat_type ss \<and>
                       (stat_type ss \<noteq> NodeRegularFile \<or> stat_size da = stat_size ss), v\<lparr>disk := d\<rparr>))))) = (ok, v')"
      using eq t unfolding clear_def by (auto split: if_split_asm)
    show ?thesis
    proof (cases cleared)
      case False
      then have v': "\<not> ok" "v' = v\<lparr>disk := d2\<rparr>" using eq2 cl by auto
      show ?thesis
      proof (cases "stat_type ss = NodeRegularFile")
        case True
        with False cl obtain u where "f_unlink ff b d1 = (u, d2)"
          by (auto simp: clear_def split: if_split_asm prod.split_asm)
        then show ?thesis using that(2) [OF ab k v'(1) _ v'(2)] by blast
      next
        case other: False
        with False cl have "d2 = d1" by (auto simp: clear_def split: if_split_asm)
        then show ?thesis using that(1) v' k by simp
      qed
    next
      case True
      then have c2: "content d2 = content d1 \<or> f_unlink ff b d1 = (FR_OK, d2)"
        using cl by (auto simp: clear_def split: if_split_asm prod.split_asm)
      obtain st d3 where r: "f_rename ff a b d2 = (st, d3)" by fastforce
      have "\<exists>d. content d = content d3 \<and> v' = v\<lparr>disk := d\<rparr> \<and> (ok \<longrightarrow> st = FR_OK)"
        using eq2 cl True r
        by (auto dest!: StatAbsolute_keeps split: option.split_asm if_split_asm prod.split_asm)
      then show ?thesis using that(3) [OF ab k c2 r] by blast
    qed
  qed
qed

lemma fatfs_Rename_other:
  assumes "Rename ops p q True v = (ok, v')" and x: "fat_key x \<noteq> fat_key p" "fat_key x \<noteq> fat_key q"
  shows "node_at v' x = node_at v x"
  using assms(1)
proof (cases rule: fatfs_Rename_cases)
  case (2 a b d1 d2 u)
  then show ?thesis
    using f_unlink_other [OF 2(6), of "absolute v x"] x node_other [of d2 v x] by (simp add: absolute_key)
next
  case (3 a b d1 d2 d3 d st)
  have "content d2 (absolute v x) = content d1 (absolute v x)"
    using 3(5) f_unlink_other [of b d1 FR_OK d2 "absolute v x"] x 3(2) by (auto simp: absolute_key)
  moreover have "content d3 (absolute v x) = content d2 (absolute v x)"
    using f_rename_other [OF 3(6), of "absolute v x"] x 3(1,2) by (simp add: absolute_key)
  ultimately show ?thesis using 3(4,8,9) node_other [of d v x] by simp
qed simp

lemma fatfs_Rename_own:
  assumes "Rename ops p q True v = (ok, v')" and idle: "fatfs_idle v" and c: "node_at v p = File c"
  shows "(ok \<longrightarrow> node_at v' q = File c) \<and>
    (node_at v' q = node_at v q \<or> node_at v' q = Absent \<or> node_at v' q = File c)"
proof -
  have quiet: "writing_at ff (v\<lparr>disk := d\<rparr>) x = None" for d x using idle by (simp add: fatfs_idle_def writing_at_def)
  have p: "content (disk v) (absolute v p) = File c" using c by (simp add: node_File)
  show ?thesis
    using assms(1)
  proof (cases rule: fatfs_Rename_cases)
    case (2 a b d1 d2 u)
    then show ?thesis
      using f_unlink_failed [OF 2(6)] node_other [of d2 v q] node_updated(1) [of d2 v q] by auto
  next
    case (3 a b d1 d2 d3 d st)
    have p2: "content d2 a = File c"
      using 3(1-5) p f_unlink_other [of b d1 FR_OK d2 a] by auto
    have at: "content d2 b = content (disk v) b \<or> content d2 b = Absent"
      using 3(4,5) f_unlink_failed [of b d1 FR_OK d2] by auto
    have "content d b = File c" if ok
      using f_rename_done [of a b d2 d3 c] p2 3(6-8) that by auto
    then have "node_at v' q = File c" if ok
      using that 3(2,9) quiet by (simp add: node_File)
    moreover have "node_at v' q = node_at v q \<or> node_at v' q = Absent \<or> node_at v' q = File c"
    proof -
      consider "content d b = content (disk v) b" | "content d b = Absent" | "content d b = File c"
        using f_rename_failed [OF 3(6) p2] at 3(8) by auto
      then show ?thesis
        using 3(2,9) node_other [of d v q] node_updated(1) [of d v q] quiet [of d q] node_File [of "v\<lparr>disk := d\<rparr>" q c]
        by cases auto
    qed
    ultimately show ?thesis by blast
  qed auto
qed

text \<open>The laws of the contract, in its order.\<close>

lemma fatfs_CreateDirectory_laws:
  "CreateDirectory ops p v = (ok, v') \<Longrightarrow> node_at v p \<noteq> Absent \<Longrightarrow> node_at v' p = node_at v p"
  "CreateDirectory ops p v = (ok, v') \<Longrightarrow> node_at v' p \<noteq> Folder \<Longrightarrow> node_at v' p = node_at v p"
  using fatfs_CreateDirectory_own by blast+

lemma fatfs_RemoveFile_laws:
  "RemoveFile ops p v = (True, v') \<Longrightarrow> node_at v' p = Absent"
  "RemoveFile ops p v = (False, v') \<Longrightarrow> node_at v' p = node_at v p \<or> node_at v' p = Absent"
  using fatfs_RemoveFile_own by blast+

lemma fatfs_Rename_laws:
  "Rename ops p q True v = (True, v') \<Longrightarrow> fatfs_idle v \<Longrightarrow> node_at v p = File c \<Longrightarrow> node_at v' q = File c"
  "Rename ops p q True v = (False, v') \<Longrightarrow> fatfs_idle v \<Longrightarrow> node_at v p = File c \<Longrightarrow>
     node_at v' q = node_at v q \<or> node_at v' q = Absent \<or> node_at v' q = File c"
  using fatfs_Rename_own by blast+

lemmas contract = fatfs_node_key fatfs_Stat_node fatfs_Stat_matches fatfs_OpenRead_node fatfs_FileGetSize_node
  fatfs_FileReadAt_node fatfs_FileReadAt_bytes fatfs_FileCloseRead_node fatfs_CreateFileFresh_other
  fatfs_CreateFileFresh_done fatfs_FileWrite_other fatfs_FileWrite_done fatfs_FileSync_other fatfs_FileSync_done
  fatfs_FileClose_other fatfs_FileClose_done fatfs_CreateDirectory_other fatfs_CreateDirectory_laws
  fatfs_RemoveFile_other fatfs_RemoveFile_laws fatfs_Rename_other fatfs_Rename_laws
  fatfs_SyncContainingDirectory_node fatfs_GetFreeSpace_node fatfs_GetVolumeSize_node

end

sublocale fatfs \<subseteq> adapter: update_volume "FatFsUpdateFileSystem ff" "fatfs_node ff content w_data" fatfs_idle
  by unfold_locales (fact contract)+

context fatfs
begin

lemma contract_holds: "update_volume (FatFsUpdateFileSystem ff) (fatfs_node ff content w_data) fatfs_idle"
  by unfold_locales

end

lemma fatfs_update_volume:
  "fatfs ff content w_data \<Longrightarrow> update_volume (FatFsUpdateFileSystem ff) (fatfs_node ff content w_data) fatfs_idle"
  by (rule fatfs.contract_holds)

section \<open>Removing a directory stays inside of it\<close>

text \<open>\<open>below root q\<close>: \<open>q\<close> is \<open>root\<close> or a path under it, in any case.\<close>

definition below :: "path \<Rightarrow> path \<Rightarrow> bool" where
  "below root q \<longleftrightarrow> take (length root) (fat_key q) = fat_key root \<and>
     (length q > length root \<longrightarrow> fat_key q ! length root = slash)"

definition extends :: "path \<Rightarrow> path \<Rightarrow> bool" where
  "extends root p \<longleftrightarrow> (\<exists>r. p = root @ r \<and> (r \<noteq> [] \<longrightarrow> hd r = slash))"

lemma AsciiLower_slash: "AsciiLower slash = slash"
  by code_simp

lemma extends_below: "extends root p \<Longrightarrow> fat_key q = fat_key p \<Longrightarrow> below root q"
proof -
  assume e: "extends root p" and k: "fat_key q = fat_key p"
  then obtain r where r: "p = root @ r" "r \<noteq> [] \<longrightarrow> hd r = slash" by (auto simp: extends_def)
  have l: "length q = length root + length r" using arg_cong [OF k, of length] r(1) by (simp add: fat_key_def)
  have "take (length root) (fat_key q) = fat_key root" unfolding k r(1) by (simp add: fat_key_def)
  moreover have "fat_key q ! length root = slash" if "r \<noteq> []"
    using that r(2) unfolding k r(1) by (cases r) (simp_all add: fat_key_def nth_append AsciiLower_slash)
  ultimately show "below root q" using l by (simp add: below_def)
qed

lemma strrchr_slash_max:
  assumes "strrchr_slash p = Some i" and "j < length p" and "p ! j = slash"
  shows "j \<le> i \<and> i < length p"
proof -
  let ?found = "filter (\<lambda>i. p ! i = slash) [0..<length p]"
  have j: "j \<in> set ?found" using assms(2,3) by simp
  then have "?found \<noteq> []" by (auto simp: filter_empty_conv)
  with assms(1) have i: "i = last ?found" by (auto simp: strrchr_slash_def split: list.split_asm)
  have sorted: "sorted ?found" by (simp add: sorted_wrt_filter)
  have "i \<in> set ?found" unfolding i by (rule last_in_set) (rule \<open>?found \<noteq> []\<close>)
  moreover have "j \<le> last ?found"
  proof -
    obtain k where k: "k < length ?found" "?found ! k = j" using j unfolding in_set_conv_nth by blast
    then have "?found ! k \<le> ?found ! (length ?found - 1)" by (intro sorted_nth_mono [OF sorted]) auto
    then show ?thesis using k \<open>?found \<noteq> []\<close> by (simp add: last_conv_nth)
  qed
  ultimately show ?thesis using i by simp
qed

lemma extends_parent:
  assumes "extends root p" and "\<not> FatPathEqual p root" and "strrchr_slash p = Some i"
  shows "extends root (take i p)"
proof -
  from assms(1) obtain r where r: "p = root @ r" "r \<noteq> [] \<longrightarrow> hd r = slash" by (auto simp: extends_def)
  have ne: "r \<noteq> []" using assms(2) r(1) by (auto simp: FatPathEqual_key)
  then have "length root < length p" "p ! length root = slash" using r by (auto simp: hd_conv_nth nth_append)
  from strrchr_slash_max [OF assms(3) this] have "length root \<le> i" by simp
  then have "take i p = root @ take (i - length root) r" using r(1) by simp
  moreover have "take (i - length root) r \<noteq> [] \<longrightarrow> hd (take (i - length root) r) = slash"
    using r(2) ne by (simp add: hd_take)
  ultimately show ?thesis unfolding extends_def by blast
qed

context fatfs
begin

lemma next_child_keeps:
  "next_child ff current fuel dir d = (x, dir', d') \<Longrightarrow> content d' = content d \<and>
    (\<forall>p b. x = Some (Child p b) \<longrightarrow> (\<exists>n. p = current @ slash # n))"
proof (induction fuel arbitrary: dir d)
  case (Suc fuel)
  obtain st info dir1 d1 where r: "f_readdir ff dir d = ((st, info), dir1, d1)" by (metis prod.exhaust)
  note k = f_readdir_keeps [OF r]
  show ?case using Suc.prems r k Suc.IH [of dir1 d1] by (auto split: if_split_asm)
qed simp

lemma remove_walk_inside:
  "remove_walk ff root fuel current d = (x, d') \<Longrightarrow> extends root current \<Longrightarrow> \<not> below root q \<Longrightarrow>
   content d' q = content d q"
proof (induction fuel arbitrary: current d)
  case (Suc fuel)
  obtain st dir d1 where o: "f_opendir ff current d = ((st, dir), d1)" by (metis prod.exhaust)
  note k1 = f_opendir_keeps [OF o]
  obtain nc dir2 d2 where n: "next_child ff current fuel dir d1 = (nc, dir2, d2)" by (metis prod.exhaust)
  note k2 = next_child_keeps [OF n]
  obtain cs d3 where c: "f_closedir ff dir2 d2 = (cs, d3)" by fastforce
  note k3 = f_closedir_keeps [OF c]
  have here: "content d3 = content d" "content d2 = content d" using k1 k2 k3 by simp_all
  note eq = Suc.prems(1) [unfolded remove_walk.simps o prod.case n]
  have gone: "content d4 q = content d q" if "f_unlink ff p d3 = (u, d4)" "extends root p" for p u d4
    using f_unlink_other [OF that(1), of q] extends_below [OF that(2), of q] Suc.prems(3) here by auto
  show ?case
  proof (cases "st = FR_OK \<and> cs = FR_OK")
    case False
    with eq k1 here c show ?thesis by (auto split: if_split_asm option.split_asm directory_child.split_asm)
  next
    case True
    show ?thesis
    proof (cases nc)
      case None
      with eq True here show ?thesis by simp
    next
      case (Some child)
      show ?thesis
      proof (cases child)
        case (Child p is_dir)
        with k2 Some obtain m where p: "p = current @ slash # m" by blast
        have ext: "extends root p" using Suc.prems(2) unfolding p extends_def by (auto simp: hd_append)
        obtain u d4 where u: "f_unlink ff p d3 = (u, d4)" by fastforce
        show ?thesis
          using eq True Some Child c u here gone [OF u ext] Suc.IH [OF _ ext Suc.prems(3), of d3]
            Suc.IH [OF _ Suc.prems(2,3), of d4] by (auto split: if_split_asm)
      next
        case NoChild
        obtain u d4 where u: "f_unlink ff current d3 = (u, d4)" by fastforce
        obtain after d5 where a: "StatAbsolute ff root d4 = (after, d5)" by fastforce
        show ?thesis
          using eq True Some NoChild c u a gone [OF u Suc.prems(2)] StatAbsolute_keeps [OF a]
            Suc.IH [OF _ extends_parent [OF Suc.prems(2)] Suc.prems(3), of _ d4]
          by (auto split: if_split_asm option.split_asm)
      qed (use eq True Some c here in auto)
    qed
  qed
qed simp

lemma RemoveDirectory_inside:
  assumes "fatfs_RemoveDirectory ff fuel p recursive v = (x, v')" and "\<not> below (absolute v p) q"
  shows "content (disk v') q = content (disk v) q"
proof (cases "\<exists>root st d1. resolved v p = Some root \<and> StatAbsolute ff root (disk v) = (Some st, d1) \<and> stat_type st = NodeDirectory")
  case False
  with assms(1) show ?thesis
    by (auto simp: fatfs_RemoveDirectory_def dest: StatAbsolute_keeps split: option.split_asm prod.split_asm if_split_asm)
next
  case True
  then obtain root st d1 where t: "resolved v p = Some root" "StatAbsolute ff root (disk v) = (Some st, d1)"
    "stat_type st = NodeDirectory" by blast
  note k = StatAbsolute_keeps [OF t(2)] and root = resolved_Some [OF t(1)]
  have ext: "extends root root" by (simp add: extends_def)
  obtain u d2 where u: "f_unlink ff root d1 = (u, d2)" by fastforce
  obtain y d3 where w: "remove_walk ff root fuel root d1 = (y, d3)" by fastforce
  have "content d2 q = content d1 q"
    using f_unlink_other [OF u, of q] extends_below [OF ext, of q] assms(2) root by auto
  moreover have "content d3 q = content d1 q" using remove_walk_inside [OF w ext] assms(2) root by simp
  moreover have "disk v' = d2 \<or> disk v' = d3"
    using assms(1) t u w by (auto simp: fatfs_RemoveDirectory_def split: if_split_asm)
  ultimately show ?thesis using k by auto
qed

end

end
