(* ===== verification/Fatfs_Card.thy ===== *)
theory Fatfs_Card
  imports Fatfs_Contract
begin

text \<open>
  A card in memory that behaves as FatFs documents, and that fails when told to: each operation
  which changes it takes the next element of a plan of faults, and one that is told to fail
  reports an error, \<open>f_unlink\<close> after it has removed the name.  It shows that the laws of
  \<open>Fatfs_Contract\<close> can hold, and it is the card of the concrete runs.
\<close>

section \<open>The card\<close>

text \<open>An entry is a file, or \<open>None\<close> for a directory; names are folded.\<close>

record card =
  card_entries :: "(path \<times> byte list option) list"
  card_faults :: "bool list"

record read_fil =
  rf_name :: path
  rf_size :: u64
  rf_tell :: u64

record write_fil =
  wf_name :: path
  wf_data :: "byte list"

definition card_at :: "card \<Rightarrow> path \<Rightarrow> node" where
  "card_at c p =
     (case map_of (card_entries c) (fat_key p) of
        None \<Rightarrow> Absent | Some None \<Rightarrow> Folder | Some (Some b) \<Rightarrow> File b)"

definition card_put :: "path \<Rightarrow> byte list option \<Rightarrow> card \<Rightarrow> card" where
  "card_put p x c =
     c\<lparr>card_entries := (fat_key p, x) # filter (\<lambda>(k, y). k \<noteq> fat_key p) (card_entries c)\<rparr>"

definition card_drop :: "path \<Rightarrow> card \<Rightarrow> card" where
  "card_drop p c = c\<lparr>card_entries := filter (\<lambda>(k, y). k \<noteq> fat_key p) (card_entries c)\<rparr>"

definition trip :: "card \<Rightarrow> bool \<times> card" where
  "trip c = (case card_faults c of [] \<Rightarrow> (False, c) | b # bs \<Rightarrow> (b, c\<lparr>card_faults := bs\<rparr>))"

definition fits :: "nat \<Rightarrow> bool" where
  "fits n \<longleftrightarrow> unat (of_nat n :: u64) = n"

section \<open>The functions\<close>

definition card_stat :: "path \<Rightarrow> card \<Rightarrow> (FRESULT \<times> FILINFO) \<times> card" where
  "card_stat p c =
     (case card_at c p of
        Folder \<Rightarrow> ((FR_OK, \<lparr>fname = p, fattrib = AM_DIR, fsize = 0\<rparr>), c)
      | File b \<Rightarrow>
          if fits (length b) then ((FR_OK, \<lparr>fname = p, fattrib = 0, fsize = of_nat (length b)\<rparr>), c)
          else ((FR_OTHER 1, \<lparr>fname = p, fattrib = 0, fsize = 0\<rparr>), c)
      | _ \<Rightarrow> ((FR_NO_FILE, \<lparr>fname = p, fattrib = 0, fsize = 0\<rparr>), c))"

definition card_open_existing :: "path \<Rightarrow> card \<Rightarrow> (FRESULT \<times> read_fil) \<times> card" where
  "card_open_existing p c =
     (case card_at c p of
        File b \<Rightarrow> ((FR_OK, \<lparr>rf_name = p, rf_size = of_nat (length b), rf_tell = 0\<rparr>), c)
      | _ \<Rightarrow> ((FR_NO_FILE, \<lparr>rf_name = p, rf_size = 0, rf_tell = 0\<rparr>), c))"

definition card_open_new :: "path \<Rightarrow> card \<Rightarrow> (FRESULT \<times> write_fil) \<times> card" where
  "card_open_new p c =
     (case trip c of (fault, c) \<Rightarrow>
        if fault then ((FR_OTHER 1, \<lparr>wf_name = p, wf_data = []\<rparr>), c)
        else if card_at c p \<noteq> Absent then ((FR_EXIST, \<lparr>wf_name = p, wf_data = []\<rparr>), c)
        else ((FR_OK, \<lparr>wf_name = p, wf_data = []\<rparr>), card_put p (Some []) c))"

definition card_read :: "nat \<Rightarrow> read_fil \<Rightarrow> card \<Rightarrow> (FRESULT \<times> byte list) \<times> read_fil \<times> card" where
  "card_read n r c =
     (case card_at c (rf_name r) of
        File b \<Rightarrow>
          (let got = take n (drop (unat (rf_tell r)) b); t = rf_tell r + of_nat (length got)
           in if unat t = unat (rf_tell r) + length got then ((FR_OK, got), r\<lparr>rf_tell := t\<rparr>, c)
              else ((FR_OTHER 1, []), r, c))
      | _ \<Rightarrow> ((FR_OTHER 1, []), r, c))"

text \<open>A write that fails leaves an empty file, and \<open>f_sync\<close> and \<open>f_close\<close> store what was written.\<close>

definition card_write :: "byte list \<Rightarrow> write_fil \<Rightarrow> card \<Rightarrow> (FRESULT \<times> nat) \<times> write_fil \<times> card" where
  "card_write bs w c =
     (case trip c of (fault, c) \<Rightarrow>
        if fault then ((FR_OTHER 1, 0), w, card_put (wf_name w) (Some []) c)
        else ((FR_OK, length bs), w\<lparr>wf_data := wf_data w @ bs\<rparr>, c))"

definition card_store :: "write_fil \<Rightarrow> card \<Rightarrow> FRESULT \<times> card" where
  "card_store w c =
     (case trip c of (fault, c) \<Rightarrow>
        if fault then (FR_OTHER 1, c) else (FR_OK, card_put (wf_name w) (Some (wf_data w)) c))"

definition card_mkdir :: "path \<Rightarrow> card \<Rightarrow> FRESULT \<times> card" where
  "card_mkdir p c =
     (case trip c of (fault, c) \<Rightarrow>
        if fault then (FR_OTHER 1, c)
        else if card_at c p \<noteq> Absent then (FR_EXIST, c) else (FR_OK, card_put p None c))"

definition card_unlink :: "path \<Rightarrow> card \<Rightarrow> FRESULT \<times> card" where
  "card_unlink p c =
     (case trip c of (fault, c) \<Rightarrow>
        if fault then (FR_OTHER 1, card_drop p c)
        else if card_at c p = Absent then (FR_NO_FILE, c) else (FR_OK, card_drop p c))"

definition card_rename :: "path \<Rightarrow> path \<Rightarrow> card \<Rightarrow> FRESULT \<times> card" where
  "card_rename p q c =
     (case trip c of (fault, c) \<Rightarrow>
        if fault then (FR_OTHER 1, c)
        else (case map_of (card_entries c) (fat_key p) of
            None \<Rightarrow> (FR_NO_FILE, c)
          | Some x \<Rightarrow> if card_at c q \<noteq> Absent then (FR_EXIST, c) else (FR_OK, card_put q x (card_drop p c))))"

text \<open>The names directly under a directory.\<close>

definition children :: "path \<Rightarrow> card \<Rightarrow> (path \<times> bool) list" where
  "children p c =
     map (\<lambda>(k, y). (drop (length p + 1) k, y = None))
       (filter (\<lambda>(k, y). take (length p + 1) k = fat_key p @ [slash] \<and> slash \<notin> set (drop (length p + 1) k))
          (card_entries c))"

definition card_readdir ::
  "(path \<times> bool) list \<Rightarrow> card \<Rightarrow> (FRESULT \<times> FILINFO) \<times> (path \<times> bool) list \<times> card" where
  "card_readdir names c =
     (case names of
        [] \<Rightarrow> ((FR_OK, \<lparr>fname = [], fattrib = 0, fsize = 0\<rparr>), [], c)
      | (n, dir) # names \<Rightarrow> ((FR_OK, \<lparr>fname = n, fattrib = (if dir then AM_DIR else 0), fsize = 0\<rparr>), names, c))"

definition card_ff :: "(card, read_fil, write_fil, (path \<times> bool) list) FatFs" where
  "card_ff =
     \<lparr>f_stat = card_stat, f_open_existing = card_open_existing, f_open_new = card_open_new,
      f_size_r = rf_size, f_size_w = (\<lambda>w. of_nat (length (wf_data w))),
      f_tell_r = rf_tell, f_tell_w = (\<lambda>w. of_nat (length (wf_data w))),
      f_lseek = (\<lambda>n r c. (FR_OK, r\<lparr>rf_tell := n\<rparr>, c)),
      f_read = card_read, f_write = card_write,
      f_sync = (\<lambda>w c. case card_store w c of (st, c) \<Rightarrow> (st, w, c)),
      f_close_r = (\<lambda>r c. (FR_OK, c)), f_close_w = card_store,
      f_mkdir = card_mkdir, f_unlink = card_unlink, f_rename = card_rename,
      f_opendir = (\<lambda>p c. ((if card_at c p = Folder then FR_OK else FR_NO_PATH, children p c), c)),
      f_readdir = card_readdir, f_closedir = (\<lambda>names c. (FR_OK, c)),
      f_getfree = (\<lambda>p c. ((FR_OK, 0x00100000, Some \<lparr>csize = 64, sector_bytes = 512,
         n_fatent = 0x00100002, database = 8192, volbase = 0\<rparr>), c)),
      fsize_holds = (\<lambda>x. x \<le> 0xFFFFFFFF), r_name = rf_name, w_name = wf_name\<rparr>"

section \<open>The laws hold\<close>

lemma card_at_key: "fat_key p = fat_key q \<Longrightarrow> card_at c p = card_at c q"
  by (simp add: card_at_def)

lemma map_of_filter_key: "map_of (filter (\<lambda>(k, y). k \<noteq> a) xs) = (map_of xs)(a := None)"
  by (induction xs) (auto simp: fun_eq_iff)

lemma card_at_put:
  "card_at (card_put p x c) q =
     (if fat_key q = fat_key p then (case x of None \<Rightarrow> Folder | Some b \<Rightarrow> File b) else card_at c q)"
  by (simp add: card_at_def card_put_def map_of_filter_key split: option.split)

lemma card_at_drop: "card_at (card_drop p c) q = (if fat_key q = fat_key p then Absent else card_at c q)"
  by (simp add: card_at_def card_drop_def map_of_filter_key)

lemma trip_at: "trip c = (b, c') \<Longrightarrow> card_at c' = card_at c \<and> card_entries c' = card_entries c"
  by (auto simp: trip_def card_at_def split: list.split_asm)

lemma card_rename_at:
  "map_of (card_entries c) k = Some x \<Longrightarrow> k = fat_key p \<Longrightarrow> card_at c p = (case x of None \<Rightarrow> Folder | Some b \<Rightarrow> File b)"
  by (simp add: card_at_def split: option.split)

lemma fits_of_nat: "fits n \<Longrightarrow> unat (of_nat n :: u64) = n"
  by (simp add: fits_def)

lemma AM_DIR_bits: "AM_DIR \<noteq> 0"
  by (simp add: AM_DIR_def)

lemma card_at_plain: "card_at c p = Absent \<or> card_at c p = Folder \<or> (\<exists>b. card_at c p = File b)"
  by (simp add: card_at_def split: option.split)

lemma card_stat_laws:
  assumes "card_stat p c = ((st, info), c')"
  shows "c' = c \<and> (IsMissing st \<longrightarrow> card_at c p = Absent) \<and>
    (st = FR_OK \<longrightarrow> (fattrib info AND AM_DIR \<noteq> 0 \<longrightarrow> card_at c p = Folder) \<and>
       (fattrib info AND AM_DIR = 0 \<longrightarrow> (\<exists>b. card_at c p = File b \<and> length b = unat (fsize info))))"
  using assms card_at_plain [of c p]
  by (cases "card_at c p") (auto simp: card_stat_def IsMissing_def fits_of_nat AM_DIR_bits split: if_split_asm)

lemma card_open_existing_laws:
  "card_open_existing p c = ((st, r), c') \<Longrightarrow> c' = c \<and> rf_name r = p \<and> rf_tell r = 0"
  by (cases "card_at c p") (auto simp: card_open_existing_def)

lemma card_read_laws:
  assumes "card_read n r c = ((st, bs), r', c')"
  shows "c' = c \<and> rf_name r' = rf_name r \<and> (st = FR_OK \<longrightarrow>
    (\<exists>b. card_at c (rf_name r) = File b \<and> bs = take n (drop (unat (rf_tell r)) b) \<and>
      unat (rf_tell r') = unat (rf_tell r) + length bs))"
proof (cases "card_at c (rf_name r)")
  case (File b)
  with assms show ?thesis by (auto simp: card_read_def Let_def simp del: length_take split: if_split_asm)
qed (use assms in \<open>auto simp: card_read_def\<close>)

lemma card_readdir_laws: "card_readdir names c = (x, names', c') \<Longrightarrow> c' = c"
  by (auto simp: card_readdir_def split: list.split_asm prod.split_asm)

lemma card_reads: "fatfs_reads card_ff card_at"
proof (unfold_locales, unfold card_ff_def FatFs.simps, goal_cases)
  case (1 p q d) then show ?case by (rule card_at_key)
next
  case (3 p d x d') then show ?case using card_stat_laws by (metis prod.exhaust)
next
  case (7 p d x d') then show ?case using card_open_existing_laws by (metis prod.exhaust)
next
  case (10 n r d x r' d') then show ?case using card_read_laws by (metis prod.exhaust)
qed (auto simp: card_at_plain dest!: card_stat_laws card_open_existing_laws card_read_laws card_readdir_laws)

lemmas card_changes = card_open_new_def card_write_def card_store_def card_mkdir_def card_unlink_def card_rename_def
  card_at_put card_at_drop IsMissing_def

lemma card_rename_moves:
  "card_rename p q c = (st, c') \<Longrightarrow>
    (\<forall>x. fat_key x \<noteq> fat_key p \<longrightarrow> fat_key x \<noteq> fat_key q \<longrightarrow> card_at c' x = card_at c x) \<and>
    (\<forall>b. card_at c p = File b \<longrightarrow> (st = FR_OK \<longrightarrow> card_at c' q = File b) \<and>
      (card_at c' q = card_at c q \<or> card_at c' q = File b))"
  by (auto simp: card_rename_def card_at_put card_at_drop dest!: trip_at split: prod.split_asm if_split_asm option.split_asm)
    (auto simp: card_at_def split: option.split_asm option.split)

lemma card_open_new_laws:
  assumes "card_open_new p c = ((st, w), c')"
  shows "(\<forall>q. fat_key q \<noteq> fat_key p \<longrightarrow> card_at c' q = card_at c q) \<and>
    (st = FR_OK \<longrightarrow> card_at c' p = File [] \<and> wf_name w = p \<and> wf_data w = [])"
  using assms by (auto simp: card_changes dest: trip_at split: prod.split_asm if_split_asm)

lemma card_write_laws:
  assumes "card_write bs w c = ((st, n), w', c')"
  shows "(\<forall>q. fat_key q \<noteq> fat_key (wf_name w) \<longrightarrow> card_at c' q = card_at c q) \<and> wf_name w' = wf_name w \<and>
    (st = FR_OK \<longrightarrow> wf_data w' = wf_data w @ bs \<and> card_at c' = card_at c)"
  using assms by (auto simp: card_changes dest: trip_at split: prod.split_asm if_split_asm)

lemma card_store_laws:
  assumes "card_store w c = (st, c')"
  shows "(\<forall>q. fat_key q \<noteq> fat_key (wf_name w) \<longrightarrow> card_at c' q = card_at c q) \<and>
    (st = FR_OK \<longrightarrow> card_at c' (wf_name w) = File (wf_data w))"
  using assms by (auto simp: card_changes dest: trip_at split: prod.split_asm if_split_asm)

lemma card_mkdir_laws:
  assumes "card_mkdir p c = (st, c')"
  shows "(\<forall>q. fat_key q \<noteq> fat_key p \<longrightarrow> card_at c' q = card_at c q) \<and>
    (card_at c' p = card_at c p \<or> card_at c p = Absent \<and> card_at c' p = Folder)"
  using assms by (auto simp: card_changes dest: trip_at split: prod.split_asm if_split_asm)

lemma card_unlink_laws:
  assumes "card_unlink p c = (st, c')"
  shows "(\<forall>q. fat_key q \<noteq> fat_key p \<longrightarrow> card_at c' q = card_at c q) \<and>
    (st = FR_OK \<or> IsMissing st \<longrightarrow> card_at c' p = Absent) \<and>
    (card_at c' p = card_at c p \<or> card_at c' p = Absent)"
  using assms by (auto simp: card_changes dest: trip_at split: prod.split_asm if_split_asm)

interpretation card: fatfs card_ff card_at wf_data
proof (intro fatfs.intro card_reads fatfs_axioms.intro, unfold card_ff_def FatFs.simps, goal_cases)
  case (1 p d x d' q)
  then show ?case using card_open_new_laws by (metis prod.exhaust)
next
  case (3 bs w d x w' d' q)
  then show ?case using card_write_laws by (metis prod.exhaust)
next
  case (4 bs w d x w' d')
  then show ?case using card_write_laws by (metis prod.exhaust)
next
  case 16
  then show ?case using card_rename_moves by blast
next
  case 17
  then show ?case using card_rename_moves by blast
next
  case 18
  then show ?case using card_rename_moves by blast
qed (auto dest!: card_open_new_laws card_write_laws card_store_laws card_mkdir_laws card_unlink_laws split: prod.split_asm)

end
