(* ===== verification/Fatfs_Removal.thy ===== *)
theory Fatfs_Removal
  imports Fatfs_Card
begin

text \<open>
  \<open>RemoveDirectory\<close> of \<open>fatfs_update_filesystem.cpp\<close> ends: a card holds finitely many entries and
  a directory lists finitely many names, every turn of the walk either removes an entry or goes
  down to a longer path, and the buffer for the path bounds how long it can get.  So there is an
  amount of fuel, known from the card before the call, with which the model always has a result.
\<close>

section \<open>The laws used\<close>

text \<open>
  \<open>entry_count\<close> is the number of files and directories of the card, \<open>names_left\<close> the number of
  names a directory that is open has still to list.
\<close>

locale fatfs_finite =
  fixes ff :: "('d, 'r, 'w, 'q) FatFs" and entry_count :: "'d \<Rightarrow> nat" and names_left :: "'q \<Rightarrow> nat"
  assumes unlink_removes: "f_unlink ff p d = (FR_OK, d') \<Longrightarrow> entry_count d' < entry_count d"
    and stat_count: "f_stat ff p d = (r, d') \<Longrightarrow> entry_count d' = entry_count d"
    and opendir_count: "f_opendir ff p d = (opened, d') \<Longrightarrow> entry_count d' = entry_count d"
    and readdir_count: "f_readdir ff dir d = (answer, dir', d') \<Longrightarrow> entry_count d' = entry_count d"
    and closedir_count: "f_closedir ff dir d = (st, d') \<Longrightarrow> entry_count d' = entry_count d"
    and opendir_names: "f_opendir ff p d = ((FR_OK, dir), d') \<Longrightarrow> names_left dir \<le> entry_count d"
    and readdir_names: "f_readdir ff dir d = ((FR_OK, info), dir', d') \<Longrightarrow> fname info \<noteq> [] \<Longrightarrow>
      names_left dir' < names_left dir"
begin

lemma next_child_count: "next_child ff current fuel dir d = (x, dir', d') \<Longrightarrow> entry_count d' = entry_count d"
  by (induction fuel arbitrary: dir d) (auto split: prod.split_asm if_split_asm dest: readdir_count)

lemma next_child_returns: "names_left dir < fuel \<Longrightarrow> fst (next_child ff current fuel dir d) \<noteq> None"
proof (induction fuel arbitrary: dir d)
  case (Suc fuel)
  obtain st info dir' d' where r: "f_readdir ff dir d = ((st, info), dir', d')" by (metis prod.exhaust)
  show ?case
  proof (cases "st = FR_OK \<and> fname info \<noteq> []")
    case True
    with readdir_names [of dir d info dir' d'] r Suc.prems have "names_left dir' < fuel" by auto
    from Suc.IH [OF this] show ?thesis by (simp add: r)
  qed (simp add: r)
qed simp

lemma next_child_longer:
  "next_child ff current fuel dir d = (Some (Child child is_dir), dir', d') \<Longrightarrow>
   length current < length child \<and> length child < kFatFsUpdateFileSystemAbsolutePathBytes"
  by (induction fuel arbitrary: dir d) (auto split: prod.split_asm if_split_asm)

text \<open>Each turn lowers the entries, or keeps them and makes the path longer.\<close>

definition walk_measure :: "path \<Rightarrow> 'd \<Rightarrow> nat" where
  "walk_measure current d =
     entry_count d * (kFatFsUpdateFileSystemAbsolutePathBytes + 1) +
     (kFatFsUpdateFileSystemAbsolutePathBytes - length current)"

lemma walk_measure_removed:
  assumes "entry_count d' < entry_count d"
  shows "walk_measure p d' < walk_measure q d"
proof -
  let ?k = "kFatFsUpdateFileSystemAbsolutePathBytes"
  have "Suc (entry_count d') * (?k + 1) \<le> entry_count d * (?k + 1)" using assms by (intro mult_le_mono) simp_all
  then show ?thesis unfolding walk_measure_def by (simp add: algebra_simps)
qed

lemma walk_measure_deeper:
  "entry_count d' = entry_count d \<Longrightarrow> length p < length q \<Longrightarrow>
   length q < kFatFsUpdateFileSystemAbsolutePathBytes \<Longrightarrow> walk_measure q d' < walk_measure p d"
  by (simp add: walk_measure_def)

lemma remove_walk_returns:
  "walk_measure current d + entry_count d + 1 < fuel \<Longrightarrow> fst (remove_walk ff root fuel current d) \<noteq> None"
proof (induction fuel arbitrary: current d)
  case (Suc fuel)
  obtain st dir d1 where o: "f_opendir ff current d = ((st, dir), d1)" by (metis prod.exhaust)
  show ?case
  proof (cases "st = FR_OK")
    case True
    obtain x dir' d2 where n: "next_child ff current fuel dir d1 = (x, dir', d2)" by (metis prod.exhaust)
    obtain cl d3 where c: "f_closedir ff dir' d2 = (cl, d3)" by (metis prod.exhaust)
    have e: "entry_count d3 = entry_count d"
      using opendir_count [OF o] next_child_count [OF n] closedir_count [OF c] by simp
    have "names_left dir < fuel" using opendir_names [of current d dir d1] o True Suc.prems by auto
    from next_child_returns [OF this] n obtain ch where x: "x = Some ch" by (metis fst_conv not_None_eq)
    have removed: "fst (remove_walk ff root fuel p d4) \<noteq> None" if "f_unlink ff q d3 = (FR_OK, d4)" for p q d4
    proof (rule Suc.IH)
      have "entry_count d4 < entry_count d" using unlink_removes [OF that] e by simp
      with walk_measure_removed [OF this, of p current] Suc.prems
      show "walk_measure p d4 + entry_count d4 + 1 < fuel" by simp
    qed
    show ?thesis
    proof (cases ch)
      case (Child child is_dir)
      have deeper: "fst (remove_walk ff root fuel child d3) \<noteq> None"
        using Suc.IH [of child d3] walk_measure_deeper [OF e, of current child] next_child_longer n x Child Suc.prems e
        by fastforce
      obtain ul d4 where u: "f_unlink ff child d3 = (ul, d4)" by (metis prod.exhaust)
      show ?thesis using deeper removed [of child d4 current] by (auto simp: o True n x Child c u)
    next
      case NoChild
      obtain ul d4 where u: "f_unlink ff current d3 = (ul, d4)" by (metis prod.exhaust)
      obtain af d5 where a: "StatAbsolute ff root d4 = (af, d5)" by (metis prod.exhaust)
      show ?thesis using removed [of current d4]
        by (auto simp: o True n x NoChild c u a split: option.split)
    qed (simp_all add: o True n x c)
  qed (simp add: o)
qed simp

lemma StatAbsolute_count: "StatAbsolute ff p d = (x, d') \<Longrightarrow> entry_count d' = entry_count d"
  by (auto simp: StatAbsolute_def split: prod.split_asm if_split_asm dest: stat_count)

lemma RemoveDirectory_returns:
  assumes "(entry_count (disk v) + 1) * (kFatFsUpdateFileSystemAbsolutePathBytes + 2) < fuel"
  shows "fst (fatfs_RemoveDirectory ff fuel p recursive v) \<noteq> None"
proof (cases "resolved v p")
  case (Some root)
  obtain st d1 where s: "StatAbsolute ff root (disk v) = (st, d1)" by (metis prod.exhaust)
  have "walk_measure root d1 + entry_count d1 + 1 < fuel"
    using assms StatAbsolute_count [OF s] by (simp add: walk_measure_def algebra_simps)
  from remove_walk_returns [OF this] obtain r d2 where "remove_walk ff root fuel root d1 = (Some r, d2)"
    by (metis not_None_eq prod.exhaust_sel)
  then show ?thesis
    by (cases "f_unlink ff root d1") (auto simp: fatfs_RemoveDirectory_def Some s split: option.split)
qed (simp add: fatfs_RemoveDirectory_def)

end

section \<open>The card in memory\<close>

lemma card_drop_count:
  assumes "card_at c p \<noteq> Absent"
  shows "length (card_entries (card_drop p c)) < length (card_entries c)"
proof -
  obtain x where "map_of (card_entries c) (fat_key p) = Some x"
    using assms by (cases "map_of (card_entries c) (fat_key p)") (auto simp: card_at_def)
  then have "(fat_key p, x) \<in> set (card_entries c)" by (rule map_of_SomeD)
  from length_filter_less [OF this, of "\<lambda>(k, y). k \<noteq> fat_key p"] show ?thesis by (simp add: card_drop_def)
qed

interpretation removal: fatfs_finite card_ff "\<lambda>c. length (card_entries c)" length
proof unfold_locales
  fix p c c' assume "f_unlink card_ff p c = (FR_OK, c')"
  then show "length (card_entries c') < length (card_entries c)"
    using card_drop_count [of _ p]
    by (auto simp: card_ff_def card_unlink_def trip_def card_at_def card_drop_def split: list.split_asm if_split_asm)
next
  fix p c r c' assume "f_stat card_ff p c = (r, c')"
  then show "length (card_entries c') = length (card_entries c)"
    by (auto simp: card_ff_def card_stat_def split: node.split_asm if_split_asm)
next
  fix p c dir c' assume "f_opendir card_ff p c = ((FR_OK, dir), c')"
  then show "length dir \<le> length (card_entries c)"
    by (auto simp: card_ff_def children_def length_filter_le)
next
  fix dir c info dir' c' assume "f_readdir card_ff dir c = ((FR_OK, info), dir', c')" "fname info \<noteq> []"
  then show "length dir' < length dir" by (auto simp: card_ff_def card_readdir_def split: list.split_asm)
qed (auto simp: card_ff_def card_readdir_def split: list.split_asm)

end
