(* ===== verification/Installer_Safety.thy ===== *)
theory Installer_Safety
  imports Demo_Archive Fatfs_Removal
begin

text \<open>
  The installer over the FatFs adapter: the properties of the composition of
  \<open>simple_update_installer.cpp\<close>, \<open>zip_reader.cpp\<close> and \<open>fatfs_update_filesystem.cpp\<close>, for every card
  that behaves as FatFs documents and may fail at any operation.  The concrete data at the end are for
  the witnesses here and the runs of \<open>Demo_Update\<close>, on the card of \<open>Fatfs_Card\<close>.
\<close>

section \<open>The properties\<close>

text \<open>The installer over the adapter, and what is at the paths of the card.\<close>

abbreviation install_on ::
  "('d, 'r, 'w, 'q) FatFs \<Rightarrow> 'i inflater \<Rightarrow> 'i \<Rightarrow> SeekableZipSource option \<Rightarrow> ManifestAsset \<Rightarrow> bool \<Rightarrow>
   bool \<Rightarrow> SimpleUpdateWorkspace \<Rightarrow> progress \<Rightarrow> ('d, 'r, 'w) volume \<Rightarrow> SimpleUpdateResult \<times> ('d, 'r, 'w) volume" where
  "install_on ff \<equiv> InstallArchive (Some (FatFsUpdateFileSystem ff))"

text \<open>
  C5: the adapter implements the file system contract of the updater: over every card that
  behaves as FatFs documents, all laws of \<open>update_volume\<close> hold of its operations.
\<close>

theorem fatfs_implements_update_volume:
  assumes "fatfs ff content w_data"
  shows "update_volume (FatFsUpdateFileSystem ff) (fatfs_node ff content w_data) fatfs_idle"
  using assms by (rule fatfs_update_volume)

theorem fatfs_implements_update_volume_witness:
  "update_volume (FatFsUpdateFileSystem card_ff) (fatfs_node card_ff card_at wf_data) fatfs_idle"
  by (rule fatfs_implements_update_volume) (rule card.fatfs_axioms)

text \<open>
  C1: at every moment an update may stop, each name on the card other than the temporary file is
  as it was, or is a manifest file, not one to preserve, which is missing or has exactly the
  released bytes, or is a deleted name that is gone, or is a new directory of the manifest.  No
  failure of the card, the archive or the power leaves a torn file under its own name.  A manifest
  file can really be missing: \<open>Rename\<close> of the adapter removes the old target before \<open>f_rename\<close>, and
  an update that stops between the two has neither the old nor the new file under that name (the
  witness in \<open>Demo_Update\<close> is such a run, over the build identity).
\<close>

theorem interrupted_update_names:
  assumes "fatfs ff content w_data" and "digests_sized asset" and "quiet (fatfs_node ff content w_data v)"
    and "install_on ff inflate d archive asset reset auth w progress v = (r, v')"
    and "fat_key q \<noteq> fat_key kSimpleUpdateTemporaryPath"
  shows "fatfs_node ff content w_data v' q = fatfs_node ff content w_data v q \<or>
    (\<exists>f \<in> set (files asset). fat_key (file_path f) = fat_key q \<and>
       \<not> (preserves reset f \<and> is_file (fatfs_node ff content w_data v q)) \<and>
       (fatfs_node ff content w_data v' q = Absent \<or> release_node f (fatfs_node ff content w_data v' q))) \<or>
    (\<exists>p \<in> gone asset. fat_key p = fat_key q \<and> fatfs_node ff content w_data v' q = Absent) \<or>
    (fat_key q \<in> fat_key ` set (directories asset) \<and> fatfs_node ff content w_data v q = Absent \<and>
     fatfs_node ff content w_data v' q = Folder)"
  using InstallArchive_cases [OF assms(4) assms(2)]
proof
  assume i: "asset_ok asset \<and> Install (Some (FatFsUpdateFileSystem ff)) inflate d (map_option (OpenArchive w) archive) asset
    reset auth w progress v = (r, v')"
  show ?thesis
    using update_volume.Install_names [OF fatfs_update_volume [OF assms(1)] conjunct1 [OF i] conjunct2 [OF i] assms(3,5)] .
qed simp

text \<open>
  C2: the build identity is committed last: when its name on the card differs from before, every
  other file of the manifest is in place (preserved, unchanged or with the released bytes) and
  every signed deletion is done.  So an interrupted update still looks like the old build and is
  offered again.
\<close>

theorem build_identity_last:
  assumes "fatfs ff content w_data" and "digests_sized asset" and "quiet (fatfs_node ff content w_data v)"
    and "install_on ff inflate d archive asset reset auth w progress v = (r, v')"
    and "b \<in> set (files asset)" and "IsBuildIdentity b"
  shows "fatfs_node ff content w_data v' (file_path b) = fatfs_node ff content w_data v (file_path b) \<or>
    (\<forall>f \<in> set (files asset) - {b}. in_place reset (fatfs_node ff content w_data v) (fatfs_node ff content w_data v') f) \<and>
    (\<forall>p \<in> gone asset. fatfs_node ff content w_data v' p = Absent)"
  using InstallArchive_cases [OF assms(4) assms(2)]
proof
  assume i: "asset_ok asset \<and> Install (Some (FatFsUpdateFileSystem ff)) inflate d (map_option (OpenArchive w) archive) asset
    reset auth w progress v = (r, v')"
  show ?thesis
    using update_volume.Install_commit [OF fatfs_update_volume [OF assms(1)] conjunct1 [OF i] conjunct2 [OF i] assms(3,5,6)] by blast
qed simp

text \<open>
  C3: an update that reports success has installed the release: every file of the manifest is in
  place, every signed deletion and replacement is done, and the temporary file is gone.
\<close>

theorem successful_update_complete:
  assumes "fatfs ff content w_data" and "digests_sized asset" and "quiet (fatfs_node ff content w_data v)"
    and "install_on ff inflate d archive asset reset auth w progress v = (r, v')"
    and "update_status r = UpdateOk"
  shows "(\<forall>f \<in> set (files asset). in_place reset (fatfs_node ff content w_data v) (fatfs_node ff content w_data v') f) \<and>
    (\<forall>p \<in> gone asset. fatfs_node ff content w_data v' p = Absent) \<and>
    fatfs_node ff content w_data v' kSimpleUpdateTemporaryPath = Absent"
  using InstallArchive_cases [OF assms(4) assms(2)]
proof
  assume i: "asset_ok asset \<and> Install (Some (FatFsUpdateFileSystem ff)) inflate d (map_option (OpenArchive w) archive) asset
    reset auth w progress v = (r, v')"
  show ?thesis
    using update_volume.Install_success [OF fatfs_update_volume [OF assms(1)] conjunct1 [OF i] conjunct2 [OF i] assms(3,5)] .
qed (use assms(5) in simp)

text \<open>
  C14: an update that is refused changes nothing: unless it reports success, or a failure of the
  file system, the extraction or the publication, the card is as it was.
\<close>

theorem refused_update_changes_nothing:
  assumes "fatfs ff content w_data" and "digests_sized asset" and "quiet (fatfs_node ff content w_data v)"
    and "install_on ff inflate d archive asset reset auth w progress v = (r, v')"
    and "update_status r \<notin> {UpdateOk, ExtractFailed, PublishFailed, FileSystemError}"
  shows "fatfs_node ff content w_data v' = fatfs_node ff content w_data v"
  using InstallArchive_cases [OF assms(4) assms(2)]
proof
  assume i: "asset_ok asset \<and> Install (Some (FatFsUpdateFileSystem ff)) inflate d (map_option (OpenArchive w) archive) asset
    reset auth w progress v = (r, v')"
  show ?thesis
    using update_volume.Install_refused [OF fatfs_update_volume [OF assms(1)] conjunct1 [OF i] conjunct2 [OF i] assms(3,5)] .
qed simp

section \<open>A concrete release\<close>

text \<open>
  A card with the build identity of a release already in place, an empty file, and an old file
  that the release deletes.
\<close>

definition demo_root :: path where
  "demo_root = bytes_of ''SYS:/''"

definition demo_old :: path where
  "demo_old = bytes_of ''OLD.TXT''"

definition demo_card :: card where
  "demo_card = \<lparr>card_entries = [(fat_key (demo_root @ demo_identity), Some []), (fat_key (demo_root @ demo_old), Some [1, 2])],
     card_faults = []\<rparr>"

definition demo_volume :: "(card, read_fil, write_fil) volume" where
  "demo_volume = new_FatFsVolume (Some (bytes_of ''SYS:'')) PortableRelease demo_card"

definition demo_asset :: ManifestAsset where
  "demo_asset = \<lparr>files = [\<lparr>file_path = demo_identity, file_size = 0, file_sha256 = sha256 [], policy = Metadata,
       file_compression = ManifestStore\<rparr>],
     directories = [], deletions = [demo_old], replacements = [], configuration_reset_required = False\<rparr>"

definition demo_workspace :: SimpleUpdateWorkspace where
  "demo_workspace = \<lparr>have_zip_entries = True, zip_entry_capacity = 8, have_expected_files = True,
     expected_file_capacity = 8, have_expected_directories = True, expected_directory_capacity = 8,
     have_file_actions = True, file_action_capacity = 8, have_zip_workspace = True, have_io_buffer = True,
     io_buffer_size = 512\<rparr>"

definition demo_at :: "(path \<times> byte list option) list \<Rightarrow> read_fil ReadHandle option list \<Rightarrow> (card, read_fil, write_fil) volume" where
  "demo_at es handles = \<lparr>disk = \<lparr>card_entries = es, card_faults = []\<rparr>, configured = True, path_policy = PortableRelease,
     volume_root = demo_root, read_handles = handles, write_handle = None\<rparr>"

definition key_identity :: path where
  "key_identity = fat_key (demo_root @ demo_identity)"

definition key_old :: path where
  "key_old = fat_key (demo_root @ demo_old)"

lemma demo_names:
  "key_identity \<noteq> key_old" "fat_key (demo_root @ kSimpleUpdateTemporaryPath) \<noteq> key_identity"
  "fat_key (demo_root @ kSimpleUpdateTemporaryPath) \<noteq> key_old"
  by code_simp+

lemma demo_volume_eq: "demo_volume = demo_at [(key_identity, Some []), (key_old, Some [1, 2])] [None, None]"
proof -
  have "NormalizeVolume (Some (bytes_of ''SYS:'')) = Some demo_root" by code_simp
  then show ?thesis
    by (simp add: demo_volume_def new_FatFsVolume_def Configure_def AnyHandleOpen_def demo_at_def demo_card_def
        key_identity_def key_old_def kFatFsUpdateFileSystemReadHandles_def numeral_2_eq_2)
qed

lemma demo_resolved:
  "resolved (demo_at es hs) demo_identity = Some (demo_root @ demo_identity)"
  "resolved (demo_at es hs) demo_old = Some (demo_root @ demo_old)"
  "resolved (demo_at es hs) kSimpleUpdateTemporaryPath = Some (demo_root @ kSimpleUpdateTemporaryPath)"
proof -
  have v: "ValidateRelativePath demo_identity PortableRelease = Some 14" "ValidateRelativePath demo_old PortableRelease = Some 7"
    "ValidateRelativePath kSimpleUpdateTemporaryPath PortableRelease = Some 11"
    "0 \<notin> set demo_identity" "0 \<notin> set demo_old" "0 \<notin> set kSimpleUpdateTemporaryPath" "length demo_root = 5"
    by code_simp+
  then show "resolved (demo_at es hs) demo_identity = Some (demo_root @ demo_identity)"
    "resolved (demo_at es hs) demo_old = Some (demo_root @ demo_old)"
    "resolved (demo_at es hs) kSimpleUpdateTemporaryPath = Some (demo_root @ kSimpleUpdateTemporaryPath)"
    by (simp_all add: Resolve_def demo_at_def kFatFsUpdateFileSystemAbsolutePathBytes_def)
qed

lemma demo_StatAbsolute:
  "StatAbsolute card_ff p c =
     (case map_of (card_entries c) (fat_key p) of
        None \<Rightarrow> (Some \<lparr>stat_type = NodeMissing, stat_size = 0\<rparr>, c)
      | Some None \<Rightarrow> (Some \<lparr>stat_type = NodeDirectory, stat_size = 0\<rparr>, c)
      | Some (Some b) \<Rightarrow>
          if fits (length b) then (Some \<lparr>stat_type = NodeRegularFile, stat_size = of_nat (length b)\<rparr>, c) else (None, c))"
  by (simp add: StatAbsolute_def card_ff_def card_stat_def card_at_def IsMissing_def AM_DIR_def split: option.split)

lemmas demo_ops = FatFsUpdateFileSystem_def UpdateFileSystem.simps

lemma demo_geometry:
  "QueryVolumeGeometry card_ff root all c =
     (Some (0x0000000800000000, 0x8000, if all then 0x0000000800000000 + 0x400000 + 0x7e00 else 0), c)"
  unfolding QueryVolumeGeometry_def card_ff_def by (cases all) (simp_all add: Let_def)

definition hash_after :: "Sha256 option \<Rightarrow> nat \<Rightarrow> bool" where
  "hash_after os n \<longleftrightarrow> (\<exists>s m. os = Some s \<and> sha_message s m \<and> length m = n)"

lemma hash_after_feed: "hash_after os n \<Longrightarrow> n + length xs < 2 ^ 64 \<Longrightarrow> hash_after (sha_feed xs os) (n + length xs)"
  using Sha256_Update_message by (fastforce simp: hash_after_def sha_feed_def)

lemma hash_after_final: "hash_after os n \<Longrightarrow> 8 * n < 2 ^ 64 \<Longrightarrow> \<exists>digest. Option.bind os (\<lambda>s. fst (Sha256_Final True s)) = Some digest"
  using Sha256_Final_message by (fastforce simp: hash_after_def)

lemma hash_after_u64: "hash_after os n \<Longrightarrow> n + 8 < 2 ^ 64 \<Longrightarrow> hash_after (HashU64 x os) (n + 8)"
  unfolding HashU64_def by (drule hash_after_feed [where xs = "map (\<lambda>index. ucast (drop_bit (index * 8) x)) [0..<8]"]) simp_all

lemma hash_after_bytes:
  "hash_after os n \<Longrightarrow> n + 8 + length xs < 2 ^ 64 \<Longrightarrow> hash_after (HashSizedBytes xs os) (n + 8 + length xs)"
  unfolding HashSizedBytes_def by (intro hash_after_feed hash_after_u64) simp_all

lemma demo_binding:
  "\<exists>digest. ComputeExpectedInventoryBinding demo_reader (BuildExpectedInventory demo_asset) = Some digest"
proof -
  let ?e = "BuildExpectedInventory demo_asset" and ?entry = "hd (entries demo_reader)"
  let ?h1 = "HashSizedBytes (bytes_of ''bmx-zip-validated-inventory-v1'') (Some Sha256_Reset)"
  let ?h2 = "HashU64 0 (HashU64 1 ?h1)"
  let ?h3 = "HashSizedBytes demo_identity (sha_feed [0x46] ?h2)"
  let ?h4 = "sha_feed (take 32 (sha256 [])) (sha_feed [1] (sha_feed [0] (HashU64 0 ?h3)))"
  have "hash_after (Some Sha256_Reset) 0" using sha_message_Reset by (auto simp: hash_after_def)
  from hash_after_bytes [OF this, of "bytes_of ''bmx-zip-validated-inventory-v1''"]
  have "hash_after ?h1 38" by simp
  from hash_after_u64 [OF hash_after_u64 [OF this, of 1], of 0] have "hash_after ?h2 54" by simp
  from hash_after_feed [OF this, of "[0x46]"] have "hash_after (sha_feed [0x46] ?h2) 55" by simp
  from hash_after_bytes [OF this, of demo_identity] have "hash_after ?h3 77" by (simp add: demo_identity_def)
  from hash_after_u64 [OF this, of 0] have "hash_after (HashU64 0 ?h3) 85" by simp
  from hash_after_feed [OF this, of "[0]"] have "hash_after (sha_feed [0] (HashU64 0 ?h3)) 86" by simp
  from hash_after_feed [OF this, of "[1]"] have "hash_after (sha_feed [1] (sha_feed [0] (HashU64 0 ?h3))) 87" by simp
  from hash_after_feed [OF this, of "take 32 (sha256 [])"] have "hash_after ?h4 119" by simp
  from hash_after_final [OF this] obtain digest where d: "Option.bind ?h4 (\<lambda>s. fst (Sha256_Final True s)) = Some digest"
    by auto
  have "bind_entry ?e ?entry ?h2 = ?h4"
    by (simp add: bind_entry_def demo_reader_def demo_entry_def demo_asset_def BuildExpectedInventory_def FindExpectedFile_def)
  with d show ?thesis
    by (simp add: ComputeExpectedInventoryBinding_def demo_reader_def demo_entry_def BuildExpectedInventory_def demo_asset_def Let_def)
qed

lemma demo_inventory: "VerifyExpectedInventory demo_reader (BuildExpectedInventory demo_asset) = ZipOk"
proof -
  have "demo_identity \<noteq> []" by (simp add: demo_identity_def)
  then show ?thesis
    by (simp add: VerifyExpectedInventory_def demo_reader_def demo_entry_def BuildExpectedInventory_def demo_asset_def find_entry_def)
qed

lemma demo_manifest: "check_manifest demo_asset = Inr 0"
proof -
  have "\<not> IsReservedPath demo_identity" "\<not> IsReservedPath demo_old" "\<not> FatPathEqual demo_old demo_identity"
    "IsBuildIdentity (hd (files demo_asset))" by (code_simp, code_simp, code_simp, simp add: demo_asset_def IsBuildIdentity_def demo_identity_def FatPathEqual_key)
  then show ?thesis by (simp add: check_manifest_def demo_asset_def AddWithoutOverflow_def)
qed

lemma demo_opened: "OpenArchive demo_workspace demo_source = (ZipOk, demo_reader)"
  by (simp add: OpenArchive_def demo_workspace_def demo_open)
    (simp add: demo_reader_def ZipReader.truncate_def ZipReader.extend_def ArchiveReader.fields_def)

section \<open>A refused update\<close>

lemma demo_sized: "digests_sized demo_asset"
  by (simp add: digests_sized_def demo_asset_def)

lemma demo_quiet: "quiet (fatfs_node card_ff card_at wf_data (demo_at es hs))"
  by (auto simp: quiet_def fatfs_node_def writing_at_def demo_at_def card_at_def split: option.split)

lemmas demo_hyps = card.fatfs_axioms demo_sized demo_quiet [of "[(key_identity, Some []), (key_old, Some [1, 2])]"
  "[None, None]", folded demo_volume_eq]

theorem refused_update_changes_nothing_witness:
  "fatfs_node card_ff card_at wf_data (snd (install_on card_ff (\<lambda>d inp room. undefined) () (Some demo_source)
     demo_asset False False demo_workspace None demo_volume)) = fatfs_node card_ff card_at wf_data demo_volume"
proof -
  let ?run = "install_on card_ff (\<lambda>d inp room. undefined) () (Some demo_source) demo_asset False False
    demo_workspace None demo_volume"
  have "update_status (fst ?run) = UpdateInvalidArgument" by (simp add: InstallArchive_def Install_def Result_def)
  then have "update_status (fst ?run) \<notin> {UpdateOk, ExtractFailed, PublishFailed, FileSystemError}" by simp
  from refused_update_changes_nothing [OF demo_hyps _ this, of "\<lambda>d inp room. undefined" "()"
      "Some demo_source" False False demo_workspace None "snd ?run"]
  show ?thesis by simp
qed

section \<open>The adapter by itself\<close>

text \<open>
  C19: a file whose \<open>Sync\<close> succeeded has been read back from the card: the path then holds a file
  of exactly the size that was written, with the same SHA-256, whatever the calls which wrote it
  did.  The laws used are those of the functions that read.
\<close>

theorem synced_file_read_back:
  assumes "fatfs_reads ff content"
    and "VerifySyncedWrite ff is_configured handle d = (True, handle', d')"
    and "sha_message (write_sha256 handle) m" and "write_count handle = of_nat (length m)"
  shows "\<exists>c. content d' (absolute_path handle) = File c \<and> length c = length m \<and> sha256 c = sha256 m"
  using fatfs_reads.VerifySyncedWrite_read_back [OF assms(1,2,3,4)] .

definition demo_empty :: "byte list option \<Rightarrow> card" where
  "demo_empty x = \<lparr>card_entries = [(key_identity, x)], card_faults = []\<rparr>"

definition demo_writer :: "write_fil WriteHandle" where
  "demo_writer = \<lparr>write_file = \<lparr>wf_name = demo_root @ demo_identity, wf_data = []\<rparr>,
     write_sha256 = Sha256_Reset, write_count = 0, absolute_path = demo_root @ demo_identity\<rparr>"

theorem synced_file_read_back_witness:
  "VerifySyncedWrite card_ff True demo_writer (demo_empty (Some [])) = (True, demo_writer, demo_empty (Some [])) \<and>
   (\<exists>c. card_at (demo_empty (Some [])) (demo_root @ demo_identity) = File c \<and> length c = length ([] :: byte list) \<and>
     sha256 c = sha256 [])"
proof -
  have "fst (Sha256_Final True Sha256_Reset) = Some (sha256 [])"
    using Sha256_Final_message [OF sha_message_Reset] by simp
  then obtain s where s: "Sha256_Final True Sha256_Reset = (Some (sha256 []), s)" by (metis fst_conv surj_pair)
  have stat: "StatAbsolute card_ff (demo_root @ demo_identity) (demo_empty (Some [])) =
      (Some \<lparr>stat_type = NodeRegularFile, stat_size = 0\<rparr>, demo_empty (Some []))"
    by (simp add: demo_StatAbsolute demo_empty_def key_identity_def fits_def)
  have digest: "ConstantTimeDigestEqual (Some (sha256 [])) (Some (sha256 []))" by (simp add: ConstantTimeDigestEqual_iff)
  have store: "f_sync card_ff \<lparr>wf_name = demo_root @ demo_identity, wf_data = []\<rparr> (demo_empty (Some [])) =
      (FR_OK, \<lparr>wf_name = demo_root @ demo_identity, wf_data = []\<rparr>, demo_empty (Some []))"
    "f_open_existing card_ff (demo_root @ demo_identity) (demo_empty (Some [])) =
      ((FR_OK, \<lparr>rf_name = demo_root @ demo_identity, rf_size = 0, rf_tell = 0\<rparr>), demo_empty (Some []))"
    "f_read card_ff (Suc 0) \<lparr>rf_name = demo_root @ demo_identity, rf_size = 0, rf_tell = 0\<rparr> (demo_empty (Some [])) =
      ((FR_OK, []), \<lparr>rf_name = demo_root @ demo_identity, rf_size = 0, rf_tell = 0\<rparr>, demo_empty (Some []))"
    by (simp_all add: card_ff_def card_store_def trip_def card_put_def card_open_existing_def card_read_def card_at_def
        demo_empty_def key_identity_def)
  have sizes: "f_size_w card_ff fil = of_nat (length (wf_data fil))" "f_size_r card_ff = rf_size"
    "f_close_r card_ff r c = (FR_OK, c)" for fil r c
    by (simp_all add: card_ff_def)
  have run: "VerifySyncedWrite card_ff True demo_writer (demo_empty (Some [])) = (True, demo_writer, demo_empty (Some []))"
    unfolding VerifySyncedWrite_def
    by (simp add: demo_writer_def s stat store sizes verify_loop.simps [of _ 0] digest)
  from synced_file_read_back [OF _ run, where content = card_at and m = "[]"] run card.fatfs_axioms show ?thesis
    by (simp add: demo_writer_def fatfs_def sha_message_Reset)
qed

text \<open>
  C24: the removal of a directory never changes a path outside of it, on any card, with any
  amount of fuel, and whether it succeeds or fails.
\<close>

theorem remove_directory_inside:
  assumes "fatfs ff content w_data" and "fatfs_RemoveDirectory ff fuel p recursive v = (result, v')"
    and "\<not> below (absolute v p) q"
  shows "content (disk v') q = content (disk v) q"
  using fatfs.RemoveDirectory_inside [OF assms] .

text \<open>The directory \<open>D\<close> with one file in it, beside an old file.\<close>

definition demo_tree :: "(card, read_fil, write_fil) volume" where
  "demo_tree = \<lparr>disk = \<lparr>card_entries = [(bytes_of ''SYS:/D'', None), (bytes_of ''SYS:/D/F'', Some [1]), (key_old, Some [1, 2])],
       card_faults = []\<rparr>,
     configured = True, path_policy = PortableRelease, volume_root = demo_root, read_handles = [], write_handle = None\<rparr>"

theorem remove_directory_inside_witness:
  "card_at (disk (snd (fatfs_RemoveDirectory card_ff 10 (bytes_of ''d'') True demo_tree))) (demo_root @ demo_old) = File [1, 2]"
proof -
  have "\<not> below (absolute demo_tree (bytes_of ''d'')) (demo_root @ demo_old)"
    unfolding below_def absolute_def demo_tree_def by code_simp
  moreover have "bytes_of ''SYS:/D'' \<noteq> key_old" "bytes_of ''SYS:/D/F'' \<noteq> key_old" by code_simp+
  then have "card_at (disk demo_tree) (demo_root @ demo_old) = File [1, 2]"
    by (simp add: demo_tree_def card_at_def key_old_def)
  ultimately show ?thesis
    using remove_directory_inside [OF card.fatfs_axioms prod.collapse [symmetric]] by metis
qed

text \<open>
  C25: \<open>RemoveDirectory\<close> ends: over a card with finitely many entries and directories that list at
  most as many names, some fuel that depends on the number of entries only is enough for a
  result, whatever fails on the way.
\<close>

theorem remove_directory_ends:
  assumes "fatfs_finite ff entry_count names_left"
    and "(entry_count (disk v) + 1) * (kFatFsUpdateFileSystemAbsolutePathBytes + 2) < fuel"
  shows "\<exists>result. fst (fatfs_RemoveDirectory ff fuel p recursive v) = Some result"
  using fatfs_finite.RemoveDirectory_returns [OF assms] by blast

theorem remove_directory_ends_witness:
  "\<exists>result. fst (fatfs_RemoveDirectory card_ff 5000 (bytes_of ''d'') True demo_tree) = Some result"
  by (rule remove_directory_ends [OF removal.fatfs_finite_axioms])
    (simp add: demo_tree_def kFatFsUpdateFileSystemAbsolutePathBytes_def)

end
