(* ===== verification/Demo_Update.thy ===== *)
theory Demo_Update
  imports Installer_Safety
begin

text \<open>
  Two runs of an update that extracts a file: the card holds an old build identity of one byte and
  a file the release deletes, and the archive of \<open>Demo_Archive\<close> brings the new identity.  In one
  run every operation of the card succeeds; in the other \<open>f_rename\<close> fails after \<open>Rename\<close> has
  removed the target, so that the update stops with the build identity missing.  The runs are the
  witnesses of the properties that speak of interrupted updates.
\<close>

section \<open>The card and the runs\<close>

definition key_temporary :: path where
  "key_temporary = fat_key (demo_root @ kSimpleUpdateTemporaryPath)"

definition fault_plan :: "bool \<Rightarrow> bool list" where
  "fault_plan fault = [False, False, False, False, False, fault]"

definition update_at ::
  "(path \<times> byte list option) list \<Rightarrow> bool list \<Rightarrow> write_fil WriteHandle option \<Rightarrow> (card, read_fil, write_fil) volume" where
  "update_at es faults w = \<lparr>disk = \<lparr>card_entries = es, card_faults = faults\<rparr>, configured = True,
     path_policy = PortableRelease, volume_root = demo_root, read_handles = [None, None], write_handle = w\<rparr>"

definition update_volume_before :: "bool \<Rightarrow> (card, read_fil, write_fil) volume" where
  "update_volume_before fault = update_at [(key_identity, Some [7]), (key_old, Some [1, 2])] (fault_plan fault) None"

definition update_run :: "bool \<Rightarrow> SimpleUpdateResult \<times> (card, read_fil, write_fil) volume" where
  "update_run fault = InstallArchive (Some (FatFsUpdateFileSystem card_ff)) (\<lambda>d inp room. undefined) () (Some demo_source)
     demo_asset False True demo_workspace None (update_volume_before fault)"

section \<open>The steps of the adapter\<close>

lemma update_names:
  "key_identity \<noteq> key_old" "key_temporary \<noteq> key_identity" "key_temporary \<noteq> key_old"
  "key_old \<noteq> key_identity" "key_identity \<noteq> key_temporary" "key_old \<noteq> key_temporary"
  using demo_names by (auto simp: key_temporary_def)

lemma update_resolved:
  "resolved (update_at es fs w) demo_identity = Some (demo_root @ demo_identity)"
  "resolved (update_at es fs w) demo_old = Some (demo_root @ demo_old)"
  "resolved (update_at es fs w) kSimpleUpdateTemporaryPath = Some (demo_root @ kSimpleUpdateTemporaryPath)"
proof -
  have "Resolve (update_at es fs w) p n = Resolve (demo_at es [None, None]) p n" for p n
    by (simp add: Resolve_def demo_at_def update_at_def split: option.split)
  then show "resolved (update_at es fs w) demo_identity = Some (demo_root @ demo_identity)"
    "resolved (update_at es fs w) demo_old = Some (demo_root @ demo_old)"
    "resolved (update_at es fs w) kSimpleUpdateTemporaryPath = Some (demo_root @ kSimpleUpdateTemporaryPath)"
    by (simp_all only: demo_resolved)
qed

lemmas update_keys = key_identity_def [symmetric] key_old_def [symmetric] key_temporary_def [symmetric]

lemmas update_stats = demo_ops update_resolved demo_StatAbsolute update_keys update_names

lemma update_disk [simp]:
  "disk (update_at es fs w) = \<lparr>card_entries = es, card_faults = fs\<rparr>"
  "update_at es fs w\<lparr>disk := \<lparr>card_entries = es', card_faults = fs'\<rparr>\<rparr> = update_at es' fs' w"
  "update_at es fs w\<lparr>write_handle := w'\<rparr> = update_at es fs w'"
  "write_handle (update_at es fs w) = w" "configured (update_at es fs w)"
  by (simp_all add: update_at_def)

lemmas update_card = card_ff_def card_unlink_def card_open_new_def card_store_def card_rename_def card_open_existing_def
  card_read_def card_put_def card_drop_def card_at_def trip_def update_keys update_names

lemma update_Stat:
  "Stat (FatFsUpdateFileSystem card_ff) demo_identity (update_at ((key_identity, Some [7]) # es) fs w) =
     (Some \<lparr>stat_type = NodeRegularFile, stat_size = 1\<rparr>, update_at ((key_identity, Some [7]) # es) fs w)"
  "Stat (FatFsUpdateFileSystem card_ff) demo_old (update_at [(key_identity, x), (key_old, Some [1, 2])] fs w) =
     (Some \<lparr>stat_type = NodeRegularFile, stat_size = 2\<rparr>, update_at [(key_identity, x), (key_old, Some [1, 2])] fs w)"
  by (simp_all add: fatfs_Stat_def update_stats fits_def)

lemma update_no_temp:
  assumes "map_of es key_temporary = None"
  shows "RemoveFile (FatFsUpdateFileSystem card_ff) kSimpleUpdateTemporaryPath (update_at es fs w) = (True, update_at es fs w)"
  using assms by (simp add: fatfs_RemoveFile_def update_stats)

lemma update_remove_old:
  "RemoveFile (FatFsUpdateFileSystem card_ff) demo_old (update_at [(key_identity, x), (key_old, Some [1, 2])] (False # fs) w) =
     (True, update_at [(key_identity, x)] fs w)"
  by (simp add: fatfs_RemoveFile_def update_stats fits_def) (simp add: update_card)

definition temp_writer :: "write_fil WriteHandle" where
  "temp_writer = \<lparr>write_file = \<lparr>wf_name = demo_root @ kSimpleUpdateTemporaryPath, wf_data = []\<rparr>,
     write_sha256 = Sha256_Reset, write_count = 0, absolute_path = demo_root @ kSimpleUpdateTemporaryPath\<rparr>"

lemma update_create:
  "CreateFileFresh (FatFsUpdateFileSystem card_ff) kSimpleUpdateTemporaryPath (update_at [(key_identity, x)] (False # fs) None) =
     (True, update_at [(key_temporary, Some []), (key_identity, x)] fs (Some temp_writer))"
proof -
  have "length (demo_root @ kSimpleUpdateTemporaryPath) < kFatFsUpdateFileSystemAbsolutePathBytes" by code_simp
  then show ?thesis
    by (simp add: fatfs_CreateFileFresh_def update_stats WriteHandle_Open_def not_le)
      (simp add: update_card temp_writer_def)
qed

lemma update_writing: "writing_at card_ff (update_at es fs (Some temp_writer)) kSimpleUpdateTemporaryPath = Some temp_writer"
  by (simp add: writing_at_def temp_writer_def absolute_def update_at_def card_ff_def FatPathEqual_key)

lemma update_verified:
  "VerifySyncedWrite card_ff True temp_writer \<lparr>card_entries = [(key_temporary, Some []), (key_identity, x)], card_faults = False # fs\<rparr> =
     (True, temp_writer, \<lparr>card_entries = [(key_temporary, Some []), (key_identity, x)], card_faults = fs\<rparr>)"
proof -
  have "fst (Sha256_Final True Sha256_Reset) = Some (sha256 [])"
    using Sha256_Final_message [OF sha_message_Reset] by simp
  then obtain s where s: "Sha256_Final True Sha256_Reset = (Some (sha256 []), s)" by (metis fst_conv surj_pair)
  let ?c = "\<lambda>fs. \<lparr>card_entries = [(key_temporary, Some []), (key_identity, x)], card_faults = fs\<rparr>"
  let ?name = "demo_root @ kSimpleUpdateTemporaryPath"
  have stat: "StatAbsolute card_ff ?name (?c fs) = (Some \<lparr>stat_type = NodeRegularFile, stat_size = 0\<rparr>, ?c fs)"
    by (simp add: demo_StatAbsolute update_keys fits_def)
  have digest: "ConstantTimeDigestEqual (Some (sha256 [])) (Some (sha256 []))" by (simp add: ConstantTimeDigestEqual_iff)
  have store: "f_sync card_ff \<lparr>wf_name = ?name, wf_data = []\<rparr> (?c (False # fs)) = (FR_OK, \<lparr>wf_name = ?name, wf_data = []\<rparr>, ?c fs)"
    "f_open_existing card_ff ?name (?c fs) = ((FR_OK, \<lparr>rf_name = ?name, rf_size = 0, rf_tell = 0\<rparr>), ?c fs)"
    "f_read card_ff (Suc 0) \<lparr>rf_name = ?name, rf_size = 0, rf_tell = 0\<rparr> (?c fs) =
      ((FR_OK, []), \<lparr>rf_name = ?name, rf_size = 0, rf_tell = 0\<rparr>, ?c fs)"
    by (simp_all add: update_card)
  have sizes: "f_size_w card_ff fil = of_nat (length (wf_data fil))" "f_size_r card_ff = rf_size"
    "f_close_r card_ff r c = (FR_OK, c)" for fil r c
    by (simp_all add: card_ff_def)
  show ?thesis
    unfolding VerifySyncedWrite_def
    by (simp add: temp_writer_def s stat store sizes verify_loop.simps [of _ 0] digest)
qed

lemma update_sync:
  "FileSync (FatFsUpdateFileSystem card_ff) kSimpleUpdateTemporaryPath
     (update_at [(key_temporary, Some []), (key_identity, x)] (False # fs) (Some temp_writer)) =
   (True, update_at [(key_temporary, Some []), (key_identity, x)] fs (Some temp_writer))"
  by (simp add: demo_ops update_writing update_verified)

lemma update_close:
  "FileClose (FatFsUpdateFileSystem card_ff) kSimpleUpdateTemporaryPath
     (update_at [(key_temporary, Some []), (key_identity, x)] (False # fs) (Some temp_writer)) =
   (True, update_at [(key_temporary, Some []), (key_identity, x)] fs None)"
proof -
  have "WriteHandle_Close card_ff (Some temp_writer) \<lparr>card_entries = [(key_temporary, Some []), (key_identity, x)], card_faults = False # fs\<rparr> =
      (True, None, \<lparr>card_entries = [(key_temporary, Some []), (key_identity, x)], card_faults = fs\<rparr>)"
    by (simp add: WriteHandle_Close_def temp_writer_def update_card)
  then show ?thesis by (simp add: demo_ops update_writing)
qed

lemma update_rename:
  "Rename (FatFsUpdateFileSystem card_ff) kSimpleUpdateTemporaryPath demo_identity True
     (update_at [(key_temporary, Some []), (key_identity, Some [7])] [False, fault] None) =
   (\<not> fault, update_at [(if fault then key_temporary else key_identity, Some [])] [] None)"
proof -
  have "\<not> FatPathEqual (demo_root @ kSimpleUpdateTemporaryPath) (demo_root @ demo_identity)"
    by (simp add: FatPathEqual_key update_keys update_names)
  moreover have "f_unlink card_ff (demo_root @ demo_identity)
      \<lparr>card_entries = [(key_temporary, Some []), (key_identity, Some [7])], card_faults = [False, fault]\<rparr> =
      (FR_OK, \<lparr>card_entries = [(key_temporary, Some [])], card_faults = [fault]\<rparr>)"
    "f_rename card_ff (demo_root @ kSimpleUpdateTemporaryPath) (demo_root @ demo_identity)
      \<lparr>card_entries = [(key_temporary, Some [])], card_faults = [fault]\<rparr> =
      (if fault then FR_OTHER 1 else FR_OK,
       \<lparr>card_entries = [(if fault then key_temporary else key_identity, Some [])], card_faults = []\<rparr>)"
    by (simp_all add: update_card)
  ultimately show ?thesis by (simp add: fatfs_Rename_def update_stats fits_def)
qed

lemma update_remove_temp:
  "RemoveFile (FatFsUpdateFileSystem card_ff) kSimpleUpdateTemporaryPath (update_at [(key_temporary, Some [])] [] w) =
     (True, update_at [] [] w)"
  by (simp add: fatfs_RemoveFile_def update_stats fits_def) (simp add: update_card)

lemma update_directory:
  "SyncContainingDirectory (FatFsUpdateFileSystem card_ff) demo_old (update_at es fs w) = (True, update_at es fs w)"
  "SyncContainingDirectory (FatFsUpdateFileSystem card_ff) demo_identity (update_at es fs w) = (True, update_at es fs w)"
  by (simp_all add: demo_ops fatfs_SyncContainingDirectory_def update_resolved)

section \<open>The extraction\<close>

definition demo_wanted :: ZipExpectedFile where
  "demo_wanted = \<lparr>expected_path = Some demo_identity, expected_size = 0, expected_compression = ZipStore,
     expected_sha256 = Some (sha256 [])\<rparr>"

lemma demo_wanted_found: "FindExpectedFile (BuildExpectedInventory demo_asset) demo_identity = Some demo_wanted"
  by (simp add: BuildExpectedInventory_def demo_asset_def FindExpectedFile_def demo_wanted_def)

definition bound_reader :: "byte list \<Rightarrow> ZipReader" where
  "bound_reader binding = demo_reader\<lparr>validated_inventory_binding := binding, validated_contents := True\<rparr>"

lemma digest_equal_self: "ConstantTimeDigestEqual (Some l) (Some l)"
proof -
  have "fold (\<lambda>i d. d OR (l ! i XOR l ! i)) xs z = z" for xs and z :: byte
    by (induction xs arbitrary: z) simp_all
  then show ?thesis by (simp add: ConstantTimeDigestEqual_def)
qed

lemma demo_bound:
  obtains binding where
    "BindAuthenticatedInventory demo_reader (BuildExpectedInventory demo_asset) = (ZipOk, bound_reader binding)"
    "ValidatedContentsMatch (bound_reader binding) (BuildExpectedInventory demo_asset)"
proof -
  obtain binding where b: "ComputeExpectedInventoryBinding demo_reader (BuildExpectedInventory demo_asset) = Some binding"
    using demo_binding by blast
  have "ComputeExpectedInventoryBinding (bound_reader binding) (BuildExpectedInventory demo_asset) =
      ComputeExpectedInventoryBinding demo_reader (BuildExpectedInventory demo_asset)"
    by (simp add: ComputeExpectedInventoryBinding_def bound_reader_def)
  then have "ValidatedContentsMatch (bound_reader binding) (BuildExpectedInventory demo_asset)"
    unfolding ValidatedContentsMatch_def by (simp add: b digest_equal_self) (simp add: bound_reader_def digest_equal_self)
  moreover have "BindAuthenticatedInventory demo_reader (BuildExpectedInventory demo_asset) = (ZipOk, bound_reader binding)"
    by (simp add: BindAuthenticatedInventory_def demo_inventory b bound_reader_def)
  ultimately show ?thesis by (rule that [rotated])
qed

lemma bound_inventory: "VerifyExpectedInventory (bound_reader binding) (BuildExpectedInventory demo_asset) = ZipOk"
proof -
  have "demo_identity \<noteq> []" by (simp add: demo_identity_def)
  then show ?thesis
    by (simp add: VerifyExpectedInventory_def bound_reader_def demo_reader_def demo_entry_def BuildExpectedInventory_def
        demo_asset_def find_entry_def)
qed

definition update_after :: "bool \<Rightarrow> (card, read_fil, write_fil) volume" where
  "update_after fault = update_at (if fault then [] else [(key_identity, Some [])]) [] None"

lemma update_commit:
  "\<exists>s. extract_commit (FatFsUpdateFileSystem card_ff) demo_identity base all None demo_entry
     \<lparr>sink_volume = update_at [(key_temporary, Some []), (key_identity, Some [7])] [False, False, False, fault] (Some temp_writer),
      sink_file = True, written = 0, sink_active = True\<rparr> = (\<not> fault, s) \<and> sink_volume s = update_after fault \<and> \<not> sink_file s"
  by (cases fault)
    (simp_all add: extract_commit_def demo_entry_def update_sync update_close extract_publish_def update_rename
      update_directory update_remove_temp Report_def update_after_def)

lemma update_stream:
  "\<exists>h s. StreamFile (bound_reader binding) inflate d demo_entry (Some demo_wanted) (Some SimpleZipHashOps)
     (Some (SingleFileExtractOps (FatFsUpdateFileSystem card_ff) demo_identity base all None)) None new_hash_sink
     (new_extract_sink (update_at [(key_identity, Some [7])] [False, False, False, False, fault] None)) =
     (if fault then ZipSinkError else ZipOk, h, s) \<and> sink_volume s = update_after fault"
proof -
  let ?fs = "FatFsUpdateFileSystem card_ff"
  let ?s = "\<lparr>sink_volume = update_at [(key_temporary, Some []), (key_identity, Some [7])] [False, False, False, fault] (Some temp_writer),
      sink_file = True, written = 0, sink_active = True\<rparr>"
  have begun: "extract_begin ?fs demo_identity demo_entry
      (new_extract_sink (update_at [(key_identity, Some [7])] [False, False, False, False, fault] None)) = (True, ?s)"
    using update_names by (simp add: extract_begin_def new_extract_sink_def demo_entry_def update_no_temp update_create)
  obtain s where s: "extract_commit ?fs demo_identity base all None demo_entry ?s = (\<not> fault, s)"
    "sink_volume s = update_after fault" "\<not> sink_file s" using update_commit by blast
  have "fst (Sha256_Final True Sha256_Reset) = Some (sha256 [])"
    using Sha256_Final_message [OF sha_message_Reset] by simp
  then obtain x where x: "Sha256_Final True Sha256_Reset = (Some (sha256 []), x)" by (metis fst_conv surj_pair)
  have gone: "fault \<Longrightarrow> RemoveFile ?fs kSimpleUpdateTemporaryPath (update_after fault) = (True, update_after fault)"
    by (simp add: update_after_def update_no_temp)
  have e: "\<not> is_directory demo_entry" "compression demo_entry = ZipStore" "compressed_size demo_entry = 0"
    "entry_size demo_entry = 0" "crc32 demo_entry = 0" "entry_path demo_entry = demo_identity"
    by (simp_all add: demo_entry_def)
  have r: "reader_open (bound_reader binding)" "workspace (bound_reader binding)"
    "GetSize (reader_source (bound_reader binding)) = Some 126" "archive_size (inventory (bound_reader binding)) = 126"
    by (simp_all add: bound_reader_def demo_reader_def demo_source_def demo_length)
  have "fold (\<lambda>i d. d) xs z = z" for xs :: "nat list" and z :: byte
    by (induction xs arbitrary: z) simp_all
  then have digest: "DigestEqual (sha256 []) (sha256 [])" by (simp add: DigestEqual_def)
  let ?ops = "SingleFileExtractOps ?fs demo_identity base all None"
  let ?h = "\<lparr>zip_hash = Sha256_Reset, hash_expected = 0, hash_received = 0, hash_active = True\<rparr>"
  let ?st = "\<lparr>hash_state = ?h, sink_state = ?s, stream_crc = 0xffffffff, produced = 0\<rparr>"
  have steps: "begin_hash demo_entry demo_wanted (Some SimpleZipHashOps) new_hash_sink = (ZipOk, ?h)"
    "BeginEntry ?ops demo_entry (new_extract_sink (update_at [(key_identity, Some [7])] [False, False, False, False, fault] None)) =
      (True, ?s)"
    "stream_payload (reader_source (bound_reader binding)) inflate d (Some SimpleZipHashOps) (Some ?ops) None demo_entry ?st =
      (ZipOk, ?st)"
    "check_payload demo_entry ZipOk ?st = ZipOk"
    "finish_hash demo_wanted (Some SimpleZipHashOps) ZipOk ?h = (ZipOk, ?h\<lparr>zip_hash := x, hash_active := False\<rparr>)"
    by (simp_all add: begin_hash_def SimpleZipHashOps_def hash_begin_def new_hash_sink_def e SingleFileExtractOps_def begun
        stream_payload_def store_loop.simps [of _ _ _ _ _ 0] check_payload_def finish_hash_def hash_finish_def x digest demo_wanted_def)
  have "\<exists>s'. finish_sink demo_entry (Some ?ops) ZipOk ?s = (if fault then ZipSinkError else ZipOk, s') \<and> sink_volume s' = update_after fault"
    using s gone by (cases fault) (simp_all add: finish_sink_def SingleFileExtractOps_def extract_abort_def)
  then show ?thesis
    by (auto simp: StreamFile_def e r steps)
qed

lemma update_extract:
  assumes "ValidatedContentsMatch (bound_reader binding) (BuildExpectedInventory demo_asset)"
  shows "\<exists>r h s. ExtractOne (bound_reader binding) inflate d demo_identity (BuildExpectedInventory demo_asset)
     (SingleFileExtractOps (FatFsUpdateFileSystem card_ff) demo_identity base all None) (Some SimpleZipHashOps) new_hash_sink
     (new_extract_sink (update_at [(key_identity, Some [7])] [False, False, False, False, fault] None)) =
     (if fault then ZipSinkError else ZipOk, r, h, s) \<and> sink_volume s = update_after fault"
proof -
  have "find_entry (bound_reader binding) False demo_identity = Some demo_entry"
    by (simp add: find_entry_def bound_reader_def demo_reader_def demo_entry_def)
  then show ?thesis
    using update_stream [of binding inflate d base all fault]
    by (auto simp: ExtractOne_def bound_inventory assms demo_wanted_found)
qed

section \<open>The runs\<close>

lemma update_plan:
  "\<exists>s. plan_files (FatFsUpdateFileSystem card_ff) False 512 all None (files demo_asset) []
     \<lparr>plan_result = Result UpdateInvalidArgument, hashed = 0, largest_changed = 0\<rparr>
     (update_at ((key_identity, Some [7]) # es) fs None) =
     (Inr (s, [InstallFile]), update_at ((key_identity, Some [7]) # es) fs None) \<and>
     largest_changed s = 0 \<and> changed_bytes (plan_result s) = 0"
  by (simp add: demo_asset_def choose_action_def update_Stat preserves_def count_action_def AddWithoutOverflow_def
      Report_def Result_def)

lemma update_sizes:
  "GetVolumeSize (FatFsUpdateFileSystem card_ff) (update_at es fs w) = (Some 0x0000000800407e00, update_at es fs w)"
  "GetFreeSpace (FatFsUpdateFileSystem card_ff) (update_at es fs w) = (Some 0x0000000800000000, update_at es fs w)"
  by (simp_all add: demo_ops fatfs_GetVolumeSize_def fatfs_GetFreeSpace_def demo_geometry)

lemma update_removal:
  "RemoveSignedFile (FatFsUpdateFileSystem card_ff) demo_old n (update_at [(key_identity, x), (key_old, Some [1, 2])] (False # fs) w) =
     (True, n + 1, update_at [(key_identity, x)] fs w)"
  by (simp add: RemoveSignedFile_def update_Stat update_remove_old update_directory)

lemma update_passes:
  fixes all :: u64
  assumes "ValidatedContentsMatch (bound_reader binding) (BuildExpectedInventory demo_asset)"
  shows "install_passes (FatFsUpdateFileSystem card_ff) inflate d expected all None (zip (files demo_asset) [InstallFile]) [0, 1, 2] s =
      (True, s)" (is ?first)
    and "\<exists>s'. install_pass (FatFsUpdateFileSystem card_ff) inflate d (BuildExpectedInventory demo_asset) all None 3
      (zip (files demo_asset) [InstallFile])
      \<lparr>volume = update_at [(key_identity, Some [7])] [False, False, False, False, fault] None, reader = bound_reader binding,
       hash_sink = new_hash_sink, installed = 0, last_zip = z\<rparr> = (\<not> fault, s') \<and> volume s' = update_after fault" (is ?second)
proof -
  obtain f where f: "files demo_asset = [f]" "file_path f = demo_identity" "policy f = Metadata" by (simp add: demo_asset_def)
  have pass: "InstallPass f = 3" by (simp add: InstallPass_def IsBuildIdentity_def f demo_identity_def FatPathEqual_key)
  then show ?first by (simp add: f)
  have "fault \<Longrightarrow> RemoveFile (FatFsUpdateFileSystem card_ff) kSimpleUpdateTemporaryPath (update_after fault) = (True, update_after fault)"
    by (simp add: update_after_def update_no_temp)
  then show ?second
    using update_extract [OF assms, of inflate d 0 all fault]
    by (cases fault) (auto simp: f pass install_file_def)
qed

lemma update_run_result:
  "\<exists>r. update_run fault = (r, update_after fault) \<and> update_status r = (if fault then ExtractFailed else UpdateOk)"
proof -
  obtain binding where b: "BindAuthenticatedInventory demo_reader (BuildExpectedInventory demo_asset) = (ZipOk, bound_reader binding)"
    "ValidatedContentsMatch (bound_reader binding) (BuildExpectedInventory demo_asset)" by (rule demo_bound)
  let ?fs = "FatFsUpdateFileSystem card_ff" and ?v = "update_volume_before fault"
  obtain s where plan: "plan_files ?fs False 512 0 None (files demo_asset) []
      \<lparr>plan_result = Result UpdateInvalidArgument, hashed = 0, largest_changed = 0\<rparr> ?v = (Inr (s, [InstallFile]), ?v)"
    "largest_changed s = 0" "changed_bytes (plan_result s) = 0"
    using update_plan unfolding update_volume_before_def by blast
  have w: "WorkspaceValid demo_workspace demo_asset" by (simp add: WorkspaceValid_def demo_workspace_def demo_asset_def)
  have lists: "directories demo_asset = []" "deletions demo_asset = [demo_old]" "replacements demo_asset = []"
    "\<not> configuration_reset_required demo_asset" "files demo_asset \<noteq> []" "io_buffer_size demo_workspace = 512"
    by (simp_all add: demo_asset_def demo_workspace_def)
  have start: "RemoveFile ?fs kSimpleUpdateTemporaryPath ?v = (True, ?v)"
    "GetVolumeSize ?fs ?v = (Some 0x0000000800407e00, ?v)" "GetFreeSpace ?fs ?v = (Some 0x0000000800000000, ?v)"
    using update_names by (simp_all add: update_volume_before_def update_no_temp update_sizes)
  have final: "\<not> fault \<Longrightarrow> RemoveFile ?fs kSimpleUpdateTemporaryPath (update_after fault) = (True, update_after fault)"
    using update_names by (simp add: update_after_def update_no_temp)
  have removal: "RemoveSignedFile ?fs demo_old n ?v =
      (True, n + 1, update_at [(key_identity, Some [7])] [False, False, False, False, fault] None)" for n
    by (simp add: update_volume_before_def fault_plan_def update_removal)
  let ?st = "\<lambda>v z. \<lparr>volume = v, reader = bound_reader binding, hash_sink = new_hash_sink, installed = 0, last_zip = z\<rparr>"
  obtain s' where s': "install_pass ?fs (\<lambda>d inp room. undefined) () (BuildExpectedInventory demo_asset) 1 None 3
      (zip (files demo_asset) [InstallFile])
      (?st (update_at [(key_identity, Some [7])] [False, False, False, False, fault] None) (zip_status (plan_result s))) =
      (\<not> fault, s')" "volume s' = update_after fault"
    using update_passes(2) [OF b(2), where inflate = "\<lambda>d inp room. undefined" and d = "()" and all = 1 and fault = fault and
      z = "zip_status (plan_result s)"] by metis
  have "\<exists>r. apply_plan ?fs (\<lambda>d inp room. undefined) () demo_asset (BuildExpectedInventory demo_asset) None
      (bound_reader binding) s [InstallFile] ?v = (r, update_after fault) \<and>
      update_status r = (if fault then ExtractFailed else UpdateOk)"
    using final
    by (subst apply_plan_def) (simp add: plan AddWithoutOverflow_def kSimpleUpdateSafetyReserveBytes_def start lists
        Report_def publish_def update_passes(1) [OF b(2)] removal s' finish_install_def refuse_def Let_def
        del: One_nat_def zip.simps install_pass.simps install_passes.simps)
  then show ?thesis
    by (simp add: update_run_def InstallArchive_def demo_opened Install_def w demo_manifest b start plan lists
        kSimpleUpdateMinimumVolumeBytes_def Report_def Let_def)
qed

section \<open>The properties on the runs\<close>

lemma update_quiet: "quiet (fatfs_node card_ff card_at wf_data (update_volume_before fault))"
  by (auto simp: quiet_def fatfs_node_def writing_at_def update_volume_before_def card_at_def split: option.split)

lemma update_run_eq: "install_on card_ff (\<lambda>d inp room. undefined) () (Some demo_source) demo_asset False True
    demo_workspace None (update_volume_before fault) = (fst (update_run fault), snd (update_run fault))"
  by (simp add: update_run_def)

lemmas update_hyps = card.fatfs_axioms demo_sized update_quiet update_run_eq

lemma update_nodes:
  "fatfs_node card_ff card_at wf_data (update_volume_before fault) demo_identity = File [7]"
  "fatfs_node card_ff card_at wf_data (update_volume_before fault) demo_old = File [1, 2]"
  "fatfs_node card_ff card_at wf_data (snd (update_run fault)) demo_identity = (if fault then Absent else File [])"
proof -
  have v: "volume_root (update_at es fs w) = demo_root" for es fs w by (simp add: update_at_def)
  have "snd (update_run fault) = update_after fault" using update_run_result by (metis snd_conv)
  then show "fatfs_node card_ff card_at wf_data (update_volume_before fault) demo_identity = File [7]"
    "fatfs_node card_ff card_at wf_data (update_volume_before fault) demo_old = File [1, 2]"
    "fatfs_node card_ff card_at wf_data (snd (update_run fault)) demo_identity = (if fault then Absent else File [])"
    by (simp_all add: update_volume_before_def update_after_def fatfs_node_def writing_at_def absolute_def card_at_def v
        update_keys update_names)
qed

text \<open>
  The interrupted run: the identity was there before, the run ends in \<open>ExtractFailed\<close>, and the
  identity, which is missing, is a file of the manifest that was not to be preserved.
\<close>

theorem interrupted_update_names_witness:
  "update_status (fst (update_run True)) = ExtractFailed \<and>
   fatfs_node card_ff card_at wf_data (update_volume_before True) demo_identity = File [7] \<and>
   fatfs_node card_ff card_at wf_data (snd (update_run True)) demo_identity = Absent \<and>
   (\<exists>f \<in> set (files demo_asset). fat_key (file_path f) = fat_key demo_identity \<and> \<not> preserves False f)"
proof -
  have "fat_key demo_identity \<noteq> fat_key kSimpleUpdateTemporaryPath" "fat_key demo_old \<noteq> fat_key demo_identity" by code_simp+
  from interrupted_update_names [OF update_hyps this(1), of True] this(2)
  have "\<exists>f \<in> set (files demo_asset). fat_key (file_path f) = fat_key demo_identity \<and> \<not> preserves False f"
    by (auto simp: update_nodes gone_def demo_asset_def is_file_def)
  moreover have "update_status (fst (update_run True)) = ExtractFailed" using update_run_result [of True] by auto
  ultimately show ?thesis by (simp add: update_nodes)
qed

text \<open>In the run without a fault the identity changes, so that the old file is known to be gone.\<close>

theorem build_identity_last_witness:
  "fatfs_node card_ff card_at wf_data (update_volume_before False) demo_identity = File [7] \<and>
   fatfs_node card_ff card_at wf_data (snd (update_run False)) demo_identity = File [] \<and>
   fatfs_node card_ff card_at wf_data (snd (update_run False)) demo_old = Absent"
proof -
  obtain b where b: "files demo_asset = [b]" "file_path b = demo_identity" "policy b = Metadata" by (simp add: demo_asset_def)
  have "IsBuildIdentity b" by (simp add: IsBuildIdentity_def b demo_identity_def FatPathEqual_key)
  from build_identity_last [OF update_hyps _ this, of False] b show ?thesis
    by (auto simp: update_nodes gone_def demo_asset_def)
qed

theorem successful_update_complete_witness:
  "fatfs_node card_ff card_at wf_data (update_volume_before False) demo_old = File [1, 2] \<and>
   fatfs_node card_ff card_at wf_data (snd (update_run False)) demo_old = Absent \<and>
   in_place False (fatfs_node card_ff card_at wf_data (update_volume_before False))
     (fatfs_node card_ff card_at wf_data (snd (update_run False))) (hd (files demo_asset))"
proof -
  have "update_status (fst (update_run False)) = UpdateOk" using update_run_result [of False] by auto
  from successful_update_complete [OF update_hyps this] show ?thesis
    by (simp add: update_nodes) (simp add: gone_def demo_asset_def)
qed

end
