(* ===== verification/Zip_Utf8.thy ===== *)
theory Zip_Utf8
  imports Zip_Open
begin

text \<open>
  The check of UTF-8 names in \<open>zip_reader.cpp\<close> against the encoding itself: \<open>IsValidUtf8\<close> accepts
  the encodings of sequences of Unicode scalar values, and nothing else (no overlong form, no
  surrogate, nothing above U+10FFFF, no sequence cut short).
\<close>

section \<open>The encoding\<close>

definition scalar_value :: "nat \<Rightarrow> bool" where
  "scalar_value k \<longleftrightarrow> k < 0xd800 \<or> 0xdfff < k \<and> k \<le> 0x10ffff"

definition utf8_encode :: "nat \<Rightarrow> byte list" where
  "utf8_encode k = map of_nat
     (if k < 0x80 then [k]
      else if k < 0x800 then [192 + k div 64, 128 + k mod 64]
      else if k < 0x10000 then [224 + k div 4096, 128 + k div 64 mod 64, 128 + k mod 64]
      else [240 + k div 262144, 128 + k div 4096 mod 64, 128 + k div 64 mod 64, 128 + k mod 64])"

section \<open>Bytes\<close>

lemma byte_all:
  assumes "list_all (\<lambda>n. P (of_nat n)) [0..<256]"
  shows "P (b :: byte)"
proof -
  have "unat b \<in> set [0..<256]" using byte_exhaust_less [of b] by simp
  with assms have "P (of_nat (unat b))" unfolding list_all_iff by blast
  then show ?thesis by simp
qed

lemma continuation_iff: "b AND 0xc0 = 0x80 \<longleftrightarrow> 128 \<le> unat b \<and> unat b < 192" for b :: byte
  by (rule byte_all [of _ b]) code_simp

lemma continuation_bits: "b AND 0xc0 = 0x80 \<longrightarrow> unat (b AND 0x3f) = unat b - 128" for b :: byte
  by (rule byte_all [of _ b]) code_simp

lemma unat_and_mask: "unat (b AND mask n) = unat b mod 2 ^ n" for b :: byte
  by (simp add: take_bit_eq_mask [symmetric] unsigned_take_bit_eq take_bit_nat_def)

lemma mod_window:
  assumes "d * m \<le> n" and "n < d * m + m"
  shows "n mod m = (n :: nat) - d * m"
proof -
  obtain r where n: "n = d * m + r" using le_Suc_ex [OF assms(1)] by blast
  with assms(2) have "r < m" by simp
  then show ?thesis by (simp add: n)
qed

lemma lead_bits:
  "192 \<le> unat b \<Longrightarrow> unat b < 224 \<Longrightarrow> unat (b AND 0x1f) = unat b - 192"
  "224 \<le> unat b \<Longrightarrow> unat b < 240 \<Longrightarrow> unat (b AND 0x0f) = unat b - 224"
  "240 \<le> unat b \<Longrightarrow> unat b < 248 \<Longrightarrow> unat (b AND 0x07) = unat b - 240" for b :: byte
  using unat_and_mask [of b 5] unat_and_mask [of b 4] unat_and_mask [of b 3]
    mod_window [of 6 32 "unat b"] mod_window [of 14 16 "unat b"] mod_window [of 30 8 "unat b"]
  by (simp_all add: mask_eq_exp_minus_1)

section \<open>Code points\<close>

lemma append_six:
  assumes "k < 2 ^ 20" and "unat (y :: byte) < 64"
  shows "push_bit 6 (of_nat k :: u32) OR ucast y = of_nat (k * 64 + unat y)"
proof -
  have low: "\<not> bit y n" if "6 \<le> n" for n
  proof -
    have "unat y < 2 ^ n" using that assms(2) power_increasing [of 6 n "2 :: nat"] by simp
    then have "\<not> bit (unat y) n" by (simp add: bit_iff_odd)
    then show ?thesis by (simp add: bit_unsigned_iff)
  qed
  have "push_bit 6 (of_nat k :: u32) OR ucast y = push_bit 6 (of_nat k) + ucast y"
    by (rule disjunctive_add [symmetric]) (auto simp: bit_push_bit_iff bit_unsigned_iff dest: low)
  also have "\<dots> = of_nat (k * 64 + unat y)" by (simp add: push_bit_eq_mult algebra_simps)
  finally show ?thesis .
qed

lemma utf8_rest_step:
  assumes "k < 2 ^ 20"
  shows "utf8_rest (of_nat k) (b # bs) =
    (if 128 \<le> unat b \<and> unat b < 192 then utf8_rest (of_nat (k * 64 + (unat b - 128))) bs else None)"
proof (cases "b AND 0xc0 = 0x80")
  case True
  then have "unat (b AND 0x3f) = unat b - 128" "unat b < 192" "128 \<le> unat b"
    using continuation_bits [of b] continuation_iff [of b] by simp_all
  with append_six [OF assms, of "b AND 0x3f"] True show ?thesis by (simp del: of_nat_add of_nat_mult)
next
  case False
  then show ?thesis using continuation_iff [of b] by (auto simp del: of_nat_add of_nat_mult)
qed

lemma forbidden_of_nat:
  assumes "k < 2 ^ 32"
  shows "utf8_forbidden n (of_nat k) \<longleftrightarrow>
    (n = 1 \<and> k < 0x80) \<or> (n = 2 \<and> k < 0x800) \<or> (n = 3 \<and> k < 0x10000) \<or> \<not> scalar_value k"
  using assms by (auto simp: utf8_forbidden_def scalar_value_def word_less_nat_alt word_le_nat_alt unat_of_nat_small)

lemma utf8_lead_unat:
  "utf8_lead b =
     (if 194 \<le> unat b \<and> unat b < 224 then Some (of_nat (unat b - 192), 1)
      else if 224 \<le> unat b \<and> unat b < 240 then Some (of_nat (unat b - 224), 2)
      else if 240 \<le> unat b \<and> unat b < 245 then Some (of_nat (unat b - 240), 3)
      else None)"
proof -
  have c: "ucast x = (of_nat (unat x) :: u32)" for x :: byte by simp
  show ?thesis
    unfolding utf8_lead_def c using lead_bits [of b] by (auto simp: word_le_nat_alt)
qed

section \<open>One turn of the loop\<close>

definition continues :: "byte \<Rightarrow> bool" where
  "continues b \<longleftrightarrow> 128 \<le> unat b \<and> unat b < 192"

lemma utf8_one: "unat b < 128 \<Longrightarrow> IsValidUtf8 (b # bs) = IsValidUtf8 bs"
  by (simp add: word_less_nat_alt)

lemma utf8_turn:
  assumes "\<not> b < 0x80" and "utf8_lead b = Some (bits, n)" and "n \<le> length bs"
    and "utf8_rest bits (take n bs) = (if P then Some k else None)"
  shows "IsValidUtf8 (b # bs) \<longleftrightarrow> P \<and> \<not> utf8_forbidden n k \<and> IsValidUtf8 (drop n bs)"
  using assms by simp

lemma utf8_two:
  assumes "194 \<le> unat b" and "unat b < 224"
  shows "IsValidUtf8 (b # bs) \<longleftrightarrow> (\<exists>c rest. bs = c # rest \<and> continues c \<and>
    scalar_value ((unat b - 192) * 64 + (unat c - 128)) \<and> IsValidUtf8 rest)"
proof (cases bs)
  case (Cons c rest)
  let ?k = "(unat b - 192) * 64 + (unat c - 128)"
  have "IsValidUtf8 (b # bs) \<longleftrightarrow> continues c \<and> \<not> utf8_forbidden 1 (of_nat ?k) \<and> IsValidUtf8 rest"
    using assms utf8_rest_step [of "unat b - 192" c "[]"] Cons
    by (auto simp: word_less_nat_alt utf8_lead_unat continues_def simp del: of_nat_add of_nat_mult of_nat_diff add_diff_assoc add_diff_assoc2)
  moreover have "utf8_forbidden 1 (of_nat ?k) \<longleftrightarrow> \<not> scalar_value ?k" if "continues c"
    using assms that by (subst forbidden_of_nat) (auto simp: continues_def)
  ultimately show ?thesis using Cons by auto
qed (use assms in \<open>simp add: word_less_nat_alt utf8_lead_unat\<close>)

lemma utf8_three:
  assumes "224 \<le> unat b" and "unat b < 240"
  shows "IsValidUtf8 (b # bs) \<longleftrightarrow> (\<exists>c d rest. bs = c # d # rest \<and> continues c \<and> continues d \<and>
    0x800 \<le> ((unat b - 224) * 64 + (unat c - 128)) * 64 + (unat d - 128) \<and>
    scalar_value (((unat b - 224) * 64 + (unat c - 128)) * 64 + (unat d - 128)) \<and> IsValidUtf8 rest)"
proof (cases "\<exists>c d rest. bs = c # d # rest")
  case True
  then obtain c d rest where bs: "bs = c # d # rest" by blast
  let ?j = "(unat b - 224) * 64 + (unat c - 128)"
  let ?k = "?j * 64 + (unat d - 128)"
  have "unat b - 224 < 16" "continues c \<Longrightarrow> unat c - 128 < 64" using assms by (auto simp: continues_def)
  then have j: "?j < 2 ^ 20" if "continues c" using that by fastforce
  have "utf8_rest (of_nat (unat b - 224)) [c, d] = (if continues c \<and> continues d then Some (of_nat ?k) else None)"
    using utf8_rest_step [of "unat b - 224" c "[d]"] utf8_rest_step [OF j, of d "[]"] \<open>unat b - 224 < 16\<close>
    by (simp only: continues_def) (simp only: utf8_rest.simps(1) split: if_split, simp)
  moreover have "\<not> b < 0x80" "utf8_lead b = Some (of_nat (unat b - 224), 2)"
    using assms by (simp_all add: word_less_nat_alt utf8_lead_unat)
  ultimately have "IsValidUtf8 (b # bs) \<longleftrightarrow> (continues c \<and> continues d) \<and> \<not> utf8_forbidden 2 (of_nat ?k) \<and> IsValidUtf8 (drop 2 bs)"
    by (intro utf8_turn) (simp_all add: bs)
  moreover have "utf8_forbidden 2 (of_nat ?k) \<longleftrightarrow> \<not> (0x800 \<le> ?k \<and> scalar_value ?k)" if "continues c" "continues d"
    using assms that by (subst forbidden_of_nat) (auto simp: continues_def)
  ultimately show ?thesis using bs by auto
next
  case False
  then have "length bs < 2" by (cases bs; cases "tl bs") auto
  with assms False show ?thesis by (auto simp: word_less_nat_alt utf8_lead_unat)
qed

lemma utf8_four:
  assumes "240 \<le> unat b" and "unat b < 245"
  shows "IsValidUtf8 (b # bs) \<longleftrightarrow> (\<exists>c d e rest. bs = c # d # e # rest \<and> continues c \<and> continues d \<and> continues e \<and>
    0x10000 \<le> (((unat b - 240) * 64 + (unat c - 128)) * 64 + (unat d - 128)) * 64 + (unat e - 128) \<and>
    scalar_value ((((unat b - 240) * 64 + (unat c - 128)) * 64 + (unat d - 128)) * 64 + (unat e - 128)) \<and> IsValidUtf8 rest)"
proof (cases "\<exists>c d e rest. bs = c # d # e # rest")
  case True
  then obtain c d e rest where bs: "bs = c # d # e # rest" by blast
  let ?i = "(unat b - 240) * 64 + (unat c - 128)"
  let ?j = "?i * 64 + (unat d - 128)"
  let ?k = "?j * 64 + (unat e - 128)"
  have small: "unat b - 240 < 5" "continues c \<Longrightarrow> unat c - 128 < 64" "continues d \<Longrightarrow> unat d - 128 < 64"
    using assms by (auto simp: continues_def)
  then have i: "?i < 2 ^ 20" if "continues c" using that by fastforce
  have j: "?j < 2 ^ 20" if "continues c" "continues d" using small that by fastforce
  have "utf8_rest (of_nat (unat b - 240)) [c, d, e] =
      (if continues c \<and> continues d \<and> continues e then Some (of_nat ?k) else None)"
    using utf8_rest_step [of "unat b - 240" c "[d, e]"] utf8_rest_step [OF i, of d "[e]"] utf8_rest_step [OF j, of e "[]"] small(1)
    by (simp only: continues_def) (simp only: utf8_rest.simps(1) split: if_split, simp)
  moreover have "\<not> b < 0x80" "utf8_lead b = Some (of_nat (unat b - 240), 3)"
    using assms by (simp_all add: word_less_nat_alt utf8_lead_unat)
  ultimately have "IsValidUtf8 (b # bs) \<longleftrightarrow>
      (continues c \<and> continues d \<and> continues e) \<and> \<not> utf8_forbidden 3 (of_nat ?k) \<and> IsValidUtf8 (drop 3 bs)"
    by (intro utf8_turn) (simp_all add: bs)
  moreover have "utf8_forbidden 3 (of_nat ?k) \<longleftrightarrow> \<not> (0x10000 \<le> ?k \<and> scalar_value ?k)"
    if "continues c" "continues d" "continues e"
    using assms that by (subst forbidden_of_nat) (auto simp: continues_def)
  ultimately show ?thesis using bs by auto
next
  case False
  then have "length bs < 3" by (cases bs; cases "tl bs"; cases "tl (tl bs)") auto
  with assms False show ?thesis by (auto simp: word_less_nat_alt utf8_lead_unat)
qed

lemma utf8_none: "128 \<le> unat b \<Longrightarrow> unat b < 194 \<or> 245 \<le> unat b \<Longrightarrow> \<not> IsValidUtf8 (b # bs)"
  by (auto simp: word_less_nat_alt utf8_lead_unat)

section \<open>The check is the encoding\<close>

lemma unat_byte: "n < 256 \<Longrightarrow> unat (of_nat n :: byte) = n"
  by (rule unat_of_nat_small) simp

lemma byte_of_lead: "m \<le> unat b \<Longrightarrow> of_nat (m + (unat b - m)) = (b :: byte)"
  by simp

lemma digits64: "y < 64 \<Longrightarrow> (x * 64 + y) div 64 = x" "y < 64 \<Longrightarrow> (x * 64 + y) mod 64 = y" for x y :: nat
  by simp_all

lemma bound64: "x < 16 \<Longrightarrow> y < 64 \<Longrightarrow> z < 64 \<Longrightarrow> (x * 64 + y) * 64 + z < 0x10000" for x y z :: nat
  by simp

lemma encode_accepted:
  assumes "scalar_value k"
  shows "IsValidUtf8 (utf8_encode k @ rest) = IsValidUtf8 rest"
proof -
  have m: "k mod 64 < 64" "k div 64 mod 64 < 64" "k div 4096 mod 64 < 64" by simp_all
  have d: "k div 4096 = k div 64 div 64" "k div 262144 = k div 64 div 64 div 64" by (simp_all add: div_mult2_eq [symmetric])
  have split: "k = k div 64 * 64 + k mod 64" "k div 64 = k div 64 div 64 * 64 + k div 64 mod 64"
    "k div 64 div 64 = k div 64 div 64 div 64 * 64 + k div 64 div 64 mod 64" by (simp_all add: div_mod_decomp)
  have q: "4096 * (k div 64 div 64) + k div 64 mod 64 * 64 + k mod 64 = k"
    using split(1,2) by linarith
  have q4: "262144 * (k div 64 div 64 div 64) + 4096 * (k div 64 div 64 mod 64) + k div 64 mod 64 * 64 + k mod 64 = k"
    using split by linarith
  have le: "k < 0x110000" using assms by (auto simp: scalar_value_def)
  consider "k < 0x80" | "0x80 \<le> k" "k < 0x800" | "0x800 \<le> k" "k < 0x10000" | "0x10000 \<le> k" by linarith
  then show ?thesis
  proof cases
    case 1
    then show ?thesis using utf8_one [of "of_nat k" rest] by (simp add: utf8_encode_def unat_byte)
  next
    case 2
    then have "2 \<le> k div 64" "k div 64 < 32" by (simp_all add: div_less_iff_less_mult less_eq_div_iff_mult_less_eq)
    then have u: "unat (of_nat (192 + k div 64) :: byte) = 192 + k div 64" by (intro unat_byte) simp
    have v: "unat (of_nat (128 + k mod 64) :: byte) = 128 + k mod 64" using m by (intro unat_byte) simp
    have "IsValidUtf8 (of_nat (192 + k div 64) # of_nat (128 + k mod 64) # rest) = IsValidUtf8 rest"
      using utf8_two [of "of_nat (192 + k div 64)"] \<open>2 \<le> k div 64\<close> \<open>k div 64 < 32\<close> m assms split(1)
      by (simp add: u v continues_def del: of_nat_add)
    then show ?thesis using 2 by (simp add: utf8_encode_def)
  next
    case 3
    then have "k div 64 div 64 < 16" by (simp add: div_less_iff_less_mult)
    then have u: "unat (of_nat (224 + k div 4096) :: byte) = 224 + k div 64 div 64" by (subst d, intro unat_byte) simp
    have v: "unat (of_nat (128 + k div 64 mod 64) :: byte) = 128 + k div 64 mod 64"
      "unat (of_nat (128 + k mod 64) :: byte) = 128 + k mod 64" using m by (simp_all only: unat_byte)
    have "IsValidUtf8 (of_nat (224 + k div 4096) # of_nat (128 + k div 64 mod 64) # of_nat (128 + k mod 64) # rest) = IsValidUtf8 rest"
      using utf8_three [of "of_nat (224 + k div 4096)"] \<open>k div 64 div 64 < 16\<close> m assms 3 q
      by (simp add: u v continues_def del: of_nat_add)
    then show ?thesis using 3 by (simp add: utf8_encode_def)
  next
    case 4
    then have "k div 64 div 64 div 64 < 5" using le by (simp add: div_less_iff_less_mult)
    then have u: "unat (of_nat (240 + k div 262144) :: byte) = 240 + k div 64 div 64 div 64" by (subst d, intro unat_byte) simp
    have v: "unat (of_nat (128 + k div 64 mod 64) :: byte) = 128 + k div 64 mod 64"
      "unat (of_nat (128 + k div 4096 mod 64) :: byte) = 128 + k div 64 div 64 mod 64"
      "unat (of_nat (128 + k mod 64) :: byte) = 128 + k mod 64" using m by (simp_all only: unat_byte d)
    have "IsValidUtf8 (of_nat (240 + k div 262144) # of_nat (128 + k div 4096 mod 64) # of_nat (128 + k div 64 mod 64) #
        of_nat (128 + k mod 64) # rest) = IsValidUtf8 rest"
      using utf8_four [of "of_nat (240 + k div 262144)"] \<open>k div 64 div 64 div 64 < 5\<close> m assms 4 q4
      by (simp add: u v continues_def del: of_nat_add)
    then show ?thesis using 4 by (simp add: utf8_encode_def)
  qed
qed

lemma accepted_encoded:
  assumes "IsValidUtf8 (b # bs)"
  shows "\<exists>k rest. scalar_value k \<and> b # bs = utf8_encode k @ rest \<and> IsValidUtf8 rest"
proof -
  have byte: "of_nat (m + (unat x - m)) = x" if "m \<le> unat x" for m and x :: byte using that by simp
  have six: "unat c - 128 < 64" "128 \<le> unat c" if "continues c" for c using that by (auto simp: continues_def)
  have "\<not> (128 \<le> unat b \<and> (unat b < 194 \<or> 245 \<le> unat b))" using utf8_none assms by blast
  then consider "unat b < 128" | "194 \<le> unat b" "unat b < 224" | "224 \<le> unat b" "unat b < 240"
    | "240 \<le> unat b" "unat b < 245" by linarith
  then show ?thesis
  proof cases
    case 1
    then have "utf8_encode (unat b) = [b]" "scalar_value (unat b)" by (simp_all add: utf8_encode_def scalar_value_def)
    with assms utf8_one [OF 1] show ?thesis by (intro exI [of _ "unat b"] exI [of _ bs]) simp
  next
    case 2
    from assms [unfolded utf8_two [OF 2]] obtain c rest where
      c: "bs = c # rest" "continues c" "IsValidUtf8 rest" and s: "scalar_value ((unat b - 192) * 64 + (unat c - 128))" by blast
    let ?k = "(unat b - 192) * 64 + (unat c - 128)"
    have "\<not> ?k < 0x80" "?k < 0x800" using 2 six [OF c(2)] by linarith+
    then have "utf8_encode ?k = [of_nat (192 + (unat b - 192)), of_nat (128 + (unat c - 128))]"
      by (simp only: utf8_encode_def digits64 six [OF c(2)] if_True if_False list.map)
    then have "utf8_encode ?k = [b, c]" using byte [of 192 b] byte [of 128 c] 2 six [OF c(2)] by (simp del: of_nat_add)
    with s c show ?thesis by (intro exI [of _ ?k] exI [of _ rest]) simp
  next
    case 3
    from assms [unfolded utf8_three [OF 3]] obtain c d rest where
      c: "bs = c # d # rest" "continues c" "continues d" "IsValidUtf8 rest"
      and s: "0x800 \<le> ((unat b - 224) * 64 + (unat c - 128)) * 64 + (unat d - 128)"
        "scalar_value (((unat b - 224) * 64 + (unat c - 128)) * 64 + (unat d - 128))" by blast
    let ?j = "(unat b - 224) * 64 + (unat c - 128)"
    let ?k = "?j * 64 + (unat d - 128)"
    have "unat b - 224 < 16" using 3 by simp
    from bound64 [OF this six(1) [OF c(2)] six(1) [OF c(3)]] have "?k < 0x10000" .
    moreover have "\<not> ?k < 0x80" "\<not> ?k < 0x800" using s(1) by linarith+
    moreover have "?k div 4096 = unat b - 224"
      using div_mult2_eq [of ?k 64 64] by (simp only: digits64 six [OF c(2)] six [OF c(3)]) simp
    ultimately have "utf8_encode ?k =
        [of_nat (224 + (unat b - 224)), of_nat (128 + (unat c - 128)), of_nat (128 + (unat d - 128))]"
      by (simp only: utf8_encode_def digits64 six [OF c(2)] six [OF c(3)] if_True if_False list.map)
    then have "utf8_encode ?k = [b, c, d]"
      using byte [of 224 b] byte [of 128 c] byte [of 128 d] 3 six [OF c(2)] six [OF c(3)] by (simp del: of_nat_add)
    with s c show ?thesis by (intro exI [of _ ?k] exI [of _ rest]) simp
  next
    case 4
    from assms [unfolded utf8_four [OF 4]] obtain c d e rest where
      c: "bs = c # d # e # rest" "continues c" "continues d" "continues e" "IsValidUtf8 rest"
      and s: "0x10000 \<le> (((unat b - 240) * 64 + (unat c - 128)) * 64 + (unat d - 128)) * 64 + (unat e - 128)"
        "scalar_value ((((unat b - 240) * 64 + (unat c - 128)) * 64 + (unat d - 128)) * 64 + (unat e - 128))" by blast
    let ?i = "(unat b - 240) * 64 + (unat c - 128)"
    let ?j = "?i * 64 + (unat d - 128)"
    let ?k = "?j * 64 + (unat e - 128)"
    note six = six [OF c(2)] six [OF c(3)] six [OF c(4)]
    have "\<not> ?k < 0x10000" "\<not> ?k < 0x80" "\<not> ?k < 0x800" using s(1) by linarith+
    moreover have "?k div 4096 = ?i" "?k div 262144 = unat b - 240"
      using div_mult2_eq [of ?k 64 64] div_mult2_eq [of ?k 64 "64 * 64"] div_mult2_eq [of ?j 64 64]
      by (simp_all only: digits64 six) simp_all
    ultimately have "utf8_encode ?k = [of_nat (240 + (unat b - 240)), of_nat (128 + (unat c - 128)),
        of_nat (128 + (unat d - 128)), of_nat (128 + (unat e - 128))]"
      by (simp only: utf8_encode_def digits64 six if_True if_False list.map)
    then have "utf8_encode ?k = [b, c, d, e]"
      using byte [of 240 b] byte [of 128 c] byte [of 128 d] byte [of 128 e] 4 six by (simp del: of_nat_add)
    with s c show ?thesis by (intro exI [of _ ?k] exI [of _ rest]) simp
  qed
qed

text \<open>
  C40: the UTF-8 check accepts a byte string exactly when it is the encoding of a sequence of Unicode
  scalar values.
\<close>

theorem utf8_check_exact:
  "IsValidUtf8 bytes \<longleftrightarrow> (\<exists>ks. list_all scalar_value ks \<and> bytes = concat (map utf8_encode ks))"
proof
  show "\<exists>ks. list_all scalar_value ks \<and> bytes = concat (map utf8_encode ks)" if "IsValidUtf8 bytes"
    using that
  proof (induction "length bytes" arbitrary: bytes rule: less_induct)
    case less
    show ?case
    proof (cases bytes)
      case Nil
      then show ?thesis by (intro exI [of _ "[]"]) simp
    next
      case (Cons b bs)
      from accepted_encoded [OF less.prems [unfolded Cons]] obtain k rest where
        k: "scalar_value k" "bytes = utf8_encode k @ rest" "IsValidUtf8 rest" unfolding Cons by blast
      have "utf8_encode k \<noteq> []" by (simp add: utf8_encode_def)
      then have "length rest < length bytes" using k(2) by simp
      from less.hyps [OF this k(3)] obtain ks where "list_all scalar_value ks" "rest = concat (map utf8_encode ks)" by blast
      with k show ?thesis by (intro exI [of _ "k # ks"]) simp
    qed
  qed
next
  assume "\<exists>ks. list_all scalar_value ks \<and> bytes = concat (map utf8_encode ks)"
  then obtain ks where "list_all scalar_value ks" "bytes = concat (map utf8_encode ks)" by blast
  then show "IsValidUtf8 bytes" by (induction ks arbitrary: bytes) (simp_all add: encode_accepted)
qed

end
