(* ===== verification/Json_Parser.thy ===== *)
theory Json_Parser
  imports Bmx_Prelude
begin

text \<open>
  The JSON parser of the updater (\<open>json_parser.cpp\<close>), which reads the signed manifest and the
  release feed into an array of tokens the caller provides.

  The members of the class that never change after its constructor (the text, the capacity of the
  token array, the greatest depth) are the record \<open>json_source\<close>; the others are \<open>json_parser\<close>.  The
  tokens are the filled part of the array, so \<open>count_\<close> is their number.  A token index that is \<open>-1\<close>
  where there is none is an option.  Positions are \<open>uint32_t\<close> in a token: \<open>Run\<close> refuses texts above
  1 MiB, so no cast loses a bit, and they are natural numbers here.
\<close>

datatype JsonTokenType =
    JSON_TOKEN_INVALID | JSON_TOKEN_OBJECT | JSON_TOKEN_ARRAY | JSON_TOKEN_STRING | JSON_TOKEN_NUMBER
  | JSON_TOKEN_TRUE | JSON_TOKEN_FALSE | JSON_TOKEN_NULL

record JsonToken =
  token_type :: JsonTokenType
  token_start :: nat
  token_end :: nat
  token_parent :: "nat option"
  child_count :: nat

datatype JsonError =
    JSON_OK | JSON_ERROR_ARGUMENT | JSON_ERROR_TOO_LARGE | JSON_ERROR_TOO_DEEP | JSON_ERROR_TOKEN_LIMIT
  | JSON_ERROR_SYNTAX | JSON_ERROR_STRING | JSON_ERROR_NUMBER | JSON_ERROR_DUPLICATE_KEY
  | JSON_ERROR_TRAILING_DATA | JSON_ERROR_NOT_FOUND | JSON_ERROR_TYPE | JSON_ERROR_RANGE
  | JSON_ERROR_OUTPUT_TOO_SMALL

record JsonParseResult =
  result_error :: JsonError
  token_count :: nat
  error_offset :: nat

definition kMaximumJsonBytes :: nat where
  "kMaximumJsonBytes = 1024 * 1024"

section \<open>The state of the parser\<close>

record json_source =
  json_text :: "byte list"
  token_capacity :: nat
  max_depth :: nat

record json_parser =
  parsed_tokens :: "JsonToken list"
  position :: nat
  parser_error :: JsonError
  parser_error_offset :: nat

definition JsonFail :: "JsonError \<Rightarrow> nat \<Rightarrow> json_parser \<Rightarrow> json_parser" where
  "JsonFail e offset st =
     (if parser_error st = JSON_OK then st\<lparr>parser_error := e, parser_error_offset := offset\<rparr> else st)"

definition move_to :: "nat \<Rightarrow> json_parser \<Rightarrow> json_parser" where
  "move_to p st = st\<lparr>position := p\<rparr>"

definition json_blank :: "byte \<Rightarrow> bool" where
  "json_blank c \<longleftrightarrow> c = ch CHR '' '' \<or> c = 9 \<or> c = 13 \<or> c = 10"

text \<open>The loops that only advance the position: over blanks and over digits.\<close>

function skip_while :: "(byte \<Rightarrow> bool) \<Rightarrow> byte list \<Rightarrow> nat \<Rightarrow> nat" where
  "skip_while P js p = (if p < length js \<and> P (js ! p) then skip_while P js (Suc p) else p)"
  by pat_completeness auto
termination
  by (relation "measure (\<lambda>(P, js, p). length js - p)") auto

declare skip_while.simps [simp del]

definition SkipWhitespace :: "json_source \<Rightarrow> json_parser \<Rightarrow> json_parser" where
  "SkipWhitespace src st = move_to (skip_while json_blank (json_text src) (position st)) st"

definition AddToken ::
  "json_source \<Rightarrow> JsonTokenType \<Rightarrow> nat \<Rightarrow> nat option \<Rightarrow> json_parser \<Rightarrow> nat option \<times> json_parser" where
  "AddToken src type start parent st =
     (if length (parsed_tokens st) \<ge> token_capacity src
      then (None, JsonFail JSON_ERROR_TOKEN_LIMIT (position st) st)
      else
        let tokens = parsed_tokens st @ [\<lparr>token_type = type, token_start = start, token_end = start,
              token_parent = parent, child_count = 0\<rparr>];
            tokens = (case parent of
                None \<Rightarrow> tokens
              | Some i \<Rightarrow> tokens[i := (tokens ! i)\<lparr>child_count := Suc (child_count (tokens ! i))\<rparr>])
        in (Some (length (parsed_tokens st)), st\<lparr>parsed_tokens := tokens\<rparr>))"

definition set_token_end :: "nat \<Rightarrow> nat \<Rightarrow> json_parser \<Rightarrow> json_parser" where
  "set_token_end i e st =
     st\<lparr>parsed_tokens := (parsed_tokens st)[i := (parsed_tokens st ! i)\<lparr>token_end := e\<rparr>]\<rparr>"

section \<open>Strings\<close>

text \<open>
  The loop over four hexadecimal digits, shared by \<open>ParseHex4\<close> and \<open>DecodeHex4\<close>.
\<close>

primrec hex4_loop :: "u32 \<Rightarrow> byte list \<Rightarrow> u32 option" where
  "hex4_loop result [] = Some result"
| "hex4_loop result (c # cs) =
     (case hex_digit c of
        None \<Rightarrow> None
      | Some digit \<Rightarrow> hex4_loop (push_bit 4 result OR of_nat digit) cs)"

definition ParseHex4 :: "byte list \<Rightarrow> nat \<Rightarrow> u32 option" where
  "ParseHex4 js offset = hex4_loop 0 (take 4 (drop offset js))"

text \<open>\<open>strchr\<close> also finds the NUL that ends the string it searches.\<close>

definition strchr_finds :: "byte list \<Rightarrow> byte \<Rightarrow> bool" where
  "strchr_finds s c \<longleftrightarrow> c \<in> set s \<or> c = 0"

definition escape_letters :: "byte list" where
  "escape_letters = [ch CHR 0x22, ch CHR 0x5C] @ bytes_of ''/bfnrt''"

definition ParseEscape :: "json_source \<Rightarrow> json_parser \<Rightarrow> bool \<times> json_parser" where
  "ParseEscape src st =
     (let js = json_text src; slash = position st; st = move_to (Suc slash) st in
      if position st \<ge> length js then (False, JsonFail JSON_ERROR_STRING slash st)
      else
        let escaped = js ! position st; st = move_to (Suc (position st)) st in
        if strchr_finds escape_letters escaped then (True, st)
        else if escaped \<noteq> ch CHR ''u'' \<or> position st + 4 > length js
        then (False, JsonFail JSON_ERROR_STRING slash st)
        else (case ParseHex4 js (position st) of
            None \<Rightarrow> (False, JsonFail JSON_ERROR_STRING (position st) st)
          | Some codepoint \<Rightarrow>
              let st = move_to (position st + 4) st in
              if 0xd800 \<le> codepoint \<and> codepoint \<le> 0xdbff then
                (if position st + 6 > length js \<or> js ! position st \<noteq> ch CHR 0x5C \<or>
                    js ! Suc (position st) \<noteq> ch CHR ''u''
                 then (False, JsonFail JSON_ERROR_STRING (position st) st)
                 else (case ParseHex4 js (position st + 2) of
                     None \<Rightarrow> (False, JsonFail JSON_ERROR_STRING (position st + 2) st)
                   | Some low \<Rightarrow>
                       if low < 0xdc00 \<or> low > 0xdfff
                       then (False, JsonFail JSON_ERROR_STRING (position st + 2) st)
                       else (True, move_to (position st + 6) st)))
              else if 0xdc00 \<le> codepoint \<and> codepoint \<le> 0xdfff
              then (False, JsonFail JSON_ERROR_STRING (position st - 4) st)
              else (True, st)))"

definition utf8_first :: "byte \<Rightarrow> (nat \<times> u32) option" where
  "utf8_first first =
     (if 0xc2 \<le> first \<and> first \<le> 0xdf then Some (2, ucast (first AND 0x1f))
      else if 0xe0 \<le> first \<and> first \<le> 0xef then Some (3, ucast (first AND 0x0f))
      else if 0xf0 \<le> first \<and> first \<le> 0xf4 then Some (4, ucast (first AND 0x07))
      else None)"

text \<open>The loop over the continuation bytes; the left value is the position of a byte that is none.\<close>

primrec utf8_continue :: "nat \<Rightarrow> u32 \<Rightarrow> byte list \<Rightarrow> nat + u32" where
  "utf8_continue p codepoint [] = Inr codepoint"
| "utf8_continue p codepoint (c # cs) =
     (if c AND 0xc0 \<noteq> 0x80 then Inl p
      else utf8_continue (Suc p) (push_bit 6 codepoint OR ucast (c AND 0x3f)) cs)"

definition ConsumeUtf8 :: "json_source \<Rightarrow> json_parser \<Rightarrow> bool \<times> json_parser" where
  "ConsumeUtf8 src st =
     (let js = json_text src; start = position st in
      case utf8_first (js ! start) of
        None \<Rightarrow> (False, JsonFail JSON_ERROR_STRING start st)
      | Some (count, bits) \<Rightarrow>
          if position st + count > length js then (False, JsonFail JSON_ERROR_STRING start st)
          else (case utf8_continue (Suc (position st)) bits
                  (take (count - 1) (drop (Suc (position st)) js)) of
              Inl bad \<Rightarrow> (False, JsonFail JSON_ERROR_STRING bad st)
            | Inr codepoint \<Rightarrow>
                if (count = 3 \<and> codepoint < 0x800) \<or> (count = 4 \<and> codepoint < 0x10000) \<or>
                   (0xd800 \<le> codepoint \<and> codepoint \<le> 0xdfff) \<or> codepoint > 0x10ffff
                then (False, JsonFail JSON_ERROR_STRING start st)
                else (True, move_to (position st + (count - 1)) st)))"

lemma ParseEscape_moves:
  "ParseEscape src st = (True, st') \<Longrightarrow> position st < position st'"
  by (auto simp: ParseEscape_def Let_def move_to_def split: if_splits option.splits)

lemma ConsumeUtf8_moves:
  "ConsumeUtf8 src st = (True, st') \<Longrightarrow> position st < Suc (position st')"
  by (auto simp: ConsumeUtf8_def Let_def move_to_def split: if_splits option.splits sum.splits prod.splits)

function string_loop ::
  "json_source \<Rightarrow> nat option \<Rightarrow> bool \<Rightarrow> bool \<Rightarrow> nat \<Rightarrow> json_parser \<Rightarrow> nat option \<times> json_parser" where
  "string_loop src parent object_key escaped start st =
     (if position st \<ge> length (json_text src) then (None, JsonFail JSON_ERROR_STRING (position st) st)
      else
        let c = json_text src ! position st in
        if c = ch CHR 0x22 then
          (let e = position st; st = move_to (Suc e) st in
           if object_key \<and> escaped then (None, JsonFail JSON_ERROR_STRING start st)
           else (case AddToken src JSON_TOKEN_STRING start parent st of
               (None, st) \<Rightarrow> (None, st)
             | (Some token, st) \<Rightarrow> (Some token, set_token_end token e st)))
        else if c < 0x20 then (None, JsonFail JSON_ERROR_STRING (position st) st)
        else if c = ch CHR 0x5C then
          (case ParseEscape src st of
             (True, st) \<Rightarrow> string_loop src parent object_key True start st
           | (False, st) \<Rightarrow> (None, st))
        else if object_key \<and> (c < 0x21 \<or> c > 0x7e)
        then (None, JsonFail JSON_ERROR_STRING (position st) st)
        else if c \<ge> 0x80 then
          (case ConsumeUtf8 src st of
             (True, st) \<Rightarrow> string_loop src parent object_key escaped start (move_to (Suc (position st)) st)
           | (False, st) \<Rightarrow> (None, st))
        else string_loop src parent object_key escaped start (move_to (Suc (position st)) st))"
  by pat_completeness auto
termination
  by (relation "measure (\<lambda>(src, parent, object_key, escaped, start, st). length (json_text src) - position st)")
    (auto simp: move_to_def dest!: ParseEscape_moves [OF sym] ConsumeUtf8_moves [OF sym])

declare string_loop.simps [simp del]

definition ParseString ::
  "json_source \<Rightarrow> nat option \<Rightarrow> bool \<Rightarrow> json_parser \<Rightarrow> nat option \<times> json_parser" where
  "ParseString src parent object_key st =
     (let st = move_to (Suc (position st)) st
      in string_loop src parent object_key False (position st) st)"

section \<open>Literals and numbers\<close>

definition ParseLiteral ::
  "json_source \<Rightarrow> nat option \<Rightarrow> byte list \<Rightarrow> JsonTokenType \<Rightarrow> json_parser \<Rightarrow> bool \<times> json_parser" where
  "ParseLiteral src parent literal type st =
     (let start = position st in
      if start + length literal > length (json_text src) \<or>
         take (length literal) (drop start (json_text src)) \<noteq> literal
      then (False, JsonFail JSON_ERROR_SYNTAX start st)
      else (case AddToken src type start parent (move_to (start + length literal) st) of
          (None, st) \<Rightarrow> (False, st)
        | (Some token, st) \<Rightarrow> (True, set_token_end token (position st) st)))"

text \<open>
  The three parts of a number: the right value is the position behind the part, the left one the
  position at which the part is found to be wrong.
\<close>

definition number_integer :: "byte list \<Rightarrow> nat \<Rightarrow> nat + nat" where
  "number_integer js p =
     (if js ! p = ch CHR ''0''
      then (if Suc p < length js \<and> is_digit (js ! Suc p) then Inl (Suc p) else Inr (Suc p))
      else if ch CHR ''1'' \<le> js ! p \<and> js ! p \<le> ch CHR ''9'' then Inr (skip_while is_digit js (Suc p))
      else Inl p)"

definition number_fraction :: "byte list \<Rightarrow> nat \<Rightarrow> nat + nat" where
  "number_fraction js p =
     (if p < length js \<and> js ! p = ch CHR ''.''
      then (if Suc p \<ge> length js \<or> \<not> is_digit (js ! Suc p) then Inl (Suc p)
            else Inr (skip_while is_digit js (Suc p)))
      else Inr p)"

definition number_exponent :: "byte list \<Rightarrow> nat \<Rightarrow> nat + nat" where
  "number_exponent js p =
     (if p < length js \<and> (js ! p = ch CHR ''e'' \<or> js ! p = ch CHR ''E'')
      then
        let p = Suc p;
            p = (if p < length js \<and> (js ! p = ch CHR ''+'' \<or> js ! p = ch CHR ''-'') then Suc p else p)
        in if p \<ge> length js \<or> \<not> is_digit (js ! p) then Inl p else Inr (skip_while is_digit js p)
      else Inr p)"

definition ParseNumber :: "json_source \<Rightarrow> nat option \<Rightarrow> json_parser \<Rightarrow> bool \<times> json_parser" where
  "ParseNumber src parent st =
     (let js = json_text src; start = position st;
          p = (if js ! start = ch CHR ''-'' then Suc start else start) in
      if js ! start = ch CHR ''-'' \<and> p \<ge> length js
      then (False, JsonFail JSON_ERROR_NUMBER start (move_to p st))
      else (case number_integer js p of
          Inl p \<Rightarrow> (False, JsonFail JSON_ERROR_NUMBER p (move_to p st))
        | Inr p \<Rightarrow> (case number_fraction js p of
              Inl p \<Rightarrow> (False, JsonFail JSON_ERROR_NUMBER p (move_to p st))
            | Inr p \<Rightarrow> (case number_exponent js p of
                  Inl p \<Rightarrow> (False, JsonFail JSON_ERROR_NUMBER p (move_to p st))
                | Inr p \<Rightarrow> (case AddToken src JSON_TOKEN_NUMBER start parent (move_to p st) of
                      (None, st) \<Rightarrow> (False, st)
                    | (Some token, st) \<Rightarrow> (True, set_token_end token (position st) st))))))"

text \<open>How far the methods above move.\<close>

lemma skip_while_ge: "p \<le> skip_while P js p"
  by (induction P js p rule: skip_while.induct) (subst skip_while.simps, auto)

lemma move_to_simps [simp]:
  "position (move_to p st) = p" "parsed_tokens (move_to p st) = parsed_tokens st"
  "parser_error (move_to p st) = parser_error st" "move_to p (move_to q st) = move_to p st"
  by (simp_all add: move_to_def)

lemma set_token_end_simps [simp]:
  "position (set_token_end i e st) = position st" "parser_error (set_token_end i e st) = parser_error st"
  by (simp_all add: set_token_end_def)

lemma SkipWhitespace_ge: "position st \<le> position (SkipWhitespace src st)"
  by (simp add: SkipWhitespace_def skip_while_ge)

lemma AddToken_position: "AddToken src type start parent st = (Some i, st') \<Longrightarrow> position st' = position st"
  by (auto simp: AddToken_def Let_def split: if_splits)

lemma string_loop_moves:
  "string_loop src parent object_key escaped start st = (Some i, st') \<Longrightarrow> position st < position st'"
proof (induction "length (json_text src) - position st" arbitrary: escaped st rule: less_induct)
  case less
  note step = less.prems [unfolded string_loop.simps [of src parent object_key escaped start st]]
  have IH: "position s < position st'"
    if "position st < position s" "\<not> length (json_text src) \<le> position st"
      "string_loop src parent object_key e start s = (Some i, st')" for e s
    using less.hyps that by simp
  show ?case
    using step
    by (simp add: Let_def split: if_split_asm prod.splits bool.splits option.splits)
      (auto dest!: AddToken_position IH [rotated 2] dest: ParseEscape_moves ConsumeUtf8_moves)
qed

lemma ParseString_moves: "ParseString src parent k st = (Some i, st') \<Longrightarrow> position st < position st'"
  by (auto simp: ParseString_def Let_def dest!: string_loop_moves)

lemma ParseLiteral_moves:
  "ParseLiteral src parent literal type st = (True, st') \<Longrightarrow> literal \<noteq> [] \<Longrightarrow> position st < position st'"
  by (auto simp: ParseLiteral_def Let_def split: if_splits prod.splits option.splits dest!: AddToken_position)

lemma number_part_moves:
  "number_integer js p = Inr q \<Longrightarrow> p < q"
  "number_fraction js p = Inr q \<Longrightarrow> p \<le> q"
  "number_exponent js p = Inr q \<Longrightarrow> p \<le> q"
  using skip_while_ge [of "Suc p" is_digit js] skip_while_ge [of "Suc (Suc p)" is_digit js]
  by (auto simp: number_integer_def number_fraction_def number_exponent_def Let_def split: if_splits)

lemma ParseNumber_moves: "ParseNumber src parent st = (True, st') \<Longrightarrow> position st < position st'"
  by (auto simp: ParseNumber_def Let_def split: if_splits prod.splits option.splits sum.splits
      dest!: AddToken_position number_part_moves)

section \<open>Objects, arrays, values\<close>

definition key_bytes :: "byte list \<Rightarrow> JsonToken \<Rightarrow> byte list" where
  "key_bytes js t = segment js (token_start t) (token_end t)"

text \<open>How many direct children of \<open>object\<close> stand among the tokens up to the one at \<open>i\<close>.\<close>

definition child_ordinal :: "JsonToken list \<Rightarrow> nat \<Rightarrow> nat \<Rightarrow> nat" where
  "child_ordinal tokens object i =
     length (filter (\<lambda>j. token_parent (tokens ! j) = Some object) [Suc object..<Suc i])"

definition HasDuplicateObjectKey :: "json_source \<Rightarrow> json_parser \<Rightarrow> nat \<Rightarrow> nat \<Rightarrow> bool" where
  "HasDuplicateObjectKey src st object newest_key =
     (let tokens = parsed_tokens st; newest = tokens ! newest_key in
      list_ex (\<lambda>i. let candidate = tokens ! i in
          token_parent candidate = Some object \<and> token_type candidate = JSON_TOKEN_STRING \<and>
          odd (child_ordinal tokens object i) \<and>
          token_end candidate - token_start candidate = token_end newest - token_start newest \<and>
          key_bytes (json_text src) candidate = key_bytes (json_text src) newest)
        [Suc object..<newest_key])"

text \<open>
  The recursive methods.  \<open>object_loop\<close> and \<open>array_loop\<close> are the while loops of \<open>ParseObject\<close> and
  \<open>ParseArray\<close>.  Each turn of a loop and each level of nesting consumes text, which is what the
  termination proof shows.
\<close>

function ParseValue :: "json_source \<Rightarrow> nat option \<Rightarrow> nat \<Rightarrow> json_parser \<Rightarrow> bool \<times> json_parser"
  and ParseObject :: "json_source \<Rightarrow> nat option \<Rightarrow> nat \<Rightarrow> json_parser \<Rightarrow> bool \<times> json_parser"
  and object_loop :: "json_source \<Rightarrow> nat \<Rightarrow> nat \<Rightarrow> json_parser \<Rightarrow> bool \<times> json_parser"
  and ParseArray :: "json_source \<Rightarrow> nat option \<Rightarrow> nat \<Rightarrow> json_parser \<Rightarrow> bool \<times> json_parser"
  and array_loop :: "json_source \<Rightarrow> nat \<Rightarrow> nat \<Rightarrow> json_parser \<Rightarrow> bool \<times> json_parser"
where
  "ParseValue src parent depth st =
     (if depth \<ge> max_depth src then (False, JsonFail JSON_ERROR_TOO_DEEP (position st) st)
      else
        let js = json_text src; st = SkipWhitespace src st in
        if position st \<ge> length js then (False, JsonFail JSON_ERROR_SYNTAX (position st) st)
        else
          let c = js ! position st in
          if c = ch CHR ''{'' then ParseObject src parent (Suc depth) st
          else if c = ch CHR ''['' then ParseArray src parent (Suc depth) st
          else if c = ch CHR 0x22
          then (case ParseString src parent False st of (token, st) \<Rightarrow> (token \<noteq> None, st))
          else if c = ch CHR ''t'' then ParseLiteral src parent (bytes_of ''true'') JSON_TOKEN_TRUE st
          else if c = ch CHR ''f'' then ParseLiteral src parent (bytes_of ''false'') JSON_TOKEN_FALSE st
          else if c = ch CHR ''n'' then ParseLiteral src parent (bytes_of ''null'') JSON_TOKEN_NULL st
          else if c = ch CHR ''-'' \<or> is_digit c then ParseNumber src parent st
          else (False, JsonFail JSON_ERROR_SYNTAX (position st) st))"
| "ParseObject src parent depth st =
     (let js = json_text src; start = position st; st = move_to (Suc start) st in
      case AddToken src JSON_TOKEN_OBJECT start parent st of
        (None, st) \<Rightarrow> (False, st)
      | (Some object, st) \<Rightarrow>
          let st = SkipWhitespace src st in
          if position st < length js \<and> js ! position st = ch CHR ''}''
          then (let st = move_to (Suc (position st)) st in (True, set_token_end object (position st) st))
          else object_loop src object depth st)"
| "object_loop src object depth st =
     (let js = json_text src in
      if position st \<ge> length js then (False, JsonFail JSON_ERROR_SYNTAX (position st) st)
      else if js ! position st \<noteq> ch CHR 0x22 then (False, JsonFail JSON_ERROR_SYNTAX (position st) st)
      else (case ParseString src (Some object) True st of
          (None, st) \<Rightarrow> (False, st)
        | (Some key, st) \<Rightarrow>
            if HasDuplicateObjectKey src st object key
            then (False, JsonFail JSON_ERROR_DUPLICATE_KEY (token_start (parsed_tokens st ! key)) st)
            else
              let st = SkipWhitespace src st in
              if position st \<ge> length js \<or> js ! position st \<noteq> ch CHR '':''
              then (False, JsonFail JSON_ERROR_SYNTAX (position st) st)
              else (case ParseValue src (Some object) depth (move_to (Suc (position st)) st) of
                  (False, st) \<Rightarrow> (False, st)
                | (True, st) \<Rightarrow>
                    let st = SkipWhitespace src st in
                    if position st \<ge> length js then (False, JsonFail JSON_ERROR_SYNTAX (position st) st)
                    else if js ! position st = ch CHR ''}''
                    then (let st = move_to (Suc (position st)) st
                          in (True, set_token_end object (position st) st))
                    else if js ! position st \<noteq> ch CHR '',''
                    then (False, JsonFail JSON_ERROR_SYNTAX (position st) st)
                    else object_loop src object depth
                           (SkipWhitespace src (move_to (Suc (position st)) st)))))"
| "ParseArray src parent depth st =
     (let js = json_text src; start = position st; st = move_to (Suc start) st in
      case AddToken src JSON_TOKEN_ARRAY start parent st of
        (None, st) \<Rightarrow> (False, st)
      | (Some array, st) \<Rightarrow>
          let st = SkipWhitespace src st in
          if position st < length js \<and> js ! position st = ch CHR '']''
          then (let st = move_to (Suc (position st)) st in (True, set_token_end array (position st) st))
          else array_loop src array depth st)"
| "array_loop src array depth st =
     (let js = json_text src in
      if position st \<ge> length js then (False, JsonFail JSON_ERROR_SYNTAX (position st) st)
      else (case ParseValue src (Some array) depth st of
          (False, st) \<Rightarrow> (False, st)
        | (True, st) \<Rightarrow>
            let st = SkipWhitespace src st in
            if position st \<ge> length js then (False, JsonFail JSON_ERROR_SYNTAX (position st) st)
            else if js ! position st = ch CHR '']''
            then (let st = move_to (Suc (position st)) st
                  in (True, set_token_end array (position st) st))
            else if js ! position st \<noteq> ch CHR '',''
            then (False, JsonFail JSON_ERROR_SYNTAX (position st) st)
            else array_loop src array depth
                   (SkipWhitespace src (move_to (Suc (position st)) st))))"
  by pat_completeness auto

text \<open>What a successful turn of a loop consists of, and a successful value.\<close>

abbreviation parser_dom where
  "parser_dom \<equiv> ParseValue_ParseObject_object_loop_ParseArray_array_loop_dom"

lemma object_loop_inv:
  assumes "parser_dom (Inr (Inl (src, object, depth, st)))" and "object_loop src object depth st = (True, st')"
  obtains key s1 s2 where "position st < length (json_text src)" "json_text src ! position st = ch CHR 0x22"
    "ParseString src (Some object) True st = (Some key, s1)" "\<not> HasDuplicateObjectKey src s1 object key"
    "position (SkipWhitespace src s1) < length (json_text src)"
    "json_text src ! position (SkipWhitespace src s1) = ch CHR '':''"
    "ParseValue src (Some object) depth (move_to (Suc (position (SkipWhitespace src s1))) (SkipWhitespace src s1)) = (True, s2)"
    "position (SkipWhitespace src s2) < length (json_text src)"
    "(json_text src ! position (SkipWhitespace src s2) = ch CHR ''}'' \<and>
      st' = set_token_end object (Suc (position (SkipWhitespace src s2)))
              (move_to (Suc (position (SkipWhitespace src s2))) (SkipWhitespace src s2))) \<or>
     (json_text src ! position (SkipWhitespace src s2) = ch CHR '','' \<and>
      object_loop src object depth
        (SkipWhitespace src (move_to (Suc (position (SkipWhitespace src s2))) (SkipWhitespace src s2))) = (True, st'))"
  using assms(2) unfolding object_loop.psimps [OF assms(1)]
  by (auto simp: Let_def linorder_not_le split: if_split_asm option.splits prod.splits bool.splits)

lemma array_loop_inv:
  assumes "parser_dom (Inr (Inr (Inr (src, array, depth, st))))" and "array_loop src array depth st = (True, st')"
  obtains s2 where "position st < length (json_text src)"
    "ParseValue src (Some array) depth st = (True, s2)"
    "position (SkipWhitespace src s2) < length (json_text src)"
    "(json_text src ! position (SkipWhitespace src s2) = ch CHR '']'' \<and>
      st' = set_token_end array (Suc (position (SkipWhitespace src s2)))
              (move_to (Suc (position (SkipWhitespace src s2))) (SkipWhitespace src s2))) \<or>
     (json_text src ! position (SkipWhitespace src s2) = ch CHR '','' \<and>
      array_loop src array depth
        (SkipWhitespace src (move_to (Suc (position (SkipWhitespace src s2))) (SkipWhitespace src s2))) = (True, st'))"
  using assms(2) unfolding array_loop.psimps [OF assms(1)]
  by (auto simp: Let_def linorder_not_le split: if_split_asm option.splits prod.splits bool.splits)

lemma ParseObject_inv:
  assumes "parser_dom (Inl (Inr (src, parent, depth, st)))" and "ParseObject src parent depth st = (True, st')"
  obtains object s1 where "AddToken src JSON_TOKEN_OBJECT (position st) parent (move_to (Suc (position st)) st) = (Some object, s1)"
    "(position (SkipWhitespace src s1) < length (json_text src) \<and>
      json_text src ! position (SkipWhitespace src s1) = ch CHR ''}'' \<and>
      st' = set_token_end object (Suc (position (SkipWhitespace src s1)))
              (move_to (Suc (position (SkipWhitespace src s1))) (SkipWhitespace src s1))) \<or>
     (\<not> (position (SkipWhitespace src s1) < length (json_text src) \<and>
         json_text src ! position (SkipWhitespace src s1) = ch CHR ''}'') \<and>
      object_loop src object depth (SkipWhitespace src s1) = (True, st'))"
  using assms(2) unfolding ParseObject.psimps [OF assms(1)]
  by (auto simp: Let_def split: if_split_asm option.splits prod.splits)

lemma ParseArray_inv:
  assumes "parser_dom (Inr (Inr (Inl (src, parent, depth, st))))" and "ParseArray src parent depth st = (True, st')"
  obtains array s1 where "AddToken src JSON_TOKEN_ARRAY (position st) parent (move_to (Suc (position st)) st) = (Some array, s1)"
    "(position (SkipWhitespace src s1) < length (json_text src) \<and>
      json_text src ! position (SkipWhitespace src s1) = ch CHR '']'' \<and>
      st' = set_token_end array (Suc (position (SkipWhitespace src s1)))
              (move_to (Suc (position (SkipWhitespace src s1))) (SkipWhitespace src s1))) \<or>
     (\<not> (position (SkipWhitespace src s1) < length (json_text src) \<and>
         json_text src ! position (SkipWhitespace src s1) = ch CHR '']'') \<and>
      array_loop src array depth (SkipWhitespace src s1) = (True, st'))"
  using assms(2) unfolding ParseArray.psimps [OF assms(1)]
  by (auto simp: Let_def split: if_split_asm option.splits prod.splits)

lemma ParseValue_inv:
  assumes "parser_dom (Inl (Inl (src, parent, depth, st)))" and "ParseValue src parent depth st = (True, st')"
  obtains (object) "depth < max_depth src" "position (SkipWhitespace src st) < length (json_text src)"
      "json_text src ! position (SkipWhitespace src st) = ch CHR ''{''"
      "ParseObject src parent (Suc depth) (SkipWhitespace src st) = (True, st')"
    | (array) "depth < max_depth src" "position (SkipWhitespace src st) < length (json_text src)"
      "json_text src ! position (SkipWhitespace src st) = ch CHR ''[''"
      "ParseArray src parent (Suc depth) (SkipWhitespace src st) = (True, st')"
    | (string_value) i where "depth < max_depth src" "position (SkipWhitespace src st) < length (json_text src)"
      "json_text src ! position (SkipWhitespace src st) = ch CHR 0x22"
      "ParseString src parent False (SkipWhitespace src st) = (Some i, st')"
    | (literal) l type where "depth < max_depth src" "position (SkipWhitespace src st) < length (json_text src)"
      "(l, type) \<in> {(bytes_of ''true'', JSON_TOKEN_TRUE), (bytes_of ''false'', JSON_TOKEN_FALSE),
        (bytes_of ''null'', JSON_TOKEN_NULL)}"
      "ParseLiteral src parent l type (SkipWhitespace src st) = (True, st')"
    | (number) "depth < max_depth src" "position (SkipWhitespace src st) < length (json_text src)"
      "ParseNumber src parent (SkipWhitespace src st) = (True, st')"
proof -
  note step = assms(2) [unfolded ParseValue.psimps [OF assms(1)] Let_def]
  let ?s = "SkipWhitespace src st"
  let ?c = "json_text src ! position ?s"
  have ok: "depth < max_depth src" "position ?s < length (json_text src)"
    using step by (auto simp: linorder_not_le split: if_split_asm)
  consider "?c = ch CHR ''{''" | "?c = ch CHR ''[''" | "?c = ch CHR 0x22" | "?c = ch CHR ''t''"
    | "?c = ch CHR ''f''" | "?c = ch CHR ''n''" | "?c \<notin> {ch CHR ''{'', ch CHR ''['', ch CHR 0x22, ch CHR ''t'', ch CHR ''f'', ch CHR ''n''}"
    by blast
  then show thesis
  proof cases
    case 1 then show thesis using step ok by (intro object) simp_all
  next
    case 2 then show thesis using step ok by (intro array) simp_all
  next
    case 3
    with step ok obtain i where "ParseString src parent False ?s = (Some i, st')"
      by (cases "ParseString src parent False ?s") auto
    with 3 ok show thesis by (intro string_value)
  next
    case 4 then show thesis using step ok by (intro literal) simp_all
  next
    case 5 then show thesis using step ok by (intro literal) simp_all
  next
    case 6 then show thesis using step ok by (intro literal) simp_all
  next
    case 7 then show thesis using step ok by (intro number) (simp_all split: if_split_asm)
  qed
qed

lemma progress_partial:
  "parser_dom (Inl (Inl (src, parent, depth, st))) \<Longrightarrow>
     ParseValue src parent depth st = (True, st') \<Longrightarrow> position st < position st'"
  "parser_dom (Inl (Inr (src, parent, depth, st))) \<Longrightarrow>
     ParseObject src parent depth st = (True, st') \<Longrightarrow> position st < position st'"
  "parser_dom (Inr (Inl (src, object, depth, st))) \<Longrightarrow>
     object_loop src object depth st = (True, st') \<Longrightarrow> position st < position st'"
  "parser_dom (Inr (Inr (Inl (src, parent, depth, st)))) \<Longrightarrow>
     ParseArray src parent depth st = (True, st') \<Longrightarrow> position st < position st'"
  "parser_dom (Inr (Inr (Inr (src, object, depth, st)))) \<Longrightarrow>
     array_loop src object depth st = (True, st') \<Longrightarrow> position st < position st'"
proof (induction arbitrary: st' and st' and st' and st' and st'
    rule: ParseValue_ParseObject_object_loop_ParseArray_array_loop.pinduct)
  case (1 src parent depth st)
  note ge = le_less_trans [OF SkipWhitespace_ge [of st src]]
  from "1.hyps" "1.prems" show ?case
  proof (cases rule: ParseValue_inv)
    case object
    then show ?thesis by (intro ge "1.IH"(1) [OF _ refl refl _ refl]) simp_all
  next
    case array
    then show ?thesis by (intro ge "1.IH"(2) [OF _ refl refl _ refl]) simp_all
  next
    case (string_value i)
    then show ?thesis by (intro ge ParseString_moves)
  next
    case (literal l type)
    then show ?thesis by (intro ge ParseLiteral_moves) auto
  next
    case number
    then show ?thesis by (intro ge ParseNumber_moves)
  qed
next
  case (2 src parent depth st)
  from "2.hyps" "2.prems" show ?case
  proof (cases rule: ParseObject_inv)
    case (1 object s1)
    have lt: "position st < position (SkipWhitespace src s1)"
      using AddToken_position [OF 1(1)] SkipWhitespace_ge [of s1 src] by simp
    from 1(2) show ?thesis
    proof
      assume "\<not> (position (SkipWhitespace src s1) < length (json_text src) \<and>
         json_text src ! position (SkipWhitespace src s1) = ch CHR ''}'') \<and>
        object_loop src object depth (SkipWhitespace src s1) = (True, st')"
      then show ?thesis
        using "2.IH" [OF refl refl refl 1(1) [symmetric] refl refl, of st'] lt by simp
    qed (use lt in simp)
  qed
next
  case (3 src object depth st)
  from "3.hyps" "3.prems" show ?case
  proof (cases rule: object_loop_inv)
    case (1 key s1 s2)
    have "position s1 < position s2"
      using "3.IH"(1) [OF refl _ _ 1(3) [symmetric] refl _ refl _ 1(7)] 1 SkipWhitespace_ge [of s1 src] by simp
    moreover have "position st < position s1" using 1(3) by (rule ParseString_moves)
    ultimately have lt: "position st < position (SkipWhitespace src s2)"
      using SkipWhitespace_ge [of s2 src] by simp
    let ?next = "SkipWhitespace src (move_to (Suc (position (SkipWhitespace src s2))) (SkipWhitespace src s2))"
    from 1(9) show ?thesis
    proof
      assume a: "json_text src ! position (SkipWhitespace src s2) = ch CHR '','' \<and>
        object_loop src object depth ?next = (True, st')"
      then have "position ?next < position st'"
        using "3.IH"(2) [OF refl _ _ 1(3) [symmetric] refl _ refl _ 1(7) [symmetric] refl refl, of st'] 1 by simp
      with lt SkipWhitespace_ge [of "move_to (Suc (position (SkipWhitespace src s2))) (SkipWhitespace src s2)" src]
      show ?thesis by simp
    qed (use lt in simp)
  qed
next
  case (4 src parent depth st)
  from "4.hyps" "4.prems" show ?case
  proof (cases rule: ParseArray_inv)
    case (1 array s1)
    have lt: "position st < position (SkipWhitespace src s1)"
      using AddToken_position [OF 1(1)] SkipWhitespace_ge [of s1 src] by simp
    from 1(2) show ?thesis
    proof
      assume "\<not> (position (SkipWhitespace src s1) < length (json_text src) \<and>
         json_text src ! position (SkipWhitespace src s1) = ch CHR '']'') \<and>
        array_loop src array depth (SkipWhitespace src s1) = (True, st')"
      then show ?thesis
        using "4.IH" [OF refl refl refl 1(1) [symmetric] refl refl, of st'] lt by simp
    qed (use lt in simp)
  qed
next
  case (5 src array depth st)
  from "5.hyps" "5.prems" show ?case
  proof (cases rule: array_loop_inv)
    case (1 s2)
    have "position st < position s2"
      using "5.IH"(1) [OF refl _ 1(2)] 1 by simp
    then have lt: "position st < position (SkipWhitespace src s2)"
      using SkipWhitespace_ge [of s2 src] by simp
    let ?next = "SkipWhitespace src (move_to (Suc (position (SkipWhitespace src s2))) (SkipWhitespace src s2))"
    from 1(4) show ?thesis
    proof
      assume a: "json_text src ! position (SkipWhitespace src s2) = ch CHR '','' \<and>
        array_loop src array depth ?next = (True, st')"
      then have "position ?next < position st'"
        using "5.IH"(2) [OF refl _ 1(2) [symmetric] refl refl, of st'] 1 by simp
      with lt SkipWhitespace_ge [of "move_to (Suc (position (SkipWhitespace src s2))) (SkipWhitespace src s2)" src]
      show ?thesis by simp
    qed (use lt in simp)
  qed
qed

text \<open>What is left of the text, and for calls at the same position the order of the methods.\<close>

definition text_left :: "json_source \<Rightarrow> json_parser \<Rightarrow> nat" where
  "text_left src st = length (json_text src) - position st"

lemma text_left_less:
  "position st < length (json_text src) \<Longrightarrow> position st < position s \<Longrightarrow> text_left src s < text_left src st"
  by (simp add: text_left_def)

lemma text_left_skip: "text_left src (SkipWhitespace src st) \<le> text_left src st"
  using SkipWhitespace_ge [of st src] by (simp add: text_left_def)

lemma text_left_item:
  assumes "AddToken src type start parent (move_to (Suc (position st)) st) = (Some i, s)"
  shows "text_left src (SkipWhitespace src s) < text_left src st \<or>
    text_left src (SkipWhitespace src s) = text_left src st \<and>
    length (json_text src) \<le> position (SkipWhitespace src s)"
  using AddToken_position [OF assms] SkipWhitespace_ge [of s src] by (auto simp: text_left_def)

lemma text_left_next:
  assumes "position st < length (json_text src)" and "position st < position s"
  shows "text_left src (SkipWhitespace src (move_to (Suc (position (SkipWhitespace src s))) (SkipWhitespace src s)))
    < text_left src st"
proof -
  let ?p = "position (SkipWhitespace src s)"
  have "position s \<le> ?p" "Suc ?p \<le> position (SkipWhitespace src (move_to (Suc ?p) (SkipWhitespace src s)))"
    using SkipWhitespace_ge [of s src] SkipWhitespace_ge [of "move_to (Suc ?p) (SkipWhitespace src s)" src] by simp_all
  with assms show ?thesis by (intro text_left_less) simp_all
qed

lemma parser_total: "All parser_dom"
proof (relation "measures [(\<lambda>x. case x of
      Inl (Inl (src, parent, depth, st)) \<Rightarrow> text_left src st
    | Inl (Inr (src, parent, depth, st)) \<Rightarrow> text_left src st
    | Inr (Inl (src, object, depth, st)) \<Rightarrow> text_left src st
    | Inr (Inr (Inl (src, parent, depth, st))) \<Rightarrow> text_left src st
    | Inr (Inr (Inr (src, array, depth, st))) \<Rightarrow> text_left src st),
    (\<lambda>x. case x of
      Inl (Inl _) \<Rightarrow> 3 | Inl (Inr _) \<Rightarrow> 2 | Inr (Inl _) \<Rightarrow> 1 | Inr (Inr (Inl _)) \<Rightarrow> 2
    | Inr (Inr (Inr (src, array, depth, st))) \<Rightarrow> if position st < length (json_text src) then 4 else 1)]", goal_cases)
  case 1
  show ?case by simp
next
  case (2 src parent depth st x xa xb)
  then show ?case using text_left_skip [of src st] by auto
next
  case (3 src parent depth st x xa xb)
  then show ?case using text_left_skip [of src st] by auto
next
  case (4 src parent depth st x xa xb xc y x2 xaa)
  then show ?case using text_left_item [of src JSON_TOKEN_OBJECT "position st" parent st x2 y] by auto
next
  case (5 src object depth st x xa y x2 xaa)
  have "position st < Suc (position xaa)"
    using ParseString_moves [OF 5(4) [symmetric, unfolded 5(5)]] SkipWhitespace_ge [of y src] 5(7) by simp
  with 5 show ?case by (auto intro!: text_left_less)
next
  case (6 src object depth st x xa y x2 xaa xab ya xac)
  have "position st < Suc (position xaa)"
    using ParseString_moves [OF 6(4) [symmetric, unfolded 6(5)]] SkipWhitespace_ge [of y src] 6(7) by simp
  moreover have "Suc (position xaa) < position ya"
    using progress_partial(1) [OF 6(15) 6(9) [symmetric, unfolded 6(10)]] by simp
  ultimately show ?case using 6 text_left_next [of st src ya] by auto
next
  case (7 src parent depth st x xa xb xc y x2 xaa)
  then show ?case using text_left_item [of src JSON_TOKEN_ARRAY "position st" parent st x2 y] by auto
next
  case (8 src array depth st x)
  then show ?case by auto
next
  case (9 src array depth st x xa y xaa)
  have "position st < position y"
    using progress_partial(1) [OF 9(9) 9(3) [symmetric, unfolded 9(4)]] by simp
  then show ?case using 9 text_left_next [of st src y] by auto
qed

termination ParseValue
  by (rule parser_total)

declare ParseValue.simps [simp del] ParseObject.simps [simp del] object_loop.simps [simp del]
  ParseArray.simps [simp del] array_loop.simps [simp del]

lemmas ParseValue_cases = ParseValue_inv [OF parser_total [THEN spec]]
lemmas ParseObject_cases = ParseObject_inv [OF parser_total [THEN spec]]
lemmas ParseArray_cases = ParseArray_inv [OF parser_total [THEN spec]]
lemmas object_loop_cases = object_loop_inv [OF parser_total [THEN spec]]
lemmas array_loop_cases = array_loop_inv [OF parser_total [THEN spec]]

section \<open>Run\<close>

definition parser_result :: "json_parser \<Rightarrow> JsonError \<Rightarrow> nat \<Rightarrow> JsonParseResult" where
  "parser_result st e offset =
     \<lparr>result_error = e, token_count = length (parsed_tokens st), error_offset = offset\<rparr>"

definition new_parser :: json_parser where
  "new_parser = \<lparr>parsed_tokens = [], position = 0, parser_error = JSON_OK, parser_error_offset = 0\<rparr>"

text \<open>
  The result and the tokens written.  The null pointers the code compares with are \<open>None\<close>: the first
  argument is the text, \<open>storage\<close> says whether there is a token array.
\<close>

definition Run :: "json_source \<Rightarrow> JsonParseResult \<times> JsonToken list" where
  "Run src =
     (if length (json_text src) > kMaximumJsonBytes \<or> length (json_text src) > 2 ^ 32 - 1
      then (parser_result new_parser JSON_ERROR_TOO_LARGE 0, [])
      else case ParseValue src None 0 (SkipWhitespace src new_parser) of
        (False, st) \<Rightarrow> (parser_result st (parser_error st) (parser_error_offset st), parsed_tokens st)
      | (True, st) \<Rightarrow>
          let st = SkipWhitespace src st in
          (if position st \<noteq> length (json_text src)
           then parser_result st JSON_ERROR_TRAILING_DATA (position st)
           else parser_result st JSON_OK (position st), parsed_tokens st))"

definition ParseJson ::
  "byte list option \<Rightarrow> bool \<Rightarrow> nat \<Rightarrow> nat \<Rightarrow> JsonParseResult \<times> JsonToken list" where
  "ParseJson json storage capacity depth =
     (case json of
        Some js \<Rightarrow>
          if \<not> storage \<or> capacity = 0 \<or> depth = 0
          then (parser_result new_parser JSON_ERROR_ARGUMENT 0, [])
          else Run \<lparr>json_text = js, token_capacity = capacity, max_depth = depth\<rparr>
      | None \<Rightarrow> (parser_result new_parser JSON_ERROR_ARGUMENT 0, []))"

end
