(* ===== verification/Json_Grammar.thy ===== *)
theory Json_Grammar
  imports Json_Parser Zip_Utf8
begin

text \<open>
  The language of the JSON parser, as trees with their text.

  A tree keeps the blanks of its text, so that \<open>tree_text\<close> is a function and every accepted text is
  the text of a tree.  \<open>tree_ok\<close> is RFC 8259 with the restrictions of the parser (keys are printable
  ASCII without escapes and pairwise distinct) and with its one liberty, a backslash before a NUL.
  \<open>tree_tokens\<close> is the array of tokens of a tree: every value before its parts, in the order of the
  text.
\<close>

section \<open>Text at a position\<close>

primrec text_at :: "byte list \<Rightarrow> nat \<Rightarrow> byte list \<Rightarrow> bool" where
  "text_at js p [] = True"
| "text_at js p (c # cs) = (p < length js \<and> js ! p = c \<and> text_at js (Suc p) cs)"

lemma text_at_append [simp]: "text_at js p (a @ b) \<longleftrightarrow> text_at js p a \<and> text_at js (p + length a) b"
  by (induction a arbitrary: p) auto

lemma text_at_bound: "text_at js p a \<Longrightarrow> a = [] \<or> p + length a \<le> length js"
  by (induction a arbitrary: p) fastforce+

lemma text_at_segment: "text_at js p a \<Longrightarrow> segment js p (p + length a) = a"
proof (induction a arbitrary: p)
  case (Cons c a)
  then show ?case using Cons_nth_drop_Suc [of p js] by (auto simp: segment_def) (metis take_Suc_Cons)
qed (simp add: segment_def)

lemma text_at_self: "text_at (pre @ a @ post) (length pre) a"
proof (induction a arbitrary: pre)
  case (Cons c a)
  from Cons [of "pre @ [c]"] show ?case by simp
qed simp

lemma text_at_take_drop:
  assumes "p + length a \<le> length js"
  shows "text_at js p a \<longleftrightarrow> take (length a) (drop p js) = a"
proof
  assume "text_at js p a"
  then show "take (length a) (drop p js) = a" using text_at_segment by (fastforce simp: segment_def)
next
  assume "take (length a) (drop p js) = a"
  then have "js = take p js @ a @ drop (p + length a) js"
    by (metis append_take_drop_id drop_drop add.commute)
  moreover have "length (take p js) = p" using assms by simp
  ultimately show "text_at js p a" using text_at_self by metis
qed

lemma text_at_whole: "text_at js 0 a \<Longrightarrow> length a = length js \<Longrightarrow> js = a"
  using text_at_take_drop [of 0 a js] by simp

lemma text_at_unique: "text_at js p a \<Longrightarrow> text_at js p b \<Longrightarrow> length a = length b \<Longrightarrow> a = b"
  using text_at_segment by metis

section \<open>Characters of a string\<close>

datatype json_char =
    PlainChar byte
  | Utf8Char nat
  | Escaped byte
  | UnicodeEscape "byte list"
  | SurrogateEscape "byte list" "byte list"

primrec char_text :: "json_char \<Rightarrow> byte list" where
  "char_text (PlainChar b) = [b]"
| "char_text (Utf8Char k) = utf8_encode k"
| "char_text (Escaped e) = [ch CHR 0x5C, e]"
| "char_text (UnicodeEscape ds) = ch CHR 0x5C # ch CHR ''u'' # ds"
| "char_text (SurrogateEscape hi lo) =
     (ch CHR 0x5C # ch CHR ''u'' # hi) @ ch CHR 0x5C # ch CHR ''u'' # lo"

definition hex4_value :: "byte list \<Rightarrow> nat \<Rightarrow> bool" where
  "hex4_value ds v \<longleftrightarrow> length ds = 4 \<and> digits_value 16 hex_digit ds = Some v"

primrec char_ok :: "json_char \<Rightarrow> bool" where
  "char_ok (PlainChar b) \<longleftrightarrow> 0x20 \<le> b \<and> b < 0x80 \<and> b \<noteq> ch CHR 0x22 \<and> b \<noteq> ch CHR 0x5C"
| "char_ok (Utf8Char k) \<longleftrightarrow> scalar_value k \<and> 0x80 \<le> k"
| "char_ok (Escaped e) \<longleftrightarrow> e \<in> set escape_letters \<or> e = 0"
| "char_ok (UnicodeEscape ds) \<longleftrightarrow> (\<exists>v. hex4_value ds v \<and> scalar_value v)"
| "char_ok (SurrogateEscape hi lo) \<longleftrightarrow>
     (\<exists>h l. hex4_value hi h \<and> hex4_value lo l \<and> 0xd800 \<le> h \<and> h \<le> 0xdbff \<and> 0xdc00 \<le> l \<and> l \<le> 0xdfff)"

primrec key_char :: "json_char \<Rightarrow> bool" where
  "key_char (PlainChar b) \<longleftrightarrow> 0x21 \<le> b \<and> b \<le> 0x7e"
| "key_char (Utf8Char k) = False"
| "key_char (Escaped e) = False"
| "key_char (UnicodeEscape ds) = False"
| "key_char (SurrogateEscape hi lo) = False"

definition string_text :: "json_char list \<Rightarrow> byte list" where
  "string_text cs = concat (map char_text cs)"

definition key_ok :: "byte list \<Rightarrow> bool" where
  "key_ok k \<longleftrightarrow> list_all (\<lambda>b. 0x21 \<le> b \<and> b \<le> 0x7e \<and> b \<noteq> ch CHR 0x22 \<and> b \<noteq> ch CHR 0x5C) k"

lemma string_text_simps [simp]:
  "string_text [] = []" "string_text (c # cs) = char_text c @ string_text cs"
  by (simp_all add: string_text_def)

section \<open>Numbers\<close>

definition integer_ok :: "byte list \<Rightarrow> bool" where
  "integer_ok bs \<longleftrightarrow> bs = [ch CHR ''0''] \<or>
     (\<exists>d ds. bs = d # ds \<and> ch CHR ''1'' \<le> d \<and> d \<le> ch CHR ''9'' \<and> list_all is_digit ds)"

definition fraction_ok :: "byte list \<Rightarrow> bool" where
  "fraction_ok bs \<longleftrightarrow> bs = [] \<or> (\<exists>ds. bs = ch CHR ''.'' # ds \<and> ds \<noteq> [] \<and> list_all is_digit ds)"

definition exponent_ok :: "byte list \<Rightarrow> bool" where
  "exponent_ok bs \<longleftrightarrow> bs = [] \<or>
     (\<exists>e sign ds. bs = e # sign @ ds \<and> e \<in> {ch CHR ''e'', ch CHR ''E''} \<and>
        sign \<in> {[], [ch CHR ''+''], [ch CHR ''-'']} \<and> ds \<noteq> [] \<and> list_all is_digit ds)"

definition number_ok :: "byte list \<Rightarrow> bool" where
  "number_ok bs \<longleftrightarrow> (\<exists>sign i f e. bs = sign @ i @ f @ e \<and> sign \<in> {[], [ch CHR ''-'']} \<and>
     integer_ok i \<and> fraction_ok f \<and> exponent_ok e)"

section \<open>Trees\<close>

text \<open>
  A member of an object has its key, the blanks around the colon, its value, the blanks behind it
  and, where another member follows, the blanks behind the comma; an element of an array likewise.
\<close>

datatype json_tree =
    JObject "byte list" "json_member list"
  | JArray "byte list" "json_element list"
  | JString "json_char list"
  | JNumber "byte list"
  | JTrue | JFalse | JNull
and json_member = Member (member_key: "byte list") (blank_before_colon: "byte list")
  (blank_after_colon: "byte list") (member_value: json_tree) (blank_behind: "byte list") (blank_next: "byte list")
and json_element = Element (element_value: json_tree) (blank_behind_element: "byte list")
  (blank_next_element: "byte list")

definition quoted :: "byte list \<Rightarrow> byte list" where
  "quoted s = ch CHR 0x22 # s @ [ch CHR 0x22]"

fun tree_text :: "json_tree \<Rightarrow> byte list"
  and members_text :: "json_member list \<Rightarrow> byte list"
  and elements_text :: "json_element list \<Rightarrow> byte list"
where
  "tree_text (JObject w ms) = ch CHR ''{'' # w @ members_text ms @ [ch CHR ''}'']"
| "tree_text (JArray w es) = ch CHR ''['' # w @ elements_text es @ [ch CHR '']'']"
| "tree_text (JString cs) = quoted (string_text cs)"
| "tree_text (JNumber bs) = bs"
| "tree_text JTrue = bytes_of ''true''"
| "tree_text JFalse = bytes_of ''false''"
| "tree_text JNull = bytes_of ''null''"
| "members_text [] = []"
| "members_text (Member k a b v t n # ms) =
     quoted k @ a @ ch CHR '':'' # b @ tree_text v @ t @
     (if ms = [] then [] else ch CHR '','' # n @ members_text ms)"
| "elements_text [] = []"
| "elements_text (Element v t n # es) =
     tree_text v @ t @ (if es = [] then [] else ch CHR '','' # n @ elements_text es)"

abbreviation blanks :: "byte list \<Rightarrow> bool" where
  "blanks w \<equiv> list_all json_blank w"

fun tree_ok :: "json_tree \<Rightarrow> bool"
  and members_ok :: "json_member list \<Rightarrow> bool"
  and elements_ok :: "json_element list \<Rightarrow> bool"
where
  "tree_ok (JObject w ms) \<longleftrightarrow> blanks w \<and> members_ok ms \<and> distinct (map member_key ms)"
| "tree_ok (JArray w es) \<longleftrightarrow> blanks w \<and> elements_ok es"
| "tree_ok (JString cs) \<longleftrightarrow> list_all char_ok cs"
| "tree_ok (JNumber bs) \<longleftrightarrow> number_ok bs"
| "tree_ok JTrue = True"
| "tree_ok JFalse = True"
| "tree_ok JNull = True"
| "members_ok [] = True"
| "members_ok (Member k a b v t n # ms) \<longleftrightarrow>
     key_ok k \<and> blanks a \<and> blanks b \<and> tree_ok v \<and> blanks t \<and> blanks n \<and> members_ok ms"
| "elements_ok [] = True"
| "elements_ok (Element v t n # es) \<longleftrightarrow> tree_ok v \<and> blanks t \<and> blanks n \<and> elements_ok es"

fun tree_depth :: "json_tree \<Rightarrow> nat"
  and members_depth :: "json_member list \<Rightarrow> nat"
  and elements_depth :: "json_element list \<Rightarrow> nat"
where
  "tree_depth (JObject w ms) = Suc (members_depth ms)"
| "tree_depth (JArray w es) = Suc (elements_depth es)"
| "tree_depth (JString cs) = 1"
| "tree_depth (JNumber bs) = 1"
| "tree_depth JTrue = 1"
| "tree_depth JFalse = 1"
| "tree_depth JNull = 1"
| "members_depth [] = 0"
| "members_depth (Member k a b v t n # ms) = max (tree_depth v) (members_depth ms)"
| "elements_depth [] = 0"
| "elements_depth (Element v t n # es) = max (tree_depth v) (elements_depth es)"

text \<open>
  The tokens of a tree whose text begins at \<open>p\<close> and whose own token has the index \<open>i\<close>.
\<close>

fun tree_tokens :: "json_tree \<Rightarrow> nat \<Rightarrow> nat \<Rightarrow> nat option \<Rightarrow> JsonToken list"
  and members_tokens :: "json_member list \<Rightarrow> nat \<Rightarrow> nat \<Rightarrow> nat \<Rightarrow> JsonToken list"
  and elements_tokens :: "json_element list \<Rightarrow> nat \<Rightarrow> nat \<Rightarrow> nat \<Rightarrow> JsonToken list"
where
  "tree_tokens (JObject w ms) p i parent =
     \<lparr>token_type = JSON_TOKEN_OBJECT, token_start = p, token_end = p + length (tree_text (JObject w ms)),
      token_parent = parent, child_count = 2 * length ms\<rparr> #
     members_tokens ms (p + 1 + length w) (Suc i) i"
| "tree_tokens (JArray w es) p i parent =
     \<lparr>token_type = JSON_TOKEN_ARRAY, token_start = p, token_end = p + length (tree_text (JArray w es)),
      token_parent = parent, child_count = length es\<rparr> #
     elements_tokens es (p + 1 + length w) (Suc i) i"
| "tree_tokens (JString cs) p i parent =
     [\<lparr>token_type = JSON_TOKEN_STRING, token_start = p + 1, token_end = p + 1 + length (string_text cs),
       token_parent = parent, child_count = 0\<rparr>]"
| "tree_tokens (JNumber bs) p i parent =
     [\<lparr>token_type = JSON_TOKEN_NUMBER, token_start = p, token_end = p + length bs,
       token_parent = parent, child_count = 0\<rparr>]"
| "tree_tokens JTrue p i parent =
     [\<lparr>token_type = JSON_TOKEN_TRUE, token_start = p, token_end = p + 4,
       token_parent = parent, child_count = 0\<rparr>]"
| "tree_tokens JFalse p i parent =
     [\<lparr>token_type = JSON_TOKEN_FALSE, token_start = p, token_end = p + 5,
       token_parent = parent, child_count = 0\<rparr>]"
| "tree_tokens JNull p i parent =
     [\<lparr>token_type = JSON_TOKEN_NULL, token_start = p, token_end = p + 4,
       token_parent = parent, child_count = 0\<rparr>]"
| "members_tokens [] p i object = []"
| "members_tokens (Member k a b v t n # ms) p i object =
     (let q = p + length (quoted k) + length a + 1 + length b;
          value = tree_tokens v q (Suc i) (Some object) in
      \<lparr>token_type = JSON_TOKEN_STRING, token_start = p + 1, token_end = p + 1 + length k,
       token_parent = Some object, child_count = 0\<rparr> # value @
      members_tokens ms (q + length (tree_text v) + length t + 1 + length n) (Suc i + length value) object)"
| "elements_tokens [] p i array = []"
| "elements_tokens (Element v t n # es) p i array =
     (let value = tree_tokens v p i (Some array) in
      value @ elements_tokens es (p + length (tree_text v) + length t + 1 + length n) (i + length value) array)"

end
