(* ===== verification/Json_Strings.thy ===== *)
theory Json_Strings
  imports Json_Grammar
begin

text \<open>
  The strings of the JSON parser: escapes, UTF-8 sequences and the loop over the characters accept
  exactly the texts of \<open>char_ok\<close> characters.
\<close>

section \<open>Four hexadecimal digits\<close>

lemma append_four:
  assumes "d < 16"
  shows "push_bit 4 (of_nat k :: u32) OR of_nat d = of_nat (k * 16 + d)"
proof -
  have low: "\<not> bit (of_nat d :: u32) n" if "4 \<le> n" for n
  proof -
    have "d < 2 ^ n" using that assms power_increasing [of 4 n "2 :: nat"] by simp
    then have "\<not> bit d n" by (simp add: bit_iff_odd)
    then show ?thesis by (simp add: bit_of_nat_iff)
  qed
  have "push_bit 4 (of_nat k :: u32) OR of_nat d = push_bit 4 (of_nat k) + of_nat d"
    by (rule disjunctive_add [symmetric]) (auto simp: bit_push_bit_iff dest: low)
  also have "\<dots> = of_nat (k * 16 + d)" by (simp add: push_bit_eq_mult algebra_simps)
  finally show ?thesis .
qed

lemma hex4_loop_value:
  "hex4_loop (of_nat k) ds = map_option of_nat (digits_value_from 16 hex_digit k ds)"
proof (induction ds arbitrary: k)
  case (Cons c ds)
  then show ?case
    by (cases "hex_digit c") (simp_all add: append_four [OF hex_digit_less] del: of_nat_add of_nat_mult)
qed simp

lemma digits_value_from_less:
  assumes "\<And>c d. digit c = Some d \<Longrightarrow> d < base"
  shows "digits_value_from base digit n cs = Some v \<Longrightarrow> v < (n + 1) * base ^ length cs"
proof (induction cs arbitrary: n)
  case (Cons c cs)
  then obtain d where d: "digit c = Some d" "digits_value_from base digit (n * base + d) cs = Some v"
    by (auto split: option.splits)
  then have "v < (n * base + d + 1) * base ^ length cs" using Cons.IH by simp
  also have "\<dots> \<le> ((n + 1) * base) * base ^ length cs"
    using assms [OF d(1)] by (intro mult_le_mono1) simp
  finally show ?case by (simp add: algebra_simps)
qed simp

lemma hex4_value_less: "hex4_value ds v \<Longrightarrow> v < 65536"
  using digits_value_from_less [of hex_digit 16 0 ds v] hex_digit_less
  by (auto simp: hex4_value_def digits_value_def)

lemma ParseHex4_iff:
  assumes "p + 4 \<le> length js"
  shows "ParseHex4 js p = Some w \<longleftrightarrow> (\<exists>ds v. text_at js p ds \<and> hex4_value ds v \<and> w = of_nat v)"
proof -
  let ?ds = "take 4 (drop p js)"
  have at: "text_at js p ?ds" "length ?ds = 4" using assms by (simp_all add: text_at_take_drop)
  have "ParseHex4 js p = map_option of_nat (digits_value 16 hex_digit ?ds)"
    using hex4_loop_value [of 0 ?ds] by (simp add: ParseHex4_def digits_value_def)
  then have "ParseHex4 js p = Some w \<longleftrightarrow> (\<exists>v. hex4_value ?ds v \<and> w = of_nat v)"
    using at(2) by (auto simp: hex4_value_def)
  moreover have "ds = ?ds" if "text_at js p ds" "hex4_value ds v" for ds v
    using text_at_unique [OF that(1) at(1)] that(2) at(2) by (simp add: hex4_value_def)
  ultimately show ?thesis using at(1) by blast
qed

lemma hex4_value_unique:
  "text_at js p ds \<Longrightarrow> hex4_value ds v \<Longrightarrow> text_at js p ds' \<Longrightarrow> hex4_value ds' v' \<Longrightarrow> ds' = ds \<and> v' = v"
  using text_at_unique [of js p ds ds'] by (auto simp: hex4_value_def)

lemma hex4_word:
  assumes "hex4_value ds v"
  shows "(0xd800 :: u32) \<le> of_nat v \<longleftrightarrow> 0xd800 \<le> v" "of_nat v \<le> (0xdbff :: u32) \<longleftrightarrow> v \<le> 0xdbff"
    "(0xdc00 :: u32) \<le> of_nat v \<longleftrightarrow> 0xdc00 \<le> v" "of_nat v \<le> (0xdfff :: u32) \<longleftrightarrow> v \<le> 0xdfff"
    "of_nat v < (0xdc00 :: u32) \<longleftrightarrow> v < 0xdc00" "(0xdfff :: u32) < of_nat v \<longleftrightarrow> 0xdfff < v"
proof -
  have "unat (of_nat v :: u32) = v" using hex4_value_less [OF assms] by (intro unat_of_nat_small) simp
  then show "(0xd800 :: u32) \<le> of_nat v \<longleftrightarrow> 0xd800 \<le> v" "of_nat v \<le> (0xdbff :: u32) \<longleftrightarrow> v \<le> 0xdbff"
    "(0xdc00 :: u32) \<le> of_nat v \<longleftrightarrow> 0xdc00 \<le> v" "of_nat v \<le> (0xdfff :: u32) \<longleftrightarrow> v \<le> 0xdfff"
    "of_nat v < (0xdc00 :: u32) \<longleftrightarrow> v < 0xdc00" "(0xdfff :: u32) < of_nat v \<longleftrightarrow> 0xdfff < v"
    by (simp_all add: word_less_nat_alt word_le_nat_alt)
qed

section \<open>Escapes\<close>

primrec escape_char :: "json_char \<Rightarrow> bool" where
  "escape_char (PlainChar b) = False"
| "escape_char (Utf8Char k) = False"
| "escape_char (Escaped e) = True"
| "escape_char (UnicodeEscape ds) = True"
| "escape_char (SurrogateEscape hi lo) = True"

lemma u_no_letter: "\<not> strchr_finds escape_letters (ch CHR ''u'')"
  by (simp add: strchr_finds_def escape_letters_def) (simp add: ch_def)

text \<open>The branches of \<open>ParseEscape\<close> behind the letter \<open>u\<close>.\<close>

lemma ParseEscape_letter:
  assumes "text_at (json_text src) (position st) [ch CHR 0x5C, e]" and "strchr_finds escape_letters e"
  shows "ParseEscape src st = (True, move_to (position st + 2) st)"
  using assms by (simp add: ParseEscape_def)

lemma ParseEscape_unicode:
  assumes "text_at (json_text src) (position st) (ch CHR 0x5C # ch CHR ''u'' # ds)" and "hex4_value ds v"
  shows "ParseEscape src st = (let js = json_text src; p = position st + 6; st = move_to p st in
      if 0xd800 \<le> v \<and> v \<le> 0xdbff then
        (if p + 6 > length js \<or> js ! p \<noteq> ch CHR 0x5C \<or> js ! Suc p \<noteq> ch CHR ''u''
         then (False, JsonFail JSON_ERROR_STRING p st)
         else (case ParseHex4 js (p + 2) of
             None \<Rightarrow> (False, JsonFail JSON_ERROR_STRING (p + 2) st)
           | Some low \<Rightarrow>
               if low < 0xdc00 \<or> low > 0xdfff then (False, JsonFail JSON_ERROR_STRING (p + 2) st)
               else (True, move_to (p + 6) st)))
      else if 0xdc00 \<le> v \<and> v \<le> 0xdfff then (False, JsonFail JSON_ERROR_STRING (p - 4) st)
      else (True, st))"
proof -
  let ?p = "Suc (Suc (position st))"
  have at: "text_at (json_text src) ?p ds" and len: "length ds = 4" "?p + 4 \<le> length (json_text src)"
    using assms text_at_bound [of "json_text src" ?p ds] by (auto simp: hex4_value_def)
  then have hex: "ParseHex4 (json_text src) ?p = Some (of_nat v)"
    using assms(2) by (subst ParseHex4_iff) auto
  have c: "\<not> length (json_text src) \<le> Suc (position st)" "json_text src ! Suc (position st) = ch CHR ''u''"
    "\<not> length (json_text src) < ?p + 4"
    using assms(1) len(2) by simp_all
  have p: "position st + 6 = ?p + 4" by simp
  show ?thesis
    unfolding ParseEscape_def Let_def p
    by (simp only: move_to_simps c hex u_no_letter if_False simp_thms option.case hex4_word [OF assms(2)])
qed

lemma ParseEscape_sound:
  assumes "ParseEscape src st = (True, st')" and "text_at (json_text src) (position st) [ch CHR 0x5C]"
  shows "\<exists>c. char_ok c \<and> escape_char c \<and> text_at (json_text src) (position st) (char_text c) \<and>
    st' = move_to (position st + length (char_text c)) st"
proof -
  let ?js = "json_text src" and ?p = "position st"
  note step = assms(1) [unfolded ParseEscape_def Let_def move_to_simps]
  have room: "Suc ?p < length ?js" using step by (auto split: if_split_asm)
  let ?e = "?js ! Suc ?p"
  have slash: "?p < length ?js" "?js ! ?p = ch CHR 0x5C" using assms(2) by simp_all
  show ?thesis
  proof (cases "strchr_finds escape_letters ?e")
    case True
    then have "char_ok (Escaped ?e)" by (auto simp: strchr_finds_def)
    moreover have "st' = move_to (?p + 2) st"
      using ParseEscape_letter [of src st ?e] True assms(1) room slash by simp
    ultimately show ?thesis using room slash by (intro exI [of _ "Escaped ?e"]) simp
  next
    case False
    then have u: "?e = ch CHR ''u''" "Suc (Suc ?p) + 4 \<le> length ?js"
      using step room by (auto split: if_split_asm)
    have "ParseHex4 ?js (Suc (Suc ?p)) \<noteq> None"
    proof
      assume "ParseHex4 ?js (Suc (Suc ?p)) = None"
      with step room u False show False by (auto split: if_split_asm)
    qed
    then obtain ds v where ds: "text_at ?js (Suc (Suc ?p)) ds" "hex4_value ds v"
      using ParseHex4_iff [OF u(2)] by blast
    then have uni: "text_at ?js ?p (ch CHR 0x5C # ch CHR ''u'' # ds)" using room slash u(1) by simp
    have four: "length ds = 4" using ds(2) by (simp add: hex4_value_def)
    note step' = assms(1) [unfolded ParseEscape_unicode [OF uni ds(2)] Let_def]
    show ?thesis
    proof (cases "0xd800 \<le> v \<and> v \<le> 0xdbff")
      case False
      then have "scalar_value v" "st' = move_to (?p + 6) st"
        using step' hex4_value_less [OF ds(2)] by (auto simp: scalar_value_def split: if_split_asm)
      then show ?thesis using uni ds(2) four by (intro exI [of _ "UnicodeEscape ds"]) auto
    next
      case True
      then have lo: "?p + 6 + 6 \<le> length ?js" "?js ! (?p + 6) = ch CHR 0x5C" "?js ! Suc (?p + 6) = ch CHR ''u''"
        using step' by (auto split: if_split_asm)
      have "ParseHex4 ?js (?p + 6 + 2) \<noteq> None"
      proof
        assume "ParseHex4 ?js (?p + 6 + 2) = None"
        with step' True show False by (auto split: if_split_asm)
      qed
      then obtain ds' w where ds': "text_at ?js (?p + 8) ds'" "hex4_value ds' w" "ParseHex4 ?js (8 + ?p) = Some (of_nat w)"
        using ParseHex4_iff [of "8 + ?p" ?js] lo(1) by (auto simp: add.commute)
      then have "0xdc00 \<le> w" "w \<le> 0xdfff" "st' = move_to (12 + ?p) st"
        using step' True lo by (auto simp: hex4_word [OF ds'(2)] split: if_split_asm)
      moreover have "text_at ?js ?p (char_text (SurrogateEscape ds ds'))"
        using uni lo(2,3) ds'(1) four room lo(1) by (simp add: add.commute)
      moreover have "length ds' = 4" using ds'(2) by (simp add: hex4_value_def)
      ultimately show ?thesis using ds(2) ds'(2) True four
        by (intro exI [of _ "SurrogateEscape ds ds'"]) (auto simp: add.commute)
    qed
  qed
qed

lemma ParseEscape_complete:
  assumes "char_ok c" and "escape_char c" and "text_at (json_text src) (position st) (char_text c)"
  shows "ParseEscape src st = (True, move_to (position st + length (char_text c)) st)"
proof (cases c)
  case (Escaped e)
  then show ?thesis using assms ParseEscape_letter [of src st e] by (auto simp: strchr_finds_def)
next
  case (UnicodeEscape ds)
  then obtain v where v: "hex4_value ds v" "scalar_value v" using assms(1) by auto
  then have "length ds = 4" by (simp add: hex4_value_def)
  then show ?thesis
    using ParseEscape_unicode [OF _ v(1), of src st] v(2) assms(3) UnicodeEscape by (auto simp: scalar_value_def)
next
  case (SurrogateEscape hi lo)
  let ?js = "json_text src" and ?p = "position st"
  obtain h l where v: "hex4_value hi h" "hex4_value lo l" and r: "0xd800 \<le> h" "h \<le> 0xdbff" "0xdc00 \<le> l" "l \<le> 0xdfff"
    using assms(1) SurrogateEscape by auto
  then have len: "length hi = 4" "length lo = 4" by (simp_all add: hex4_value_def)
  have at: "text_at ?js ?p (ch CHR 0x5C # ch CHR ''u'' # hi)" "text_at ?js (?p + 6) (ch CHR 0x5C # ch CHR ''u'' # lo)"
    using assms(3) SurrogateEscape len by (simp_all add: add.commute)
  then have "?p + 12 \<le> length ?js" "?js ! (?p + 6) = ch CHR 0x5C" "?js ! Suc (?p + 6) = ch CHR ''u''"
    "text_at ?js (?p + 8) lo"
    using text_at_bound [OF at(2)] len by (simp_all add: add.commute)
  moreover from this have "ParseHex4 ?js (?p + 6 + 2) = Some (of_nat l)"
    using v(2) by (subst ParseHex4_iff) (auto simp: add.commute)
  ultimately have "ParseEscape src st = (True, move_to (?p + 6 + 6) st)"
    unfolding ParseEscape_unicode [OF at(1) v(1)] Let_def using r
    by (simp only: hex4_word [OF v(2)] option.case) simp
  then show ?thesis using len SurrogateEscape by (simp add: add.commute)
qed (use assms in simp_all)

section \<open>UTF-8\<close>

lemma utf8_first_lead: "utf8_first b = map_option (\<lambda>(bits, n). (Suc n, bits)) (utf8_lead b)"
  by (simp add: utf8_first_def utf8_lead_def)

lemma utf8_continue_rest: "utf8_continue p cp cs = Inr v \<longleftrightarrow> utf8_rest cp cs = Some v"
  by (induction cs arbitrary: p cp) auto

lemma utf8_encode_lead:
  assumes "scalar_value k" and "128 \<le> k"
  obtains b cs bits where "utf8_encode k = b # cs" "\<not> b < 0x80" "utf8_lead b = Some (bits, length cs)"
proof -
  have le: "k < 0x110000" using assms(1) by (auto simp: scalar_value_def)
  consider "k < 0x800" | "0x800 \<le> k" "k < 0x10000" | "0x10000 \<le> k" by linarith
  then show thesis
  proof cases
    case 1
    then have "2 \<le> k div 64" "k div 64 < 32"
      using assms(2) by (simp_all add: div_less_iff_less_mult less_eq_div_iff_mult_less_eq)
    then have "unat (of_nat (192 + k div 64) :: byte) = 192 + k div 64" by (intro unat_byte) simp
    then show thesis
      using 1 assms(2) \<open>2 \<le> k div 64\<close> \<open>k div 64 < 32\<close> that [of "of_nat (192 + k div 64)"]
      by (simp add: utf8_encode_def utf8_lead_unat word_less_nat_alt del: of_nat_add)
  next
    case 2
    then have "k div 4096 < 16" by (simp add: div_less_iff_less_mult)
    moreover from this have "unat (of_nat (224 + k div 4096) :: byte) = 224 + k div 4096" by (intro unat_byte) simp
    ultimately show thesis
      using 2 assms(2) that [of "of_nat (224 + k div 4096)"]
      by (simp add: utf8_encode_def utf8_lead_unat word_less_nat_alt del: of_nat_add)
  next
    case 3
    then have "k div 262144 < 5" using le by (simp add: div_less_iff_less_mult)
    moreover from this have "unat (of_nat (240 + k div 262144) :: byte) = 240 + k div 262144" by (intro unat_byte) simp
    ultimately show thesis
      using 3 assms(2) that [of "of_nat (240 + k div 262144)"]
      by (simp add: utf8_encode_def utf8_lead_unat word_less_nat_alt del: of_nat_add)
  qed
qed

lemma two_bytes_big:
  assumes "utf8_lead b = Some (bits, 1)" and "utf8_rest bits (take 1 cs) = Some cp" and "cs \<noteq> []"
  shows "\<not> cp < 0x80"
proof -
  obtain c cs' where cs: "cs = c # cs'" using assms(3) by (cases cs) auto
  have b: "194 \<le> unat b" "unat b < 224" and bits: "bits = of_nat (unat b - 192)"
    using assms(1) by (auto simp: utf8_lead_unat split: if_split_asm)
  let ?k = "(unat b - 192) * 64 + (unat c - 128)"
  have "unat b - 192 < 2 ^ 20" using b by simp
  from utf8_rest_step [OF this, of c "[]"] have "128 \<le> unat c" "unat c < 192" "cp = of_nat ?k"
    using assms(2) unfolding cs bits by (auto simp del: of_nat_add of_nat_mult split: if_split_asm)
  moreover from this have "?k < 2 ^ 32" "128 \<le> ?k" using b by auto
  ultimately have "unat cp = ?k" by (simp only:) (rule unat_of_nat_small, simp)
  with \<open>128 \<le> ?k\<close> show ?thesis by (simp only: word_less_nat_alt) simp
qed

text \<open>The bytes that \<open>ConsumeUtf8\<close> accepts are one turn of the check of the ZIP reader.\<close>

lemma ConsumeUtf8_turn:
  assumes "p < length js" and "json_text src = js" and "position st = p" and "\<not> js ! p < 0x80"
  shows "ConsumeUtf8 src st = (True, st') \<longleftrightarrow>
    (\<exists>bits n. utf8_lead (js ! p) = Some (bits, n) \<and> p + Suc n \<le> length js \<and>
       IsValidUtf8 (js ! p # take n (drop (Suc p) js)) \<and> st' = move_to (p + n) st)"
proof (cases "utf8_lead (js ! p)")
  case None
  then show ?thesis using assms by (simp add: ConsumeUtf8_def utf8_first_lead)
next
  case (Some l)
  obtain bits n where l: "l = (bits, n)" by fastforce
  let ?cs = "take n (drop (Suc p) js)"
  note lead = Some [unfolded l]
  show ?thesis
  proof (cases "p + Suc n \<le> length js")
    case False
    then show ?thesis using assms lead by (simp add: ConsumeUtf8_def utf8_first_lead)
  next
    case True
    then have len: "length ?cs = n" by simp
    show ?thesis
    proof (cases "utf8_rest bits ?cs")
      case None
      then obtain bad where "utf8_continue (Suc p) bits ?cs = Inl bad"
        using utf8_continue_rest [of "Suc p" bits ?cs] by (cases "utf8_continue (Suc p) bits ?cs") auto
      with None True assms lead len show ?thesis
        by (auto simp: ConsumeUtf8_def utf8_first_lead)
    next
      case (Some cp)
      then have "utf8_continue (Suc p) bits ?cs = Inr cp" by (simp add: utf8_continue_rest)
      moreover have "\<not> (n = 1 \<and> cp < 0x80)"
        using two_bytes_big [of "js ! p" bits "drop (Suc p) js" cp] lead Some True by auto
      ultimately show ?thesis using Some True assms lead len
        by (auto simp: ConsumeUtf8_def utf8_first_lead utf8_forbidden_def numeral_2_eq_2 numeral_3_eq_3)
    qed
  qed
qed

lemma ConsumeUtf8_iff:
  assumes "p < length js" and "json_text src = js" and "position st = p" and "\<not> js ! p < 0x80"
  shows "ConsumeUtf8 src st = (True, st') \<longleftrightarrow>
    (\<exists>k. char_ok (Utf8Char k) \<and> text_at js p (utf8_encode k) \<and>
       st' = move_to (p + length (utf8_encode k) - 1) st)"
  (is "?lhs \<longleftrightarrow> ?rhs")
proof
  assume ?lhs
  then obtain bits n where n: "utf8_lead (js ! p) = Some (bits, n)" "p + Suc n \<le> length js"
    "IsValidUtf8 (js ! p # take n (drop (Suc p) js))" "st' = move_to (p + n) st"
    unfolding ConsumeUtf8_turn [OF assms] by blast
  from accepted_encoded [OF n(3)] obtain k rest where
    k: "scalar_value k" "js ! p # take n (drop (Suc p) js) = utf8_encode k @ rest" by blast
  have big: "128 \<le> k"
  proof (rule ccontr)
    assume "\<not> 128 \<le> k"
    then have "utf8_encode k = [of_nat k]" "unat (of_nat k :: byte) = k"
      by (simp_all add: utf8_encode_def unat_byte)
    with k(2) assms(4) \<open>\<not> 128 \<le> k\<close> show False by (simp add: word_less_nat_alt)
  qed
  then obtain b cs bits' where e: "utf8_encode k = b # cs" "utf8_lead b = Some (bits', length cs)"
    using utf8_encode_lead [OF k(1)] by metis
  then have "length cs = n" using k(2) n(1) by simp
  moreover have "length (js ! p # take n (drop (Suc p) js)) = Suc n" using n(2) by simp
  ultimately have "rest = []" using k(2) e(1) by (metis append_eq_conv_conj drop_all length_Cons order_refl)
  then have whole: "js ! p # take n (drop (Suc p) js) = utf8_encode k" using k(2) by simp
  have "text_at js (Suc p) (take n (drop (Suc p) js))" using n(2) by (simp add: text_at_take_drop)
  then have "text_at js p (utf8_encode k)" using assms(1) whole [symmetric] by simp
  moreover have "length (utf8_encode k) = Suc n" using e(1) \<open>length cs = n\<close> by simp
  ultimately show ?rhs using k(1) big n(4) by (intro exI [of _ k]) simp
next
  assume ?rhs
  then obtain k where k: "scalar_value k" "128 \<le> k" "text_at js p (utf8_encode k)"
    and st': "st' = move_to (p + length (utf8_encode k) - 1) st" by auto
  obtain b cs bits where e: "utf8_encode k = b # cs" "utf8_lead b = Some (bits, length cs)"
    using utf8_encode_lead [OF k(1,2)] by metis
  have b: "b = js ! p" "text_at js (Suc p) cs" "p < length js" using k(3) e(1) by simp_all
  then have len: "p + Suc (length cs) \<le> length js" using text_at_bound [of js "Suc p" cs] by auto
  then have "take (length cs) (drop (Suc p) js) = cs"
    using b(2) text_at_take_drop [of "Suc p" cs js] by simp
  moreover have "IsValidUtf8 (b # cs)" using encode_accepted [OF k(1), of "[]"] e(1) by simp
  ultimately show ?lhs
    unfolding ConsumeUtf8_turn [OF assms] using e b(1) len st'
    by (intro exI [of _ bits] exI [of _ "length cs"]) simp
qed

section \<open>The loop\<close>

text \<open>What a finished value does to the tokens: its parent counts one more child, and its token is last.\<close>

definition add_child :: "nat option \<Rightarrow> JsonToken list \<Rightarrow> JsonToken list" where
  "add_child parent tokens = (case parent of
       None \<Rightarrow> tokens
     | Some i \<Rightarrow> tokens[i := (tokens ! i)\<lparr>child_count := Suc (child_count (tokens ! i))\<rparr>])"

definition parent_ok :: "nat option \<Rightarrow> json_parser \<Rightarrow> bool" where
  "parent_ok parent st \<longleftrightarrow> (case parent of None \<Rightarrow> True | Some i \<Rightarrow> i < length (parsed_tokens st))"

definition string_token :: "nat \<Rightarrow> nat \<Rightarrow> nat option \<Rightarrow> JsonToken" where
  "string_token b e parent = \<lparr>token_type = JSON_TOKEN_STRING, token_start = b, token_end = e,
     token_parent = parent, child_count = 0\<rparr>"

lemma length_add_child [simp]: "length (add_child parent tokens) = length tokens"
  by (simp add: add_child_def split: option.split)

lemma AddToken_eq:
  assumes "parent_ok parent st"
  shows "AddToken src type start parent st =
    (if length (parsed_tokens st) < token_capacity src
     then (Some (length (parsed_tokens st)), st\<lparr>parsed_tokens := add_child parent (parsed_tokens st) @
       [\<lparr>token_type = type, token_start = start, token_end = start, token_parent = parent, child_count = 0\<rparr>]\<rparr>)
     else (None, JsonFail JSON_ERROR_TOKEN_LIMIT (position st) st))"
  using assms
  by (auto simp: AddToken_def Let_def add_child_def parent_ok_def nth_append list_update_append split: option.split)

lemma set_last_end:
  "set_token_end (length (add_child parent ts)) e (st\<lparr>parsed_tokens := add_child parent ts @ [t]\<rparr>) =
   st\<lparr>parsed_tokens := add_child parent ts @ [t\<lparr>token_end := e\<rparr>]\<rparr>"
  by (simp add: set_token_end_def nth_append list_update_append)

text \<open>The state a successful string leaves; the text of the string ends at \<open>e\<close>, before the quote.\<close>

definition string_state :: "nat \<Rightarrow> nat \<Rightarrow> nat option \<Rightarrow> json_parser \<Rightarrow> json_parser" where
  "string_state b e parent st = st\<lparr>position := Suc e,
     parsed_tokens := add_child parent (parsed_tokens st) @ [string_token b e parent]\<rparr>"

lemma string_state_move [simp]: "string_state b e parent (move_to p st) = string_state b e parent st"
  by (simp add: string_state_def move_to_def)

lemma parent_ok_move [simp]: "parent_ok parent (move_to p st) = parent_ok parent st"
  by (cases parent) (simp_all add: parent_ok_def)

lemma string_loop_end:
  assumes "parent_ok parent st" and "text_at (json_text src) (position st) [ch CHR 0x22]"
  shows "string_loop src parent object_key escaped start st =
    (if object_key \<and> escaped then (None, JsonFail JSON_ERROR_STRING start (move_to (Suc (position st)) st))
     else if length (parsed_tokens st) < token_capacity src
     then (Some (length (parsed_tokens st)), string_state start (position st) parent st)
     else (None, JsonFail JSON_ERROR_TOKEN_LIMIT (Suc (position st)) (move_to (Suc (position st)) st)))"
  using assms
  by (subst string_loop.simps)
    (simp add: AddToken_eq string_state_def string_token_def Let_def set_token_end_def nth_append
      list_update_append, simp add: move_to_def)

lemma char_first:
  assumes "char_ok c"
  obtains b bs where "char_text c = b # bs" "b \<noteq> ch CHR 0x22" "\<not> b < 0x20"
    "b = ch CHR 0x5C \<longleftrightarrow> escape_char c" "\<not> b < 0x80 \<longleftrightarrow> (\<exists>k. c = Utf8Char k)"
proof (cases c)
  case (PlainChar b)
  with assms that [of b "[]"] show thesis by auto
next
  case (Utf8Char k)
  with assms have "scalar_value k" "128 \<le> k" by simp_all
  then obtain b cs where "utf8_encode k = b # cs" "\<not> b < 0x80" by (rule utf8_encode_lead)
  then have "b \<noteq> ch CHR 0x22" "\<not> b < 0x20" "b \<noteq> ch CHR 0x5C" by (auto simp: ch_def word_less_nat_alt)
  with Utf8Char that [of b cs] \<open>utf8_encode k = b # cs\<close> \<open>\<not> b < 0x80\<close> show thesis by simp
qed (use that [of "ch CHR 0x5C"] in \<open>auto simp: ch_def\<close>)

text \<open>One turn of the loop consumes one character.\<close>

lemma string_loop_char:
  assumes "char_ok c" and "text_at (json_text src) (position st) (char_text c)"
    and "object_key \<longrightarrow> key_char c \<or> escape_char c"
  shows "string_loop src parent object_key escaped start st =
    string_loop src parent object_key (escaped \<or> escape_char c) start (move_to (position st + length (char_text c)) st)"
proof -
  from assms(1) obtain b bs where b: "char_text c = b # bs" "b \<noteq> ch CHR 0x22" "\<not> b < 0x20"
    "b = ch CHR 0x5C \<longleftrightarrow> escape_char c" "\<not> b < 0x80 \<longleftrightarrow> (\<exists>k. c = Utf8Char k)" by (rule char_first)
  then have at: "position st < length (json_text src)" "json_text src ! position st = b" using assms(2) by simp_all
  show ?thesis
  proof (cases c)
    case (PlainChar d)
    with assms(1,3) b at show ?thesis
      by (subst string_loop.simps) (auto simp: Let_def)
  next
    case (Utf8Char k)
    have "ConsumeUtf8 src st = (True, move_to (position st + length (utf8_encode k) - 1) st)"
      using Utf8Char assms(1,2) at b by (subst ConsumeUtf8_iff [OF at(1) refl refl]) auto
    with Utf8Char assms(3) b at show ?thesis
      by (subst string_loop.simps) (auto simp: Let_def not_less)
  next
    case (Escaped e)
    with ParseEscape_complete [OF assms(1) _ assms(2)] b at show ?thesis
      by (subst string_loop.simps) (auto simp: Let_def)
  next
    case (UnicodeEscape ds)
    with ParseEscape_complete [OF assms(1) _ assms(2)] b at show ?thesis
      by (subst string_loop.simps) (auto simp: Let_def)
  next
    case (SurrogateEscape hi lo)
    with ParseEscape_complete [OF assms(1) _ assms(2)] b at show ?thesis
      by (subst string_loop.simps) (auto simp: Let_def)
  qed
qed

text \<open>What the turns of the loop accept: characters up to the closing quote.\<close>

lemma char_text_not_Nil: "char_ok c \<Longrightarrow> char_text c \<noteq> []"
  by (erule char_first) simp

lemma string_loop_complete:
  assumes "list_all char_ok cs" and "text_at (json_text src) (position st) (string_text cs @ [ch CHR 0x22])"
    and "object_key \<longrightarrow> list_all key_char cs \<and> \<not> escaped" and "parent_ok parent st"
    and "length (parsed_tokens st) < token_capacity src"
  shows "string_loop src parent object_key escaped start st =
    (Some (length (parsed_tokens st)), string_state start (position st + length (string_text cs)) parent st)"
  using assms
proof (induction cs arbitrary: st escaped)
  case Nil
  then show ?case by (simp add: string_loop_end)
next
  case (Cons c cs)
  have "\<not> escape_char c" if "key_char c" using that by (cases c) auto
  with Cons.prems have "string_loop src parent object_key (escaped \<or> escape_char c) start
      (move_to (position st + length (char_text c)) st) =
    (Some (length (parsed_tokens st)), string_state start (position st + length (string_text (c # cs))) parent st)"
    by (subst Cons.IH) (auto simp: add.assoc)
  then show ?case using Cons.prems by (subst string_loop_char [of c]) auto
qed

lemma string_loop_step:
  assumes "string_loop src parent object_key escaped start st = (Some i, st')" and "parent_ok parent st"
  shows "text_at (json_text src) (position st) [ch CHR 0x22] \<or>
    (\<exists>c. char_ok c \<and> (object_key \<longrightarrow> key_char c \<or> escape_char c) \<and>
       text_at (json_text src) (position st) (char_text c))"
proof -
  let ?p = "position st" and ?js = "json_text src"
  note step = assms(1) [unfolded string_loop.simps [of src parent object_key escaped start st] Let_def]
  have at: "?p < length ?js" using step by (simp split: if_split_asm)
  let ?c = "?js ! ?p"
  consider "?c = ch CHR 0x22" | "?c = ch CHR 0x5C" | "?c \<noteq> ch CHR 0x22" "?c \<noteq> ch CHR 0x5C" "?c < 0x80"
    | "?c \<noteq> ch CHR 0x22" "?c \<noteq> ch CHR 0x5C" "\<not> ?c < 0x80" by blast
  then show ?thesis
  proof cases
    case 1
    with at show ?thesis by simp
  next
    case 2
    with step at obtain s where "ParseEscape src st = (True, s)"
      by (auto simp: ch_def split: if_split_asm prod.splits bool.splits)
    from ParseEscape_sound [OF this] 2 at show ?thesis by auto
  next
    case 3
    with step at have "\<not> ?c < 0x20" "object_key \<longrightarrow> \<not> (?c < 0x21 \<or> ?c > 0x7e)"
      by (auto split: if_split_asm)
    with 3 at show ?thesis by (intro disjI2 exI [of _ "PlainChar ?c"]) auto
  next
    case 4
    then have "0x7e < ?c" "\<not> ?c < 0x20" by (auto simp: word_less_nat_alt)
    with 4 step at obtain s where s: "ConsumeUtf8 src st = (True, s)" "\<not> object_key"
      by (auto split: if_split_asm prod.splits bool.splits)
    from s(1) [unfolded ConsumeUtf8_iff [OF at refl refl 4(3)]] obtain k where
      "char_ok (Utf8Char k)" "text_at ?js ?p (utf8_encode k)" by blast
    with s(2) show ?thesis by (intro disjI2 exI [of _ "Utf8Char k"]) auto
  qed
qed

lemma string_loop_sound:
  assumes "string_loop src parent object_key escaped start st = (Some i, st')" and "parent_ok parent st"
  shows "\<exists>cs. list_all char_ok cs \<and> text_at (json_text src) (position st) (string_text cs @ [ch CHR 0x22]) \<and>
    (object_key \<longrightarrow> list_all key_char cs \<and> \<not> escaped) \<and>
    length (parsed_tokens st) < token_capacity src \<and> i = length (parsed_tokens st) \<and>
    st' = string_state start (position st + length (string_text cs)) parent st"
  using assms
proof (induction "length (json_text src) - position st" arbitrary: escaped st rule: less_induct)
  case less
  from string_loop_step [OF less.prems] show ?case
  proof
    assume "text_at (json_text src) (position st) [ch CHR 0x22]"
    with less.prems(1) [unfolded string_loop_end [OF less.prems(2) this]] show ?thesis
      by (intro exI [of _ "[]"]) (auto split: if_split_asm)
  next
    assume "\<exists>c. char_ok c \<and> (object_key \<longrightarrow> key_char c \<or> escape_char c) \<and>
      text_at (json_text src) (position st) (char_text c)"
    then obtain c where c: "char_ok c" "object_key \<longrightarrow> key_char c \<or> escape_char c"
      "text_at (json_text src) (position st) (char_text c)" by blast
    let ?s = "move_to (position st + length (char_text c)) st"
    have step: "string_loop src parent object_key (escaped \<or> escape_char c) start ?s = (Some i, st')"
      using less.prems(1) unfolding string_loop_char [OF c(1,3,2)] .
    moreover have "length (json_text src) - position ?s < length (json_text src) - position st"
      using char_text_not_Nil [OF c(1)] text_at_bound [OF c(3)] by (cases "char_text c") auto
    ultimately obtain cs where "list_all char_ok cs"
      "text_at (json_text src) (position ?s) (string_text cs @ [ch CHR 0x22])"
      "object_key \<longrightarrow> list_all key_char cs \<and> \<not> (escaped \<or> escape_char c)"
      "length (parsed_tokens st) < token_capacity src" "i = length (parsed_tokens st)"
      "st' = string_state start (position ?s + length (string_text cs)) parent st"
      using less.hyps [of ?s "escaped \<or> escape_char c"] less.prems(2) by auto
    with c show ?thesis by (intro exI [of _ "c # cs"]) (auto simp: add.assoc)
  qed
qed

lemma key_text:
  assumes "list_all char_ok cs" and "list_all key_char cs"
  shows "key_ok (string_text cs)"
  using assms
proof (induction cs)
  case (Cons c cs)
  then show ?case by (cases c) (auto simp: key_ok_def)
qed (simp add: key_ok_def)

lemma key_chars:
  assumes "key_ok k"
  shows "string_text (map PlainChar k) = k" "list_all char_ok (map PlainChar k)" "list_all key_char (map PlainChar k)"
proof -
  show "string_text (map PlainChar k) = k" by (induction k) simp_all
  have "b < 0x80" "0x20 \<le> b" if "0x21 \<le> b" "b \<le> 0x7e" for b :: byte
    using that by (auto simp: word_le_nat_alt word_less_nat_alt)
  then show "list_all char_ok (map PlainChar k)" "list_all key_char (map PlainChar k)"
    using assms by (auto simp: key_ok_def list_all_iff)
qed

section \<open>Whole strings\<close>

lemma ParseString_value:
  assumes "parent_ok parent st" and "text_at (json_text src) (position st) [ch CHR 0x22]"
  shows "ParseString src parent False st = (Some i, st') \<longleftrightarrow>
    (\<exists>cs. list_all char_ok cs \<and> text_at (json_text src) (position st) (quoted (string_text cs)) \<and>
       length (parsed_tokens st) < token_capacity src \<and> i = length (parsed_tokens st) \<and>
       st' = string_state (Suc (position st)) (Suc (position st) + length (string_text cs)) parent st)"
proof
  assume "ParseString src parent False st = (Some i, st')"
  then show "\<exists>cs. list_all char_ok cs \<and> text_at (json_text src) (position st) (quoted (string_text cs)) \<and>
       length (parsed_tokens st) < token_capacity src \<and> i = length (parsed_tokens st) \<and>
       st' = string_state (Suc (position st)) (Suc (position st) + length (string_text cs)) parent st"
    using assms unfolding ParseString_def Let_def
    by (auto dest!: string_loop_sound simp: quoted_def)
next
  assume "\<exists>cs. list_all char_ok cs \<and> text_at (json_text src) (position st) (quoted (string_text cs)) \<and>
       length (parsed_tokens st) < token_capacity src \<and> i = length (parsed_tokens st) \<and>
       st' = string_state (Suc (position st)) (Suc (position st) + length (string_text cs)) parent st"
  then obtain cs where "list_all char_ok cs" "text_at (json_text src) (position st) (quoted (string_text cs))"
    "length (parsed_tokens st) < token_capacity src" "i = length (parsed_tokens st)"
    "st' = string_state (Suc (position st)) (Suc (position st) + length (string_text cs)) parent st" by blast
  with assms(1) show "ParseString src parent False st = (Some i, st')"
    unfolding ParseString_def Let_def by (subst string_loop_complete [of cs]) (auto simp: quoted_def)
qed

lemma ParseString_key:
  assumes "parent_ok parent st" and "text_at (json_text src) (position st) [ch CHR 0x22]"
  shows "ParseString src parent True st = (Some i, st') \<longleftrightarrow>
    (\<exists>k. key_ok k \<and> text_at (json_text src) (position st) (quoted k) \<and>
       length (parsed_tokens st) < token_capacity src \<and> i = length (parsed_tokens st) \<and>
       st' = string_state (Suc (position st)) (Suc (position st) + length k) parent st)"
proof
  assume "ParseString src parent True st = (Some i, st')"
  then show "\<exists>k. key_ok k \<and> text_at (json_text src) (position st) (quoted k) \<and>
       length (parsed_tokens st) < token_capacity src \<and> i = length (parsed_tokens st) \<and>
       st' = string_state (Suc (position st)) (Suc (position st) + length k) parent st"
    using assms unfolding ParseString_def Let_def
    by (auto dest!: string_loop_sound simp: quoted_def intro: key_text)
next
  assume "\<exists>k. key_ok k \<and> text_at (json_text src) (position st) (quoted k) \<and>
       length (parsed_tokens st) < token_capacity src \<and> i = length (parsed_tokens st) \<and>
       st' = string_state (Suc (position st)) (Suc (position st) + length k) parent st"
  then obtain k where "key_ok k" "text_at (json_text src) (position st) (quoted k)"
    "length (parsed_tokens st) < token_capacity src" "i = length (parsed_tokens st)"
    "st' = string_state (Suc (position st)) (Suc (position st) + length k) parent st" by blast
  with assms(1) key_chars [of k] show "ParseString src parent True st = (Some i, st')"
    unfolding ParseString_def Let_def by (subst string_loop_complete [of "map PlainChar k"]) (auto simp: quoted_def)
qed

end
