(* ===== verification/Json_Exact.thy ===== *)
theory Json_Exact
  imports Json_Strings
begin

text \<open>
  The JSON parser accepts exactly the texts of \<open>Json_Grammar\<close>, and leaves exactly their tokens.
\<close>

section \<open>Loops over one class of bytes\<close>

definition stops :: "(byte \<Rightarrow> bool) \<Rightarrow> byte list \<Rightarrow> nat \<Rightarrow> bool" where
  "stops P js p \<longleftrightarrow> (p < length js \<longrightarrow> \<not> P (js ! p))"

lemma skip_while_iff:
  "skip_while P js p = q \<longleftrightarrow> (\<exists>w. q = p + length w \<and> text_at js p w \<and> list_all P w \<and> stops P js q)"
proof (induction P js p rule: skip_while.induct)
  case (1 P js p)
  show ?case
  proof (cases "p < length js \<and> P (js ! p)")
    case True
    have "(\<exists>w. q = p + length w \<and> text_at js p w \<and> list_all P w \<and> stops P js q) \<longleftrightarrow>
      (\<exists>w. q = Suc p + length w \<and> text_at js (Suc p) w \<and> list_all P w \<and> stops P js q)" (is "?l \<longleftrightarrow> ?r")
    proof
      assume ?l
      then obtain w where w: "q = p + length w" "text_at js p w" "list_all P w" "stops P js q" by blast
      with True have "w \<noteq> []" by (auto simp: stops_def)
      with w show ?r by (intro exI [of _ "tl w"]) (cases w, auto)
    next
      assume ?r
      then obtain w where "q = Suc p + length w" "text_at js (Suc p) w" "list_all P w" "stops P js q" by blast
      with True show ?l by (intro exI [of _ "js ! p # w"]) auto
    qed
    with 1 [OF True] True show ?thesis by (subst skip_while.simps) simp
  next
    case False
    have "w = []" if "text_at js p w" "list_all P w" for w using False that by (cases w) auto
    with False show ?thesis by (subst skip_while.simps) (auto simp: stops_def)
  qed
qed

lemma skip_while_to:
  "text_at js p w \<Longrightarrow> list_all P w \<Longrightarrow> stops P js (p + length w) \<Longrightarrow> skip_while P js p = p + length w"
  by (subst skip_while_iff) blast

lemma skip_while_text:
  obtains w where "skip_while P js p = p + length w" "text_at js p w" "list_all P w" "stops P js (p + length w)"
  using skip_while_iff [of P js p "skip_while P js p"] by auto

lemma SkipWhitespace_text:
  obtains w where "SkipWhitespace src st = move_to (position st + length w) st"
    "text_at (json_text src) (position st) w" "blanks w" "stops json_blank (json_text src) (position st + length w)"
  by (rule skip_while_text [of json_blank "json_text src" "position st"]) (simp add: SkipWhitespace_def)

lemma SkipWhitespace_to:
  "text_at (json_text src) (position st) w \<Longrightarrow> blanks w \<Longrightarrow> stops json_blank (json_text src) (position st + length w) \<Longrightarrow>
   SkipWhitespace src st = move_to (position st + length w) st"
  by (simp add: SkipWhitespace_def skip_while_to)

lemma SkipWhitespace_stay: "stops json_blank (json_text src) (position st) \<Longrightarrow> SkipWhitespace src st = st"
  using SkipWhitespace_to [of src st "[]"] by (simp add: move_to_def)

section \<open>Numbers\<close>

lemma number_integer_iff:
  assumes "p < length js"
  shows "number_integer js p = Inr q \<longleftrightarrow>
    (\<exists>i. integer_ok i \<and> text_at js p i \<and> q = p + length i \<and> stops is_digit js q)"
proof
  assume "number_integer js p = Inr q"
  then have "(js ! p = ch CHR ''0'' \<and> stops is_digit js (Suc p) \<and> q = Suc p) \<or>
    (ch CHR ''1'' \<le> js ! p \<and> js ! p \<le> ch CHR ''9'' \<and> q = skip_while is_digit js (Suc p))"
    by (simp add: number_integer_def stops_def split: if_split_asm)
  then consider "js ! p = ch CHR ''0''" "stops is_digit js (Suc p)" "q = Suc p"
    | "ch CHR ''1'' \<le> js ! p" "js ! p \<le> ch CHR ''9''" "q = skip_while is_digit js (Suc p)"
    by blast
  then show "\<exists>i. integer_ok i \<and> text_at js p i \<and> q = p + length i \<and> stops is_digit js q"
  proof cases
    case 1
    with assms show ?thesis by (intro exI [of _ "[ch CHR ''0'']"]) (simp add: integer_ok_def)
  next
    case 2
    obtain w where "skip_while is_digit js (Suc p) = Suc p + length w" "text_at js (Suc p) w" "list_all is_digit w"
      "stops is_digit js (Suc p + length w)" by (rule skip_while_text)
    with 2 assms show ?thesis by (intro exI [of _ "js ! p # w"]) (auto simp: integer_ok_def)
  qed
next
  assume "\<exists>i. integer_ok i \<and> text_at js p i \<and> q = p + length i \<and> stops is_digit js q"
  then obtain i where i: "integer_ok i" "text_at js p i" "q = p + length i" "stops is_digit js q" by blast
  from i(1) consider "i = [ch CHR ''0'']"
    | d ds where "i = d # ds" "ch CHR ''1'' \<le> d" "d \<le> ch CHR ''9''" "list_all is_digit ds"
    unfolding integer_ok_def by blast
  then show "number_integer js p = Inr q"
  proof cases
    case 1
    with i show ?thesis by (auto simp: number_integer_def stops_def)
  next
    case 2
    then have "skip_while is_digit js (Suc p) = q" using i skip_while_to [of js "Suc p" ds is_digit] by auto
    moreover have "d \<noteq> ch CHR ''0''" using 2(2) by (auto simp: ch_def word_le_nat_alt)
    ultimately show ?thesis using 2 i(2) by (auto simp: number_integer_def)
  qed
qed

lemma digits_from:
  assumes "p < length js" and "is_digit (js ! p)"
  obtains ds where "ds \<noteq> []" "skip_while is_digit js p = p + length ds" "text_at js p ds" "list_all is_digit ds"
    "stops is_digit js (p + length ds)"
proof -
  obtain ds where ds: "skip_while is_digit js p = p + length ds" "text_at js p ds" "list_all is_digit ds"
    "stops is_digit js (p + length ds)" by (rule skip_while_text)
  moreover from ds(4) assms have "ds \<noteq> []" by (auto simp: stops_def)
  ultimately show thesis using that by blast
qed

lemma number_fraction_iff:
  "number_fraction js p = Inr q \<longleftrightarrow>
    (\<exists>f. fraction_ok f \<and> text_at js p f \<and> q = p + length f \<and>
       (if f = [] then stops (\<lambda>c. c = ch CHR ''.'') js q else stops is_digit js q))"
proof
  assume l: "number_fraction js p = Inr q"
  show "\<exists>f. fraction_ok f \<and> text_at js p f \<and> q = p + length f \<and>
       (if f = [] then stops (\<lambda>c. c = ch CHR ''.'') js q else stops is_digit js q)"
  proof (cases "p < length js \<and> js ! p = ch CHR ''.''")
    case True
    with l have "Suc p < length js" "is_digit (js ! Suc p)" and q: "q = skip_while is_digit js (Suc p)"
      by (auto simp: number_fraction_def split: if_split_asm)
    from this(1,2) obtain ds where "ds \<noteq> []" "skip_while is_digit js (Suc p) = Suc p + length ds"
      "text_at js (Suc p) ds" "list_all is_digit ds" "stops is_digit js (Suc p + length ds)" by (rule digits_from)
    with True q show ?thesis by (intro exI [of _ "ch CHR ''.'' # ds"]) (auto simp: fraction_ok_def)
  next
    case False
    with l show ?thesis by (intro exI [of _ "[]"]) (auto simp: number_fraction_def fraction_ok_def stops_def split: if_split_asm)
  qed
next
  assume "\<exists>f. fraction_ok f \<and> text_at js p f \<and> q = p + length f \<and>
       (if f = [] then stops (\<lambda>c. c = ch CHR ''.'') js q else stops is_digit js q)"
  then obtain f where f: "fraction_ok f" "text_at js p f" "q = p + length f"
    "if f = [] then stops (\<lambda>c. c = ch CHR ''.'') js q else stops is_digit js q" by blast
  show "number_fraction js p = Inr q"
  proof (cases f)
    case Nil
    with f show ?thesis by (auto simp: number_fraction_def stops_def)
  next
    case (Cons c ds)
    with f have ds: "c = ch CHR ''.''" "ds \<noteq> []" "list_all is_digit ds" by (auto simp: fraction_ok_def)
    then have "skip_while is_digit js (Suc p) = q"
      using f Cons skip_while_to [of js "Suc p" ds is_digit] by auto
    moreover have "Suc p < length js" "is_digit (js ! Suc p)" using ds f(2) Cons by (cases ds, auto)+
    ultimately show ?thesis using Cons f(2) ds(1) by (auto simp: number_fraction_def)
  qed
qed

definition exponent_mark :: "byte \<Rightarrow> bool" where
  "exponent_mark c \<longleftrightarrow> c = ch CHR ''e'' \<or> c = ch CHR ''E''"

definition sign_mark :: "byte \<Rightarrow> bool" where
  "sign_mark c \<longleftrightarrow> c = ch CHR ''+'' \<or> c = ch CHR ''-''"

lemma sign_no_digit: "sign_mark c \<Longrightarrow> \<not> is_digit c"
  by (auto simp: sign_mark_def bmx_chars)

lemma exponent_ok_marks:
  "exponent_ok bs \<longleftrightarrow> bs = [] \<or>
     (\<exists>e sign ds. bs = e # sign @ ds \<and> exponent_mark e \<and> (sign = [] \<or> (\<exists>s. sign = [s] \<and> sign_mark s)) \<and>
        ds \<noteq> [] \<and> list_all is_digit ds)"
  unfolding exponent_ok_def exponent_mark_def sign_mark_def by blast

lemma number_exponent_iff:
  "number_exponent js p = Inr q \<longleftrightarrow>
    (\<exists>e. exponent_ok e \<and> text_at js p e \<and> q = p + length e \<and>
       (if e = [] then stops exponent_mark js q else stops is_digit js q))"
proof
  assume l: "number_exponent js p = Inr q"
  show "\<exists>e. exponent_ok e \<and> text_at js p e \<and> q = p + length e \<and>
       (if e = [] then stops exponent_mark js q else stops is_digit js q)"
  proof (cases "p < length js \<and> exponent_mark (js ! p)")
    case True
    define sign where "sign = (if Suc p < length js \<and> sign_mark (js ! Suc p) then [js ! Suc p] else [])"
    have sign: "text_at js (Suc p) sign" "sign = [] \<or> (\<exists>s. sign = [s] \<and> sign_mark s)"
      by (auto simp: sign_def)
    let ?p = "Suc p + length sign"
    have "?p < length js" "is_digit (js ! ?p)" and q: "q = skip_while is_digit js ?p"
      using l True by (auto simp: number_exponent_def Let_def exponent_mark_def sign_mark_def sign_def split: if_split_asm)
    from this(1,2) obtain ds where "ds \<noteq> []" "skip_while is_digit js ?p = ?p + length ds"
      "text_at js ?p ds" "list_all is_digit ds" "stops is_digit js (?p + length ds)" by (rule digits_from)
    with True q sign show ?thesis
      by (intro exI [of _ "js ! p # sign @ ds"]) (auto simp: exponent_ok_marks add.assoc)
  next
    case False
    with l show ?thesis
      by (intro exI [of _ "[]"]) (auto simp: number_exponent_def exponent_mark_def exponent_ok_def stops_def split: if_split_asm)
  qed
next
  assume "\<exists>e. exponent_ok e \<and> text_at js p e \<and> q = p + length e \<and>
       (if e = [] then stops exponent_mark js q else stops is_digit js q)"
  then obtain e where e: "exponent_ok e" "text_at js p e" "q = p + length e"
    "if e = [] then stops exponent_mark js q else stops is_digit js q" by blast
  show "number_exponent js p = Inr q"
  proof (cases "e = []")
    case True
    with e show ?thesis by (auto simp: number_exponent_def exponent_mark_def stops_def)
  next
    case False
    with e(1) obtain m sign ds where s: "e = m # sign @ ds" "exponent_mark m" "ds \<noteq> []" "list_all is_digit ds"
      "sign = [] \<or> (\<exists>s. sign = [s] \<and> sign_mark s)" unfolding exponent_ok_marks by blast
    let ?p = "Suc p + length sign"
    have at: "text_at js (Suc p) sign" "text_at js ?p ds" "p < length js" "js ! p = m" using e(2) s(1) by simp_all
    have d: "?p < length js" "is_digit (js ! ?p)" using at(2) s(3,4) by (cases ds, auto)+
    have "(if Suc p < length js \<and> sign_mark (js ! Suc p) then Suc (Suc p) else Suc p) = ?p"
      using s(5) at(1) d sign_no_digit by auto
    moreover have "skip_while is_digit js ?p = q"
      using e False s skip_while_to [OF at(2) s(4)] by (simp add: add.assoc)
    ultimately show ?thesis
      using at s(2) d by (simp add: number_exponent_def exponent_mark_def sign_mark_def)
  qed
qed

section \<open>Leaves\<close>

definition leaf_state :: "JsonTokenType \<Rightarrow> nat \<Rightarrow> nat option \<Rightarrow> json_parser \<Rightarrow> json_parser" where
  "leaf_state type e parent st = st\<lparr>position := e,
     parsed_tokens := add_child parent (parsed_tokens st) @
       [\<lparr>token_type = type, token_start = position st, token_end = e, token_parent = parent, child_count = 0\<rparr>]\<rparr>"

lemma add_leaf:
  assumes "parent_ok parent st"
  shows "(case AddToken src type (position st) parent (move_to e st) of
      (None, st) \<Rightarrow> (False, st) | (Some token, st) \<Rightarrow> (True, set_token_end token (position st) st)) =
    (if length (parsed_tokens st) < token_capacity src then (True, leaf_state type e parent st)
     else (False, JsonFail JSON_ERROR_TOKEN_LIMIT e (move_to e st)))"
  using assms
  by (simp add: AddToken_eq set_token_end_def nth_append list_update_append leaf_state_def) (simp add: move_to_def)

definition number_byte :: "byte \<Rightarrow> bool" where
  "number_byte c \<longleftrightarrow> is_digit c \<or> c = ch CHR ''.'' \<or> exponent_mark c"

definition minus_part :: "byte list \<Rightarrow> nat \<Rightarrow> byte list" where
  "minus_part js p = (if js ! p = ch CHR ''-'' then [ch CHR ''-''] else [])"

lemma ParseNumber_parts:
  assumes "parent_ok parent st" and "position st < length (json_text src)"
  shows "ParseNumber src parent st = (True, st') \<longleftrightarrow>
    (\<exists>q1 q2 q3. position st + length (minus_part (json_text src) (position st)) < length (json_text src) \<and>
       number_integer (json_text src) (position st + length (minus_part (json_text src) (position st))) = Inr q1 \<and>
       number_fraction (json_text src) q1 = Inr q2 \<and> number_exponent (json_text src) q2 = Inr q3 \<and>
       length (parsed_tokens st) < token_capacity src \<and> st' = leaf_state JSON_TOKEN_NUMBER q3 parent st)"
  using assms(2) unfolding ParseNumber_def Let_def add_leaf [OF assms(1)]
  by (auto simp: minus_part_def split: sum.split if_split)

lemma ParseNumber_sound:
  assumes "ParseNumber src parent st = (True, st')" and "parent_ok parent st" and "position st < length (json_text src)"
  shows "\<exists>bs. number_ok bs \<and> text_at (json_text src) (position st) bs \<and>
    length (parsed_tokens st) < token_capacity src \<and>
    st' = leaf_state JSON_TOKEN_NUMBER (position st + length bs) parent st"
proof -
  let ?js = "json_text src" and ?p = "position st"
  let ?m = "minus_part ?js ?p"
  from assms(1) [unfolded ParseNumber_parts [OF assms(2,3)]] obtain q1 q2 q3 where
    q: "?p + length ?m < length ?js" "number_integer ?js (?p + length ?m) = Inr q1"
    "number_fraction ?js q1 = Inr q2" "number_exponent ?js q2 = Inr q3"
    and r: "length (parsed_tokens st) < token_capacity src" "st' = leaf_state JSON_TOKEN_NUMBER q3 parent st"
    by blast
  from q(2) [unfolded number_integer_iff [OF q(1)]] obtain i where
    i: "integer_ok i" "text_at ?js (?p + length ?m) i" "q1 = ?p + length ?m + length i" by blast
  from q(3) [unfolded number_fraction_iff] obtain f where
    f: "fraction_ok f" "text_at ?js q1 f" "q2 = q1 + length f" by blast
  from q(4) [unfolded number_exponent_iff] obtain e where
    e: "exponent_ok e" "text_at ?js q2 e" "q3 = q2 + length e" by blast
  have "text_at ?js ?p ?m" using assms(3) by (simp add: minus_part_def)
  with i f e have "text_at ?js ?p (?m @ i @ f @ e)" "q3 = ?p + length (?m @ i @ f @ e)" by (simp_all add: add.assoc)
  moreover have "number_ok (?m @ i @ f @ e)"
    unfolding number_ok_def using i(1) f(1) e(1)
    by (intro exI [of _ ?m] exI [of _ i] exI [of _ f] exI [of _ e]) (simp add: minus_part_def)
  ultimately show ?thesis using r by blast
qed

lemma first_not_digit: "\<not> is_digit (ch CHR ''.'')" "exponent_mark c \<Longrightarrow> \<not> is_digit c"
  "exponent_mark c \<Longrightarrow> c \<noteq> ch CHR ''.''" "is_digit c \<Longrightarrow> c \<noteq> ch CHR ''-''"
  by (auto simp: exponent_mark_def bmx_chars)

lemma stops_part:
  assumes "stops number_byte js (p + length bs)" and "text_at js p bs"
    and "\<And>c. P c \<Longrightarrow> number_byte c" and "bs \<noteq> [] \<Longrightarrow> \<not> P (hd bs)"
  shows "stops P js p"
  using assms by (cases bs) (auto simp: stops_def)

lemma ParseNumber_complete:
  assumes "number_ok bs" and "text_at (json_text src) (position st) bs" and "parent_ok parent st"
    and "length (parsed_tokens st) < token_capacity src"
    and "stops number_byte (json_text src) (position st + length bs)"
  shows "ParseNumber src parent st = (True, leaf_state JSON_TOKEN_NUMBER (position st + length bs) parent st)"
proof -
  let ?js = "json_text src" and ?p = "position st"
  from assms(1) obtain sign i f e where bs: "bs = sign @ i @ f @ e" "sign \<in> {[], [ch CHR ''-'']}"
    "integer_ok i" "fraction_ok f" "exponent_ok e" unfolding number_ok_def by blast
  let ?p1 = "?p + length sign"
  let ?p2 = "?p1 + length i"
  let ?p3 = "?p2 + length f"
  have at: "text_at ?js ?p sign" "text_at ?js ?p1 i" "text_at ?js ?p2 f" "text_at ?js ?p3 e"
    and last: "stops number_byte ?js (?p3 + length e)"
    using assms(2,5) bs(1) by (simp_all add: add.assoc)
  obtain d ds where d: "i = d # ds" "is_digit d"
    using bs(3) by (auto simp: integer_ok_def is_digit_def ch_def word_le_nat_alt)
  have first: "?p1 < length ?js" "?js ! ?p1 = d" using at(2) d(1) by simp_all
  have minus: "minus_part ?js ?p = sign"
    using bs(2) at(1) first d(2) first_not_digit(4) [of d] by (auto simp: minus_part_def)
  have e_first: "e \<noteq> [] \<Longrightarrow> exponent_mark (hd e)" using bs(5) by (auto simp: exponent_ok_marks)
  have f_first: "f \<noteq> [] \<Longrightarrow> hd f = ch CHR ''.''" using bs(4) by (auto simp: fraction_ok_def)
  have s3: "stops is_digit ?js (?p3 + length e)" "stops exponent_mark ?js (?p3 + length e)"
    using last by (auto simp: stops_def number_byte_def)
  have s2: "stops is_digit ?js ?p3" "stops (\<lambda>c. c = ch CHR ''.'') ?js ?p3"
    using stops_part [OF last at(4)] e_first first_not_digit by (auto simp: number_byte_def)
  have fe: "text_at ?js ?p2 (f @ e)" "stops number_byte ?js (?p2 + length (f @ e))"
    using at(3,4) last by (simp_all add: add.assoc)
  have "f @ e \<noteq> [] \<Longrightarrow> \<not> is_digit (hd (f @ e))"
    using e_first f_first first_not_digit by (cases f) auto
  then have s1: "stops is_digit ?js ?p2"
    by (intro stops_part [OF fe(2,1)]) (auto simp: number_byte_def)
  have "number_integer ?js ?p1 = Inr ?p2"
    unfolding number_integer_iff [OF first(1)] using bs(3) at(2) s1 by blast
  moreover have "number_fraction ?js ?p2 = Inr ?p3"
    unfolding number_fraction_iff using bs(4) at(3) s2 by (intro exI [of _ f]) (cases f, auto)
  moreover have "number_exponent ?js ?p3 = Inr (?p3 + length e)"
    unfolding number_exponent_iff using bs(5) at(4) s3 by (intro exI [of _ e]) (cases e, auto)
  moreover have "?p < length ?js" using first(1) by simp
  ultimately show ?thesis
    using first(1) assms(3,4) minus bs(1) by (auto simp: ParseNumber_parts add.assoc)
qed

lemma ParseLiteral_iff:
  assumes "parent_ok parent st" and "literal \<noteq> []"
  shows "ParseLiteral src parent literal type st = (True, st') \<longleftrightarrow>
    text_at (json_text src) (position st) literal \<and> length (parsed_tokens st) < token_capacity src \<and>
    st' = leaf_state type (position st + length literal) parent st"
proof (cases "position st + length literal \<le> length (json_text src)")
  case True
  then show ?thesis
    unfolding ParseLiteral_def Let_def add_leaf [OF assms(1)] text_at_take_drop [OF True] by auto
next
  case False
  then show ?thesis using text_at_bound [of "json_text src" "position st" literal] assms(2)
    by (auto simp: ParseLiteral_def)
qed

section \<open>Duplicate keys\<close>

text \<open>The keys among the direct children of \<open>object\<close>: the strings at odd places.\<close>

definition key_view :: "byte list \<Rightarrow> JsonToken \<Rightarrow> nat \<times> byte list" where
  "key_view js t = (token_end t - token_start t, key_bytes js t)"

primrec scan_keys :: "byte list \<Rightarrow> nat \<Rightarrow> bool \<Rightarrow> JsonToken list \<Rightarrow> (nat \<times> byte list) list" where
  "scan_keys js object key [] = []"
| "scan_keys js object key (t # ts) =
     (if token_parent t = Some object
      then (if key \<and> token_type t = JSON_TOKEN_STRING then [key_view js t] else []) @ scan_keys js object (\<not> key) ts
      else scan_keys js object key ts)"

definition children :: "nat \<Rightarrow> JsonToken list \<Rightarrow> nat" where
  "children object ts = length (filter (\<lambda>t. token_parent t = Some object) ts)"

lemma children_simps [simp]:
  "children object [] = 0"
  "children object (t # ts) = (if token_parent t = Some object then Suc (children object ts) else children object ts)"
  "children object (ts @ us) = children object ts + children object us"
  by (simp_all add: children_def)

lemma scan_keys_append:
  "scan_keys js object key (ts @ us) =
   scan_keys js object key ts @ scan_keys js object (key = even (children object ts)) us"
proof (induction ts arbitrary: key)
  case (Cons t ts)
  have "((\<not> key) = b) = (key = (\<not> b))" for b by blast
  then show ?case by (simp add: Cons)
qed simp

lemma scan_keys_foreign: "children object ts = 0 \<Longrightarrow> scan_keys js object key ts = []"
  by (induction ts) (auto split: if_split_asm)

lemma scan_keys_iff:
  "v \<in> set (scan_keys js object key ts) \<longleftrightarrow>
   (\<exists>i < length ts. token_parent (ts ! i) = Some object \<and> token_type (ts ! i) = JSON_TOKEN_STRING \<and>
      key = even (children object (take i ts)) \<and> key_view js (ts ! i) = v)"
proof (induction ts arbitrary: key)
  case Nil
  then show ?case by simp
next
  case (Cons t ts)
  show ?case
    unfolding length_Cons Ex_less_Suc2 by (auto simp: Cons)
qed

lemma child_ordinal_children:
  assumes "i < length ts" and "token_parent (ts ! i) = Some (length A)"
  shows "child_ordinal (A @ ob # ts @ us) (length A) (Suc (length A) + i) = Suc (children (length A) (take i ts))"
proof -
  let ?all = "A @ ob # ts @ us"
  have "filter (\<lambda>j. token_parent (?all ! j) = Some (length A)) [Suc (length A)..<Suc (length A) + n] =
      map ((+) (Suc (length A))) (filter (\<lambda>j. token_parent (ts ! j) = Some (length A)) [0..<n])" if "n \<le> length ts" for n
    using that by (induction n) (simp_all add: nth_append)
  then have "child_ordinal ?all (length A) (Suc (length A) + i) =
      length (filter (\<lambda>j. token_parent (ts ! j) = Some (length A)) [0..<Suc i])"
    unfolding child_ordinal_def using assms(1) by (metis Suc_leI add_Suc_right length_map)
  also have "\<dots> = Suc (length (filter (\<lambda>j. token_parent (ts ! j) = Some (length A)) [0..<i]))"
    using assms(2) by simp
  also have "length (filter (\<lambda>j. token_parent (ts ! j) = Some (length A)) [0..<i]) = children (length A) (take i ts)"
    using assms(1)
  proof (induction i)
    case (Suc i)
    then show ?case by (auto simp: take_Suc_conv_app_nth)
  qed simp
  finally show ?thesis .
qed

lemma HasDuplicateObjectKey_iff:
  assumes "parsed_tokens st = A @ ob # ts @ [newest]"
  shows "HasDuplicateObjectKey src st (length A) (Suc (length A + length ts)) \<longleftrightarrow>
    key_view (json_text src) newest \<in> set (scan_keys (json_text src) (length A) True ts)"
proof -
  let ?all = "A @ ob # ts @ [newest]"
  have nth: "?all ! (Suc (length A) + i) = ts ! i" if "i < length ts" for i
    using that by (simp add: nth_append)
  have new: "?all ! Suc (length A + length ts) = newest" by (simp add: nth_append)
  have "HasDuplicateObjectKey src st (length A) (Suc (length A + length ts)) \<longleftrightarrow>
    (\<exists>i < length ts. token_parent (ts ! i) = Some (length A) \<and> token_type (ts ! i) = JSON_TOKEN_STRING \<and>
      odd (child_ordinal ?all (length A) (Suc (length A) + i)) \<and>
      key_view (json_text src) (ts ! i) = key_view (json_text src) newest)"
    (is "?l \<longleftrightarrow> (\<exists>i < length ts. ?Q i)")
  proof -
    have "?l \<longleftrightarrow> (\<exists>j \<in> {Suc (length A)..<Suc (length A + length ts)}. ?Q (j - Suc (length A)))"
      unfolding HasDuplicateObjectKey_def Let_def assms new list_ex_iff key_view_def
      by (rule bex_cong) (auto simp: nth_append)
    also have "\<dots> \<longleftrightarrow> (\<exists>i < length ts. ?Q i)"
    proof
      assume "\<exists>j \<in> {Suc (length A)..<Suc (length A + length ts)}. ?Q (j - Suc (length A))"
      then obtain j where "Suc (length A) \<le> j" "j < Suc (length A + length ts)" "?Q (j - Suc (length A))" by auto
      then show "\<exists>i < length ts. ?Q i" by (intro exI [of _ "j - Suc (length A)"]) auto
    next
      assume "\<exists>i < length ts. ?Q i"
      then obtain i where "i < length ts" "?Q i" by blast
      then show "\<exists>j \<in> {Suc (length A)..<Suc (length A + length ts)}. ?Q (j - Suc (length A))"
        by (intro bexI [of _ "Suc (length A) + i"]) auto
    qed
    finally show ?thesis .
  qed
  then show ?thesis
    unfolding scan_keys_iff using child_ordinal_children [of _ ts A ob "[newest]"] by auto
qed

end
