(* ===== verification/Json_Trees.thy ===== *)
theory Json_Trees
  imports Json_Exact
begin

text \<open>
  The recursive methods of the JSON parser against the trees of \<open>Json_Grammar\<close>, in both directions.
\<close>

section \<open>Tokens of a tree\<close>

fun tree_total :: "json_tree \<Rightarrow> nat"
  and members_total :: "json_member list \<Rightarrow> nat"
  and elements_total :: "json_element list \<Rightarrow> nat"
where
  "tree_total (JObject w ms) = Suc (members_total ms)"
| "tree_total (JArray w es) = Suc (elements_total es)"
| "tree_total (JString cs) = 1"
| "tree_total (JNumber bs) = 1"
| "tree_total JTrue = 1"
| "tree_total JFalse = 1"
| "tree_total JNull = 1"
| "members_total [] = 0"
| "members_total (Member k a b v t n # ms) = Suc (tree_total v + members_total ms)"
| "elements_total [] = 0"
| "elements_total (Element v t n # es) = tree_total v + elements_total es"

lemma tokens_length [simp]:
  shows tree_tokens_length: "length (tree_tokens t p i parent) = tree_total t"
    and members_tokens_length: "length (members_tokens ms p i object) = members_total ms"
    and elements_tokens_length: "length (elements_tokens es p i object) = elements_total es"
  by (induction t and ms and es arbitrary: p i parent and p i object and p i object
      rule: tree_ok_members_ok_elements_ok.induct) (simp_all add: Let_def)

text \<open>The token of a tree names the parent; the tokens behind it name a token of the tree.\<close>

lemma tokens_parents:
  shows tree_tokens_parents: "\<exists>x xs. tree_tokens t p i parent = x # xs \<and> token_parent x = parent \<and>
      (\<forall>y \<in> set xs. \<exists>j \<ge> i. token_parent y = Some j)"
    and members_tokens_parents: "object < i \<Longrightarrow>
      \<forall>y \<in> set (members_tokens ms p i object). \<exists>j \<ge> object. token_parent y = Some j"
    and elements_tokens_parents: "object < i \<Longrightarrow>
      \<forall>y \<in> set (elements_tokens es p i object). \<exists>j \<ge> object. token_parent y = Some j"
proof (induction t and ms and es arbitrary: p i parent and p i object and p i object
    rule: tree_ok_members_ok_elements_ok.induct)
  case (1 w ms)
  from 1 [of i "Suc i"] show ?case by simp
next
  case (2 w es)
  from 2 [of i "Suc i"] show ?case by simp
next
  case (9 k a b v t n ms)
  let ?q = "p + length (quoted k) + length a + 1 + length b"
  from "9.IH"(1) [of ?q "Suc i" "Some object"] obtain x xs where
    v: "tree_tokens v ?q (Suc i) (Some object) = x # xs" "token_parent x = Some object"
    "\<forall>y \<in> set xs. \<exists>j \<ge> Suc i. token_parent y = Some j" by blast
  have "\<forall>y \<in> set xs. \<exists>j \<ge> object. token_parent y = Some j" using v(3) 9(3) by fastforce
  moreover have "\<forall>y \<in> set (members_tokens ms (?q + length (tree_text v) + length t + 1 + length n) (Suc i + tree_total v) object).
      \<exists>j \<ge> object. token_parent y = Some j" using 9(3) by (intro "9.IH"(2)) simp
  ultimately show ?case using v(1,2) tree_tokens_length [of v ?q "Suc i" "Some object"] by (auto simp: Let_def)
next
  case (11 v t n es)
  from "11.IH"(1) [of p i "Some object"] obtain x xs where
    v: "tree_tokens v p i (Some object) = x # xs" "token_parent x = Some object"
    "\<forall>y \<in> set xs. \<exists>j \<ge> i. token_parent y = Some j" by blast
  have "\<forall>y \<in> set xs. \<exists>j \<ge> object. token_parent y = Some j" using v(3) 11(3) by fastforce
  moreover have "\<forall>y \<in> set (elements_tokens es (p + length (tree_text v) + length t + 1 + length n) (i + tree_total v) object).
      \<exists>j \<ge> object. token_parent y = Some j" using 11(3) by (intro "11.IH"(2)) simp
  ultimately show ?case using v(1,2) tree_tokens_length [of v p i "Some object"] by (auto simp: Let_def)
qed simp_all

lemma children_zero: "\<forall>y \<in> set xs. \<exists>j \<ge> i. token_parent y = Some j \<Longrightarrow> object < i \<Longrightarrow> children object xs = 0"
  by (induction xs) auto

lemma tree_children:
  assumes "object < i"
  shows "children object (tree_tokens v p i (Some object)) = 1"
    and "scan_keys js object False (tree_tokens v p i (Some object)) = []"
proof -
  obtain x xs where v: "tree_tokens v p i (Some object) = x # xs" "token_parent x = Some object"
    "\<forall>y \<in> set xs. \<exists>j \<ge> i. token_parent y = Some j" using tree_tokens_parents by blast
  have "children object xs = 0" using children_zero [OF v(3) assms] .
  with v(1,2) show "children object (tree_tokens v p i (Some object)) = 1"
    "scan_keys js object False (tree_tokens v p i (Some object)) = []"
    by (simp_all add: scan_keys_foreign)
qed

section \<open>What a value leaves\<close>

definition finish :: "json_tree \<Rightarrow> nat option \<Rightarrow> json_parser \<Rightarrow> json_parser" where
  "finish t parent st = st\<lparr>position := position st + length (tree_text t),
     parsed_tokens := add_child parent (parsed_tokens st) @
       tree_tokens t (position st) (length (parsed_tokens st)) parent\<rparr>"

lemma finish_leaves:
  "string_state (Suc (position st)) (Suc (position st) + length (string_text cs)) parent st = finish (JString cs) parent st"
  "leaf_state JSON_TOKEN_NUMBER (position st + length bs) parent st = finish (JNumber bs) parent st"
  "leaf_state JSON_TOKEN_TRUE (position st + 4) parent st = finish JTrue parent st"
  "leaf_state JSON_TOKEN_FALSE (position st + 5) parent st = finish JFalse parent st"
  "leaf_state JSON_TOKEN_NULL (position st + 4) parent st = finish JNull parent st"
  by (simp_all add: finish_def string_state_def leaf_state_def string_token_def quoted_def)

lemma literal_tree:
  assumes "(l, type) \<in> {(bytes_of ''true'', JSON_TOKEN_TRUE), (bytes_of ''false'', JSON_TOKEN_FALSE),
    (bytes_of ''null'', JSON_TOKEN_NULL)}"
  obtains t where "tree_ok t" "tree_depth t = 1" "tree_total t = 1" "tree_text t = l"
    "\<forall>st parent. leaf_state type (position st + length l) parent st = finish t parent st"
proof -
  consider "l = bytes_of ''true''" "type = JSON_TOKEN_TRUE" | "l = bytes_of ''false''" "type = JSON_TOKEN_FALSE"
    | "l = bytes_of ''null''" "type = JSON_TOKEN_NULL" using assms by blast
  then show thesis
  proof cases
    case 1
    show thesis by (rule that [of JTrue]) (simp_all add: 1 finish_def leaf_state_def)
  next
    case 2
    show thesis by (rule that [of JFalse]) (simp_all add: 2 finish_def leaf_state_def)
  next
    case 3
    show thesis by (rule that [of JNull]) (simp_all add: 3 finish_def leaf_state_def)
  qed
qed

lemma finish_simps [simp]:
  "position (finish t parent st) = position st + length (tree_text t)"
  "length (parsed_tokens (finish t parent st)) = length (parsed_tokens st) + tree_total t"
  by (simp_all add: finish_def)

lemma parent_ok_finish [simp]: "parent_ok parent st \<Longrightarrow> parent_ok parent (finish t parent' st)"
  by (cases parent) (simp_all add: parent_ok_def)

lemma add_child_at [simp]:
  "add_child (Some (length A)) (A @ ob # B) = A @ ob\<lparr>child_count := Suc (child_count ob)\<rparr> # B"
  by (simp add: add_child_def list_update_append)

definition value_read :: "json_source \<Rightarrow> nat option \<Rightarrow> nat \<Rightarrow> json_parser \<Rightarrow> json_tree \<Rightarrow> bool" where
  "value_read src parent depth st t \<longleftrightarrow> tree_ok t \<and> depth + tree_depth t \<le> max_depth src \<and>
     text_at (json_text src) (position st) (tree_text t) \<and>
     length (parsed_tokens st) + tree_total t \<le> token_capacity src"

section \<open>One member\<close>

text \<open>The state behind the value of a member whose key \<open>k\<close> begins at the position of \<open>st\<close>.\<close>

definition key_token :: "nat \<Rightarrow> byte list \<Rightarrow> nat \<Rightarrow> JsonToken" where
  "key_token p k object = string_token (p + 1) (p + 1 + length k) (Some object)"

definition member_tokens :: "nat \<Rightarrow> nat \<Rightarrow> nat \<Rightarrow> byte list \<Rightarrow> byte list \<Rightarrow> byte list \<Rightarrow> json_tree \<Rightarrow> JsonToken list" where
  "member_tokens object p i k a b v =
     key_token p k object # tree_tokens v (p + length (quoted k) + length a + 1 + length b) (Suc i) (Some object)"

lemma members_tokens_step:
  "members_tokens (Member k a b v t n # ms) p i object = member_tokens object p i k a b v @
   members_tokens ms (p + length (quoted k @ a @ ch CHR '':'' # b @ tree_text v @ t @ ch CHR '','' # n))
     (i + length (member_tokens object p i k a b v)) object"
  by (simp add: member_tokens_def key_token_def string_token_def Let_def add.assoc)

lemma key_view_key_token:
  "text_at js p (quoted k) \<Longrightarrow> key_view js (key_token p k object) = (length k, k)"
  using text_at_segment [of js "Suc p" k]
  by (simp add: key_view_def key_bytes_def key_token_def string_token_def quoted_def)

lemma member_tokens_scan:
  assumes "text_at js p (quoted k)" and "object < i" and "even (children object B)"
  shows "scan_keys js object True (B @ member_tokens object p i k a b v) = scan_keys js object True B @ [(length k, k)]"
    and "even (children object (B @ member_tokens object p i k a b v))"
  using assms tree_children [of object "Suc i"]
  by (simp_all add: scan_keys_append member_tokens_def key_view_key_token)
    (simp_all add: key_token_def string_token_def)

definition member_state :: "JsonToken list \<Rightarrow> JsonToken \<Rightarrow> JsonToken list \<Rightarrow> byte list \<Rightarrow> byte list \<Rightarrow> byte list \<Rightarrow>
    json_tree \<Rightarrow> json_parser \<Rightarrow> json_parser" where
  "member_state A ob B k a b v st = st\<lparr>
     position := position st + length (quoted k @ a @ ch CHR '':'' # b @ tree_text v),
     parsed_tokens := A @ ob\<lparr>child_count := child_count ob + 2\<rparr> # B @
       member_tokens (length A) (position st) (Suc (length A + length B)) k a b v\<rparr>"

lemma finish_member:
  assumes "parsed_tokens st = A @ ob # B"
  shows "finish v (Some (length A)) (move_to (position st + length (quoted k @ a @ ch CHR '':'' # b))
      (string_state (Suc (position st)) (Suc (position st) + length k) (Some (length A)) st)) =
    member_state A ob B k a b v st"
  using assms
  by (simp add: finish_def member_state_def string_state_def move_to_def member_tokens_def key_token_def
      quoted_def add.assoc)

section \<open>Soundness\<close>

text \<open>What the induction hypothesis gives for the values below: \<open>n\<close> bounds the text that is left.\<close>

definition values_sound :: "json_source \<Rightarrow> nat \<Rightarrow> bool" where
  "values_sound src n \<longleftrightarrow> (\<forall>parent depth st st'. text_left src st < n \<longrightarrow> parent_ok parent st \<longrightarrow>
     ParseValue src parent depth st = (True, st') \<longrightarrow>
     (\<exists>t. value_read src parent depth (SkipWhitespace src st) t \<and> st' = finish t parent (SkipWhitespace src st)))"

lemma values_soundD:
  assumes "values_sound src n" and "ParseValue src parent depth st = (True, st')" and "text_left src st < n"
    and "parent_ok parent st"
  obtains t where "value_read src parent depth (SkipWhitespace src st) t" "st' = finish t parent (SkipWhitespace src st)"
  using assms unfolding values_sound_def by blast

definition key_pair :: "byte list \<Rightarrow> nat \<times> byte list" where
  "key_pair k = (length k, k)"

lemma key_pair_eq [simp]: "key_pair k = key_pair l \<longleftrightarrow> k = l"
  by (auto simp: key_pair_def)

definition object_state :: "JsonToken list \<Rightarrow> JsonToken \<Rightarrow> JsonToken list \<Rightarrow> json_member list \<Rightarrow> json_parser \<Rightarrow> json_parser" where
  "object_state A ob B ms st = (let e = position st + length (members_text ms) + 1 in
     st\<lparr>position := e,
        parsed_tokens := A @ ob\<lparr>child_count := child_count ob + 2 * length ms, token_end := e\<rparr> # B @
          members_tokens ms (position st) (Suc (length A + length B)) (length A)\<rparr>)"

definition members_read :: "json_source \<Rightarrow> nat \<Rightarrow> JsonToken list \<Rightarrow> JsonToken list \<Rightarrow> json_parser \<Rightarrow> json_member list \<Rightarrow> bool" where
  "members_read src depth A B st ms \<longleftrightarrow> ms \<noteq> [] \<and> members_ok ms \<and> distinct (map member_key ms) \<and>
     set (scan_keys (json_text src) (length A) True B) \<inter> key_pair ` member_key ` set ms = {} \<and>
     depth + members_depth ms \<le> max_depth src \<and>
     text_at (json_text src) (position st) (members_text ms @ [ch CHR ''}'']) \<and>
     length (parsed_tokens st) + members_total ms \<le> token_capacity src"

lemma member_read:
  assumes "values_sound src n" and "object_loop src (length A) depth st = (True, st')"
    and "parsed_tokens st = A @ ob # B" and "text_left src st \<le> n"
  obtains k a b v where "key_ok k" "blanks a" "blanks b"
    "text_at (json_text src) (position st) (quoted k @ a @ ch CHR '':'' # b)"
    "value_read src (Some (length A)) depth (move_to (position st + length (quoted k @ a @ ch CHR '':'' # b))
       (string_state (Suc (position st)) (Suc (position st) + length k) (Some (length A)) st)) v"
    "key_pair k \<notin> set (scan_keys (json_text src) (length A) True B)"
    "position (SkipWhitespace src (member_state A ob B k a b v st)) < length (json_text src)"
    "(json_text src ! position (SkipWhitespace src (member_state A ob B k a b v st)) = ch CHR ''}'' \<and>
      st' = set_token_end (length A) (Suc (position (SkipWhitespace src (member_state A ob B k a b v st))))
              (move_to (Suc (position (SkipWhitespace src (member_state A ob B k a b v st))))
                (member_state A ob B k a b v st))) \<or>
     (json_text src ! position (SkipWhitespace src (member_state A ob B k a b v st)) = ch CHR '','' \<and>
      object_loop src (length A) depth
        (SkipWhitespace src (move_to (Suc (position (SkipWhitespace src (member_state A ob B k a b v st))))
           (member_state A ob B k a b v st))) = (True, st'))"
proof -
  show thesis
  proof (rule object_loop_cases [OF assms(2)], goal_cases)
  case (1 key s1 s2)
  let ?js = "json_text src" and ?p = "position st" and ?o = "Some (length A)"
  have ok: "parent_ok ?o st" using assms(3) by (simp add: parent_ok_def)
  have quote: "text_at ?js ?p [ch CHR 0x22]" using 1(1,2) by simp
  from 1(3) [unfolded ParseString_key [OF ok quote]] obtain k where
    k: "key_ok k" "text_at ?js ?p (quoted k)" "key = length (parsed_tokens st)"
    "s1 = string_state (Suc ?p) (Suc ?p + length k) ?o st" by blast
  have tok: "parsed_tokens s1 = A @ ob\<lparr>child_count := Suc (child_count ob)\<rparr> # B @ [key_token ?p k (length A)]"
    using assms(3) k(4) by (simp add: string_state_def key_token_def)
  have new: "key_pair k \<notin> set (scan_keys ?js (length A) True B)"
    using 1(4) HasDuplicateObjectKey_iff [OF tok, of src] k(2,3) assms(3)
    by (simp add: key_view_key_token key_pair_def)
  have p1: "position s1 = ?p + length (quoted k)" using k(4) by (simp add: string_state_def quoted_def)
  obtain a where a: "SkipWhitespace src s1 = move_to (position s1 + length a) s1" "text_at ?js (position s1) a" "blanks a"
    by (rule SkipWhitespace_text)
  let ?s = "move_to (Suc (position s1 + length a)) s1"
  obtain b where b: "SkipWhitespace src ?s = move_to (position ?s + length b) ?s" "text_at ?js (position ?s) b" "blanks b"
    by (rule SkipWhitespace_text)
  have run: "ParseValue src ?o depth ?s = (True, s2)" using 1(7) a(1) by simp
  have left: "text_left src ?s < n"
    using text_left_less [OF 1(1), of ?s] p1 assms(4) by (simp add: quoted_def)
  have "parent_ok ?o ?s" using tok by (simp add: parent_ok_def)
  from values_soundD [OF assms(1) run left this] obtain v where
    v: "value_read src ?o depth (SkipWhitespace src ?s) v" "s2 = finish v ?o (SkipWhitespace src ?s)" by blast
  have pos: "SkipWhitespace src ?s = move_to (?p + length (quoted k @ a @ ch CHR '':'' # b)) s1"
    using b(1) p1 by (simp add: add.assoc)
  have s2: "s2 = member_state A ob B k a b v st" using v(2) pos k(4) finish_member [OF assms(3)] by simp
  have "text_at ?js ?p (quoted k @ a @ ch CHR '':'' # b)" using k(2) a b(2) 1(5,6) p1 by (simp add: add.assoc)
  moreover have "value_read src ?o depth (move_to (?p + length (quoted k @ a @ ch CHR '':'' # b))
      (string_state (Suc ?p) (Suc ?p + length k) ?o st)) v" using v(1) pos k(4) by simp
  moreover have "move_to q (SkipWhitespace src s2) = move_to q s2" for q by (simp add: SkipWhitespace_def)
  ultimately show ?case using that [of k a b v] k(1) a(3) b(3) new 1(8,9) s2 by simp
  qed
qed

text \<open>A list of members, read from its front.\<close>

abbreviation value_start :: "JsonToken list \<Rightarrow> byte list \<Rightarrow> byte list \<Rightarrow> byte list \<Rightarrow> json_parser \<Rightarrow> json_parser" where
  "value_start A k a b st \<equiv> move_to (position st + length (quoted k @ a @ ch CHR '':'' # b))
     (string_state (Suc (position st)) (Suc (position st) + length k) (Some (length A)) st)"

lemma member_state_simps:
  "position (member_state A ob B k a b v st) = position st + length (quoted k @ a @ ch CHR '':'' # b @ tree_text v)"
  "parsed_tokens (member_state A ob B k a b v st) = A @ ob\<lparr>child_count := child_count ob + 2\<rparr> #
     B @ member_tokens (length A) (position st) (Suc (length A + length B)) k a b v"
  by (simp_all add: member_state_def)

lemma value_start_simps:
  "position (value_start A k a b st) = position st + length (quoted k @ a @ ch CHR '':'' # b)"
  "length (parsed_tokens (value_start A k a b st)) = Suc (length (parsed_tokens st))"
  by (simp_all add: string_state_def)

lemma length_member_tokens [simp]: "length (member_tokens object p i k a b v) = Suc (tree_total v)"
  by (simp add: member_tokens_def)

lemma members_read_last:
  assumes "parsed_tokens st = A @ ob # B"
  shows "members_read src depth A B st [Member k a b v t n] \<longleftrightarrow>
    key_ok k \<and> blanks a \<and> blanks b \<and> blanks t \<and> blanks n \<and>
    key_pair k \<notin> set (scan_keys (json_text src) (length A) True B) \<and>
    text_at (json_text src) (position st) (quoted k @ a @ ch CHR '':'' # b) \<and>
    value_read src (Some (length A)) depth (value_start A k a b st) v \<and>
    text_at (json_text src) (position (member_state A ob B k a b v st)) (t @ [ch CHR ''}''])"
  unfolding members_read_def value_read_def value_start_simps member_state_simps
  by (auto simp: add.assoc)

lemma members_read_Cons:
  assumes "parsed_tokens st = A @ ob # B" and "even (children (length A) B)" and "ms \<noteq> []"
  shows "members_read src depth A B st (Member k a b v t n # ms) \<longleftrightarrow>
    key_ok k \<and> blanks a \<and> blanks b \<and> blanks t \<and> blanks n \<and>
    key_pair k \<notin> set (scan_keys (json_text src) (length A) True B) \<and>
    text_at (json_text src) (position st) (quoted k @ a @ ch CHR '':'' # b) \<and>
    value_read src (Some (length A)) depth (value_start A k a b st) v \<and>
    text_at (json_text src) (position (member_state A ob B k a b v st)) (t @ ch CHR '','' # n) \<and>
    members_read src depth A (B @ member_tokens (length A) (position st) (Suc (length A + length B)) k a b v)
      (move_to (position (member_state A ob B k a b v st) + length (t @ ch CHR '','' # n)) (member_state A ob B k a b v st)) ms"
  (is "?l \<longleftrightarrow> ?r")
proof -
  let ?js = "json_text src" and ?p = "position st"
  have scan: "scan_keys ?js (length A) True (B @ member_tokens (length A) ?p (Suc (length A + length B)) k a b v) =
      scan_keys ?js (length A) True B @ [key_pair k]" if "text_at ?js ?p (quoted k)"
    using member_tokens_scan(1) [OF that _ assms(2), of "Suc (length A + length B)"] by (simp add: key_pair_def)
  have eq: "key_pair k \<in> key_pair ` member_key ` set ms \<longleftrightarrow> k \<in> member_key ` set ms" by auto
  show ?thesis
    unfolding members_read_def value_read_def value_start_simps member_state_simps
    using assms(1,3) scan eq by (cases "text_at ?js ?p (quoted k)") (auto simp: add.assoc member_state_simps)
qed

lemma object_state_last:
  assumes "parsed_tokens st = A @ ob # B"
  shows "object_state A ob B [Member k a b v t n] st =
    set_token_end (length A) (Suc (position (member_state A ob B k a b v st) + length t))
      (move_to (Suc (position (member_state A ob B k a b v st) + length t)) (member_state A ob B k a b v st))"
  by (simp add: object_state_def members_tokens_step set_token_end_def member_state_simps Let_def nth_append
      list_update_append add.assoc del: members_tokens.simps(2)) (simp add: member_state_def move_to_def)

lemma object_state_Cons:
  assumes "parsed_tokens st = A @ ob # B" and "ms \<noteq> []"
  shows "object_state A (ob\<lparr>child_count := child_count ob + 2\<rparr>)
      (B @ member_tokens (length A) (position st) (Suc (length A + length B)) k a b v) ms
      (move_to (position (member_state A ob B k a b v st) + length (t @ ch CHR '','' # n)) (member_state A ob B k a b v st)) =
    object_state A ob B (Member k a b v t n # ms) st"
  using assms
  by (simp add: object_state_def members_tokens_step member_state_simps Let_def add.assoc del: members_tokens.simps(2))
    (simp add: member_state_def move_to_def add.assoc)

lemma object_loop_sound:
  assumes "values_sound src n" and "object_loop src (length A) depth st = (True, st')"
    and "parsed_tokens st = A @ ob # B" and "even (children (length A) B)" and "text_left src st \<le> n"
  shows "\<exists>ms. members_read src depth A B st ms \<and> st' = object_state A ob B ms st"
  using assms(2-)
proof (induction "text_left src st" arbitrary: st ob B rule: less_induct)
  case less
  let ?js = "json_text src"
  from assms(1) less.prems(1,2,4) obtain k a b v where
    k: "key_ok k" "blanks a" "blanks b" "text_at ?js (position st) (quoted k @ a @ ch CHR '':'' # b)"
    "value_read src (Some (length A)) depth (value_start A k a b st) v"
    "key_pair k \<notin> set (scan_keys ?js (length A) True B)"
    and next_byte: "position (SkipWhitespace src (member_state A ob B k a b v st)) < length ?js"
    and cases: "(?js ! position (SkipWhitespace src (member_state A ob B k a b v st)) = ch CHR ''}'' \<and>
      st' = set_token_end (length A) (Suc (position (SkipWhitespace src (member_state A ob B k a b v st))))
              (move_to (Suc (position (SkipWhitespace src (member_state A ob B k a b v st))))
                (member_state A ob B k a b v st))) \<or>
     (?js ! position (SkipWhitespace src (member_state A ob B k a b v st)) = ch CHR '','' \<and>
      object_loop src (length A) depth
        (SkipWhitespace src (move_to (Suc (position (SkipWhitespace src (member_state A ob B k a b v st))))
           (member_state A ob B k a b v st))) = (True, st'))"
    by (rule member_read)
  let ?m = "member_state A ob B k a b v st"
  obtain t where t: "SkipWhitespace src ?m = move_to (position ?m + length t) ?m" "text_at ?js (position ?m) t" "blanks t"
    by (rule SkipWhitespace_text)
  from cases show ?case
  proof (elim disjE conjE)
    assume close: "?js ! position (SkipWhitespace src ?m) = ch CHR ''}''"
      and st': "st' = set_token_end (length A) (Suc (position (SkipWhitespace src ?m)))
        (move_to (Suc (position (SkipWhitespace src ?m))) ?m)"
    then have "members_read src depth A B st [Member k a b v t []]"
      using k t next_byte by (subst members_read_last [OF less.prems(2)]) simp
    moreover have "st' = object_state A ob B [Member k a b v t []] st"
      unfolding object_state_last [OF less.prems(2)] using st' t(1) by simp
    ultimately show ?thesis by blast
  next
    assume comma: "?js ! position (SkipWhitespace src ?m) = ch CHR '',''"
      and loop: "object_loop src (length A) depth
        (SkipWhitespace src (move_to (Suc (position (SkipWhitespace src ?m))) ?m)) = (True, st')"
    let ?s = "move_to (Suc (position ?m + length t)) ?m"
    obtain w where w: "SkipWhitespace src ?s = move_to (position ?s + length w) ?s" "text_at ?js (position ?s) w" "blanks w"
      by (rule SkipWhitespace_text)
    let ?next = "move_to (position ?m + length (t @ ch CHR '','' # w)) ?m"
    let ?B = "B @ member_tokens (length A) (position st) (Suc (length A + length B)) k a b v"
    have run: "object_loop src (length A) depth ?next = (True, st')"
      using loop t(1) w(1) by (simp add: add.assoc)
    have "position st < length ?js" "position st < position ?next"
      using k(4) by (simp_all add: quoted_def member_state_simps)
    then have less_next: "text_left src ?next < text_left src st" by (rule text_left_less)
    have tok: "parsed_tokens ?next = A @ ob\<lparr>child_count := child_count ob + 2\<rparr> # ?B"
      by (simp add: member_state_simps)
    have even: "even (children (length A) ?B)"
      using k(4) less.prems(3) member_tokens_scan(2) [of ?js "position st" k "length A" "Suc (length A + length B)"] by simp
    from less.hyps [OF less_next run tok even] less_next less.prems(4) obtain ms where
      ms: "members_read src depth A ?B ?next ms"
        "st' = object_state A (ob\<lparr>child_count := child_count ob + 2\<rparr>) ?B ms ?next" by auto
    then have ne: "ms \<noteq> []" by (simp add: members_read_def)
    have "members_read src depth A B st (Member k a b v t w # ms)"
      unfolding members_read_Cons [OF less.prems(2,3) ne]
      using k t next_byte comma w(2,3) ms(1) by simp
    moreover have "st' = object_state A ob B (Member k a b v t w # ms) st"
      using ms(2) object_state_Cons [OF less.prems(2) ne] by simp
    ultimately show ?thesis by blast
  qed
qed

text \<open>A list of elements, read from its front.\<close>

definition array_state :: "JsonToken list \<Rightarrow> JsonToken \<Rightarrow> JsonToken list \<Rightarrow> json_element list \<Rightarrow> json_parser \<Rightarrow> json_parser" where
  "array_state A ob B es st = (let e = position st + length (elements_text es) + 1 in
     st\<lparr>position := e,
        parsed_tokens := A @ ob\<lparr>child_count := child_count ob + length es, token_end := e\<rparr> # B @
          elements_tokens es (position st) (Suc (length A + length B)) (length A)\<rparr>)"

definition elements_read :: "json_source \<Rightarrow> nat \<Rightarrow> json_parser \<Rightarrow> json_element list \<Rightarrow> bool" where
  "elements_read src depth st es \<longleftrightarrow> es \<noteq> [] \<and> elements_ok es \<and> depth + elements_depth es \<le> max_depth src \<and>
     text_at (json_text src) (position st) (elements_text es @ [ch CHR '']'']) \<and>
     length (parsed_tokens st) + elements_total es \<le> token_capacity src"

lemma finish_element:
  assumes "parsed_tokens st = A @ ob # B"
  shows "parsed_tokens (finish v (Some (length A)) st) = A @ ob\<lparr>child_count := child_count ob + 1\<rparr> #
     B @ tree_tokens v (position st) (Suc (length A + length B)) (Some (length A))"
  using assms by (simp add: finish_def)

lemma elements_read_last:
  "elements_read src depth st [Element v t n] \<longleftrightarrow> blanks t \<and> blanks n \<and>
   value_read src parent depth st v \<and> text_at (json_text src) (position st + length (tree_text v)) (t @ [ch CHR '']''])"
  by (auto simp: elements_read_def value_read_def add.assoc)

lemma elements_read_Cons:
  assumes "es \<noteq> []"
  shows "elements_read src depth st (Element v t n # es) \<longleftrightarrow> blanks t \<and> blanks n \<and>
    value_read src parent depth st v \<and>
    text_at (json_text src) (position st + length (tree_text v)) (t @ ch CHR '','' # n) \<and>
    elements_read src depth (move_to (position st + length (tree_text v) + length (t @ ch CHR '','' # n)) (finish v parent st)) es"
  using assms by (auto simp: elements_read_def value_read_def add.assoc)

lemma array_state_last:
  assumes "parsed_tokens st = A @ ob # B"
  shows "array_state A ob B [Element v t n] st =
    set_token_end (length A) (Suc (position st + length (tree_text v) + length t))
      (move_to (Suc (position st + length (tree_text v) + length t)) (finish v (Some (length A)) st))"
  using finish_element [OF assms]
  by (simp add: array_state_def set_token_end_def Let_def list_update_append add.assoc)
    (simp add: finish_def move_to_def assms)

lemma array_state_Cons:
  assumes "parsed_tokens st = A @ ob # B" and "es \<noteq> []"
  shows "array_state A (ob\<lparr>child_count := child_count ob + 1\<rparr>)
      (B @ tree_tokens v (position st) (Suc (length A + length B)) (Some (length A))) es
      (move_to (position st + length (tree_text v) + length (t @ ch CHR '','' # n)) (finish v (Some (length A)) st)) =
    array_state A ob B (Element v t n # es) st"
  using assms by (simp add: array_state_def Let_def add.assoc) (simp add: finish_def move_to_def add.assoc)

lemma array_loop_sound:
  assumes "values_sound src n" and "array_loop src (length A) depth st = (True, st')"
    and "parsed_tokens st = A @ ob # B" and "stops json_blank (json_text src) (position st)" and "text_left src st < n"
  shows "\<exists>es. elements_read src depth st es \<and> st' = array_state A ob B es st"
  using assms(2-)
proof (induction "text_left src st" arbitrary: st ob B rule: less_induct)
  case less
  let ?js = "json_text src"
  show ?case
  proof (rule array_loop_cases [OF less.prems(1)], goal_cases)
    case (1 s2)
    have "parent_ok (Some (length A)) st" using less.prems(2) by (simp add: parent_ok_def)
    from values_soundD [OF assms(1) 1(2) less.prems(4) this] obtain v where
      v: "value_read src (Some (length A)) depth st v" "s2 = finish v (Some (length A)) st"
      using SkipWhitespace_stay [OF less.prems(3)] by metis
    obtain t where t: "SkipWhitespace src s2 = move_to (position s2 + length t) s2" "text_at ?js (position s2) t" "blanks t"
      by (rule SkipWhitespace_text)
    have p2: "position s2 = position st + length (tree_text v)" using v(2) by simp
    from 1(4) show ?thesis
    proof (elim disjE conjE)
      assume close: "?js ! position (SkipWhitespace src s2) = ch CHR '']''"
        and st': "st' = set_token_end (length A) (Suc (position (SkipWhitespace src s2)))
          (move_to (Suc (position (SkipWhitespace src s2))) (SkipWhitespace src s2))"
      then have "elements_read src depth st [Element v t []]"
        using v(1) t 1(3) p2 by (subst elements_read_last) auto
      moreover have "st' = array_state A ob B [Element v t []] st"
        unfolding array_state_last [OF less.prems(2)] using st' t(1) v(2) by simp
      ultimately show ?thesis by blast
    next
      assume comma: "?js ! position (SkipWhitespace src s2) = ch CHR '',''"
        and loop: "array_loop src (length A) depth
          (SkipWhitespace src (move_to (Suc (position (SkipWhitespace src s2))) (SkipWhitespace src s2))) = (True, st')"
      let ?s = "move_to (Suc (position s2 + length t)) s2"
      obtain w where w: "SkipWhitespace src ?s = move_to (position ?s + length w) ?s" "text_at ?js (position ?s) w" "blanks w"
        "stops json_blank ?js (position ?s + length w)" by (rule SkipWhitespace_text)
      let ?next = "move_to (position st + length (tree_text v) + length (t @ ch CHR '','' # w)) s2"
      let ?B = "B @ tree_tokens v (position st) (Suc (length A + length B)) (Some (length A))"
      have run: "array_loop src (length A) depth ?next = (True, st')"
        using loop t(1) w(1) p2 by (simp add: add.assoc)
      have "position st < length ?js" "position st < position ?next" using 1(1) by simp_all
      then have less_next: "text_left src ?next < text_left src st" by (rule text_left_less)
      have tok: "parsed_tokens ?next = A @ ob\<lparr>child_count := child_count ob + 1\<rparr> # ?B"
        using finish_element [OF less.prems(2)] v(2) by simp
      have stop: "stops json_blank ?js (position ?next)" using w(4) p2 by (simp add: add.assoc)
      from less.hyps [OF less_next run tok stop] less_next less.prems(4) obtain es where
        es: "elements_read src depth ?next es"
          "st' = array_state A (ob\<lparr>child_count := child_count ob + 1\<rparr>) ?B es ?next" by auto
      then have ne: "es \<noteq> []" by (simp add: elements_read_def)
      have "elements_read src depth st (Element v t w # es)"
        unfolding elements_read_Cons [OF ne, of src depth st v t w "Some (length A)"]
        using v t 1(3) comma w(2,3) p2 es(1) by simp
      moreover have "st' = array_state A ob B (Element v t w # es) st"
        using es(2) array_state_Cons [OF less.prems(2) ne] v(2) by simp
      ultimately show ?thesis by blast
    qed
  qed
qed

text \<open>The state behind the opening bracket of an object or array, with the blanks \<open>w\<close> skipped.\<close>

definition open_token :: "JsonTokenType \<Rightarrow> nat \<Rightarrow> nat option \<Rightarrow> JsonToken" where
  "open_token type p parent =
     \<lparr>token_type = type, token_start = p, token_end = p, token_parent = parent, child_count = 0\<rparr>"

definition open_state :: "JsonTokenType \<Rightarrow> nat option \<Rightarrow> byte list \<Rightarrow> json_parser \<Rightarrow> json_parser" where
  "open_state type parent w st = st\<lparr>position := position st + 1 + length w,
     parsed_tokens := add_child parent (parsed_tokens st) @ [open_token type (position st) parent]\<rparr>"

lemma open_state_simps [simp]:
  "position (open_state type parent w st) = position st + 1 + length w"
  "parsed_tokens (open_state type parent w st) = add_child parent (parsed_tokens st) @ [open_token type (position st) parent]"
  "move_to q (open_state type parent w st) = (open_state type parent w st)\<lparr>position := q\<rparr>"
  by (simp_all add: open_state_def move_to_def)

lemma AddToken_open:
  assumes "parent_ok parent st"
  shows "AddToken src type (position st) parent (move_to (Suc (position st)) st) = (Some i, s) \<longleftrightarrow>
    length (parsed_tokens st) < token_capacity src \<and> i = length (parsed_tokens st) \<and> s = open_state type parent [] st"
proof -
  have "(move_to (Suc (position st)) st)\<lparr>parsed_tokens := add_child parent (parsed_tokens st) @
      [open_token type (position st) parent]\<rparr> = open_state type parent [] st"
    by (simp add: open_state_def move_to_def)
  then show ?thesis using assms by (auto simp: AddToken_eq open_token_def)
qed

lemma move_open: "move_to (Suc (position st) + length w) (open_state type parent [] st) = open_state type parent w st"
  by (simp add: open_state_def move_to_def)

lemma finish_object:
  "object_state (add_child parent (parsed_tokens st)) (open_token JSON_TOKEN_OBJECT (position st) parent) []
     ms (open_state JSON_TOKEN_OBJECT parent w st) = finish (JObject w ms) parent st"
  by (simp add: object_state_def finish_def open_state_def open_token_def Let_def add.assoc)

lemma finish_array:
  "array_state (add_child parent (parsed_tokens st)) (open_token JSON_TOKEN_ARRAY (position st) parent) []
     es (open_state JSON_TOKEN_ARRAY parent w st) = finish (JArray w es) parent st"
  by (simp add: array_state_def finish_def open_state_def open_token_def Let_def add.assoc)

lemma finish_empty:
  "set_token_end (length (parsed_tokens st)) (Suc (position st + 1 + length w))
     (move_to (Suc (position st + 1 + length w)) (open_state JSON_TOKEN_OBJECT parent w st)) = finish (JObject w []) parent st"
  "set_token_end (length (parsed_tokens st)) (Suc (position st + 1 + length w))
     (move_to (Suc (position st + 1 + length w)) (open_state JSON_TOKEN_ARRAY parent w st)) = finish (JArray w []) parent st"
  by (simp_all add: set_token_end_def finish_def open_token_def nth_append list_update_append)
    (simp_all add: open_state_def)

lemma object_read:
  assumes "text_at (json_text src) (position st) (ch CHR ''{'' # w)" and "blanks w"
  shows "members_read src (Suc depth) (add_child parent (parsed_tokens st)) [] (open_state JSON_TOKEN_OBJECT parent w st) ms
    \<longleftrightarrow> ms \<noteq> [] \<and> value_read src parent depth st (JObject w ms)"
  using assms by (auto simp: members_read_def value_read_def)

lemma array_read:
  assumes "text_at (json_text src) (position st) (ch CHR ''['' # w)" and "blanks w"
  shows "elements_read src (Suc depth) (open_state JSON_TOKEN_ARRAY parent w st) es
    \<longleftrightarrow> es \<noteq> [] \<and> value_read src parent depth st (JArray w es)"
  using assms by (auto simp: elements_read_def value_read_def)

lemma ParseObject_sound:
  assumes "values_sound src n" and "ParseObject src parent (Suc depth) st = (True, st')" and "parent_ok parent st"
    and "text_at (json_text src) (position st) [ch CHR ''{'']" and "text_left src st \<le> n" and "depth < max_depth src"
  shows "\<exists>t. value_read src parent depth st t \<and> st' = finish t parent st"
proof (rule ParseObject_cases [OF assms(2)], goal_cases)
  case (1 object s1)
  let ?js = "json_text src"
  note add = 1(1) [unfolded AddToken_open [OF assms(3)]]
  obtain w where w: "SkipWhitespace src s1 = move_to (position s1 + length w) s1" "text_at ?js (position s1) w" "blanks w"
    by (rule SkipWhitespace_text)
  let ?s = "open_state JSON_TOKEN_OBJECT parent w st"
  have skip: "SkipWhitespace src s1 = ?s" using w(1) add move_open by simp
  have at: "text_at ?js (position st) (ch CHR ''{'' # w)" using w(2) add assms(4) by simp
  from 1(2) [unfolded skip] show ?thesis
  proof (elim disjE conjE)
    assume c: "position ?s < length ?js" "?js ! position ?s = ch CHR ''}''"
      and st': "st' = set_token_end object (Suc (position ?s)) (move_to (Suc (position ?s)) ?s)"
    then have "value_read src parent depth st (JObject w [])"
      using at w(3) assms(6) add by (simp add: value_read_def)
    moreover have "st' = finish (JObject w []) parent st" using st' add finish_empty by simp
    ultimately show ?thesis by blast
  next
    assume loop: "object_loop src object (Suc depth) ?s = (True, st')"
    let ?A = "add_child parent (parsed_tokens st)"
    have obj: "object = length ?A" using add by simp
    have "text_left src ?s \<le> n" using assms(5) by (simp add: text_left_def)
    then obtain ms where ms: "members_read src (Suc depth) ?A [] ?s ms"
      "st' = object_state ?A (open_token JSON_TOKEN_OBJECT (position st) parent) [] ms ?s"
      using object_loop_sound [OF assms(1) loop [unfolded obj], of "open_token JSON_TOKEN_OBJECT (position st) parent" "[]"] by auto
    then show ?thesis using object_read [OF at w(3)] finish_object by auto
  qed
qed

lemma ParseArray_sound:
  assumes "values_sound src n" and "ParseArray src parent (Suc depth) st = (True, st')" and "parent_ok parent st"
    and "text_at (json_text src) (position st) [ch CHR ''['']" and "text_left src st \<le> n" and "depth < max_depth src"
  shows "\<exists>t. value_read src parent depth st t \<and> st' = finish t parent st"
proof (rule ParseArray_cases [OF assms(2)], goal_cases)
  case (1 array s1)
  let ?js = "json_text src"
  note add = 1(1) [unfolded AddToken_open [OF assms(3)]]
  obtain w where w: "SkipWhitespace src s1 = move_to (position s1 + length w) s1" "text_at ?js (position s1) w" "blanks w"
    "stops json_blank ?js (position s1 + length w)" by (rule SkipWhitespace_text)
  let ?s = "open_state JSON_TOKEN_ARRAY parent w st"
  have skip: "SkipWhitespace src s1 = ?s" using w(1) add move_open by simp
  have at: "text_at ?js (position st) (ch CHR ''['' # w)" using w(2) add assms(4) by simp
  from 1(2) [unfolded skip] show ?thesis
  proof (elim disjE conjE)
    assume c: "position ?s < length ?js" "?js ! position ?s = ch CHR '']''"
      and st': "st' = set_token_end array (Suc (position ?s)) (move_to (Suc (position ?s)) ?s)"
    then have "value_read src parent depth st (JArray w [])"
      using at w(3) assms(6) add by (simp add: value_read_def)
    moreover have "st' = finish (JArray w []) parent st" using st' add finish_empty by simp
    ultimately show ?thesis by blast
  next
    assume loop: "array_loop src array (Suc depth) ?s = (True, st')"
    let ?A = "add_child parent (parsed_tokens st)"
    have arr: "array = length ?A" using add by simp
    have "position st < length ?js" using assms(4) by simp
    then have "text_left src ?s < n" using assms(5) by (simp add: text_left_def)
    moreover have "stops json_blank ?js (position ?s)" using w(4) add by simp
    ultimately obtain es where es: "elements_read src (Suc depth) ?s es"
      "st' = array_state ?A (open_token JSON_TOKEN_ARRAY (position st) parent) [] es ?s"
      using array_loop_sound [OF assms(1) loop [unfolded arr], of "open_token JSON_TOKEN_ARRAY (position st) parent" "[]"] by auto
    then show ?thesis using array_read [OF at w(3)] finish_array by auto
  qed
qed

lemma ParseValue_sound:
  assumes "ParseValue src parent depth st = (True, st')" and "parent_ok parent st"
  shows "\<exists>t. value_read src parent depth (SkipWhitespace src st) t \<and> st' = finish t parent (SkipWhitespace src st)"
  using assms
proof (induction "text_left src st" arbitrary: parent depth st st' rule: less_induct)
  case less
  let ?s = "SkipWhitespace src st" and ?js = "json_text src"
  have IH: "values_sound src (text_left src st)" unfolding values_sound_def using less.hyps by blast
  have ok: "parent_ok parent ?s" using less.prems(2) by (simp add: SkipWhitespace_def)
  note left = text_left_skip [of src st]
  show ?case
  proof (rule ParseValue_cases [OF less.prems(1)], goal_cases)
    case 1
    then show ?thesis using ParseObject_sound [OF IH 1(4) ok _ left] by simp
  next
    case 2
    then show ?thesis using ParseArray_sound [OF IH 2(4) ok _ left] by simp
  next
    case (3 i)
    then have quote: "text_at ?js (position ?s) [ch CHR 0x22]" by simp
    from 3(4) [unfolded ParseString_value [OF ok quote] finish_leaves] obtain cs where
      "list_all char_ok cs" "text_at ?js (position ?s) (quoted (string_text cs))"
      "length (parsed_tokens ?s) < token_capacity src" "st' = finish (JString cs) parent ?s" by blast
    with 3(1) show ?thesis by (intro exI [of _ "JString cs"]) (simp add: value_read_def)
  next
    case (4 l type)
    from 4(3) obtain t where t: "tree_ok t" "tree_depth t = 1" "tree_total t = 1" "tree_text t = l"
      "\<forall>st parent. leaf_state type (position st + length l) parent st = finish t parent st" by (rule literal_tree)
    have "l \<noteq> []" using 4(3) by auto
    from 4(4) [unfolded ParseLiteral_iff [OF ok this]] 4(1) t show ?thesis
      by (intro exI [of _ t]) (simp add: value_read_def)
  next
    case 5
    from ParseNumber_sound [OF 5(3) ok 5(2), unfolded finish_leaves] obtain bs where
      "number_ok bs" "text_at ?js (position ?s) bs" "length (parsed_tokens ?s) < token_capacity src"
      "st' = finish (JNumber bs) parent ?s" by blast
    with 5(1) show ?thesis by (intro exI [of _ "JNumber bs"]) (simp add: value_read_def)
  qed
qed

section \<open>Completeness\<close>

lemma not_blank:
  "\<not> json_blank (ch CHR ''{'')" "\<not> json_blank (ch CHR ''['')" "\<not> json_blank (ch CHR 0x22)"
  "\<not> json_blank (ch CHR ''}'')" "\<not> json_blank (ch CHR '']'')" "\<not> json_blank (ch CHR '':'')"
  "\<not> json_blank (ch CHR '','')" "\<not> json_blank (ch CHR ''-'')" "is_digit c \<Longrightarrow> \<not> json_blank c"
  "\<not> json_blank (ch CHR ''t'')" "\<not> json_blank (ch CHR ''f'')" "\<not> json_blank (ch CHR ''n'')"
  by (auto simp: json_blank_def bmx_chars)

lemma not_number:
  "json_blank c \<Longrightarrow> \<not> number_byte c" "\<not> number_byte (ch CHR '','')" "\<not> number_byte (ch CHR ''}'')"
  "\<not> number_byte (ch CHR '']'')"
  by (auto simp: json_blank_def number_byte_def exponent_mark_def bmx_chars)

lemma digit_not:
  "is_digit c \<Longrightarrow> c \<notin> {ch CHR ''{'', ch CHR ''['', ch CHR 0x22, ch CHR ''t'', ch CHR ''f'', ch CHR ''n'', ch CHR '']'', ch CHR ''}''}"
  by (auto simp: bmx_chars)

lemma number_first:
  assumes "number_ok bs"
  obtains c cs where "bs = c # cs" "c = ch CHR ''-'' \<or> is_digit c"
proof -
  from assms obtain sign i f e where bs: "bs = sign @ i @ f @ e" "sign \<in> {[], [ch CHR ''-'']}" "integer_ok i"
    unfolding number_ok_def by blast
  obtain d ds where d: "i = d # ds" "is_digit d"
    using bs(3) by (auto simp: integer_ok_def is_digit_def ch_def word_le_nat_alt)
  from bs(2) show thesis
  proof (elim insertE emptyE)
    assume "sign = []"
    with bs d that [of d "ds @ f @ e"] show thesis by simp
  next
    assume "sign = [ch CHR ''-'']"
    with bs that show thesis by simp
  qed
qed

lemma tree_first:
  assumes "tree_ok t"
  obtains c cs where "tree_text t = c # cs" "\<not> json_blank c" "c \<noteq> ch CHR '']''"
proof (cases t)
  case (JNumber bs)
  with assms have "number_ok bs" by simp
  then obtain c cs where c: "bs = c # cs" "c = ch CHR ''-'' \<or> is_digit c" by (rule number_first)
  then have "\<not> json_blank c" "c \<noteq> ch CHR '']''" using not_blank digit_not [of c] by auto
  with c(1) JNumber that show thesis by simp
qed (use that not_blank in \<open>auto simp: quoted_def\<close>)

lemma stops_first:
  assumes "text_at js p (c # cs)" and "\<not> P c"
  shows "stops P js p"
  using assms by (simp add: stops_def)

lemma stops_value:
  assumes "text_at js p (t @ [c])" and "blanks t" and "c \<in> {ch CHR '','', ch CHR ''}'', ch CHR '']''}"
  shows "stops number_byte js p"
proof (cases t)
  case Nil
  with assms not_number show ?thesis by (auto simp: stops_def)
next
  case (Cons b bs)
  with assms not_number(1) show ?thesis by (auto simp: stops_def)
qed

text \<open>The branch that \<open>ParseValue\<close> takes.\<close>

lemma ParseValue_branch:
  assumes "depth < max_depth src" and "text_at (json_text src) (position (SkipWhitespace src st)) (c # cs)"
  shows "c = ch CHR ''{'' \<Longrightarrow> ParseValue src parent depth st = ParseObject src parent (Suc depth) (SkipWhitespace src st)"
    and "c = ch CHR ''['' \<Longrightarrow> ParseValue src parent depth st = ParseArray src parent (Suc depth) (SkipWhitespace src st)"
    and "c = ch CHR 0x22 \<Longrightarrow> ParseString src parent False (SkipWhitespace src st) = (Some i, s) \<Longrightarrow>
      ParseValue src parent depth st = (True, s)"
    and "c = ch CHR ''t'' \<Longrightarrow>
      ParseValue src parent depth st = ParseLiteral src parent (bytes_of ''true'') JSON_TOKEN_TRUE (SkipWhitespace src st)"
    and "c = ch CHR ''f'' \<Longrightarrow>
      ParseValue src parent depth st = ParseLiteral src parent (bytes_of ''false'') JSON_TOKEN_FALSE (SkipWhitespace src st)"
    and "c = ch CHR ''n'' \<Longrightarrow>
      ParseValue src parent depth st = ParseLiteral src parent (bytes_of ''null'') JSON_TOKEN_NULL (SkipWhitespace src st)"
    and "c = ch CHR ''-'' \<or> is_digit c \<Longrightarrow> ParseValue src parent depth st = ParseNumber src parent (SkipWhitespace src st)"
  using assms digit_not [of c] by (subst ParseValue.simps, auto simp: Let_def not_le)+

definition value_complete :: "json_source \<Rightarrow> json_tree \<Rightarrow> bool" where
  "value_complete src t \<longleftrightarrow> (\<forall>parent depth st. value_read src parent depth (SkipWhitespace src st) t \<longrightarrow> parent_ok parent st \<longrightarrow>
     stops number_byte (json_text src) (position (SkipWhitespace src st) + length (tree_text t)) \<longrightarrow>
     ParseValue src parent depth st = (True, finish t parent (SkipWhitespace src st)))"

lemma value_completeD:
  "value_complete src t \<Longrightarrow> value_read src parent depth (SkipWhitespace src st) t \<Longrightarrow> parent_ok parent st \<Longrightarrow>
   stops number_byte (json_text src) (position (SkipWhitespace src st) + length (tree_text t)) \<Longrightarrow>
   ParseValue src parent depth st = (True, finish t parent (SkipWhitespace src st))"
  by (simp add: value_complete_def)

lemma string_complete: "value_complete src (JString cs)"
  unfolding value_complete_def
proof (intro allI impI)
  fix parent depth st
  let ?s = "SkipWhitespace src st" and ?js = "json_text src"
  assume r: "value_read src parent depth ?s (JString cs)" and "parent_ok parent st"
  then have ok: "parent_ok parent ?s" by (simp add: SkipWhitespace_def)
  from r have "text_at ?js (position ?s) (quoted (string_text cs))" by (simp add: value_read_def)
  then have quote: "text_at ?js (position ?s) [ch CHR 0x22]" by (simp add: quoted_def)
  have "ParseString src parent False ?s = (Some (length (parsed_tokens ?s)), finish (JString cs) parent ?s)"
    unfolding ParseString_value [OF ok quote] finish_leaves using r by (auto simp: value_read_def)
  then show "ParseValue src parent depth st = (True, finish (JString cs) parent ?s)"
    using r quote by (intro ParseValue_branch(3) [where cs = "[]"]) (auto simp: value_read_def)
qed

lemma number_complete: "value_complete src (JNumber bs)"
  unfolding value_complete_def
proof (intro allI impI)
  fix parent depth st
  let ?s = "SkipWhitespace src st"
  assume r: "value_read src parent depth ?s (JNumber bs)" and "parent_ok parent st"
    and stop: "stops number_byte (json_text src) (position ?s + length (tree_text (JNumber bs)))"
  then have ok: "parent_ok parent ?s" by (simp add: SkipWhitespace_def)
  from r have "number_ok bs" by (simp add: value_read_def)
  then obtain c cs where c: "bs = c # cs" "c = ch CHR ''-'' \<or> is_digit c" by (rule number_first)
  from r have "ParseNumber src parent ?s = (True, finish (JNumber bs) parent ?s)"
    using ParseNumber_complete [of bs src ?s parent] ok stop by (simp add: value_read_def finish_leaves)
  then show "ParseValue src parent depth st = (True, finish (JNumber bs) parent ?s)"
    using ParseValue_branch(7) [of depth src st c cs] r c by (simp add: value_read_def)
qed

lemma literal_complete:
  assumes "(l, type) \<in> {(bytes_of ''true'', JSON_TOKEN_TRUE), (bytes_of ''false'', JSON_TOKEN_FALSE),
      (bytes_of ''null'', JSON_TOKEN_NULL)}"
    and "tree_text t = l" and "\<forall>st parent. leaf_state type (position st + length l) parent st = finish t parent st"
    and "tree_depth t = 1" and "tree_total t = 1"
  shows "value_complete src t"
  unfolding value_complete_def
proof (intro allI impI)
  fix parent depth st
  let ?s = "SkipWhitespace src st"
  assume r: "value_read src parent depth ?s t" and "parent_ok parent st"
  then have ok: "parent_ok parent ?s" by (simp add: SkipWhitespace_def)
  have ne: "l \<noteq> []" using assms(1) by auto
  have "ParseLiteral src parent l type ?s = (True, finish t parent ?s)"
    unfolding ParseLiteral_iff [OF ok ne] using r assms by (simp add: value_read_def)
  moreover have "ParseValue src parent depth st = ParseLiteral src parent l type ?s"
    using assms(1) r assms(2,4) ParseValue_branch(4-6) [of depth src st "hd l" "tl l" parent] ne
    by (auto simp: value_read_def)
  ultimately show "ParseValue src parent depth st = (True, finish t parent ?s)" by simp
qed

lemma literals_complete: "value_complete src JTrue" "value_complete src JFalse" "value_complete src JNull"
proof -
  show "value_complete src JTrue"
    by (rule literal_complete [of "bytes_of ''true''" JSON_TOKEN_TRUE]) (simp_all add: finish_def leaf_state_def)
  show "value_complete src JFalse"
    by (rule literal_complete [of "bytes_of ''false''" JSON_TOKEN_FALSE]) (simp_all add: finish_def leaf_state_def)
  show "value_complete src JNull"
    by (rule literal_complete [of "bytes_of ''null''" JSON_TOKEN_NULL]) (simp_all add: finish_def leaf_state_def)
qed

text \<open>One turn of the loop over members.\<close>

lemma SkipWhitespace_before:
  "text_at (json_text src) (position st) (w @ [c]) \<Longrightarrow> blanks w \<Longrightarrow> \<not> json_blank c \<Longrightarrow>
   SkipWhitespace src st = move_to (position st + length w) st"
  by (rule SkipWhitespace_to) (simp_all add: stops_def)

lemma object_loop_turn:
  assumes tok: "parsed_tokens st = A @ ob # B" and k: "key_ok k" "blanks a" "blanks b"
    and at: "text_at (json_text src) (position st) (quoted k @ a @ ch CHR '':'' # b)"
    and v: "value_read src (Some (length A)) depth (value_start A k a b st) v"
    and new: "key_pair k \<notin> set (scan_keys (json_text src) (length A) True B)"
    and complete: "value_complete src v"
    and tail: "blanks t" "text_at (json_text src) (position (member_state A ob B k a b v st)) (t @ [c])"
      "c \<in> {ch CHR '','', ch CHR ''}''}"
  shows "object_loop src (length A) depth st =
    (let m = member_state A ob B k a b v st; s = move_to (Suc (position m + length t)) m in
     if c = ch CHR ''}'' then (True, set_token_end (length A) (position s) s)
     else object_loop src (length A) depth (SkipWhitespace src s))"
proof -
  let ?js = "json_text src" and ?p = "position st" and ?o = "Some (length A)"
  let ?m = "member_state A ob B k a b v st"
  have ok: "parent_ok ?o st" using tok by (simp add: parent_ok_def)
  have quote: "text_at ?js ?p [ch CHR 0x22]" "?p < length ?js" "?js ! ?p = ch CHR 0x22"
    using at by (simp_all add: quoted_def)
  let ?s1 = "string_state (Suc ?p) (Suc ?p + length k) ?o st"
  have key: "ParseString src ?o True st = (Some (length (parsed_tokens st)), ?s1)"
    unfolding ParseString_key [OF ok quote(1)] using k(1) at v [unfolded value_read_def value_start_simps]
    by (intro exI [of _ k]) simp
  have tok1: "parsed_tokens ?s1 = A @ ob\<lparr>child_count := Suc (child_count ob)\<rparr> # B @ [key_token ?p k (length A)]"
    using tok by (simp add: string_state_def key_token_def)
  have fresh: "\<not> HasDuplicateObjectKey src ?s1 (length A) (length (parsed_tokens st))"
    using HasDuplicateObjectKey_iff [OF tok1, of src] new at tok by (simp add: key_view_key_token key_pair_def)
  have p1: "position ?s1 = ?p + length (quoted k)" by (simp add: string_state_def quoted_def)
  let ?s = "move_to (Suc (position ?s1 + length a)) ?s1"
  have skip1: "SkipWhitespace src ?s1 = move_to (position ?s1 + length a) ?s1"
    using at p1 k(2) not_blank by (intro SkipWhitespace_before [of _ _ _ "ch CHR '':''"]) auto
  have colon: "position ?s1 + length a < length ?js" "?js ! (position ?s1 + length a) = ch CHR '':''"
    using at p1 by auto
  have "tree_ok v" using v by (simp add: value_read_def)
  then obtain d ds where d: "tree_text v = d # ds" "\<not> json_blank d" by (rule tree_first)
  have "text_at ?js (position ?s) (b @ [d])"
    using at v p1 d(1) by (auto simp: value_read_def value_start_simps add.assoc)
  then have skip2: "SkipWhitespace src ?s = value_start A k a b st"
    using SkipWhitespace_before [of src ?s b d] k(3) d(2) p1 by (simp add: add.assoc)
  have "stops number_byte ?js (position ?m)" using stops_value [OF tail(2,1)] tail(3) by auto
  then have run: "ParseValue src ?o depth ?s = (True, ?m)"
    using value_completeD [OF complete, of ?o depth ?s] v skip2 finish_member [OF tok] ok tok1
    by (simp add: member_state_simps parent_ok_def value_start_simps add.assoc)
  have skip3: "SkipWhitespace src ?m = move_to (position ?m + length t) ?m"
    using tail not_blank by (intro SkipWhitespace_before [of _ _ _ c]) auto
  have c: "position ?m + length t < length ?js" "?js ! (position ?m + length t) = c" using tail(2) by auto
  show ?thesis
    using quote key fresh skip1 colon run skip3 c tail(3)
    by (subst object_loop.simps) (auto simp: Let_def not_le)
qed

definition members_complete :: "json_source \<Rightarrow> json_member list \<Rightarrow> bool" where
  "members_complete src ms \<longleftrightarrow> (\<forall>depth A ob B st. members_read src depth A B st ms \<longrightarrow> parsed_tokens st = A @ ob # B \<longrightarrow>
     even (children (length A) B) \<longrightarrow> object_loop src (length A) depth st = (True, object_state A ob B ms st))"

definition elements_complete :: "json_source \<Rightarrow> json_element list \<Rightarrow> bool" where
  "elements_complete src es \<longleftrightarrow> (\<forall>depth A ob B st. elements_read src depth st es \<longrightarrow> parsed_tokens st = A @ ob # B \<longrightarrow>
     array_loop src (length A) depth st = (True, array_state A ob B es st))"

lemma members_completeD:
  "members_complete src ms \<Longrightarrow> members_read src depth A B st ms \<Longrightarrow> parsed_tokens st = A @ ob # B \<Longrightarrow>
   even (children (length A) B) \<Longrightarrow> object_loop src (length A) depth st = (True, object_state A ob B ms st)"
  by (simp add: members_complete_def)

lemma elements_completeD:
  "elements_complete src es \<Longrightarrow> elements_read src depth st es \<Longrightarrow> parsed_tokens st = A @ ob # B \<Longrightarrow>
   array_loop src (length A) depth st = (True, array_state A ob B es st)"
  by (simp add: elements_complete_def)

lemma members_first:
  assumes "members_read src depth A B st ms"
  shows "text_at (json_text src) (position st) [ch CHR 0x22]"
  using assms by (cases ms rule: members_text.cases) (auto simp: members_read_def quoted_def)

lemma members_complete_Cons:
  assumes "value_complete src v" and "members_complete src ms"
  shows "members_complete src (Member k a b v t n # ms)"
  unfolding members_complete_def
proof (intro allI impI)
  fix depth A ob B st
  assume read: "members_read src depth A B st (Member k a b v t n # ms)"
    and tok: "parsed_tokens st = A @ ob # B" and even: "even (children (length A) B)"
  let ?js = "json_text src" and ?m = "member_state A ob B k a b v st"
  show "object_loop src (length A) depth st = (True, object_state A ob B (Member k a b v t n # ms) st)"
  proof (cases "ms = []")
    case True
    note r = read [unfolded True members_read_last [OF tok]]
    then show ?thesis
      using object_loop_turn [OF tok, of k a b src depth v t "ch CHR ''}''"] assms(1)
      unfolding True object_state_last [OF tok] by (simp add: Let_def)
  next
    case False
    note r = read [unfolded members_read_Cons [OF tok even False]]
    let ?s = "move_to (Suc (position ?m + length t)) ?m"
    let ?next = "move_to (position ?m + length (t @ ch CHR '','' # n)) ?m"
    let ?B = "B @ member_tokens (length A) (position st) (Suc (length A + length B)) k a b v"
    have quote: "text_at ?js (position ?next) [ch CHR 0x22]" using r members_first by blast
    have "SkipWhitespace src ?s = move_to (position ?s + length n) ?s"
      using r quote not_blank by (intro SkipWhitespace_before [of _ _ _ "ch CHR 0x22"]) (auto simp: add.assoc)
    then have skip: "SkipWhitespace src ?s = ?next" by (simp add: add.assoc)
    have "object_loop src (length A) depth st = object_loop src (length A) depth (SkipWhitespace src ?s)"
      using object_loop_turn [OF tok, of k a b src depth v t "ch CHR '',''"] assms(1) r by (simp add: Let_def)
    also have "\<dots> = (True, object_state A (ob\<lparr>child_count := child_count ob + 2\<rparr>) ?B ms ?next)"
      unfolding skip using assms(2) r even member_tokens_scan(2) [of ?js "position st" k "length A" "Suc (length A + length B)"]
      unfolding members_complete_def by (auto simp: member_state_simps)
    also have "\<dots> = (True, object_state A ob B (Member k a b v t n # ms) st)"
      using object_state_Cons [OF tok False] by simp
    finally show ?thesis .
  qed
qed

lemma elements_first:
  assumes "elements_read src depth st es"
  obtains d where "text_at (json_text src) (position st) [d]" "\<not> json_blank d" "d \<noteq> ch CHR '']''"
proof (cases es)
  case (Cons x es')
  obtain v t n where x: "x = Element v t n" by (cases x) auto
  with assms Cons have "tree_ok v" by (simp add: elements_read_def)
  then obtain c cs where "tree_text v = c # cs" "\<not> json_blank c" "c \<noteq> ch CHR '']''" by (rule tree_first)
  with assms Cons x that [of c] show thesis by (simp add: elements_read_def)
qed (use assms in \<open>simp add: elements_read_def\<close>)

lemma array_loop_turn:
  assumes tok: "parsed_tokens st = A @ ob # B" and v: "value_read src (Some (length A)) depth st v"
    and complete: "value_complete src v"
    and tail: "blanks t" "text_at (json_text src) (position st + length (tree_text v)) (t @ [c])"
      "c \<in> {ch CHR '','', ch CHR '']''}"
  shows "array_loop src (length A) depth st =
    (let s = move_to (Suc (position st + length (tree_text v) + length t)) (finish v (Some (length A)) st) in
     if c = ch CHR '']'' then (True, set_token_end (length A) (position s) s)
     else array_loop src (length A) depth (SkipWhitespace src s))"
proof -
  let ?js = "json_text src" and ?o = "Some (length A)"
  let ?m = "finish v ?o st"
  have "tree_ok v" using v by (simp add: value_read_def)
  then obtain d ds where d: "tree_text v = d # ds" "\<not> json_blank d" by (rule tree_first)
  then have first: "text_at ?js (position st) (d # ds)" using v by (simp add: value_read_def)
  then have "stops json_blank ?js (position st)" using d(2) by (rule stops_first)
  then have skip: "SkipWhitespace src st = st" by (rule SkipWhitespace_stay)
  have "parent_ok ?o st" using tok by (simp add: parent_ok_def)
  moreover have "stops number_byte ?js (position st + length (tree_text v))"
    using stops_value [OF tail(2,1)] tail(3) by auto
  ultimately have run: "ParseValue src ?o depth st = (True, ?m)"
    using value_completeD [OF complete, of ?o depth st] v skip by simp
  have skip3: "SkipWhitespace src ?m = move_to (position ?m + length t) ?m"
    using tail not_blank by (intro SkipWhitespace_before [of _ _ _ c]) auto
  have c: "position ?m + length t < length ?js" "?js ! (position ?m + length t) = c" using tail(2) by auto
  show ?thesis
    using first run skip3 c tail(3) by (subst array_loop.simps) (auto simp: Let_def not_le)
qed

lemma elements_complete_Cons:
  assumes "value_complete src v" and "elements_complete src es"
  shows "elements_complete src (Element v t n # es)"
  unfolding elements_complete_def
proof (intro allI impI)
  fix depth A ob B st
  assume read: "elements_read src depth st (Element v t n # es)" and tok: "parsed_tokens st = A @ ob # B"
  let ?js = "json_text src" and ?m = "finish v (Some (length A)) st"
  show "array_loop src (length A) depth st = (True, array_state A ob B (Element v t n # es) st)"
  proof (cases "es = []")
    case True
    note r = read [unfolded True elements_read_last [of src depth st v t n "Some (length A)"]]
    then show ?thesis
      using array_loop_turn [OF tok, of src depth v t "ch CHR '']''"] assms(1)
      unfolding True array_state_last [OF tok] by (simp add: Let_def)
  next
    case False
    note r = read [unfolded elements_read_Cons [OF False, of src depth st v t n "Some (length A)"]]
    let ?s = "move_to (Suc (position ?m + length t)) ?m"
    let ?next = "move_to (position st + length (tree_text v) + length (t @ ch CHR '','' # n)) ?m"
    from r have "elements_read src depth ?next es" by blast
    then obtain d where d: "text_at ?js (position ?next) [d]" "\<not> json_blank d" by (rule elements_first)
    have "SkipWhitespace src ?s = move_to (position ?s + length n) ?s"
      using r d by (intro SkipWhitespace_before [of _ _ _ d]) (auto simp: add.assoc)
    then have skip: "SkipWhitespace src ?s = ?next" by (simp add: add.assoc)
    have "array_loop src (length A) depth st = array_loop src (length A) depth (SkipWhitespace src ?s)"
      using array_loop_turn [OF tok, of src depth v t "ch CHR '',''"] assms(1) r by (simp add: Let_def)
    also have "\<dots> = (True, array_state A (ob\<lparr>child_count := child_count ob + 1\<rparr>)
        (B @ tree_tokens v (position st) (Suc (length A + length B)) (Some (length A))) es ?next)"
      unfolding skip using assms(2) r finish_element [OF tok] unfolding elements_complete_def by auto
    also have "\<dots> = (True, array_state A ob B (Element v t n # es) st)"
      using array_state_Cons [OF tok False] by simp
    finally show ?thesis .
  qed
qed

lemma object_complete:
  assumes "members_complete src ms"
  shows "value_complete src (JObject w ms)"
  unfolding value_complete_def
proof (intro allI impI)
  fix parent depth st
  let ?s = "SkipWhitespace src st" and ?js = "json_text src"
  assume r: "value_read src parent depth ?s (JObject w ms)" and "parent_ok parent st"
  then have ok: "parent_ok parent ?s" by (simp add: SkipWhitespace_def)
  let ?A = "add_child parent (parsed_tokens ?s)" and ?o = "open_state JSON_TOKEN_OBJECT parent w ?s"
  from r have at: "text_at ?js (position ?s) (ch CHR ''{'' # w)" and w: "blanks w"
    and room: "length (parsed_tokens ?s) < token_capacity src" and depth: "depth < max_depth src"
    by (simp_all add: value_read_def)
  have add: "AddToken src JSON_TOKEN_OBJECT (position ?s) parent (move_to (Suc (position ?s)) ?s) =
      (Some (length ?A), open_state JSON_TOKEN_OBJECT parent [] ?s)"
    unfolding AddToken_open [OF ok] using room by simp
  have start: "ParseValue src parent depth st = ParseObject src parent (Suc depth) ?s"
    using ParseValue_branch(1) [OF depth at] by simp
  have skip: "SkipWhitespace src (open_state JSON_TOKEN_OBJECT parent [] ?s) = ?o"
    if "text_at ?js (position ?o) [c]" "\<not> json_blank c" for c
    using SkipWhitespace_before [of src "open_state JSON_TOKEN_OBJECT parent [] ?s" w c] that at w move_open [of ?s w] by simp
  show "ParseValue src parent depth st = (True, finish (JObject w ms) parent ?s)"
  proof (cases "ms = []")
    case True
    with r have close: "text_at ?js (position ?o) [ch CHR ''}'']" by (simp add: value_read_def)
    with add skip [OF close] not_blank finish_empty(1) [of ?s w parent] True show ?thesis
      unfolding start by (subst ParseObject.simps) (simp add: Let_def)
  next
    case False
    with r have read: "members_read src (Suc depth) ?A [] ?o ms" using object_read [OF at w] by blast
    note quote = members_first [OF read]
    have "object_loop src (length ?A) (Suc depth) ?o =
        (True, object_state ?A (open_token JSON_TOKEN_OBJECT (position ?s) parent) [] ms ?o)"
      by (rule members_completeD [OF assms read]) simp_all
    with add skip [OF quote] quote not_blank show ?thesis
      unfolding start finish_object by (subst ParseObject.simps) (simp add: Let_def)
  qed
qed

lemma array_complete:
  assumes "elements_complete src es"
  shows "value_complete src (JArray w es)"
  unfolding value_complete_def
proof (intro allI impI)
  fix parent depth st
  let ?s = "SkipWhitespace src st" and ?js = "json_text src"
  assume r: "value_read src parent depth ?s (JArray w es)" and "parent_ok parent st"
  then have ok: "parent_ok parent ?s" by (simp add: SkipWhitespace_def)
  let ?A = "add_child parent (parsed_tokens ?s)" and ?o = "open_state JSON_TOKEN_ARRAY parent w ?s"
  from r have at: "text_at ?js (position ?s) (ch CHR ''['' # w)" and w: "blanks w"
    and room: "length (parsed_tokens ?s) < token_capacity src" and depth: "depth < max_depth src"
    by (simp_all add: value_read_def)
  have add: "AddToken src JSON_TOKEN_ARRAY (position ?s) parent (move_to (Suc (position ?s)) ?s) =
      (Some (length ?A), open_state JSON_TOKEN_ARRAY parent [] ?s)"
    unfolding AddToken_open [OF ok] using room by simp
  have start: "ParseValue src parent depth st = ParseArray src parent (Suc depth) ?s"
    using ParseValue_branch(2) [OF depth at] by simp
  have skip: "SkipWhitespace src (open_state JSON_TOKEN_ARRAY parent [] ?s) = ?o"
    if "text_at ?js (position ?o) [c]" "\<not> json_blank c" for c
    using SkipWhitespace_before [of src "open_state JSON_TOKEN_ARRAY parent [] ?s" w c] that at w move_open [of ?s w] by simp
  show "ParseValue src parent depth st = (True, finish (JArray w es) parent ?s)"
  proof (cases "es = []")
    case True
    with r have close: "text_at ?js (position ?o) [ch CHR '']'']" by (simp add: value_read_def)
    with add skip [OF close] not_blank finish_empty(2) [of ?s w parent] True show ?thesis
      unfolding start by (subst ParseArray.simps) (simp add: Let_def)
  next
    case False
    with r have read: "elements_read src (Suc depth) ?o es" using array_read [OF at w] by blast
    then obtain d where d: "text_at ?js (position ?o) [d]" "\<not> json_blank d" "d \<noteq> ch CHR '']''" by (rule elements_first)
    have "array_loop src (length ?A) (Suc depth) ?o =
        (True, array_state ?A (open_token JSON_TOKEN_ARRAY (position ?s) parent) [] es ?o)"
      by (rule elements_completeD [OF assms read]) simp
    with add skip [OF d(1,2)] d show ?thesis
      unfolding start finish_array by (subst ParseArray.simps) (simp add: Let_def)
  qed
qed

lemma parser_complete:
  shows ParseValue_complete: "value_complete src t"
    and object_loop_complete: "members_complete src ms"
    and array_loop_complete: "elements_complete src es"
proof (induction t and ms and es rule: tree_ok_members_ok_elements_ok.induct)
  case 8
  show ?case by (simp add: members_complete_def members_read_def)
next
  case 10
  show ?case by (simp add: elements_complete_def elements_read_def)
qed (simp_all add: object_complete array_complete string_complete number_complete literals_complete
    members_complete_Cons elements_complete_Cons)

end
