(* ===== verification/Json_Language.thy ===== *)
theory Json_Language
  imports Json_Trees
begin

text \<open>
  What \<open>ParseJson\<close> decides: the language it accepts, the tokens it leaves, and that a failure is
  always reported.
\<close>

section \<open>Every failure sets an error\<close>

lemma JsonFail_error [simp]: "e \<noteq> JSON_OK \<Longrightarrow> parser_error (JsonFail e p st) \<noteq> JSON_OK"
  by (simp add: JsonFail_def)

lemma AddToken_fails: "AddToken src type start parent st = (None, s) \<Longrightarrow> parser_error s \<noteq> JSON_OK"
  by (auto simp: AddToken_def Let_def split: if_split_asm)

lemma ParseEscape_fails: "ParseEscape src st = (False, s) \<Longrightarrow> parser_error s \<noteq> JSON_OK"
  by (auto simp: ParseEscape_def Let_def split: if_split_asm option.splits)

lemma ConsumeUtf8_fails: "ConsumeUtf8 src st = (False, s) \<Longrightarrow> parser_error s \<noteq> JSON_OK"
  by (auto simp: ConsumeUtf8_def Let_def split: if_split_asm option.splits sum.splits prod.splits)

lemma string_loop_fails:
  "string_loop src parent object_key escaped start st = (None, s) \<Longrightarrow> parser_error s \<noteq> JSON_OK"
proof (induction "length (json_text src) - position st" arbitrary: escaped st rule: less_induct)
  case less
  note step = less.prems [unfolded string_loop.simps [of src parent object_key escaped start st]]
  have IH: "parser_error s \<noteq> JSON_OK"
    if "position st < position s'" "\<not> length (json_text src) \<le> position st"
      "string_loop src parent object_key e start s' = (None, s)" for e s'
    using less.hyps [of s' e] that by simp
  show ?case
    using step
    by (simp add: Let_def split: if_split_asm prod.splits bool.splits option.splits)
      (auto dest!: AddToken_fails IH [rotated 2] ParseEscape_fails ConsumeUtf8_fails dest: ParseEscape_moves ConsumeUtf8_moves)
qed

lemma ParseString_fails: "ParseString src parent k st = (None, s) \<Longrightarrow> parser_error s \<noteq> JSON_OK"
  by (auto simp: ParseString_def Let_def dest: string_loop_fails)

lemma ParseLiteral_fails: "ParseLiteral src parent literal type st = (False, s) \<Longrightarrow> parser_error s \<noteq> JSON_OK"
  by (auto simp: ParseLiteral_def Let_def split: if_split_asm prod.splits option.splits dest!: AddToken_fails)

lemma ParseNumber_fails: "ParseNumber src parent st = (False, s) \<Longrightarrow> parser_error s \<noteq> JSON_OK"
  by (auto simp: ParseNumber_def Let_def split: if_split_asm prod.splits option.splits sum.splits dest!: AddToken_fails)

lemma parser_fails:
  shows ParseValue_fails: "ParseValue src parent depth st = (False, s) \<Longrightarrow> parser_error s \<noteq> JSON_OK"
    and ParseObject_fails: "ParseObject src parent depth st = (False, s) \<Longrightarrow> parser_error s \<noteq> JSON_OK"
    and object_loop_fails: "object_loop src object depth st = (False, s) \<Longrightarrow> parser_error s \<noteq> JSON_OK"
    and ParseArray_fails: "ParseArray src parent depth st = (False, s) \<Longrightarrow> parser_error s \<noteq> JSON_OK"
    and array_loop_fails: "array_loop src array depth st = (False, s) \<Longrightarrow> parser_error s \<noteq> JSON_OK"
proof (induction src parent depth st and src parent depth st and src object depth st and src parent depth st
    and src array depth st rule: ParseValue_ParseObject_object_loop_ParseArray_array_loop.induct)
  case (1 src parent depth st)
  from "1.prems" show ?case
    unfolding ParseValue.simps [of src parent depth st] Let_def
    using "1.IH"(1) [OF _ refl refl _ refl] "1.IH"(2) [OF _ refl refl _ refl]
    by (simp split: if_split_asm prod.splits) (auto dest: ParseString_fails ParseLiteral_fails ParseNumber_fails)
next
  case (2 src parent depth st)
  from "2.prems" show ?case
    unfolding ParseObject.simps [of src parent depth st] Let_def
    using "2.IH" [OF refl refl refl _ refl refl]
    by (simp split: if_split_asm prod.splits option.splits) (auto dest: AddToken_fails)
next
  case (3 src object depth st)
  from "3.prems" show ?case
    unfolding object_loop.simps [of src object depth st] Let_def
    using "3.IH"(1) [OF refl _ _ _ refl _ refl] "3.IH"(2) [OF refl _ _ _ refl _ refl _ _ refl refl]
    by (simp split: if_split_asm prod.splits option.splits bool.splits) (auto dest: ParseString_fails)
next
  case (4 src parent depth st)
  from "4.prems" show ?case
    unfolding ParseArray.simps [of src parent depth st] Let_def
    using "4.IH" [OF refl refl refl _ refl refl]
    by (simp split: if_split_asm prod.splits option.splits) (auto dest: AddToken_fails)
next
  case (5 src array depth st)
  from "5.prems" show ?case
    unfolding array_loop.simps [of src array depth st] Let_def
    using "5.IH"(1) [OF refl] "5.IH"(2) [OF refl _ _ refl refl]
    by (simp split: if_split_asm prod.splits bool.splits) auto
qed

section \<open>The language\<close>

definition json_document :: "byte list \<Rightarrow> byte list \<Rightarrow> json_tree \<Rightarrow> byte list \<Rightarrow> bool" where
  "json_document js w t w' \<longleftrightarrow> js = w @ tree_text t @ w' \<and> blanks w \<and> blanks w' \<and> tree_ok t"

lemma stops_end: "stops P js (length js)"
  by (simp add: stops_def)

lemma stops_document:
  assumes "js = w @ x @ w'" and "blanks w'"
  shows "stops number_byte js (length w + length x)"
  using assms not_number(1) by (cases w') (auto simp: stops_def nth_append)

lemma Run_ok_iff:
  "(\<exists>n. Run src = (\<lparr>result_error = JSON_OK, token_count = length tokens, error_offset = n\<rparr>, tokens)) \<longleftrightarrow>
   length (json_text src) \<le> kMaximumJsonBytes \<and>
   (\<exists>w t w'. json_document (json_text src) w t w' \<and> tree_depth t \<le> max_depth src \<and>
      length tokens \<le> token_capacity src \<and> tokens = tree_tokens t (length w) 0 None)"
  (is "?l \<longleftrightarrow> ?r")
proof
  let ?js = "json_text src"
  assume ?l
  then obtain n where run: "Run src = (\<lparr>result_error = JSON_OK, token_count = length tokens, error_offset = n\<rparr>, tokens)" by blast
  have big: "length ?js \<le> kMaximumJsonBytes" using run by (auto simp: Run_def parser_result_def split: if_split_asm)
  obtain w where w: "SkipWhitespace src new_parser = move_to (length w) new_parser" "text_at ?js 0 w" "blanks w"
    "stops json_blank ?js (length w)"
    using SkipWhitespace_text [of src new_parser] by (auto simp: new_parser_def)
  let ?s = "move_to (length w) new_parser"
  obtain ok st where v: "ParseValue src None 0 ?s = (ok, st)" by fastforce
  have ok: "ok" using run v ParseValue_fails [of src None 0 ?s] big
    by (auto simp: Run_def parser_result_def w(1) split: if_split_asm bool.splits)
  have skip: "SkipWhitespace src ?s = ?s" using w(4) by (intro SkipWhitespace_stay) simp
  have "parent_ok None ?s" by (simp add: parent_ok_def)
  from ParseValue_sound [OF v [simplified ok] this] obtain t where
    t: "value_read src None 0 ?s t" "st = finish t None ?s" by (auto simp: skip)
  obtain w' where w': "SkipWhitespace src st = move_to (position st + length w') st" "text_at ?js (position st) w'" "blanks w'"
    by (rule SkipWhitespace_text)
  have fin: "position st + length w' = length ?js" "tokens = parsed_tokens st"
    using run v ok big w(1) w'(1) by (auto simp: Run_def parser_result_def Let_def kMaximumJsonBytes_def split: if_split_asm)
  have "text_at ?js 0 (w @ tree_text t @ w')" "length (w @ tree_text t @ w') = length ?js"
    using w(2) t w'(2) fin(1) by (simp_all add: value_read_def)
  then have "?js = w @ tree_text t @ w'" by (rule text_at_whole)
  then have "json_document ?js w t w'" using w(3) w'(3) t(1) by (simp add: json_document_def value_read_def)
  moreover have "tokens = tree_tokens t (length w) 0 None"
    using fin(2) t(2) by (simp add: finish_def new_parser_def add_child_def move_to_def)
  moreover have "tree_depth t \<le> max_depth src" "length tokens \<le> token_capacity src"
    using t(1) calculation(2) by (simp_all add: value_read_def new_parser_def)
  ultimately show ?r using big by blast
next
  let ?js = "json_text src"
  assume ?r
  then obtain w t w' where doc: "json_document ?js w t w'" "tree_depth t \<le> max_depth src"
    and total: "length tokens \<le> token_capacity src"
    and tok: "tokens = tree_tokens t (length w) 0 None" and big: "length ?js \<le> kMaximumJsonBytes" by blast
  have js: "?js = w @ tree_text t @ w'" and b: "blanks w" "blanks w'" "tree_ok t" using doc(1) by (simp_all add: json_document_def)
  let ?s = "move_to (length w) new_parser"
  obtain c cs where c: "tree_text t = c # cs" "\<not> json_blank c" using tree_first [OF b(3)] by metis
  have "text_at ?js (position new_parser) w" "stops json_blank ?js (length w)"
    using text_at_self [of "[]" w "tree_text t @ w'"] js c by (simp_all add: new_parser_def stops_def nth_append)
  then have skip0: "SkipWhitespace src new_parser = ?s" "SkipWhitespace src ?s = ?s"
    using SkipWhitespace_to [of src new_parser w] b(1) SkipWhitespace_stay [of src ?s] by (simp_all add: new_parser_def)
  have at: "text_at ?js (length w) (tree_text t)" "text_at ?js (length w + length (tree_text t)) w'"
    using text_at_self [of w "tree_text t" w'] text_at_self [of "w @ tree_text t" w' "[]"] js by simp_all
  have read: "value_read src None 0 ?s t" using doc b(3) at(1) total tok by (simp add: value_read_def new_parser_def)
  have v: "ParseValue src None 0 ?s = (True, finish t None ?s)"
    using value_completeD [OF ParseValue_complete, of src None 0 ?s t] read skip0(2) stops_document [OF js b(2)]
    by (simp add: parent_ok_def)
  have len: "length w + length (tree_text t) + length w' = length ?js" using js by simp
  have "SkipWhitespace src (finish t None ?s) = move_to (length ?js) (finish t None ?s)"
    using SkipWhitespace_to [of src "finish t None ?s" w'] at(2) b(2) stops_end [of json_blank ?js] len by simp
  then show ?l
    using v skip0(1) big tok
    by (simp add: Run_def Let_def parser_result_def kMaximumJsonBytes_def finish_def new_parser_def add_child_def move_to_def)
qed

text \<open>
  C10: The JSON parser succeeds with an array of tokens exactly on the texts of at most 1 MiB that are a
  tree of the grammar between blanks, no deeper than the limit and with no more tokens than the
  capacity; and the array is then the tokens of that tree, in order.
\<close>

theorem json_accepted_exactly:
  "(\<exists>n. ParseJson (Some js) True capacity depth =
      (\<lparr>result_error = JSON_OK, token_count = length tokens, error_offset = n\<rparr>, tokens)) \<longleftrightarrow>
   length js \<le> kMaximumJsonBytes \<and>
   (\<exists>w t w'. json_document js w t w' \<and> tree_depth t \<le> depth \<and> length tokens \<le> capacity \<and>
      tokens = tree_tokens t (length w) 0 None)"
proof (cases "capacity = 0 \<or> depth = 0")
  case True
  have "0 < tree_depth t" "0 < length (tree_tokens t p i parent)" for t p i parent by (cases t, simp_all)+
  with True have "\<not> (tree_depth t \<le> depth \<and> length (tree_tokens t p i parent) \<le> capacity)" for t p i parent
    by (metis less_le_trans not_less0)
  moreover have "result_error (fst (ParseJson (Some js) True capacity depth)) = JSON_ERROR_ARGUMENT"
    using True by (auto simp: ParseJson_def parser_result_def)
  ultimately show ?thesis by fastforce
next
  case False
  then show ?thesis
    using Run_ok_iff [of "\<lparr>json_text = js, token_capacity = capacity, max_depth = depth\<rparr>" tokens]
    by (simp add: ParseJson_def)
qed

end
