(* ===== verification/Json_Access.thy ===== *)
theory Json_Access
  imports Json_Language
begin

text \<open>
  The readers over the tokens (\<open>json_parser.cpp\<close>): a member of an object, the characters of a string
  with its escapes decoded, an unsigned number, a truth value.

  A token index below zero is \<open>None\<close>, as are null pointers.  The tokens are the first \<open>token_count\<close>
  of the array.  An output buffer is given by its size, and the bytes written to it, without the
  terminating NUL, are part of the result; \<open>value_given\<close> says that the pointer to the output is not null.
\<close>

section \<open>The readers\<close>

definition JsonStringEquals :: "byte list option \<Rightarrow> JsonToken \<Rightarrow> byte list option \<Rightarrow> bool" where
  "JsonStringEquals json token expected =
     (case (json, expected) of
        (Some js, Some e) \<Rightarrow>
          token_type token = JSON_TOKEN_STRING \<and>
          token_end token - token_start token = length (c_str e) \<and>
          segment js (token_start token) (token_end token) = c_str e
      | _ \<Rightarrow> False)"

function find_member_loop ::
  "byte list \<Rightarrow> JsonToken list \<Rightarrow> nat \<Rightarrow> byte list \<Rightarrow> bool \<Rightarrow> bool \<Rightarrow> nat \<Rightarrow> nat option" where
  "find_member_loop js tokens object name expect_key key_matches i =
     (if i \<ge> length tokens then None
      else if token_start (tokens ! i) \<ge> token_end (tokens ! object) then None
      else if token_parent (tokens ! i) \<noteq> Some object
      then find_member_loop js tokens object name expect_key key_matches (Suc i)
      else if expect_key then
        (if token_type (tokens ! i) \<noteq> JSON_TOKEN_STRING then None
         else find_member_loop js tokens object name False (JsonStringEquals (Some js) (tokens ! i) (Some name)) (Suc i))
      else if key_matches then Some i
      else find_member_loop js tokens object name True key_matches (Suc i))"
  by pat_completeness auto
termination
  by (relation "measure (\<lambda>(js, tokens, object, name, expect_key, key_matches, i). length tokens - i)") auto

declare find_member_loop.simps [simp del]

definition JsonFindObjectMember ::
  "byte list option \<Rightarrow> JsonToken list option \<Rightarrow> nat option \<Rightarrow> byte list option \<Rightarrow> nat option" where
  "JsonFindObjectMember json tokens object_index name =
     (case (json, tokens, object_index, name) of
        (Some js, Some ts, Some object, Some n) \<Rightarrow>
          if object \<ge> length ts \<or> token_type (ts ! object) \<noteq> JSON_TOKEN_OBJECT then None
          else find_member_loop js ts object n True False (Suc object)
      | _ \<Rightarrow> None)"

definition AppendUtf8 :: "u32 \<Rightarrow> byte list \<Rightarrow> nat \<Rightarrow> byte list option" where
  "AppendUtf8 codepoint output output_size =
     (let bytes = (if codepoint \<le> 0x7f then 1 else if codepoint \<le> 0x7ff then 2
                   else if codepoint \<le> 0xffff then 3 else 4 :: nat) in
      if length output + bytes \<ge> output_size then None
      else Some (output @
        (if bytes = 1 then [ucast codepoint]
         else if bytes = 2 then
           [ucast (0xc0 OR drop_bit 6 codepoint), ucast (0x80 OR (codepoint AND 0x3f))]
         else if bytes = 3 then
           [ucast (0xe0 OR drop_bit 12 codepoint), ucast (0x80 OR (drop_bit 6 codepoint AND 0x3f)),
            ucast (0x80 OR (codepoint AND 0x3f))]
         else
           [ucast (0xf0 OR drop_bit 18 codepoint), ucast (0x80 OR (drop_bit 12 codepoint AND 0x3f)),
            ucast (0x80 OR (drop_bit 6 codepoint AND 0x3f)), ucast (0x80 OR (codepoint AND 0x3f))])))"

definition DecodeHex4 :: "byte list \<Rightarrow> u32 option" where
  "DecodeHex4 input = hex4_loop 0 (take 4 input)"

text \<open>The switch over the letter behind a backslash.\<close>

definition decoded_escape :: "byte \<Rightarrow> byte option" where
  "decoded_escape c =
     (if c = ch CHR 0x22 then Some (ch CHR 0x22)
      else if c = ch CHR 0x5C then Some (ch CHR 0x5C)
      else if c = ch CHR ''/'' then Some (ch CHR ''/'')
      else if c = ch CHR ''b'' then Some 8
      else if c = ch CHR ''f'' then Some 12
      else if c = ch CHR ''n'' then Some 10
      else if c = ch CHR ''r'' then Some 13
      else if c = ch CHR ''t'' then Some 9
      else None)"

text \<open>
  The code point behind \<open>\u\<close> at position \<open>p\<close>, and the position behind the escape; two escapes where
  the first is a high surrogate.
\<close>

definition decode_unicode :: "byte list \<Rightarrow> nat \<Rightarrow> nat \<Rightarrow> (u32 \<times> nat) option" where
  "decode_unicode js e p =
     (if p + 4 > e then None
      else case DecodeHex4 (drop p js) of
        None \<Rightarrow> None
      | Some codepoint \<Rightarrow>
          let p = p + 4 in
          if 0xd800 \<le> codepoint \<and> codepoint \<le> 0xdbff then
            (if p + 6 > e \<or> js ! p \<noteq> ch CHR 0x5C \<or> js ! Suc p \<noteq> ch CHR ''u'' then None
             else case DecodeHex4 (drop (p + 2) js) of
               None \<Rightarrow> None
             | Some low \<Rightarrow>
                 if low < 0xdc00 \<or> low > 0xdfff then None
                 else Some (0x10000 + push_bit 10 (codepoint - 0xd800) + (low - 0xdc00), p + 6))
          else Some (codepoint, p))"

lemma decode_unicode_moves: "decode_unicode js e p = Some (cp, q) \<Longrightarrow> p < q"
  by (auto simp: decode_unicode_def Let_def split: if_split_asm option.splits)

function copy_loop :: "byte list \<Rightarrow> nat \<Rightarrow> nat \<Rightarrow> nat \<Rightarrow> byte list \<Rightarrow> JsonError \<times> byte list" where
  "copy_loop js e output_size p out =
     (if p \<ge> e then (JSON_OK, out)
      else
        let c = js ! p in
        if c \<noteq> ch CHR 0x5C then
          (if length out + 1 \<ge> output_size then (JSON_ERROR_OUTPUT_TOO_SMALL, out)
           else copy_loop js e output_size (Suc p) (out @ [c]))
        else if Suc p \<ge> e then (JSON_ERROR_STRING, out)
        else
          let c = js ! Suc p in
          if c = ch CHR ''u'' then
            (case decode_unicode js e (Suc (Suc p)) of
               None \<Rightarrow> (JSON_ERROR_STRING, out)
             | Some (codepoint, q) \<Rightarrow>
                 (case AppendUtf8 codepoint out output_size of
                    None \<Rightarrow> (JSON_ERROR_OUTPUT_TOO_SMALL, out)
                  | Some out' \<Rightarrow> copy_loop js e output_size q out'))
          else (case decoded_escape c of
               None \<Rightarrow> (JSON_ERROR_STRING, out)
             | Some decoded \<Rightarrow>
                 if length out + 1 \<ge> output_size then (JSON_ERROR_OUTPUT_TOO_SMALL, out)
                 else copy_loop js e output_size (Suc (Suc p)) (out @ [decoded])))"
  by pat_completeness auto
termination
  by (relation "measure (\<lambda>(js, e, output_size, p, out). e - p)") (auto dest!: decode_unicode_moves)

declare copy_loop.simps [simp del]

definition JsonCopyString :: "byte list option \<Rightarrow> JsonToken \<Rightarrow> nat option \<Rightarrow> JsonError \<times> byte list" where
  "JsonCopyString json token output =
     (case (json, output) of
        (Some js, Some output_size) \<Rightarrow>
          if output_size = 0 then (JSON_ERROR_ARGUMENT, [])
          else if token_type token \<noteq> JSON_TOKEN_STRING then (JSON_ERROR_TYPE, [])
          else copy_loop js (token_end token) output_size (token_start token) []
      | _ \<Rightarrow> (JSON_ERROR_ARGUMENT, []))"

text \<open>The digit loop; the left value is the error it returns.\<close>

primrec uint64_loop :: "u64 \<Rightarrow> byte list \<Rightarrow> JsonError + u64" where
  "uint64_loop result [] = Inr result"
| "uint64_loop result (c # cs) =
     (case decimal_digit c of
        None \<Rightarrow> Inl JSON_ERROR_TYPE
      | Some digit \<Rightarrow>
          if (- 1 - of_nat digit) div of_nat 10 < result then Inl JSON_ERROR_RANGE
          else uint64_loop (result * of_nat 10 + of_nat digit) cs)"

definition JsonGetUint64 :: "byte list option \<Rightarrow> JsonToken \<Rightarrow> bool \<Rightarrow> JsonError + u64" where
  "JsonGetUint64 json token value_given =
     (case json of
        None \<Rightarrow> Inl JSON_ERROR_ARGUMENT
      | Some js \<Rightarrow>
          if \<not> value_given then Inl JSON_ERROR_ARGUMENT
          else if token_type token \<noteq> JSON_TOKEN_NUMBER \<or> token_start token \<ge> token_end token then Inl JSON_ERROR_TYPE
          else uint64_loop 0 (segment js (token_start token) (token_end token)))"

definition JsonGetBool :: "JsonToken \<Rightarrow> bool \<Rightarrow> JsonError + bool" where
  "JsonGetBool token value_given =
     (if \<not> value_given then Inl JSON_ERROR_ARGUMENT
      else if token_type token = JSON_TOKEN_TRUE then Inr True
      else if token_type token = JSON_TOKEN_FALSE then Inr False
      else Inl JSON_ERROR_TYPE)"

section \<open>Numbers\<close>

definition uint64_value :: "u64 \<Rightarrow> byte list \<Rightarrow> u64 option" where
  "uint64_value r cs = (case uint64_loop r cs of Inr v \<Rightarrow> Some v | Inl e \<Rightarrow> None)"

interpretation json_number: checked_number 10 decimal_digit uint64_value
  by unfold_locales (auto simp: uint64_value_def decimal_digit_less split: option.split)

section \<open>Decoded strings\<close>

definition hex4_number :: "byte list \<Rightarrow> nat" where
  "hex4_number ds = the (digits_value 16 hex_digit ds)"

text \<open>The bytes a character stands for; an escape that stands for nothing has none.\<close>

primrec char_bytes :: "json_char \<Rightarrow> byte list" where
  "char_bytes (PlainChar b) = [b]"
| "char_bytes (Utf8Char k) = utf8_encode k"
| "char_bytes (Escaped e) = (case decoded_escape e of None \<Rightarrow> [] | Some b \<Rightarrow> [b])"
| "char_bytes (UnicodeEscape ds) = utf8_encode (hex4_number ds)"
| "char_bytes (SurrogateEscape hi lo) =
     utf8_encode (0x10000 + (hex4_number hi - 0xd800) * 1024 + (hex4_number lo - 0xdc00))"

definition string_bytes :: "json_char list \<Rightarrow> byte list" where
  "string_bytes cs = concat (map char_bytes cs)"

lemma string_bytes_simps [simp]:
  "string_bytes [] = []" "string_bytes (c # cs) = char_bytes c @ string_bytes cs"
  by (simp_all add: string_bytes_def)

lemma or_low:
  assumes "x < 2 ^ n"
  shows "(of_nat (q * 2 ^ n) :: u32) OR of_nat x = of_nat (q * 2 ^ n + x)"
proof -
  have low: "\<not> bit (of_nat x :: u32) i" if "n \<le> i" for i
  proof -
    have "x < 2 ^ i" using assms power_increasing [OF that, of "2 :: nat"] by (simp add: order_less_le_trans)
    then have "\<not> bit x i" by (simp add: bit_iff_odd)
    then show ?thesis by (simp add: bit_of_nat_iff)
  qed
  have p: "(of_nat (q * 2 ^ n) :: u32) = push_bit n (of_nat q)" by (simp add: push_bit_eq_mult)
  have "(of_nat (q * 2 ^ n) :: u32) OR of_nat x = of_nat (q * 2 ^ n) + of_nat x"
    unfolding p by (rule disjunctive_add [symmetric]) (auto simp: bit_push_bit_iff dest: low)
  then show ?thesis by simp
qed

lemma lead_or:
  "k < 64 \<Longrightarrow> (0x80 :: u32) OR of_nat k = of_nat (128 + k)"
  "k < 32 \<Longrightarrow> (0xc0 :: u32) OR of_nat k = of_nat (192 + k)"
  "k < 16 \<Longrightarrow> (0xe0 :: u32) OR of_nat k = of_nat (224 + k)"
  "k < 16 \<Longrightarrow> (0xf0 :: u32) OR of_nat k = of_nat (240 + k)"
  using or_low [of k 6 2] or_low [of k 5 6] or_low [of k 4 14] or_low [of k 4 15] by simp_all

lemma drop_of_nat:
  assumes "k < 2 ^ 32"
  shows "drop_bit n (of_nat k :: u32) = of_nat (k div 2 ^ n)"
proof -
  have "k div 2 ^ n < 2 ^ 32" using assms div_le_dividend [of k "2 ^ n"] by linarith
  then have "unat (of_nat (k div 2 ^ n) :: u32) = k div 2 ^ n" by (intro unat_of_nat_small) simp
  moreover have "unat (of_nat k :: u32) = k" using assms by (intro unat_of_nat_small) simp
  ultimately show ?thesis by (simp only: word_unat_eq_iff unat_drop_bit_eq) (simp only: drop_bit_eq_div)
qed

lemma and_six: "k < 2 ^ 32 \<Longrightarrow> (of_nat k :: u32) AND 0x3f = of_nat (k mod 64)"
proof -
  assume "k < 2 ^ 32"
  have "(of_nat k :: u32) AND mask 6 = of_nat (k mod 64)"
    by (rule word_unat_eq_iff [THEN iffD2])
      (use \<open>k < 2 ^ 32\<close> in \<open>simp add: take_bit_eq_mask [symmetric] unsigned_take_bit_eq take_bit_nat_def
        unat_of_nat_small order_le_less_trans [OF mod_less_eq_dividend]\<close>)
  then show ?thesis by (simp add: mask_eq_exp_minus_1)
qed

lemma ucast_of_nat: "k < 2 ^ 32 \<Longrightarrow> (ucast (of_nat k :: u32) :: byte) = of_nat k"
  by (simp add: unsigned_of_nat take_bit_nat_eq_self)

lemma AppendUtf8_encode:
  assumes "k < 0x110000"
  shows "AppendUtf8 (of_nat k) out n = (if length out + length (utf8_encode k) \<ge> n then None else Some (out @ utf8_encode k))"
proof -
  have le: "(of_nat k :: u32) \<le> 0x7f \<longleftrightarrow> k < 0x80" "(of_nat k :: u32) \<le> 0x7ff \<longleftrightarrow> k < 0x800"
    "(of_nat k :: u32) \<le> 0xffff \<longleftrightarrow> k < 0x10000"
    using assms by (auto simp: word_le_nat_alt unat_of_nat_small)
  have k: "k < 2 ^ 32" using assms by simp
  show ?thesis
  proof (cases "k < 0x800")
    case True
    then have "k div 64 < 32" by (simp add: div_less_iff_less_mult)
    with True k show ?thesis
      unfolding AppendUtf8_def le Let_def utf8_encode_def
      by (simp add: drop_of_nat and_six lead_or ucast_of_nat del: of_nat_add)
  next
    case False
    have k6: "k div 64 < 2 ^ 32" "k div 4096 < 2 ^ 32" using k div_le_dividend [of k 64] div_le_dividend [of k 4096] by linarith+
    show ?thesis
    proof (cases "k < 0x10000")
      case True
      then have "k div 4096 < 16" by (simp add: div_less_iff_less_mult)
      with True False k k6 show ?thesis
        unfolding AppendUtf8_def le Let_def utf8_encode_def
        by (simp add: drop_of_nat and_six lead_or ucast_of_nat del: of_nat_add)
    next
      case high: False
      have "k div 262144 < 16" using assms by (simp add: div_less_iff_less_mult)
      with high False k k6 show ?thesis
        unfolding AppendUtf8_def le Let_def utf8_encode_def
        by (simp add: drop_of_nat and_six lead_or ucast_of_nat del: of_nat_add)
    qed
  qed
qed

section \<open>Copies\<close>

lemma DecodeHex4_at:
  assumes "text_at js p ds" and "hex4_value ds v"
  shows "DecodeHex4 (drop p js) = Some (of_nat v)" and "hex4_number ds = v"
proof -
  have "length ds = 4" using assms(2) by (simp add: hex4_value_def)
  moreover from this have "p + 4 \<le> length js" using text_at_bound [OF assms(1)] by auto
  ultimately have "take 4 (drop p js) = ds" using text_at_take_drop [of p ds js] assms(1) by simp
  then show "DecodeHex4 (drop p js) = Some (of_nat v)"
    using assms(2) hex4_loop_value [of 0 ds] by (simp add: DecodeHex4_def hex4_value_def digits_value_def)
  show "hex4_number ds = v" using assms(2) by (simp add: hex4_value_def hex4_number_def)
qed

lemma surrogate_word:
  assumes "0xd800 \<le> h" "h \<le> 0xdbff" "0xdc00 \<le> l" "l \<le> 0xdfff"
  shows "0x10000 + push_bit 10 (of_nat h - 0xd800) + (of_nat l - 0xdc00) =
    (of_nat (0x10000 + (h - 0xd800) * 1024 + (l - 0xdc00)) :: u32)"
  using assms by (simp add: push_bit_eq_mult of_nat_diff)

lemma decode_unicode_at:
  assumes "text_at js p ds" and "hex4_value ds v" and "scalar_value v" and "p + 4 \<le> e"
  shows "decode_unicode js e p = Some (of_nat v, p + 4)"
  using assms DecodeHex4_at [OF assms(1,2)] by (auto simp: decode_unicode_def hex4_word [OF assms(2)] scalar_value_def Let_def)

lemma decode_surrogates_at:
  assumes "text_at js p (hi @ ch CHR 0x5C # ch CHR ''u'' # lo)" and "hex4_value hi h" "hex4_value lo l"
    and "0xd800 \<le> h" "h \<le> 0xdbff" "0xdc00 \<le> l" "l \<le> 0xdfff" and "p + 10 \<le> e"
  shows "decode_unicode js e p = Some (of_nat (0x10000 + (h - 0xd800) * 1024 + (l - 0xdc00)), p + 10)"
proof -
  have len: "length hi = 4" using assms(2) by (simp add: hex4_value_def)
  have at: "text_at js p hi" "js ! (p + 4) = ch CHR 0x5C" "js ! Suc (p + 4) = ch CHR ''u''" "text_at js (p + 4 + 2) lo"
    using assms(1) len by simp_all
  have "decode_unicode js e p =
      Some (0x10000 + push_bit 10 (of_nat h - 0xd800) + (of_nat l - 0xdc00), p + 4 + 6)"
    using assms(4-) at(2,3) DecodeHex4_at(1) [OF at(1) assms(2)] DecodeHex4_at(1) [OF at(4) assms(3)]
    unfolding decode_unicode_def Let_def
    by (simp only: option.case hex4_word [OF assms(2)] hex4_word [OF assms(3)]) simp
  then show ?thesis unfolding surrogate_word [OF assms(4-7)] by simp
qed

lemma copy_plain:
  assumes "text_at js p bs" and "p + length bs \<le> e" and "ch CHR 0x5C \<notin> set bs"
  shows "length out + length bs < n \<Longrightarrow> copy_loop js e n p out = copy_loop js e n (p + length bs) (out @ bs)"
    and "n \<le> length out + length bs \<Longrightarrow> bs \<noteq> [] \<Longrightarrow> fst (copy_loop js e n p out) = JSON_ERROR_OUTPUT_TOO_SMALL"
  using assms
proof (induction bs arbitrary: p out)
  case (Cons b bs)
  {
    case 1
    then have "copy_loop js e n p out = copy_loop js e n (Suc p) (out @ [b])" by (subst copy_loop.simps) (auto simp: Let_def)
    with 1 show ?case using Cons.IH(1) [of "out @ [b]" "Suc p"] by simp
  next
    case 2
    show ?case
    proof (cases "length out + 1 \<ge> n")
      case True
      with 2 show ?thesis by (subst copy_loop.simps) (auto simp: Let_def)
    next
      case False
      with 2 have step: "copy_loop js e n p out = copy_loop js e n (Suc p) (out @ [b])"
        by (subst copy_loop.simps) (auto simp: Let_def)
      have "bs \<noteq> []" using False 2(1) by auto
      with 2 False step show ?thesis using Cons.IH(2) [of "out @ [b]" "Suc p"] by simp
    qed
  }
qed simp_all

lemma utf8_no_backslash:
  assumes "scalar_value k" "128 \<le> k"
  shows "ch CHR 0x5C \<notin> set (utf8_encode k)"
proof -
  have big: "of_nat m \<noteq> ch CHR 0x5C" if "128 \<le> m" "m < 256" for m
  proof
    assume "of_nat m = ch CHR 0x5C"
    then have "unat (of_nat m :: byte) = 92" by (simp add: ch_def)
    with that unat_byte [of m] show False by simp
  qed
  have le: "k < 0x110000" using assms(1) by (auto simp: scalar_value_def)
  have tail: "of_nat (128 + m mod 64) \<noteq> ch CHR 0x5C" for m
    using mod_less_divisor [of 64 m] by (intro big) linarith+
  have "k div 262144 < 5" using le by (simp add: div_less_iff_less_mult)
  then have four: "of_nat (240 + k div 262144) \<noteq> ch CHR 0x5C" by (intro big) simp_all
  have three: "of_nat (224 + k div 4096) \<noteq> ch CHR 0x5C" if "k < 0x10000"
  proof -
    have "k div 4096 < 16" using that by (simp add: div_less_iff_less_mult)
    then show ?thesis by (intro big) simp_all
  qed
  have two: "of_nat (192 + k div 64) \<noteq> ch CHR 0x5C" if "k < 0x800"
  proof -
    have "k div 64 < 32" using that by (simp add: div_less_iff_less_mult)
    then show ?thesis by (intro big) simp_all
  qed
  show ?thesis
    using assms(2) tail [of k] tail [of "k div 64"] tail [of "k div 4096"] two three four
    by (auto simp: utf8_encode_def simp del: of_nat_add)
qed

lemma copy_unicode:
  assumes "p + 2 \<le> e" "js ! p = ch CHR 0x5C" "js ! Suc p = ch CHR ''u''"
    and "decode_unicode js e (Suc (Suc p)) = Some (of_nat k, q)" "k < 0x110000"
  shows "copy_loop js e n p out =
    (if length out + length (utf8_encode k) < n then copy_loop js e n q (out @ utf8_encode k)
     else (JSON_ERROR_OUTPUT_TOO_SMALL, out))"
  using assms by (subst copy_loop.simps) (simp add: Let_def AppendUtf8_encode)

lemma decoded_letters: "e \<in> set escape_letters \<Longrightarrow> decoded_escape e \<noteq> None \<and> e \<noteq> ch CHR ''u''"
  by (auto simp: escape_letters_def decoded_escape_def)

lemma decoded_none: "decoded_escape 0 = None" "ch CHR ''u'' \<noteq> 0"
  by (simp_all add: decoded_escape_def ch_def)

lemma copy_char:
  assumes "char_ok c" and "c \<noteq> Escaped 0" and "text_at js p (char_text c)" and "p + length (char_text c) \<le> e"
  shows "length out + length (char_bytes c) < n \<Longrightarrow>
      copy_loop js e n p out = copy_loop js e n (p + length (char_text c)) (out @ char_bytes c)"
    and "n \<le> length out + length (char_bytes c) \<Longrightarrow> fst (copy_loop js e n p out) = JSON_ERROR_OUTPUT_TOO_SMALL"
proof -
  have "(length out + length (char_bytes c) < n \<longrightarrow>
      copy_loop js e n p out = copy_loop js e n (p + length (char_text c)) (out @ char_bytes c)) \<and>
    (n \<le> length out + length (char_bytes c) \<longrightarrow> fst (copy_loop js e n p out) = JSON_ERROR_OUTPUT_TOO_SMALL)"
  proof (cases c)
    case (PlainChar b)
    then show ?thesis using assms copy_plain [of js p "[b]" e] by auto
  next
    case (Utf8Char k)
    then have k: "scalar_value k" "128 \<le> k" using assms(1) by simp_all
    then have "utf8_encode k \<noteq> []" by (rule utf8_encode_lead) simp
    then show ?thesis using Utf8Char assms copy_plain [of js p "utf8_encode k" e] utf8_no_backslash [OF k] by simp
  next
    case (Escaped l)
    then have "l \<in> set escape_letters" using assms(1,2) by auto
    then obtain b where "decoded_escape l = Some b" "l \<noteq> ch CHR ''u''" using decoded_letters by blast
    with Escaped assms(3,4) show ?thesis by (subst (1 3) copy_loop.simps) (simp add: Let_def)
  next
    case (UnicodeEscape ds)
    then obtain v where v: "hex4_value ds v" "scalar_value v" using assms(1) by auto
    then have len: "length ds = 4" by (simp add: hex4_value_def)
    have at: "js ! p = ch CHR 0x5C" "js ! Suc p = ch CHR ''u''" "text_at js (Suc (Suc p)) ds"
      using assms(3) UnicodeEscape by simp_all
    have "decode_unicode js e (Suc (Suc p)) = Some (of_nat v, Suc (Suc p) + 4)"
      using assms(4) UnicodeEscape len by (intro decode_unicode_at [OF at(3) v]) simp
    moreover have "v < 0x110000" using v(2) by (auto simp: scalar_value_def)
    ultimately show ?thesis
      using copy_unicode [where k = v and q = "Suc (Suc p) + 4"] at assms(4) UnicodeEscape len DecodeHex4_at(2) [OF at(3) v(1)]
      by (simp add: add.commute)
  next
    case (SurrogateEscape hi lo)
    then obtain h l where v: "hex4_value hi h" "hex4_value lo l" "0xd800 \<le> h" "h \<le> 0xdbff" "0xdc00 \<le> l" "l \<le> 0xdfff"
      using assms(1) by auto
    then have len: "length hi = 4" "length lo = 4" by (simp_all add: hex4_value_def)
    let ?k = "0x10000 + (h - 0xd800) * 1024 + (l - 0xdc00)"
    have at: "js ! p = ch CHR 0x5C" "js ! Suc p = ch CHR ''u''" "text_at js (Suc (Suc p)) (hi @ ch CHR 0x5C # ch CHR ''u'' # lo)"
      using assms(3) SurrogateEscape by simp_all
    have "decode_unicode js e (Suc (Suc p)) = Some (of_nat ?k, Suc (Suc p) + 10)"
      using assms(4) SurrogateEscape len by (intro decode_surrogates_at [OF at(3) v]) simp
    moreover have "?k < 0x110000" using v(3-6) by simp
    moreover have "hex4_number hi = h" "hex4_number lo = l" using v(1,2) by (simp_all add: hex4_value_def hex4_number_def)
    ultimately show ?thesis
      using copy_unicode [where k = ?k and q = "Suc (Suc p) + 10"] at assms(4) SurrogateEscape len
      by (simp add: add.commute)
  qed
  then show "length out + length (char_bytes c) < n \<Longrightarrow>
      copy_loop js e n p out = copy_loop js e n (p + length (char_text c)) (out @ char_bytes c)"
    and "n \<le> length out + length (char_bytes c) \<Longrightarrow> fst (copy_loop js e n p out) = JSON_ERROR_OUTPUT_TOO_SMALL"
    by blast+
qed

lemma copy_nul_escape:
  assumes "text_at js p (char_text (Escaped 0))" and "p + 2 \<le> e"
  shows "fst (copy_loop js e n p out) = JSON_ERROR_STRING"
  using assms decoded_none by (subst copy_loop.simps) (auto simp: Let_def)

lemma copy_string:
  assumes "list_all char_ok cs" and "text_at js p (string_text cs)" and "e = p + length (string_text cs)"
    and "length out < n"
  shows "copy_loop js e n p out = (JSON_OK, out @ string_bytes cs) \<and> Escaped 0 \<notin> set cs \<and>
      length out + length (string_bytes cs) < n \<or>
    fst (copy_loop js e n p out) \<noteq> JSON_OK \<and>
      (Escaped 0 \<in> set cs \<or> n \<le> length out + length (string_bytes cs))"
  using assms
proof (induction cs arbitrary: p out)
  case Nil
  then show ?case by (subst (1 2) copy_loop.simps) simp
next
  case (Cons c cs)
  have at: "text_at js p (char_text c)" "p + length (char_text c) \<le> e" "char_ok c" using Cons.prems by simp_all
  show ?case
  proof (cases "c = Escaped 0")
    case True
    then show ?thesis using copy_nul_escape [of js p e n out] at by simp
  next
    case False
    show ?thesis
    proof (cases "length out + length (char_bytes c) < n")
      case True
      then show ?thesis
        using Cons.IH [of "p + length (char_text c)" "out @ char_bytes c"] Cons.prems False
          copy_char(1) [OF at(3) False at(1,2) True]
        by (auto simp: add.assoc)
    next
      case large: False
      then show ?thesis using copy_char(2) [OF at(3) False at(1,2), of n out] by auto
    qed
  qed
qed

section \<open>Values in place\<close>

text \<open>
  A tree that stands in the text at \<open>p\<close> and in the array of tokens at \<open>i\<close>: its tokens are there, and
  those behind begin behind its text.
\<close>

definition located :: "byte list \<Rightarrow> JsonToken list \<Rightarrow> json_tree \<Rightarrow> nat \<Rightarrow> nat \<Rightarrow> nat option \<Rightarrow> bool" where
  "located js tokens t p i parent \<longleftrightarrow> tree_ok t \<and> text_at js p (tree_text t) \<and>
     (\<exists>A C. tokens = A @ tree_tokens t p i parent @ C \<and> length A = i \<and>
        (\<forall>y \<in> set C. p + length (tree_text t) \<le> token_start y))"

lemma located_document:
  "json_document js w t w' \<Longrightarrow> located js (tree_tokens t (length w) 0 None) t (length w) 0 None"
  using text_at_self [of w "tree_text t" w'] by (auto simp: located_def json_document_def)

lemma tokens_starts:
  shows tree_tokens_starts: "tree_ok t \<Longrightarrow> y \<in> set (tree_tokens t p i parent) \<Longrightarrow>
      p \<le> token_start y \<and> token_start y < p + length (tree_text t)"
    and members_tokens_starts: "members_ok ms \<Longrightarrow> y \<in> set (members_tokens ms p i object) \<Longrightarrow>
      p \<le> token_start y \<and> token_start y < p + length (members_text ms)"
    and elements_tokens_starts: "elements_ok es \<Longrightarrow> y \<in> set (elements_tokens es p i object) \<Longrightarrow>
      p \<le> token_start y \<and> token_start y < p + length (elements_text es)"
proof (induction t and ms and es arbitrary: p i parent and p i object and p i object
    rule: tree_ok_members_ok_elements_ok.induct)
  case (1 w ms)
  from "1.IH" [of "p + 1 + length w" "Suc i" i] "1.prems" show ?case by auto
next
  case (2 w es)
  from "2.IH" [of "p + 1 + length w" "Suc i" i] "2.prems" show ?case by auto
next
  case (4 bs)
  then have "number_ok bs" by simp
  then obtain c cs where "bs = c # cs" by (rule number_first)
  with 4 show ?case by simp
next
  case (9 k a b v t n ms)
  from "9.prems" "9.IH"(1) [of "p + length (quoted k) + length a + 1 + length b" "Suc i" "Some object"]
    "9.IH"(2) [of "p + length (quoted k) + length a + 1 + length b + length (tree_text v) + length t + 1 + length n"
      "Suc i + tree_total v" object]
  show ?case by (cases "ms = []") (auto simp: Let_def quoted_def)
next
  case (11 v t n es)
  from "11.prems" "11.IH"(1) [of p i "Some object"]
    "11.IH"(2) [of "p + length (tree_text v) + length t + 1 + length n" "i + tree_total v" object]
  show ?case by (cases "es = []") (auto simp: Let_def)
qed (auto simp: quoted_def)

section \<open>Members\<close>

text \<open>The value of the first member of a name, with its position and the index of its token.\<close>

fun member_at :: "byte list \<Rightarrow> json_member list \<Rightarrow> nat \<Rightarrow> nat \<Rightarrow> (json_tree \<times> nat \<times> nat) option" where
  "member_at name [] p i = None"
| "member_at name (Member k a b v t n # ms) p i =
     (let q = p + length (quoted k) + length a + 1 + length b in
      if k = name then Some (v, q, Suc i)
      else member_at name ms (q + length (tree_text v) + length t + 1 + length n) (Suc i + tree_total v))"

fun find_scan :: "byte list \<Rightarrow> nat \<Rightarrow> nat \<Rightarrow> byte list \<Rightarrow> bool \<Rightarrow> bool \<Rightarrow> nat \<Rightarrow> JsonToken list \<Rightarrow> nat option" where
  "find_scan js e object name expect_key key_matches i [] = None"
| "find_scan js e object name expect_key key_matches i (x # xs) =
     (if token_start x \<ge> e then None
      else if token_parent x \<noteq> Some object then find_scan js e object name expect_key key_matches (Suc i) xs
      else if expect_key then
        (if token_type x \<noteq> JSON_TOKEN_STRING then None
         else find_scan js e object name False (JsonStringEquals (Some js) x (Some name)) (Suc i) xs)
      else if key_matches then Some i
      else find_scan js e object name True key_matches (Suc i) xs)"

lemma find_member_scan:
  "find_member_loop js tokens object name expect_key key_matches i =
   find_scan js (token_end (tokens ! object)) object name expect_key key_matches i (drop i tokens)"
proof (induction js tokens object name expect_key key_matches i rule: find_member_loop.induct)
  case (1 js tokens object name expect_key key_matches i)
  show ?case
  proof (cases "i < length tokens")
    case True
    then have "drop i tokens = tokens ! i # drop (Suc i) tokens" by (rule Cons_nth_drop_Suc [symmetric])
    with True 1 show ?thesis by (subst find_member_loop.simps) simp
  next
    case False
    then show ?thesis by (subst find_member_loop.simps) simp
  qed
qed

lemma find_scan_foreign:
  assumes "\<forall>x \<in> set xs. token_start x < e \<and> token_parent x \<noteq> Some object"
  shows "find_scan js e object name ek km i (xs @ ys) = find_scan js e object name ek km (i + length xs) ys"
  using assms by (induction xs arbitrary: i) simp_all

lemma find_scan_behind: "\<forall>x \<in> set xs. e \<le> token_start x \<Longrightarrow> find_scan js e object name ek km i xs = None"
  by (cases xs) simp_all

lemma find_scan_value:
  assumes "object < i" and "tree_ok v" and "q + length (tree_text v) \<le> e"
  shows "find_scan js e object name False km i (tree_tokens v q i (Some object) @ ys) =
    (if km then Some i else find_scan js e object name True False (i + tree_total v) ys)"
proof -
  obtain x xs where v: "tree_tokens v q i (Some object) = x # xs" "token_parent x = Some object"
    "\<forall>y \<in> set xs. \<exists>j \<ge> i. token_parent y = Some j" using tree_tokens_parents by blast
  have start: "token_start y < e" if "y = x \<or> y \<in> set xs" for y
    using tree_tokens_starts [OF assms(2), of y q i "Some object"] v(1) assms(3) that by auto
  have "\<forall>y \<in> set xs. token_start y < e \<and> token_parent y \<noteq> Some object" using v(3) start assms(1) by fastforce
  moreover have "tree_total v = Suc (length xs)" using tree_tokens_length [of v q i "Some object"] v(1) by simp
  ultimately show ?thesis using v(1,2) start [of x] by (auto simp: find_scan_foreign)
qed

lemma JsonStringEquals_key:
  assumes "text_at js p (quoted k)"
  shows "JsonStringEquals (Some js) (key_token p k object) (Some name) \<longleftrightarrow> k = c_str name"
  using assms text_at_segment [of js "Suc p" k]
  by (auto simp: JsonStringEquals_def key_token_def string_token_def quoted_def)

lemma find_scan_members:
  assumes "object < i" and "members_ok ms" and "text_at js p (members_text ms)"
    and "p + length (members_text ms) \<le> e" and "\<forall>y \<in> set C. e \<le> token_start y"
  shows "find_scan js e object name True False i (members_tokens ms p i object @ C) =
    map_option (\<lambda>(v, q, j). j) (member_at (c_str name) ms p i)"
  using assms
proof (induction ms arbitrary: p i)
  case Nil
  then show ?case by (simp add: find_scan_behind)
next
  case (Cons m ms)
  obtain k a b v t n where m: "m = Member k a b v t n" by (cases m) auto
  let ?q = "p + length (quoted k) + length a + 1 + length b"
  let ?p = "?q + length (tree_text v) + length t + 1 + length n"
  have key: "token_start (key_token p k object) < e" "token_parent (key_token p k object) = Some object"
    "token_type (key_token p k object) = JSON_TOKEN_STRING"
    using Cons.prems(4) m by (simp_all add: key_token_def string_token_def quoted_def split: if_split_asm)
  have eq: "JsonStringEquals (Some js) (key_token p k object) (Some name) \<longleftrightarrow> k = c_str name"
    using Cons.prems(3) m by (intro JsonStringEquals_key) simp
  have toks: "members_tokens (m # ms) p i object =
      key_token p k object # tree_tokens v ?q (Suc i) (Some object) @ members_tokens ms ?p (Suc i + tree_total v) object"
    by (simp add: m key_token_def string_token_def Let_def)
  have here: "find_scan js e object name True False i (members_tokens (m # ms) p i object @ C) =
      (if k = c_str name then Some (Suc i)
       else find_scan js e object name True False (Suc i + tree_total v)
         (members_tokens ms ?p (Suc i + tree_total v) object @ C))"
    unfolding toks using Cons.prems(1,2,4) m key eq
    by (simp add: find_scan_value split: if_split_asm)
  show ?case
  proof (cases "ms = []")
    case True
    then show ?thesis using here m Cons.prems(5) by (simp add: find_scan_behind Let_def)
  next
    case False
    then have "find_scan js e object name True False (Suc i + tree_total v)
        (members_tokens ms ?p (Suc i + tree_total v) object @ C) =
      map_option (\<lambda>(v, q, j). j) (member_at (c_str name) ms ?p (Suc i + tree_total v))"
      using Cons.prems m by (intro Cons.IH) (simp_all add: add.assoc)
    then show ?thesis using here m by (simp add: Let_def)
  qed
qed

lemma located_at:
  assumes "tree_ok v" and "text_at js q (tree_text v)" and "tokens = A @ tree_tokens v q j parent @ C" and "length A = j"
    and "\<forall>y \<in> set C. q + length (tree_text v) \<le> token_start y"
  shows "located js tokens v q j parent"
  using assms unfolding located_def by blast

lemma located_member:
  assumes "tokens = A @ members_tokens ms p i object @ C" and "length A = i" and "members_ok ms"
    and "text_at js p (members_text ms)" and "\<forall>y \<in> set C. p + length (members_text ms) \<le> token_start y"
    and "member_at name ms p i = Some (v, q, j)"
  shows "located js tokens v q j (Some object)"
  using assms
proof (induction ms arbitrary: p i A)
  case (Cons m ms)
  obtain k a b u t n where m: "m = Member k a b u t n" by (cases m) auto
  let ?q = "p + length (quoted k) + length a + 1 + length b"
  let ?p = "?q + length (tree_text u) + length t + 1 + length n"
  have toks: "tokens = (A @ [key_token p k object]) @ tree_tokens u ?q (Suc i) (Some object) @
      members_tokens ms ?p (Suc i + tree_total u) object @ C"
    using Cons.prems(1) by (simp add: m key_token_def string_token_def Let_def)
  have behind: "?q + length (tree_text u) \<le> token_start y" if "y \<in> set C" for y
    using Cons.prems(5) that by (auto simp: m quoted_def split: if_split_asm)
  show ?case
  proof (cases "k = name")
    case True
    then have v: "v = u" "q = ?q" "j = Suc i" using Cons.prems(6) by (simp_all add: m Let_def)
    have "?q + length (tree_text u) \<le> token_start y" if "y \<in> set (members_tokens ms ?p (Suc i + tree_total u) object)" for y
      using members_tokens_starts [OF _ that] Cons.prems(3) by (simp add: m)
    then show ?thesis unfolding v using Cons.prems(2,3,4) behind
      by (intro located_at [OF _ _ toks]) (auto simp: m add.assoc)
  next
    case False
    then have more: "ms \<noteq> []" "member_at name ms ?p (Suc i + tree_total u) = Some (v, q, j)"
      using Cons.prems(6) by (auto simp: m Let_def)
    have "tokens = (A @ key_token p k object # tree_tokens u ?q (Suc i) (Some object)) @
        members_tokens ms ?p (Suc i + tree_total u) object @ C" using toks by simp
    then show ?thesis
    proof (rule Cons.IH)
      show "\<forall>y \<in> set C. ?p + length (members_text ms) \<le> token_start y"
        using Cons.prems(5) more(1) by (simp add: m add.assoc)
    qed (use Cons.prems(2,3,4) more in \<open>simp_all add: m add.assoc\<close>)
  qed
qed simp

lemma located_token:
  assumes "located js tokens t p i parent"
  shows "i < length tokens" "tokens ! i = hd (tree_tokens t p i parent)"
proof -
  obtain A C where tok: "tokens = A @ tree_tokens t p i parent @ C" "length A = i" using assms by (auto simp: located_def)
  obtain x xs where "tree_tokens t p i parent = x # xs" using tree_tokens_parents by blast
  with tok show "i < length tokens" "tokens ! i = hd (tree_tokens t p i parent)" by (auto simp: nth_append)
qed

lemma find_member_located:
  assumes "located js tokens (JObject w ms) p i parent"
  shows "JsonFindObjectMember (Some js) (Some tokens) (Some i) (Some name) =
      map_option (\<lambda>(v, q, j). j) (member_at (c_str name) ms (p + 1 + length w) (Suc i))"
    and "member_at (c_str name) ms (p + 1 + length w) (Suc i) = Some (v, q, j) \<Longrightarrow> located js tokens v q j (Some i)"
proof -
  let ?ob = "hd (tree_tokens (JObject w ms) p i parent)"
  obtain A C where tok: "tokens = (A @ [?ob]) @ members_tokens ms (p + 1 + length w) (Suc i) i @ C" "length A = i"
    and C: "\<forall>y \<in> set C. p + length (tree_text (JObject w ms)) \<le> token_start y"
    using assms by (auto simp: located_def)
  have ok: "members_ok ms" and at: "text_at js (p + 1 + length w) (members_text ms)"
    using assms by (simp_all add: located_def)
  have "drop (Suc i) tokens = members_tokens ms (p + 1 + length w) (Suc i) i @ C" using tok by simp
  then show "JsonFindObjectMember (Some js) (Some tokens) (Some i) (Some name) =
      map_option (\<lambda>(v, q, j). j) (member_at (c_str name) ms (p + 1 + length w) (Suc i))"
    using located_token [OF assms] C ok at
    by (simp add: JsonFindObjectMember_def find_member_scan find_scan_members)
  show "located js tokens v q j (Some i)" if "member_at (c_str name) ms (p + 1 + length w) (Suc i) = Some (v, q, j)"
    using that tok C by (intro located_member [OF tok(1) _ ok at _ that]) (auto simp: add.assoc)
qed

lemma copy_located:
  assumes "located js tokens (JString cs) p i parent" and "0 < n"
  shows "JsonCopyString (Some js) (tokens ! i) (Some n) = (JSON_OK, string_bytes cs) \<and> Escaped 0 \<notin> set cs \<and>
      length (string_bytes cs) < n \<or>
    fst (JsonCopyString (Some js) (tokens ! i) (Some n)) \<noteq> JSON_OK \<and>
      (Escaped 0 \<in> set cs \<or> n \<le> length (string_bytes cs))"
proof -
  have "list_all char_ok cs" "text_at js (Suc p) (string_text cs)"
    using assms(1) by (simp_all add: located_def quoted_def)
  then show ?thesis
    using copy_string [of cs js "Suc p" _ "[]" n] located_token(2) [OF assms(1)] assms(2) by (simp add: JsonCopyString_def)
qed

lemma uint64_located:
  assumes "located js tokens (JNumber bs) p i parent"
  shows "JsonGetUint64 (Some js) (tokens ! i) True = Inr v \<longleftrightarrow>
    (\<exists>k. digits_value 10 decimal_digit bs = Some k \<and> k < 2 ^ 64 \<and> v = of_nat k)"
proof -
  have "number_ok bs" and at: "text_at js p bs" using assms by (simp_all add: located_def)
  then obtain c cs where "bs = c # cs" by (elim number_first)
  moreover have "uint64_loop 0 bs = Inr v \<longleftrightarrow> uint64_value 0 bs = Some v"
    by (simp add: uint64_value_def split: sum.split)
  ultimately show ?thesis
    using located_token(2) [OF assms] text_at_segment [OF at] json_number.acc_value [of bs v]
    by (simp add: JsonGetUint64_def)
qed

section \<open>An accepted object\<close>

definition object_members :: "json_member list \<Rightarrow> (byte list \<times> json_tree) list" where
  "object_members ms = map (\<lambda>m. (member_key m, member_value m)) ms"

lemma member_at_map_of:
  "map_option fst (member_at name ms p i) = map_of (object_members ms) name"
  by (induction name ms p i rule: member_at.induct) (simp_all add: object_members_def Let_def)

text \<open>What the readers return for the token of a value.\<close>

definition reads_as :: "byte list \<Rightarrow> JsonToken \<Rightarrow> json_tree \<Rightarrow> bool" where
  "reads_as js token v = (case v of
     JString cs \<Rightarrow> (\<forall>n > 0.
       if Escaped 0 \<notin> set cs \<and> length (string_bytes cs) < n
       then JsonCopyString (Some js) token (Some n) = (JSON_OK, string_bytes cs)
       else fst (JsonCopyString (Some js) token (Some n)) \<noteq> JSON_OK)
   | JNumber bs \<Rightarrow> (\<forall>x. JsonGetUint64 (Some js) token True = Inr x \<longleftrightarrow>
       (\<exists>k. digits_value 10 decimal_digit bs = Some k \<and> k < 2 ^ 64 \<and> x = of_nat k))
   | JTrue \<Rightarrow> JsonGetBool token True = Inr True
   | JFalse \<Rightarrow> JsonGetBool token True = Inr False
   | _ \<Rightarrow> JsonGetBool token True = Inl JSON_ERROR_TYPE)"

lemma located_reads_as:
  assumes "located js tokens v p i parent"
  shows "reads_as js (tokens ! i) v"
proof (cases v)
  case (JString cs)
  have "if Escaped 0 \<notin> set cs \<and> length (string_bytes cs) < n
      then JsonCopyString (Some js) (tokens ! i) (Some n) = (JSON_OK, string_bytes cs)
      else fst (JsonCopyString (Some js) (tokens ! i) (Some n)) \<noteq> JSON_OK" if "0 < n" for n
    using copy_located [of js tokens cs p i parent n] assms JString that by auto
  then show ?thesis by (simp add: reads_as_def JString)
next
  case (JNumber bs)
  then show ?thesis using uint64_located [of js tokens bs p i parent] assms by (simp add: reads_as_def)
qed (use located_token(2) [OF assms] in \<open>simp_all add: reads_as_def JsonGetBool_def\<close>)

text \<open>
  C13: An accepted text whose root is an object is read back member by member: looking up a name finds
  nothing exactly where the object has no such member, and otherwise a token whose string, number or
  truth value is that of the member, escapes decoded to UTF-8 and numbers exact or refused.
\<close>

theorem json_members_read:
  assumes "ParseJson (Some js) True capacity depth =
    (\<lparr>result_error = JSON_OK, token_count = length tokens, error_offset = off\<rparr>, tokens)"
  shows "\<exists>w t w'. json_document js w t w' \<and> tokens = tree_tokens t (length w) 0 None \<and>
    (\<forall>blank ms name. t = JObject blank ms \<longrightarrow>
      (case map_of (object_members ms) (c_str name) of
         None \<Rightarrow> JsonFindObjectMember (Some js) (Some tokens) (Some 0) (Some name) = None
       | Some v \<Rightarrow> \<exists>j. JsonFindObjectMember (Some js) (Some tokens) (Some 0) (Some name) = Some j \<and>
           reads_as js (tokens ! j) v))"
proof -
  have "0 < capacity" "0 < depth" using assms by (auto simp: ParseJson_def parser_result_def split: if_split_asm)
  then obtain w t w' where doc: "json_document js w t w'" and tok: "tokens = tree_tokens t (length w) 0 None"
    using assms Run_ok_iff [of "\<lparr>json_text = js, token_capacity = capacity, max_depth = depth\<rparr>" tokens]
    by (auto simp: ParseJson_def)
  have member: "case map_of (object_members ms) (c_str name) of
         None \<Rightarrow> JsonFindObjectMember (Some js) (Some tokens) (Some 0) (Some name) = None
       | Some v \<Rightarrow> \<exists>j. JsonFindObjectMember (Some js) (Some tokens) (Some 0) (Some name) = Some j \<and>
           reads_as js (tokens ! j) v" if "t = JObject blank ms" for blank ms name
  proof -
    let ?at = "member_at (c_str name) ms (length w + 1 + length blank) (Suc 0)"
    have here: "located js tokens (JObject blank ms) (length w) 0 None" using located_document [OF doc] tok that by simp
    note find = find_member_located [OF here, of name]
    have value_of: "map_of (object_members ms) (c_str name) = map_option fst ?at" by (simp add: member_at_map_of)
    have "reads_as js (tokens ! j) v" if "?at = Some (v, q, j)" for v q j using find(2) that by (intro located_reads_as) simp
    with find(1) show ?thesis unfolding value_of by (auto split: option.split)
  qed
  show ?thesis by (rule exI [of _ w], rule exI [of _ t], rule exI [of _ w']) (use doc tok member in blast)
qed

definition sample_tree :: json_tree where
  "sample_tree = JObject [] [Member (bytes_of ''a'') [] [] (JString [Escaped (ch CHR ''n'')]) [] []]"

lemma sample_tree_parsed:
  "\<exists>off. ParseJson (Some (tree_text sample_tree)) True 4 2 =
    (\<lparr>result_error = JSON_OK, token_count = length (tree_tokens sample_tree 0 0 None), error_offset = off\<rparr>,
     tree_tokens sample_tree 0 0 None)"
proof -
  have "json_document (tree_text sample_tree) [] sample_tree []"
    by (simp add: json_document_def sample_tree_def key_ok_def bytes_of_def ch_def escape_letters_def)
  then have "\<exists>w t w'. json_document (tree_text sample_tree) w t w' \<and> tree_depth t \<le> 2 \<and>
      length (tree_tokens sample_tree 0 0 None) \<le> 4 \<and> tree_tokens sample_tree 0 0 None = tree_tokens t (length w) 0 None"
    by (intro exI [of _ "[]"] exI [of _ sample_tree]) (simp add: sample_tree_def)
  moreover have "length (tree_text sample_tree) \<le> kMaximumJsonBytes"
    by (simp add: sample_tree_def kMaximumJsonBytes_def quoted_def)
  ultimately show ?thesis
    using Run_ok_iff [of "\<lparr>json_text = tree_text sample_tree, token_capacity = 4, max_depth = 2\<rparr>" "tree_tokens sample_tree 0 0 None"]
    by (simp add: ParseJson_def)
qed

theorem json_members_read_witness:
  "\<exists>off w t w'. ParseJson (Some (tree_text sample_tree)) True 4 2 =
    (\<lparr>result_error = JSON_OK, token_count = length (tree_tokens sample_tree 0 0 None), error_offset = off\<rparr>,
     tree_tokens sample_tree 0 0 None) \<and>
    json_document (tree_text sample_tree) w t w' \<and> tree_tokens sample_tree 0 0 None = tree_tokens t (length w) 0 None"
  using sample_tree_parsed json_members_read [of "tree_text sample_tree" 4 2 "tree_tokens sample_tree 0 0 None"] by blast

end
