(* ===== verification/Release_Manifest.thy ===== *)
theory Release_Manifest
  imports Json_Access Fat_Path Update_Policy Update_Installer
begin

text \<open>
  The parser of the signed release manifest, \<open>src/src/update/release_manifest.cpp\<close>, with the registry of
  configuration migrations it consults (\<open>config_migration.cpp\<close>, \<open>config_schema.cpp\<close>).

  Strings are copied out of the JSON text into character arrays that are read as C strings only, so
  \<open>CopyString\<close> returns the bytes before the first NUL.  An array with its count is the list of its
  first \<open>count\<close> elements.  A method returns the error, or what it adds to the manifest; what a failed
  parse leaves in the caller's manifest is not part of the model.  The views of schemas and migrations
  that are handed to the registry have the fields of the manifest's own, and are the same records here.
\<close>

section \<open>Data\<close>

definition kMaximumReleaseManifestBytes :: nat where "kMaximumReleaseManifestBytes = 128 * 1024"
definition kMaximumManifestFiles :: nat where "kMaximumManifestFiles = 2048"
definition kMaximumManifestDirectories :: nat where "kMaximumManifestDirectories = 2048"
definition kMaximumManifestDeletions :: nat where "kMaximumManifestDeletions = 256"
definition kMaximumManifestReplacements :: nat where "kMaximumManifestReplacements = 256"
definition kMaximumManifestPathBytes :: nat where "kMaximumManifestPathBytes = 240"
definition kMaximumManifestSchemas :: nat where "kMaximumManifestSchemas = 32"
definition kMaximumManifestMigrations :: nat where "kMaximumManifestMigrations = 64"
definition kMaximumManifestLossyChanges :: nat where "kMaximumManifestLossyChanges = 64"
definition kConfigMigrationAreaCount :: nat where "kConfigMigrationAreaCount = 6"
definition kMaximumDeclaredConfigMigrations :: nat where "kMaximumDeclaredConfigMigrations = 64"
definition kMaximumConfigMigrationIdBytes :: nat where "kMaximumConfigMigrationIdBytes = 64"

definition kMaximumAssetBytes :: u64 where "kMaximumAssetBytes = 512 * 1024 * 1024"
definition kMaximumFileBytes :: u64 where "kMaximumFileBytes = 128 * 1024 * 1024"
definition kSafetyReserveBytes :: u64 where "kSafetyReserveBytes = 16 * 1024 * 1024"

definition kMachineKernelMachines :: "byte list list" where
  "kMachineKernelMachines = map bytes_of
     [''c64'', ''c64sc'', ''scpu64'', ''c128'', ''vic20'', ''plus4'', ''pet'', ''atari800'', ''updater'', ''intro'']"

definition kRequiredKernelMachineCount :: nat where "kRequiredKernelMachineCount = 8"

definition kRequiredKernelMachineMask :: u16 where
  "kRequiredKernelMachineMask = push_bit kRequiredKernelMachineCount 1 - 1"

datatype ConfigArea =
  AreaUnknown | Machines | ConfigManagedBlock | CmdlineManagedKeys | Network | Settings | UpdateState

definition area_index :: "ConfigArea \<Rightarrow> nat" where
  "area_index area = (case area of AreaUnknown \<Rightarrow> 0 | Machines \<Rightarrow> 1 | ConfigManagedBlock \<Rightarrow> 2 | CmdlineManagedKeys \<Rightarrow> 3
     | Network \<Rightarrow> 4 | Settings \<Rightarrow> 5 | UpdateState \<Rightarrow> 6)"

definition IsKnownConfigArea :: "ConfigArea \<Rightarrow> bool" where
  "IsKnownConfigArea area \<longleftrightarrow> area = Machines \<or> area = ConfigManagedBlock \<or> area = CmdlineManagedKeys \<or>
     area = Network \<or> area = Settings \<or> area = UpdateState"

record ManifestConfigSchema =
  schema_area :: ConfigArea
  schema_target :: u32
  schema_accepted :: "u32 list"

record ManifestMigration =
  migration_id :: "byte list"
  migration_area :: ConfigArea
  from_version :: u32
  to_version :: u32
  migration_lossy :: bool

record ManifestLossyChange =
  change_area :: ConfigArea
  change_description :: "byte list"

text \<open>The fields of \<open>ManifestAsset\<close> the installer does not read stand around its inventory.\<close>

record BoardAsset =
  asset_board :: BoardFamily
  asset_filename :: "byte list"
  download_size :: u64
  asset_sha256 :: "byte list"
  installed_size :: u64
  required_peak_bytes :: u64
  inventory :: ManifestAsset

record ReleaseManifest =
  manifest_version :: u32
  release_version :: "byte list"
  release_tag :: "byte list"
  source_commit :: "byte list"
  release_sequence :: u64
  release_epoch :: u64
  release_minimum_abi :: u32
  release_maximum_abi :: u32
  signing_key_ids :: "byte list list"
  config_schemas :: "ManifestConfigSchema list"
  config_migrations :: "ManifestMigration list"
  lossy_changes :: "ManifestLossyChange list"
  manifest_asset :: BoardAsset

record ManifestParseStorage =
  manifest_tokens :: nat
  file_capacity :: nat
  directory_capacity :: nat
  deletion_capacity :: nat
  replacement_capacity :: nat

datatype ManifestParseStatus =
  ManifestInvalidArgument | ManifestInvalidSize | ManifestJsonInvalid | ManifestUnsupportedVersion |
  ManifestWrongType | ManifestMissingField | ManifestUnknownField | ManifestInvalidValue |
  ManifestLimitExceeded | UnsupportedConfiguration | TargetAssetMissing | DuplicateAsset |
  InventoryMismatch | ManifestStorageTooSmall

datatype ConfigMigrationRegistryStatus =
  RegistryValid | RegistryInvalidInput | DuplicateDeclaration | UnknownMigration | DeclarationMismatch | SchemaMismatch

record manifest_source =
  source_text :: "byte list"
  source_tokens :: "JsonToken list"
  target_board :: BoardFamily
  source_storage :: ManifestParseStorage

section \<open>Early returns\<close>

text \<open>A step that may return early, its two simplest forms, and what follows a step that did not.\<close>

definition bind_sum :: "'e + 'a \<Rightarrow> ('a \<Rightarrow> 'e + 'b) \<Rightarrow> 'e + 'b" where
  "bind_sum x f = (case x of Inl e \<Rightarrow> Inl e | Inr a \<Rightarrow> f a)"

definition need :: "'e \<Rightarrow> 'a option \<Rightarrow> 'e + 'a" where
  "need e x = (case x of None \<Rightarrow> Inl e | Some a \<Rightarrow> Inr a)"

definition ensure :: "'e \<Rightarrow> bool \<Rightarrow> 'e + unit" where
  "ensure e b = (if b then Inr () else Inl e)"

lemma bind_sum_Inr [simp]: "bind_sum x f = Inr y \<longleftrightarrow> (\<exists>a. x = Inr a \<and> f a = Inr y)"
  by (auto simp: bind_sum_def split: sum.split)

lemma need_Inr [simp]: "need e x = Inr a \<longleftrightarrow> x = Some a"
  by (auto simp: need_def split: option.split)

lemma ensure_Inr [simp]: "ensure e b = Inr u \<longleftrightarrow> b"
  by (simp add: ensure_def)

section \<open>Values\<close>

definition IsAsciiAlphaNumeric :: "byte \<Rightarrow> bool" where
  "IsAsciiAlphaNumeric c \<longleftrightarrow> is_digit c \<or> is_upper c \<or> is_lower c"

definition IsManifestIdentifier :: "byte list \<Rightarrow> bool" where
  "IsManifestIdentifier s \<longleftrightarrow> IsAsciiAlphaNumeric (cstr_at s 0) \<and> length s \<noteq> 0 \<and> length s \<le> 64 \<and>
     list_all (\<lambda>c. IsAsciiAlphaNumeric c \<or> c = ch CHR ''.'' \<or> c = ch CHR ''_'' \<or> c = ch CHR ''-'') (drop 1 s)"

definition version_character :: "byte \<Rightarrow> bool" where
  "version_character c \<longleftrightarrow>
     IsAsciiAlphaNumeric c \<or> c = ch CHR ''.'' \<or> c = ch CHR ''_'' \<or> c = ch CHR ''+'' \<or> c = ch CHR ''-''"

definition IsVersion :: "byte list \<Rightarrow> bool" where
  "IsVersion s \<longleftrightarrow> IsAsciiAlphaNumeric (cstr_at s 0) \<and> length s \<noteq> 0 \<and> length s \<le> 64 \<and>
     list_all version_character (drop 1 s)"

definition IsTag :: "byte list \<Rightarrow> bool" where
  "IsTag s \<longleftrightarrow> IsAsciiAlphaNumeric (cstr_at s 0) \<and> length s \<noteq> 0 \<and> length s \<le> 128 \<and>
     list_all version_character (drop 1 s)"

definition IsLowerHex :: "byte \<Rightarrow> bool" where
  "IsLowerHex c \<longleftrightarrow> is_digit c \<or> (ch CHR ''a'' \<le> c \<and> c \<le> ch CHR ''f'')"

definition lower_hex_value :: "byte \<Rightarrow> byte" where
  "lower_hex_value c = (if c \<le> ch CHR ''9'' then c - ch CHR ''0'' else c - ch CHR ''a'' + 10)"

fun hex_pairs :: "byte list \<Rightarrow> byte list option" where
  "hex_pairs (high # low # rest) =
     (if \<not> IsLowerHex high \<or> \<not> IsLowerHex low then None
      else map_option ((#) (push_bit 4 (lower_hex_value high) OR lower_hex_value low)) (hex_pairs rest))"
| "hex_pairs rest = Some []"

definition ParseSha256 :: "byte list \<Rightarrow> byte list option" where
  "ParseSha256 s = (if length s \<noteq> 64 then None else hex_pairs s)"

definition IsSourceCommit :: "byte list \<Rightarrow> bool" where
  "IsSourceCommit s \<longleftrightarrow> (length s = 40 \<or> length s = 64) \<and> list_all IsLowerHex s"

definition IsDisplaySafeDescription :: "byte list \<Rightarrow> bool" where
  "IsDisplaySafeDescription s \<longleftrightarrow> s \<noteq> [] \<and> list_all (\<lambda>c. 0x20 \<le> c \<and> c \<le> 0x7e) s"

definition ParseConfigArea :: "byte list \<Rightarrow> ConfigArea" where
  "ParseConfigArea s =
     (if s = bytes_of ''machines'' then Machines
      else if s = bytes_of ''config_managed_block'' then ConfigManagedBlock
      else if s = bytes_of ''cmdline_managed'' then CmdlineManagedKeys
      else if s = bytes_of ''network'' then Network
      else if s = bytes_of ''settings'' then Settings
      else if s = bytes_of ''update_state'' then UpdateState
      else AreaUnknown)"

definition IsSafeManifestPath :: "byte list \<Rightarrow> bool" where
  "IsSafeManifestPath path \<longleftrightarrow> ValidateFatRelativePath (Some path) kMaximumManifestPathBytes = FatOk"

text \<open>The bit of a machine whose kernel every release has to contain, or zero for the others.\<close>

definition ParseMachineKernelSuffix :: "byte list \<Rightarrow> u16 option" where
  "ParseMachineKernelSuffix suffix =
     (if suffix = [] \<or> ch CHR ''.'' \<in> set suffix then None
      else case index_of (\<lambda>m. m = suffix) kMachineKernelMachines of
        None \<Rightarrow> None
      | Some machine_index \<Rightarrow>
          Some (if machine_index < kRequiredKernelMachineCount then push_bit machine_index 1 else 0))"

text \<open>\<open>strrchr\<close>: where the last dot stands.\<close>

definition last_dot :: "byte list \<Rightarrow> nat option" where
  "last_dot s = map_option (\<lambda>i. length s - 1 - i) (index_of (\<lambda>c. c = ch CHR ''.'') (rev s))"

text \<open>The new common base and the bit.\<close>

definition ParseMachineKernelPath :: "byte list \<Rightarrow> byte list \<Rightarrow> nat \<Rightarrow> (byte list \<times> u16) option" where
  "ParseMachineKernelPath path common_base common_base_size =
     (if ch CHR ''/'' \<in> set path then None
      else case last_dot path of
        None \<Rightarrow> None
      | Some base_size \<Rightarrow>
          if base_size = 0 then None
          else case ParseMachineKernelSuffix (drop (Suc base_size) path) of
            None \<Rightarrow> None
          | Some machine_bit \<Rightarrow>
              if base_size < 4 \<or> take 6 path \<noteq> bytes_of ''kernel'' \<or>
                 segment path (base_size - 4) base_size \<noteq> bytes_of ''.img'' \<or> base_size + 1 > common_base_size
              then None
              else if common_base = [] then Some (take base_size path, machine_bit)
              else if common_base = take base_size path then Some (common_base, machine_bit)
              else None)"

fun AsciiCaseEqual :: "byte list \<Rightarrow> byte list \<Rightarrow> bool" where
  "AsciiCaseEqual (a # left) (b # right) \<longleftrightarrow> AsciiLower a = AsciiLower b \<and> AsciiCaseEqual left right"
| "AsciiCaseEqual left right \<longleftrightarrow> left = [] \<and> right = []"

section \<open>The registry of migrations\<close>

definition kCompiledMigrations :: "ManifestMigration list" where
  "kCompiledMigrations = map (\<lambda>(i, a, l). \<lparr>migration_id = bytes_of i, migration_area = a, from_version = 1,
     to_version = 2, migration_lossy = l\<rparr>)
    [(''machines-v1-to-v2-header'', Machines, False),
     (''config-managed-v1-to-v2-header'', ConfigManagedBlock, False),
     (''cmdline-managed-v1-to-v2-marker'', CmdlineManagedKeys, False),
     (''network-v1-to-v2-marker'', Network, False),
     (''settings-v1-to-v2-header'', Settings, False),
     (''machines-v1-to-v2-reset'', Machines, True),
     (''config-managed-v1-to-v2-reset'', ConfigManagedBlock, True),
     (''cmdline-managed-v1-to-v2-reset'', CmdlineManagedKeys, True),
     (''network-v1-to-v2-reset'', Network, True),
     (''settings-v1-to-v2-reset'', Settings, True),
     (''update-state-v1-to-v2-reset'', UpdateState, True)]"

definition BoundedStringLength :: "byte list \<Rightarrow> nat \<Rightarrow> nat" where
  "BoundedStringLength s maximum = bounded_strlen s (Suc maximum) 0"

definition FindCompiledMigration :: "byte list \<Rightarrow> ManifestMigration option" where
  "FindCompiledMigration name =
     (if BoundedStringLength name kMaximumConfigMigrationIdBytes = 0 \<or>
         BoundedStringLength name kMaximumConfigMigrationIdBytes > kMaximumConfigMigrationIdBytes
      then None
      else find (\<lambda>m. migration_id m = c_str name) kCompiledMigrations)"

definition RequirementIsValid :: "ManifestConfigSchema \<Rightarrow> bool" where
  "RequirementIsValid r \<longleftrightarrow> IsKnownConfigArea (schema_area r) \<and> schema_target r \<noteq> 0 \<and>
     schema_accepted r \<noteq> [] \<and> length (schema_accepted r) \<le> 32 \<and>
     distinct (schema_accepted r) \<and> schema_target r \<in> set (schema_accepted r)"

definition FindRequirement :: "ManifestConfigSchema list \<Rightarrow> ConfigArea \<Rightarrow> ManifestConfigSchema option" where
  "FindRequirement requirements area = find (\<lambda>r. schema_area r = area) requirements"

definition VersionIsAccepted :: "ManifestConfigSchema \<Rightarrow> u32 \<Rightarrow> bool" where
  "VersionIsAccepted r version \<longleftrightarrow> version \<in> set (schema_accepted r)"

primrec requirements_valid :: "nat list \<Rightarrow> ManifestConfigSchema list \<Rightarrow> bool" where
  "requirements_valid seen_area [] = True"
| "requirements_valid seen_area (r # rs) =
     (if \<not> RequirementIsValid r \<or> area_index (schema_area r) = 0 \<or> area_index (schema_area r) \<ge> 7 \<or>
         area_index (schema_area r) \<in> set seen_area
      then False
      else requirements_valid (area_index (schema_area r) # seen_area) rs)"

definition declaration_status ::
  "ManifestConfigSchema list \<Rightarrow> ManifestMigration list \<Rightarrow> ManifestMigration \<Rightarrow> ConfigMigrationRegistryStatus" where
  "declaration_status requirements earlier d =
     (if BoundedStringLength (migration_id d) kMaximumConfigMigrationIdBytes = 0 \<or>
         BoundedStringLength (migration_id d) kMaximumConfigMigrationIdBytes > kMaximumConfigMigrationIdBytes \<or>
         \<not> IsKnownConfigArea (migration_area d) \<or> from_version d = 0 \<or> to_version d = 0 \<or> from_version d = to_version d
      then RegistryInvalidInput
      else if list_ex (\<lambda>m. c_str (migration_id m) = c_str (migration_id d) \<or>
          (migration_area m = migration_area d \<and> from_version m = from_version d \<and> to_version m = to_version d)) earlier
      then DuplicateDeclaration
      else case FindCompiledMigration (migration_id d) of
        None \<Rightarrow> UnknownMigration
      | Some compiled \<Rightarrow>
          if migration_area compiled \<noteq> migration_area d \<or> from_version compiled \<noteq> from_version d \<or>
             to_version compiled \<noteq> to_version d \<or> migration_lossy compiled \<noteq> migration_lossy d
          then DeclarationMismatch
          else case FindRequirement requirements (migration_area d) of
            None \<Rightarrow> SchemaMismatch
          | Some r \<Rightarrow>
              if schema_target r \<noteq> to_version d \<or> VersionIsAccepted r (from_version d) then SchemaMismatch
              else RegistryValid)"

primrec declarations_status ::
  "ManifestConfigSchema list \<Rightarrow> ManifestMigration list \<Rightarrow> ManifestMigration list \<Rightarrow> ConfigMigrationRegistryStatus" where
  "declarations_status requirements earlier [] = RegistryValid"
| "declarations_status requirements earlier (d # ds) =
     (if declaration_status requirements earlier d \<noteq> RegistryValid then declaration_status requirements earlier d
      else declarations_status requirements (earlier @ [d]) ds)"

definition ValidateConfigMigrationDeclarations ::
  "ManifestConfigSchema list \<Rightarrow> ManifestMigration list \<Rightarrow> ConfigMigrationRegistryStatus" where
  "ValidateConfigMigrationDeclarations requirements migrations =
     (if length requirements \<noteq> kConfigMigrationAreaCount \<or> length migrations > kMaximumDeclaredConfigMigrations
      then RegistryInvalidInput
      else if \<not> requirements_valid [] requirements then RegistryInvalidInput
      else declarations_status requirements [] migrations)"

text \<open>\<open>None\<close> is the status \<open>Ok\<close>.\<close>

definition RegistryStatusToManifestStatus :: "ConfigMigrationRegistryStatus \<Rightarrow> ManifestParseStatus option" where
  "RegistryStatusToManifestStatus status = (case status of
     RegistryValid \<Rightarrow> None
   | UnknownMigration \<Rightarrow> Some UnsupportedConfiguration
   | DeclarationMismatch \<Rightarrow> Some UnsupportedConfiguration
   | RegistryInvalidInput \<Rightarrow> Some UnsupportedConfiguration
   | DuplicateDeclaration \<Rightarrow> Some ManifestInvalidValue
   | SchemaMismatch \<Rightarrow> Some ManifestInvalidValue)"

section \<open>Access to the tokens\<close>

definition Member :: "manifest_source \<Rightarrow> nat option \<Rightarrow> byte list \<Rightarrow> nat option" where
  "Member src object name = JsonFindObjectMember (Some (source_text src)) (Some (source_tokens src)) object (Some name)"

text \<open>Every key is known; the value at the end of the loop is whether keys and values were paired.\<close>

function exact_loop :: "manifest_source \<Rightarrow> nat \<Rightarrow> byte list list \<Rightarrow> bool \<Rightarrow> nat \<Rightarrow> bool" where
  "exact_loop src index field_names expect_key i =
     (let tokens = source_tokens src in
      if i \<ge> length tokens \<or> token_start (tokens ! i) \<ge> token_end (tokens ! index) then expect_key
      else if token_parent (tokens ! i) \<noteq> Some index then exact_loop src index field_names expect_key (Suc i)
      else if expect_key \<and> \<not> list_ex (\<lambda>f. JsonStringEquals (Some (source_text src)) (tokens ! i) (Some f)) field_names then False
      else exact_loop src index field_names (\<not> expect_key) (Suc i))"
  by pat_completeness auto
termination
  by (relation "measure (\<lambda>(src, index, field_names, expect_key, i). length (source_tokens src) - i)") auto

declare exact_loop.simps [simp del]

definition ExactObject :: "manifest_source \<Rightarrow> nat option \<Rightarrow> byte list list \<Rightarrow> bool" where
  "ExactObject src index field_names =
     (case index of
        None \<Rightarrow> False
      | Some i \<Rightarrow>
          i < length (source_tokens src) \<and> token_type (source_tokens src ! i) = JSON_TOKEN_OBJECT \<and>
          child_count (source_tokens src ! i) = length field_names * 2 \<and>
          exact_loop src i field_names True (Suc i) \<and> list_all (\<lambda>f. Member src index f \<noteq> None) field_names)"

definition CopyString :: "manifest_source \<Rightarrow> nat option \<Rightarrow> nat \<Rightarrow> byte list option" where
  "CopyString src token output_size =
     (case token of
        None \<Rightarrow> None
      | Some i \<Rightarrow>
          if i < length (source_tokens src) then
            (case JsonCopyString (Some (source_text src)) (source_tokens src ! i) (Some output_size) of
               (status, bytes) \<Rightarrow> if status = JSON_OK then Some (c_str bytes) else None)
          else None)"

definition Uint64 :: "manifest_source \<Rightarrow> nat option \<Rightarrow> u64 \<Rightarrow> u64 \<Rightarrow> u64 option" where
  "Uint64 src token minimum maximum =
     (case token of
        None \<Rightarrow> None
      | Some i \<Rightarrow>
          if i < length (source_tokens src) then
            (case JsonGetUint64 (Some (source_text src)) (source_tokens src ! i) True of
               Inl _ \<Rightarrow> None
             | Inr v \<Rightarrow> if v < minimum \<or> v > maximum then None else Some v)
          else None)"

definition Uint32 :: "manifest_source \<Rightarrow> nat option \<Rightarrow> u64 \<Rightarrow> u64 \<Rightarrow> u32 option" where
  "Uint32 src token minimum maximum = map_option ucast (Uint64 src token minimum maximum)"

definition GetBool :: "manifest_source \<Rightarrow> nat option \<Rightarrow> bool option" where
  "GetBool src token =
     (case token of
        None \<Rightarrow> None
      | Some i \<Rightarrow>
          if i < length (source_tokens src) then
            (case JsonGetBool (source_tokens src ! i) True of Inl _ \<Rightarrow> None | Inr v \<Rightarrow> Some v)
          else None)"

definition is_array :: "manifest_source \<Rightarrow> nat option \<Rightarrow> bool" where
  "is_array src token = (case token of None \<Rightarrow> False | Some i \<Rightarrow> token_type (source_tokens src ! i) = JSON_TOKEN_ARRAY)"

definition DirectChildren :: "manifest_source \<Rightarrow> nat option \<Rightarrow> nat" where
  "DirectChildren src array =
     (case array of
        None \<Rightarrow> 0
      | Some i \<Rightarrow>
          if i < length (source_tokens src) \<and> token_type (source_tokens src ! i) = JSON_TOKEN_ARRAY
          then child_count (source_tokens src ! i) else 0)"

function child_loop :: "JsonToken list \<Rightarrow> nat \<Rightarrow> nat \<Rightarrow> nat \<Rightarrow> nat \<Rightarrow> nat option" where
  "child_loop tokens array ordinal found i =
     (if i \<ge> length tokens then None
      else if token_start (tokens ! i) \<ge> token_end (tokens ! array) then None
      else if token_parent (tokens ! i) \<noteq> Some array then child_loop tokens array ordinal found (Suc i)
      else if found = ordinal then Some i
      else child_loop tokens array ordinal (Suc found) (Suc i))"
  by pat_completeness auto
termination
  by (relation "measure (\<lambda>(tokens, array, ordinal, found, i). length tokens - i)") auto

declare child_loop.simps [simp del]

definition DirectChild :: "manifest_source \<Rightarrow> nat option \<Rightarrow> nat \<Rightarrow> nat option" where
  "DirectChild src array ordinal =
     (case array of None \<Rightarrow> None | Some a \<Rightarrow> child_loop (source_tokens src) a ordinal 0 (Suc a))"

section \<open>The release\<close>

definition kReleaseFields :: "byte list list" where
  "kReleaseFields = map bytes_of
     [''version'', ''release_sequence'', ''release_epoch'', ''tag'', ''channel'', ''source_commit'',
      ''minimum_updater_abi'', ''maximum_updater_abi'', ''signing_key_ids'']"

primrec key_loop :: "manifest_source \<Rightarrow> nat option \<Rightarrow> nat list \<Rightarrow> byte list list \<Rightarrow> ManifestParseStatus + byte list list" where
  "key_loop src keys [] ids = Inr ids"
| "key_loop src keys (i # is) ids =
     bind_sum (need ManifestInvalidValue (CopyString src (DirectChild src keys i) 65)) (\<lambda>name.
     bind_sum (ensure ManifestInvalidValue (IsManifestIdentifier name \<and> (ids \<noteq> [] \<longrightarrow> bytes_less (last ids) name))) (\<lambda>_.
     key_loop src keys is (ids @ [name])))"

definition int32_max :: u64 where "int32_max = 0x7fffffff"
definition int64_max :: u64 where "int64_max = 0x7fffffffffffffff"

definition ParseRelease :: "manifest_source \<Rightarrow> nat option \<Rightarrow> ReleaseManifest \<Rightarrow> ManifestParseStatus + ReleaseManifest" where
  "ParseRelease src index manifest =
     (let field = (\<lambda>name. Member src index (bytes_of name)); bad = ManifestInvalidValue in
      bind_sum (ensure ManifestUnknownField (ExactObject src index kReleaseFields)) (\<lambda>_.
      bind_sum (need bad (CopyString src (field ''version'') 65)) (\<lambda>version.
      bind_sum (ensure bad (IsVersion version)) (\<lambda>_.
      bind_sum (need bad (CopyString src (field ''tag'') 129)) (\<lambda>tag.
      bind_sum (ensure bad (IsTag tag)) (\<lambda>_.
      bind_sum (need bad (CopyString src (field ''channel'') 16)) (\<lambda>channel.
      bind_sum (ensure bad (channel = bytes_of ''stable'')) (\<lambda>_.
      bind_sum (need bad (CopyString src (field ''source_commit'') 65)) (\<lambda>commit.
      bind_sum (ensure bad (IsSourceCommit commit)) (\<lambda>_.
      bind_sum (need bad (Uint64 src (field ''release_sequence'') 1 int32_max)) (\<lambda>seq.
      bind_sum (need bad (Uint64 src (field ''release_epoch'') 1 int64_max)) (\<lambda>epoch.
      bind_sum (need bad (Uint32 src (field ''minimum_updater_abi'') 1 int32_max)) (\<lambda>min_abi.
      bind_sum (need bad (Uint32 src (field ''maximum_updater_abi'') 1 int32_max)) (\<lambda>max_abi.
      bind_sum (ensure bad (min_abi \<le> max_abi)) (\<lambda>_.
      let keys = field ''signing_key_ids''; key_count = DirectChildren src keys in
      bind_sum (ensure ManifestLimitExceeded (key_count \<noteq> 0 \<and> key_count \<le> 4)) (\<lambda>_.
      bind_sum (key_loop src keys [0..<key_count] []) (\<lambda>ids.
      Inr (manifest\<lparr>release_version := version, release_tag := tag, source_commit := commit, release_sequence := seq,
        release_epoch := epoch, release_minimum_abi := min_abi, release_maximum_abi := max_abi,
        signing_key_ids := ids\<rparr>))))))))))))))))))"

section \<open>The configuration\<close>

primrec version_loop :: "manifest_source \<Rightarrow> nat option \<Rightarrow> nat list \<Rightarrow> u32 list \<Rightarrow> ManifestParseStatus + u32 list" where
  "version_loop src array [] versions = Inr versions"
| "version_loop src array (i # is) versions =
     bind_sum (need ManifestInvalidValue (Uint32 src (DirectChild src array i) 0 int32_max)) (\<lambda>version.
     bind_sum (ensure ManifestInvalidValue (versions \<noteq> [] \<longrightarrow> last versions < version)) (\<lambda>_.
     version_loop src array is (versions @ [version])))"

definition ParseSchema ::
  "manifest_source \<Rightarrow> nat option \<Rightarrow> byte list option \<Rightarrow> ConfigArea list \<Rightarrow>
   ManifestParseStatus + byte list \<times> ManifestConfigSchema" where
  "ParseSchema src schema previous_id seen_areas =
     bind_sum (ensure ManifestUnknownField (ExactObject src schema (map bytes_of [''id'', ''target_version'', ''accepted_versions'']))) (\<lambda>_.
     bind_sum (need ManifestInvalidValue (CopyString src (Member src schema (bytes_of ''id'')) 65)) (\<lambda>name.
     bind_sum (ensure ManifestInvalidValue (IsManifestIdentifier name \<and> (previous_id \<noteq> None \<longrightarrow> bytes_less (the previous_id) name))) (\<lambda>_.
     let area = ParseConfigArea name in
     bind_sum (ensure UnsupportedConfiguration (IsKnownConfigArea area \<and> area_index area < 7 \<and> area \<notin> set seen_areas)) (\<lambda>_.
     bind_sum (need UnsupportedConfiguration (Uint32 src (Member src schema (bytes_of ''target_version'')) 0 int32_max)) (\<lambda>target.
     let accepted = Member src schema (bytes_of ''accepted_versions''); accepted_count = DirectChildren src accepted in
     bind_sum (ensure ManifestWrongType (is_array src accepted)) (\<lambda>_.
     bind_sum (ensure ManifestLimitExceeded (accepted_count \<noteq> 0 \<and> accepted_count \<le> 32)) (\<lambda>_.
     bind_sum (version_loop src accepted [0..<accepted_count] []) (\<lambda>versions.
     bind_sum (ensure ManifestInvalidValue (target \<in> set versions)) (\<lambda>_.
     Inr (name, \<lparr>schema_area = area, schema_target = target, schema_accepted = versions\<rparr>))))))))))"

primrec schema_loop ::
  "manifest_source \<Rightarrow> nat option \<Rightarrow> nat list \<Rightarrow> byte list option \<Rightarrow> ManifestConfigSchema list \<Rightarrow>
   ManifestParseStatus + ManifestConfigSchema list" where
  "schema_loop src schemas [] previous_id outputs = Inr outputs"
| "schema_loop src schemas (i # is) previous_id outputs =
     bind_sum (ParseSchema src (DirectChild src schemas i) previous_id (map schema_area outputs)) (\<lambda>(name, output).
     schema_loop src schemas is (Some name) (outputs @ [output]))"

definition ParseMigration ::
  "manifest_source \<Rightarrow> nat option \<Rightarrow> byte list option \<Rightarrow> ManifestParseStatus + ManifestMigration" where
  "ParseMigration src migration previous_id =
     (let field = (\<lambda>name. Member src migration (bytes_of name)); bad = ManifestInvalidValue in
      bind_sum (ensure ManifestUnknownField
        (ExactObject src migration (map bytes_of [''area'', ''from_version'', ''id'', ''lossy'', ''to_version'']))) (\<lambda>_.
      bind_sum (need bad (CopyString src (field ''id'') 65)) (\<lambda>name.
      bind_sum (ensure bad (IsManifestIdentifier name \<and> (previous_id \<noteq> None \<longrightarrow> bytes_less (the previous_id) name))) (\<lambda>_.
      bind_sum (need bad (CopyString src (field ''area'') 65)) (\<lambda>area.
      bind_sum (ensure bad (IsManifestIdentifier area)) (\<lambda>_.
      bind_sum (need bad (Uint32 src (field ''from_version'') 0 int32_max)) (\<lambda>from.
      bind_sum (need bad (Uint32 src (field ''to_version'') 0 int32_max)) (\<lambda>to.
      bind_sum (need bad (GetBool src (field ''lossy''))) (\<lambda>lossy.
      bind_sum (ensure UnsupportedConfiguration (IsKnownConfigArea (ParseConfigArea area))) (\<lambda>_.
      Inr \<lparr>migration_id = name, migration_area = ParseConfigArea area, from_version = from, to_version = to,
        migration_lossy = lossy\<rparr>))))))))))"

primrec migration_loop ::
  "manifest_source \<Rightarrow> nat option \<Rightarrow> nat list \<Rightarrow> ManifestMigration list \<Rightarrow> ManifestParseStatus + ManifestMigration list" where
  "migration_loop src migrations [] outputs = Inr outputs"
| "migration_loop src migrations (i # is) outputs =
     bind_sum (ParseMigration src (DirectChild src migrations i)
       (if outputs = [] then None else Some (migration_id (last outputs)))) (\<lambda>output.
     migration_loop src migrations is (outputs @ [output]))"

primrec lossy_loop ::
  "manifest_source \<Rightarrow> nat option \<Rightarrow> nat list \<Rightarrow> byte list option \<Rightarrow> ManifestLossyChange list \<Rightarrow>
   ManifestParseStatus + ManifestLossyChange list" where
  "lossy_loop src lossy [] previous_area outputs = Inr outputs"
| "lossy_loop src lossy (i # is) previous_area outputs =
     (let change = DirectChild src lossy i in
      bind_sum (ensure ManifestUnknownField (ExactObject src change (map bytes_of [''area'', ''description'']))) (\<lambda>_.
      bind_sum (need ManifestInvalidValue (CopyString src (Member src change (bytes_of ''area'')) 65)) (\<lambda>area.
      bind_sum (ensure ManifestInvalidValue (IsManifestIdentifier area)) (\<lambda>_.
      bind_sum (need ManifestInvalidValue (CopyString src (Member src change (bytes_of ''description'')) 257)) (\<lambda>description.
      bind_sum (ensure ManifestInvalidValue (IsDisplaySafeDescription description)) (\<lambda>_.
      bind_sum (ensure UnsupportedConfiguration (IsKnownConfigArea (ParseConfigArea area))) (\<lambda>_.
      bind_sum (ensure ManifestInvalidValue (previous_area \<noteq> None \<longrightarrow> bytes_less (the previous_area) area)) (\<lambda>_.
      lossy_loop src lossy is (Some area)
        (outputs @ [\<lparr>change_area = ParseConfigArea area, change_description = description\<rparr>])))))))))"

definition changes_match :: "ManifestMigration list \<Rightarrow> ManifestLossyChange list \<Rightarrow> bool" where
  "changes_match migrations changes \<longleftrightarrow>
     list_all (\<lambda>c. list_ex (\<lambda>m. migration_lossy m \<and> migration_area m = change_area c) migrations) changes \<and>
     list_all (\<lambda>m. migration_lossy m \<longrightarrow> list_ex (\<lambda>c. change_area c = migration_area m) changes) migrations"

definition ParseConfiguration :: "manifest_source \<Rightarrow> nat option \<Rightarrow> ReleaseManifest \<Rightarrow> ManifestParseStatus + ReleaseManifest" where
  "ParseConfiguration src index manifest =
     (let schemas_token = Member src index (bytes_of ''schemas''); schema_count = DirectChildren src schemas_token;
          migrations_token = Member src index (bytes_of ''migrations''); migration_count = DirectChildren src migrations_token;
          lossy_token = Member src index (bytes_of ''lossy_changes''); lossy_count = DirectChildren src lossy_token in
      bind_sum (ensure ManifestUnknownField (ExactObject src index (map bytes_of [''schemas'', ''migrations'', ''lossy_changes'']))) (\<lambda>_.
      bind_sum (ensure ManifestWrongType (is_array src schemas_token)) (\<lambda>_.
      bind_sum (ensure UnsupportedConfiguration (schema_count = 6 \<and> schema_count \<le> kMaximumManifestSchemas)) (\<lambda>_.
      bind_sum (schema_loop src schemas_token [0..<schema_count] None []) (\<lambda>schemas.
      bind_sum (ensure ManifestWrongType (is_array src migrations_token)) (\<lambda>_.
      bind_sum (ensure ManifestLimitExceeded (migration_count \<le> kMaximumManifestMigrations)) (\<lambda>_.
      bind_sum (migration_loop src migrations_token [0..<migration_count] []) (\<lambda>migrations.
      bind_sum (ensure UnsupportedConfiguration (length schemas = kConfigMigrationAreaCount)) (\<lambda>_.
      bind_sum (case RegistryStatusToManifestStatus (ValidateConfigMigrationDeclarations schemas migrations) of
          None \<Rightarrow> Inr () | Some status \<Rightarrow> Inl status) (\<lambda>_.
      bind_sum (ensure ManifestWrongType (is_array src lossy_token)) (\<lambda>_.
      bind_sum (ensure ManifestLimitExceeded (lossy_count \<le> kConfigMigrationAreaCount \<and> lossy_count \<le> kMaximumManifestLossyChanges)) (\<lambda>_.
      bind_sum (lossy_loop src lossy_token [0..<lossy_count] None []) (\<lambda>changes.
      bind_sum (ensure UnsupportedConfiguration (changes_match migrations changes)) (\<lambda>_.
      Inr (manifest\<lparr>config_schemas := schemas, config_migrations := migrations, lossy_changes := changes\<rparr>)))))))))))))))"

section \<open>The inventory of an asset\<close>

text \<open>The loop over a sorted array of paths, which directories and deletions share.\<close>

primrec path_loop :: "manifest_source \<Rightarrow> nat option \<Rightarrow> nat list \<Rightarrow> path list \<Rightarrow> ManifestParseStatus + path list" where
  "path_loop src array [] paths = Inr paths"
| "path_loop src array (i # is) paths =
     bind_sum (need ManifestInvalidValue (CopyString src (DirectChild src array i) (kMaximumManifestPathBytes + 1))) (\<lambda>path.
     bind_sum (ensure ManifestInvalidValue (IsSafeManifestPath path \<and> (paths \<noteq> [] \<longrightarrow> bytes_less (last paths) path))) (\<lambda>_.
     path_loop src array is (paths @ [path])))"

definition ParseDirectories :: "manifest_source \<Rightarrow> nat option \<Rightarrow> bool \<Rightarrow> ManifestParseStatus + path list" where
  "ParseDirectories src index store =
     (let count = DirectChildren src index in
      bind_sum (ensure ManifestWrongType (is_array src index)) (\<lambda>_.
      bind_sum (ensure ManifestLimitExceeded (count \<le> kMaximumManifestDirectories)) (\<lambda>_.
      bind_sum (ensure ManifestStorageTooSmall (store \<longrightarrow> count \<le> directory_capacity (source_storage src))) (\<lambda>_.
      bind_sum (path_loop src index [0..<count] []) (\<lambda>paths.
      Inr (if store then paths else []))))))"

definition parse_policy :: "byte list \<Rightarrow> ManifestFilePolicy option" where
  "parse_policy s =
     (if s = bytes_of ''kernel'' then Some Kernel
      else if s = bytes_of ''managed-replace'' then Some ManagedReplace
      else if s = bytes_of ''config-template'' then Some ConfigTemplate
      else if s = bytes_of ''preserve'' then Some Preserve
      else if s = bytes_of ''metadata'' then Some Metadata
      else None)"

definition parse_compression :: "byte list \<Rightarrow> ManifestCompression option" where
  "parse_compression s =
     (if s = bytes_of ''store'' then Some ManifestStore
      else if s = bytes_of ''deflate'' then Some ManifestDeflate
      else None)"

definition ParseFile :: "manifest_source \<Rightarrow> nat option \<Rightarrow> path option \<Rightarrow> ManifestParseStatus + ManifestFile" where
  "ParseFile src entry previous =
     (let field = (\<lambda>name. Member src entry (bytes_of name)); bad = ManifestInvalidValue in
      bind_sum (ensure ManifestUnknownField
        (ExactObject src entry (map bytes_of [''path'', ''size'', ''sha256'', ''policy'', ''compression'']))) (\<lambda>_.
      bind_sum (need bad (CopyString src (field ''path'') (kMaximumManifestPathBytes + 1))) (\<lambda>path.
      bind_sum (ensure bad (IsSafeManifestPath path \<and> (previous \<noteq> None \<longrightarrow> bytes_less (the previous) path))) (\<lambda>_.
      bind_sum (need bad (Uint64 src (field ''size'') 0 kMaximumFileBytes)) (\<lambda>bytes.
      bind_sum (need bad (CopyString src (field ''sha256'') 65)) (\<lambda>sha.
      bind_sum (need bad (ParseSha256 sha)) (\<lambda>digest.
      bind_sum (need bad (CopyString src (field ''policy'') 32)) (\<lambda>policy_text.
      bind_sum (need bad (CopyString src (field ''compression'') 16)) (\<lambda>compression_text.
      bind_sum (need bad (parse_policy policy_text)) (\<lambda>pol.
      bind_sum (need bad (parse_compression compression_text)) (\<lambda>comp.
      Inr \<lparr>file_path = path, file_size = bytes, file_sha256 = digest, policy = pol, file_compression = comp\<rparr>)))))))))))"

text \<open>The running values of the loop over the files.\<close>

record file_scan =
  scanned_files :: "ManifestFile list"
  scanned_size :: u64
  required_machine_kernels :: u16
  machine_kernel_base :: "byte list"
  required_config :: bool
  has_tryboot :: bool
  required_active_selector :: bool
  has_candidate_selector :: bool

definition new_scan :: file_scan where
  "new_scan = \<lparr>scanned_files = [], scanned_size = 0, required_machine_kernels = 0, machine_kernel_base = [],
     required_config = False, has_tryboot = False, required_active_selector = False, has_candidate_selector = False\<rparr>"

text \<open>The kernels a release is made of; the file is not a kernel, or its machine was not seen before.\<close>

definition scan_kernel :: "ManifestFile \<Rightarrow> file_scan \<Rightarrow> ManifestParseStatus + file_scan" where
  "scan_kernel file s =
     (if policy file \<noteq> Kernel then Inr s
      else case ParseMachineKernelPath (file_path file) (machine_kernel_base s) (kMaximumManifestPathBytes + 1) of
        None \<Rightarrow> Inl InventoryMismatch
      | Some (base, machine_bit) \<Rightarrow>
          if machine_bit \<noteq> 0 \<and> required_machine_kernels s AND machine_bit \<noteq> 0 then Inl InventoryMismatch
          else Inr (s\<lparr>machine_kernel_base := base,
            required_machine_kernels := required_machine_kernels s OR machine_bit\<rparr>))"

definition scan_file :: "ManifestFile \<Rightarrow> file_scan \<Rightarrow> ManifestParseStatus + file_scan" where
  "scan_file file s =
     bind_sum (ensure ManifestLimitExceeded (scanned_size s \<le> kMaximumAssetBytes - file_size file)) (\<lambda>_.
     bind_sum (scan_kernel file (s\<lparr>scanned_size := scanned_size s + file_size file\<rparr>)) (\<lambda>s.
     Inr (s\<lparr>required_config := required_config s \<or> file_path file = bytes_of ''config.txt'',
       has_tryboot := has_tryboot s \<or> file_path file = bytes_of ''tryboot.txt'',
       required_active_selector := required_active_selector s \<or> file_path file = bytes_of ''bmx-active-kernel.txt'',
       has_candidate_selector := has_candidate_selector s \<or> file_path file = bytes_of ''bmx-tryboot-kernel.txt'',
       scanned_files := scanned_files s @ [file]\<rparr>)))"

primrec file_loop :: "manifest_source \<Rightarrow> nat option \<Rightarrow> nat list \<Rightarrow> file_scan \<Rightarrow> ManifestParseStatus + file_scan" where
  "file_loop src array [] s = Inr s"
| "file_loop src array (i # is) s =
     bind_sum (ParseFile src (DirectChild src array i)
       (if scanned_files s = [] then None else Some (file_path (last (scanned_files s))))) (\<lambda>file.
     bind_sum (scan_file file s) (\<lambda>s.
     file_loop src array is s))"

definition ParseFiles :: "manifest_source \<Rightarrow> nat option \<Rightarrow> bool \<Rightarrow> u64 \<Rightarrow> ManifestParseStatus + ManifestFile list" where
  "ParseFiles src index store asset_installed_size =
     (let count = DirectChildren src index in
      bind_sum (ensure ManifestWrongType (is_array src index)) (\<lambda>_.
      bind_sum (ensure ManifestLimitExceeded (count \<noteq> 0 \<and> count \<le> kMaximumManifestFiles)) (\<lambda>_.
      bind_sum (ensure ManifestStorageTooSmall (store \<longrightarrow> count \<le> file_capacity (source_storage src))) (\<lambda>_.
      bind_sum (file_loop src index [0..<count] new_scan) (\<lambda>s.
      bind_sum (ensure InventoryMismatch (required_machine_kernels s = kRequiredKernelMachineMask \<and> required_config s \<and>
        required_active_selector s \<and> has_tryboot s = has_candidate_selector s \<and> scanned_size s = asset_installed_size)) (\<lambda>_.
      Inr (if store then scanned_files s else [])))))))"

definition ParseDeletions :: "manifest_source \<Rightarrow> nat option \<Rightarrow> bool \<Rightarrow> u32 \<Rightarrow> ManifestParseStatus + path list" where
  "ParseDeletions src index store version =
     (if version < 3 then Inr []
      else
        let count = DirectChildren src index in
        bind_sum (ensure ManifestWrongType (is_array src index)) (\<lambda>_.
        bind_sum (ensure ManifestLimitExceeded (count \<le> kMaximumManifestDeletions)) (\<lambda>_.
        bind_sum (ensure ManifestStorageTooSmall (store \<longrightarrow> count \<le> deletion_capacity (source_storage src))) (\<lambda>_.
        bind_sum (path_loop src index [0..<count] []) (\<lambda>paths.
        Inr (if store then paths else []))))))"

definition replacement_exists :: "ManifestFile list \<Rightarrow> path \<Rightarrow> bool" where
  "replacement_exists fls path = list_ex (\<lambda>file. file_path file = path \<and> (policy file = Kernel \<or> policy file = ManagedReplace)) fls"

primrec replacement_loop ::
  "manifest_source \<Rightarrow> nat option \<Rightarrow> bool \<Rightarrow> ManifestFile list \<Rightarrow> nat list \<Rightarrow> ManifestReplacement list \<Rightarrow>
   ManifestParseStatus + ManifestReplacement list" where
  "replacement_loop src array store fls [] outputs = Inr outputs"
| "replacement_loop src array store fls (i # is) outputs =
     (let entry = DirectChild src array i; bad = ManifestInvalidValue in
      bind_sum (ensure bad (ExactObject src entry (map bytes_of [''path'', ''replaced_by'']))) (\<lambda>_.
      bind_sum (need bad (CopyString src (Member src entry (bytes_of ''path'')) (kMaximumManifestPathBytes + 1))) (\<lambda>path.
      bind_sum (need bad (CopyString src (Member src entry (bytes_of ''replaced_by'')) (kMaximumManifestPathBytes + 1))) (\<lambda>by.
      bind_sum (ensure bad (IsSafeManifestPath path \<and> IsSafeManifestPath by \<and> path \<noteq> by \<and>
        (outputs \<noteq> [] \<longrightarrow> bytes_less (replaced_path (last outputs)) path))) (\<lambda>_.
      bind_sum (ensure InventoryMismatch (store \<longrightarrow> replacement_exists fls by)) (\<lambda>_.
      replacement_loop src array store fls is (outputs @ [\<lparr>replaced_path = path, replaced_by = by\<rparr>])))))))"

definition ParseReplacements ::
  "manifest_source \<Rightarrow> nat option \<Rightarrow> bool \<Rightarrow> u32 \<Rightarrow> ManifestFile list \<Rightarrow> ManifestParseStatus + ManifestReplacement list" where
  "ParseReplacements src index store version fls =
     (if version < 3 then Inr []
      else
        let count = DirectChildren src index in
        bind_sum (ensure ManifestWrongType (is_array src index)) (\<lambda>_.
        bind_sum (ensure ManifestLimitExceeded (count \<le> kMaximumManifestReplacements)) (\<lambda>_.
        bind_sum (ensure ManifestStorageTooSmall (store \<longrightarrow> count \<le> replacement_capacity (source_storage src))) (\<lambda>_.
        bind_sum (replacement_loop src index store fls [0..<count] []) (\<lambda>outputs.
        Inr (if store then outputs else []))))))"

section \<open>The assets\<close>

definition kV2Fields :: "byte list list" where
  "kV2Fields = map bytes_of
     [''board_family'', ''supported_models'', ''filename'', ''download_size'', ''sha256'', ''installed_size'',
      ''required_peak_bytes'', ''zip_profile'', ''directories'', ''files'']"

definition kV3Fields :: "byte list list" where
  "kV3Fields = kV2Fields @ map bytes_of [''configuration_reset_required'', ''deletions'', ''replacements'']"

definition parse_board :: "byte list \<Rightarrow> BoardFamily option" where
  "parse_board s = (if s = bytes_of ''pi4'' then Some Pi4Pi400 else if s = bytes_of ''pi5'' then Some Pi5Pi500 else None)"

definition model_names :: "BoardFamily \<Rightarrow> byte list \<times> byte list" where
  "model_names board =
     (if board = Pi4Pi400 then (bytes_of ''Raspberry Pi 4'', bytes_of ''Raspberry Pi 400'')
      else (bytes_of ''Raspberry Pi 5'', bytes_of ''Raspberry Pi 500''))"

definition expected_filename :: "byte list \<Rightarrow> BoardFamily \<Rightarrow> byte list" where
  "expected_filename version board =
     bytes_of ''bmx-'' @ version @ bytes_of ''-'' @
     (if board = Pi4Pi400 then bytes_of ''pi4-pi400'' else bytes_of ''pi5-pi500'') @ bytes_of ''-boot.zip''"

definition ParseAsset :: "manifest_source \<Rightarrow> ReleaseManifest \<Rightarrow> nat option \<Rightarrow> bool \<Rightarrow> ManifestParseStatus + BoardAsset" where
  "ParseAsset src manifest index store =
     (let field = (\<lambda>name. Member src index (bytes_of name)); bad = ManifestInvalidValue; version = manifest_version manifest in
      bind_sum (ensure ManifestUnknownField (ExactObject src index (if version \<ge> 3 then kV3Fields else kV2Fields))) (\<lambda>_.
      bind_sum (need bad (CopyString src (field ''board_family'') 8)) (\<lambda>board_text.
      bind_sum (need bad (parse_board board_text)) (\<lambda>board.
      let models = field ''supported_models'' in
      bind_sum (ensure bad (is_array src models \<and> DirectChildren src models = 2)) (\<lambda>_.
      bind_sum (need bad (CopyString src (DirectChild src models 0) 32)) (\<lambda>first_model.
      bind_sum (need bad (CopyString src (DirectChild src models 1) 32)) (\<lambda>second_model.
      bind_sum (ensure bad ((first_model, second_model) = model_names board)) (\<lambda>_.
      bind_sum (need bad (CopyString src (field ''filename'') 161)) (\<lambda>filename.
      bind_sum (need bad (Uint64 src (field ''download_size'') 1 kMaximumAssetBytes)) (\<lambda>download.
      bind_sum (need bad (CopyString src (field ''sha256'') 65)) (\<lambda>sha.
      bind_sum (need bad (ParseSha256 sha)) (\<lambda>digest.
      bind_sum (need bad (Uint64 src (field ''installed_size'') 1 kMaximumAssetBytes)) (\<lambda>installed.
      bind_sum (need bad (Uint64 src (field ''required_peak_bytes'') 1 int64_max)) (\<lambda>peak.
      bind_sum (need bad (CopyString src (field ''zip_profile'') 32)) (\<lambda>zip_profile.
      bind_sum (ensure bad (zip_profile = bytes_of ''bmx-zip32-v1'')) (\<lambda>_.
      bind_sum (ensure bad (length (expected_filename (release_version manifest) board) < 161 \<and>
        filename = expected_filename (release_version manifest) board)) (\<lambda>_.
      bind_sum (ensure bad (download \<le> - 1 - installed \<and> download + installed \<le> - 1 - kSafetyReserveBytes \<and>
        download + installed + kSafetyReserveBytes \<le> peak)) (\<lambda>_.
      bind_sum (ParseDirectories src (field ''directories'') store) (\<lambda>dirs.
      bind_sum (ParseFiles src (field ''files'') store installed) (\<lambda>fls.
      bind_sum (if version \<ge> 3 then need ManifestWrongType (GetBool src (field ''configuration_reset_required'')) else Inr False) (\<lambda>reset.
      bind_sum (ParseDeletions src (field ''deletions'') store version) (\<lambda>dels.
      bind_sum (ParseReplacements src (field ''replacements'') store version fls) (\<lambda>reps.
      Inr \<lparr>asset_board = board, asset_filename = filename, download_size = download, asset_sha256 = digest,
        installed_size = installed, required_peak_bytes = peak,
        inventory = \<lparr>files = fls, directories = dirs, deletions = dels, replacements = reps,
          configuration_reset_required = reset\<rparr>\<rparr>)))))))))))))))))))))))"

definition board_number :: "BoardFamily \<Rightarrow> nat" where
  "board_number board = (case board of UnknownBoard \<Rightarrow> 0 | Pi4Pi400 \<Rightarrow> 1 | Pi5Pi500 \<Rightarrow> 2)"

text \<open>The loop over the assets: the last board, the boards seen, and the asset of the target once found.\<close>

primrec board_loop ::
  "manifest_source \<Rightarrow> ReleaseManifest \<Rightarrow> nat option \<Rightarrow> nat list \<Rightarrow> BoardFamily \<Rightarrow> BoardFamily set \<Rightarrow> BoardAsset option \<Rightarrow>
   ManifestParseStatus + BoardFamily set \<times> BoardAsset option" where
  "board_loop src manifest array [] previous boards found = Inr (boards, found)"
| "board_loop src manifest array (i # is) previous boards found =
     (let asset_index = DirectChild src array i in
      bind_sum (ParseAsset src manifest asset_index False) (\<lambda>parsed.
      bind_sum (ensure DuplicateAsset (previous = UnknownBoard \<or> board_number previous < board_number (asset_board parsed))) (\<lambda>_.
      let boards = insert (asset_board parsed) boards in
      if asset_board parsed = target_board src then
        (if found \<noteq> None then Inl DuplicateAsset
         else bind_sum (ParseAsset src manifest asset_index True) (\<lambda>asset.
           board_loop src manifest array is (asset_board parsed) boards (Some asset)))
      else board_loop src manifest array is (asset_board parsed) boards found)))"

primrec case_pairs :: "path list \<Rightarrow> bool" where
  "case_pairs [] = False"
| "case_pairs (p # ps) = (list_ex (AsciiCaseEqual p) ps \<or> case_pairs ps)"

definition case_meets :: "path list \<Rightarrow> path list \<Rightarrow> bool" where
  "case_meets ps qs = list_ex (\<lambda>p. list_ex (AsciiCaseEqual p) qs) ps"

definition inventory_collides :: "ManifestAsset \<Rightarrow> bool" where
  "inventory_collides asset =
     (let fls = map file_path (files asset); reps = map replaced_path (replacements asset) in
      case_pairs fls \<or> case_meets fls (directories asset) \<or> case_pairs (directories asset) \<or>
      case_meets (deletions asset) fls \<or> case_pairs (deletions asset) \<or>
      case_meets reps fls \<or> case_meets reps (deletions asset) \<or> case_pairs reps)"

definition ParseAssets :: "manifest_source \<Rightarrow> nat option \<Rightarrow> ReleaseManifest \<Rightarrow> ManifestParseStatus + ReleaseManifest" where
  "ParseAssets src index manifest =
     (let count = DirectChildren src index in
      bind_sum (ensure ManifestWrongType (is_array src index)) (\<lambda>_.
      bind_sum (ensure ManifestLimitExceeded (count = 2)) (\<lambda>_.
      bind_sum (board_loop src manifest index [0..<count] UnknownBoard {} None) (\<lambda>(boards, found).
      bind_sum (ensure DuplicateAsset (Pi4Pi400 \<in> boards \<and> Pi5Pi500 \<in> boards)) (\<lambda>_.
      bind_sum (need TargetAssetMissing found) (\<lambda>asset.
      bind_sum (ensure InventoryMismatch (\<not> inventory_collides (inventory asset))) (\<lambda>_.
      Inr (manifest\<lparr>manifest_asset := asset\<rparr>))))))))"

definition ParseManifest :: "manifest_source \<Rightarrow> ReleaseManifest \<Rightarrow> ManifestParseStatus + ReleaseManifest" where
  "ParseManifest src manifest =
     bind_sum (ensure ManifestWrongType
       (source_tokens src \<noteq> [] \<and> token_type (source_tokens src ! 0) = JSON_TOKEN_OBJECT)) (\<lambda>_.
     bind_sum (ensure ManifestUnknownField
       (ExactObject src (Some 0) (map bytes_of [''manifest_version'', ''release'', ''configuration'', ''assets'']))) (\<lambda>_.
     bind_sum (need ManifestUnsupportedVersion (Uint32 src (Member src (Some 0) (bytes_of ''manifest_version'')) 2 3)) (\<lambda>version.
     bind_sum (ParseRelease src (Member src (Some 0) (bytes_of ''release'')) (manifest\<lparr>manifest_version := version\<rparr>)) (\<lambda>manifest.
     bind_sum (ParseConfiguration src (Member src (Some 0) (bytes_of ''configuration'')) manifest) (\<lambda>manifest.
     ParseAssets src (Member src (Some 0) (bytes_of ''assets'')) manifest)))))"

definition zero_asset :: BoardAsset where
  "zero_asset = \<lparr>asset_board = UnknownBoard, asset_filename = [], download_size = 0, asset_sha256 = replicate 32 0,
     installed_size = 0, required_peak_bytes = 0,
     inventory = \<lparr>files = [], directories = [], deletions = [], replacements = [], configuration_reset_required = False\<rparr>\<rparr>"

definition zero_manifest :: ReleaseManifest where
  "zero_manifest = \<lparr>manifest_version = 0, release_version = [], release_tag = [], source_commit = [], release_sequence = 0,
     release_epoch = 0, release_minimum_abi = 0, release_maximum_abi = 0, signing_key_ids = [], config_schemas = [],
     config_migrations = [], lossy_changes = [], manifest_asset = zero_asset\<rparr>"

text \<open>A storage without an array is given as \<open>None\<close>; the result carries that of the JSON parser.\<close>

definition ParseReleaseManifest ::
  "byte list option \<Rightarrow> BoardFamily \<Rightarrow> ManifestParseStorage option \<Rightarrow> bool \<Rightarrow> JsonParseResult option \<Rightarrow>
   (ManifestParseStatus + ReleaseManifest) \<times> JsonParseResult option" where
  "ParseReleaseManifest encoded board storage_option manifest_given json_result =
     (case (encoded, storage_option, json_result) of
        (Some text, Some storage, Some _) \<Rightarrow>
          if \<not> manifest_given \<or> manifest_tokens storage = 0 \<or> file_capacity storage = 0 \<or> directory_capacity storage = 0 \<or>
             deletion_capacity storage = 0 \<or> replacement_capacity storage = 0 \<or> \<not> IsKnownBoardFamily board
          then (Inl ManifestInvalidArgument, json_result)
          else if length text < 3 \<or> length text > kMaximumReleaseManifestBytes \<or> text ! 0 \<noteq> ch CHR ''{'' \<or>
             text ! (length text - 1) \<noteq> 10 \<or> text ! (length text - 2) \<noteq> ch CHR ''}''
          then (Inl ManifestInvalidSize, json_result)
          else if 13 \<in> set text then (Inl ManifestJsonInvalid, json_result)
          else (case ParseJson (Some text) True (manifest_tokens storage) 32 of (parsed, tokens) \<Rightarrow>
            if result_error parsed \<noteq> JSON_OK
            then (Inl (if result_error parsed = JSON_ERROR_TOKEN_LIMIT then ManifestStorageTooSmall else ManifestJsonInvalid), Some parsed)
            else (ParseManifest \<lparr>source_text = text, source_tokens = take (token_count parsed) tokens, target_board = board,
              source_storage = storage\<rparr> zero_manifest, Some parsed))
      | _ \<Rightarrow> (Inl ManifestInvalidArgument, json_result))"

end
