(* ===== verification/Manifest_Safety.thy ===== *)
theory Manifest_Safety
  imports Release_Manifest Installer_Volume
begin

text \<open>
  What a release manifest that the parser accepted is known to satisfy, and what is then left for the
  installer to refuse.
\<close>

section \<open>Names that differ only in case\<close>

lemma AsciiCaseEqual_iff: "AsciiCaseEqual p q \<longleftrightarrow> FatPathEqual p q"
proof (induction p arbitrary: q)
  case Nil
  then show ?case by (cases q) simp_all
next
  case (Cons a p)
  then show ?case by (cases q) auto
qed

lemma case_meets_iff: "case_meets ps qs \<longleftrightarrow> (\<exists>p \<in> set ps. \<exists>q \<in> set qs. FatPathEqual p q)"
  by (auto simp: case_meets_def list_ex_iff AsciiCaseEqual_iff)

lemma case_pairs_iff: "\<not> case_pairs ps \<longleftrightarrow> sorted_wrt (\<lambda>p q. \<not> FatPathEqual p q) ps"
  by (induction ps) (auto simp: list_ex_iff AsciiCaseEqual_iff)

section \<open>Kernels\<close>

lemma last_dot_split:
  assumes "last_dot s = Some n"
  shows "n < length s" and "s = take n s @ ch CHR ''.'' # drop (Suc n) s"
proof -
  obtain i where i: "index_of (\<lambda>c. c = ch CHR ''.'') (rev s) = Some i" "n = length s - 1 - i"
    using assms by (auto simp: last_dot_def)
  then have "i < length s" "s ! n = ch CHR ''.''" using index_of_SomeD [OF i(1)] by (simp_all add: rev_nth)
  then show "n < length s" using i(2) by simp
  then show "s = take n s @ ch CHR ''.'' # drop (Suc n) s" using \<open>s ! n = _\<close> id_take_nth_drop [of n s] by simp
qed

lemma machine_kernel_path:
  assumes "ParseMachineKernelPath path base base_bytes = Some (base', machine_bit)"
  obtains k where "k < length kMachineKernelMachines" "path = base' @ ch CHR ''.'' # kMachineKernelMachines ! k"
    "base' \<noteq> []" "base \<noteq> [] \<longrightarrow> base' = base"
    "machine_bit = (if k < kRequiredKernelMachineCount then push_bit k 1 else 0)"
proof -
  obtain n where dot: "last_dot path = Some n"
    using assms by (cases "last_dot path") (simp_all add: ParseMachineKernelPath_def split: if_split_asm)
  obtain bit where "ParseMachineKernelSuffix (drop (Suc n) path) = Some bit"
    using assms by (cases "ParseMachineKernelSuffix (drop (Suc n) path)")
      (simp_all add: ParseMachineKernelPath_def dot split: if_split_asm)
  then have n: "n \<noteq> 0" "base' = take n path" "base \<noteq> [] \<longrightarrow> base' = base"
    and bit: "ParseMachineKernelSuffix (drop (Suc n) path) = Some machine_bit"
    using assms by (simp_all add: ParseMachineKernelPath_def dot split: if_split_asm)
  obtain k where k: "index_of (\<lambda>m. m = drop (Suc n) path) kMachineKernelMachines = Some k"
    "machine_bit = (if k < kRequiredKernelMachineCount then push_bit k 1 else 0)"
    using bit by (auto simp: ParseMachineKernelSuffix_def split: if_split_asm option.splits)
  show thesis
    using that [of k] index_of_SomeD [OF k(1)] last_dot_split [OF dot] n k(2) by auto
qed

section \<open>Files\<close>

definition kernel_of :: "byte list \<Rightarrow> nat \<Rightarrow> ManifestFile \<Rightarrow> bool" where
  "kernel_of base k f \<longleftrightarrow> policy f = Kernel \<and> file_path f = base @ ch CHR ''.'' # kMachineKernelMachines ! k"

definition total_size :: "ManifestFile list \<Rightarrow> nat" where
  "total_size fls = sum_list (map (\<lambda>f. unat (file_size f)) fls)"

definition file_ok :: "ManifestFile \<Rightarrow> bool" where
  "file_ok f \<longleftrightarrow> IsSafeManifestPath (file_path f) \<and> file_size f \<le> kMaximumFileBytes \<and> length (file_sha256 f) = 32"

definition has_file :: "string \<Rightarrow> ManifestFile list \<Rightarrow> bool" where
  "has_file name fls \<longleftrightarrow> (\<exists>f \<in> set fls. file_path f = bytes_of name)"

definition scan_ok :: "file_scan \<Rightarrow> bool" where
  "scan_ok s \<longleftrightarrow>
     sorted_wrt bytes_less (map file_path (scanned_files s)) \<and> list_all file_ok (scanned_files s) \<and>
     unat (scanned_size s) = total_size (scanned_files s) \<and> scanned_size s \<le> kMaximumAssetBytes \<and>
     (\<forall>f \<in> set (scanned_files s). policy f = Kernel \<longrightarrow> (\<exists>k < length kMachineKernelMachines. kernel_of (machine_kernel_base s) k f)) \<and>
     (machine_kernel_base s = [] \<longrightarrow> (\<forall>f \<in> set (scanned_files s). policy f \<noteq> Kernel)) \<and>
     (\<forall>k < kRequiredKernelMachineCount. bit (required_machine_kernels s) k \<longrightarrow>
        (\<exists>f \<in> set (scanned_files s). kernel_of (machine_kernel_base s) k f)) \<and>
     (required_config s \<longleftrightarrow> has_file ''config.txt'' (scanned_files s)) \<and>
     (has_tryboot s \<longleftrightarrow> has_file ''tryboot.txt'' (scanned_files s)) \<and>
     (required_active_selector s \<longleftrightarrow> has_file ''bmx-active-kernel.txt'' (scanned_files s)) \<and>
     (has_candidate_selector s \<longleftrightarrow> has_file ''bmx-tryboot-kernel.txt'' (scanned_files s))"

lemma hex_pairs_length: "hex_pairs s = Some d \<Longrightarrow> even (length s) \<Longrightarrow> length d = length s div 2"
  by (induction s arbitrary: d rule: hex_pairs.induct) (auto split: if_split_asm)

lemma ParseSha256_length: "ParseSha256 s = Some d \<Longrightarrow> length d = 32"
  using hex_pairs_length [of s d] by (auto simp: ParseSha256_def split: if_split_asm)

lemma Uint64_range: "Uint64 src token lo hi = Some v \<Longrightarrow> lo \<le> v \<and> v \<le> hi"
  by (auto simp: Uint64_def not_less split: option.splits if_split_asm sum.splits)

lemma Uint32_positive: "Uint32 src token 1 int32_max = Some v \<Longrightarrow> 1 \<le> v"
proof -
  assume "Uint32 src token 1 int32_max = Some v"
  then obtain w where w: "Uint64 src token 1 int32_max = Some w" "v = ucast w" by (auto simp: Uint32_def)
  then show "1 \<le> v" using Uint64_range [OF w(1)]
    by (simp add: int32_max_def word_le_nat_alt unsigned_ucast_eq take_bit_nat_eq_self)
qed

lemma ParseFile_ok:
  assumes "ParseFile src entry previous = Inr f"
  shows "file_ok f" and "previous = Some p \<Longrightarrow> bytes_less p (file_path f)"
  using assms by (auto simp: ParseFile_def Let_def file_ok_def dest: ParseSha256_length Uint64_range)

lemma has_file_snoc [simp]: "has_file name (fls @ [f]) \<longleftrightarrow> has_file name fls \<or> file_path f = bytes_of name"
  by (auto simp: has_file_def)

lemma total_size_snoc [simp]: "total_size (fls @ [f]) = total_size fls + unat (file_size f)"
  by (simp add: total_size_def)

lemma size_step:
  assumes "a \<le> kMaximumAssetBytes - b" and "b \<le> kMaximumFileBytes"
  shows "a + b \<le> kMaximumAssetBytes" and "unat (a + b) = unat a + unat b"
proof -
  have "unat b \<le> 2 ^ 27" using assms(2) by (simp add: kMaximumFileBytes_def word_le_nat_alt)
  moreover have "unat (kMaximumAssetBytes - b) = 2 ^ 29 - unat b"
    using assms(2) by (subst unat_sub) (simp_all add: kMaximumFileBytes_def kMaximumAssetBytes_def word_le_nat_alt)
  ultimately have le: "unat a + unat b \<le> 2 ^ 29" using assms(1) by (simp add: word_le_nat_alt)
  then show sum: "unat (a + b) = unat a + unat b" by (simp add: unat_word_ariths)
  show "a + b \<le> kMaximumAssetBytes" using le by (simp add: word_le_nat_alt sum kMaximumAssetBytes_def)
qed

lemma scan_kernel_same:
  assumes "scan_kernel f s = Inr s'"
  shows "scanned_files s' = scanned_files s" "scanned_size s' = scanned_size s" "required_config s' = required_config s"
    "has_tryboot s' = has_tryboot s" "required_active_selector s' = required_active_selector s"
    "has_candidate_selector s' = has_candidate_selector s"
  using assms by (auto simp: scan_kernel_def split: if_split_asm option.splits)

lemma kernel_of_base: "kernel_of base k f \<Longrightarrow> policy f = Kernel"
  by (simp add: kernel_of_def)

lemma scan_kernel_bits:
  assumes "scan_kernel f s = Inr s'"
    and "\<forall>g \<in> set fls. policy g = Kernel \<longrightarrow> (\<exists>k < length kMachineKernelMachines. kernel_of (machine_kernel_base s) k g)"
    and "machine_kernel_base s = [] \<longrightarrow> (\<forall>g \<in> set fls. policy g \<noteq> Kernel)"
    and "\<forall>k < kRequiredKernelMachineCount. bit (required_machine_kernels s) k \<longrightarrow> (\<exists>g \<in> set fls. kernel_of (machine_kernel_base s) k g)"
  shows "\<forall>g \<in> set (fls @ [f]). policy g = Kernel \<longrightarrow> (\<exists>k < length kMachineKernelMachines. kernel_of (machine_kernel_base s') k g)"
    and "machine_kernel_base s' = [] \<longrightarrow> (\<forall>g \<in> set (fls @ [f]). policy g \<noteq> Kernel)"
    and "\<forall>k < kRequiredKernelMachineCount. bit (required_machine_kernels s') k \<longrightarrow>
      (\<exists>g \<in> set (fls @ [f]). kernel_of (machine_kernel_base s') k g)"
proof -
  have "(\<forall>g \<in> set (fls @ [f]). policy g = Kernel \<longrightarrow> (\<exists>k < length kMachineKernelMachines. kernel_of (machine_kernel_base s') k g)) \<and>
    (machine_kernel_base s' = [] \<longrightarrow> (\<forall>g \<in> set (fls @ [f]). policy g \<noteq> Kernel)) \<and>
    (\<forall>k < kRequiredKernelMachineCount. bit (required_machine_kernels s') k \<longrightarrow>
      (\<exists>g \<in> set (fls @ [f]). kernel_of (machine_kernel_base s') k g))"
  proof (cases "policy f = Kernel")
    case True
    then obtain base b where p: "ParseMachineKernelPath (file_path f) (machine_kernel_base s) (kMaximumManifestPathBytes + 1) = Some (base, b)"
      and s': "machine_kernel_base s' = base" "required_machine_kernels s' = required_machine_kernels s OR b"
      using assms(1) by (auto simp: scan_kernel_def split: if_split_asm option.splits)
    obtain k where k: "k < length kMachineKernelMachines" "kernel_of base k f" "base \<noteq> []"
      "machine_kernel_base s \<noteq> [] \<longrightarrow> base = machine_kernel_base s" "b = (if k < kRequiredKernelMachineCount then push_bit k 1 else 0)"
      using machine_kernel_path [OF p] True unfolding kernel_of_def by metis
    have old: "\<exists>j < length kMachineKernelMachines. kernel_of base j g" if "g \<in> set fls" "policy g = Kernel" for g
      using that assms(2,3) k(4) by auto
    have bits: "j = k" if "bit b j" for j using that k(5) by (auto simp: bit_exp_iff split: if_split_asm)
    have olds: "\<exists>g \<in> set fls. kernel_of base j g"
      if j: "j < kRequiredKernelMachineCount" "bit (required_machine_kernels s) j" for j
    proof -
      obtain g where g: "g \<in> set fls" "kernel_of (machine_kernel_base s) j g" using j assms(4) by blast
      then have "machine_kernel_base s \<noteq> []" using assms(3) kernel_of_base by blast
      then show ?thesis using g k(4) by auto
    qed
    have "\<exists>g \<in> set (fls @ [f]). kernel_of base j g" if "j < kRequiredKernelMachineCount" "bit (required_machine_kernels s') j" for j
    proof (cases "bit b j")
      case True
      then show ?thesis using bits k(2) by auto
    next
      case False
      then show ?thesis using that olds s'(2) by (auto simp: bit_or_iff)
    qed
    then show ?thesis using k(1,2,3) old s'(1) by auto
  next
    case False
    then have "s' = s" using assms(1) by (simp add: scan_kernel_def)
    then show ?thesis using assms(2-4) False by auto
  qed
  then show "\<forall>g \<in> set (fls @ [f]). policy g = Kernel \<longrightarrow> (\<exists>k < length kMachineKernelMachines. kernel_of (machine_kernel_base s') k g)"
    and "machine_kernel_base s' = [] \<longrightarrow> (\<forall>g \<in> set (fls @ [f]). policy g \<noteq> Kernel)"
    and "\<forall>k < kRequiredKernelMachineCount. bit (required_machine_kernels s') k \<longrightarrow>
      (\<exists>g \<in> set (fls @ [f]). kernel_of (machine_kernel_base s') k g)" by blast+
qed

lemma sorted_snoc:
  "sorted_wrt bytes_less ps \<Longrightarrow> ps \<noteq> [] \<longrightarrow> bytes_less (last ps) p \<Longrightarrow> sorted_wrt bytes_less (ps @ [p])"
proof (induction ps rule: rev_induct)
  case (snoc q ps)
  from snoc.prems have q: "bytes_less q p" "\<forall>x \<in> set ps. bytes_less x q" by (simp_all add: sorted_wrt_append)
  then have "\<forall>x \<in> set ps. bytes_less x p" using bytes_less_trans by blast
  with snoc.prems(1) q(1) show ?case by (simp add: sorted_wrt_append)
qed simp

lemma scan_file_ok:
  assumes "scan_file f s = Inr s'" and "scan_ok s" and "file_ok f"
    and "scanned_files s \<noteq> [] \<longrightarrow> bytes_less (file_path (last (scanned_files s))) (file_path f)"
  shows "scan_ok s'"
proof -
  let ?s = "s\<lparr>scanned_size := scanned_size s + file_size f\<rparr>"
  obtain t where t: "scan_kernel f ?s = Inr t" and le: "scanned_size s \<le> kMaximumAssetBytes - file_size f"
    and s': "s' = t\<lparr>required_config := required_config t \<or> file_path f = bytes_of ''config.txt'',
       has_tryboot := has_tryboot t \<or> file_path f = bytes_of ''tryboot.txt'',
       required_active_selector := required_active_selector t \<or> file_path f = bytes_of ''bmx-active-kernel.txt'',
       has_candidate_selector := has_candidate_selector t \<or> file_path f = bytes_of ''bmx-tryboot-kernel.txt'',
       scanned_files := scanned_files t @ [f]\<rparr>"
    using assms(1) unfolding scan_file_def bind_sum_Inr ensure_Inr sum.inject by blast
  note same = scan_kernel_same [OF t]
  note kernels = scan_kernel_bits [OF t, of "scanned_files s"]
  have sorted: "sorted_wrt bytes_less (map file_path (scanned_files s) @ [file_path f])"
    using assms(2,4) by (intro sorted_snoc) (simp_all add: scan_ok_def last_map)
  have "file_size f \<le> kMaximumFileBytes" using assms(3) by (simp add: file_ok_def)
  note sizes = size_step [OF le this]
  show ?thesis
    using assms(2,3) sorted sizes same kernels unfolding scan_ok_def s' by (simp del: set_append bytes_of_Cons)
qed

lemma file_loop_ok: "file_loop src array is s = Inr s' \<Longrightarrow> scan_ok s \<Longrightarrow> scan_ok s'"
proof (induction "is" arbitrary: s)
  case (Cons i "is")
  from Cons.prems(1) obtain f t where f: "ParseFile src (DirectChild src array i)
      (if scanned_files s = [] then None else Some (file_path (last (scanned_files s)))) = Inr f"
    "scan_file f s = Inr t" "file_loop src array is t = Inr s'"
    unfolding file_loop.simps bind_sum_Inr by blast
  have "scanned_files s \<noteq> [] \<longrightarrow> bytes_less (file_path (last (scanned_files s))) (file_path f)"
    using ParseFile_ok(2) [OF f(1), of "file_path (last (scanned_files s))"] by simp
  then have "scan_ok t" by (rule scan_file_ok [OF f(2) Cons.prems(2) ParseFile_ok(1) [OF f(1)]])
  with f(3) show ?case by (rule Cons.IH)
qed simp

lemma scan_ok_new: "scan_ok new_scan"
  by (simp add: scan_ok_def new_scan_def total_size_def has_file_def)

section \<open>Paths and replacements\<close>

definition paths_ok :: "path list \<Rightarrow> bool" where
  "paths_ok ps \<longleftrightarrow> sorted_wrt bytes_less ps \<and> list_all IsSafeManifestPath ps"

lemma path_loop_ok: "path_loop src array is ps = Inr qs \<Longrightarrow> paths_ok ps \<Longrightarrow> paths_ok qs"
proof (induction "is" arbitrary: ps)
  case (Cons i "is")
  from Cons.prems(1) obtain p where p: "IsSafeManifestPath p" "ps \<noteq> [] \<longrightarrow> bytes_less (last ps) p"
    "path_loop src array is (ps @ [p]) = Inr qs" by auto
  have "paths_ok (ps @ [p])" using Cons.prems(2) p(1,2) sorted_snoc [of ps p] by (simp add: paths_ok_def)
  with p(3) show ?case by (rule Cons.IH)
qed simp

lemma ParseDirectories_ok: "ParseDirectories src index store = Inr ps \<Longrightarrow> paths_ok ps"
  by (auto simp: ParseDirectories_def Let_def paths_ok_def dest!: path_loop_ok split: if_split_asm)

lemma ParseDeletions_ok: "ParseDeletions src index store version = Inr ps \<Longrightarrow> paths_ok ps"
  by (auto simp: ParseDeletions_def Let_def paths_ok_def dest!: path_loop_ok split: if_split_asm)

definition replacements_ok :: "ManifestFile list \<Rightarrow> ManifestReplacement list \<Rightarrow> bool" where
  "replacements_ok fls rs \<longleftrightarrow> paths_ok (map replaced_path rs) \<and>
     list_all (\<lambda>r. IsSafeManifestPath (replaced_by r) \<and> replacement_exists fls (replaced_by r)) rs"

lemma replacement_loop_ok:
  "replacement_loop src array True fls is rs = Inr rs' \<Longrightarrow> replacements_ok fls rs \<Longrightarrow> replacements_ok fls rs'"
proof (induction "is" arbitrary: rs)
  case (Cons i "is")
  from Cons.prems(1) obtain p q where p: "IsSafeManifestPath p" "IsSafeManifestPath q" "replacement_exists fls q"
    "rs \<noteq> [] \<longrightarrow> bytes_less (replaced_path (last rs)) p"
    "replacement_loop src array True fls is (rs @ [\<lparr>replaced_path = p, replaced_by = q\<rparr>]) = Inr rs'" by (auto simp: Let_def)
  have "replacements_ok fls (rs @ [\<lparr>replaced_path = p, replaced_by = q\<rparr>])"
    using Cons.prems(2) p(1-4) sorted_snoc [of "map replaced_path rs" p]
    by (simp add: replacements_ok_def paths_ok_def last_map)
  with p(5) show ?case by (rule Cons.IH)
qed simp

lemma ParseReplacements_ok: "ParseReplacements src index True version fls = Inr rs \<Longrightarrow> replacements_ok fls rs"
  by (auto simp: ParseReplacements_def Let_def replacements_ok_def paths_ok_def dest!: replacement_loop_ok split: if_split_asm)

section \<open>The asset\<close>

definition kernels_complete :: "ManifestFile list \<Rightarrow> bool" where
  "kernels_complete fls \<longleftrightarrow> (\<exists>base. (\<forall>k < kRequiredKernelMachineCount. \<exists>f \<in> set fls. kernel_of base k f) \<and>
     (\<forall>f \<in> set fls. policy f = Kernel \<longrightarrow> (\<exists>k < length kMachineKernelMachines. kernel_of base k f)))"

definition files_ok :: "u64 \<Rightarrow> ManifestFile list \<Rightarrow> bool" where
  "files_ok asset_bytes fls \<longleftrightarrow>
     sorted_wrt bytes_less (map file_path fls) \<and> list_all file_ok fls \<and>
     unat asset_bytes = total_size fls \<and> asset_bytes \<le> kMaximumAssetBytes \<and> kernels_complete fls \<and>
     has_file ''config.txt'' fls \<and> has_file ''bmx-active-kernel.txt'' fls \<and>
     (has_file ''tryboot.txt'' fls \<longleftrightarrow> has_file ''bmx-tryboot-kernel.txt'' fls)"

lemma mask_bits: "k < kRequiredKernelMachineCount \<Longrightarrow> bit kRequiredKernelMachineMask k"
  by (simp add: kRequiredKernelMachineMask_def kRequiredKernelMachineCount_def numeral_eq_Suc less_Suc_eq) auto

lemma ParseFiles_ok:
  assumes "ParseFiles src index True asset_bytes = Inr fls"
  shows "files_ok asset_bytes fls"
proof -
  obtain s where s: "file_loop src index [0..<DirectChildren src index] new_scan = Inr s" "fls = scanned_files s"
    "required_machine_kernels s = kRequiredKernelMachineMask" "required_config s" "required_active_selector s"
    "has_tryboot s = has_candidate_selector s" "scanned_size s = asset_bytes"
    using assms by (auto simp: ParseFiles_def Let_def)
  have ok: "scan_ok s" using s(1) scan_ok_new by (rule file_loop_ok)
  then have "kernels_complete fls"
    unfolding kernels_complete_def using s(2,3) mask_bits by (intro exI [of _ "machine_kernel_base s"]) (simp add: scan_ok_def)
  moreover have "has_tryboot s \<longleftrightarrow> has_file ''tryboot.txt'' (scanned_files s)"
    "has_candidate_selector s \<longleftrightarrow> has_file ''bmx-tryboot-kernel.txt'' (scanned_files s)"
    using ok by (simp_all add: scan_ok_def)
  then have "has_file ''tryboot.txt'' fls \<longleftrightarrow> has_file ''bmx-tryboot-kernel.txt'' fls" using s(2,6) by simp
  ultimately show ?thesis using ok s(2,4,5,7) by (simp add: files_ok_def scan_ok_def)
qed

definition board_asset_ok :: "byte list \<Rightarrow> BoardAsset \<Rightarrow> bool" where
  "board_asset_ok version a \<longleftrightarrow>
     asset_filename a = expected_filename version (asset_board a) \<and> length (asset_sha256 a) = 32 \<and>
     1 \<le> download_size a \<and> download_size a \<le> kMaximumAssetBytes \<and>
     unat (download_size a) + unat (installed_size a) + 2 ^ 24 \<le> unat (required_peak_bytes a) \<and>
     files_ok (installed_size a) (files (inventory a)) \<and> paths_ok (directories (inventory a)) \<and>
     paths_ok (deletions (inventory a)) \<and> replacements_ok (files (inventory a)) (replacements (inventory a))"

lemma peak_sum:
  assumes "d \<le> - 1 - n" and "d + n \<le> - 1 - kSafetyReserveBytes" and "d + n + kSafetyReserveBytes \<le> peak"
  shows "unat d + unat n + 2 ^ 24 \<le> unat peak"
proof -
  have top: "unat (- 1 :: u64) = 2 ^ 64 - 1" by (simp add: unsigned_minus_1_eq_mask mask_eq_exp_minus_1)
  have r: "unat kSafetyReserveBytes = 2 ^ 24" by (simp add: kSafetyReserveBytes_def)
  have n: "unat n \<le> 2 ^ 64 - 1" using u64_less [of n] by simp
  have "unat d \<le> 2 ^ 64 - 1 - unat n" using assms(1) by (simp only: word_le_nat_alt unat_sub [OF word_n1_ge] top)
  then have dn: "unat (d + n) = unat d + unat n" using n by (simp add: unat_word_ariths)
  have "unat (d + n) \<le> 2 ^ 64 - 1 - 2 ^ 24"
    using assms(2) by (simp only: word_le_nat_alt unat_sub [OF word_n1_ge] top r)
  then have "unat (d + n + kSafetyReserveBytes) = unat (d + n) + 2 ^ 24" by (simp add: unat_word_ariths r)
  with dn assms(3) show ?thesis by (simp add: word_le_nat_alt)
qed

lemma ParseAsset_ok:
  assumes "ParseAsset src m index True = Inr a"
  shows "board_asset_ok (release_version m) a"
proof -
  let ?f = "\<lambda>name. Member src index (bytes_of name)"
  obtain board name download sha digest size peak dirs fls reset dels reps where
    n: "name = expected_filename (release_version m) board" and
    download: "Uint64 src (?f ''download_size'') 1 kMaximumAssetBytes = Some download" and
    digest: "ParseSha256 sha = Some digest" and
    peak: "download \<le> - 1 - size" "download + size \<le> - 1 - kSafetyReserveBytes" "download + size + kSafetyReserveBytes \<le> peak" and
    parts: "ParseDirectories src (?f ''directories'') True = Inr dirs" "ParseFiles src (?f ''files'') True size = Inr fls"
      "ParseDeletions src (?f ''deletions'') True (manifest_version m) = Inr dels"
      "ParseReplacements src (?f ''replacements'') True (manifest_version m) fls = Inr reps" and
    a: "a = \<lparr>asset_board = board, asset_filename = name, download_size = download, asset_sha256 = digest,
        installed_size = size, required_peak_bytes = peak,
        inventory = \<lparr>files = fls, directories = dirs, deletions = dels, replacements = reps,
          configuration_reset_required = reset\<rparr>\<rparr>"
    using assms unfolding ParseAsset_def Let_def bind_sum_Inr need_Inr ensure_Inr sum.inject by blast
  show ?thesis
    unfolding board_asset_ok_def a
    using n Uint64_range [OF download] ParseSha256_length [OF digest] peak_sum [OF peak] ParseDirectories_ok [OF parts(1)]
      ParseFiles_ok [OF parts(2)] ParseDeletions_ok [OF parts(3)] ParseReplacements_ok [OF parts(4)]
    by simp
qed

lemma ParseAsset_board:
  assumes "ParseAsset src m index False = Inr a" and "ParseAsset src m index True = Inr b"
  shows "asset_board a = asset_board b"
proof -
  let ?f = "Member src index (bytes_of ''board_family'')"
  have "\<exists>t. CopyString src ?f 8 = Some t \<and> parse_board t = Some (asset_board c)" if "ParseAsset src m index store = Inr c" for store c
    using that unfolding ParseAsset_def Let_def bind_sum_Inr need_Inr ensure_Inr sum.inject by (elim exE conjE) auto
  from this [OF assms(1)] this [OF assms(2)] show ?thesis by auto
qed

lemma board_loop_ok:
  assumes "board_loop src m array is previous boards found = Inr (boards', Some a)"
    and "\<forall>b. found = Some b \<longrightarrow> asset_board b = target_board src \<and> board_asset_ok (release_version m) b"
  shows "asset_board a = target_board src \<and> board_asset_ok (release_version m) a"
  using assms
proof (induction "is" arbitrary: previous boards found)
  case (Cons i "is")
  let ?i = "DirectChild src array i"
  from Cons.prems(1) obtain parsed where p: "ParseAsset src m ?i False = Inr parsed"
    and rest: "(if asset_board parsed = target_board src then
        (if found \<noteq> None then Inl DuplicateAsset
         else bind_sum (ParseAsset src m ?i True) (\<lambda>asset.
           board_loop src m array is (asset_board parsed) (insert (asset_board parsed) boards) (Some asset)))
      else board_loop src m array is (asset_board parsed) (insert (asset_board parsed) boards) found) = Inr (boards', Some a)"
    unfolding board_loop.simps Let_def bind_sum_Inr by blast
  show ?case
  proof (cases "asset_board parsed = target_board src")
    case True
    then obtain b where b: "ParseAsset src m ?i True = Inr b"
      "board_loop src m array is (asset_board parsed) (insert (asset_board parsed) boards) (Some b) = Inr (boards', Some a)"
      using rest by (auto split: if_split_asm)
    show ?thesis
      using True ParseAsset_board [OF p b(1)] ParseAsset_ok [OF b(1)] by (intro Cons.IH [OF b(2)]) auto
  next
    case False
    then show ?thesis using rest Cons.prems(2) by (intro Cons.IH) auto
  qed
qed simp

section \<open>The release and its keys\<close>

definition keys_ok :: "byte list list \<Rightarrow> bool" where
  "keys_ok ids \<longleftrightarrow> sorted_wrt bytes_less ids \<and> list_all IsManifestIdentifier ids"

lemma key_loop_ok:
  "key_loop src keys is ids = Inr ids' \<Longrightarrow> keys_ok ids \<Longrightarrow> keys_ok ids' \<and> length ids' = length ids + length is"
proof (induction "is" arbitrary: ids)
  case (Cons i "is")
  from Cons.prems(1) obtain name where n: "IsManifestIdentifier name" "ids \<noteq> [] \<longrightarrow> bytes_less (last ids) name"
    "key_loop src keys is (ids @ [name]) = Inr ids'" by auto
  have "keys_ok (ids @ [name])" using Cons.prems(2) n(1,2) sorted_snoc [of ids name] by (simp add: keys_ok_def)
  from Cons.IH [OF n(3) this] show ?case by simp
qed simp

definition release_ok :: "ReleaseManifest \<Rightarrow> bool" where
  "release_ok m \<longleftrightarrow> IsVersion (release_version m) \<and> IsTag (release_tag m) \<and> IsSourceCommit (source_commit m) \<and>
     1 \<le> release_sequence m \<and> release_sequence m \<le> int32_max \<and> 1 \<le> release_epoch m \<and> release_epoch m \<le> int64_max \<and>
     1 \<le> release_minimum_abi m \<and> release_minimum_abi m \<le> release_maximum_abi m \<and>
     keys_ok (signing_key_ids m) \<and> 1 \<le> length (signing_key_ids m) \<and> length (signing_key_ids m) \<le> 4"

lemma ParseRelease_ok:
  assumes "ParseRelease src index m = Inr m'"
  shows "release_ok m'" and "manifest_version m' = manifest_version m"
proof -
  let ?f = "\<lambda>name. Member src index (bytes_of name)"
  obtain version tg commit seqn epoch lo hi ids where
    texts: "IsVersion version" "IsTag tg" "IsSourceCommit commit" and
    nums: "Uint64 src (?f ''release_sequence'') 1 int32_max = Some seqn" "Uint64 src (?f ''release_epoch'') 1 int64_max = Some epoch"
      "lo \<le> hi" "Uint32 src (?f ''minimum_updater_abi'') 1 int32_max = Some lo" and
    keys: "DirectChildren src (?f ''signing_key_ids'') \<noteq> 0 \<and> DirectChildren src (?f ''signing_key_ids'') \<le> 4"
      "key_loop src (?f ''signing_key_ids'') [0..<DirectChildren src (?f ''signing_key_ids'')] [] = Inr ids" and
    m': "m' = m\<lparr>release_version := version, release_tag := tg, source_commit := commit, release_sequence := seqn,
        release_epoch := epoch, release_minimum_abi := lo, release_maximum_abi := hi, signing_key_ids := ids\<rparr>"
    using assms unfolding ParseRelease_def Let_def bind_sum_Inr need_Inr ensure_Inr sum.inject by blast
  have "keys_ok ids \<and> length ids = DirectChildren src (?f ''signing_key_ids'')"
    using key_loop_ok [OF keys(2)] by (simp add: keys_ok_def)
  then show "release_ok m'"
    using texts nums(3) keys(1) Uint64_range [OF nums(1)] Uint64_range [OF nums(2)] Uint32_positive [OF nums(4)] by (simp add: release_ok_def m')
  show "manifest_version m' = manifest_version m" by (simp add: m')
qed

section \<open>The configuration\<close>

lemma c_str_c_str: "c_str (c_str s) = c_str s"
  by (simp add: c_str_def)

lemma CopyString_c_str: "CopyString src token n = Some t \<Longrightarrow> c_str t = t"
  by (auto simp: CopyString_def c_str_c_str split: option.splits if_split_asm prod.splits)

lemma migration_loop_ok:
  "migration_loop src array is ms = Inr ms' \<Longrightarrow> \<forall>d \<in> set ms. c_str (migration_id d) = migration_id d \<Longrightarrow>
   \<forall>d \<in> set ms'. c_str (migration_id d) = migration_id d"
proof (induction "is" arbitrary: ms)
  case (Cons i "is")
  from Cons.prems(1) obtain d where d: "ParseMigration src (DirectChild src array i)
      (if ms = [] then None else Some (migration_id (last ms))) = Inr d" "migration_loop src array is (ms @ [d]) = Inr ms'"
    unfolding migration_loop.simps bind_sum_Inr by blast
  have "c_str (migration_id d) = migration_id d"
    using d(1) unfolding ParseMigration_def Let_def bind_sum_Inr need_Inr ensure_Inr sum.inject
    by (elim exE conjE) (auto dest: CopyString_c_str)
  with Cons.prems(2) show ?case by (intro Cons.IH [OF d(2)]) auto
qed simp

lemma declaration_compiled:
  assumes "declaration_status rs earlier d = RegistryValid" and "c_str (migration_id d) = migration_id d"
  shows "d \<in> set kCompiledMigrations"
proof -
  obtain c where c: "FindCompiledMigration (migration_id d) = Some c" "migration_area c = migration_area d"
    "from_version c = from_version d" "to_version c = to_version d" "migration_lossy c = migration_lossy d"
    using assms(1) by (auto simp: declaration_status_def split: if_split_asm option.splits)
  have "migration_id c = migration_id d" "c \<in> set kCompiledMigrations"
    using c(1) assms(2) by (auto simp: FindCompiledMigration_def find_Some_iff split: if_split_asm)
  then show ?thesis using c(2-5) by (cases c; cases d) simp
qed

lemma declarations_compiled:
  "declarations_status rs earlier ds = RegistryValid \<Longrightarrow> \<forall>d \<in> set ds. c_str (migration_id d) = migration_id d \<Longrightarrow>
   set ds \<subseteq> set kCompiledMigrations"
  by (induction ds arbitrary: earlier) (auto dest: declaration_compiled split: if_split_asm)

definition configuration_ok :: "ReleaseManifest \<Rightarrow> bool" where
  "configuration_ok m \<longleftrightarrow> length (config_schemas m) = kConfigMigrationAreaCount \<and> requirements_valid [] (config_schemas m) \<and>
     set (config_migrations m) \<subseteq> set kCompiledMigrations \<and> changes_match (config_migrations m) (lossy_changes m)"

lemma ParseConfiguration_ok:
  assumes "ParseConfiguration src index m = Inr m'"
  shows "configuration_ok m'" and "release_ok m' \<longleftrightarrow> release_ok m" and "release_version m' = release_version m"
    and "manifest_version m' = manifest_version m"
proof -
  let ?m = "Member src index (bytes_of ''migrations'')"
  obtain schemas migrations changes u where
    loops: "migration_loop src ?m [0..<DirectChildren src ?m] [] = Inr migrations" and
    status: "(case RegistryStatusToManifestStatus (ValidateConfigMigrationDeclarations schemas migrations) of
          None \<Rightarrow> Inr () | Some status \<Rightarrow> Inl status) = Inr u" and
    match: "changes_match migrations changes" and
    m': "m' = m\<lparr>config_schemas := schemas, config_migrations := migrations, lossy_changes := changes\<rparr>"
    using assms unfolding ParseConfiguration_def Let_def bind_sum_Inr need_Inr ensure_Inr sum.inject by blast
  have valid: "ValidateConfigMigrationDeclarations schemas migrations = RegistryValid"
    using status by (auto simp: RegistryStatusToManifestStatus_def split: option.splits ConfigMigrationRegistryStatus.splits)
  then have "length schemas = kConfigMigrationAreaCount" "requirements_valid [] schemas"
    "declarations_status schemas [] migrations = RegistryValid"
    by (auto simp: ValidateConfigMigrationDeclarations_def split: if_split_asm)
  moreover have "\<forall>d \<in> set migrations. c_str (migration_id d) = migration_id d" using migration_loop_ok [OF loops] by simp
  ultimately show "configuration_ok m'" using match declarations_compiled [of schemas "[]" migrations]
    by (simp add: configuration_ok_def m')
  show "release_ok m' \<longleftrightarrow> release_ok m" "release_version m' = release_version m" "manifest_version m' = manifest_version m"
    by (simp_all add: release_ok_def m')
qed

section \<open>The manifest\<close>

definition manifest_ok :: "BoardFamily \<Rightarrow> ReleaseManifest \<Rightarrow> bool" where
  "manifest_ok board m \<longleftrightarrow> release_ok m \<and> configuration_ok m \<and>
     asset_board (manifest_asset m) = board \<and> board_asset_ok (release_version m) (manifest_asset m) \<and>
     \<not> inventory_collides (inventory (manifest_asset m))"

lemma ParseManifest_ok:
  assumes "ParseManifest src m = Inr m'"
  shows "manifest_ok (target_board src) m'"
proof -
  let ?f = "\<lambda>name. Member src (Some 0) (bytes_of name)"
  obtain v m1 m2 where
    rel: "ParseRelease src (?f ''release'') (m\<lparr>manifest_version := v\<rparr>) = Inr m1" and
    conf: "ParseConfiguration src (?f ''configuration'') m1 = Inr m2" and
    assets: "ParseAssets src (?f ''assets'') m2 = Inr m'"
    using assms unfolding ParseManifest_def bind_sum_Inr need_Inr ensure_Inr by blast
  obtain boards a where
    a: "board_loop src m2 (?f ''assets'') [0..<DirectChildren src (?f ''assets'')] UnknownBoard {} None = Inr (boards, Some a)"
    "\<not> inventory_collides (inventory a)" "m' = m2\<lparr>manifest_asset := a\<rparr>"
    using assets unfolding ParseAssets_def Let_def bind_sum_Inr need_Inr ensure_Inr
    by (elim exE conjE) (auto split: prod.splits)
  have "asset_board a = target_board src \<and> board_asset_ok (release_version m2) a" using board_loop_ok [OF a(1)] by simp
  moreover have "release_ok m2" "configuration_ok m2" using ParseRelease_ok(1) [OF rel] ParseConfiguration_ok(1,2) [OF conf] by auto
  ultimately show ?thesis using a(2,3) by (simp add: manifest_ok_def release_ok_def configuration_ok_def)
qed

section \<open>What is left for the installer\<close>

lemma fat_keys_distinct: "sorted_wrt (\<lambda>p q. \<not> FatPathEqual p q) ps \<Longrightarrow> distinct (map fat_key ps)"
  by (induction ps) (auto simp: FatPathEqual_key)

lemma installer_asset_ok:
  assumes "files_ok n (files a)" and "\<not> inventory_collides a"
  shows "Installer_Volume.asset_ok a"
proof -
  have "sorted_wrt (\<lambda>p q. \<not> FatPathEqual p q) (map file_path (files a))"
    using assms(2) by (simp add: inventory_collides_def Let_def case_pairs_iff)
  then have "distinct (map (\<lambda>f. fat_key (file_path f)) (files a))" using fat_keys_distinct by (force simp: comp_def)
  moreover have "list_all (\<lambda>f. length (file_sha256 f) = 32) (files a)"
    using assms(1) by (auto simp: files_ok_def file_ok_def list_all_iff)
  moreover have "\<not> case_meets (map file_path (files a)) (directories a)"
    using assms(2) by (simp add: inventory_collides_def Let_def)
  then have "list_all (\<lambda>f. fat_key (file_path f) \<notin> fat_key ` set (directories a)) (files a)"
    by (auto simp: case_meets_iff list_all_iff FatPathEqual_key)
  ultimately show ?thesis by (simp add: Installer_Volume.asset_ok_def)
qed

lemma total_size_Cons [simp]: "total_size (f # fls) = unat (file_size f) + total_size fls"
  by (simp add: total_size_def)

lemma check_files_iff:
  "unat h + total_size fls < 2 ^ 64 \<Longrightarrow>
   check_files fls k h = Inr (k', h') \<longleftrightarrow> list_all (\<lambda>f. \<not> IsReservedPath (file_path f)) fls \<and>
     k' = k + length (filter IsBuildIdentity fls) \<and> unat h' = unat h + total_size fls"
proof (induction fls arbitrary: k h)
  case Nil
  then show ?case by (auto simp: total_size_def word_unat_eq_iff)
next
  case (Cons f fls)
  have sum: "unat (h + file_size f) = unat h + unat (file_size f)" using Cons.prems by (simp add: unat_word_ariths)
  have "\<not> file_size f > - 1 - h"
    using Cons.prems by (simp add: word_less_nat_alt unat_sub [OF word_n1_ge] unsigned_minus_1_eq_mask mask_eq_exp_minus_1)
  then have "AddWithoutOverflow h (file_size f) = Some (h + file_size f)" by (simp add: AddWithoutOverflow_def)
  moreover have "unat (h + file_size f) + total_size fls < 2 ^ 64" using Cons.prems sum by simp
  note Cons.IH [OF this]
  ultimately show ?case by (auto simp: Let_def sum)
qed

lemma check_deletions_iff:
  "check_deletions a ps = None \<longleftrightarrow>
   list_all (\<lambda>p. \<not> IsReservedPath p) ps \<and> \<not> case_meets ps (map file_path (files a))"
  by (induction ps) (auto simp: case_meets_iff list_ex_iff)

lemma check_replacements_iff:
  assumes "\<not> case_meets (map replaced_path rs) (map file_path (files a))" and "replacements_ok (files a) rs"
  shows "check_replacements a rs = None \<longleftrightarrow> list_all (\<lambda>r. \<not> IsReservedPath (replaced_path r)) rs"
proof -
  have "HasManagedReplacement a (replaced_by r) \<and> \<not> FatPathEqual (replaced_path r) (replaced_by r) \<and>
      \<not> list_ex (\<lambda>f. FatPathEqual (replaced_path r) (file_path f)) (files a)" if r: "r \<in> set rs" for r
  proof -
    have "replacement_exists (files a) (replaced_by r)"
      using assms(2) r by (simp add: replacements_ok_def list_all_iff)
    then obtain f where f: "f \<in> set (files a)" "file_path f = replaced_by r" "policy f = Kernel \<or> policy f = ManagedReplace"
      by (auto simp: replacement_exists_def list_ex_iff)
    then have "HasManagedReplacement a (replaced_by r)" unfolding HasManagedReplacement_def list_ex_iff FatPathEqual_key by metis
    moreover have no: "\<forall>g \<in> set (files a). \<not> FatPathEqual (replaced_path r) (file_path g)"
      using assms(1) r by (auto simp: case_meets_iff)
    then have "\<not> FatPathEqual (replaced_path r) (replaced_by r)" using f(1,2) by fastforce
    ultimately show ?thesis using no by (auto simp: list_ex_iff)
  qed
  then show ?thesis by (induction rs) auto
qed

definition installable :: "ManifestAsset \<Rightarrow> bool" where
  "installable a \<longleftrightarrow>
     list_all (\<lambda>p. \<not> IsReservedPath p) (map file_path (files a) @ deletions a @ map replaced_path (replacements a)) \<and>
     length (filter IsBuildIdentity (files a)) = 1"

lemma check_manifest_iff:
  assumes "board_asset_ok version b" and "\<not> inventory_collides (inventory b)"
  shows "check_manifest (inventory b) = Inr n \<longleftrightarrow> installable (inventory b) \<and> n = installed_size b"
proof -
  let ?a = "inventory b"
  have f: "files_ok (installed_size b) (files ?a)" and r: "replacements_ok (files ?a) (replacements ?a)"
    using assms(1) by (auto simp: board_asset_ok_def)
  have "unat (installed_size b) = total_size (files ?a)" using f by (simp add: files_ok_def)
  then have n: "unat h = total_size (files ?a) \<longleftrightarrow> h = installed_size b" for h by (metis word_unat_eq_iff)
  have "total_size (files ?a) < 2 ^ 64" using f u64_less [of "installed_size b"] by (simp add: files_ok_def)
  then have c: "check_files (files ?a) 0 0 = Inr (k, h) \<longleftrightarrow> list_all (\<lambda>f. \<not> IsReservedPath (file_path f)) (files ?a) \<and>
     k = length (filter IsBuildIdentity (files ?a)) \<and> h = installed_size b" for k h
    using check_files_iff [of 0 "files ?a" 0 k h] n by simp
  have no: "\<not> case_meets (deletions ?a) (map file_path (files ?a))" "\<not> case_meets (map replaced_path (replacements ?a)) (map file_path (files ?a))"
    using assms(2) by (auto simp: inventory_collides_def Let_def)
  show ?thesis
    using c no(1) check_replacements_iff [OF no(2) r] check_deletions_iff [of ?a "deletions ?a"]
    by (auto simp: check_manifest_def installable_def list_all_iff split: sum.split prod.split option.split)
qed

section \<open>The signed manifest\<close>

lemma ParseReleaseManifest_ok:
  assumes "fst (ParseReleaseManifest encoded board storage given jr) = Inr m"
  shows "manifest_ok board m"
proof -
  obtain src m0 where "ParseManifest src m0 = Inr m" "target_board src = board"
    using assms by (force simp: ParseReleaseManifest_def split: option.split_asm if_split_asm prod.split_asm)
  then show ?thesis using ParseManifest_ok by blast
qed


end
