(* ===== verification/Build_Info.thy ===== *)
theory Build_Info
  imports Release_Manifest
begin

text \<open>
  The description of the installed build, \<open>src/src/update/build_info.cpp\<close>, over the JSON parser.
  A parse returns the error or the description; the character arrays are C strings, as in the manifest.
\<close>

section \<open>Data\<close>

definition kMaximumBuildInfoBytes :: nat where "kMaximumBuildInfoBytes = 64 * 1024"
definition kMaximumConfigAreas :: nat where "kMaximumConfigAreas = 16"

record InstalledSchemaVersion =
  installed_area :: ConfigArea
  installed_version :: u32

record InstalledBuildInfo =
  build_version :: "byte list"
  build_sequence :: u64
  build_epoch :: u64
  build_board :: BoardFamily
  build_commit :: "byte list"
  build_abi :: u32
  build_schemas :: "InstalledSchemaVersion list"

datatype BuildInfoStatus =
  BuildInfoOk | BuildInfoInvalidArgument | BuildInfoInvalidSize | BuildInfoJsonInvalid | BuildInfoUnsupportedVersion |
  FieldsInvalid | UnsupportedSchema | BuildInfoStorageTooSmall

section \<open>Helpers\<close>

definition AreaFromToken :: "byte list \<Rightarrow> JsonToken \<Rightarrow> ConfigArea" where
  "AreaFromToken json token =
     (if JsonStringEquals (Some json) token (Some (bytes_of ''machines'')) then Machines
      else if JsonStringEquals (Some json) token (Some (bytes_of ''config_managed_block'')) then ConfigManagedBlock
      else if JsonStringEquals (Some json) token (Some (bytes_of ''cmdline_managed'')) then CmdlineManagedKeys
      else if JsonStringEquals (Some json) token (Some (bytes_of ''network'')) then Network
      else if JsonStringEquals (Some json) token (Some (bytes_of ''settings'')) then Settings
      else if JsonStringEquals (Some json) token (Some (bytes_of ''update_state'')) then UpdateState
      else AreaUnknown)"

definition kBuildFields :: "byte list list" where
  "kBuildFields = map bytes_of
     [''build_info_version'', ''version'', ''release_sequence'', ''release_epoch'', ''board_family'', ''source_commit'',
      ''updater_abi'', ''configuration_schemas'']"

definition root_member :: "byte list \<Rightarrow> JsonToken list \<Rightarrow> byte list \<Rightarrow> nat option" where
  "root_member json tokens name = JsonFindObjectMember (Some json) (Some tokens) (Some 0) (Some name)"

function root_loop :: "byte list \<Rightarrow> JsonToken list \<Rightarrow> nat \<Rightarrow> nat \<Rightarrow> bool" where
  "root_loop json tokens direct_ordinal i =
     (if i \<ge> length tokens then True
      else if token_start (tokens ! i) \<ge> token_end (tokens ! 0) then True
      else if token_parent (tokens ! i) \<noteq> Some 0 then root_loop json tokens direct_ordinal (Suc i)
      else if odd direct_ordinal then root_loop json tokens (Suc direct_ordinal) (Suc i)
      else if list_ex (\<lambda>f. JsonStringEquals (Some json) (tokens ! i) (Some f)) kBuildFields
      then root_loop json tokens (Suc direct_ordinal) (Suc i)
      else False)"
  by pat_completeness auto
termination root_loop
  by (relation "measure (\<lambda>(json, tokens, direct_ordinal, i). length tokens - i)") auto

declare root_loop.simps [simp del]

definition ExactRoot :: "byte list \<Rightarrow> JsonToken list \<Rightarrow> bool" where
  "ExactRoot json tokens \<longleftrightarrow>
     tokens \<noteq> [] \<and> token_type (tokens ! 0) = JSON_TOKEN_OBJECT \<and>
     child_count (tokens ! 0) = length kBuildFields * 2 \<and>
     list_all (\<lambda>f. root_member json tokens f \<noteq> None) kBuildFields \<and> root_loop json tokens 0 1"

definition GetUint :: "byte list \<Rightarrow> JsonToken list \<Rightarrow> nat option \<Rightarrow> u64 \<Rightarrow> u64 \<Rightarrow> u64 option" where
  "GetUint json tokens token minimum maximum =
     (case token of
        None \<Rightarrow> None
      | Some i \<Rightarrow>
          (case JsonGetUint64 (Some json) (tokens ! i) True of
             Inl _ \<Rightarrow> None
           | Inr v \<Rightarrow> if v < minimum \<or> v > maximum then None else Some v))"

text \<open>The string at a member that \<open>ExactRoot\<close> has found.\<close>

definition copied :: "byte list \<Rightarrow> JsonToken list \<Rightarrow> nat option \<Rightarrow> nat \<Rightarrow> byte list option" where
  "copied json tokens token output_size =
     (case JsonCopyString (Some json) (tokens ! the token) (Some output_size) of
        (status, bytes) \<Rightarrow> if status = JSON_OK then Some (c_str bytes) else None)"

definition IsBuildVersion :: "byte list \<Rightarrow> bool" where
  "IsBuildVersion s \<longleftrightarrow> length s \<noteq> 0 \<and> length s \<le> 64 \<and>
     list_all (\<lambda>i. IsAsciiAlphaNumeric (s ! i) \<or> (i \<noteq> 0 \<and> (s ! i = ch CHR ''.'' \<or> s ! i = ch CHR ''_'' \<or>
       s ! i = ch CHR ''+'' \<or> s ! i = ch CHR ''-''))) [0..<length s]"

definition IsCommit :: "byte list \<Rightarrow> bool" where
  "IsCommit s \<longleftrightarrow> (length s = 40 \<or> length s = 64) \<and>
     list_all (\<lambda>c. is_digit c \<or> (ch CHR ''a'' \<le> c \<and> c \<le> ch CHR ''f'')) s"

section \<open>The parser\<close>

text \<open>The loop over the members of the schemas object; \<open>seen\<close> are the areas named so far.\<close>

function schema_scan ::
  "byte list \<Rightarrow> JsonToken list \<Rightarrow> nat \<Rightarrow> bool \<Rightarrow> ConfigArea \<Rightarrow> ConfigArea list \<Rightarrow> InstalledSchemaVersion list \<Rightarrow> nat \<Rightarrow>
   BuildInfoStatus + bool \<times> InstalledSchemaVersion list" where
  "schema_scan json tokens schemas expect_key current_area seen outputs i =
     (if i \<ge> length tokens then Inr (expect_key, outputs)
      else if token_start (tokens ! i) \<ge> token_end (tokens ! schemas) then Inr (expect_key, outputs)
      else if token_parent (tokens ! i) \<noteq> Some schemas
      then schema_scan json tokens schemas expect_key current_area seen outputs (Suc i)
      else if expect_key then
        let area = AreaFromToken json (tokens ! i) in
        if \<not> IsKnownConfigArea area \<or> area_index area \<ge> 7 \<or> area \<in> set seen then Inl UnsupportedSchema
        else schema_scan json tokens schemas False area (area # seen) outputs (Suc i)
      else if length outputs \<ge> kMaximumConfigAreas then Inl UnsupportedSchema
      else case JsonGetUint64 (Some json) (tokens ! i) True of
          Inl _ \<Rightarrow> Inl UnsupportedSchema
        | Inr v \<Rightarrow>
            if v > int32_max then Inl UnsupportedSchema
            else schema_scan json tokens schemas True current_area seen
              (outputs @ [\<lparr>installed_area = current_area, installed_version = ucast v\<rparr>]) (Suc i))"
  by pat_completeness auto
termination schema_scan
  by (relation "measure (\<lambda>(json, tokens, schemas, expect_key, current_area, seen, outputs, i). length tokens - i)") auto

declare schema_scan.simps [simp del]

definition ParseSchemas :: "byte list \<Rightarrow> JsonToken list \<Rightarrow> BuildInfoStatus + InstalledSchemaVersion list" where
  "ParseSchemas json tokens =
     bind_sum (need UnsupportedSchema (root_member json tokens (bytes_of ''configuration_schemas''))) (\<lambda>schemas.
     bind_sum (ensure UnsupportedSchema
       (token_type (tokens ! schemas) = JSON_TOKEN_OBJECT \<and> child_count (tokens ! schemas) = 12)) (\<lambda>_.
     bind_sum (schema_scan json tokens schemas True AreaUnknown [] [] (Suc schemas)) (\<lambda>(expect_key, outputs).
     bind_sum (ensure UnsupportedSchema (expect_key \<and> length outputs = 6)) (\<lambda>_.
     Inr outputs))))"

definition ParseBuild :: "byte list \<Rightarrow> JsonToken list \<Rightarrow> BuildInfoStatus + InstalledBuildInfo" where
  "ParseBuild json tokens =
     (let field = (\<lambda>name. root_member json tokens (bytes_of name)); bad = FieldsInvalid in
      bind_sum (ensure bad (ExactRoot json tokens)) (\<lambda>_.
      bind_sum (need BuildInfoUnsupportedVersion (GetUint json tokens (field ''build_info_version'') 1 1)) (\<lambda>_.
      bind_sum (need bad (copied json tokens (field ''version'') 65)) (\<lambda>version.
      bind_sum (ensure bad (IsBuildVersion version)) (\<lambda>_.
      bind_sum (need bad (GetUint json tokens (field ''release_sequence'') 1 int32_max)) (\<lambda>seq.
      bind_sum (need bad (GetUint json tokens (field ''release_epoch'') 1 int64_max)) (\<lambda>epoch.
      bind_sum (need bad (copied json tokens (field ''board_family'') 8)) (\<lambda>board_text.
      bind_sum (need bad (copied json tokens (field ''source_commit'') 65)) (\<lambda>commit.
      bind_sum (ensure bad (IsCommit commit)) (\<lambda>_.
      bind_sum (need bad (GetUint json tokens (field ''updater_abi'') 1 int32_max)) (\<lambda>abi.
      bind_sum (need bad (parse_board board_text)) (\<lambda>board.
      bind_sum (ParseSchemas json tokens) (\<lambda>schemas.
      Inr \<lparr>build_version = version, build_sequence = seq, build_epoch = epoch, build_board = board,
        build_commit = commit, build_abi = ucast abi, build_schemas = schemas\<rparr>)))))))))))))"

definition ParseBuildInfo ::
  "byte list option \<Rightarrow> bool \<Rightarrow> nat \<Rightarrow> bool \<Rightarrow> JsonParseResult option \<Rightarrow>
   (BuildInfoStatus + InstalledBuildInfo) \<times> JsonParseResult option" where
  "ParseBuildInfo encoded tokens_present tokens_size info_present json_result =
     (case (encoded, json_result) of
        (Some text, Some _) \<Rightarrow>
          if \<not> tokens_present \<or> tokens_size = 0 \<or> \<not> info_present then (Inl BuildInfoInvalidArgument, json_result)
          else if length text < 3 \<or> length text > kMaximumBuildInfoBytes \<or> text ! 0 \<noteq> ch CHR ''{'' \<or>
             text ! (length text - 1) \<noteq> 10 \<or> text ! (length text - 2) \<noteq> ch CHR ''}''
          then (Inl BuildInfoInvalidSize, json_result)
          else (case ParseJson (Some text) True tokens_size 16 of (parsed, tokens) \<Rightarrow>
            if result_error parsed \<noteq> JSON_OK
            then (Inl (if result_error parsed = JSON_ERROR_TOKEN_LIMIT then BuildInfoStorageTooSmall else BuildInfoJsonInvalid),
                  Some parsed)
            else (ParseBuild text (take (token_count parsed) tokens), Some parsed))
      | _ \<Rightarrow> (Inl BuildInfoInvalidArgument, json_result))"

section \<open>What an accepted description says\<close>

definition build_ok :: "InstalledBuildInfo \<Rightarrow> bool" where
  "build_ok b \<longleftrightarrow> IsVersion (build_version b) \<and> IsSourceCommit (build_commit b) \<and> IsKnownBoardFamily (build_board b) \<and>
     1 \<le> build_sequence b \<and> build_sequence b \<le> int32_max \<and> 1 \<le> build_epoch b \<and> build_epoch b \<le> int64_max \<and>
     1 \<le> build_abi b \<and> unat (build_abi b) < 2 ^ 31 \<and> distinct (map installed_area (build_schemas b)) \<and>
     installed_area ` set (build_schemas b) = {a. IsKnownConfigArea a} \<and>
     list_all (\<lambda>s. unat (installed_version s) < 2 ^ 31) (build_schemas b)"

lemma GetUint_range: "GetUint json tokens token lo hi = Some v \<Longrightarrow> lo \<le> v \<and> v \<le> hi"
  by (auto simp: GetUint_def not_less split: option.splits if_split_asm sum.splits)

text \<open>Both parsers have the same notion of a version and of a commit.\<close>

lemma IsCommit_iff: "IsCommit s \<longleftrightarrow> IsSourceCommit s"
  by (simp add: IsCommit_def IsSourceCommit_def IsLowerHex_def list_all_iff)

lemma IsBuildVersion_iff: "IsBuildVersion s \<longleftrightarrow> IsVersion s"
proof (cases s)
  case (Cons c cs)
  have head: "list_all P [0..<Suc (length cs)] \<longleftrightarrow> P 0 \<and> list_all (\<lambda>i. P (Suc i)) [0..<length cs]" for P
    by (simp add: upt_conv_Cons map_Suc_upt [symmetric] list.pred_map comp_def del: upt_Suc)
  show ?thesis
    unfolding IsBuildVersion_def IsVersion_def Cons list.size add_Suc_right add_0_right head nth_Cons_Suc
    by (simp add: version_character_def cstr_at_def list_all_iff all_set_conv_all_nth) (simp add: Ball_def conj_ac)
qed (simp add: IsBuildVersion_def IsVersion_def)

lemma small_ucast: "(v :: u64) \<le> int32_max \<Longrightarrow> unat (ucast v :: u32) = unat v \<and> unat v < 2 ^ 31"
  by (simp add: int32_max_def word_le_nat_alt unsigned_ucast_eq take_bit_nat_eq_self)

definition scan_inv :: "bool \<Rightarrow> ConfigArea \<Rightarrow> ConfigArea list \<Rightarrow> InstalledSchemaVersion list \<Rightarrow> bool" where
  "scan_inv expect_key current seen outputs \<longleftrightarrow> distinct seen \<and> list_all IsKnownConfigArea seen \<and>
     list_all (\<lambda>s. unat (installed_version s) < 2 ^ 31) outputs \<and>
     rev (map installed_area outputs) = (if expect_key then seen else tl seen) \<and> (expect_key \<or> (seen \<noteq> [] \<and> hd seen = current))"

lemma schema_scan_ok:
  "schema_scan json tokens schemas expect_key current seen outputs i = Inr (key, outputs') \<Longrightarrow>
   scan_inv expect_key current seen outputs \<Longrightarrow> \<exists>current' seen'. scan_inv key current' seen' outputs'"
proof (induction json tokens schemas expect_key current seen outputs i rule: schema_scan.induct)
  case (1 json tokens schemas expect_key current seen outputs i)
  note step = "1.prems"(1) [unfolded schema_scan.simps [of json tokens schemas expect_key current seen outputs i]]
  consider (stop) "i \<ge> length tokens \<or> token_start (tokens ! i) \<ge> token_end (tokens ! schemas)"
    | (skip) "\<not> (i \<ge> length tokens \<or> token_start (tokens ! i) \<ge> token_end (tokens ! schemas))" "token_parent (tokens ! i) \<noteq> Some schemas"
    | (key) "\<not> (i \<ge> length tokens \<or> token_start (tokens ! i) \<ge> token_end (tokens ! schemas))" "token_parent (tokens ! i) = Some schemas" expect_key
    | (val) "\<not> (i \<ge> length tokens \<or> token_start (tokens ! i) \<ge> token_end (tokens ! schemas))" "token_parent (tokens ! i) = Some schemas" "\<not> expect_key"
    by blast
  then show ?case
  proof cases
    case stop
    then show ?thesis using "1.prems"(2) step by (auto split: if_split_asm)
  next
    case skip
    then show ?thesis using "1.IH"(1) "1.prems"(2) step by auto
  next
    case key
    let ?a = "AreaFromToken json (tokens ! i)"
    have ok: "IsKnownConfigArea ?a" "?a \<notin> set seen" "area_index ?a < 7"
      and rest: "schema_scan json tokens schemas False ?a (?a # seen) outputs (Suc i) = Inr (key, outputs')"
      using step key by (auto simp: Let_def split: if_split_asm)
    have "scan_inv False ?a (?a # seen) outputs" using "1.prems"(2) ok key by (simp add: scan_inv_def)
    with rest key ok show ?thesis by (intro "1.IH"(2)) auto
  next
    case val
    then obtain v where v: "JsonGetUint64 (Some json) (tokens ! i) True = Inr v" "v \<le> int32_max" "length outputs < kMaximumConfigAreas"
      and rest: "schema_scan json tokens schemas True current seen
        (outputs @ [\<lparr>installed_area = current, installed_version = ucast v\<rparr>]) (Suc i) = Inr (key, outputs')"
      using step by (auto simp: not_le split: if_split_asm sum.split_asm)
    have "scan_inv True current seen (outputs @ [\<lparr>installed_area = current, installed_version = ucast v\<rparr>])"
      using "1.prems"(2) val small_ucast [OF v(2)] by (cases seen) (auto simp: scan_inv_def)
    with rest val v show ?thesis by (intro "1.IH"(3)) auto
  qed
qed

lemma known_areas: "{a. IsKnownConfigArea a} = {Machines, ConfigManagedBlock, CmdlineManagedKeys, Network, Settings, UpdateState}"
  by (auto simp: IsKnownConfigArea_def)

lemma ParseSchemas_ok:
  assumes "ParseSchemas json tokens = Inr ss"
  shows "distinct (map installed_area ss)" and "installed_area ` set ss = {a. IsKnownConfigArea a}"
    and "list_all (\<lambda>s. unat (installed_version s) < 2 ^ 31) ss"
proof -
  obtain schemas where s: "schema_scan json tokens schemas True AreaUnknown [] [] (Suc schemas) = Inr (True, ss)" "length ss = 6"
    using assms by (auto simp: ParseSchemas_def)
  have "scan_inv True AreaUnknown [] []" by (simp add: scan_inv_def)
  from schema_scan_ok [OF s(1) this] obtain current seen where inv: "scan_inv True current seen ss" by blast
  then have seen: "map installed_area ss = rev seen" "distinct seen" "list_all IsKnownConfigArea seen"
    "list_all (\<lambda>s. unat (installed_version s) < 2 ^ 31) ss"
    by (auto simp: scan_inv_def rev_swap)
  show "distinct (map installed_area ss)" using seen(1,2) by simp
  have "set seen = {a. IsKnownConfigArea a}"
  proof (rule card_subset_eq)
    show "finite {a. IsKnownConfigArea a}" by (simp add: known_areas)
    show "set seen \<subseteq> {a. IsKnownConfigArea a}" using seen(3) by (auto simp: list_all_iff)
    have "length seen = 6" using s(2) seen(1) by (metis length_map length_rev)
    then show "card (set seen) = card {a. IsKnownConfigArea a}" using seen(2) by (simp add: distinct_card known_areas)
  qed
  then show "installed_area ` set ss = {a. IsKnownConfigArea a}" using arg_cong [OF seen(1), of set] by simp
  show "list_all (\<lambda>s. unat (installed_version s) < 2 ^ 31) ss" by (rule seen(4))
qed

lemma parse_board_known: "parse_board s = Some b \<Longrightarrow> IsKnownBoardFamily b"
  by (auto simp: parse_board_def IsKnownBoardFamily_def split: if_split_asm)

lemma ParseBuild_ok:
  assumes "ParseBuild json tokens = Inr b"
  shows "build_ok b"
proof -
  let ?f = "\<lambda>name. root_member json tokens (bytes_of name)"
  obtain version seqn epoch board_text commit abi board ss where
    texts: "IsBuildVersion version" "IsCommit commit" "parse_board board_text = Some board" and
    nums: "GetUint json tokens (?f ''release_sequence'') 1 int32_max = Some seqn"
      "GetUint json tokens (?f ''release_epoch'') 1 int64_max = Some epoch"
      "GetUint json tokens (?f ''updater_abi'') 1 int32_max = Some abi" and
    ss: "ParseSchemas json tokens = Inr ss" and
    b: "b = \<lparr>build_version = version, build_sequence = seqn, build_epoch = epoch, build_board = board,
        build_commit = commit, build_abi = ucast abi, build_schemas = ss\<rparr>"
    using assms unfolding ParseBuild_def Let_def bind_sum_Inr need_Inr ensure_Inr sum.inject by blast
  note range = nums [THEN GetUint_range]
  have "unat (ucast abi :: u32) = unat abi" "unat abi < 2 ^ 31" using small_ucast range(3) by blast+
  moreover have "1 \<le> (ucast abi :: u32)" using range(3) calculation(1) by (simp add: word_le_nat_alt)
  ultimately show ?thesis
    using texts range(1,2) ParseSchemas_ok [OF ss] parse_board_known [OF texts(3)]
    by (simp add: build_ok_def b IsCommit_iff IsBuildVersion_iff)
qed

lemma ParseBuildInfo_ok:
  assumes "fst (ParseBuildInfo encoded given capacity info jr) = Inr b"
  shows "build_ok b"
proof -
  obtain js tokens where "ParseBuild js tokens = Inr b"
    using assms by (force simp: ParseBuildInfo_def split: option.split_asm if_split_asm prod.split_asm)
  then show ?thesis by (rule ParseBuild_ok)
qed

end
