(* ===== verification/Release_Feed.thy ===== *)
theory Release_Feed
  imports Json_Access Url_Policy
begin

text \<open>
  The parser of GitHub's release description and the choice of the release's assets,
  \<open>src/src/update/github_release_parser.cpp\<close>, over the JSON parser and the URL policy.

  A character array is the list of its bytes, the byte behind the last one being the NUL.  A null
  pointer is \<open>None\<close>.  The asset array of a release is the list of its first \<open>asset_count\<close> elements; a
  pointer to one of them is its index.  What a failed parse leaves in the caller's array is not part of the
  result, as \<open>asset_count\<close> is zero then.
\<close>

section \<open>Data\<close>

definition kMaximumGitHubReleaseResponseBytes :: nat where "kMaximumGitHubReleaseResponseBytes = 128 * 1024"
definition kMaximumGitHubReleaseAssets :: nat where "kMaximumGitHubReleaseAssets = 64"
definition kMaximumGitHubReleaseTagBytes :: nat where "kMaximumGitHubReleaseTagBytes = 128"
definition kMaximumGitHubAssetNameBytes :: nat where "kMaximumGitHubAssetNameBytes = 160"

definition kManifestAssetName :: "byte list" where "kManifestAssetName = bytes_of ''BMX-RELEASE.json''"
definition kSignatureAssetName :: "byte list" where "kSignatureAssetName = bytes_of ''BMX-RELEASE.sig''"

record GitHubReleaseAsset =
  asset_id :: u64
  asset_name :: "byte list"
  asset_size :: u64
  browser_download_url :: "byte list"
  api_download_url :: "byte list"

record GitHubLatestRelease =
  release_id :: u64
  tag_name :: "byte list"
  release_draft :: bool
  release_prerelease :: bool
  release_assets :: "GitHubReleaseAsset list option"

datatype GitHubReleaseKind = PublishedStable | PreparedDraft

record GitHubReleaseParseStorage =
  tokens_given :: bool
  storage_tokens :: nat
  assets_given :: bool
  asset_capacity :: nat

datatype GitHubReleaseParseStatus =
  ReleaseOk | ReleaseInvalidArgument | ResponseTooLarge | StorageTooSmall | JsonInvalid | WrongRootType |
  MissingField | WrongType | InvalidValue | TooManyAssets | DuplicateAssetName | UrlRejected |
  UrlBindingMismatch | DraftForbidden | PrereleaseForbidden

datatype RequiredGitHubAssetsStatus =
  AssetsOk | AssetsInvalidArgument | IneligibleRelease | InvalidSignedTag | InvalidBoardZipName |
  SignedTagMismatch | AssetsTooMany | AssetsDuplicateName | AssetsUrlRejected | AssetsUrlBindingMismatch |
  MissingManifest | MissingSignature | MissingBoardZip

record RequiredGitHubReleaseAssets =
  required_manifest :: "nat option"
  required_signature :: "nat option"
  required_board_zip :: "nat option"

record GitHubReleaseMetadataAssets =
  metadata_manifest :: "nat option"
  metadata_signature :: "nat option"

datatype CopyStringStatus = CopyOk | CopyWrongType | CopyEmpty | CopyTooLong | CopyUnsafeCharacter

datatype AssetUrlStatus = AssetUrlOk | AssetUrlRejected | AssetUrlBindingMismatch

section \<open>Helpers\<close>

definition unsafe_character :: "byte \<Rightarrow> bool" where
  "unsafe_character c \<longleftrightarrow> c < 0x21 \<or> c > 0x7e \<or> c = ch CHR 0x5C"

definition CopyUnescapedAsciiString :: "byte list \<Rightarrow> JsonToken \<Rightarrow> nat \<Rightarrow> CopyStringStatus \<times> byte list" where
  "CopyUnescapedAsciiString json token output_size =
     (if token_type token \<noteq> JSON_TOKEN_STRING then (CopyWrongType, [])
      else
        let size = token_end token - token_start token in
        if size = 0 then (CopyEmpty, [])
        else if size \<ge> output_size then (CopyTooLong, [])
        else if list_ex unsafe_character (segment json (token_start token) (token_end token))
        then (CopyUnsafeCharacter, [])
        else (CopyOk, segment json (token_start token) (token_end token)))"

definition IsSafeIdentifierCharacter :: "byte \<Rightarrow> bool" where
  "IsSafeIdentifierCharacter c \<longleftrightarrow>
     is_lower c \<or> is_upper c \<or> is_digit c \<or> c = ch CHR ''.'' \<or> c = ch CHR ''_'' \<or> c = ch CHR ''-''"

definition BoundedLength :: "byte list option \<Rightarrow> nat \<Rightarrow> nat" where
  "BoundedLength pointer maximum =
     (case pointer of None \<Rightarrow> Suc maximum | Some s \<Rightarrow> bounded_strlen s (Suc maximum) 0)"

definition IsSafeIdentifier :: "byte list option \<Rightarrow> nat \<Rightarrow> bool" where
  "IsSafeIdentifier pointer maximum =
     (let size = BoundedLength pointer maximum in
      if size = 0 \<or> size > maximum then False
      else list_all IsSafeIdentifierCharacter (take size (the pointer)))"

definition IsSafeTag :: "byte list option \<Rightarrow> bool" where
  "IsSafeTag tag = IsSafeIdentifier tag kMaximumGitHubReleaseTagBytes"

definition IsSafeAssetName :: "byte list option \<Rightarrow> bool" where
  "IsSafeAssetName name \<longleftrightarrow> IsSafeIdentifier name kMaximumGitHubAssetNameBytes \<and>
     c_str (the name) \<noteq> bytes_of ''.'' \<and> c_str (the name) \<noteq> bytes_of ''..''"

definition IsNullTerminatedUrl :: "byte list \<Rightarrow> bool" where
  "IsNullTerminatedUrl url \<longleftrightarrow>
     (let size = BoundedLength (Some url) (kMaximumUpdateUrlBytes - 1) in
      size > 0 \<and> size < kMaximumUpdateUrlBytes)"

definition no_url :: ParsedUpdateUrl where
  "no_url = \<lparr>host = [], path_and_query = [], port = 0\<rparr>"

definition ValidateAssetUrl :: "GitHubReleaseAsset \<Rightarrow> byte list option \<Rightarrow> AssetUrlStatus" where
  "ValidateAssetUrl asset tag =
     (if \<not> IsSafeTag tag \<or> \<not> IsSafeAssetName (Some (asset_name asset)) \<or>
         \<not> IsNullTerminatedUrl (browser_download_url asset)
      then AssetUrlBindingMismatch
      else case ParseAndAuthorizeUpdateUrl (Some (browser_download_url asset)) ReleaseAsset (Some no_url) of
        (status, parsed) \<Rightarrow>
          if status \<noteq> UrlOk then AssetUrlRejected
          else
            let path = path_and_query (the parsed) in
            if \<not> StartsWith path kGitHubReleaseDownloadPathPrefix then AssetUrlBindingMismatch
            else
              let url_tag = drop (length kGitHubReleaseDownloadPathPrefix) path in
              (case index_of (\<lambda>c. c = ch CHR ''/'') url_tag of
                 None \<Rightarrow> AssetUrlBindingMismatch
               | Some sep \<Rightarrow>
                   if sep \<noteq> length (c_str (the tag)) \<or> take sep url_tag \<noteq> c_str (the tag) \<or>
                      drop (Suc sep) url_tag \<noteq> c_str (asset_name asset)
                   then AssetUrlBindingMismatch
                   else AssetUrlOk))"

definition MapCopyStatus :: "CopyStringStatus \<Rightarrow> GitHubReleaseParseStatus" where
  "MapCopyStatus status = (if status = CopyWrongType then WrongType else InvalidValue)"

definition RequiredMember :: "byte list \<Rightarrow> JsonToken list \<Rightarrow> nat \<Rightarrow> byte list \<Rightarrow> nat option" where
  "RequiredMember json tokens object name = JsonFindObjectMember (Some json) (Some tokens) (Some object) (Some name)"

definition SameName :: "GitHubReleaseAsset \<Rightarrow> GitHubReleaseAsset \<Rightarrow> bool" where
  "SameName left right \<longleftrightarrow> c_str (asset_name left) = c_str (asset_name right)"

definition ResetRelease :: GitHubLatestRelease where
  "ResetRelease = \<lparr>release_id = 0, tag_name = [], release_draft = True, release_prerelease = True,
     release_assets = Some []\<rparr>"

definition EligibleKind :: "GitHubLatestRelease \<Rightarrow> GitHubReleaseKind \<Rightarrow> bool" where
  "EligibleKind release kind \<longleftrightarrow>
     (if kind = PreparedDraft then release_draft release \<and> \<not> release_prerelease release
      else \<not> release_draft release \<and> \<not> release_prerelease release)"

definition ValidateApiAssetUrl :: "GitHubReleaseAsset \<Rightarrow> bool" where
  "ValidateApiAssetUrl asset \<longleftrightarrow> asset_id asset \<noteq> 0 \<and> cstr_at (api_download_url asset) 0 \<noteq> 0 \<and>
     fst (ParseAndAuthorizeUpdateUrl (Some (api_download_url asset)) AuthenticatedReleaseAsset (Some no_url)) = UrlOk"

definition ValidateAssetUrlForKind :: "GitHubReleaseAsset \<Rightarrow> byte list option \<Rightarrow> GitHubReleaseKind \<Rightarrow> AssetUrlStatus" where
  "ValidateAssetUrlForKind asset tag kind =
     (if kind = PreparedDraft
      then (if ValidateApiAssetUrl asset then AssetUrlOk else AssetUrlBindingMismatch)
      else ValidateAssetUrl asset tag)"

definition GitHubAssetDownloadUrl :: "GitHubReleaseAsset \<Rightarrow> GitHubReleaseKind \<Rightarrow> byte list" where
  "GitHubAssetDownloadUrl asset kind =
     (if kind = PreparedDraft then api_download_url asset else browser_download_url asset)"

section \<open>The parser\<close>

text \<open>The conversion \<open>%llu\<close>.\<close>

fun decimal_text :: "nat \<Rightarrow> byte list" where
  "decimal_text n = (if n < 10 then [] else decimal_text (n div 10)) @ [of_nat (48 + n mod 10)]"

declare decimal_text.simps [simp del]

definition api_url :: "u64 \<Rightarrow> byte list" where
  "api_url ident = bytes_of ''https://api.github.com'' @ kGitHubReleaseAssetApiPathPrefix @ decimal_text (unat ident)"

text \<open>The field \<open>id\<close>, which may be missing; the left value is the status returned.\<close>

definition read_id :: "byte list \<Rightarrow> JsonToken list \<Rightarrow> nat option \<Rightarrow> GitHubReleaseParseStatus + u64" where
  "read_id json tokens ident =
     (case ident of
        None \<Rightarrow> Inr 0
      | Some i \<Rightarrow>
          (case JsonGetUint64 (Some json) (tokens ! i) True of
             Inr v \<Rightarrow> if v = 0 then Inl InvalidValue else Inr v
           | Inl _ \<Rightarrow> if token_type (tokens ! i) = JSON_TOKEN_NUMBER then Inl InvalidValue else Inl WrongType))"

definition parse_asset ::
  "byte list \<Rightarrow> JsonToken list \<Rightarrow> GitHubReleaseKind \<Rightarrow> byte list \<Rightarrow> GitHubReleaseAsset list \<Rightarrow> nat \<Rightarrow>
   GitHubReleaseParseStatus + GitHubReleaseAsset" where
  "parse_asset json tokens kind tag earlier asset_object =
     (let name = RequiredMember json tokens asset_object (bytes_of ''name'');
          ident = RequiredMember json tokens asset_object (bytes_of ''id'');
          size = RequiredMember json tokens asset_object (bytes_of ''size'');
          url = RequiredMember json tokens asset_object (bytes_of ''browser_download_url'') in
      if name = None \<or> size = None \<or> url = None \<or> (kind = PreparedDraft \<and> ident = None) then Inl MissingField
      else case read_id json tokens ident of
        Inl e \<Rightarrow> Inl e
      | Inr output_id \<Rightarrow>
      (case CopyUnescapedAsciiString json (tokens ! the name) (kMaximumGitHubAssetNameBytes + 1) of (name_copy, output_name) \<Rightarrow>
      if name_copy \<noteq> CopyOk then Inl (MapCopyStatus name_copy)
      else if \<not> IsSafeAssetName (Some output_name) then Inl InvalidValue
      else case JsonGetUint64 (Some json) (tokens ! the size) True of
        Inl _ \<Rightarrow> if token_type (tokens ! the size) = JSON_TOKEN_NUMBER then Inl InvalidValue else Inl WrongType
      | Inr output_size \<Rightarrow>
      (case CopyUnescapedAsciiString json (tokens ! the url) kMaximumUpdateUrlBytes of (url_copy, output_url) \<Rightarrow>
      if url_copy \<noteq> CopyOk then Inl (MapCopyStatus url_copy)
      else
        let output = \<lparr>asset_id = output_id, asset_name = output_name, asset_size = output_size,
              browser_download_url = output_url,
              api_download_url = (if output_id \<noteq> 0 then api_url output_id else [])\<rparr> in
        if output_id \<noteq> 0 \<and> (length (api_url output_id) \<ge> kMaximumUpdateUrlBytes \<or> \<not> ValidateApiAssetUrl output)
        then Inl UrlBindingMismatch
        else if list_ex (\<lambda>a. SameName a output) earlier then Inl DuplicateAssetName
        else case ValidateAssetUrlForKind output (Some tag) kind of
          AssetUrlRejected \<Rightarrow> Inl UrlRejected
        | AssetUrlBindingMismatch \<Rightarrow> Inl UrlBindingMismatch
        | AssetUrlOk \<Rightarrow> Inr output)))"

function asset_loop ::
  "byte list \<Rightarrow> JsonToken list \<Rightarrow> GitHubReleaseKind \<Rightarrow> byte list \<Rightarrow> nat \<Rightarrow> nat \<Rightarrow> nat \<Rightarrow> GitHubReleaseAsset list \<Rightarrow>
   GitHubReleaseParseStatus + GitHubReleaseAsset list" where
  "asset_loop json tokens kind tag assets asset_count token_index outputs =
     (if token_index < length tokens \<and> length outputs < asset_count then
        (if token_parent (tokens ! token_index) \<noteq> Some assets
         then asset_loop json tokens kind tag assets asset_count (Suc token_index) outputs
         else if token_type (tokens ! token_index) \<noteq> JSON_TOKEN_OBJECT then Inl WrongType
         else case parse_asset json tokens kind tag outputs token_index of
           Inl e \<Rightarrow> Inl e
         | Inr output \<Rightarrow> asset_loop json tokens kind tag assets asset_count (Suc token_index) (outputs @ [output]))
      else Inr outputs)"
  by pat_completeness auto
termination
  by (relation "measure (\<lambda>(json, tokens, kind, tag, assets, asset_count, token_index, outputs). length tokens - token_index)") auto

declare asset_loop.simps [simp del]

text \<open>The array of assets, once the fields of the release are read.\<close>

definition read_assets ::
  "byte list \<Rightarrow> JsonToken list \<Rightarrow> GitHubReleaseKind \<Rightarrow> nat \<Rightarrow> nat \<Rightarrow> GitHubLatestRelease \<Rightarrow>
   GitHubReleaseParseStatus \<times> GitHubLatestRelease" where
  "read_assets json tokens kind capacity assets release =
     (let asset_count = child_count (tokens ! assets) in
      if asset_count > kMaximumGitHubReleaseAssets then (TooManyAssets, release)
      else if asset_count > capacity then (StorageTooSmall, release)
      else case asset_loop json tokens kind (tag_name release) assets asset_count (Suc assets) [] of
        Inl e \<Rightarrow> (e, release)
      | Inr outputs \<Rightarrow>
          if length outputs \<noteq> asset_count then (JsonInvalid, release)
          else (ReleaseOk, release\<lparr>release_assets := Some outputs\<rparr>))"

definition read_flags ::
  "byte list \<Rightarrow> JsonToken list \<Rightarrow> GitHubReleaseKind \<Rightarrow> nat \<Rightarrow> nat \<Rightarrow> nat \<Rightarrow> nat \<Rightarrow> GitHubLatestRelease \<Rightarrow>
   GitHubReleaseParseStatus \<times> GitHubLatestRelease" where
  "read_flags json tokens kind capacity draft prerelease assets release =
     (case JsonGetBool (tokens ! draft) True of
        Inl _ \<Rightarrow> (WrongType, release)
      | Inr d \<Rightarrow>
          let release = release\<lparr>release_draft := d\<rparr> in
          (case JsonGetBool (tokens ! prerelease) True of
             Inl _ \<Rightarrow> (WrongType, release)
           | Inr pre \<Rightarrow>
               let release = release\<lparr>release_prerelease := pre\<rparr> in
               if token_type (tokens ! assets) \<noteq> JSON_TOKEN_ARRAY then (WrongType, release)
               else if release_draft release \<and> kind \<noteq> PreparedDraft then (DraftForbidden, release)
               else if release_prerelease release then (PrereleaseForbidden, release)
               else if kind = PreparedDraft \<and> \<not> release_draft release then (DraftForbidden, release)
               else read_assets json tokens kind capacity assets release))"

definition read_release ::
  "byte list \<Rightarrow> JsonToken list \<Rightarrow> GitHubReleaseKind \<Rightarrow> nat \<Rightarrow> GitHubLatestRelease \<Rightarrow>
   GitHubReleaseParseStatus \<times> GitHubLatestRelease" where
  "read_release json tokens kind capacity release =
     (if tokens = [] \<or> token_type (tokens ! 0) \<noteq> JSON_TOKEN_OBJECT then (WrongRootType, release)
      else
        let ident = RequiredMember json tokens 0 (bytes_of ''id'');
            tag = RequiredMember json tokens 0 (bytes_of ''tag_name'');
            draft = RequiredMember json tokens 0 (bytes_of ''draft'');
            prerelease = RequiredMember json tokens 0 (bytes_of ''prerelease'');
            assets = RequiredMember json tokens 0 (bytes_of ''assets'') in
        if tag = None \<or> draft = None \<or> prerelease = None \<or> assets = None \<or> (kind = PreparedDraft \<and> ident = None)
        then (MissingField, release)
        else case read_id json tokens ident of
          Inl e \<Rightarrow> (e, release)
        | Inr v \<Rightarrow>
            let release = release\<lparr>release_id := v\<rparr> in
            (case CopyUnescapedAsciiString json (tokens ! the tag) (kMaximumGitHubReleaseTagBytes + 1) of (tag_copy, text) \<Rightarrow>
             if tag_copy \<noteq> CopyOk then (MapCopyStatus tag_copy, release)
             else
               let release = release\<lparr>tag_name := text\<rparr> in
               if \<not> IsSafeTag (Some text) then (InvalidValue, release)
               else read_flags json tokens kind capacity (the draft) (the prerelease) (the assets) release))"

definition ParseGitHubRelease ::
  "byte list option \<Rightarrow> GitHubReleaseParseStorage \<Rightarrow> GitHubReleaseKind \<Rightarrow> GitHubLatestRelease option \<Rightarrow>
   JsonParseResult option \<Rightarrow> GitHubReleaseParseStatus \<times> GitHubLatestRelease option \<times> JsonParseResult option" where
  "ParseGitHubRelease encoded storage kind release json_result =
     (let json_result = map_option (\<lambda>_. \<lparr>result_error = JSON_ERROR_ARGUMENT, token_count = 0, error_offset = 0\<rparr>) json_result in
      case (release, encoded) of
        (Some _, Some json) \<Rightarrow>
          if json = [] \<or> \<not> tokens_given storage \<or> \<not> assets_given storage
          then (ReleaseInvalidArgument, release, json_result)
          else
            let release = ResetRelease in
            if length json > kMaximumGitHubReleaseResponseBytes then (ResponseTooLarge, Some release, json_result)
            else if storage_tokens storage = 0 \<or> asset_capacity storage = 0 then (StorageTooSmall, Some release, json_result)
            else (case ParseJson (Some json) True (storage_tokens storage) 32 of (parsed, tokens) \<Rightarrow>
              let json_result = map_option (\<lambda>_. parsed) json_result in
              if result_error parsed = JSON_ERROR_TOKEN_LIMIT then (StorageTooSmall, Some release, json_result)
              else if result_error parsed \<noteq> JSON_OK then (JsonInvalid, Some release, json_result)
              else (case read_release json (take (token_count parsed) tokens) kind (asset_capacity storage) release of
                (status, release) \<Rightarrow> (status, Some release, json_result)))
      | _ \<Rightarrow> (ReleaseInvalidArgument, release, json_result))"

definition ParseGitHubLatestRelease ::
  "byte list option \<Rightarrow> GitHubReleaseParseStorage \<Rightarrow> GitHubLatestRelease option \<Rightarrow>
   JsonParseResult option \<Rightarrow> GitHubReleaseParseStatus \<times> GitHubLatestRelease option \<times> JsonParseResult option" where
  "ParseGitHubLatestRelease encoded storage release json_result =
     ParseGitHubRelease encoded storage PublishedStable release json_result"

section \<open>The choice of assets\<close>

text \<open>The checks both searches make of every asset before they look at its name.\<close>

definition check_asset ::
  "GitHubReleaseKind \<Rightarrow> byte list option \<Rightarrow> GitHubReleaseAsset list \<Rightarrow> GitHubReleaseAsset \<Rightarrow> RequiredGitHubAssetsStatus" where
  "check_asset kind tag earlier asset =
     (if \<not> IsSafeAssetName (Some (asset_name asset)) \<or> \<not> IsNullTerminatedUrl (browser_download_url asset) \<or>
         (kind = PreparedDraft \<and> \<not> ValidateApiAssetUrl asset)
      then AssetsUrlBindingMismatch
      else if list_ex (\<lambda>a. c_str (asset_name a) = c_str (asset_name asset)) earlier then AssetsDuplicateName
      else case ValidateAssetUrlForKind asset tag kind of
        AssetUrlRejected \<Rightarrow> AssetsUrlRejected
      | AssetUrlBindingMismatch \<Rightarrow> AssetsUrlBindingMismatch
      | AssetUrlOk \<Rightarrow> AssetsOk)"

primrec metadata_loop ::
  "GitHubReleaseKind \<Rightarrow> byte list \<Rightarrow> GitHubReleaseAsset list \<Rightarrow> GitHubReleaseAsset list \<Rightarrow> GitHubReleaseMetadataAssets \<Rightarrow>
   RequiredGitHubAssetsStatus \<times> GitHubReleaseMetadataAssets" where
  "metadata_loop kind tag earlier [] metadata = (AssetsOk, metadata)"
| "metadata_loop kind tag earlier (asset # assets) metadata =
     (let status = check_asset kind (Some tag) earlier asset in
      if status \<noteq> AssetsOk then (status, metadata)
      else metadata_loop kind tag (earlier @ [asset]) assets
        (if c_str (asset_name asset) = kManifestAssetName
         then metadata\<lparr>metadata_manifest := Some (length earlier)\<rparr>
         else if c_str (asset_name asset) = kSignatureAssetName
         then metadata\<lparr>metadata_signature := Some (length earlier)\<rparr>
         else metadata))"

definition FindReleaseMetadataAssetsForKind ::
  "GitHubLatestRelease \<Rightarrow> GitHubReleaseKind \<Rightarrow> GitHubReleaseMetadataAssets option \<Rightarrow>
   RequiredGitHubAssetsStatus \<times> GitHubReleaseMetadataAssets option" where
  "FindReleaseMetadataAssetsForKind release kind metadata =
     (if metadata = None then (AssetsInvalidArgument, metadata)
      else
        let none = \<lparr>metadata_manifest = None, metadata_signature = None\<rparr> in
        case release_assets release of
          None \<Rightarrow> (AssetsInvalidArgument, Some none)
        | Some assets \<Rightarrow>
            if \<not> EligibleKind release kind then (IneligibleRelease, Some none)
            else if \<not> IsSafeTag (Some (tag_name release)) then (InvalidSignedTag, Some none)
            else if length assets > kMaximumGitHubReleaseAssets then (AssetsTooMany, Some none)
            else (case metadata_loop kind (tag_name release) [] assets none of
              (status, found) \<Rightarrow>
                ((if status \<noteq> AssetsOk then status
                  else if metadata_manifest found = None then MissingManifest
                  else if metadata_signature found = None then MissingSignature
                  else AssetsOk), Some found)))"

definition FindReleaseMetadataAssets ::
  "GitHubLatestRelease \<Rightarrow> GitHubReleaseMetadataAssets option \<Rightarrow>
   RequiredGitHubAssetsStatus \<times> GitHubReleaseMetadataAssets option" where
  "FindReleaseMetadataAssets release metadata = FindReleaseMetadataAssetsForKind release PublishedStable metadata"

primrec required_loop ::
  "GitHubReleaseKind \<Rightarrow> byte list \<Rightarrow> byte list \<Rightarrow> GitHubReleaseAsset list \<Rightarrow> GitHubReleaseAsset list \<Rightarrow>
   RequiredGitHubReleaseAssets \<Rightarrow> RequiredGitHubAssetsStatus \<times> RequiredGitHubReleaseAssets" where
  "required_loop kind tag zip_name earlier [] required = (AssetsOk, required)"
| "required_loop kind tag zip_name earlier (asset # assets) required =
     (let status = check_asset kind (Some tag) earlier asset in
      if status \<noteq> AssetsOk then (status, required)
      else required_loop kind tag zip_name (earlier @ [asset]) assets
        (if c_str (asset_name asset) = kManifestAssetName
         then required\<lparr>required_manifest := Some (length earlier)\<rparr>
         else if c_str (asset_name asset) = kSignatureAssetName
         then required\<lparr>required_signature := Some (length earlier)\<rparr>
         else if c_str (asset_name asset) = c_str zip_name
         then required\<lparr>required_board_zip := Some (length earlier)\<rparr>
         else required))"

definition ResetRequired :: RequiredGitHubReleaseAssets where
  "ResetRequired = \<lparr>required_manifest = None, required_signature = None, required_board_zip = None\<rparr>"

definition FindRequiredAssetsForKind ::
  "GitHubLatestRelease \<Rightarrow> GitHubReleaseKind \<Rightarrow> byte list option \<Rightarrow> byte list option \<Rightarrow>
   RequiredGitHubReleaseAssets option \<Rightarrow> RequiredGitHubAssetsStatus \<times> RequiredGitHubReleaseAssets option" where
  "FindRequiredAssetsForKind release kind signed_manifest_tag signed_board_zip_name required =
     (if required = None then (AssetsInvalidArgument, required)
      else case (release_assets release, signed_manifest_tag, signed_board_zip_name) of
        (Some assets, Some tag, Some zip_name) \<Rightarrow>
          if \<not> EligibleKind release kind then (IneligibleRelease, Some ResetRequired)
          else if \<not> IsSafeTag (Some tag) then (InvalidSignedTag, Some ResetRequired)
          else if \<not> IsSafeAssetName (Some zip_name) \<or> c_str zip_name = kManifestAssetName \<or>
                  c_str zip_name = kSignatureAssetName
          then (InvalidBoardZipName, Some ResetRequired)
          else if \<not> IsSafeTag (Some (tag_name release)) \<or> c_str (tag_name release) \<noteq> c_str tag
          then (SignedTagMismatch, Some ResetRequired)
          else if length assets > kMaximumGitHubReleaseAssets then (AssetsTooMany, Some ResetRequired)
          else (case required_loop kind tag zip_name [] assets ResetRequired of
            (status, found) \<Rightarrow>
              ((if status \<noteq> AssetsOk then status
                else if required_manifest found = None then MissingManifest
                else if required_signature found = None then MissingSignature
                else if required_board_zip found = None then MissingBoardZip
                else AssetsOk), Some found))
      | _ \<Rightarrow> (AssetsInvalidArgument, Some ResetRequired))"

definition FindRequiredAssets ::
  "GitHubLatestRelease \<Rightarrow> byte list option \<Rightarrow> byte list option \<Rightarrow>
   RequiredGitHubReleaseAssets option \<Rightarrow> RequiredGitHubAssetsStatus \<times> RequiredGitHubReleaseAssets option" where
  "FindRequiredAssets release signed_manifest_tag signed_board_zip_name required =
     FindRequiredAssetsForKind release PublishedStable signed_manifest_tag signed_board_zip_name required"

end
