(* ===== verification/Release_Exact.thy ===== *)
theory Release_Exact
  imports Release_Feed
begin

text \<open>
  What the release parser accepts and what the search for assets returns, both exactly: identifiers and
  addresses, the fields of an object, the array of assets, the release, and the assets of an update.
\<close>

section \<open>Identifiers and URLs\<close>

definition plain_identifier :: "nat \<Rightarrow> byte list \<Rightarrow> bool" where
  "plain_identifier maximum s \<longleftrightarrow> s \<noteq> [] \<and> length s \<le> maximum \<and> list_all IsSafeIdentifierCharacter s"

lemma take_strlen: "take (c_strlen s) s = c_str s"
  unfolding c_strlen_def c_str_def by (metis takeWhile_eq_take)

lemma length_c_str: "length (c_str s) = c_strlen s"
  by (simp add: c_str_def c_strlen_def)

lemma BoundedLength_eq: "BoundedLength (Some s) maximum = min (Suc maximum) (c_strlen s)"
  by (simp add: BoundedLength_def bounded_strlen_eq)

lemma IsSafeIdentifier_iff: "IsSafeIdentifier (Some s) maximum \<longleftrightarrow> plain_identifier maximum (c_str s)"
  by (auto simp: IsSafeIdentifier_def Let_def BoundedLength_eq plain_identifier_def take_strlen
      length_c_str [symmetric] min_def not_le simp del: length_0_conv) (auto simp: take_strlen length_c_str)

definition safe_tag :: "byte list \<Rightarrow> bool" where
  "safe_tag s \<longleftrightarrow> plain_identifier kMaximumGitHubReleaseTagBytes s"

definition safe_name :: "byte list \<Rightarrow> bool" where
  "safe_name s \<longleftrightarrow> plain_identifier kMaximumGitHubAssetNameBytes s \<and> s \<noteq> bytes_of ''.'' \<and> s \<noteq> bytes_of ''..''"

lemma IsSafeTag_iff: "IsSafeTag (Some s) \<longleftrightarrow> safe_tag (c_str s)"
  by (simp add: IsSafeTag_def IsSafeIdentifier_iff safe_tag_def)

lemma IsSafeAssetName_iff: "IsSafeAssetName (Some s) \<longleftrightarrow> safe_name (c_str s)"
  by (simp add: IsSafeAssetName_def IsSafeIdentifier_iff safe_name_def)

lemma IsNullTerminatedUrl_iff:
  "IsNullTerminatedUrl url \<longleftrightarrow> c_str url \<noteq> [] \<and> length (c_str url) < kMaximumUpdateUrlBytes"
  by (auto simp: IsNullTerminatedUrl_def Let_def BoundedLength_eq length_c_str [symmetric] kMaximumUpdateUrlBytes_def)

text \<open>The two spellings of the address of an asset that GitHub publishes under a tag.\<close>

definition download_urls :: "byte list \<Rightarrow> byte list \<Rightarrow> byte list set" where
  "download_urls tag name = {bytes_of ''https://github.com'' @ port_part @
     bytes_of ''/kdre/bmx/releases/download/'' @ tag @ ch CHR ''/'' # name | port_part. port_part \<in> {[], bytes_of '':443''}}"

lemma identifier_characters:
  assumes "IsSafeIdentifierCharacter c"
  shows "c \<noteq> 0" "c \<noteq> ch CHR ''/''" "c \<noteq> ch CHR ''?''" "c \<noteq> ch CHR ''#''" "\<not> IsForbiddenRequestCharacter c"
  using assms
  by (auto simp: IsSafeIdentifierCharacter_def IsForbiddenRequestCharacter_def is_lower_def is_upper_def is_digit_def
      bmx_chars word_le_nat_alt word_less_nat_alt)

lemma plain_identifier_set: "plain_identifier n s \<Longrightarrow> c \<in> set s \<Longrightarrow> IsSafeIdentifierCharacter c"
  by (simp add: plain_identifier_def list_all_iff)

lemma authorize_Some: "\<exists>p. snd (ParseAndAuthorizeUpdateUrl (Some url) purpose (Some parsed)) = Some p"
  by (auto simp: ParseAndAuthorizeUpdateUrl_def Let_def split: option.split)

definition asset_path :: "byte list \<Rightarrow> byte list \<Rightarrow> byte list" where
  "asset_path tag name = bytes_of ''/kdre/bmx/releases/download/'' @ tag @ ch CHR ''/'' # name"

lemma asset_path_allowed:
  assumes "safe_tag tag" and "safe_name name"
  shows "wf_request_path (asset_path tag name)" and "allowed_target ReleaseAsset (bytes_of ''github.com'') (asset_path tag name)"
    and "length (asset_path tag name) \<le> 320"
proof -
  have ok: "\<not> IsForbiddenRequestCharacter c \<and> c \<noteq> ch CHR ''#'' \<and> c \<noteq> ch CHR ''/'' \<and> c \<noteq> ch CHR ''?''" if "c \<in> set tag \<union> set name" for c
    using assms that identifier_characters [of c] plain_identifier_set by (auto simp: safe_tag_def safe_name_def)
  have len: "length tag \<le> 128" "length name \<le> 160" "tag \<noteq> []" "name \<noteq> []"
    using assms by (simp_all add: safe_tag_def safe_name_def plain_identifier_def kMaximumGitHubReleaseTagBytes_def
        kMaximumGitHubAssetNameBytes_def)
  show short: "length (asset_path tag name) \<le> 320" using len by (simp add: asset_path_def)
  show "wf_request_path (asset_path tag name)"
    using ok short by (auto simp: wf_request_path_def asset_path_def list_all_iff kMaximumUpdatePathBytes_def
        IsForbiddenRequestCharacter_def bmx_chars)
  show "allowed_target ReleaseAsset (bytes_of ''github.com'') (asset_path tag name)"
    using ok len(3,4) by (auto simp: asset_path_def)
qed

lemma ValidateAssetUrl_Ok_iff:
  "ValidateAssetUrl asset (Some tag) = AssetUrlOk \<longleftrightarrow>
     safe_tag (c_str tag) \<and> safe_name (c_str (asset_name asset)) \<and>
     c_str (browser_download_url asset) \<in> download_urls (c_str tag) (c_str (asset_name asset))" (is "?l \<longleftrightarrow> ?r")
proof
  let ?t = "c_str tag" and ?n = "c_str (asset_name asset)" and ?u = "browser_download_url asset"
  let ?pre = "kGitHubReleaseDownloadPathPrefix"
  {
    assume ?l
    then obtain parsed where url: "ParseAndAuthorizeUpdateUrl (Some ?u) ReleaseAsset (Some no_url) = (UrlOk, Some parsed)"
      and safe: "safe_tag ?t" "safe_name ?n"
      using authorize_Some [of ?u ReleaseAsset no_url]
      by (auto simp: ValidateAssetUrl_def IsSafeTag_iff IsSafeAssetName_iff split: if_split_asm prod.splits)
    with \<open>?l\<close> obtain sep where path: "StartsWith (path_and_query parsed) ?pre"
      and sep: "index_of (\<lambda>c. c = ch CHR ''/'') (drop (length ?pre) (path_and_query parsed)) = Some sep"
      and parts: "take sep (drop (length ?pre) (path_and_query parsed)) = ?t"
        "drop (Suc sep) (drop (length ?pre) (path_and_query parsed)) = ?n"
      by (simp add: ValidateAssetUrl_def Let_def split: if_split_asm option.splits)
    obtain rest where rest: "path_and_query parsed = ?pre @ rest" using path unfolding StartsWith_iff by blast
    have "index_of (\<lambda>c. c = ch CHR ''/'') rest = Some sep" using sep rest by simp
    then obtain ys zs where "rest = ys @ ch CHR ''/'' # zs" "length ys = sep" unfolding index_of_eq_Some by blast
    then have "path_and_query parsed = asset_path ?t ?n"
      using parts rest by (simp add: asset_path_def kGitHubReleaseDownloadPathPrefix_def)
    moreover have "host parsed = bytes_of ''github.com''" using url unfolding accepted_url_parts by simp
    ultimately show ?r using url safe unfolding accepted_url_parts by (auto simp: download_urls_def asset_path_def)
  next
    assume r: ?r
    then have safe: "safe_tag ?t" "safe_name ?n" by simp_all
    obtain pp where pp: "pp \<in> {[], bytes_of '':443''}" and u: "c_str ?u = bytes_of ''https://github.com'' @ pp @ asset_path ?t ?n"
      using r by (auto simp: download_urls_def asset_path_def)
    let ?p = "\<lparr>host = bytes_of ''github.com'', path_and_query = asset_path ?t ?n, port = 443\<rparr>"
    note allowed = asset_path_allowed [OF safe]
    have len: "length (c_str ?u) < kMaximumUpdateUrlBytes" "c_str ?u \<noteq> []"
      using pp u allowed(3) by (auto simp: kMaximumUpdateUrlBytes_def)
    have "ParseAndAuthorizeUpdateUrl (Some ?u) ReleaseAsset (Some no_url) = (UrlOk, Some ?p)"
      unfolding accepted_url_parts using pp u allowed len(1)
      by (auto simp: wf_host_def kMaximumUpdateHostBytes_def IsAsciiHostCharacter_def is_lower_def bmx_chars)
    moreover have "index_of (\<lambda>c. c = ch CHR ''/'') (?t @ ch CHR ''/'' # ?n) = Some (length ?t)"
      using safe(1) identifier_characters(2) plain_identifier_set
      by (intro index_of_eq_Some [THEN iffD2] exI [of _ ?t] exI [of _ ?n]) (auto simp: safe_tag_def)
    ultimately show ?l
      using safe len by (simp add: ValidateAssetUrl_def IsSafeTag_iff IsSafeAssetName_iff IsNullTerminatedUrl_iff Let_def
          asset_path_def kGitHubReleaseDownloadPathPrefix_def StartsWith_iff)
  }
qed

section \<open>The address of an asset of a draft\<close>

lemma decimal_digit_char:
  assumes "d < 10"
  shows "is_digit (of_nat (48 + d))" and "of_nat (48 + d) = ch CHR ''0'' \<longleftrightarrow> d = 0"
proof -
  have "unat (of_nat (48 + d) :: byte) = 48 + d" using assms by (intro unat_of_nat_small) simp
  then show "is_digit (of_nat (48 + d))" "of_nat (48 + d) = ch CHR ''0'' \<longleftrightarrow> d = 0"
    using assms by (auto simp: is_digit_def bmx_chars word_le_nat_alt word_unat_eq_iff simp del: of_nat_add)
qed

lemma decimal_text_positive: "0 < n \<Longrightarrow> positive_decimal (decimal_text n)"
proof (induction n rule: decimal_text.induct)
  case (1 n)
  note eq = decimal_text.simps [of n]
  have d: "n mod 10 < 10" by simp
  show ?case
  proof (cases "n < 10")
    case True
    then show ?thesis using decimal_digit_char [OF d] "1.prems" by (subst eq) (simp add: positive_decimal_def del: of_nat_add)
  next
    case False
    then have "positive_decimal (decimal_text (n div 10))" by (intro "1.IH") simp_all
    with False show ?thesis using decimal_digit_char(1) [OF d] by (subst eq) (simp add: positive_decimal_def del: of_nat_add)
  qed
qed

lemma decimal_text_length: "n < 10 ^ Suc k \<Longrightarrow> length (decimal_text n) \<le> Suc k"
proof (induction k arbitrary: n)
  case (Suc k)
  then have "n div 10 < 10 ^ Suc k" by (simp add: div_less_iff_less_mult)
  from Suc.IH [OF this] show ?case by (subst decimal_text.simps) simp
qed (subst decimal_text.simps, simp)

definition api_path :: "byte list \<Rightarrow> byte list" where
  "api_path n = bytes_of ''/repos/kdre/bmx/releases/assets/'' @ n"

lemma api_path_ok:
  assumes "positive_decimal n" and "length (api_path n) < kMaximumUpdatePathBytes"
  shows "wf_request_path (api_path n)"
proof -
  have digit: "\<not> IsForbiddenRequestCharacter c \<and> c \<noteq> ch CHR ''#''" if "is_digit c" for c
    using that identifier_characters [of c] by (auto simp: IsSafeIdentifierCharacter_def)
  show ?thesis
    using assms digit by (auto simp: wf_request_path_def api_path_def positive_decimal_def list_all_iff
        kMaximumUpdatePathBytes_def IsForbiddenRequestCharacter_def bmx_chars)
qed

lemma api_url_valid:
  assumes "ident \<noteq> 0"
  shows "length (api_url ident) < kMaximumUpdateUrlBytes" and "c_str (api_url ident) = api_url ident"
    and "asset_id a = ident \<Longrightarrow> api_download_url a = api_url ident \<Longrightarrow> ValidateApiAssetUrl a"
proof -
  let ?n = "decimal_text (unat ident)"
  have u: "api_url ident = bytes_of ''https://'' @ bytes_of ''api.github.com'' @ [] @ api_path ?n"
    by (simp add: api_url_def api_path_def kGitHubReleaseAssetApiPathPrefix_def)
  have "unat ident < 2 ^ 64" using unsigned_less [of ident] by simp
  then have "unat ident < 10 ^ Suc 19" by simp
  then have len: "length ?n \<le> 20" using decimal_text_length [of "unat ident" 19] by simp
  have pos: "positive_decimal ?n" using assms by (intro decimal_text_positive) (simp add: unat_gt_0)
  have long: "length (api_path ?n) \<le> 60" using len by (simp add: api_path_def)
  then have path: "wf_request_path (api_path ?n)" by (intro api_path_ok [OF pos]) (simp add: kMaximumUpdatePathBytes_def)
  show short: "length (api_url ident) < kMaximumUpdateUrlBytes" using long u by (simp add: kMaximumUpdateUrlBytes_def)
  have "0 \<notin> set ?n" using pos by (auto simp: positive_decimal_def list_all_iff is_digit_def bmx_chars)
  then show str: "c_str (api_url ident) = api_url ident"
    by (intro c_str_id) (simp add: u api_path_def bmx_chars)
  show "ValidateApiAssetUrl a" if "asset_id a = ident" "api_download_url a = api_url ident"
  proof -
    let ?p = "\<lparr>host = bytes_of ''api.github.com'', path_and_query = api_path ?n, port = 443\<rparr>"
    have "allowed_target AuthenticatedReleaseAsset (bytes_of ''api.github.com'') (api_path ?n)"
      using pos by (auto simp: api_path_def)
    moreover have "wf_host (bytes_of ''api.github.com'')"
      by (simp add: wf_host_def kMaximumUpdateHostBytes_def IsAsciiHostCharacter_def is_lower_def bmx_chars)
    ultimately have "ParseAndAuthorizeUpdateUrl (Some (api_url ident)) AuthenticatedReleaseAsset (Some no_url) = (UrlOk, Some ?p)"
      unfolding accepted_url_parts using short str path u by auto
    moreover have "cstr_at (api_url ident) 0 \<noteq> 0" by (simp add: u cstr_at_def ch_def)
    ultimately show ?thesis using that assms by (simp add: ValidateApiAssetUrl_def)
  qed
qed

section \<open>Fields\<close>

definition string_field :: "json_member list \<Rightarrow> byte list \<Rightarrow> byte list \<Rightarrow> bool" where
  "string_field ms key s \<longleftrightarrow> (\<exists>cs. map_of (object_members ms) key = Some (JString cs) \<and> s = string_text cs \<and>
     s \<noteq> [] \<and> \<not> list_ex unsafe_character s)"

definition number_field :: "json_member list \<Rightarrow> byte list \<Rightarrow> u64 \<Rightarrow> bool" where
  "number_field ms key x \<longleftrightarrow> (\<exists>bs k. map_of (object_members ms) key = Some (JNumber bs) \<and>
     digits_value 10 decimal_digit bs = Some k \<and> k < 2 ^ 64 \<and> x = of_nat k)"

definition bool_field :: "json_member list \<Rightarrow> byte list \<Rightarrow> bool \<Rightarrow> bool" where
  "bool_field ms key x \<longleftrightarrow> map_of (object_members ms) key = Some (if x then JTrue else JFalse)"

definition id_field :: "GitHubReleaseKind \<Rightarrow> json_member list \<Rightarrow> u64 \<Rightarrow> bool" where
  "id_field kind ms x \<longleftrightarrow>
     map_of (object_members ms) (bytes_of ''id'') = None \<and> kind = PublishedStable \<and> x = 0 \<or>
     number_field ms (bytes_of ''id'') x \<and> x \<noteq> 0"

lemma RequiredMember_cases:
  assumes "located js tokens (JObject blank ms) p i parent" and "0 \<notin> set name"
  obtains "RequiredMember js tokens i name = None" "map_of (object_members ms) name = None"
  | j v q where "RequiredMember js tokens i name = Some j" "map_of (object_members ms) name = Some v"
      "located js tokens v q j (Some i)"
proof -
  let ?at = "member_at name ms (p + 1 + length blank) (Suc i)"
  note find = find_member_located [OF assms(1), of name, unfolded c_str_id [OF assms(2)]]
  have v: "map_of (object_members ms) name = map_option fst ?at" by (simp add: member_at_map_of)
  show thesis
  proof (cases ?at)
    case None
    then show thesis using that(1) find(1) v by (simp add: RequiredMember_def)
  next
    case (Some x)
    obtain w q j where "x = (w, q, j)" by (cases x)
    then show thesis using that(2) [of j w q] find Some v by (simp add: RequiredMember_def)
  qed
qed

lemma RequiredMember_None:
  assumes "located js tokens (JObject blank ms) p i parent" and "0 \<notin> set name"
  shows "RequiredMember js tokens i name = None \<longleftrightarrow> map_of (object_members ms) name = None"
  by (rule RequiredMember_cases [OF assms]) simp_all

lemma located_member_value:
  assumes "located js tokens (JObject blank ms) p i parent" and "0 \<notin> set name" and "RequiredMember js tokens i name = Some j"
  obtains v q where "map_of (object_members ms) name = Some v" "located js tokens v q j (Some i)"
  using RequiredMember_cases [OF assms(1,2)] assms(3) by (metis option.distinct(1) option.inject)

lemma located_segment:
  assumes "located js tokens (JString cs) p i parent"
  shows "segment js (token_start (tokens ! i)) (token_end (tokens ! i)) = string_text cs"
    and "token_end (tokens ! i) - token_start (tokens ! i) = length (string_text cs)"
  using assms located_token(2) [OF assms] text_at_segment [of js "Suc p" "string_text cs"]
  by (simp_all add: located_def quoted_def)

lemma copy_field:
  assumes "located js tokens (JObject blank ms) p i parent" and "0 \<notin> set name" and "RequiredMember js tokens i name = Some j"
  shows "CopyUnescapedAsciiString js (tokens ! j) n = (CopyOk, s) \<longleftrightarrow> string_field ms name s \<and> length s < n"
proof -
  obtain v q where v: "map_of (object_members ms) name = Some v" "located js tokens v q j (Some i)"
    using located_member_value [OF assms] .
  show ?thesis
  proof (cases "\<exists>cs. v = JString cs")
    case True
    then obtain cs where cs: "v = JString cs" by blast
    then have "token_type (tokens ! j) = JSON_TOKEN_STRING" using located_token(2) [OF v(2)] by simp
    with v cs show ?thesis
      by (auto simp: CopyUnescapedAsciiString_def located_segment [OF v(2) [unfolded cs]] string_field_def Let_def)
  next
    case False
    then have "token_type (tokens ! j) \<noteq> JSON_TOKEN_STRING" using located_token(2) [OF v(2)] by (cases v) simp_all
    with v False show ?thesis by (simp add: CopyUnescapedAsciiString_def string_field_def)
  qed
qed

lemma number_field_read:
  assumes "located js tokens (JObject blank ms) p i parent" and "0 \<notin> set name" and "RequiredMember js tokens i name = Some j"
  shows "JsonGetUint64 (Some js) (tokens ! j) True = Inr x \<longleftrightarrow> number_field ms name x"
proof -
  obtain v q where v: "map_of (object_members ms) name = Some v" "located js tokens v q j (Some i)"
    using located_member_value [OF assms] .
  show ?thesis
  proof (cases "\<exists>bs. v = JNumber bs")
    case True
    then show ?thesis using v uint64_located by (auto simp: number_field_def)
  next
    case False
    then have "token_type (tokens ! j) \<noteq> JSON_TOKEN_NUMBER" using located_token(2) [OF v(2)] by (cases v) simp_all
    with v False show ?thesis by (simp add: JsonGetUint64_def number_field_def)
  qed
qed

lemma bool_field_read:
  assumes "located js tokens (JObject blank ms) p i parent" and "0 \<notin> set name" and "RequiredMember js tokens i name = Some j"
  shows "JsonGetBool (tokens ! j) True = Inr x \<longleftrightarrow> bool_field ms name x"
proof -
  obtain v q where v: "map_of (object_members ms) name = Some v" "located js tokens v q j (Some i)"
    using located_member_value [OF assms] .
  show ?thesis using v located_token(2) [OF v(2)] by (cases v) (auto simp: JsonGetBool_def bool_field_def)
qed

lemma read_id_iff:
  assumes "located js tokens (JObject blank ms) p i parent"
  defines "ident \<equiv> RequiredMember js tokens i (bytes_of ''id'')"
  shows "\<not> (kind = PreparedDraft \<and> ident = None) \<and> read_id js tokens ident = Inr x \<longleftrightarrow> id_field kind ms x"
proof -
  have nul: "0 \<notin> set (bytes_of ''id'')" by (simp add: bmx_chars)
  show ?thesis
  proof (cases ident)
    case None
    then have "map_of (object_members ms) (bytes_of ''id'') = None"
      using RequiredMember_None [OF assms(1) nul] by (simp add: ident_def)
    with None show ?thesis by (cases kind) (auto simp: read_id_def id_field_def number_field_def)
  next
    case (Some j)
    then have here: "RequiredMember js tokens i (bytes_of ''id'') = Some j" by (simp add: ident_def)
    have "map_of (object_members ms) (bytes_of ''id'') \<noteq> None" using RequiredMember_None [OF assms(1) nul] here by simp
    moreover have "read_id js tokens (Some j) = Inr x \<longleftrightarrow> JsonGetUint64 (Some js) (tokens ! j) True = Inr x \<and> x \<noteq> 0"
      by (auto simp: read_id_def split: sum.split)
    ultimately show ?thesis unfolding Some number_field_read [OF assms(1) nul here] by (auto simp: id_field_def)
  qed
qed

lemma parse_asset_Inr:
  fixes i :: nat and js :: "byte list" and tokens :: "JsonToken list"
  defines "name \<equiv> RequiredMember js tokens i (bytes_of ''name'')" and "ident \<equiv> RequiredMember js tokens i (bytes_of ''id'')"
    and "size_token \<equiv> RequiredMember js tokens i (bytes_of ''size'')"
    and "url \<equiv> RequiredMember js tokens i (bytes_of ''browser_download_url'')"
  shows "parse_asset js tokens kind tag earlier i = Inr a \<longleftrightarrow>
    name \<noteq> None \<and> size_token \<noteq> None \<and> url \<noteq> None \<and> (\<not> (kind = PreparedDraft \<and> ident = None) \<and> read_id js tokens ident = Inr (asset_id a)) \<and>
    CopyUnescapedAsciiString js (tokens ! the name) (kMaximumGitHubAssetNameBytes + 1) = (CopyOk, asset_name a) \<and>
    IsSafeAssetName (Some (asset_name a)) \<and> JsonGetUint64 (Some js) (tokens ! the size_token) True = Inr (asset_size a) \<and>
    CopyUnescapedAsciiString js (tokens ! the url) kMaximumUpdateUrlBytes = (CopyOk, browser_download_url a) \<and>
    api_download_url a = (if asset_id a \<noteq> 0 then api_url (asset_id a) else []) \<and>
    (asset_id a \<noteq> 0 \<longrightarrow> length (api_url (asset_id a)) < kMaximumUpdateUrlBytes \<and> ValidateApiAssetUrl a) \<and>
    \<not> list_ex (\<lambda>b. SameName b a) earlier \<and> ValidateAssetUrlForKind a (Some tag) kind = AssetUrlOk"
  unfolding parse_asset_def Let_def name_def [symmetric] ident_def [symmetric] size_token_def [symmetric] url_def [symmetric]
  by (cases a) (auto split: sum.splits prod.splits if_split_asm AssetUrlStatus.splits simp: not_le)

section \<open>Assets\<close>

text \<open>What an accepted description of an asset says, and what it is bound to.\<close>

definition asset_described :: "GitHubReleaseKind \<Rightarrow> byte list \<Rightarrow> json_tree \<Rightarrow> GitHubReleaseAsset \<Rightarrow> bool" where
  "asset_described kind tag t a \<longleftrightarrow> (\<exists>blank ms. t = JObject blank ms \<and>
     string_field ms (bytes_of ''name'') (asset_name a) \<and> safe_name (asset_name a) \<and>
     number_field ms (bytes_of ''size'') (asset_size a) \<and>
     string_field ms (bytes_of ''browser_download_url'') (browser_download_url a) \<and>
     length (browser_download_url a) < kMaximumUpdateUrlBytes \<and>
     id_field kind ms (asset_id a) \<and>
     api_download_url a = (if asset_id a = 0 then [] else api_url (asset_id a)) \<and>
     (kind = PublishedStable \<longrightarrow> browser_download_url a \<in> download_urls tag (asset_name a)))"

lemma string_field_c_str: "string_field ms key s \<Longrightarrow> c_str s = s"
  by (auto simp: string_field_def list_ex_iff unsafe_character_def intro!: c_str_id)

lemma ValidateAssetUrlForKind_Ok_iff:
  assumes "c_str tag = tag" and "safe_tag tag" and "c_str (asset_name a) = asset_name a" and "safe_name (asset_name a)"
    and "c_str (browser_download_url a) = browser_download_url a"
    and "kind = PreparedDraft \<Longrightarrow> ValidateApiAssetUrl a"
  shows "ValidateAssetUrlForKind a (Some tag) kind = AssetUrlOk \<longleftrightarrow>
    (kind = PublishedStable \<longrightarrow> browser_download_url a \<in> download_urls tag (asset_name a))"
  using assms by (cases kind) (simp_all add: ValidateAssetUrlForKind_def ValidateAssetUrl_Ok_iff)

lemma no_SameName:
  "c_str (asset_name a) = asset_name a \<Longrightarrow>
   \<not> list_ex (\<lambda>b. SameName b a) earlier \<longleftrightarrow> asset_name a \<notin> (\<lambda>b. c_str (asset_name b)) ` set earlier"
  by (auto simp: SameName_def list_ex_iff image_iff)

lemma parse_asset_exact:
  assumes at: "located js tokens (JObject blank ms) p i parent" and tag: "c_str tag = tag" "safe_tag tag"
  shows "parse_asset js tokens kind tag earlier i = Inr a \<longleftrightarrow>
    asset_described kind tag (JObject blank ms) a \<and> asset_name a \<notin> (\<lambda>b. c_str (asset_name b)) ` set earlier"
proof -
  have nul: "0 \<notin> set (bytes_of ''name'')" "0 \<notin> set (bytes_of ''size'')" "0 \<notin> set (bytes_of ''browser_download_url'')"
    by (simp_all add: bmx_chars)
  let ?name = "RequiredMember js tokens i (bytes_of ''name'')" and ?size = "RequiredMember js tokens i (bytes_of ''size'')"
  let ?url = "RequiredMember js tokens i (bytes_of ''browser_download_url'')"
  have name: "?name \<noteq> None \<and> CopyUnescapedAsciiString js (tokens ! the ?name) (kMaximumGitHubAssetNameBytes + 1) = (CopyOk, s) \<longleftrightarrow>
      string_field ms (bytes_of ''name'') s \<and> length s < kMaximumGitHubAssetNameBytes + 1" for s
    using copy_field [OF at nul(1)] RequiredMember_None [OF at nul(1)]
    by (cases ?name) (auto simp: string_field_def)
  have url: "?url \<noteq> None \<and> CopyUnescapedAsciiString js (tokens ! the ?url) kMaximumUpdateUrlBytes = (CopyOk, s) \<longleftrightarrow>
      string_field ms (bytes_of ''browser_download_url'') s \<and> length s < kMaximumUpdateUrlBytes" for s
    using copy_field [OF at nul(3)] RequiredMember_None [OF at nul(3)]
    by (cases ?url) (auto simp: string_field_def)
  have size: "?size \<noteq> None \<and> JsonGetUint64 (Some js) (tokens ! the ?size) True = Inr x \<longleftrightarrow>
      number_field ms (bytes_of ''size'') x" for x
    using number_field_read [OF at nul(2)] RequiredMember_None [OF at nul(2)]
    by (cases ?size) (simp_all add: number_field_def)
  have "parse_asset js tokens kind tag earlier i = Inr a \<longleftrightarrow>
    (string_field ms (bytes_of ''name'') (asset_name a) \<and> length (asset_name a) < kMaximumGitHubAssetNameBytes + 1) \<and>
    number_field ms (bytes_of ''size'') (asset_size a) \<and>
    (string_field ms (bytes_of ''browser_download_url'') (browser_download_url a) \<and>
      length (browser_download_url a) < kMaximumUpdateUrlBytes) \<and>
    id_field kind ms (asset_id a) \<and> IsSafeAssetName (Some (asset_name a)) \<and>
    api_download_url a = (if asset_id a \<noteq> 0 then api_url (asset_id a) else []) \<and>
    (asset_id a \<noteq> 0 \<longrightarrow> length (api_url (asset_id a)) < kMaximumUpdateUrlBytes \<and> ValidateApiAssetUrl a) \<and>
    \<not> list_ex (\<lambda>b. SameName b a) earlier \<and> ValidateAssetUrlForKind a (Some tag) kind = AssetUrlOk"
    unfolding parse_asset_Inr read_id_iff [OF at] name [symmetric] url [symmetric] size [symmetric] by blast
  also have "\<dots> \<longleftrightarrow> asset_described kind tag (JObject blank ms) a \<and>
      asset_name a \<notin> (\<lambda>b. c_str (asset_name b)) ` set earlier" (is "?l \<longleftrightarrow> ?r")
  proof
    assume l: ?l
    then have c: "c_str (asset_name a) = asset_name a" "c_str (browser_download_url a) = browser_download_url a"
      using string_field_c_str by blast+
    have safe: "safe_name (asset_name a)" using l c(1) by (simp add: IsSafeAssetName_iff)
    have "kind = PreparedDraft \<Longrightarrow> ValidateApiAssetUrl a" using l by (auto simp: id_field_def)
    from ValidateAssetUrlForKind_Ok_iff [OF tag c(1) safe c(2) this] l safe no_SameName [OF c(1)] show ?r
      by (auto simp: asset_described_def)
  next
    assume r: ?r
    then have c: "c_str (asset_name a) = asset_name a" "c_str (browser_download_url a) = browser_download_url a"
      using string_field_c_str by (auto simp: asset_described_def)
    have safe: "safe_name (asset_name a)" using r by (simp add: asset_described_def)
    have api: "asset_id a \<noteq> 0 \<Longrightarrow> ValidateApiAssetUrl a" using r by (intro api_url_valid(3)) (auto simp: asset_described_def)
    then have "kind = PreparedDraft \<Longrightarrow> ValidateApiAssetUrl a" using r by (auto simp: asset_described_def id_field_def)
    from ValidateAssetUrlForKind_Ok_iff [OF tag c(1) safe c(2) this] r c(1) safe api api_url_valid(1) [of "asset_id a"]
      no_SameName [OF c(1)] show ?l
      by (auto simp: asset_described_def IsSafeAssetName_iff safe_name_def plain_identifier_def)
  qed
  finally show ?thesis .
qed

text \<open>The elements of an array against the assets read from them, given the assets before.\<close>

fun assets_described ::
  "GitHubReleaseKind \<Rightarrow> byte list \<Rightarrow> GitHubReleaseAsset list \<Rightarrow> json_element list \<Rightarrow> GitHubReleaseAsset list \<Rightarrow> bool" where
  "assets_described kind tag earlier [] outs \<longleftrightarrow> outs = []"
| "assets_described kind tag earlier (e # es) outs \<longleftrightarrow> (\<exists>a rest. outs = a # rest \<and>
     asset_described kind tag (element_value e) a \<and> asset_name a \<notin> (\<lambda>b. c_str (asset_name b)) ` set earlier \<and>
     assets_described kind tag (earlier @ [a]) es rest)"

lemma asset_described_c_str: "asset_described kind tag t a \<Longrightarrow> c_str (asset_name a) = asset_name a"
  by (auto simp: asset_described_def intro: string_field_c_str)

lemma assets_described_iff:
  assumes "\<forall>b \<in> set earlier. c_str (asset_name b) = asset_name b"
  shows "assets_described kind tag earlier es outs \<longleftrightarrow>
    list_all2 (\<lambda>e a. asset_described kind tag (element_value e) a) es outs \<and>
    distinct (map asset_name outs) \<and> asset_name ` set earlier \<inter> asset_name ` set outs = {}"
  using assms
proof (induction es arbitrary: earlier outs)
  case (Cons e es)
  show ?case
  proof (cases outs)
    case (Cons a rest)
    have img: "(\<lambda>b. c_str (asset_name b)) ` set earlier = asset_name ` set earlier" using Cons.prems by auto
    show ?thesis
    proof (cases "asset_described kind tag (element_value e) a")
      case True
      then have "assets_described kind tag (earlier @ [a]) es rest \<longleftrightarrow>
          list_all2 (\<lambda>e a. asset_described kind tag (element_value e) a) es rest \<and>
          distinct (map asset_name rest) \<and> asset_name ` set (earlier @ [a]) \<inter> asset_name ` set rest = {}"
        using Cons.prems asset_described_c_str by (intro Cons.IH) auto
      with True Cons img show ?thesis by auto
    qed (use Cons in simp)
  qed simp
qed auto

lemma asset_loop_foreign:
  assumes "\<forall>x \<in> set xs. token_parent x \<noteq> Some assets" and "tokens = A @ xs @ ys" and "length outputs < asset_count"
  shows "asset_loop js tokens kind tag assets asset_count (length A) outputs =
    asset_loop js tokens kind tag assets asset_count (length A + length xs) outputs"
  using assms
proof (induction xs arbitrary: A)
  case (Cons x xs)
  from Cons.IH [of "A @ [x]"] Cons.prems show ?case by (subst asset_loop.simps) (simp add: nth_append)
qed simp

lemma asset_loop_exact:
  assumes "tokens = A @ elements_tokens es p i assets @ C" and "length A = i" and "assets < i" and "elements_ok es"
    and "text_at js p (elements_text es)" and "\<forall>y \<in> set C. p + length (elements_text es) \<le> token_start y"
    and "asset_count = length outputs + length es" and tag: "c_str tag = tag" "safe_tag tag"
  shows "asset_loop js tokens kind tag assets asset_count i outputs = Inr outs \<longleftrightarrow>
    (\<exists>rest. outs = outputs @ rest \<and> assets_described kind tag outputs es rest)"
  using assms(1-7)
proof (induction es arbitrary: p i A outputs)
  case Nil
  then show ?case by (subst asset_loop.simps) auto
next
  case (Cons e es)
  obtain v t n where e: "e = Element v t n" by (cases e) auto
  let ?p = "p + length (tree_text v) + length t + 1 + length n"
  let ?more = "elements_tokens es ?p (i + tree_total v) assets"
  have toks: "tokens = A @ tree_tokens v p i (Some assets) @ ?more @ C"
    using Cons.prems(1) by (simp add: e Let_def)
  have ok: "tree_ok v" "elements_ok es" "text_at js p (tree_text v)" using Cons.prems(4,5) by (simp_all add: e)
  have "p + length (tree_text v) \<le> token_start y" if "y \<in> set (?more @ C)" for y
    using that elements_tokens_starts [OF ok(2)] Cons.prems(6) by (fastforce simp: e split: if_split_asm)
  then have here: "located js tokens v p i (Some assets)"
    using ok Cons.prems(2) by (intro located_at [OF _ _ toks]) auto
  obtain x xs where x: "tree_tokens v p i (Some assets) = x # xs" "token_parent x = Some assets"
    "\<forall>y \<in> set xs. \<exists>j \<ge> i. token_parent y = Some j" using tree_tokens_parents by blast
  have foreign: "\<forall>y \<in> set xs. token_parent y \<noteq> Some assets" using x(3) Cons.prems(3) by fastforce
  have total: "tree_total v = Suc (length xs)" using tree_tokens_length [of v p i "Some assets"] x(1) by simp
  have tok: "tokens ! i = x" "i < length tokens" using located_token [OF here] x(1) by simp_all
  have skip: "asset_loop js tokens kind tag assets asset_count (Suc i) out =
      asset_loop js tokens kind tag assets asset_count (i + tree_total v) out" if "length out \<le> Suc (length outputs)" for out
  proof (cases "length out < asset_count")
    case True
    then show ?thesis
      using asset_loop_foreign [OF foreign, of tokens "A @ [x]" "?more @ C" out asset_count js kind tag] toks x(1) total Cons.prems(2)
      by simp
  qed (subst (1 2) asset_loop.simps, simp)
  show ?case
  proof (cases "\<exists>blank ms. v = JObject blank ms")
    case True
    then obtain blank ms where v: "v = JObject blank ms" by blast
    have "token_type x = JSON_TOKEN_OBJECT" using x(1) v by auto
    then have step: "asset_loop js tokens kind tag assets asset_count i outputs =
      (case parse_asset js tokens kind tag outputs i of
         Inl err \<Rightarrow> Inl err
       | Inr a \<Rightarrow> asset_loop js tokens kind tag assets asset_count (i + tree_total v) (outputs @ [a]))"
      using tok x(2) Cons.prems(7) skip by (subst asset_loop.simps) (simp split: sum.split)
    have rest: "asset_loop js tokens kind tag assets asset_count (i + tree_total v) (outputs @ [a]) = Inr outs \<longleftrightarrow>
        (\<exists>rest. outs = (outputs @ [a]) @ rest \<and> assets_described kind tag (outputs @ [a]) es rest)" for a
    proof (cases "es = []")
      case True
      then show ?thesis using Cons.prems(7) by (subst asset_loop.simps) auto
    next
      case False
      show ?thesis
      proof (rule Cons.IH [of "A @ tree_tokens v p i (Some assets)" ?p])
        show "\<forall>y \<in> set C. ?p + length (elements_text es) \<le> token_start y"
          using Cons.prems(6) False by (simp add: e add.assoc)
      qed (use toks Cons.prems ok False in \<open>simp_all add: e add.assoc\<close>)
    qed
    have "asset_loop js tokens kind tag assets asset_count i outputs = Inr outs \<longleftrightarrow>
        (\<exists>a. parse_asset js tokens kind tag outputs i = Inr a \<and>
          asset_loop js tokens kind tag assets asset_count (i + tree_total v) (outputs @ [a]) = Inr outs)"
      unfolding step by (auto split: sum.split)
    then show ?thesis unfolding rest parse_asset_exact [OF here [unfolded v] tag] by (auto simp: v e)
  next
    case False
    then have "token_type x \<noteq> JSON_TOKEN_OBJECT" using x(1) by (cases v) auto
    then have "asset_loop js tokens kind tag assets asset_count i outputs = Inl WrongType"
      using tok x(2) Cons.prems(7) by (subst asset_loop.simps) simp
    then show ?thesis using False e by (auto simp: asset_described_def)
  qed
qed

section \<open>The release\<close>

lemma read_id_error: "read_id js tokens ident = Inl e \<Longrightarrow> e \<noteq> ReleaseOk"
  by (auto simp: read_id_def split: option.splits sum.splits if_split_asm)

lemma parse_asset_error: "parse_asset js tokens kind tag earlier i = Inl e \<Longrightarrow> e \<noteq> ReleaseOk"
  by (auto simp: parse_asset_def Let_def MapCopyStatus_def dest: read_id_error
      split: sum.splits if_split_asm prod.splits AssetUrlStatus.splits)

lemma asset_loop_error:
  "asset_loop js tokens kind tag assets asset_count i outputs = Inl e \<Longrightarrow> e \<noteq> ReleaseOk"
proof (induction js tokens kind tag assets asset_count i outputs rule: asset_loop.induct)
  case (1 js tokens kind tag assets asset_count i outputs)
  from "1.prems" "1.IH" parse_asset_error [of js tokens kind tag outputs i e] show ?case
    unfolding asset_loop.simps [of js tokens kind tag assets asset_count i outputs]
    by (auto split: if_split_asm sum.splits)
qed

lemma read_assets_Ok:
  "read_assets js tokens kind capacity assets r = (ReleaseOk, r') \<longleftrightarrow>
   child_count (tokens ! assets) \<le> kMaximumGitHubReleaseAssets \<and> child_count (tokens ! assets) \<le> capacity \<and>
   (\<exists>outs. asset_loop js tokens kind (tag_name r) assets (child_count (tokens ! assets)) (Suc assets) [] = Inr outs \<and>
      length outs = child_count (tokens ! assets) \<and> r' = r\<lparr>release_assets := Some outs\<rparr>)"
  using asset_loop_error by (auto simp: read_assets_def Let_def not_le split: sum.splits)

lemma read_flags_Ok:
  "read_flags js tokens kind capacity draft prerelease assets r = (ReleaseOk, r') \<longleftrightarrow>
   (\<exists>d pre. JsonGetBool (tokens ! draft) True = Inr d \<and> JsonGetBool (tokens ! prerelease) True = Inr pre \<and>
      token_type (tokens ! assets) = JSON_TOKEN_ARRAY \<and> (kind = PreparedDraft \<longleftrightarrow> d) \<and> \<not> pre \<and>
      read_assets js tokens kind capacity assets (r\<lparr>release_draft := d, release_prerelease := pre\<rparr>) = (ReleaseOk, r'))"
  by (cases kind) (auto simp: read_flags_def Let_def split: sum.splits)

lemma read_release_Ok:
  fixes js :: "byte list" and tokens :: "JsonToken list"
  defines "ident \<equiv> RequiredMember js tokens 0 (bytes_of ''id'')" and "tag \<equiv> RequiredMember js tokens 0 (bytes_of ''tag_name'')"
    and "draft \<equiv> RequiredMember js tokens 0 (bytes_of ''draft'')"
    and "prerelease \<equiv> RequiredMember js tokens 0 (bytes_of ''prerelease'')"
    and "assets \<equiv> RequiredMember js tokens 0 (bytes_of ''assets'')"
  shows "read_release js tokens kind capacity r = (ReleaseOk, r') \<longleftrightarrow>
    tokens \<noteq> [] \<and> token_type (tokens ! 0) = JSON_TOKEN_OBJECT \<and> tag \<noteq> None \<and> draft \<noteq> None \<and> prerelease \<noteq> None \<and>
    assets \<noteq> None \<and>
    (\<exists>v text. (\<not> (kind = PreparedDraft \<and> ident = None) \<and> read_id js tokens ident = Inr v) \<and>
       CopyUnescapedAsciiString js (tokens ! the tag) (kMaximumGitHubReleaseTagBytes + 1) = (CopyOk, text) \<and>
       IsSafeTag (Some text) \<and>
       read_flags js tokens kind capacity (the draft) (the prerelease) (the assets)
         (r\<lparr>release_id := v, tag_name := text\<rparr>) = (ReleaseOk, r'))"
  unfolding read_release_def Let_def ident_def [symmetric] tag_def [symmetric] draft_def [symmetric]
    prerelease_def [symmetric] assets_def [symmetric]
  using read_id_error by (auto simp: MapCopyStatus_def split: sum.splits prod.splits if_split_asm)

definition release_described :: "GitHubReleaseKind \<Rightarrow> nat \<Rightarrow> json_member list \<Rightarrow> GitHubLatestRelease \<Rightarrow> bool" where
  "release_described kind capacity ms r \<longleftrightarrow>
     id_field kind ms (release_id r) \<and>
     string_field ms (bytes_of ''tag_name'') (tag_name r) \<and> safe_tag (tag_name r) \<and>
     bool_field ms (bytes_of ''draft'') (release_draft r) \<and> bool_field ms (bytes_of ''prerelease'') (release_prerelease r) \<and>
     (release_draft r \<longleftrightarrow> kind = PreparedDraft) \<and> \<not> release_prerelease r \<and>
     (\<exists>blank es assets. map_of (object_members ms) (bytes_of ''assets'') = Some (JArray blank es) \<and>
        length es \<le> kMaximumGitHubReleaseAssets \<and> length es \<le> capacity \<and> release_assets r = Some assets \<and>
        list_all2 (\<lambda>e a. asset_described kind (tag_name r) (element_value e) a) es assets \<and>
        distinct (map asset_name assets))"

lemma read_assets_located:
  assumes "located js tokens v q j (Some 0)" and "c_str (tag_name r) = tag_name r" "safe_tag (tag_name r)"
  shows "token_type (tokens ! j) = JSON_TOKEN_ARRAY \<and> read_assets js tokens kind capacity j r = (ReleaseOk, r') \<longleftrightarrow>
    (\<exists>blank es outs. v = JArray blank es \<and> length es \<le> kMaximumGitHubReleaseAssets \<and> length es \<le> capacity \<and>
       list_all2 (\<lambda>e a. asset_described kind (tag_name r) (element_value e) a) es outs \<and> distinct (map asset_name outs) \<and>
       r' = r\<lparr>release_assets := Some outs\<rparr>)"
proof (cases "\<exists>blank es. v = JArray blank es")
  case True
  then obtain blank es where v: "v = JArray blank es" by blast
  let ?x = "hd (tree_tokens v q j (Some 0))"
  obtain A C where tok: "tokens = (A @ [?x]) @ elements_tokens es (q + 1 + length blank) (Suc j) j @ C" "length (A @ [?x]) = Suc j"
    and C: "\<forall>y \<in> set C. q + length (tree_text v) \<le> token_start y"
    using assms(1) v by (auto simp: located_def)
  have ok: "elements_ok es" "text_at js (q + 1 + length blank) (elements_text es)"
    using assms(1) v by (simp_all add: located_def)
  have x: "token_type (tokens ! j) = JSON_TOKEN_ARRAY" "child_count (tokens ! j) = length es"
    using located_token(2) [OF assms(1)] v by simp_all
  have "asset_loop js tokens kind (tag_name r) j (length es) (Suc j) [] = Inr outs \<longleftrightarrow>
      assets_described kind (tag_name r) [] es outs" for outs
    using asset_loop_exact [OF tok(1,2) _ ok _ _ assms(2,3), of "length es" "[]" kind outs] C v by (fastforce simp: add.assoc)
  then show ?thesis
    using x v by (simp add: read_assets_Ok assets_described_iff) (metis list_all2_lengthD)
next
  case False
  then have "token_type (tokens ! j) \<noteq> JSON_TOKEN_ARRAY" using located_token(2) [OF assms(1)] by (cases v) simp_all
  with False show ?thesis by auto
qed

lemma read_release_exact:
  assumes at: "located js tokens (JObject blank ms) p 0 None"
  shows "read_release js tokens kind capacity ResetRelease = (ReleaseOk, r) \<longleftrightarrow> release_described kind capacity ms r"
proof -
  have nul: "0 \<notin> set (bytes_of ''tag_name'')" "0 \<notin> set (bytes_of ''draft'')" "0 \<notin> set (bytes_of ''prerelease'')"
    "0 \<notin> set (bytes_of ''assets'')" by (simp_all add: bmx_chars)
  have root: "tokens \<noteq> []" "token_type (tokens ! 0) = JSON_TOKEN_OBJECT" using located_token [OF at] by auto
  let ?m = "RequiredMember js tokens 0" and ?of = "map_of (object_members ms)"
  let ?tag = "bytes_of ''tag_name''" and ?draft = "bytes_of ''draft''" and ?pre = "bytes_of ''prerelease''"
    and ?assets = "bytes_of ''assets''"
  show ?thesis
  proof (cases "?m ?tag = None \<or> ?m ?draft = None \<or> ?m ?pre = None \<or> ?m ?assets = None")
    case True
    then have "?of ?tag = None \<or> ?of ?draft = None \<or> ?of ?pre = None \<or> ?of ?assets = None"
      using nul [THEN RequiredMember_None [OF at]] by auto
    then have "\<not> release_described kind capacity ms r"
      by (auto simp: release_described_def string_field_def bool_field_def)
    then show ?thesis using True unfolding read_release_Ok by auto
  next
    case False
    then obtain t d q a where m: "?m ?tag = Some t" "?m ?draft = Some d" "?m ?pre = Some q" "?m ?assets = Some a" by auto
    obtain v u where v: "?of ?assets = Some v" "located js tokens v u a (Some 0)"
      using located_member_value [OF at nul(4) m(4)] .
    note fields = copy_field [OF at nul(1) m(1)] bool_field_read [OF at nul(2) m(2)] bool_field_read [OF at nul(3) m(3)]
    have assets: "token_type (tokens ! a) = JSON_TOKEN_ARRAY \<and> read_assets js tokens kind capacity a r0 = (ReleaseOk, r) \<longleftrightarrow>
        (\<exists>blank es outs. v = JArray blank es \<and> length es \<le> kMaximumGitHubReleaseAssets \<and> length es \<le> capacity \<and>
          list_all2 (\<lambda>e a. asset_described kind (tag_name r0) (element_value e) a) es outs \<and> distinct (map asset_name outs) \<and>
          r = r0\<lparr>release_assets := Some outs\<rparr>)" if "string_field ms ?tag (tag_name r0)" "safe_tag (tag_name r0)" for r0
      using string_field_c_str [OF that(1)] by (intro read_assets_located [OF v(2)]) (use that in simp_all)
    let ?r = "\<lambda>i text d p. ResetRelease\<lparr>release_id := i, tag_name := text, release_draft := d, release_prerelease := p\<rparr>"
    have "read_release js tokens kind capacity ResetRelease = (ReleaseOk, r) \<longleftrightarrow>
      (\<exists>i text d p. id_field kind ms i \<and> (string_field ms ?tag text \<and> length text < kMaximumGitHubReleaseTagBytes + 1) \<and>
        IsSafeTag (Some text) \<and> bool_field ms ?draft d \<and> bool_field ms ?pre p \<and> (kind = PreparedDraft \<longleftrightarrow> d) \<and> \<not> p \<and>
        token_type (tokens ! a) = JSON_TOKEN_ARRAY \<and>
        read_assets js tokens kind capacity a (?r i text d p) = (ReleaseOk, r))"
      unfolding read_release_Ok read_flags_Ok read_id_iff [OF at] using root m by (auto simp: fields)
    also have "\<dots> \<longleftrightarrow> release_described kind capacity ms r" (is "?l \<longleftrightarrow> ?right")
    proof
      assume ?l
      then obtain i tg d p where f: "id_field kind ms i" "string_field ms ?tag tg" "IsSafeTag (Some tg)"
        "bool_field ms ?draft d" "bool_field ms ?pre p" "kind = PreparedDraft \<longleftrightarrow> d" "\<not> p"
        and read: "token_type (tokens ! a) = JSON_TOKEN_ARRAY \<and> read_assets js tokens kind capacity a (?r i tg d p) = (ReleaseOk, r)"
        by blast
      have "safe_tag tg" using f(2,3) string_field_c_str [OF f(2)] by (simp add: IsSafeTag_iff)
      with f read assets [of "?r i tg d p"] v(1) show ?right
        by (auto simp: release_described_def simp del: bytes_of_Cons)
    next
      assume right: ?right
      let ?r0 = "?r (release_id r) (tag_name r) (release_draft r) (release_prerelease r)"
      have tag: "string_field ms ?tag (tag_name r)" "safe_tag (tag_name r)" using right by (simp_all add: release_described_def)
      then have safe: "IsSafeTag (Some (tag_name r))" "length (tag_name r) < kMaximumGitHubReleaseTagBytes + 1"
        using string_field_c_str [OF tag(1)] by (simp_all add: IsSafeTag_iff safe_tag_def plain_identifier_def)
      obtain blank es outs where es: "v = JArray blank es" "length es \<le> kMaximumGitHubReleaseAssets" "length es \<le> capacity"
        "release_assets r = Some outs" "list_all2 (\<lambda>e a. asset_described kind (tag_name r) (element_value e) a) es outs"
        "distinct (map asset_name outs)"
        using right v(1) by (auto simp: release_described_def simp del: bytes_of_Cons)
      have "r = ?r0\<lparr>release_assets := Some outs\<rparr>" using es(4) by (cases r) (simp add: ResetRelease_def)
      then have "token_type (tokens ! a) = JSON_TOKEN_ARRAY \<and> read_assets js tokens kind capacity a ?r0 = (ReleaseOk, r)"
        using assets [of ?r0] tag es by fastforce
      then show ?l using right tag safe
        by (intro exI [of _ "release_id r"] exI [of _ "tag_name r"] exI [of _ "release_draft r"] exI [of _ "release_prerelease r"])
          (auto simp: release_described_def simp del: bytes_of_Cons)
    qed
    finally show ?thesis .
  qed
qed

lemma Run_count: "Run src = (parsed, tokens) \<Longrightarrow> token_count parsed = length tokens"
  by (auto simp: Run_def parser_result_def Let_def new_parser_def split: if_split_asm bool.splits prod.splits)

lemma root_kind:
  assumes "located js tokens t p 0 None"
  shows "token_type (tokens ! 0) = JSON_TOKEN_OBJECT \<longleftrightarrow> (\<exists>blank ms. t = JObject blank ms)"
  using located_token(2) [OF assms] by (cases t) simp_all

lemma ParseGitHubRelease_iff:
  "(\<exists>result. ParseGitHubRelease (Some js) storage kind (Some r0) json_result = (ReleaseOk, Some r, result)) \<longleftrightarrow>
   tokens_given storage \<and> assets_given storage \<and> 0 < asset_capacity storage \<and>
   length js \<le> kMaximumGitHubReleaseResponseBytes \<and>
   (\<exists>w blank ms w'. json_document js w (JObject blank ms) w' \<and> tree_depth (JObject blank ms) \<le> 32 \<and>
      tree_total (JObject blank ms) \<le> storage_tokens storage \<and>
      release_described kind (asset_capacity storage) ms r)" (is "?l \<longleftrightarrow> ?r")
proof
  let ?src = "\<lparr>json_text = js, token_capacity = storage_tokens storage, max_depth = 32\<rparr>"
  {
    assume ?l
    then obtain parsed tokens where
      given: "tokens_given storage" "assets_given storage" "0 < asset_capacity storage" "0 < storage_tokens storage"
        "length js \<le> kMaximumGitHubReleaseResponseBytes"
      and run: "ParseJson (Some js) True (storage_tokens storage) 32 = (parsed, tokens)" "result_error parsed = JSON_OK"
      and read: "read_release js (take (token_count parsed) tokens) kind (asset_capacity storage) ResetRelease = (ReleaseOk, r)"
      by (auto simp: ParseGitHubRelease_def Let_def not_le split: if_split_asm prod.splits)
    have parsed: "Run ?src = (parsed, tokens)" using run(1) given(4) by (simp add: ParseJson_def)
    have count: "token_count parsed = length tokens" using parsed by (rule Run_count)
    then have "Run ?src = (\<lparr>result_error = JSON_OK, token_count = length tokens, error_offset = error_offset parsed\<rparr>, tokens)"
      using parsed run(2) by (cases parsed) simp
    then obtain w t w' where doc: "json_document js w t w'" "tree_depth t \<le> 32" "length tokens \<le> storage_tokens storage"
      "tokens = tree_tokens t (length w) 0 None" using Run_ok_iff [of ?src tokens] by auto
    have at: "located js tokens t (length w) 0 None" using located_document [OF doc(1)] doc(4) by simp
    have "token_type (tokens ! 0) = JSON_TOKEN_OBJECT" using read count unfolding read_release_Ok by simp
    then obtain blank ms where t: "t = JObject blank ms" using root_kind [OF at] by blast
    have "release_described kind (asset_capacity storage) ms r"
      using read count read_release_exact [OF at [unfolded t]] by simp
    then show ?r using given doc t by (intro conjI exI [of _ w] exI [of _ blank] exI [of _ ms] exI [of _ w']) simp_all
  next
    assume ?r
    then obtain w blank ms w' where given: "tokens_given storage" "assets_given storage" "0 < asset_capacity storage"
        "length js \<le> kMaximumGitHubReleaseResponseBytes"
      and doc: "json_document js w (JObject blank ms) w'" "tree_depth (JObject blank ms) \<le> 32"
        "tree_total (JObject blank ms) \<le> storage_tokens storage"
      and rel: "release_described kind (asset_capacity storage) ms r" by blast
    let ?tokens = "tree_tokens (JObject blank ms) (length w) 0 None"
    have "length js \<le> kMaximumJsonBytes" using given(4) by (simp add: kMaximumGitHubReleaseResponseBytes_def kMaximumJsonBytes_def)
    then have "length (json_text ?src) \<le> kMaximumJsonBytes \<and> (\<exists>w t w'. json_document (json_text ?src) w t w' \<and>
        tree_depth t \<le> max_depth ?src \<and> length ?tokens \<le> token_capacity ?src \<and> ?tokens = tree_tokens t (length w) 0 None)"
      using doc by (intro conjI exI [of _ w] exI [of _ "JObject blank ms"] exI [of _ w']) simp_all
    then obtain n where "Run ?src = (\<lparr>result_error = JSON_OK, token_count = length ?tokens, error_offset = n\<rparr>, ?tokens)"
      unfolding Run_ok_iff [symmetric] by blast
    moreover have "0 < storage_tokens storage" using doc(3) by simp
    moreover have "js \<noteq> []" using doc(1) by (auto simp: json_document_def)
    moreover have "read_release js ?tokens kind (asset_capacity storage) ResetRelease = (ReleaseOk, r)"
      using read_release_exact [OF located_document [OF doc(1)]] rel by simp
    ultimately show ?l using given by (simp add: ParseGitHubRelease_def ParseJson_def Let_def)
  }
qed

text \<open>
  C11: The release parser succeeds with a release exactly on the descriptions of at most 128 KiB that
  are a JSON object whose fields say that release: an allowed tag, the flags of the requested kind, and
  at most 64 assets of different names, each with its size, its number and, for a published release,
  the one download address on GitHub that its tag and name determine.
\<close>

theorem release_parsed_exactly:
  "(\<exists>result. ParseGitHubRelease (Some js) storage kind (Some r0) json_result = (ReleaseOk, Some r, result)) \<longleftrightarrow>
   tokens_given storage \<and> assets_given storage \<and> 0 < asset_capacity storage \<and>
   length js \<le> kMaximumGitHubReleaseResponseBytes \<and>
   (\<exists>w blank ms w'. json_document js w (JObject blank ms) w' \<and> tree_depth (JObject blank ms) \<le> 32 \<and>
      tree_total (JObject blank ms) \<le> storage_tokens storage \<and>
      release_described kind (asset_capacity storage) ms r)"
  by (rule ParseGitHubRelease_iff)

section \<open>The assets an update needs\<close>

abbreviation nm :: "GitHubReleaseAsset \<Rightarrow> byte list" where
  "nm a \<equiv> c_str (asset_name a)"

text \<open>An address of GitHub's interface that names an asset by its number.\<close>

definition api_urls :: "byte list set" where
  "api_urls = {bytes_of ''https://api.github.com'' @ port_part @ api_path n | port_part n.
     port_part \<in> {[], bytes_of '':443''} \<and> positive_decimal n \<and> length (api_path n) < kMaximumUpdatePathBytes}"

lemma ValidateApiAssetUrl_iff:
  "ValidateApiAssetUrl a \<longleftrightarrow> asset_id a \<noteq> 0 \<and> c_str (api_download_url a) \<in> api_urls" (is "?l \<longleftrightarrow> ?r")
proof
  let ?u = "api_download_url a"
  {
    assume ?l
    then obtain parsed where ok: "asset_id a \<noteq> 0"
      "ParseAndAuthorizeUpdateUrl (Some ?u) AuthenticatedReleaseAsset (Some no_url) = (UrlOk, Some parsed)"
      using authorize_Some [of ?u AuthenticatedReleaseAsset no_url]
      by (auto simp: ValidateApiAssetUrl_def) (metis prod.collapse)
    then obtain pp n where parts: "pp \<in> {[], bytes_of '':443''}" "path_and_query parsed = api_path n" "positive_decimal n"
      "c_str ?u = bytes_of ''https://'' @ bytes_of ''api.github.com'' @ pp @ path_and_query parsed"
      "length (path_and_query parsed) < kMaximumUpdatePathBytes"
      unfolding accepted_url_parts by (auto simp: api_path_def wf_request_path_def simp del: bytes_of_Cons)
    have "c_str ?u = bytes_of ''https://api.github.com'' @ pp @ api_path n" using parts(2,4) by simp
    then have "c_str ?u \<in> api_urls"
      unfolding api_urls_def using parts by (intro CollectI exI [of _ pp] exI [of _ n]) simp
    with ok(1) show ?r by simp
  next
    assume ?r
    then obtain pp n where ok: "asset_id a \<noteq> 0" "pp \<in> {[], bytes_of '':443''}" "positive_decimal n"
      "length (api_path n) < kMaximumUpdatePathBytes"
      and u: "c_str ?u = bytes_of ''https://'' @ bytes_of ''api.github.com'' @ pp @ api_path n"
      by (auto simp: api_urls_def)
    let ?p = "\<lparr>host = bytes_of ''api.github.com'', path_and_query = api_path n, port = 443\<rparr>"
    have "wf_request_path (api_path n)" using ok(3,4) by (rule api_path_ok)
    moreover have "wf_host (bytes_of ''api.github.com'')"
      by (simp add: wf_host_def kMaximumUpdateHostBytes_def IsAsciiHostCharacter_def is_lower_def bmx_chars)
    moreover have "length (c_str ?u) < kMaximumUpdateUrlBytes"
      using u ok(2,4) by (auto simp: kMaximumUpdateUrlBytes_def kMaximumUpdatePathBytes_def)
    ultimately have "ParseAndAuthorizeUpdateUrl (Some ?u) AuthenticatedReleaseAsset (Some no_url) = (UrlOk, Some ?p)"
      unfolding accepted_url_parts using u ok(2,3) by (auto simp: api_path_def)
    moreover have "cstr_at ?u 0 \<noteq> 0" using u by (cases ?u) (auto simp: cstr_at_def c_str_def split: if_split_asm)
    ultimately show ?l using ok(1) by (simp add: ValidateApiAssetUrl_def)
  }
qed

text \<open>
  What every asset of a release has to satisfy under a tag: a published one is bound to the tag by its
  address, an asset of a draft is not.
\<close>

definition asset_bound :: "GitHubReleaseKind \<Rightarrow> byte list \<Rightarrow> GitHubReleaseAsset \<Rightarrow> bool" where
  "asset_bound kind tag a \<longleftrightarrow> safe_name (nm a) \<and>
     c_str (browser_download_url a) \<noteq> [] \<and> length (c_str (browser_download_url a)) < kMaximumUpdateUrlBytes \<and>
     (if kind = PublishedStable then c_str (browser_download_url a) \<in> download_urls tag (nm a)
      else asset_id a \<noteq> 0 \<and> c_str (api_download_url a) \<in> api_urls)"

lemma check_asset_Ok:
  assumes "safe_tag (c_str tag)"
  shows "check_asset kind (Some tag) earlier a = AssetsOk \<longleftrightarrow>
    asset_bound kind (c_str tag) a \<and> nm a \<notin> nm ` set earlier"
proof -
  have same: "list_ex (\<lambda>b. nm b = nm a) earlier \<longleftrightarrow> nm a \<in> nm ` set earlier" by (simp add: list_ex_iff image_iff) metis
  have ok: "(case s of AssetUrlRejected \<Rightarrow> AssetsUrlRejected | AssetUrlBindingMismatch \<Rightarrow> AssetsUrlBindingMismatch
      | AssetUrlOk \<Rightarrow> AssetsOk) = AssetsOk \<longleftrightarrow> s = AssetUrlOk" for s by (cases s) simp_all
  show ?thesis
    unfolding check_asset_def same using assms
    by (cases kind) (auto simp: ok ValidateAssetUrlForKind_def ValidateAssetUrl_Ok_iff ValidateApiAssetUrl_iff IsSafeAssetName_iff
        IsNullTerminatedUrl_iff asset_bound_def)
qed

definition pick :: "byte list \<Rightarrow> nat \<Rightarrow> GitHubReleaseAsset list \<Rightarrow> nat option \<Rightarrow> nat option" where
  "pick name offset assets old = (case index_of (\<lambda>a. nm a = name) assets of None \<Rightarrow> old | Some k \<Rightarrow> Some (offset + k))"

lemma pick_simps:
  "pick name offset [] old = old"
  "pick name offset (a # assets) old =
     (if nm a = name then Some offset else pick name (Suc offset) assets old)"
  by (auto simp: pick_def split: option.split)

lemma pick_fresh: "name \<notin> nm ` set assets \<Longrightarrow> pick name offset assets old = old"
  by (induction assets arbitrary: offset) (auto simp: pick_simps)

lemma asset_names_differ: "kManifestAssetName \<noteq> kSignatureAssetName"
  by (simp add: kManifestAssetName_def kSignatureAssetName_def)

lemma required_loop_Ok:
  assumes "safe_tag (c_str tag)" and "c_str zip_name \<noteq> kManifestAssetName" "c_str zip_name \<noteq> kSignatureAssetName"
  shows "required_loop kind tag zip_name earlier assets r = (AssetsOk, found) \<longleftrightarrow>
    list_all (asset_bound kind (c_str tag)) assets \<and> distinct (map nm assets) \<and> nm ` set earlier \<inter> nm ` set assets = {} \<and>
    found = \<lparr>required_manifest = pick kManifestAssetName (length earlier) assets (required_manifest r),
      required_signature = pick kSignatureAssetName (length earlier) assets (required_signature r),
      required_board_zip = pick (c_str zip_name) (length earlier) assets (required_board_zip r)\<rparr>"
proof (induction assets arbitrary: earlier r)
  case Nil
  then show ?case by (auto simp: pick_simps)
next
  case (Cons a assets)
  show ?case
  proof (cases "asset_bound kind (c_str tag) a \<and> nm a \<notin> nm ` set earlier \<and> nm a \<notin> nm ` set assets")
    case True
    then have "check_asset kind (Some tag) earlier a = AssetsOk" using check_asset_Ok [OF assms(1)] by blast
    moreover have "pick (nm a) k assets old = old" for k old using True by (intro pick_fresh) simp
    ultimately show ?thesis using True assms(2,3) asset_names_differ
      by (auto simp: Let_def Cons.IH pick_simps)
  next
    case False
    then show ?thesis using check_asset_Ok [OF assms(1), of kind earlier a] by (auto simp: Let_def Cons.IH)
  qed
qed

lemma pick_none: "pick name 0 assets None = Some k \<longleftrightarrow> index_of (\<lambda>a. nm a = name) assets = Some k"
  by (auto simp: pick_def split: option.split)

lemma distinct_index:
  assumes "distinct (map nm assets)"
  shows "index_of (\<lambda>a. nm a = name) assets = Some k \<longleftrightarrow> k < length assets \<and> nm (assets ! k) = name"
proof
  assume "k < length assets \<and> nm (assets ! k) = name"
  moreover from this assms have "list_all (\<lambda>a. nm a \<noteq> name) (take k assets)"
    by (auto simp: list_all_iff in_set_conv_nth distinct_conv_nth)
  ultimately show "index_of (\<lambda>a. nm a = name) assets = Some k" by (simp add: index_of_Some_iff)
qed (simp add: index_of_Some_iff)

text \<open>The search before the manifest is trusted is the later search without the archive of the board.\<close>

definition metadata_of :: "RequiredGitHubReleaseAssets \<Rightarrow> GitHubReleaseMetadataAssets" where
  "metadata_of r = \<lparr>metadata_manifest = required_manifest r, metadata_signature = required_signature r\<rparr>"

lemma metadata_loop_projects:
  "metadata_loop kind tag earlier assets (metadata_of r) = map_prod (\<lambda>s. s) metadata_of (required_loop kind tag zip_name earlier assets r)"
proof (induction assets arbitrary: earlier r)
  case (Cons a assets)
  show ?case
    using Cons.IH [of "earlier @ [a]" "r\<lparr>required_manifest := Some (length earlier)\<rparr>"]
      Cons.IH [of "earlier @ [a]" "r\<lparr>required_signature := Some (length earlier)\<rparr>"]
      Cons.IH [of "earlier @ [a]" "r\<lparr>required_board_zip := Some (length earlier)\<rparr>"] Cons.IH [of "earlier @ [a]" r]
    by (simp add: Let_def metadata_of_def)
qed simp

lemma FindRequiredAssetsForKind_iff:
  "FindRequiredAssetsForKind release kind (Some tag) (Some zip_name) (Some r0) =
     (AssetsOk, Some \<lparr>required_manifest = Some m, required_signature = Some s, required_board_zip = Some z\<rparr>) \<longleftrightarrow>
   EligibleKind release kind \<and> safe_tag (c_str tag) \<and> c_str (tag_name release) = c_str tag \<and>
   safe_name (c_str zip_name) \<and> c_str zip_name \<notin> {kManifestAssetName, kSignatureAssetName} \<and>
   (\<exists>assets. release_assets release = Some assets \<and> length assets \<le> kMaximumGitHubReleaseAssets \<and>
      list_all (asset_bound kind (c_str tag)) assets \<and> distinct (map nm assets) \<and>
      m < length assets \<and> nm (assets ! m) = kManifestAssetName \<and>
      s < length assets \<and> nm (assets ! s) = kSignatureAssetName \<and>
      z < length assets \<and> nm (assets ! z) = c_str zip_name)"
proof (cases "release_assets release")
  case None
  then show ?thesis by (simp add: FindRequiredAssetsForKind_def)
next
  case (Some assets)
  let ?f = "\<lparr>required_manifest = Some m, required_signature = Some s, required_board_zip = Some z\<rparr>"
  have "FindRequiredAssetsForKind release kind (Some tag) (Some zip_name) (Some r0) = (AssetsOk, Some ?f) \<longleftrightarrow>
    EligibleKind release kind \<and> safe_tag (c_str tag) \<and> c_str (tag_name release) = c_str tag \<and>
    safe_name (c_str zip_name) \<and> c_str zip_name \<notin> {kManifestAssetName, kSignatureAssetName} \<and>
    length assets \<le> kMaximumGitHubReleaseAssets \<and> required_loop kind tag zip_name [] assets ResetRequired = (AssetsOk, ?f)"
    using Some by (auto simp: FindRequiredAssetsForKind_def IsSafeTag_iff IsSafeAssetName_iff not_le split: prod.splits if_split_asm)
  also have "\<dots> \<longleftrightarrow> EligibleKind release kind \<and> safe_tag (c_str tag) \<and> c_str (tag_name release) = c_str tag \<and>
    safe_name (c_str zip_name) \<and> c_str zip_name \<notin> {kManifestAssetName, kSignatureAssetName} \<and>
    length assets \<le> kMaximumGitHubReleaseAssets \<and> list_all (asset_bound kind (c_str tag)) assets \<and> distinct (map nm assets) \<and>
    index_of (\<lambda>a. nm a = kManifestAssetName) assets = Some m \<and> index_of (\<lambda>a. nm a = kSignatureAssetName) assets = Some s \<and>
    index_of (\<lambda>a. nm a = c_str zip_name) assets = Some z"
    by (auto simp: required_loop_Ok ResetRequired_def pick_none [symmetric])
  finally show ?thesis using Some distinct_index by auto
qed

text \<open>
  C12: The search for the assets of an update succeeds with three of them exactly when the release is of
  the requested kind and carries the signed tag, every asset meets \<open>asset_bound\<close>, all names differ, and
  the three are the manifest, its signature and the archive whose name the manifest signs.  What
  \<open>asset_bound\<close> asks depends on the kind, as in the code: in a published release the download address is
  one of those that the signed tag and the name of the asset determine; in a prepared draft, whose assets
  have no public address, the tag is not in any address, and the asset only needs a number and some
  address of an asset at \<open>api.github.com\<close>.  That this is the address of that very number is the work of
  the parser which filled it in, see \<open>release_parsed_exactly\<close>.
\<close>

theorem required_assets_exact:
  "FindRequiredAssetsForKind release kind (Some tag) (Some zip_name) (Some r0) =
     (AssetsOk, Some \<lparr>required_manifest = Some m, required_signature = Some s, required_board_zip = Some z\<rparr>) \<longleftrightarrow>
   EligibleKind release kind \<and> safe_tag (c_str tag) \<and> c_str (tag_name release) = c_str tag \<and>
   safe_name (c_str zip_name) \<and> c_str zip_name \<notin> {kManifestAssetName, kSignatureAssetName} \<and>
   (\<exists>assets. release_assets release = Some assets \<and> length assets \<le> kMaximumGitHubReleaseAssets \<and>
      list_all (asset_bound kind (c_str tag)) assets \<and> distinct (map nm assets) \<and>
      m < length assets \<and> nm (assets ! m) = kManifestAssetName \<and>
      s < length assets \<and> nm (assets ! s) = kSignatureAssetName \<and>
      z < length assets \<and> nm (assets ! z) = c_str zip_name)"
  by (rule FindRequiredAssetsForKind_iff)

lemma described_bound:
  assumes "asset_described kind tag t a"
  shows "asset_bound kind tag a"
proof -
  have c: "nm a = asset_name a" "c_str (browser_download_url a) = browser_download_url a" "browser_download_url a \<noteq> []"
    using assms string_field_c_str by (auto simp: asset_described_def string_field_def)
  have "asset_id a \<noteq> 0 \<and> c_str (api_download_url a) \<in> api_urls" if "kind = PreparedDraft"
  proof -
    have "asset_id a \<noteq> 0" using assms that by (auto simp: asset_described_def id_field_def)
    moreover have "ValidateApiAssetUrl a" using assms calculation by (intro api_url_valid(3)) (auto simp: asset_described_def)
    ultimately show ?thesis by (simp add: ValidateApiAssetUrl_iff)
  qed
  with assms c show ?thesis by (cases kind) (auto simp: asset_bound_def asset_described_def)
qed

text \<open>So the search of a parsed release fails for a missing name at most.\<close>

lemma parsed_release_bound:
  assumes "release_described kind capacity ms r"
  obtains assets where "release_assets r = Some assets" "list_all (asset_bound kind (tag_name r)) assets"
    "distinct (map nm assets)" "length assets \<le> kMaximumGitHubReleaseAssets" "EligibleKind r kind"
proof -
  obtain es assets where es: "release_assets r = Some assets" "distinct (map asset_name assets)"
    "list_all2 (\<lambda>e a. asset_described kind (tag_name r) (element_value e) a) es assets" "length es \<le> kMaximumGitHubReleaseAssets"
    using assms by (auto simp: release_described_def)
  have d: "\<exists>t. asset_described kind (tag_name r) t a" if "a \<in> set assets" for a
    using es(3) that by (auto simp: list_all2_conv_all_nth in_set_conv_nth)
  have "map nm assets = map asset_name assets" using d asset_described_c_str by (intro map_cong) blast+
  then have "distinct (map nm assets)" using es(2) by (simp only:)
  moreover have "list_all (asset_bound kind (tag_name r)) assets" unfolding list_all_iff using d described_bound by blast
  moreover have "EligibleKind r kind" using assms by (auto simp: release_described_def EligibleKind_def)
  ultimately show thesis using that [of assets] es list_all2_lengthD [OF es(3)] by simp
qed

end
