(* ===== verification/Release_Offer.thy ===== *)
theory Release_Offer
  imports Manifest_Safety Build_Info Release_Exact Signature_Envelope
begin

text \<open>
  The offer of a release, \<open>src/src/update/release_offer.cpp\<close>: the function that joins the description of
  the installed build, the release feed, the signed manifest, the trust decision, the choice of assets and the
  update policy.  It is the only way from downloaded bytes to an update.

  A byte view without data, a missing array and a missing output are \<open>None\<close> or \<open>False\<close>; an array is given by its
  capacity.  What a refused offer leaves in the caller's record is not part of the model; the three fields of
  \<open>ReleaseOffer\<close> about configuration stay zero and are left out.
\<close>

section \<open>Data\<close>

datatype ReleaseAcquisitionMode = AcquirePublishedStable | AcquirePreparedDraft

record ReleaseOfferStorage =
  offer_installed_tokens :: "nat option"
  offer_github_tokens :: "nat option"
  offer_github_assets :: "nat option"
  offer_manifest_tokens :: "nat option"
  offer_files :: "nat option"
  offer_directories :: "nat option"
  offer_deletions :: "nat option"
  offer_replacements :: "nat option"

record ReleaseOffer =
  offer_installed :: InstalledBuildInfo
  offer_github :: GitHubLatestRelease
  offer_manifest :: ReleaseManifest
  offer_assets :: RequiredGitHubReleaseAssets
  offer_decision :: ReleaseDecision

datatype ReleaseOfferStatus =
  OfferOk | OfferInvalidArgument | InstalledMetadataInvalid | GitHubResponseInvalid | MetadataAssetsInvalid |
  MetadataSizeMismatch | ManifestInvalid | ManifestUntrusted | ReleaseAssetsInvalid | ZipMetadataMismatch |
  ReleaseRejected | ReleaseEpochRegressed

text \<open>The status of a manifest is \<open>None\<close> for \<open>Ok\<close>.\<close>

record ReleaseOfferResult =
  offer_status :: ReleaseOfferStatus
  build_info_status :: BuildInfoStatus
  github_status :: GitHubReleaseParseStatus
  assets_status :: RequiredGitHubAssetsStatus
  manifest_status :: "ManifestParseStatus option"
  offer_trust_status :: ManifestTrustStatus
  result_decision :: ReleaseDecision

definition MakeResult :: "ReleaseOfferStatus \<Rightarrow> ReleaseOfferResult" where
  "MakeResult status = \<lparr>offer_status = status, build_info_status = BuildInfoInvalidArgument,
     github_status = ReleaseInvalidArgument, assets_status = AssetsInvalidArgument,
     manifest_status = Some ManifestInvalidArgument, offer_trust_status = TrustInvalidArgument,
     result_decision = InvalidCandidateMetadata\<rparr>"

definition array_given :: "nat option \<Rightarrow> bool" where
  "array_given a = (case a of None \<Rightarrow> False | Some capacity \<Rightarrow> capacity \<noteq> 0)"

definition StorageIsValid :: "ReleaseOfferStorage \<Rightarrow> bool" where
  "StorageIsValid s \<longleftrightarrow> array_given (offer_installed_tokens s) \<and> array_given (offer_github_tokens s) \<and>
     array_given (offer_github_assets s) \<and> array_given (offer_manifest_tokens s) \<and> array_given (offer_files s) \<and>
     array_given (offer_directories s) \<and> array_given (offer_deletions s) \<and> array_given (offer_replacements s)"

section \<open>The offer\<close>

definition github_storage :: "ReleaseOfferStorage \<Rightarrow> GitHubReleaseParseStorage" where
  "github_storage s = \<lparr>tokens_given = True, storage_tokens = the (offer_github_tokens s),
     assets_given = True, asset_capacity = the (offer_github_assets s)\<rparr>"

definition manifest_storage :: "ReleaseOfferStorage \<Rightarrow> ManifestParseStorage" where
  "manifest_storage s = \<lparr>manifest_tokens = the (offer_manifest_tokens s), file_capacity = the (offer_files s),
     directory_capacity = the (offer_directories s), deletion_capacity = the (offer_deletions s),
     replacement_capacity = the (offer_replacements s)\<rparr>"

definition release_kind :: "ReleaseAcquisitionMode \<Rightarrow> GitHubReleaseKind" where
  "release_kind mode = (if mode = AcquirePreparedDraft then PreparedDraft else PublishedStable)"

definition offered_installed :: "InstalledBuildInfo \<Rightarrow> InstalledRelease" where
  "offered_installed b = \<lparr>has_update_metadata = True, installed_sequence = build_sequence b,
     installed_board = build_board b, updater_abi = build_abi b\<rparr>"

definition offered_candidate :: "ReleaseAcquisitionMode \<Rightarrow> GitHubLatestRelease \<Rightarrow> ReleaseManifest \<Rightarrow> ReleaseCandidate" where
  "offered_candidate mode github m = \<lparr>candidate_source = GitHubLatestKdreBmx, candidate_channel = Stable,
     api_reports_draft = (if mode = AcquirePublishedStable then release_draft github else False),
     api_reports_prerelease = release_prerelease github, candidate_sequence = release_sequence m,
     candidate_board = asset_board (manifest_asset m), minimum_updater_abi = release_minimum_abi m,
     maximum_updater_abi = release_maximum_abi m\<rparr>"

definition pointed_size :: "GitHubLatestRelease \<Rightarrow> nat option \<Rightarrow> u64" where
  "pointed_size github i = asset_size (the (release_assets github) ! the i)"

text \<open>The last part: the assets the signed manifest names, and the policy.\<close>

definition decide_offer ::
  "ReleaseAcquisitionMode \<Rightarrow> InstalledBuildInfo \<Rightarrow> GitHubLatestRelease \<Rightarrow> GitHubReleaseMetadataAssets \<Rightarrow>
   ReleaseManifest \<Rightarrow> ReleaseOfferResult \<Rightarrow> ReleaseOfferResult \<times> ReleaseOffer option" where
  "decide_offer mode build github metadata m result =
     (case FindRequiredAssetsForKind github (release_kind mode) (Some (release_tag m))
         (Some (asset_filename (manifest_asset m))) (Some ResetRequired) of
        (status, required) \<Rightarrow>
          let result = result\<lparr>assets_status := status\<rparr>; assets = the required in
          if status \<noteq> AssetsOk then (result\<lparr>offer_status := ReleaseAssetsInvalid\<rparr>, None)
          else if required_manifest assets \<noteq> metadata_manifest metadata \<or>
                  required_signature assets \<noteq> metadata_signature metadata \<or>
                  pointed_size github (required_board_zip assets) \<noteq> download_size (manifest_asset m)
          then (result\<lparr>offer_status := ZipMetadataMismatch\<rparr>, None)
          else
            let decision = EvaluateReleaseCandidate (offered_installed build) (offered_candidate mode github m);
                result = result\<lparr>result_decision := decision\<rparr> in
            if decision \<noteq> UpdateAvailable then (result\<lparr>offer_status := ReleaseRejected\<rparr>, None)
            else if release_epoch m < build_epoch build then (result\<lparr>offer_status := ReleaseEpochRegressed\<rparr>, None)
            else (result\<lparr>offer_status := OfferOk\<rparr>,
              Some \<lparr>offer_installed = build, offer_github = github, offer_manifest = m, offer_assets = assets,
                offer_decision = decision\<rparr>))"

text \<open>The middle part: the manifest and its signature, whose sizes have to be those of the feed.\<close>

definition trust_offer ::
  "(byte list \<Rightarrow> byte list \<Rightarrow> byte list \<Rightarrow> bool) \<Rightarrow> TrustedReleaseKey list \<Rightarrow> ReleaseOfferStorage \<Rightarrow> BoardFamily \<Rightarrow>
   ReleaseAcquisitionMode \<Rightarrow> byte list \<Rightarrow> byte list \<Rightarrow> JsonParseResult option \<Rightarrow> InstalledBuildInfo \<Rightarrow> GitHubLatestRelease \<Rightarrow>
   ReleaseOfferResult \<Rightarrow> ReleaseOfferResult \<times> ReleaseOffer option" where
  "trust_offer verify trusted_keys storage board mode manifest_bytes envelope json_result build github result =
     (case FindReleaseMetadataAssetsForKind github (release_kind mode)
         (Some \<lparr>metadata_manifest = None, metadata_signature = None\<rparr>) of
        (status, found) \<Rightarrow>
          let result = result\<lparr>assets_status := status\<rparr>; metadata = the found in
          if status \<noteq> AssetsOk then (result\<lparr>offer_status := MetadataAssetsInvalid\<rparr>, None)
          else if unat (pointed_size github (metadata_manifest metadata)) \<noteq> length manifest_bytes \<or>
                  unat (pointed_size github (metadata_signature metadata)) \<noteq> length envelope
          then (result\<lparr>offer_status := MetadataSizeMismatch\<rparr>, None)
          else case fst (ParseReleaseManifest (Some manifest_bytes) board (Some (manifest_storage storage)) True json_result) of
            Inl e \<Rightarrow> (result\<lparr>manifest_status := Some e, offer_status := ManifestInvalid\<rparr>, None)
          | Inr m \<Rightarrow>
              let trust = VerifyManifestTrust (Some verify) (Some manifest_bytes) (signing_key_ids m) (Some envelope) (Some trusted_keys);
                  result = result\<lparr>manifest_status := None, offer_trust_status := trust_status trust\<rparr> in
              if trust_status trust \<noteq> Trusted then (result\<lparr>offer_status := ManifestUntrusted\<rparr>, None)
              else decide_offer mode build github metadata m result)"

definition json_unset :: JsonParseResult where
  "json_unset = \<lparr>result_error = JSON_OK, token_count = 0, error_offset = 0\<rparr>"

definition BuildReleaseOfferForMode ::
  "byte list option \<Rightarrow> byte list option \<Rightarrow> byte list option \<Rightarrow> byte list option \<Rightarrow> BoardFamily \<Rightarrow> ReleaseAcquisitionMode \<Rightarrow>
   TrustedReleaseKey list option \<Rightarrow> (byte list \<Rightarrow> byte list \<Rightarrow> byte list \<Rightarrow> bool) option \<Rightarrow> ReleaseOfferStorage \<Rightarrow> bool \<Rightarrow>
   ReleaseOfferResult \<times> ReleaseOffer option" where
  "BuildReleaseOfferForMode installed_build_info github_latest_response manifest_bytes signature_envelope running_board
      acquisition_mode trusted_keys verify_function storage offer_given =
     (let result = MakeResult OfferInvalidArgument in
      case (installed_build_info, github_latest_response, manifest_bytes, signature_envelope, trusted_keys, verify_function) of
        (Some build_bytes, Some feed, Some manifest, Some envelope, Some keys, Some verify) \<Rightarrow>
          if \<not> offer_given \<or> \<not> IsKnownBoardFamily running_board \<or> keys = [] \<or> \<not> StorageIsValid storage then (result, None)
          else
            (case ParseBuildInfo (Some build_bytes) True (the (offer_installed_tokens storage)) True (Some json_unset) of
               (Inl e, _) \<Rightarrow> (result\<lparr>build_info_status := e, offer_status := InstalledMetadataInvalid\<rparr>, None)
             | (Inr build, _) \<Rightarrow>
                 let result = result\<lparr>build_info_status := BuildInfoOk\<rparr> in
                 if build_board build \<noteq> running_board then (result\<lparr>offer_status := InstalledMetadataInvalid\<rparr>, None)
                 else
                   (case ParseGitHubRelease (Some feed) (github_storage storage) (release_kind acquisition_mode)
                       (Some ResetRelease) (Some json_unset) of
                      (status, github, json_result) \<Rightarrow>
                        let result = result\<lparr>github_status := status\<rparr> in
                        if status \<noteq> ReleaseOk then (result\<lparr>offer_status := GitHubResponseInvalid\<rparr>, None)
                        else trust_offer verify keys storage running_board acquisition_mode manifest envelope json_result
                          build (the github) result))
      | _ \<Rightarrow> (result, None))"

definition BuildReleaseOffer ::
  "byte list option \<Rightarrow> byte list option \<Rightarrow> byte list option \<Rightarrow> byte list option \<Rightarrow> BoardFamily \<Rightarrow>
   TrustedReleaseKey list option \<Rightarrow> (byte list \<Rightarrow> byte list \<Rightarrow> byte list \<Rightarrow> bool) option \<Rightarrow> ReleaseOfferStorage \<Rightarrow> bool \<Rightarrow>
   ReleaseOfferResult \<times> ReleaseOffer option" where
  "BuildReleaseOffer installed_build_info github_latest_response manifest_bytes signature_envelope running_board
      trusted_keys verify_function storage offer_given =
     BuildReleaseOfferForMode installed_build_info github_latest_response manifest_bytes signature_envelope running_board
       AcquirePublishedStable trusted_keys verify_function storage offer_given"

end
