(* ===== verification/Offer_Exact.thy ===== *)
theory Offer_Exact
  imports Release_Offer
begin

text \<open>
  When an update is offered, and what is then known of it: the checks of all components taken together.
\<close>

section \<open>The two searches agree\<close>

lemma required_shape:
  assumes "FindRequiredAssetsForKind r kind (Some tag) (Some zip_name) (Some r0) = (AssetsOk, q)"
  obtains m s z where "q = Some \<lparr>required_manifest = Some m, required_signature = Some s, required_board_zip = Some z\<rparr>"
proof -
  obtain found where "q = Some found" "required_manifest found \<noteq> None" "required_signature found \<noteq> None" "required_board_zip found \<noteq> None"
    using assms by (auto simp: FindRequiredAssetsForKind_def split: option.split_asm if_split_asm prod.split_asm)
  with that show thesis by (cases found) auto
qed

lemma metadata_agrees:
  assumes "FindRequiredAssetsForKind r kind (Some tag) (Some zip_name) (Some r0) =
     (AssetsOk, Some \<lparr>required_manifest = Some m, required_signature = Some s, required_board_zip = Some z\<rparr>)"
  shows "FindReleaseMetadataAssetsForKind r kind (Some d) =
     (AssetsOk, Some \<lparr>metadata_manifest = Some m, metadata_signature = Some s\<rparr>)"
proof -
  let ?f = "\<lparr>required_manifest = Some m, required_signature = Some s, required_board_zip = Some z\<rparr>"
  obtain assets where a: "release_assets r = Some assets" "EligibleKind r kind" "safe_tag (c_str (tag_name r))"
    "c_str zip_name \<noteq> kManifestAssetName" "c_str zip_name \<noteq> kSignatureAssetName" "length assets \<le> kMaximumGitHubReleaseAssets"
    "list_all (asset_bound kind (c_str (tag_name r))) assets" "distinct (map nm assets)"
    "m < length assets" "nm (assets ! m) = kManifestAssetName" "s < length assets" "nm (assets ! s) = kSignatureAssetName"
    "z < length assets" "nm (assets ! z) = c_str zip_name"
    using assms unfolding FindRequiredAssetsForKind_iff by auto
  have "pick kManifestAssetName 0 assets None = Some m" "pick kSignatureAssetName 0 assets None = Some s"
    "pick (c_str zip_name) 0 assets None = Some z"
    using a(9-14) by (simp_all add: pick_none distinct_index [OF a(8)])
  then have "required_loop kind (tag_name r) zip_name [] assets ResetRequired = (AssetsOk, ?f)"
    unfolding required_loop_Ok [OF a(3-5)] using a(7,8) by (simp add: ResetRequired_def)
  from arg_cong [OF this, of "map_prod (\<lambda>s. s) metadata_of"] metadata_loop_projects [of kind "tag_name r" "[]" assets ResetRequired zip_name]
  have "metadata_loop kind (tag_name r) [] assets (metadata_of ResetRequired) = (AssetsOk, metadata_of ?f)" by simp
  then show ?thesis
    using a(1-3,6) by (simp add: FindReleaseMetadataAssetsForKind_def metadata_of_def ResetRequired_def IsSafeTag_iff)
qed

section \<open>The policy\<close>

lemma policy_offers:
  assumes "build_ok b" and "release_ok m" and "asset_board (manifest_asset m) = build_board b" and "EligibleKind github (release_kind mode)"
  shows "EvaluateReleaseCandidate (offered_installed b) (offered_candidate mode github m) = UpdateAvailable \<longleftrightarrow>
    build_sequence b < release_sequence m \<and> release_minimum_abi m \<le> build_abi b \<and> build_abi b \<le> release_maximum_abi m"
proof -
  have "build_sequence b \<noteq> 0" "build_abi b \<noteq> 0" "release_minimum_abi m \<noteq> 0" "IsKnownBoardFamily (build_board b)"
    using assms(1,2) by (auto simp: build_ok_def release_ok_def)
  moreover have "mode = AcquirePublishedStable \<longrightarrow> \<not> release_draft github" "\<not> release_prerelease github"
    using assms(4) by (auto simp: EligibleKind_def release_kind_def split: if_split_asm)
  ultimately show ?thesis
    using assms(3) by (auto simp: update_available_iff offered_installed_def offered_candidate_def)
qed

section \<open>The offer\<close>

text \<open>
  The assets of an offer: the release is of the right kind and carries the signed tag, all its assets are bound
  to that tag and named apart, and the three chosen ones have the right names and sizes.
\<close>

definition assets_genuine ::
  "GitHubReleaseKind \<Rightarrow> GitHubLatestRelease \<Rightarrow> ReleaseManifest \<Rightarrow> nat \<Rightarrow> nat \<Rightarrow> RequiredGitHubReleaseAssets \<Rightarrow> bool" where
  "assets_genuine kind github m manifest_bytes envelope_bytes required \<longleftrightarrow>
     EligibleKind github kind \<and> safe_tag (c_str (release_tag m)) \<and> c_str (tag_name github) = c_str (release_tag m) \<and>
     safe_name (c_str (asset_filename (manifest_asset m))) \<and>
     c_str (asset_filename (manifest_asset m)) \<notin> {kManifestAssetName, kSignatureAssetName} \<and>
     (\<exists>assets i j z. release_assets github = Some assets \<and> length assets \<le> kMaximumGitHubReleaseAssets \<and>
        list_all (asset_bound kind (c_str (release_tag m))) assets \<and> distinct (map nm assets) \<and>
        required = \<lparr>required_manifest = Some i, required_signature = Some j, required_board_zip = Some z\<rparr> \<and>
        i < length assets \<and> nm (assets ! i) = kManifestAssetName \<and> unat (asset_size (assets ! i)) = manifest_bytes \<and>
        j < length assets \<and> nm (assets ! j) = kSignatureAssetName \<and> unat (asset_size (assets ! j)) = envelope_bytes \<and>
        z < length assets \<and> nm (assets ! z) = c_str (asset_filename (manifest_asset m)) \<and>
        asset_size (assets ! z) = download_size (manifest_asset m))"

definition signature_genuine ::
  "(byte list \<Rightarrow> byte list \<Rightarrow> byte list \<Rightarrow> bool) \<Rightarrow> TrustedReleaseKey list \<Rightarrow> byte list \<Rightarrow> byte list \<Rightarrow> ReleaseManifest \<Rightarrow> bool" where
  "signature_genuine verify keys manifest envelope m \<longleftrightarrow>
     (\<exists>ss s. envelope = render_envelope ss \<and> signatures_ok ss \<and> s \<in> set ss \<and> key_id s \<in> set (signing_key_ids m) \<and>
        vouched verify manifest keys s)"

definition upgrade :: "InstalledBuildInfo \<Rightarrow> ReleaseManifest \<Rightarrow> bool" where
  "upgrade b m \<longleftrightarrow> build_sequence b < release_sequence m \<and> build_epoch b \<le> release_epoch m \<and>
     release_minimum_abi m \<le> build_abi b \<and> build_abi b \<le> release_maximum_abi m"

lemma decide_offer_iff:
  assumes "build_ok b" and "release_ok m" and "asset_board (manifest_asset m) = build_board b"
    and meta: "FindReleaseMetadataAssetsForKind github (release_kind mode) (Some d) = (AssetsOk, Some metadata)"
    and sizes: "unat (pointed_size github (metadata_manifest metadata)) = l1" "unat (pointed_size github (metadata_signature metadata)) = l2"
  shows "(\<exists>r. decide_offer mode b github metadata m result = (r, Some offer)) \<longleftrightarrow>
    assets_genuine (release_kind mode) github m l1 l2 (offer_assets offer) \<and> upgrade b m \<and>
    offer_installed offer = b \<and> offer_github offer = github \<and> offer_manifest offer = m \<and> offer_decision offer = UpdateAvailable"
  (is "?l \<longleftrightarrow> ?r")
proof -
  let ?find = "FindRequiredAssetsForKind github (release_kind mode) (Some (release_tag m))
         (Some (asset_filename (manifest_asset m))) (Some ResetRequired)"
  show ?thesis
  proof (cases "\<exists>i j z. ?find = (AssetsOk, Some \<lparr>required_manifest = Some i, required_signature = Some j, required_board_zip = Some z\<rparr>)")
    case False
    have "fst ?find \<noteq> AssetsOk"
    proof
      assume "fst ?find = AssetsOk"
      then have "?find = (AssetsOk, snd ?find)" by (metis prod.collapse)
      from required_shape [OF this] False show False by (metis \<open>?find = (AssetsOk, snd ?find)\<close>)
    qed
    then have "\<not> ?l" by (auto simp: decide_offer_def split: prod.splits)
    moreover have "\<not> ?r" using False unfolding FindRequiredAssetsForKind_iff by (auto simp: assets_genuine_def)
    ultimately show ?thesis by blast
  next
    case True
    then obtain i j z where find: "?find = (AssetsOk, Some \<lparr>required_manifest = Some i, required_signature = Some j, required_board_zip = Some z\<rparr>)"
      by blast
    have m: "metadata = \<lparr>metadata_manifest = Some i, metadata_signature = Some j\<rparr>"
      using metadata_agrees [OF find, of d] meta by simp
    note spec = find [unfolded FindRequiredAssetsForKind_iff]
    then obtain assets where a: "release_assets github = Some assets" "i < length assets" "j < length assets" "z < length assets"
      "distinct (map nm assets)" "nm (assets ! i) = kManifestAssetName" "nm (assets ! j) = kSignatureAssetName"
      "nm (assets ! z) = c_str (asset_filename (manifest_asset m))" by auto
    have size: "pointed_size github (Some k) = asset_size (assets ! k)" for k using a(1) by (simp add: pointed_size_def)
    have uniq: "k = i" if "k < length assets" "nm (assets ! k) = kManifestAssetName" for k
      using that a(2,6) nth_eq_iff_index_eq [OF a(5), of k i] by simp
    have uniq2: "k = j" if "k < length assets" "nm (assets ! k) = kSignatureAssetName" for k
      using that a(3,7) nth_eq_iff_index_eq [OF a(5), of k j] by simp
    have uniq3: "k = z" if "k < length assets" "nm (assets ! k) = c_str (asset_filename (manifest_asset m))" for k
      using that a(4,8) nth_eq_iff_index_eq [OF a(5), of k z] by simp
    have ag: "assets_genuine (release_kind mode) github m l1 l2 required \<longleftrightarrow>
      required = \<lparr>required_manifest = Some i, required_signature = Some j, required_board_zip = Some z\<rparr> \<and>
      asset_size (assets ! z) = download_size (manifest_asset m)" for required
      using spec a sizes by (auto simp: assets_genuine_def size m dest: uniq uniq2 uniq3)
    have pol: "EvaluateReleaseCandidate (offered_installed b) (offered_candidate mode github m) = UpdateAvailable \<longleftrightarrow>
      build_sequence b < release_sequence m \<and> release_minimum_abi m \<le> build_abi b \<and> build_abi b \<le> release_maximum_abi m"
      using spec by (intro policy_offers assms(1-3)) blast
    show ?thesis
      unfolding ag upgrade_def decide_offer_def find using pol
      by (cases offer) (auto simp: Let_def m size not_less)
  qed
qed

lemma metadata_shape:
  "FindReleaseMetadataAssetsForKind github kind (Some d) = (AssetsOk, found) \<Longrightarrow> \<exists>metadata. found = Some metadata"
  by (auto simp: FindReleaseMetadataAssetsForKind_def Let_def split: option.split_asm if_split_asm prod.split_asm)

lemma genuine_metadata:
  assumes "assets_genuine kind github m l1 l2 required"
  obtains metadata where "FindReleaseMetadataAssetsForKind github kind (Some d) = (AssetsOk, Some metadata)"
    "unat (pointed_size github (metadata_manifest metadata)) = l1" "unat (pointed_size github (metadata_signature metadata)) = l2"
proof -
  obtain assets i j z where a: "release_assets github = Some assets" "unat (asset_size (assets ! i)) = l1" "unat (asset_size (assets ! j)) = l2"
    and find: "FindRequiredAssetsForKind github kind (Some (release_tag m)) (Some (asset_filename (manifest_asset m))) (Some ResetRequired) =
      (AssetsOk, Some \<lparr>required_manifest = Some i, required_signature = Some j, required_board_zip = Some z\<rparr>)"
    using assms unfolding FindRequiredAssetsForKind_iff assets_genuine_def by auto
  show thesis by (rule that [OF metadata_agrees [OF find]]) (use a in \<open>simp_all add: pointed_size_def\<close>)
qed

lemma trust_offer_iff:
  assumes "build_ok b" and "build_board b = board"
  shows "(\<exists>r. trust_offer verify keys storage board mode manifest envelope jr b github result = (r, Some offer)) \<longleftrightarrow>
    fst (ParseReleaseManifest (Some manifest) board (Some (manifest_storage storage)) True jr) = Inr (offer_manifest offer) \<and>
    manifest \<noteq> [] \<and> signature_genuine verify keys manifest envelope (offer_manifest offer) \<and>
    assets_genuine (release_kind mode) github (offer_manifest offer) (length manifest) (length envelope) (offer_assets offer) \<and>
    upgrade b (offer_manifest offer) \<and> offer_installed offer = b \<and> offer_github offer = github \<and> offer_decision offer = UpdateAvailable"
  (is "?l \<longleftrightarrow> ?r")
proof -
  let ?d = "\<lparr>metadata_manifest = None, metadata_signature = None\<rparr>"
  let ?find = "FindReleaseMetadataAssetsForKind github (release_kind mode) (Some ?d)"
  let ?parse = "fst (ParseReleaseManifest (Some manifest) board (Some (manifest_storage storage)) True jr)"
  show ?thesis
  proof (cases "\<exists>metadata m. ?find = (AssetsOk, Some metadata) \<and> unat (pointed_size github (metadata_manifest metadata)) = length manifest \<and>
      unat (pointed_size github (metadata_signature metadata)) = length envelope \<and> ?parse = Inr m")
    case False
    have "\<not> ?l"
    proof
      assume ?l
      then have "fst ?find = AssetsOk" by (auto simp: trust_offer_def Let_def split: prod.split_asm if_split_asm)
      then obtain metadata where meta: "?find = (AssetsOk, Some metadata)" using metadata_shape by (metis prod.collapse)
      with \<open>?l\<close> False show False by (auto simp: trust_offer_def Let_def split: if_split_asm sum.split_asm)
    qed
    moreover have "\<not> ?r" using False genuine_metadata by (metis (no_types, lifting))
    ultimately show ?thesis by blast
  next
    case True
    then obtain metadata m where meta: "?find = (AssetsOk, Some metadata)"
      and sizes: "unat (pointed_size github (metadata_manifest metadata)) = length manifest"
        "unat (pointed_size github (metadata_signature metadata)) = length envelope"
      and parse: "?parse = Inr m" by blast
    have ok: "release_ok m" "asset_board (manifest_asset m) = build_board b"
      using ParseReleaseManifest_ok [OF parse] assms(2) by (auto simp: manifest_ok_def)
    let ?trust = "VerifyManifestTrust (Some verify) (Some manifest) (signing_key_ids m) (Some envelope) (Some keys)"
    have trust: "trust_status ?trust = Trusted \<longleftrightarrow> manifest \<noteq> [] \<and> signature_genuine verify keys manifest envelope m"
      unfolding trust_exact signature_genuine_def by auto
    let ?res = "result\<lparr>assets_status := AssetsOk, manifest_status := None, offer_trust_status := trust_status ?trust\<rparr>"
    have "?l \<longleftrightarrow> trust_status ?trust = Trusted \<and> (\<exists>r. decide_offer mode b github metadata m ?res = (r, Some offer))"
      using meta sizes parse by (simp add: trust_offer_def Let_def)
    also have "\<dots> \<longleftrightarrow> ?r"
      unfolding trust decide_offer_iff [OF assms(1) ok meta sizes] using parse by auto
    finally show ?thesis .
  qed
qed

text \<open>A release in memory that came out of the feed.\<close>

definition parsed_feed :: "byte list \<Rightarrow> ReleaseOfferStorage \<Rightarrow> ReleaseAcquisitionMode \<Rightarrow> GitHubLatestRelease \<Rightarrow> bool" where
  "parsed_feed feed storage mode github \<longleftrightarrow>
     (\<exists>jr. ParseGitHubRelease (Some feed) (github_storage storage) (release_kind mode) (Some ResetRelease) (Some json_unset) =
        (ReleaseOk, Some github, jr))"

lemma json_result_kept:
  "ParseGitHubRelease encoded storage kind release (Some jr) = (status, github, jr') \<Longrightarrow> \<exists>j. jr' = Some j"
  by (auto simp: ParseGitHubRelease_def Let_def split: option.split_asm if_split_asm prod.split_asm)

lemma release_kept: "ParseGitHubRelease encoded storage kind release jr = (ReleaseOk, github, jr') \<Longrightarrow> \<exists>g. github = Some g"
  by (auto simp: ParseGitHubRelease_def Let_def split: option.split_asm if_split_asm prod.split_asm)

lemma manifest_result_irrelevant:
  "fst (ParseReleaseManifest encoded board storage given (Some j)) = fst (ParseReleaseManifest encoded board storage given (Some j'))"
  by (simp add: ParseReleaseManifest_def split: option.split prod.split)

lemma offer_iff:
  "(\<exists>r. BuildReleaseOfferForMode (Some build) (Some feed) (Some manifest) (Some envelope) board mode (Some keys) (Some verify)
       storage given = (r, Some offer)) \<longleftrightarrow>
   (given \<and> IsKnownBoardFamily board \<and> keys \<noteq> [] \<and> StorageIsValid storage) \<and> manifest \<noteq> [] \<and>
   fst (ParseBuildInfo (Some build) True (the (offer_installed_tokens storage)) True (Some json_unset)) = Inr (offer_installed offer) \<and>
   build_board (offer_installed offer) = board \<and> parsed_feed feed storage mode (offer_github offer) \<and>
   fst (ParseReleaseManifest (Some manifest) board (Some (manifest_storage storage)) True (Some json_unset)) = Inr (offer_manifest offer) \<and>
   signature_genuine verify keys manifest envelope (offer_manifest offer) \<and>
   assets_genuine (release_kind mode) (offer_github offer) (offer_manifest offer) (length manifest) (length envelope) (offer_assets offer) \<and>
   upgrade (offer_installed offer) (offer_manifest offer) \<and> offer_decision offer = UpdateAvailable" (is "?l \<longleftrightarrow> ?args \<and> ?r")
proof -
  let ?build = "ParseBuildInfo (Some build) True (the (offer_installed_tokens storage)) True (Some json_unset)"
  let ?feed = "ParseGitHubRelease (Some feed) (github_storage storage) (release_kind mode) (Some ResetRelease) (Some json_unset)"
  obtain bs j where b: "?build = (bs, j)" by fastforce
  obtain st g jr where f: "?feed = (st, g, jr)" by (metis prod.collapse)
  obtain j' where j': "jr = Some j'" using json_result_kept [OF f] by blast
  show ?thesis
  proof (cases "?args \<and> (\<exists>bi gi. bs = Inr bi \<and> build_board bi = board \<and> st = ReleaseOk \<and> g = Some gi)")
    case True
    then obtain bi gi where t: "bs = Inr bi" "build_board bi = board" "st = ReleaseOk" "g = Some gi" and args: ?args by blast
    have "fst ?build = Inr bi" using b t(1) by simp
    then have ok: "build_ok bi" by (rule ParseBuildInfo_ok)
    let ?res = "MakeResult OfferInvalidArgument\<lparr>build_info_status := BuildInfoOk, github_status := ReleaseOk\<rparr>"
    have "?l \<longleftrightarrow> (\<exists>r. trust_offer verify keys storage board mode manifest envelope jr bi gi ?res = (r, Some offer))"
      using args b f t by (simp add: BuildReleaseOfferForMode_def Let_def)
    also have "\<dots> \<longleftrightarrow> ?r"
      unfolding trust_offer_iff [OF ok t(2)] j' manifest_result_irrelevant [of _ _ _ _ j' json_unset]
      using b f t j' by (auto simp: parsed_feed_def)
    finally show ?thesis using args by blast
  next
    case False
    then have "\<not> ?l" using b f release_kept
      by (fastforce simp: BuildReleaseOfferForMode_def Let_def split: if_split_asm sum.split_asm)
    moreover have "\<not> (?args \<and> ?r)" using False b f by (auto simp: parsed_feed_def)
    ultimately show ?thesis by blast
  qed
qed

lemma offer_status_iff:
  "BuildReleaseOfferForMode build feed manifest envelope board mode keys verify storage given = (r, offer) \<Longrightarrow>
   offer_status r = OfferOk \<longleftrightarrow> offer \<noteq> None"
  by (auto simp: BuildReleaseOfferForMode_def trust_offer_def decide_offer_def MakeResult_def Let_def
      split: option.split_asm if_split_asm prod.split_asm sum.split_asm)

text \<open>
  C21: The updater makes an offer exactly when all of this holds, and the offer is what it was made from:
  the arguments are there; the installed build describes itself and belongs to the running board; the feed
  is a release of the requested kind; the manifest parses for this board; an unrevoked trusted key that the
  manifest declares vouches for a signature of the envelope over exactly the manifest's bytes; the feed carries
  the signed tag, all its assets meet \<open>asset_bound\<close> for that tag and kind, and manifest, signature and board archive are the assets
  of those names with the sizes of the downloaded bytes and of the signed archive; and the release is an
  upgrade: a higher sequence, an epoch that does not go back, an updater ABI that covers the running one.
\<close>

theorem offer_made_exactly:
  "(\<exists>r. BuildReleaseOfferForMode (Some build) (Some feed) (Some manifest) (Some envelope) board mode (Some keys) (Some verify)
       storage given = (r, Some offer)) \<longleftrightarrow>
   (given \<and> IsKnownBoardFamily board \<and> keys \<noteq> [] \<and> StorageIsValid storage) \<and> manifest \<noteq> [] \<and>
   fst (ParseBuildInfo (Some build) True (the (offer_installed_tokens storage)) True (Some json_unset)) = Inr (offer_installed offer) \<and>
   build_board (offer_installed offer) = board \<and> parsed_feed feed storage mode (offer_github offer) \<and>
   fst (ParseReleaseManifest (Some manifest) board (Some (manifest_storage storage)) True (Some json_unset)) = Inr (offer_manifest offer) \<and>
   signature_genuine verify keys manifest envelope (offer_manifest offer) \<and>
   assets_genuine (release_kind mode) (offer_github offer) (offer_manifest offer) (length manifest) (length envelope) (offer_assets offer) \<and>
   upgrade (offer_installed offer) (offer_manifest offer) \<and> offer_decision offer = UpdateAvailable"
  by (rule offer_iff)

text \<open>
  The address of each asset of a parsed feed: for a published release one that the tag and the name
  determine, for a draft the one of the asset's number.
\<close>

definition address_determined :: "GitHubReleaseKind \<Rightarrow> GitHubLatestRelease \<Rightarrow> GitHubReleaseAsset \<Rightarrow> bool" where
  "address_determined kind r a \<longleftrightarrow>
     (case kind of
        PublishedStable \<Rightarrow> GitHubAssetDownloadUrl a kind \<in> download_urls (tag_name r) (asset_name a)
      | PreparedDraft \<Rightarrow> asset_id a \<noteq> 0 \<and> GitHubAssetDownloadUrl a kind = api_url (asset_id a))"

lemma parsed_feed_addresses:
  assumes "parsed_feed feed storage mode r"
  shows "\<exists>assets. release_assets r = Some assets \<and> list_all (address_determined (release_kind mode) r) assets"
proof -
  obtain capacity ms where "release_described (release_kind mode) capacity ms r"
    using assms unfolding parsed_feed_def ParseGitHubRelease_iff by blast
  then obtain es assets where a: "release_assets r = Some assets"
    "list_all2 (\<lambda>e a. asset_described (release_kind mode) (tag_name r) (element_value e) a) es assets"
    by (auto simp: release_described_def)
  have "address_determined (release_kind mode) r a" if "asset_described (release_kind mode) (tag_name r) t a" for t a
    using that by (cases "release_kind mode")
      (auto simp: address_determined_def asset_described_def GitHubAssetDownloadUrl_def id_field_def)
  then have "list_all (address_determined (release_kind mode) r) assets"
    using a(2) by (auto simp: list_all2_conv_all_nth list_all_length)
  with a(1) show ?thesis by simp
qed


end
