(* ===== verification/Spec2Isabelle.thy ===== *)
theory Spec2Isabelle
  imports Fat_Path Url_Policy Command_Mailbox Log_Ring Update_Policy Sha256_Hash Http_Request Chunked_Body
    Response_Exact Signature_Envelope Demo_Update Zip_Utf8 Offer_Exact
begin

text \<open>
  Verification of the updater and of the remote interface of BMX, a Commodore and Atari emulator
  that runs without an operating system on the Raspberry Pi.

  \<^bold>\<open>The program.\<close>  BMX updates itself: it asks GitHub for the latest release, follows redirects to the
  archive, checks a signed manifest, and writes the files of the archive over the files of its SD
  card, which it also boots from.  Its remote interface is a small HTTP server whose requests are
  handed to the emulator's loop through a mailbox.  The code modelled is C++ under
  \<open>src/src/update\<close> and \<open>src/src/remote\<close>; the emulation cores and the video back ends are not.

  \<^bold>\<open>The flow of an update, and the theories along it.\<close>
  \<^item> \<open>Update_Policy\<close> (\<open>update_policy.cpp\<close>): may an update start, and which release counts as an upgrade.
  \<^item> \<open>Release_Offer\<close>, \<open>Offer_Exact\<close> (\<open>release_offer.cpp\<close>): the function that goes from the downloaded bytes to
    an offer, over the parsers, the trust decision and the policy below, and exactly when it makes one.
  \<^item> \<open>Build_Info\<close> (\<open>build_info.cpp\<close>): the description of the installed build.
  \<^item> \<open>Release_Manifest\<close>, \<open>Manifest_Safety\<close> (\<open>release_manifest.cpp\<close>, the registry of \<open>config_migration.cpp\<close>): the
    parser of the signed manifest, and what an accepted manifest is known to satisfy, up to the
    assumptions of the installer.
  \<^item> \<open>Url_Policy\<close> (\<open>url_policy.cpp\<close>, \<open>github_repository_policy.h\<close>): which URLs a request may go to.
  \<^item> \<open>Json_Parser\<close>, \<open>Json_Access\<close> (\<open>json_parser.cpp\<close>): the JSON parser and the readers over its tokens.
    \<open>Json_Grammar\<close> has the trees with their text and their tokens; \<open>Json_Strings\<close>, \<open>Json_Exact\<close> and
    \<open>Json_Trees\<close> prove strings and numbers, then values, sound and complete against them, and
    \<open>Json_Language\<close> concludes.
  \<^item> \<open>Release_Feed\<close>, \<open>Release_Exact\<close> (\<open>github_release_parser.cpp\<close>): the description of a release and the
    choice of its assets, model and exact characterisation, over the JSON parser and the URL policy.
  \<^item> \<open>Http_Common\<close>, \<open>Http_Response\<close>, \<open>Response_Exact\<close>, \<open>Http_Body\<close>, \<open>Chunked_Body\<close>
    (\<open>http_response_parser.cpp\<close>, \<open>body_sinks.cpp\<close>): the head of a response with the exact language it
    accepts, and the decoder of its body, by length or chunks.
  \<^item> \<open>Sha256_Hash\<close> (\<open>sha256.cpp\<close>): the hash, against a functional FIPS 180-4.
  \<^item> \<open>Signature_Codec\<close>, \<open>Signature_Envelope\<close> (\<open>signature_envelope.cpp\<close>, \<open>signature_verifier.cpp\<close>): the
    envelope of signatures, base64, DER, and the decision to trust a manifest.
  \<^item> \<open>Fat_Path\<close> (\<open>fat_path_policy.cpp\<close>): which names may appear on the card.
  \<^item> \<open>Crc32_Check\<close>, \<open>Zip_Stream\<close>, \<open>Zip_Open\<close>, \<open>Zip_Utf8\<close>, \<open>Zip_Directory\<close> (\<open>zip_reader.cpp\<close>): the archive, from
    its directory to the checked stream of one member.  \<open>Zip_Open\<close> holds the definitions of \<open>Open\<close>,
    \<open>Zip_Directory\<close> what follows from its success.
  \<^item> \<open>Update_Volume\<close> (\<open>update_filesystem.h\<close>): the file system interface as a record of operations, and
    its contract as the locale \<open>update_volume\<close>.
  \<^item> \<open>Update_Installer\<close> (\<open>simple_update_installer.cpp\<close>): the plan, the passes, the deletions;
    \<open>Installer_Volume\<close> proves the installer over any volume that keeps the contract;
    \<open>Archive_Install\<close> puts \<open>Open\<close> in front of it.
  \<^item> \<open>Fatfs_Adapter\<close> (\<open>fatfs_update_filesystem.cpp\<close>): the implementation of the interface over FatFs;
    \<open>Fatfs_Contract\<close> states what FatFs documents (locales \<open>fatfs_reads\<close> and \<open>fatfs\<close>) and proves the
    contract of \<open>update_volume\<close> from it; \<open>Fatfs_Removal\<close> proves that \<open>RemoveDirectory\<close> ends.
  \<^item> \<open>Fatfs_Card\<close> is a card in memory with a plan of faults, the interpretation of those locales;
    \<open>Demo_Archive\<close> is a small archive byte by byte; \<open>Installer_Safety\<close> has the properties of the
    composition, and \<open>Demo_Update\<close> two runs of it, one complete and one in which the rename of the
    extracted file fails.

  \<^bold>\<open>The remote interface.\<close>  \<open>Http_Request\<close> (\<open>http_parser.cpp\<close>, \<open>http_types.cpp\<close>) parses requests as they
  arrive; \<open>Command_Mailbox\<close> (\<open>command_mailbox.cpp\<close>) passes them to the emulator and answers back;
  \<open>Log_Ring\<close> (\<open>developer_log_ring.cpp\<close>) keeps the last bytes of the log for remote readers.

  \<^bold>\<open>How the code is read.\<close>  \<open>Bmx_Prelude\<close> has the conventions: fixed-width integers are words, a pointer
  with a length is a list of bytes, a pointer that is compared with null is an option, and the C
  string functions are list functions.  A class is a record, a method a function from the record to
  the result and the new record, an enumeration a datatype with the constructors of the source, an
  early return a branch.  The state a method changes through a reference is part of its result.
  Abstract classes are records of operations over a state of any type; the harmless order of
  evaluation inside an expression is fixed as written.

  \<^bold>\<open>Interfaces.\<close>  The locales are: \<open>checked_number\<close> and \<open>incremental\<close> (prelude; the overflow-checked digit
  loops and the consumers that may be fed in pieces), \<open>component_scanner\<close> (the two path walks), the
  body sink of \<open>Http_Body\<close>, \<open>update_volume\<close>, \<open>fatfs_reads\<close>, \<open>fatfs\<close>,
  \<open>fatfs_finite\<close>.  Each is interpreted on the model's own definitions.

  \<^bold>\<open>What the properties show.\<close>  For the updater: an interruption at any moment leaves under every name
  the old file, nothing, or the complete released file, never a torn one, and the build identity is
  replaced last (nothing is possible because the old target is removed before the rename);
  success means the whole release is in place; a refusal changes nothing; what was synced was read
  back with its digest.  Two of these rest on the contract of the file system, which the adapter is
  shown to keep over every card that behaves as FatFs documents and may fail at any operation.  That
  the names of the manifest do not collide is not assumed: it follows from the archive that was
  opened.  For the formats (requests, responses, chunks, URLs, paths, envelopes, DER, base64, UTF-8,
  archives, JSON, release descriptions) the theorems say exactly what is accepted.  A published
  release is accepted only with the download addresses that its tag and the names of its assets determine;
  the assets of a prepared draft have the address of their number, in which the tag does not occur.  The
  three assets of an update are found only in a release that carries the signed tag.  An offer is made
  exactly when all checks agree, and what it offers is well formed, vouched for by a trusted key, an
  upgrade in sequence and epoch, and fit for the installer.  For the mailbox and the log ring the
  theorems speak of every interleaving and every history.

  \<^bold>\<open>Fuel and bounds.\<close>  Only \<open>RemoveDirectory\<close> takes fuel, because its loops run as long as the card lists
  names; \<open>remove_directory_ends\<close> gives an amount that is enough on a card with finitely many entries.
  All other loops are total functions; the recursive methods of the JSON parser end because every
  call consumes text (\<open>progress_partial\<close> and \<open>parser_total\<close> in \<open>Json_Parser\<close>); the decoder loop of \<open>Zip_Stream\<close> ends because each round
  consumes input or delivers output within the size of the member.

  \<^bold>\<open>Parameters.\<close>  miniz (raw deflate, vendored under \<open>src/third_party\<close>), mbedTLS (the verification of one
  signature) and FatFs are third-party code and not modelled.  They are arguments of the definitions: of
  miniz only the bounds of its buffers are used, of mbedTLS nothing, of FatFs the laws of the locales.
  These laws idealise a card in three points: names are the same when they agree up to ASCII case (there
  are no short aliases; the paths that reach FatFs have no duplicate separators or dot components because
  the validators refuse them), a call that fails leaves every other name as it was, and nobody else
  writes to the card.  The source of an archive answers the same read always in the same way, as its
  header demands.

  \<^bold>\<open>Not modelled.\<close>  The emulation cores and their bridges, the display, sound, input and GPU code, the
  network stack under HTTP and TLS, the services and routers that join the parts, the developer
  interface's file transactions, the assessment and merge of configuration files (of the configuration
  migration only the registry the manifest parser consults is), and the tables of status strings.
  Interrupt and lock details are not modelled: an operation under a lock is one step.
\<close>

end
